(* ===== verification/Prelude.thy ===== *)
theory Prelude
  imports Main "HOL-Library.Word" "HOL-Library.Char_ord" "HOL-Library.List_Lexorder"
    "HOL-Library.Product_Lexorder"
begin

text \<open>
  Shared vocabulary of the development: machine integers with Rust's saturating operations, the
  result type of fallible operations, byte strings with the few operations the code uses on them,
  and the generic lemmas on lists that several components need.

  A Rust \<open>String\<close> is modelled by its UTF-8 bytes, as a \<open>string\<close> (one \<open>char\<close> per byte): \<open>len()\<close> is
  \<open>length\<close>, and \<open>chars().count()\<close> is \<open>char_count\<close>, the number of bytes that are not UTF-8
  continuation bytes.
\<close>

section \<open>Machine integers\<close>

type_synonym u8 = "8 word"
type_synonym u16 = "16 word"
type_synonym u32 = "32 word"
type_synonym u64 = "64 word"

named_theorems sat_simps \<open>saturating arithmetic read on the naturals\<close>

text \<open>Rust's \<open>saturating_add\<close> and \<open>saturating_sub\<close> on unsigned words.\<close>

definition sat_add :: "'a::len word \<Rightarrow> 'a word \<Rightarrow> 'a word" where
  "sat_add a b = (if unat a + unat b < 2 ^ LENGTH('a) then a + b else - 1)"

definition sat_sub :: "'a::len word \<Rightarrow> 'a word \<Rightarrow> 'a word" where
  "sat_sub a b = (if a < b then 0 else a - b)"

lemma unat_minus_one_max: "unat (- 1 :: 'a::len word) = 2 ^ LENGTH('a) - 1"
  by (simp add: unsigned_minus_1_eq_mask mask_eq_exp_minus_1)

lemma unat_sat_add [sat_simps]:
  "unat (sat_add a (b :: 'a::len word)) = min (unat a + unat b) (2 ^ LENGTH('a) - 1)"
proof (cases "unat a + unat b < 2 ^ LENGTH('a)")
  case True
  then have "unat (a + b) = unat a + unat b"
    by (simp add: unat_word_ariths)
  with True show ?thesis by (simp add: sat_add_def)
next
  case False
  then show ?thesis by (simp add: sat_add_def unat_minus_one_max)
qed

lemma unat_sat_sub [sat_simps]: "unat (sat_sub a b) = unat a - unat b"
  by (auto simp: sat_sub_def word_less_nat_alt unat_sub_if')

lemma word_eq_unatI: "unat a = unat b \<Longrightarrow> a = (b :: 'a::len word)"
  by (simp add: word_unat_eq_iff)

lemma sat_add_commute: "sat_add a b = sat_add b a"
  by (rule word_eq_unatI) (simp add: sat_simps add.commute)

lemma min_plus_min: "min (min (a + b) m + c) m = min (a + min (b + c) m) (m :: nat)"
  by (auto simp: min_def)

lemma sat_add_assoc: "sat_add (sat_add a b) c = sat_add a (sat_add b c)"
  by (rule word_eq_unatI) (simp only: sat_simps min_plus_min)

lemma sat_add_left_commute: "sat_add a (sat_add b c) = sat_add b (sat_add a c)"
  by (metis sat_add_assoc sat_add_commute)

lemmas sat_add_ac = sat_add_assoc sat_add_commute sat_add_left_commute

lemma sat_add_0 [simp]: "sat_add 0 a = a" "sat_add a 0 = a"
  by (simp_all add: sat_add_def)

text \<open>Signed 64-bit integers are integers with the bounds written out.\<close>

definition i64_max :: int where "i64_max = 9223372036854775807"
definition i64_min :: int where "i64_min = - 9223372036854775808"

definition is_i64 :: "int \<Rightarrow> bool" where
  "is_i64 x \<longleftrightarrow> i64_min \<le> x \<and> x \<le> i64_max"

definition i64_sat_add :: "int \<Rightarrow> int \<Rightarrow> int" where
  "i64_sat_add a b = max i64_min (min i64_max (a + b))"

definition i64_sat_sub :: "int \<Rightarrow> int \<Rightarrow> int" where
  "i64_sat_sub a b = max i64_min (min i64_max (a - b))"

lemmas i64_defs = i64_max_def i64_min_def is_i64_def i64_sat_add_def i64_sat_sub_def

lemma i64_max_ge_0 [simp]: "0 \<le> i64_max"
  by (simp add: i64_max_def)

lemma i64_sat_add_commute: "i64_sat_add a b = i64_sat_add b a"
  by (simp add: i64_sat_add_def add.commute)

lemma i64_sat_add_nonneg:
  "0 \<le> a \<Longrightarrow> 0 \<le> b \<Longrightarrow> i64_sat_add a b = min i64_max (a + b)"
  by (simp add: i64_defs)

lemma i64_sat_add_le_max [simp]: "i64_sat_add a b \<le> i64_max"
  by (simp add: i64_defs)

lemma i64_sat_add_ge_0 [simp]: "0 \<le> a \<Longrightarrow> 0 \<le> b \<Longrightarrow> 0 \<le> i64_sat_add a b"
  by (simp add: i64_defs)

lemma i64_sat_add3_nonneg:
  "0 \<le> a \<Longrightarrow> 0 \<le> b \<Longrightarrow> 0 \<le> c \<Longrightarrow>
     i64_sat_add (i64_sat_add a b) c = min i64_max (a + b + c)"
  by (auto simp: i64_defs)

lemma is_i64_sat [simp]: "is_i64 (i64_sat_add a b)" "is_i64 (i64_sat_sub a b)"
  by (simp_all add: i64_defs)

section \<open>Results\<close>

text \<open>\<open>Inl\<close> is Rust's \<open>Err\<close>, \<open>Inr\<close> its \<open>Ok\<close>; \<open>rbind\<close> is the \<open>?\<close> operator.\<close>

definition rbind :: "'e + 'a \<Rightarrow> ('a \<Rightarrow> 'e + 'b) \<Rightarrow> 'e + 'b" where
  "rbind r f = (case r of Inl e \<Rightarrow> Inl e | Inr x \<Rightarrow> f x)"

lemma rbind_simps [simp]: "rbind (Inl e) f = Inl e" "rbind (Inr x) f = f x"
  by (simp_all add: rbind_def)

lemma rbind_eq_Inr: "rbind r f = Inr y \<longleftrightarrow> (\<exists>x. r = Inr x \<and> f x = Inr y)"
  by (cases r) auto

lemma rbind_InrE [elim!]:
  assumes "rbind r f = Inr y"
  obtains x where "r = Inr x" "f x = Inr y"
  using assms by (auto simp: rbind_eq_Inr)

lemma rbind_cong [fundef_cong]:
  "r = r' \<Longrightarrow> (\<And>x. r' = Inr x \<Longrightarrow> f x = g x) \<Longrightarrow> rbind r f = rbind r' g"
  by (cases r') auto

text \<open>Collecting an iterator of results: the first \<open>Err\<close>, or all the values.\<close>

fun rmap :: "('a \<Rightarrow> 'e + 'b) \<Rightarrow> 'a list \<Rightarrow> 'e + 'b list" where
  "rmap f [] = Inr []"
| "rmap f (x # xs) = rbind (f x) (\<lambda>y. rbind (rmap f xs) (\<lambda>ys. Inr (y # ys)))"

lemma rmap_Inr: "(\<And>x. x \<in> set xs \<Longrightarrow> f x = Inr (g x)) \<Longrightarrow> rmap f xs = Inr (map g xs)"
  by (induction xs) auto

lemma rmap_Inr_set: "rmap f xs = Inr ys \<Longrightarrow> y \<in> set ys \<longleftrightarrow> (\<exists>x\<in>set xs. f x = Inr y)"
  by (induction xs arbitrary: ys) auto

lemma rmap_Inr_length: "rmap f xs = Inr ys \<Longrightarrow> length ys = length xs"
  by (induction xs arbitrary: ys) auto

lemma rmap_cong [fundef_cong]:
  "xs = ys \<Longrightarrow> (\<And>x. x \<in> set ys \<Longrightarrow> f x = g x) \<Longrightarrow> rmap f xs = rmap g ys"
  by (induction ys arbitrary: xs) (auto intro: rbind_cong)

text \<open>A loop whose body may fail: the state so far, or the first \<open>Err\<close>.\<close>

fun rfold :: "('a \<Rightarrow> 's \<Rightarrow> 'e + 's) \<Rightarrow> 'a list \<Rightarrow> 's \<Rightarrow> 'e + 's" where
  "rfold f [] s = Inr s"
| "rfold f (x # xs) s = rbind (f x s) (rfold f xs)"

lemma rfold_append: "rfold f (xs @ ys) s = rbind (rfold f xs s) (rfold f ys)"
proof (induction xs arbitrary: s)
  case (Cons x xs)
  then show ?case by (cases "f x s") simp_all
qed simp

text \<open>An invariant of every step is an invariant of the loop.\<close>

lemma rfold_invariant:
  "rfold f xs s = Inr t \<Longrightarrow> I s \<Longrightarrow>
     (\<And>x u v. x \<in> set xs \<Longrightarrow> I u \<Longrightarrow> f x u = Inr v \<Longrightarrow> I v) \<Longrightarrow> I t"
  by (induction xs arbitrary: s) auto

section \<open>Strings\<close>

definition byte_of :: "char \<Rightarrow> nat" where "byte_of c = of_char c"

definition is_ascii_lower :: "char \<Rightarrow> bool" where
  "is_ascii_lower c \<longleftrightarrow> 97 \<le> byte_of c \<and> byte_of c \<le> 122"

definition is_ascii_upper :: "char \<Rightarrow> bool" where
  "is_ascii_upper c \<longleftrightarrow> 65 \<le> byte_of c \<and> byte_of c \<le> 90"

definition is_ascii_digit :: "char \<Rightarrow> bool" where
  "is_ascii_digit c \<longleftrightarrow> 48 \<le> byte_of c \<and> byte_of c \<le> 57"

definition is_utf8_continuation :: "char \<Rightarrow> bool" where
  "is_utf8_continuation c \<longleftrightarrow> 128 \<le> byte_of c \<and> byte_of c \<le> 191"

definition char_count :: "string \<Rightarrow> nat" where
  "char_count s = length (filter (\<lambda>c. \<not> is_utf8_continuation c) s)"

lemma char_count_le: "char_count s \<le> length s"
  by (simp add: char_count_def)

text \<open>\<open>strip_prefix\<close>: the rest of the string after the prefix, if it has it.\<close>

fun strip_prefix :: "string \<Rightarrow> string \<Rightarrow> string option" where
  "strip_prefix [] s = Some s"
| "strip_prefix (p # ps) [] = None"
| "strip_prefix (p # ps) (c # cs) = (if p = c then strip_prefix ps cs else None)"

lemma strip_prefix_iff: "strip_prefix p s = Some r \<longleftrightarrow> s = p @ r"
  by (induction p s rule: strip_prefix.induct) auto

lemma strip_prefix_append [simp]: "strip_prefix p (p @ r) = Some r"
  by (simp add: strip_prefix_iff)

text \<open>\<open>join\<close> and \<open>split\<close> with a one-byte separator.\<close>

fun join :: "char \<Rightarrow> string list \<Rightarrow> string" where
  "join c [] = []"
| "join c [s] = s"
| "join c (s # t # ss) = s @ c # join c (t # ss)"

fun split_on :: "char \<Rightarrow> string \<Rightarrow> string list" where
  "split_on c [] = [[]]"
| "split_on c (x # xs) =
     (if x = c then [] # split_on c xs
      else (case split_on c xs of [] \<Rightarrow> [[x]] | s # ss \<Rightarrow> (x # s) # ss))"

lemma split_on_not_Nil [simp]: "split_on c s \<noteq> []"
  by (induction s) (auto split: list.splits)

lemma split_on_no_sep: "c \<notin> set s \<Longrightarrow> split_on c s = [s]"
  by (induction s) auto

lemma split_on_append:
  "c \<notin> set s \<Longrightarrow> split_on c (s @ c # r) = s # split_on c r"
  by (induction s) auto

lemma split_on_join:
  assumes "ss \<noteq> []" "\<forall>s\<in>set ss. c \<notin> set s"
  shows "split_on c (join c ss) = ss"
  using assms
proof (induction c ss rule: join.induct)
  case (2 c s)
  then show ?case by (simp add: split_on_no_sep)
next
  case (3 c s t ss)
  then show ?case by (simp add: split_on_append)
qed simp

text \<open>Decimal rendering, and zero padding to a width (the \<open>{:0w}\<close> of a format string).\<close>

fun dec :: "nat \<Rightarrow> string" where
  "dec n = (if n < 10 then [char_of (48 + n)] else dec (n div 10) @ [char_of (48 + n mod 10)])"

declare dec.simps [simp del]

text \<open>The em dash of the messages, in UTF-8.\<close>

definition em_dash :: string where "em_dash = [CHR 0xE2, CHR 0x80, CHR 0x94]"

definition pad0 :: "nat \<Rightarrow> nat \<Rightarrow> string" where
  "pad0 w n = (let s = dec n in replicate (w - length s) (CHR ''0'') @ s)"

section \<open>Lists\<close>

text \<open>The first element that satisfies a predicate, \<open>Iterator::find\<close>.\<close>

lemma find_Some_in: "find P xs = Some x \<Longrightarrow> x \<in> set xs \<and> P x"
  by (induction xs) (auto split: if_splits)

lemma find_None_all: "find P xs = None \<longleftrightarrow> (\<forall>x\<in>set xs. \<not> P x)"
  by (induction xs) auto

text \<open>Duplicates removed, the first occurrence kept.\<close>

definition dedup_first :: "'a list \<Rightarrow> 'a list" where
  "dedup_first xs = foldl (\<lambda>seen x. if x \<in> set seen then seen else seen @ [x]) [] xs"

lemma dedup_foldl_props:
  "distinct acc \<Longrightarrow>
     (let r = foldl (\<lambda>seen x. if x \<in> set seen then seen else seen @ [x]) acc xs
      in distinct r \<and> set r = set acc \<union> set xs)"
  by (induction xs arbitrary: acc) (auto simp: Let_def)

lemma distinct_dedup_first [simp]: "distinct (dedup_first xs)"
  and set_dedup_first [simp]: "set (dedup_first xs) = set xs"
  using dedup_foldl_props [of "[]" xs] by (auto simp: dedup_first_def Let_def)

lemma dedup_foldl_distinct:
  "distinct (acc @ xs) \<Longrightarrow>
     foldl (\<lambda>seen x. if x \<in> set seen then seen else seen @ [x]) acc xs = acc @ xs"
  by (induction xs arbitrary: acc) auto

lemma dedup_first_distinct: "distinct xs \<Longrightarrow> dedup_first xs = xs"
  by (simp add: dedup_first_def dedup_foldl_distinct)

lemma dedup_first_idem [simp]: "dedup_first (dedup_first xs) = dedup_first xs"
  by (simp add: dedup_first_distinct)

text \<open>\<open>Vec::sort\<close> followed by \<open>Vec::dedup\<close>.\<close>

definition sort_dedup :: "'a::linorder list \<Rightarrow> 'a list" where
  "sort_dedup xs = remdups_adj (sort xs)"

lemma set_sort_dedup [simp]: "set (sort_dedup xs) = set xs"
  by (simp add: sort_dedup_def)

lemma sorted_sort_dedup [simp]: "sorted (sort_dedup xs)"
  by (simp add: sort_dedup_def sorted_remdups_adj)

lemma distinct_remdups_adj_sorted: "sorted xs \<Longrightarrow> distinct (remdups_adj xs)"
  by (induction xs rule: remdups_adj.induct) (auto simp: order.order_iff_strict)

lemma distinct_sort_dedup [simp]: "distinct (sort_dedup xs)"
  by (simp add: sort_dedup_def distinct_remdups_adj_sorted)

lemma sort_dedup_unique:
  "sorted xs \<Longrightarrow> distinct xs \<Longrightarrow> sort_dedup xs = xs"
  by (simp add: sort_dedup_def sort_key_id_if_sorted remdups_adj_distinct)

lemma sort_dedup_cong: "set xs = set ys \<Longrightarrow> sort_dedup xs = sort_dedup ys"
  by (rule sorted_distinct_set_unique) auto

lemma sort_dedup_idem [simp]: "sort_dedup (sort_dedup xs) = sort_dedup xs"
  by (simp add: sort_dedup_unique)

section \<open>Lists\<close>

lemma find_append: "find P (xs @ ys) = (case find P xs of None \<Rightarrow> find P ys | Some x \<Rightarrow> Some x)"
  by (induction xs) auto

lemma find_filter_key:
  "distinct (map k xs) \<Longrightarrow> find (\<lambda>x. k x = a) (filter P xs) =
     (case find (\<lambda>x. k x = a) xs of Some x \<Rightarrow> if P x then Some x else None | None \<Rightarrow> None)"
  by (induction xs) (auto simp: find_None_iff image_iff dest!: find_Some_in split: option.splits)

lemma count_list_distinct: "distinct xs \<Longrightarrow> count_list xs x = (if x \<in> set xs then 1 else 0)"
  by (induction xs) auto

lemma rmap_total: "(\<And>x. x \<in> set xs \<Longrightarrow> \<exists>y. f x = Inr y) \<Longrightarrow> \<exists>ys. rmap f xs = Inr ys"
proof (induction xs)
  case (Cons x xs)
  then obtain y ys where "f x = Inr y" "rmap f xs = Inr ys" by fastforce
  then show ?case by simp
qed simp

end
