(* ===== verification/Lifecycle.thy ===== *)
theory Lifecycle
  imports Prelude
begin

text \<open>
  The lifecycle state machine of an Agent Instance
  (\<open>hekma-engine/src/domain/lifecycle.rs\<close>, \<open>transition.rs\<close>): the seven states with their wire form,
  the operator commands, and the command table \<open>next_state\<close>.
\<close>

datatype lifecycle_state =
  Registered | Starting | Running | Paused | Stopping | Stopped | Failed

fun lifecycle_as_str :: "lifecycle_state \<Rightarrow> string" where
  "lifecycle_as_str Registered = ''registered''"
| "lifecycle_as_str Starting = ''starting''"
| "lifecycle_as_str Running = ''running''"
| "lifecycle_as_str Paused = ''paused''"
| "lifecycle_as_str Stopping = ''stopping''"
| "lifecycle_as_str Stopped = ''stopped''"
| "lifecycle_as_str Failed = ''failed''"

definition lifecycle_from_wire :: "string \<Rightarrow> lifecycle_state option" where
  "lifecycle_from_wire v =
     (if v = ''registered'' then Some Registered
      else if v = ''starting'' then Some Starting
      else if v = ''running'' then Some Running
      else if v = ''paused'' then Some Paused
      else if v = ''stopping'' then Some Stopping
      else if v = ''stopped'' then Some Stopped
      else if v = ''failed'' then Some Failed
      else None)"

definition is_removable_without_force :: "lifecycle_state \<Rightarrow> bool" where
  "is_removable_without_force s \<longleftrightarrow> s \<noteq> Running"

datatype lifecycle_command = Start | Stop | Pause | Resume

fun command_as_str :: "lifecycle_command \<Rightarrow> string" where
  "command_as_str Start = ''start''"
| "command_as_str Stop = ''stop''"
| "command_as_str Pause = ''pause''"
| "command_as_str Resume = ''resume''"

datatype lifecycle_error = InvalidTransition lifecycle_state lifecycle_command

fun next_state :: "lifecycle_state \<Rightarrow> lifecycle_command \<Rightarrow> lifecycle_error + lifecycle_state" where
  "next_state Registered Start = Inr Starting"
| "next_state Stopped Start = Inr Starting"
| "next_state Failed Start = Inr Starting"
| "next_state Running Stop = Inr Stopping"
| "next_state Paused Stop = Inr Stopping"
| "next_state Running Pause = Inr Paused"
| "next_state Paused Resume = Inr Running"
| "next_state from command = Inl (InvalidTransition from command)"

lemma lifecycle_wire_roundtrip: "lifecycle_from_wire (lifecycle_as_str s) = Some s"
  by (cases s) (simp_all add: lifecycle_from_wire_def)

lemma lifecycle_from_wire_Some: "lifecycle_from_wire v = Some s \<longleftrightarrow> v = lifecycle_as_str s"
  by (cases s) (auto simp: lifecycle_from_wire_def)

lemma next_state_error: "next_state s c = Inl e \<Longrightarrow> e = InvalidTransition s c"
  by (cases s; cases c) auto

text \<open>
  The event-driven edges the supervisor applies beside the command table (the module header of
  \<open>transition.rs\<close> lists them): the adapter came up, the launch failed, the process exited, a crash
  was detected.
\<close>

inductive lifecycle_step :: "lifecycle_state \<Rightarrow> lifecycle_state \<Rightarrow> bool" where
  command: "next_state s c = Inr t \<Longrightarrow> lifecycle_step s t"
| adapter_ready: "lifecycle_step Starting Running"
| launch_error: "lifecycle_step Starting Failed"
| exited: "lifecycle_step Stopping Stopped"
| crashed: "lifecycle_step Running Failed"

inductive_cases lifecycle_stepE: "lifecycle_step s t"

end
