(* ===== verification/Restart.thy ===== *)
theory Restart
  imports Lifecycle
begin

text \<open>
  The Restart Policy (\<open>hekma-engine/src/domain/restart.rs\<close>) and the crash planner that executes it
  (\<open>Supervisor::plan_restart\<close> and \<open>plan_requested_restart\<close> in \<open>domain/supervisor/reaper.rs\<close>) over the
  \<open>agent_runtime\<close> rows of \<open>store/sqlite.rs\<close>. A \<open>Duration\<close> is its number of nanoseconds.
  The engine's registry calls are best effort in the planner (\<open>let _ =\<close>): a call on an instance the
  store does not know changes nothing.
\<close>

type_synonym duration = nat

definition from_secs :: "nat \<Rightarrow> duration" where "from_secs s = s * 1000000000"
definition as_secs :: "duration \<Rightarrow> nat" where "as_secs d = d div 1000000000"

definition max_consecutive_failures :: u32 where "max_consecutive_failures = 5"
definition production_base :: duration where "production_base = from_secs 1"
definition production_cap :: duration where "production_cap = from_secs 60"
definition stable_run_window_production :: duration where
  "stable_run_window_production = from_secs 30"

datatype restart_policy = Never | OnFailure

fun policy_as_str :: "restart_policy \<Rightarrow> string" where
  "policy_as_str Never = ''never''"
| "policy_as_str OnFailure = ''on-failure''"

definition policy_from_wire :: "string \<Rightarrow> restart_policy option" where
  "policy_from_wire v =
     (if v = ''never'' then Some Never
      else if v = ''on-failure'' then Some OnFailure else None)"

definition restarts_on_crash :: "restart_policy \<Rightarrow> bool" where
  "restarts_on_crash p \<longleftrightarrow> p = OnFailure"

definition default_policy :: restart_policy where "default_policy = OnFailure"

record backoff_schedule =
  bo_base :: duration
  bo_cap :: duration

definition production_schedule :: backoff_schedule where
  "production_schedule = \<lparr>bo_base = production_base, bo_cap = production_cap\<rparr>"

definition u128_sat_mul :: "nat \<Rightarrow> nat \<Rightarrow> nat" where
  "u128_sat_mul a b = min (a * b) (2 ^ 128 - 1)"

definition delay_for :: "backoff_schedule \<Rightarrow> u32 \<Rightarrow> duration" where
  "delay_for s consecutive_failures =
     (let n = max consecutive_failures 1; shift = unat (n - 1) in
      if 63 \<le> shift then bo_cap s
      else (let scaled = u128_sat_mul (bo_base s) (2 ^ shift);
                clamped = min scaled (bo_cap s)
            in min clamped (2 ^ 64 - 1)))"

definition is_crash_loop :: "u32 \<Rightarrow> bool" where
  "is_crash_loop n \<longleftrightarrow> max_consecutive_failures \<le> n"

definition next_consecutive_failures ::
  "u32 \<Rightarrow> duration option \<Rightarrow> duration \<Rightarrow> u32 \<times> bool" where
  "next_consecutive_failures current stable_run window =
     (case stable_run of
        Some run \<Rightarrow> if window \<le> run then (1, True) else (sat_add current 1, False)
      | None \<Rightarrow> (sat_add current 1, False))"

section \<open>The runtime rows\<close>

text \<open>\<open>ProcessFingerprint\<close>: the process id and its start-time token.\<close>

type_synonym fingerprint = "u32 \<times> u64"

record spawn_record =
  sr_pid :: u32
  sr_start_time :: u64
  sr_policy :: restart_policy
  sr_count :: u32
  sr_cause :: "string option"
  sr_detach :: bool
  sr_acp_session :: "string option"
  sr_run_id :: "string option"
  sr_owner :: "fingerprint option"
  sr_lease :: "fingerprint option"

text \<open>The planner's state: the instances the store knows, their runtime rows, and the supervisor's
  in-memory streaks of requested restarts.\<close>

record planner =
  pl_known :: "string list"
  pl_runtime :: "string \<rightharpoonup> spawn_record"
  pl_streaks :: "string \<rightharpoonup> u32"

definition get_spawn_record :: "planner \<Rightarrow> string \<Rightarrow> spawn_record option" where
  "get_spawn_record p name = (if name \<in> set (pl_known p) then pl_runtime p name else None)"

definition set_restart_count :: "string \<Rightarrow> u32 \<Rightarrow> string option \<Rightarrow> planner \<Rightarrow> planner" where
  "set_restart_count name count cause p =
     (if name \<notin> set (pl_known p) then p
      else (case pl_runtime p name of
              None \<Rightarrow> p
            | Some r \<Rightarrow> p\<lparr>pl_runtime := (pl_runtime p)(name \<mapsto> r\<lparr>sr_count := count, sr_cause := cause\<rparr>)\<rparr>))"

definition policy_seed :: "restart_policy \<Rightarrow> u32 \<Rightarrow> string option \<Rightarrow> spawn_record" where
  "policy_seed policy count session =
     \<lparr>sr_pid = 0, sr_start_time = 0, sr_policy = policy, sr_count = count, sr_cause = None,
      sr_detach = False, sr_acp_session = session, sr_run_id = None,
      sr_owner = None, sr_lease = None\<rparr>"

definition set_restart_policy :: "string \<Rightarrow> restart_policy \<Rightarrow> planner \<Rightarrow> planner" where
  "set_restart_policy name policy p =
     (if name \<notin> set (pl_known p) then p
      else p\<lparr>pl_runtime := (pl_runtime p)(name \<mapsto>
              (case pl_runtime p name of
                 None \<Rightarrow> policy_seed policy 0 None
               | Some r \<Rightarrow> r\<lparr>sr_policy := policy\<rparr>))\<rparr>)"

definition settle_spawn_record :: "string \<Rightarrow> planner \<Rightarrow> planner" where
  "settle_spawn_record name p =
     (case get_spawn_record p name of
        None \<Rightarrow> p
      | Some r \<Rightarrow>
          p\<lparr>pl_runtime := (pl_runtime p)(name :=
             map_option (\<lambda>session. policy_seed (sr_policy r) (sr_count r) (Some session))
               (sr_acp_session r))\<rparr>)"

definition settle_terminal_record :: "string \<Rightarrow> restart_policy \<Rightarrow> planner \<Rightarrow> planner" where
  "settle_terminal_record name policy p =
     set_restart_policy name policy (settle_spawn_record name p)"

section \<open>The crash planner\<close>

record restart_plan =
  rp_name :: string
  rp_attempt :: u32
  rp_delay :: duration

record restart_decision =
  rd_cause :: string
  rd_plan :: "restart_plan option"

definition plan_restart ::
  "backoff_schedule \<Rightarrow> duration \<Rightarrow> string \<Rightarrow> string \<Rightarrow> duration option \<Rightarrow> planner
     \<Rightarrow> restart_decision \<times> planner" where
  "plan_restart backoff window name crash_detail running_for p0 =
     (let p = p0\<lparr>pl_streaks := (pl_streaks p0)(name := None)\<rparr>;
          rec = get_spawn_record p name;
          policy = (case rec of Some r \<Rightarrow> sr_policy r | None \<Rightarrow> default_policy);
          current = (case rec of Some r \<Rightarrow> sr_count r | None \<Rightarrow> 0)
      in if \<not> restarts_on_crash policy then
           (\<lparr>rd_cause = crash_detail @ ''; restart policy is 'never' '' @ em_dash @ '' not restarting'',
             rd_plan = None\<rparr>,
            settle_terminal_record name policy p)
         else
           (let (next, reset) = next_consecutive_failures current running_for window;
                detail = (case (reset, running_for) of
                    (True, Some run) \<Rightarrow>
                      crash_detail @ ''; the previous run was stable for '' @ dec (as_secs run)
                        @ ''s '' @ em_dash @ '' consecutive-failure count reset''
                  | _ \<Rightarrow> crash_detail)
            in if is_crash_loop next then
                 (\<lparr>rd_cause = detail @ ''; crash-loop: '' @ dec (unat max_consecutive_failures)
                     @ '' consecutive failures reached '' @ em_dash
                     @ '' not restarting, inspect the agent and start it manually'',
                   rd_plan = None\<rparr>,
                  settle_terminal_record name policy p)
               else
                 (\<lparr>rd_cause = detail,
                   rd_plan = Some \<lparr>rp_name = name, rp_attempt = next,
                                   rp_delay = delay_for backoff next\<rparr>\<rparr>,
                  set_restart_count name next (Some detail) p)))"

definition plan_requested_restart ::
  "backoff_schedule \<Rightarrow> string \<Rightarrow> planner \<Rightarrow> (restart_plan \<times> u32) option \<times> planner" where
  "plan_requested_restart backoff name p =
     (let rec = get_spawn_record p name;
          policy = (case rec of Some r \<Rightarrow> sr_policy r | None \<Rightarrow> default_policy)
      in if \<not> restarts_on_crash policy then
           (None, settle_terminal_record name policy
                    (p\<lparr>pl_streaks := (pl_streaks p)(name := None)\<rparr>))
         else
           (let current = (case rec of Some r \<Rightarrow> sr_count r | None \<Rightarrow> 0);
                streak = (case pl_streaks p name of Some s \<Rightarrow> s | None \<Rightarrow> 0);
                depth = streak + 1
            in (Some (\<lparr>rp_name = name, rp_attempt = current,
                       rp_delay = delay_for backoff (current + streak + 1)\<rparr>, depth),
                p\<lparr>pl_streaks := (pl_streaks p)(name \<mapsto> depth)\<rparr>)))"

section \<open>Backoff\<close>

lemma policy_wire_roundtrip: "policy_from_wire (policy_as_str p) = Some p"
  by (cases p) (simp_all add: policy_from_wire_def)

lemma delay_for_le_cap: "delay_for s n \<le> bo_cap s"
  by (auto simp: delay_for_def Let_def)

text \<open>Under the bounds every real schedule has, the delay is the documented formula: the guard at a
  shift of 63 and the two saturations never show.\<close>

lemma delay_for_formula:
  assumes "0 < bo_base s" and "bo_cap s \<le> 2 ^ 63"
  shows "delay_for s n = min (bo_base s * 2 ^ (unat (max n 1) - 1)) (bo_cap s)"
proof -
  have shift: "unat (max n 1 - 1) = unat (max n 1) - 1"
    by (simp add: unat_sub max_def)
  let ?k = "unat (max n 1) - 1"
  show ?thesis
  proof (cases "63 \<le> ?k")
    case True
    have "(2::nat) ^ 63 \<le> 2 ^ ?k"
      using True by (rule power_increasing) simp
    also have "\<dots> \<le> bo_base s * 2 ^ ?k"
      using assms(1) by simp
    finally have "bo_cap s \<le> bo_base s * 2 ^ ?k"
      using assms(2) by linarith
    with True show ?thesis
      by (simp add: delay_for_def shift min_def)
  next
    case False
    with assms(2) show ?thesis
      by (simp add: delay_for_def shift u128_sat_mul_def min_def Let_def)
  qed
qed

text \<open>The guard at 63 is not the formula when the base is zero.\<close>

lemma delay_for_zero_base_jumps_to_cap:
  "delay_for \<lparr>bo_base = 0, bo_cap = c\<rparr> 63 = 0 \<and> delay_for \<lparr>bo_base = 0, bo_cap = c\<rparr> 64 = c"
  by (simp add: delay_for_def u128_sat_mul_def)

text \<open>The production backoff before the n-th consecutive restart is 1s doubled n - 1 times and
  capped at 60s, for every value of the 32-bit counter (0 counts as 1): no overflow, no shift panic.\<close>

lemma production_backoff:
  "delay_for production_schedule n
     = min (from_secs (2 ^ (unat (max n 1) - 1))) (from_secs 60)"
  by (simp add: delay_for_formula production_schedule_def production_base_def production_cap_def
      from_secs_def)

section \<open>Crash storms\<close>

text \<open>A run is young when it has no anchor or held \<open>running\<close> for less than the stable window.\<close>

definition young :: "duration \<Rightarrow> duration option \<Rightarrow> bool" where
  "young window d \<longleftrightarrow> (case d of None \<Rightarrow> True | Some run \<Rightarrow> run < window)"

text \<open>One crash after another on the same instance, each with its own run time; the planner's state
  carries the persisted counter from one to the next.\<close>

fun crash_run ::
  "backoff_schedule \<Rightarrow> duration \<Rightarrow> string \<Rightarrow> string \<Rightarrow> duration option list \<Rightarrow> planner
     \<Rightarrow> restart_plan option list" where
  "crash_run b w name detail [] p = []"
| "crash_run b w name detail (d # ds) p =
     (let (dec, p') = plan_restart b w name detail d p
      in rd_plan dec # crash_run b w name detail ds p')"

definition supervised_row :: "planner \<Rightarrow> string \<Rightarrow> u32 \<Rightarrow> bool" where
  "supervised_row p name c \<longleftrightarrow>
     (\<exists>r. get_spawn_record p name = Some r \<and> sr_policy r = OnFailure \<and> sr_count r = c)"

lemma next_young: "young w d \<Longrightarrow> next_consecutive_failures c d w = (sat_add c 1, False)"
  by (auto simp: young_def next_consecutive_failures_def split: option.splits)

lemma next_stable: "w \<le> run \<Longrightarrow> next_consecutive_failures c (Some run) w = (1, True)"
  by (simp add: next_consecutive_failures_def)

lemma plan_restart_below:
  assumes "supervised_row p name c" and "next_consecutive_failures c d w = (n, reset)"
    and "\<not> is_crash_loop n"
  shows "\<exists>p'. supervised_row p' name n \<and> snd (plan_restart b w name detail d p) = p'
    \<and> rd_plan (fst (plan_restart b w name detail d p))
          = Some \<lparr>rp_name = name, rp_attempt = n, rp_delay = delay_for b n\<rparr>"
  using assms
  by (auto simp: supervised_row_def plan_restart_def Let_def get_spawn_record_def
      set_restart_count_def restarts_on_crash_def split: if_splits)

lemma plan_restart_loop:
  assumes "supervised_row p name c" and "next_consecutive_failures c d w = (n, reset)"
    and "is_crash_loop n"
  shows "rd_plan (fst (plan_restart b w name detail d p)) = None"
  using assms
  by (auto simp: supervised_row_def plan_restart_def Let_def get_spawn_record_def
      restarts_on_crash_def split: if_splits)

lemma crash_run_young:
  assumes "supervised_row p name c" and "young w d"
  shows "\<exists>p'. (\<not> is_crash_loop (sat_add c 1) \<longrightarrow> supervised_row p' name (sat_add c 1))
    \<and> crash_run b w name detail (d # ds) p
        = (if is_crash_loop (sat_add c 1) then None
           else Some \<lparr>rp_name = name, rp_attempt = sat_add c 1,
                      rp_delay = delay_for b (sat_add c 1)\<rparr>)
          # crash_run b w name detail ds p'"
proof -
  obtain dec p' where eq: "plan_restart b w name detail d p = (dec, p')"
    by (cases "plan_restart b w name detail d p")
  note nxt = next_young [OF assms(2), of c]
  show ?thesis
  proof (cases "is_crash_loop (sat_add c 1)")
    case True
    with plan_restart_loop [OF assms(1) nxt, of b detail] eq show ?thesis by auto
  next
    case False
    with plan_restart_below [OF assms(1) nxt, of b detail] eq show ?thesis by auto
  qed
qed

definition plan_of :: "backoff_schedule \<Rightarrow> string \<Rightarrow> u32 \<Rightarrow> restart_plan" where
  "plan_of b name n = \<lparr>rp_name = name, rp_attempt = n, rp_delay = delay_for b n\<rparr>"

lemma crash_run_young_prefix:
  assumes "supervised_row p name c" and "\<forall>d\<in>set ds. young w d" and "unat c + length ds < 5"
  shows "\<exists>p'. supervised_row p' name (c + of_nat (length ds))
    \<and> crash_run b w name detail (ds @ es) p
        = map (\<lambda>i. Some (plan_of b name (c + of_nat (Suc i)))) [0..<length ds]
          @ crash_run b w name detail es p'"
  using assms
proof (induction ds arbitrary: p c)
  case Nil
  then show ?case by (auto intro: exI [of _ p])
next
  case (Cons d ds)
  have small: "unat c + 1 < 5" using Cons.prems(3) by simp
  then have sat: "sat_add c 1 = c + 1" by (simp add: sat_add_def)
  have un: "unat (c + 1) = unat c + 1" using small by (simp add: unat_word_ariths)
  have noloop: "\<not> is_crash_loop (c + 1)"
    using small by (simp add: is_crash_loop_def max_consecutive_failures_def word_le_nat_alt un)
  obtain p1 where p1: "supervised_row p1 name (c + 1)"
      "crash_run b w name detail (d # (ds @ es)) p
         = Some (plan_of b name (c + 1)) # crash_run b w name detail (ds @ es) p1"
    using crash_run_young [OF Cons.prems(1), of w d b detail "ds @ es"] Cons.prems(2) noloop
    by (auto simp: sat plan_of_def)
  have "unat (c + 1) + length ds < 5" using Cons.prems(3) un by simp
  then obtain p' where p': "supervised_row p' name (c + 1 + of_nat (length ds))"
      "crash_run b w name detail (ds @ es) p1
         = map (\<lambda>i. Some (plan_of b name (c + 1 + of_nat (Suc i)))) [0..<length ds]
           @ crash_run b w name detail es p'"
    using Cons.IH [OF p1(1)] Cons.prems(2) by auto
  have shifted: "map (\<lambda>i. Some (plan_of b name (c + of_nat (Suc i)))) [0..<length (d # ds)]
      = Some (plan_of b name (c + 1))
        # map (\<lambda>i. Some (plan_of b name (c + 1 + of_nat (Suc i)))) [0..<length ds]"
    by (simp add: map_upt_Suc add.assoc del: upt_Suc)
  have "crash_run b w name detail ((d # ds) @ es) p
      = map (\<lambda>i. Some (plan_of b name (c + of_nat (Suc i)))) [0..<length (d # ds)]
        @ crash_run b w name detail es p'"
    unfolding shifted using p1(2) p'(2) by (simp del: crash_run.simps)
  moreover have "supervised_row p' name (c + of_nat (length (d # ds)))"
    using p'(1) by (simp add: add.assoc)
  ultimately show ?case by blast
qed

text \<open>(C28) An instance under \<open>on-failure\<close> that keeps crashing young is restarted exactly four times,
  with the first four backoff delays; its fifth consecutive crash is terminal.\<close>

theorem crash_storm_stops_at_five:
  assumes "supervised_row p name 0" and "length ds = 5" and "\<forall>d\<in>set ds. young w d"
  shows "crash_run b w name detail ds p = map (\<lambda>n. Some (plan_of b name n)) [1, 2, 3, 4] @ [None]"
proof -
  have "length (drop 4 ds) = Suc 0" using assms(2) by simp
  then obtain d where "drop 4 ds = [d]" by (metis length_0_conv length_Suc_conv)
  then have ds: "ds = take 4 ds @ [d]" by (metis append_take_drop_id)
  have len: "length (take 4 ds) = 4" using assms(2) by simp
  have young: "\<forall>d\<in>set (take 4 ds). young w d" "young w d"
    using assms(3) ds by (auto dest: in_set_takeD) (metis in_set_conv_decomp)
  obtain p' where p': "supervised_row p' name 4"
      "crash_run b w name detail (take 4 ds @ [d]) p
         = map (\<lambda>i. Some (plan_of b name (of_nat (Suc i)))) [0..<4]
           @ crash_run b w name detail [d] p'"
    using crash_run_young_prefix [OF assms(1) young(1), of b detail "[d]"] len by auto
  have "is_crash_loop (sat_add 4 1)"
    by (simp add: is_crash_loop_def max_consecutive_failures_def sat_add_def)
  then have "crash_run b w name detail [d] p' = [None]"
    using crash_run_young [OF p'(1) young(2), of b detail "[]"] by auto
  moreover have "map (\<lambda>i. Some (plan_of b name (of_nat (Suc i)))) [0..<4]
      = map (\<lambda>n. Some (plan_of b name n)) [1, 2, 3, 4]"
    by (simp add: upt_rec numeral_eq_Suc)
  ultimately show ?thesis using p'(2) ds by simp
qed

definition demo_planner :: planner where
  "demo_planner =
     \<lparr>pl_known = [''demo''],
      pl_runtime = [''demo'' \<mapsto> \<lparr>sr_pid = 7, sr_start_time = 1, sr_policy = OnFailure, sr_count = 0,
        sr_cause = None, sr_detach = False, sr_acp_session = None, sr_run_id = None,
        sr_owner = None, sr_lease = None\<rparr>],
      pl_streaks = Map.empty\<rparr>"

lemma demo_planner_row: "supervised_row demo_planner ''demo'' 0"
  by (simp add: supervised_row_def demo_planner_def get_spawn_record_def)

theorem crash_storm_stops_at_five_witness:
  "map (map_option rp_delay)
     (crash_run production_schedule stable_run_window_production ''demo'' ''boom''
        [None, None, Some 5, None, None] demo_planner)
   = [Some (from_secs 1), Some (from_secs 2), Some (from_secs 4), Some (from_secs 8), None]"
proof -
  have "\<forall>d\<in>set [None, None, Some 5, None, None]. young stable_run_window_production d"
    by (simp add: young_def stable_run_window_production_def from_secs_def)
  then have "crash_run production_schedule stable_run_window_production ''demo'' ''boom''
        [None, None, Some 5, None, None] demo_planner
      = map (\<lambda>n. Some (plan_of production_schedule ''demo'' n)) [1, 2, 3, 4] @ [None]"
    by (rule crash_storm_stops_at_five [OF demo_planner_row, rotated]) simp
  then show ?thesis
    by (simp add: plan_of_def production_schedule_def delay_for_def u128_sat_mul_def
        production_base_def production_cap_def from_secs_def)
qed

text \<open>A requested recycle never charges: however often it repeats, the runtime rows (and so the
  persisted count the crash-loop check reads) do not change, each plan carries the unchanged count
  as its attempt, and the delay is paced by the in-memory streak alone.\<close>

theorem requested_restart_never_charges:
  assumes "supervised_row p name c"
  shows "\<exists>plan depth p'. plan_requested_restart b name p = (Some (plan, depth), p')
    \<and> pl_runtime p' = pl_runtime p \<and> pl_known p' = pl_known p
    \<and> rp_attempt plan = c
    \<and> depth = (case pl_streaks p name of Some s \<Rightarrow> s + 1 | None \<Rightarrow> 1)
    \<and> pl_streaks p' name = Some depth
    \<and> rp_delay plan = delay_for b (c + depth)"
  using assms
  by (auto simp: supervised_row_def plan_requested_restart_def Let_def restarts_on_crash_def
      add.assoc split: option.splits)

end
