(* ===== verification/Budget.thy ===== *)
theory Budget
  imports Prelude
begin

text \<open>
  The token dimension of the budget guardrail (\<open>hekma-engine/src/domain/budget.rs\<close>): ceilings, Breach
  Actions, scopes and the pure evaluator.
\<close>

record token_budget =
  tb_per_run :: "u64 option"
  tb_cumulative :: "u64 option"

definition token_budget_none :: token_budget where
  "token_budget_none = \<lparr>tb_per_run = None, tb_cumulative = None\<rparr>"

definition token_budget_is_set :: "token_budget \<Rightarrow> bool" where
  "token_budget_is_set b \<longleftrightarrow> tb_per_run b \<noteq> None \<or> tb_cumulative b \<noteq> None"

datatype breach_action = ActPause | ActStop | ActWarn | ActBlock

fun action_as_str :: "breach_action \<Rightarrow> string" where
  "action_as_str ActPause = ''pause''"
| "action_as_str ActStop = ''stop''"
| "action_as_str ActWarn = ''warn''"
| "action_as_str ActBlock = ''block''"

text \<open>\<open>FromStr for BreachAction\<close>; the error carries the rejected value.\<close>

definition parse_action :: "string \<Rightarrow> string + breach_action" where
  "parse_action s =
     (if s = ''pause'' then Inr ActPause
      else if s = ''stop'' then Inr ActStop
      else if s = ''warn'' then Inr ActWarn
      else if s = ''block'' then Inr ActBlock
      else Inl s)"

datatype breach_scope = PerRun | Cumulative

fun scope_as_str :: "breach_scope \<Rightarrow> string" where
  "scope_as_str PerRun = ''per-run''"
| "scope_as_str Cumulative = ''cumulative''"

datatype breach_decision =
    WithinBudget
  | Breached (bd_scope: breach_scope) (bd_action: breach_action) (bd_limit: u64) (bd_observed: u64)

definition is_breached :: "breach_decision \<Rightarrow> bool" where
  "is_breached d \<longleftrightarrow> d \<noteq> WithinBudget"

definition budget_evaluate :: "u64 \<Rightarrow> u64 \<Rightarrow> token_budget \<Rightarrow> breach_action \<Rightarrow> breach_decision" where
  "budget_evaluate run_total cumulative_total budget action =
     (case tb_per_run budget of
        Some limit \<Rightarrow>
          if limit \<le> run_total then Breached PerRun action limit run_total
          else (case tb_cumulative budget of
                  Some limit \<Rightarrow>
                    if limit \<le> cumulative_total then Breached Cumulative action limit cumulative_total
                    else WithinBudget
                | None \<Rightarrow> WithinBudget)
      | None \<Rightarrow>
          (case tb_cumulative budget of
             Some limit \<Rightarrow>
               if limit \<le> cumulative_total then Breached Cumulative action limit cumulative_total
               else WithinBudget
           | None \<Rightarrow> WithinBudget))"

lemma parse_action_roundtrip [simp]: "parse_action (action_as_str a) = Inr a"
  by (cases a) (simp_all add: parse_action_def)

lemma parse_action_Inr: "parse_action s = Inr a \<longleftrightarrow> s = action_as_str a"
  by (cases a) (auto simp: parse_action_def)

lemma budget_evaluate_breached:
  "budget_evaluate r c b a = Breached s a' l v \<longleftrightarrow> a' = a \<and>
     (s = PerRun \<and> tb_per_run b = Some l \<and> v = r \<and> l \<le> r
    \<or> s = Cumulative \<and> tb_cumulative b = Some l \<and> v = c \<and> l \<le> c
      \<and> (\<forall>p. tb_per_run b = Some p \<longrightarrow> r < p))"
  by (auto simp: budget_evaluate_def not_le split: option.splits if_splits)

lemma budget_evaluate_within:
  "budget_evaluate r c b a = WithinBudget \<longleftrightarrow>
     (\<forall>p. tb_per_run b = Some p \<longrightarrow> r < p) \<and> (\<forall>q. tb_cumulative b = Some q \<longrightarrow> c < q)"
  by (auto simp: budget_evaluate_def not_le split: option.splits if_splits)

end
