(* ===== verification/Cost.thy ===== *)
theory Cost
  imports Budget
begin

text \<open>
  Dollar cost derivation (\<open>hekma-engine/src/domain/cost.rs\<close>): integer micro-dollars, the per-direction
  round-half-up division over \<open>u128\<close> intermediates, the cached re-split, the Cost Cap evaluator and
  the dollar rendering. A \<open>Micros(i64)\<close> is an integer; every operation that can leave the \<open>i64\<close> range
  saturates explicitly.
\<close>

type_synonym micros = int

definition micros_per_dollar :: int where "micros_per_dollar = 1000000"
definition round_half_up_bias :: nat where "round_half_up_bias = nat micros_per_dollar div 2"

definition micros_saturating_add :: "micros \<Rightarrow> micros \<Rightarrow> micros" where
  "micros_saturating_add a b = i64_sat_add a b"

definition micros_saturating_remaining :: "micros \<Rightarrow> micros \<Rightarrow> micros" where
  "micros_saturating_remaining cap spent = max (i64_sat_sub cap spent) 0"

text \<open>\<open>u64::try_from(i64).unwrap_or(0)\<close>\<close>

definition as_decision_u64 :: "micros \<Rightarrow> u64" where
  "as_decision_u64 m = (if m < 0 then 0 else word_of_int m)"

record rate =
  input_micros_per_1m :: u64
  output_micros_per_1m :: u64
  cached_micros_per_1m :: "u64 option"

definition rate_new :: "u64 \<Rightarrow> u64 \<Rightarrow> rate" where
  "rate_new i outp = \<lparr>input_micros_per_1m = i, output_micros_per_1m = outp, cached_micros_per_1m = None\<rparr>"

definition rate_with_cached :: "rate \<Rightarrow> u64 \<Rightarrow> rate" where
  "rate_with_cached r c = r\<lparr>cached_micros_per_1m := Some c\<rparr>"

text \<open>The \<open>u128\<close> product and sum, with Rust's saturation written out.\<close>

definition u128_max :: nat where "u128_max = 2 ^ 128 - 1"

definition per_direction_cost :: "u64 \<Rightarrow> u64 \<Rightarrow> int" where
  "per_direction_cost tokens price_per_1m =
     (let product = min (unat tokens * unat price_per_1m) u128_max;
          rounded = min (product + round_half_up_bias) u128_max div nat micros_per_dollar
      in if int rounded \<le> i64_max then int rounded else i64_max)"

definition cost_micros :: "u64 \<Rightarrow> u64 \<Rightarrow> rate \<Rightarrow> micros" where
  "cost_micros input_tokens output_tokens r =
     i64_sat_add (per_direction_cost input_tokens (input_micros_per_1m r))
                 (per_direction_cost output_tokens (output_micros_per_1m r))"

definition cost_micros_with_cached :: "u64 \<Rightarrow> u64 \<Rightarrow> u64 option \<Rightarrow> rate \<Rightarrow> micros" where
  "cost_micros_with_cached input_tokens output_tokens cached_tokens r =
     (case cached_tokens of
        None \<Rightarrow> cost_micros input_tokens output_tokens r
      | Some cached \<Rightarrow>
          (case cached_micros_per_1m r of
             None \<Rightarrow> cost_micros input_tokens output_tokens r
           | Some cached_price \<Rightarrow>
               if cached = 0 then cost_micros input_tokens output_tokens r
               else
                 (let uncached = sat_sub input_tokens cached;
                      uncached_cost = per_direction_cost uncached (input_micros_per_1m r);
                      cached_cost = per_direction_cost cached cached_price;
                      output_cost = per_direction_cost output_tokens (output_micros_per_1m r)
                  in i64_sat_add (i64_sat_add uncached_cost cached_cost) output_cost)))"

record cost_cap =
  cc_per_run :: "micros option"
  cc_cumulative :: "micros option"

definition cost_cap_none :: cost_cap where
  "cost_cap_none = \<lparr>cc_per_run = None, cc_cumulative = None\<rparr>"

definition cost_cap_is_set :: "cost_cap \<Rightarrow> bool" where
  "cost_cap_is_set c \<longleftrightarrow> cc_per_run c \<noteq> None \<or> cc_cumulative c \<noteq> None"

definition cost_evaluate :: "micros \<Rightarrow> micros \<Rightarrow> cost_cap \<Rightarrow> breach_action \<Rightarrow> breach_decision" where
  "cost_evaluate run_cost cumulative_cost cap action =
     (let cumulative =
        (case cc_cumulative cap of
           Some limit \<Rightarrow>
             if limit \<le> cumulative_cost
             then Breached Cumulative action (as_decision_u64 limit) (as_decision_u64 cumulative_cost)
             else WithinBudget
         | None \<Rightarrow> WithinBudget)
      in case cc_per_run cap of
           Some limit \<Rightarrow>
             if limit \<le> run_cost
             then Breached PerRun action (as_decision_u64 limit) (as_decision_u64 run_cost)
             else cumulative
         | None \<Rightarrow> cumulative)"

datatype estimate_label = Estimated | Reconciled

fun estimate_as_str :: "estimate_label \<Rightarrow> string" where
  "estimate_as_str Estimated = ''estimated''"
| "estimate_as_str Reconciled = ''reconciled''"

definition render_dollars_bare :: "micros \<Rightarrow> string" where
  "render_dollars_bare m =
     (let sign = (if m < 0 then ''-'' else []);
          absv = nat \<bar>m\<bar>;
          per_cent = nat micros_per_dollar div 100;
          total_cents = (absv + per_cent div 2) div per_cent
      in sign @ ''$'' @ dec (total_cents div 100) @ ''.'' @ pad0 2 (total_cents mod 100))"

definition render_dollars :: "micros \<Rightarrow> estimate_label \<Rightarrow> string" where
  "render_dollars m label = render_dollars_bare m @ '' ('' @ estimate_as_str label @ '')''"

section \<open>Rounding and saturation\<close>

text \<open>The exact, unbounded price of one direction: half-up rounding of \<open>tokens * price / 1000000\<close>.\<close>

definition round_half_up_price :: "nat \<Rightarrow> nat \<Rightarrow> nat" where
  "round_half_up_price tokens price = (tokens * price + 500000) div 1000000"

lemma u64_bound: "unat (t :: u64) \<le> 2 ^ 64 - 1"
  using unsigned_less [of t, where 'a = nat] by simp

lemma round_half_up_price_error:
  "1000000 * round_half_up_price t p \<le> t * p + 500000
   \<and> t * p < 1000000 * round_half_up_price t p + 500000"
  using times_div_less_eq_dividend [of 1000000 "t * p + 500000"]
    dividend_less_times_div [of 1000000 "t * p + 500000"]
  by (simp add: round_half_up_price_def)

text \<open>Rounding two parts separately adds at most one unit to rounding a whole that bounds their sum.\<close>

lemma round_half_up_parts:
  assumes "t * p + t' * p' \<le> t'' * p''"
  shows "round_half_up_price t p + round_half_up_price t' p' \<le> round_half_up_price t'' p'' + 1"
proof -
  have "1000000 * (round_half_up_price t p + round_half_up_price t' p')
      < 1000000 * (round_half_up_price t'' p'' + 2)"
    using assms round_half_up_price_error [of t p] round_half_up_price_error [of t' p']
      round_half_up_price_error [of t'' p'']
    by simp
  then show ?thesis by simp
qed

lemma product_fits_u128: "unat (t :: u64) * unat (p :: u64) + 500000 \<le> u128_max"
proof -
  have "unat t * unat p \<le> (2 ^ 64 - 1) * (2 ^ 64 - 1)"
    by (rule mult_le_mono [OF u64_bound u64_bound])
  then show ?thesis by (simp add: u128_max_def)
qed

lemma per_direction_cost_eq:
  "per_direction_cost t p = min i64_max (int (round_half_up_price (unat t) (unat p)))"
  using product_fits_u128 [of t p]
  by (auto simp: per_direction_cost_def Let_def round_half_up_price_def round_half_up_bias_def
      micros_per_dollar_def min_def)

lemma per_direction_cost_bounds [simp]:
  "0 \<le> per_direction_cost t p" "per_direction_cost t p \<le> i64_max"
  by (simp_all add: per_direction_cost_eq i64_max_def)

lemma per_direction_cost_0 [simp]: "per_direction_cost 0 p = 0"
  by (simp add: per_direction_cost_eq round_half_up_price_def i64_max_def)

lemma round_half_up_price_mono:
  "t \<le> t' \<Longrightarrow> p \<le> p' \<Longrightarrow> round_half_up_price t p \<le> round_half_up_price t' p'"
  by (simp add: round_half_up_price_def div_le_mono mult_le_mono)

lemma per_direction_cost_mono:
  "t \<le> t' \<Longrightarrow> p \<le> p' \<Longrightarrow> per_direction_cost t p \<le> per_direction_cost t' p'"
  using round_half_up_price_mono [of "unat t" "unat t'" "unat p" "unat p'"]
  by (simp add: per_direction_cost_eq word_le_nat_alt min.coboundedI2)

lemma cost_micros_eq:
  "cost_micros i q r = min i64_max
     (int (round_half_up_price (unat i) (unat (input_micros_per_1m r)))
      + int (round_half_up_price (unat q) (unat (output_micros_per_1m r))))"
  by (simp add: cost_micros_def i64_sat_add_nonneg per_direction_cost_eq i64_max_def)

lemma cost_micros_bounds [simp]: "0 \<le> cost_micros i q r" "cost_micros i q r \<le> i64_max"
  by (simp_all add: cost_micros_eq i64_max_def)

lemma cost_with_cached_bounds [simp]:
  "0 \<le> cost_micros_with_cached i q c r" "cost_micros_with_cached i q c r \<le> i64_max"
  by (auto simp: cost_micros_with_cached_def Let_def split: option.splits)

lemma as_decision_u64_nonneg:
  "0 \<le> m \<Longrightarrow> is_i64 m \<Longrightarrow> unat (as_decision_u64 m) = nat m"
  by (simp add: as_decision_u64_def i64_defs unat_eq_nat_uint uint_word_of_int)

lemma cost_evaluate_breached:
  "cost_evaluate r c cap a = Breached s a' l v \<longleftrightarrow> a' = a \<and>
     (\<exists>m. l = as_decision_u64 m \<and>
       (s = PerRun \<and> cc_per_run cap = Some m \<and> v = as_decision_u64 r \<and> m \<le> r
      \<or> s = Cumulative \<and> cc_cumulative cap = Some m \<and> v = as_decision_u64 c \<and> m \<le> c
        \<and> (\<forall>p. cc_per_run cap = Some p \<longrightarrow> r < p)))"
  by (auto simp: cost_evaluate_def Let_def not_le split: option.splits if_splits)

text \<open>(C29) A row's cost is the two directions, each rounded half-up on its own, added and pinned at
  \<open>i64::MAX\<close>: every \<open>u128\<close> and \<open>i64\<close> step of the code, for all token counts and prices. It is never
  negative, and each direction's error is at most half a micro-dollar, a tie rounding up.\<close>

theorem cost_micros_rounds_half_up:
  "cost_micros i q r = min i64_max
     (int (round_half_up_price (unat i) (unat (input_micros_per_1m r)))
      + int (round_half_up_price (unat q) (unat (output_micros_per_1m r))))
   \<and> 0 \<le> cost_micros i q r
   \<and> 1000000 * round_half_up_price (unat i) (unat (input_micros_per_1m r))
        \<le> unat i * unat (input_micros_per_1m r) + 500000
   \<and> unat i * unat (input_micros_per_1m r)
        < 1000000 * round_half_up_price (unat i) (unat (input_micros_per_1m r)) + 500000"
  using round_half_up_price_error [of "unat i" "unat (input_micros_per_1m r)"]
  by (simp add: cost_micros_eq i64_max_def)

text \<open>More tokens never cost less: saturation pins, it never wraps, so a cost that reached a cap
  cannot fall back under it.\<close>

theorem cost_micros_mono:
  assumes "i \<le> i'" and "q \<le> q'"
  shows "cost_micros i q r \<le> cost_micros i' q' r"
  unfolding cost_micros_def
  using per_direction_cost_mono [OF assms(1) order_refl, of "input_micros_per_1m r"]
    per_direction_cost_mono [OF assms(2) order_refl, of "output_micros_per_1m r"]
  by (simp add: i64_sat_add_nonneg)

text \<open>The cached re-split is a discount: at a cached price no higher than the input price, and no
  more cached tokens than input tokens, it never costs more than one micro-dollar (the second
  rounding) above the plain price.\<close>

theorem cached_split_is_a_discount:
  assumes "cached_micros_per_1m r = Some cp" and "cp \<le> input_micros_per_1m r" and "c \<le> i"
  shows "cost_micros_with_cached i q (Some c) r \<le> cost_micros i q r + 1"
proof (cases "c = 0")
  case True
  then show ?thesis using assms(1) by (simp add: cost_micros_with_cached_def)
next
  case False
  let ?p = "unat (input_micros_per_1m r)"
  let ?q = "round_half_up_price (unat q) (unat (output_micros_per_1m r))"
  have "unat c * unat cp \<le> unat c * ?p"
    using assms(2) by (simp add: word_le_nat_alt)
  moreover have "unat c * ?p \<le> unat i * ?p"
    using assms(3) by (simp add: word_le_nat_alt)
  ultimately have "(unat i - unat c) * ?p + unat c * unat cp \<le> unat i * ?p"
    unfolding diff_mult_distrib by linarith
  then have parts: "round_half_up_price (unat i - unat c) ?p + round_half_up_price (unat c) (unat cp)
      \<le> round_half_up_price (unat i) ?p + 1"
    by (rule round_half_up_parts)
  have "cost_micros_with_cached i q (Some c) r
      = i64_sat_add (i64_sat_add (per_direction_cost (sat_sub i c) (input_micros_per_1m r))
                                 (per_direction_cost c cp))
                    (per_direction_cost q (output_micros_per_1m r))"
    using False assms(1) by (simp add: cost_micros_with_cached_def Let_def)
  also have "\<dots> \<le> min i64_max (int (round_half_up_price (unat i) ?p + 1 + ?q))"
    using parts by (simp add: i64_sat_add3_nonneg per_direction_cost_eq unat_sat_sub)
  also have "\<dots> \<le> min i64_max (int (round_half_up_price (unat i) ?p + ?q)) + 1"
    by simp
  finally show ?thesis by (simp only: cost_micros_eq of_nat_add)
qed

end
