(* ===== verification/Governance.thy ===== *)
theory Governance
  imports Cost
begin

unbundle bit_operations_syntax

text \<open>
  The pure governance core (\<open>hekma-engine/src/domain/governance.rs\<close>): \<open>decide\<close> evaluates the token
  dimension, then the dollar dimension, through the per-Run \<open>(dimension, scope)\<close> latch;
  \<open>decide_chain\<close> runs it per level of an ancestor chain; \<open>fence_refusal\<close> is the answer a fenced
  request gets. The atomic bitmask of the wire fence (\<open>hekma-engine/src/metering/fence.rs\<close>) is
  modelled on an 8-bit word and shown to implement \<open>fence_refusal\<close>.
\<close>

datatype breach_dimension = Tokens | Dollars

fun dimension_as_str :: "breach_dimension \<Rightarrow> string" where
  "dimension_as_str Tokens = ''tokens''"
| "dimension_as_str Dollars = ''dollars''"

datatype latch_key = LatchKey (lk_dimension: breach_dimension) (lk_scope: breach_scope)

record token_arm =
  ta_run_total :: u64
  ta_cumulative_total :: u64
  ta_budget :: token_budget
  ta_action :: breach_action

record dollar_arm =
  da_run_cost :: micros
  da_cumulative_cost :: micros
  da_cap :: cost_cap
  da_action :: breach_action

record governance_input =
  gi_token :: "token_arm option"
  gi_dollar :: "dollar_arm option"
  gi_latched :: "latch_key list"

record governance_decision =
  gd_dimension :: breach_dimension
  gd_scope :: breach_scope
  gd_action :: breach_action
  gd_limit :: u64
  gd_observed :: u64

record governance_outcome =
  go_decisions :: "governance_decision list"
  go_latched_after :: "latch_key list"

definition normalize_latched :: "latch_key list \<Rightarrow> latch_key list" where
  "normalize_latched keys =
     foldl (\<lambda>seen key. if key \<in> set seen then seen else seen @ [key]) [] keys"

definition fire_unless_latched ::
  "governance_decision list \<times> latch_key list \<Rightarrow> breach_dimension \<Rightarrow> breach_scope \<Rightarrow> breach_action
     \<Rightarrow> u64 \<Rightarrow> u64 \<Rightarrow> governance_decision list \<times> latch_key list" where
  "fire_unless_latched st dimension scope action limit observed =
     (let (decisions, latched_after) = st; key = LatchKey dimension scope
      in if key \<in> set latched_after then (decisions, latched_after)
         else (decisions @ [\<lparr>gd_dimension = dimension, gd_scope = scope, gd_action = action,
                             gd_limit = limit, gd_observed = observed\<rparr>],
               latched_after @ [key]))"

definition decide :: "governance_input \<Rightarrow> governance_outcome" where
  "decide input =
     (let st0 = ([], normalize_latched (gi_latched input));
          st1 = (case gi_token input of
                   None \<Rightarrow> st0
                 | Some token \<Rightarrow>
                     (case budget_evaluate (ta_run_total token) (ta_cumulative_total token)
                             (ta_budget token) (ta_action token) of
                        WithinBudget \<Rightarrow> st0
                      | Breached scope action limit observed \<Rightarrow>
                          fire_unless_latched st0 Tokens scope action limit observed));
          st2 = (case gi_dollar input of
                   None \<Rightarrow> st1
                 | Some dollar \<Rightarrow>
                     (case cost_evaluate (da_run_cost dollar) (da_cumulative_cost dollar)
                             (da_cap dollar) (da_action dollar) of
                        WithinBudget \<Rightarrow> st1
                      | Breached scope action limit observed \<Rightarrow>
                          fire_unless_latched st1 Dollars scope action limit observed))
      in \<lparr>go_decisions = fst st2, go_latched_after = snd st2\<rparr>)"

definition decide_chain :: "governance_input list \<Rightarrow> governance_outcome list" where
  "decide_chain levels = map decide levels"

section \<open>The fence refusal\<close>

definition fence_refusal_status :: u16 where "fence_refusal_status = 402"
definition fence_error_type :: string where "fence_error_type = ''hekma_budget_block''"
definition proxy_wire_version :: string where "proxy_wire_version = ''v1''"

definition fence_reason_order :: "latch_key list" where
  "fence_reason_order =
     [LatchKey Tokens PerRun, LatchKey Tokens Cumulative,
      LatchKey Dollars PerRun, LatchKey Dollars Cumulative]"

fun fence_code :: "latch_key \<Rightarrow> string" where
  "fence_code (LatchKey Tokens PerRun) = ''tokens_per_run''"
| "fence_code (LatchKey Tokens Cumulative) = ''tokens_cumulative''"
| "fence_code (LatchKey Dollars PerRun) = ''dollars_per_run''"
| "fence_code (LatchKey Dollars Cumulative) = ''dollars_cumulative''"

record fence_refusal_doc =
  fr_status :: u16
  fr_error_type :: string
  fr_code :: string
  fr_dimension :: breach_dimension
  fr_scope :: breach_scope

definition refusal_for :: "latch_key \<Rightarrow> fence_refusal_doc" where
  "refusal_for reason =
     \<lparr>fr_status = fence_refusal_status, fr_error_type = fence_error_type,
      fr_code = fence_code reason, fr_dimension = lk_dimension reason, fr_scope = lk_scope reason\<rparr>"

definition fence_refusal :: "latch_key list \<Rightarrow> fence_refusal_doc option" where
  "fence_refusal reasons =
     map_option refusal_for (find (\<lambda>candidate. candidate \<in> set reasons) fence_reason_order)"

section \<open>The wire fence\<close>

text \<open>\<open>position\<close> of the first element equal to \<open>x\<close>; the source's \<open>expect\<close> panics on \<open>None\<close>.\<close>

fun position :: "'a \<Rightarrow> 'a list \<Rightarrow> nat option" where
  "position x [] = None"
| "position x (y # ys) = (if y = x then Some 0 else map_option Suc (position x ys))"

definition reason_bit :: "latch_key \<Rightarrow> u8 option" where
  "reason_bit reason = map_option (\<lambda>index. push_bit index 1) (position reason fence_reason_order)"

definition fence_raise :: "latch_key \<Rightarrow> u8 \<Rightarrow> u8 option" where
  "fence_raise reason bits = map_option (\<lambda>b. bits OR b) (reason_bit reason)"

definition reasons_from_bits :: "u8 \<Rightarrow> latch_key list" where
  "reasons_from_bits bits =
     map snd (filter (\<lambda>(index, _). bits AND push_bit index 1 \<noteq> 0)
                (enumerate 0 fence_reason_order))"

definition fence_current_refusal :: "u8 \<Rightarrow> fence_refusal_doc option" where
  "fence_current_refusal bits = (if bits = 0 then None else fence_refusal (reasons_from_bits bits))"

definition is_fence_exempt :: "string \<Rightarrow> bool" where
  "is_fence_exempt m \<longleftrightarrow> m = ''GET'' \<or> m = ''HEAD'' \<or> m = ''OPTIONS''"

definition refusal_message :: "fence_refusal_doc \<Rightarrow> string" where
  "refusal_message r =
     (let scope = (case fr_scope r of PerRun \<Rightarrow> ''per-run'' | Cumulative \<Rightarrow> ''cumulative'');
          dimension = (case fr_dimension r of Tokens \<Rightarrow> ''token'' | Dollars \<Rightarrow> ''dollar'')
      in ''Hekma budget fence: this agent's '' @ scope @ '' '' @ dimension
         @ '' ceiling is reached, so further model calls are refused. This is not retryable; ''
         @ ''the operator raises the ceiling or starts a new Run.'')"

definition json_str :: "string \<Rightarrow> string" where
  "json_str s = CHR 0x22 # s @ [CHR 0x22]"

definition json_field :: "string \<Rightarrow> string \<Rightarrow> string" where
  "json_field k v = json_str k @ '':'' @ v"

definition refusal_body :: "fence_refusal_doc \<Rightarrow> string" where
  "refusal_body r =
     ''{'' @ json_field ''type'' (json_str ''error'') @ '','' @ json_str ''error'' @ '':{''
       @ json_field ''type'' (json_str (fr_error_type r)) @ '',''
       @ json_field ''code'' (json_str (fr_code r)) @ '',''
       @ json_field ''message'' (json_str (refusal_message r)) @ '',''
       @ json_field ''param'' ''null'' @ '',''
       @ json_field ''dimension'' (json_str (dimension_as_str (fr_dimension r))) @ '',''
       @ json_field ''scope'' (json_str (scope_as_str (fr_scope r))) @ '',''
       @ json_field ''proxy_wire'' (json_str proxy_wire_version) @ ''}}''"

record http_response =
  resp_status :: u16
  resp_headers :: "(string \<times> string) list"
  resp_body :: string

definition refusal_response :: "fence_refusal_doc \<Rightarrow> http_response" where
  "refusal_response r =
     \<lparr>resp_status = fr_status r,
      resp_headers = [(''content-type'', ''application/json''), (''x-should-retry'', ''false'')],
      resp_body = refusal_body r\<rparr>"

section \<open>What \<open>decide\<close> decides\<close>

definition decision_key :: "governance_decision \<Rightarrow> latch_key" where
  "decision_key g = LatchKey (gd_dimension g) (gd_scope g)"

text \<open>The verdict of one dimension, an unarmed one being within budget.\<close>

fun verdict :: "governance_input \<Rightarrow> breach_dimension \<Rightarrow> breach_decision" where
  "verdict input Tokens =
     (case gi_token input of None \<Rightarrow> WithinBudget
      | Some t \<Rightarrow> budget_evaluate (ta_run_total t) (ta_cumulative_total t) (ta_budget t) (ta_action t))"
| "verdict input Dollars =
     (case gi_dollar input of None \<Rightarrow> WithinBudget
      | Some d \<Rightarrow> cost_evaluate (da_run_cost d) (da_cumulative_cost d) (da_cap d) (da_action d))"

text \<open>The decision a dimension contributes: its verdict, unless its pair is latched.\<close>

definition dimension_decisions ::
  "governance_input \<Rightarrow> breach_dimension \<Rightarrow> governance_decision list" where
  "dimension_decisions input d =
     (case verdict input d of
        WithinBudget \<Rightarrow> []
      | Breached s a l v \<Rightarrow>
          if LatchKey d s \<in> set (gi_latched input) then []
          else [\<lparr>gd_dimension = d, gd_scope = s, gd_action = a, gd_limit = l, gd_observed = v\<rparr>])"

lemma normalize_latched_dedup: "normalize_latched ks = dedup_first ks"
  by (simp add: normalize_latched_def dedup_first_def)

lemma decide_decisions:
  "go_decisions (decide input) = dimension_decisions input Tokens @ dimension_decisions input Dollars"
  by (auto simp: decide_def Let_def dimension_decisions_def fire_unless_latched_def
      normalize_latched_dedup split: option.splits breach_decision.splits prod.splits)

lemma decide_latched_after:
  "go_latched_after (decide input)
     = dedup_first (gi_latched input) @ map decision_key (go_decisions (decide input))"
  by (auto simp: decide_def Let_def dimension_decisions_def fire_unless_latched_def decision_key_def
      normalize_latched_dedup split: option.splits breach_decision.splits prod.splits)

lemmas decide_simps = decide_decisions decide_latched_after

lemma dimension_decisions_key:
  "g \<in> set (dimension_decisions input d) \<Longrightarrow>
     gd_dimension g = d \<and> decision_key g \<notin> set (gi_latched input)"
  by (auto simp: dimension_decisions_def decision_key_def split: breach_decision.splits if_splits)

lemma dimension_decisions_le1: "length (dimension_decisions input d) \<le> 1"
  by (simp add: dimension_decisions_def split: breach_decision.splits)

lemma dimension_decisions_distinct: "distinct (map decision_key (dimension_decisions input d))"
  by (simp add: dimension_decisions_def split: breach_decision.splits)

lemma decide_keys_fresh:
  "distinct (map decision_key (go_decisions (decide input)))
   \<and> decision_key ` set (go_decisions (decide input)) \<inter> set (gi_latched input) = {}"
proof -
  have "decision_key ` set (dimension_decisions input Tokens)
          \<inter> decision_key ` set (dimension_decisions input Dollars) = {}"
    by (fastforce simp: decision_key_def dest: dimension_decisions_key)
  moreover have "decision_key ` set (dimension_decisions input d) \<inter> set (gi_latched input) = {}" for d
    using dimension_decisions_key by fastforce
  ultimately show ?thesis
    by (simp only: decide_decisions map_append distinct_append dimension_decisions_distinct
        set_append image_Un set_map) blast
qed

lemma set_latched_after:
  "set (go_latched_after (decide input))
     = set (gi_latched input) \<union> decision_key ` set (go_decisions (decide input))"
  by (simp add: decide_latched_after)

lemma distinct_latched_after: "distinct (go_latched_after (decide input))"
  using decide_keys_fresh [of input] by (auto simp: decide_latched_after)

text \<open>\<open>decide\<close> is the reference reading of its rules: the token dimension's decision before the
  dollar dimension's, each present exactly when that dimension's evaluator reports a breach whose
  \<open>(dimension, scope)\<close> pair is not latched, and the latch set afterwards is the input, deduplicated,
  followed by the pairs just fired, again without a duplicate.\<close>

theorem decide_reference:
  "go_decisions (decide input) = concat (map (dimension_decisions input) [Tokens, Dollars])
   \<and> go_latched_after (decide input)
       = dedup_first (gi_latched input) @ map decision_key (go_decisions (decide input))
   \<and> distinct (go_latched_after (decide input))"
  by (intro conjI decide_latched_after distinct_latched_after) (simp add: decide_decisions)

text \<open>A Run's evaluations, each one taking the latch set the previous one left.\<close>

fun decide_run ::
  "latch_key list \<Rightarrow> (token_arm option \<times> dollar_arm option) list \<Rightarrow> governance_decision list" where
  "decide_run latched [] = []"
| "decide_run latched ((t, d) # rest) =
     (let out = decide \<lparr>gi_token = t, gi_dollar = d, gi_latched = latched\<rparr>
      in go_decisions out @ decide_run (go_latched_after out) rest)"

lemma decide_run_fresh:
  "distinct (map decision_key (decide_run latched arms))
   \<and> decision_key ` set (decide_run latched arms) \<inter> set latched = {}"
proof (induction arms arbitrary: latched)
  case (Cons arm rest)
  obtain t d where arm: "arm = (t, d)" by (cases arm)
  let ?i = "\<lparr>gi_token = t, gi_dollar = d, gi_latched = latched\<rparr>"
  show ?case
    using decide_keys_fresh [of ?i] Cons.IH [of "go_latched_after (decide ?i)"]
    by (auto simp: arm Let_def set_latched_after)
qed simp

lemma latch_key_universe: "set fence_reason_order = (UNIV :: latch_key set)"
proof -
  have "k \<in> set fence_reason_order" for k
    by (cases k rule: fence_code.cases) (simp_all add: fence_reason_order_def)
  then show ?thesis by blast
qed

lemma distinct_fence_reason_order: "distinct fence_reason_order"
  by (simp add: fence_reason_order_def)

text \<open>(C25) Over a whole Run, whatever the totals, ceilings and actions of each evaluation, each
  \<open>(dimension, scope)\<close> pair fires at most once and a pair latched at the start never does; so a Run
  fires at most four decisions.\<close>

theorem each_pair_fires_once_per_run:
  "distinct (map decision_key (decide_run latched arms))
   \<and> decision_key ` set (decide_run latched arms) \<inter> set latched = {}
   \<and> length (decide_run latched arms) \<le> 4"
proof -
  have "length (decide_run latched arms) = card (set (map decision_key (decide_run latched arms)))"
    using decide_run_fresh [of latched arms] by (metis distinct_card length_map)
  also have "\<dots> \<le> card (set fence_reason_order)"
    by (simp only: latch_key_universe) (metis card_mono finite_set latch_key_universe subset_UNIV)
  also have "\<dots> = 4"
    by (simp add: distinct_card [OF distinct_fence_reason_order] fence_reason_order_def)
  finally show ?thesis using decide_run_fresh [of latched arms] by blast
qed

text \<open>What a fired decision is about: the arm it came from, its ceiling and the total that reached it.\<close>

definition decision_grounded :: "governance_input \<Rightarrow> governance_decision \<Rightarrow> bool" where
  "decision_grounded input g \<longleftrightarrow>
     (case gd_dimension g of
        Tokens \<Rightarrow>
          (\<exists>t. gi_token input = Some t \<and> gd_action g = ta_action t \<and>
            (case gd_scope g of
               PerRun \<Rightarrow> tb_per_run (ta_budget t) = Some (gd_limit g) \<and> gd_observed g = ta_run_total t
             | Cumulative \<Rightarrow> tb_cumulative (ta_budget t) = Some (gd_limit g)
                            \<and> gd_observed g = ta_cumulative_total t))
      | Dollars \<Rightarrow>
          (\<exists>d. gi_dollar input = Some d \<and> gd_action g = da_action d \<and>
            (case gd_scope g of
               PerRun \<Rightarrow> map_option as_decision_u64 (cc_per_run (da_cap d)) = Some (gd_limit g)
                         \<and> gd_observed g = as_decision_u64 (da_run_cost d)
             | Cumulative \<Rightarrow> map_option as_decision_u64 (cc_cumulative (da_cap d)) = Some (gd_limit g)
                             \<and> gd_observed g = as_decision_u64 (da_cumulative_cost d))))"

definition dollars_in_range :: "governance_input \<Rightarrow> bool" where
  "dollars_in_range input \<longleftrightarrow>
     (case gi_dollar input of None \<Rightarrow> True
      | Some d \<Rightarrow> is_i64 (da_run_cost d) \<and> is_i64 (da_cumulative_cost d))"

lemma as_decision_u64_mono:
  assumes "m \<le> m'" and "is_i64 m'"
  shows "as_decision_u64 m \<le> as_decision_u64 m'"
proof (cases "m < 0")
  case False
  then have "uint (word_of_int m :: u64) = m" "uint (word_of_int m' :: u64) = m'"
    using assms by (simp_all add: uint_word_of_int i64_defs)
  with False assms show ?thesis
    by (simp add: as_decision_u64_def word_le_def)
qed (simp add: as_decision_u64_def)

text \<open>Every fired decision is grounded: it carries its own arm's action, the ceiling configured for
  its scope and the committed total of that scope, and that total is at or over the ceiling.\<close>

lemma fired_decisions_are_at_or_over:
  assumes "g \<in> set (go_decisions (decide input))" and "dollars_in_range input"
  shows "decision_grounded input g \<and> gd_limit g \<le> gd_observed g"
proof -
  have "g \<in> set (dimension_decisions input Tokens) \<or> g \<in> set (dimension_decisions input Dollars)"
    using assms(1) by (simp add: decide_decisions)
  then show ?thesis
  proof
    assume "g \<in> set (dimension_decisions input Tokens)"
    then have "verdict input Tokens = Breached (gd_scope g) (gd_action g) (gd_limit g) (gd_observed g)"
      and "gd_dimension g = Tokens"
      by (auto simp: dimension_decisions_def split: breach_decision.splits if_splits)
    then show ?thesis
      by (auto simp: decision_grounded_def budget_evaluate_breached split: option.splits)
  next
    assume "g \<in> set (dimension_decisions input Dollars)"
    then have "verdict input Dollars = Breached (gd_scope g) (gd_action g) (gd_limit g) (gd_observed g)"
      and "gd_dimension g = Dollars"
      by (auto simp: dimension_decisions_def split: breach_decision.splits if_splits)
    then show ?thesis using assms(2)
      by (auto simp: decision_grounded_def cost_evaluate_breached dollars_in_range_def
          as_decision_u64_mono split: option.splits)
  qed
qed

definition demo_input :: governance_input where
  "demo_input =
     \<lparr>gi_token = Some \<lparr>ta_run_total = 50, ta_cumulative_total = 5000,
         ta_budget = \<lparr>tb_per_run = None, tb_cumulative = Some 5000\<rparr>, ta_action = ActBlock\<rparr>,
      gi_dollar = Some \<lparr>da_run_cost = 2000000, da_cumulative_cost = 2000000,
         da_cap = \<lparr>cc_per_run = Some 1000000, cc_cumulative = None\<rparr>, da_action = ActBlock\<rparr>,
      gi_latched = []\<rparr>"

lemma fired_decisions_are_at_or_over_witness:
  "\<exists>g. g \<in> set (go_decisions (decide demo_input)) \<and> gd_dimension g = Dollars
     \<and> decision_grounded demo_input g \<and> gd_limit g \<le> gd_observed g"
proof -
  let ?g = "\<lparr>gd_dimension = Dollars, gd_scope = PerRun, gd_action = ActBlock,
             gd_limit = 1000000, gd_observed = 2000000\<rparr>"
  have "?g \<in> set (go_decisions (decide demo_input))"
    by (simp add: demo_input_def decide_decisions dimension_decisions_def budget_evaluate_def
        cost_evaluate_def as_decision_u64_def)
  moreover have "dollars_in_range demo_input"
    by (simp add: demo_input_def dollars_in_range_def i64_defs)
  ultimately show ?thesis
    using fired_decisions_are_at_or_over [of ?g demo_input] by (intro exI [of _ ?g]) simp
qed



section \<open>The bitmask implements the refusal\<close>

lemma position_lt: "position x ys = Some i \<Longrightarrow> i < length ys \<and> ys ! i = x"
  by (induction ys arbitrary: i) (auto split: if_splits)

lemma position_Some: "x \<in> set ys \<Longrightarrow> \<exists>i. position x ys = Some i"
  by (induction ys) auto

lemma reason_bit_total: "\<exists>i<4. position k fence_reason_order = Some i \<and> reason_bit k = Some (push_bit i 1)"
  using position_Some [of k fence_reason_order] position_lt [of k fence_reason_order]
  by (auto simp: latch_key_universe reason_bit_def) (auto simp: fence_reason_order_def)

text \<open>Raising a sequence of reasons on a fence; \<open>None\<close> would be the panic of \<open>reason_bit\<close>.\<close>

fun fence_raise_all :: "latch_key list \<Rightarrow> u8 \<Rightarrow> u8 option" where
  "fence_raise_all [] bits = Some bits"
| "fence_raise_all (k # ks) bits = Option.bind (fence_raise k bits) (fence_raise_all ks)"

text \<open>The fence and the reasons it stands for.\<close>

definition fence_abs :: "u8 \<Rightarrow> latch_key set \<Rightarrow> bool" where
  "fence_abs bits R \<longleftrightarrow>
     (\<forall>n. bit bits n \<longrightarrow> n < 4) \<and> (\<forall>k i. position k fence_reason_order = Some i \<longrightarrow> bit bits i = (k \<in> R))"

lemma position_inj:
  "position k ys = Some i \<Longrightarrow> position k' ys = Some i \<Longrightarrow> k = k'"
  by (auto dest!: position_lt)

lemma fence_raise_abs:
  assumes "fence_abs bits R"
  shows "\<exists>bits'. fence_raise k bits = Some bits' \<and> fence_abs bits' (insert k R)"
proof -
  obtain i where i: "i < 4" "position k fence_reason_order = Some i"
      "reason_bit k = Some (push_bit i 1)"
    using reason_bit_total by blast
  have bits: "bit (bits OR push_bit i 1) n = (bit bits n \<or> n = i)" for n
    using i(1) by (auto simp: push_bit_of_1 bit_or_iff bit_exp_iff)
  have "fence_abs (bits OR push_bit i 1) (insert k R)"
    unfolding fence_abs_def bits insert_iff
    using assms [unfolded fence_abs_def] i(1,2) position_inj [of _ fence_reason_order i k]
    by (metis option.inject)
  then show ?thesis using i(3) by (simp add: fence_raise_def)
qed

lemma fence_raise_all_abs:
  "fence_abs bits R \<Longrightarrow> \<exists>bits'. fence_raise_all ks bits = Some bits' \<and> fence_abs bits' (R \<union> set ks)"
proof (induction ks arbitrary: bits R)
  case (Cons k ks)
  from fence_raise_abs [OF Cons.prems, of k] obtain bits' where
    b: "fence_raise k bits = Some bits'" "fence_abs bits' (insert k R)" by blast
  from Cons.IH [OF b(2)] b(1) show ?case by simp
qed simp

lemma fence_abs_0: "fence_abs 0 {}"
  by (simp add: fence_abs_def)

lemma and_push_bit_1: "i < 8 \<Longrightarrow> ((bits :: u8) AND push_bit i 1 \<noteq> 0) = bit bits i"
  by (metis and_exp_eq_0_iff_not_bit push_bit_of_1)

lemma reasons_from_bits_abs:
  assumes "fence_abs bits R"
  shows "reasons_from_bits bits = filter (\<lambda>k. k \<in> R) fence_reason_order"
proof -
  have pos: "position (LatchKey Tokens PerRun) fence_reason_order = Some 0"
    "position (LatchKey Tokens Cumulative) fence_reason_order = Some 1"
    "position (LatchKey Dollars PerRun) fence_reason_order = Some 2"
    "position (LatchKey Dollars Cumulative) fence_reason_order = Some 3"
    by (simp_all add: fence_reason_order_def)
  have b: "bit bits 0 = (LatchKey Tokens PerRun \<in> R)"
    "bit bits 1 = (LatchKey Tokens Cumulative \<in> R)"
    "bit bits 2 = (LatchKey Dollars PerRun \<in> R)"
    "bit bits 3 = (LatchKey Dollars Cumulative \<in> R)"
    using assms pos unfolding fence_abs_def by blast+
  have e: "enumerate 0 fence_reason_order =
      [(0, LatchKey Tokens PerRun), (1, LatchKey Tokens Cumulative),
       (2, LatchKey Dollars PerRun), (3, LatchKey Dollars Cumulative)]"
    by (simp add: fence_reason_order_def)
  have m: "(bits AND push_bit 0 1 \<noteq> 0) = bit bits 0" "(bits AND push_bit 1 1 \<noteq> 0) = bit bits 1"
    "(bits AND push_bit 2 1 \<noteq> 0) = bit bits 2" "(bits AND push_bit 3 1 \<noteq> 0) = bit bits 3"
    by (rule and_push_bit_1; simp)+
  show ?thesis
    by (simp only: reasons_from_bits_def e filter.simps case_prod_conv m b)
       (simp add: fence_reason_order_def)
qed

lemma find_agree: "\<forall>y\<in>set ys. Q y = P y \<Longrightarrow> find Q ys = find P ys"
  by (induction ys) auto

lemma find_cong_filter: "find (\<lambda>c. c \<in> set (filter P xs)) xs = find P xs"
  by (rule find_agree) simp

lemma fence_raise_all_refusal:
  "\<exists>bits. fence_raise_all ks 0 = Some bits \<and> fence_current_refusal bits = fence_refusal ks
     \<and> (fence_current_refusal bits = None \<longleftrightarrow> ks = [])"
proof -
  obtain bits where bits: "fence_raise_all ks 0 = Some bits" "fence_abs bits (set ks)"
    using fence_raise_all_abs [OF fence_abs_0, of ks] by auto
  have zero: "fence_refusal ks = None \<longleftrightarrow> ks = []"
    by (cases ks) (auto simp: fence_refusal_def find_None_iff latch_key_universe)
  have "fence_refusal (reasons_from_bits bits) = fence_refusal ks"
    by (simp only: fence_refusal_def reasons_from_bits_abs [OF bits(2)] find_cong_filter)
  moreover have "bits = 0 \<Longrightarrow> ks = []"
  proof (cases ks)
    case (Cons k ks')
    moreover obtain i where "position k fence_reason_order = Some i"
      using reason_bit_total by blast
    moreover assume "bits = 0"
    ultimately show ?thesis using bits(2) by (auto simp: fence_abs_def)
  next
    case Nil
    then show ?thesis .
  qed
  ultimately show ?thesis
    using bits(1) zero by (cases "bits = 0") (simp_all add: fence_current_refusal_def)
qed

text \<open>(C27) The lock-free bitmask implements the pure refusal: raising any sequence of reasons on a fresh
  fence never panics, and the refusal a request then gets is \<open>fence_refusal\<close> of exactly those reasons,
  so it is \<open>None\<close> iff nothing was raised, and neither order nor repetition of the raises shows.\<close>

theorem wire_fence_implements_refusal:
  "\<exists>bits. fence_raise_all ks 0 = Some bits \<and> fence_current_refusal bits = fence_refusal ks
     \<and> (fence_current_refusal bits = None \<longleftrightarrow> ks = [])"
  by (rule fence_raise_all_refusal)

end
