(* ===== verification/Run_Types.thy ===== *)
theory Run_Types
  imports Lifecycle Cost
begin

unbundle bit_operations_syntax

text \<open>
  The vocabulary of Runs: names and ids (\<open>domain/name.rs\<close>, \<open>domain/usage.rs\<close>), the Run record with its
  Control Depth, status, anomaly set, labels and limits (\<open>domain/runs/mod.rs\<close>), and the label rules
  (\<open>domain/runs/labels.rs\<close>). The text columns of the store are these types' wire forms, so each
  parser is the exact inverse of its printer.
\<close>

section \<open>Instance names\<close>

datatype name_error = NameEmpty | NameBadFirstChar | NameBadChar | NameTooLong

definition max_name_len :: nat where "max_name_len = 128"

fun name_error_rule :: "name_error \<Rightarrow> string" where
  "name_error_rule NameEmpty = ''name must not be empty''"
| "name_error_rule NameBadFirstChar =
     ''name must start with a lowercase letter or digit ([a-z0-9])''"
| "name_error_rule NameBadChar =
     ''name may contain only lowercase letters, digits, '_' or '-' ([a-z0-9_-])''"
| "name_error_rule NameTooLong = ''name must be at most 128 characters''"

definition is_head :: "char \<Rightarrow> bool" where
  "is_head ch \<longleftrightarrow> is_ascii_lower ch \<or> is_ascii_digit ch"

definition is_tail :: "char \<Rightarrow> bool" where
  "is_tail ch \<longleftrightarrow> is_head ch \<or> ch = CHR ''_'' \<or> ch = CHR ''-''"

text \<open>The checks of \<open>InstanceName::new\<close> in their order. A multi-byte character has no byte that is a
  head or a tail, so looking at bytes instead of characters changes no branch.\<close>

definition instance_name_new :: "string \<Rightarrow> name_error + string" where
  "instance_name_new raw =
     (if char_count raw > max_name_len then Inl NameTooLong
      else (case raw of
              [] \<Rightarrow> Inl NameEmpty
            | first # rest \<Rightarrow>
                if \<not> is_head first then Inl NameBadFirstChar
                else if \<exists>ch\<in>set rest. \<not> is_tail ch then Inl NameBadChar
                else Inr raw))"

lemma instance_name_new_Inr: "instance_name_new raw = Inr n \<Longrightarrow> n = raw"
  by (auto simp: instance_name_new_def split: list.splits if_splits)

section \<open>Run ids\<close>

type_synonym run_id = string

definition crockford :: string where "crockford = ''0123456789ABCDEFGHJKMNPQRSTVWXYZ''"

text \<open>The 128-bit value: the timestamp above ten random bytes, and its 26 base-32 characters from the
  most significant group down. \<open>u128\<close> arithmetic is written out modulo \<open>2 ^ 128\<close>.\<close>

definition ulid_value :: "nat \<Rightarrow> nat list \<Rightarrow> nat" where
  "ulid_value millis random =
     foldl (\<lambda>value (i, byte). value OR (byte * 2 ^ (8 * (9 - i))))
       (millis * 2 ^ 80 mod 2 ^ 128) (enumerate 0 random)"

definition encode_ulid :: "nat \<Rightarrow> nat list \<Rightarrow> string" where
  "encode_ulid millis random =
     map (\<lambda>group. crockford ! (ulid_value millis random div 2 ^ (5 * group) mod 32)) (rev [0..<26])"

definition run_prefix :: string where "run_prefix = ''run_''"

text \<open>\<open>RunId::mint\<close> at a clock reading (milliseconds since the epoch) and the ten bytes the random
  source, or its fallback, filled in.\<close>

definition mint :: "u64 \<Rightarrow> nat list \<Rightarrow> run_id" where
  "mint millis random = run_prefix @ encode_ulid (unat (millis AND mask 48)) random"

definition is_ulid :: "run_id \<Rightarrow> bool" where
  "is_ulid r =
     (case strip_prefix run_prefix r of
        None \<Rightarrow> False
      | Some rest \<Rightarrow> length rest = 26 \<and> (\<forall>b\<in>set rest. b \<in> set crockford))"

section \<open>Control depth, status, anomalies, labels\<close>

datatype control_depth = Observed | Wire | Announced | Supervised

definition all_depths :: "control_depth list" where
  "all_depths = [Observed, Wire, Announced, Supervised]"

fun depth_as_str :: "control_depth \<Rightarrow> string" where
  "depth_as_str Observed = ''observed''"
| "depth_as_str Wire = ''wire''"
| "depth_as_str Announced = ''announced''"
| "depth_as_str Supervised = ''supervised''"

definition depth_from_wire :: "string \<Rightarrow> control_depth option" where
  "depth_from_wire raw = find (\<lambda>d. depth_as_str d = raw) all_depths"

definition depth_display_with_wire :: "control_depth \<Rightarrow> bool \<Rightarrow> string" where
  "depth_display_with_wire d wire_path =
     (if d = Supervised \<and> \<not> wire_path then ''supervised (no wire)'' else depth_as_str d)"

datatype run_status = Active | Held | Silent | Stale | Ended

definition all_statuses :: "run_status list" where
  "all_statuses = [Active, Held, Silent, Stale, Ended]"

fun status_as_str :: "run_status \<Rightarrow> string" where
  "status_as_str Active = ''active''"
| "status_as_str Held = ''held''"
| "status_as_str Silent = ''silent''"
| "status_as_str Stale = ''stale''"
| "status_as_str Ended = ''ended''"

definition status_from_wire :: "string \<Rightarrow> run_status option" where
  "status_from_wire raw = find (\<lambda>s. status_as_str s = raw) all_statuses"

fun projected_from :: "lifecycle_state \<Rightarrow> run_status option" where
  "projected_from Starting = Some Active"
| "projected_from Running = Some Active"
| "projected_from Stopping = Some Active"
| "projected_from Paused = Some Held"
| "projected_from Stopped = Some Ended"
| "projected_from Registered = None"
| "projected_from Failed = None"

datatype anomaly = Breach | FailedAnomaly | DepthFallback

definition all_anomalies :: "anomaly list" where
  "all_anomalies = [Breach, FailedAnomaly, DepthFallback]"

fun anomaly_rank :: "anomaly \<Rightarrow> nat" where
  "anomaly_rank Breach = 0"
| "anomaly_rank FailedAnomaly = 1"
| "anomaly_rank DepthFallback = 2"

lemma anomaly_rank_inj [simp]: "anomaly_rank a = anomaly_rank b \<longleftrightarrow> a = b"
  by (cases a; cases b) simp_all

instantiation anomaly :: linorder
begin

definition less_eq_anomaly :: "anomaly \<Rightarrow> anomaly \<Rightarrow> bool" where
  "less_eq_anomaly a b \<longleftrightarrow> anomaly_rank a \<le> anomaly_rank b"

definition less_anomaly :: "anomaly \<Rightarrow> anomaly \<Rightarrow> bool" where
  "less_anomaly a b \<longleftrightarrow> anomaly_rank a < anomaly_rank b"

instance
  by standard (auto simp: less_eq_anomaly_def less_anomaly_def dest: antisym)

end

fun anomaly_as_str :: "anomaly \<Rightarrow> string" where
  "anomaly_as_str Breach = ''breach''"
| "anomaly_as_str FailedAnomaly = ''failed''"
| "anomaly_as_str DepthFallback = ''depth-fallback''"

definition anomaly_from_wire :: "string \<Rightarrow> anomaly option" where
  "anomaly_from_wire raw = find (\<lambda>a. anomaly_as_str a = raw) all_anomalies"

definition anomalies_encode :: "anomaly list \<Rightarrow> string" where
  "anomalies_encode anomalies = join (CHR '','') (map anomaly_as_str (sort_dedup anomalies))"

definition anomalies_decode :: "string \<Rightarrow> anomaly list" where
  "anomalies_decode raw = sort_dedup (List.map_filter anomaly_from_wire (split_on (CHR '','') raw))"

datatype label_source = Bound | Caller

fun source_as_str :: "label_source \<Rightarrow> string" where
  "source_as_str Bound = ''bound''"
| "source_as_str Caller = ''caller''"

definition source_from_wire :: "string \<Rightarrow> label_source option" where
  "source_from_wire raw =
     (if raw = ''bound'' then Some Bound else if raw = ''caller'' then Some Caller else None)"

fun source_rank :: "label_source \<Rightarrow> nat" where
  "source_rank Bound = 0"
| "source_rank Caller = 1"

lemma source_rank_inj [simp]: "source_rank a = source_rank b \<longleftrightarrow> a = b"
  by (cases a; cases b) simp_all

datatype label = Label (lb_key: string) (lb_value: string) (lb_source: label_source)

text \<open>The derived order of \<open>Label\<close>: key, then value, then source.\<close>

fun label_rank :: "label \<Rightarrow> string \<times> string \<times> nat" where
  "label_rank (Label k v s) = (k, v, source_rank s)"

lemma label_rank_inj [simp]: "label_rank a = label_rank b \<longleftrightarrow> a = b"
  by (cases a; cases b) simp

instantiation label :: linorder
begin

definition less_eq_label :: "label \<Rightarrow> label \<Rightarrow> bool" where
  "less_eq_label a b \<longleftrightarrow> label_rank a \<le> label_rank b"

definition less_label :: "label \<Rightarrow> label \<Rightarrow> bool" where
  "less_label a b \<longleftrightarrow> label_rank a < label_rank b"

instance
proof
  fix a b c :: label
  show "a < b \<longleftrightarrow> a \<le> b \<and> \<not> b \<le> a"
    unfolding less_eq_label_def less_label_def by (rule less_le_not_le)
  show "a \<le> a" unfolding less_eq_label_def by (rule order_refl)
  show "a \<le> b \<Longrightarrow> b \<le> c \<Longrightarrow> a \<le> c" unfolding less_eq_label_def by (rule order_trans)
  show "a \<le> b \<Longrightarrow> b \<le> a \<Longrightarrow> a = b"
    unfolding less_eq_label_def by (metis antisym label_rank_inj)
  show "a \<le> b \<or> b \<le> a" unfolding less_eq_label_def by (rule linear)
qed

end

definition label_bound :: "string \<Rightarrow> string \<Rightarrow> label" where
  "label_bound k v = Label k v Bound"

definition label_caller :: "string \<Rightarrow> string \<Rightarrow> label" where
  "label_caller k v = Label k v Caller"

section \<open>Label rules\<close>

text \<open>The characters of a UTF-8 string: a leading byte with its continuation bytes.\<close>

function utf8_chars :: "string \<Rightarrow> string list" where
  "utf8_chars [] = []"
| "utf8_chars (b # bs) =
     (b # takeWhile is_utf8_continuation bs) # utf8_chars (dropWhile is_utf8_continuation bs)"
  by pat_completeness auto
termination
  by (relation "measure length") (auto simp: le_imp_less_Suc length_dropWhile_le)

text \<open>A predicate on an ASCII character, read on one character of a UTF-8 string.\<close>

definition ascii_char :: "(char \<Rightarrow> bool) \<Rightarrow> string \<Rightarrow> bool" where
  "ascii_char P ch \<longleftrightarrow> (case ch of [b] \<Rightarrow> P b | _ \<Rightarrow> False)"

definition quoted :: "string \<Rightarrow> string" where
  "quoted s = CHR 0x60 # s @ [CHR 0x60]"

definition is_label_key_char :: "char \<Rightarrow> bool" where
  "is_label_key_char c \<longleftrightarrow>
     is_ascii_lower c \<or> is_ascii_digit c \<or> c \<in> {CHR ''_'', CHR ''.'', CHR ''-''}"

definition is_label_value_char :: "char \<Rightarrow> bool" where
  "is_label_value_char c \<longleftrightarrow>
     is_ascii_lower c \<or> is_ascii_upper c \<or> is_ascii_digit c
     \<or> c \<in> {CHR ''_'', CHR ''.'', CHR '':'', CHR ''/'', CHR ''@'', CHR ''+'', CHR ''-''}"

definition label_value_max :: nat where "label_value_max = 128"
definition labels_prefix :: string where "labels_prefix = ''labels.''"
definition secret_prefix :: string where "secret_prefix = ''secret:''"

text \<open>\<open>Inl reason\<close> is the refusal.\<close>

definition validate_label_key :: "string \<Rightarrow> string + unit" where
  "validate_label_key key =
     (case utf8_chars key of
        [] \<Rightarrow> Inl ''a label key cannot be empty''
      | first # chars \<Rightarrow>
          if \<not> ascii_char is_ascii_lower first then
            Inl (''label key '' @ quoted key @ '' must start with a lowercase letter'')
          else if length key > 63 then
            Inl (''label key '' @ quoted key @ '' is longer than 63 characters'')
          else
            (case find (\<lambda>c. \<not> ascii_char is_label_key_char c) chars of
               Some bad \<Rightarrow>
                 Inl (''label key '' @ quoted key @ '' contains '' @ quoted bad
                      @ '' (allowed: a-z, 0-9, '' @ quoted ''_'' @ '', '' @ quoted ''.'' @ '', ''
                      @ quoted ''-'' @ '')'')
             | None \<Rightarrow> Inr ()))"

definition validate_label_value :: "string \<Rightarrow> string + unit" where
  "validate_label_value value =
     (if value = [] then Inl ''a label value cannot be empty''
      else if length value > label_value_max then
        Inl (''label value is longer than '' @ dec label_value_max @ '' characters'')
      else if strip_prefix secret_prefix value \<noteq> None then
        Inl (''a label value cannot be a '' @ quoted ''secret:'' @ '' reference'')
      else
        (case find (\<lambda>c. \<not> ascii_char is_label_value_char c) (utf8_chars value) of
           Some bad \<Rightarrow>
             Inl (''label value '' @ quoted value @ '' contains '' @ quoted bad
                  @ '' (allowed: letters, digits, '' @ quoted ''_ . : / @ + -'' @ '')'')
         | None \<Rightarrow> Inr ()))"

definition validate_label_write :: "string \<Rightarrow> string \<Rightarrow> string + unit" where
  "validate_label_write key value =
     (let label_key = (case strip_prefix labels_prefix key of Some k \<Rightarrow> k | None \<Rightarrow> key)
      in rbind (validate_label_key label_key) (\<lambda>_. validate_label_value value))"

text \<open>The bound labels of an effective configuration, given as its entries in iteration order: the
  key, whether its layer is the invocation override, and the value if it is a string.\<close>

fun bound_labels_loop ::
  "(string \<times> bool \<times> string option) list \<Rightarrow> label list \<times> string list" where
  "bound_labels_loop [] = ([], [])"
| "bound_labels_loop ((key, invocation_override, value) # rest) =
     (let (labels, notes) = bound_labels_loop rest
      in (case strip_prefix labels_prefix key of
            None \<Rightarrow> (labels, notes)
          | Some label_key \<Rightarrow>
              if invocation_override then (labels, notes)
              else (case value of
                      None \<Rightarrow>
                        (labels,
                         (''config key '' @ quoted key @ '' is not a string, so it binds no label'') # notes)
                    | Some v \<Rightarrow>
                        (case rbind (validate_label_key label_key) (\<lambda>_. validate_label_value v) of
                           Inl reason \<Rightarrow>
                             (labels, (''config key '' @ quoted key @ '' binds no label: '' @ reason) # notes)
                         | Inr _ \<Rightarrow> (label_bound label_key v # labels, notes)))))"

definition bound_labels_from ::
  "(string \<times> bool \<times> string option) list \<Rightarrow> label list \<times> string list" where
  "bound_labels_from effective =
     (let (labels, notes) = bound_labels_loop effective in (sort labels, notes))"

section \<open>Limits, records and events\<close>

record run_limits =
  rl_token :: "u64 option"
  rl_dollar :: "micros option"
  rl_action :: "breach_action option"

definition limits_default :: run_limits where
  "limits_default = \<lparr>rl_token = None, rl_dollar = None, rl_action = None\<rparr>"

definition limits_is_armed :: "run_limits \<Rightarrow> bool" where
  "limits_is_armed l \<longleftrightarrow> rl_token l \<noteq> None \<or> rl_dollar l \<noteq> None"

definition limits_action :: "run_limits \<Rightarrow> breach_action" where
  "limits_action l = (case rl_action l of Some a \<Rightarrow> a | None \<Rightarrow> ActWarn)"

record run_record =
  rr_id :: run_id
  rr_depth :: control_depth
  rr_wire :: bool
  rr_status :: run_status
  rr_anomalies :: "anomaly list"
  rr_parent :: "run_id option"
  rr_instance :: "string option"
  rr_owner :: bool
  rr_end_cause :: "string option"
  rr_created :: string
  rr_updated :: string
  rr_ended :: "string option"

definition is_ended :: "run_record \<Rightarrow> bool" where
  "is_ended r \<longleftrightarrow> rr_status r = Ended"

record run_entry =
  re_record :: run_record
  re_labels :: "label list"
  re_limits :: run_limits

record new_run =
  nr_record :: run_record
  nr_labels :: "label list"
  nr_limits :: run_limits
  nr_identity :: "(string \<times> string) option"

datatype run_event_kind =
  Created | DepthChanged | StatusChanged | AnomaliesChanged | LabelsChanged | EndedEvent

fun event_kind_as_str :: "run_event_kind \<Rightarrow> string" where
  "event_kind_as_str Created = ''created''"
| "event_kind_as_str DepthChanged = ''depth-changed''"
| "event_kind_as_str StatusChanged = ''status-changed''"
| "event_kind_as_str AnomaliesChanged = ''anomalies-changed''"
| "event_kind_as_str LabelsChanged = ''labels-changed''"
| "event_kind_as_str EndedEvent = ''ended''"

definition run_event_schema_version :: u32 where "run_event_schema_version = 1"
definition max_run_nesting :: nat where "max_run_nesting = 8"
definition host_identity_binding :: string where "host_identity_binding = ''host''"

record run_event =
  ev_schema :: u32
  ev_change :: run_event_kind
  ev_run :: run_id
  ev_parent :: "run_id option"
  ev_instance :: "string option"
  ev_depth :: control_depth
  ev_wire :: bool
  ev_status :: run_status
  ev_prior_status :: "run_status option"
  ev_prior_depth :: "control_depth option"
  ev_prior_wire :: "bool option"
  ev_anomalies :: "anomaly list"
  ev_labels :: "label list"
  ev_cause :: "string option"
  ev_at :: string

section \<open>Wire forms are inverted exactly\<close>

lemma depth_from_wire_iff: "depth_from_wire s = Some d \<longleftrightarrow> s = depth_as_str d"
  by (cases d) (auto simp: depth_from_wire_def all_depths_def)

lemma status_from_wire_iff: "status_from_wire s = Some t \<longleftrightarrow> s = status_as_str t"
  by (cases t) (auto simp: status_from_wire_def all_statuses_def)

lemma anomaly_from_wire_iff: "anomaly_from_wire s = Some a \<longleftrightarrow> s = anomaly_as_str a"
  by (cases a) (auto simp: anomaly_from_wire_def all_anomalies_def)

lemma source_from_wire_iff: "source_from_wire s = Some t \<longleftrightarrow> s = source_as_str t"
  by (cases t) (auto simp: source_from_wire_def)

lemmas wire_iffs =
  depth_from_wire_iff status_from_wire_iff anomaly_from_wire_iff source_from_wire_iff

lemma wire_roundtrips [simp]:
  "depth_from_wire (depth_as_str d) = Some d"
  "status_from_wire (status_as_str t) = Some t"
  "anomaly_from_wire (anomaly_as_str a) = Some a"
  "source_from_wire (source_as_str c) = Some c"
  by (simp_all add: wire_iffs)

lemma status_as_str_inj [simp]: "status_as_str a = status_as_str b \<longleftrightarrow> a = b"
  by (metis option.inject wire_roundtrips(2))

lemma status_as_str_ended [simp]: "status_as_str a = ''ended'' \<longleftrightarrow> a = Ended"
  by (cases a) simp_all

lemma source_as_str_inj [simp]: "source_as_str a = source_as_str b \<longleftrightarrow> a = b"
  by (metis option.inject wire_roundtrips(4))

lemma anomaly_no_comma: "CHR '','' \<notin> set (anomaly_as_str a)"
  by (cases a) simp_all

lemma anomalies_roundtrip: "anomalies_decode (anomalies_encode as) = sort_dedup as"
proof (cases "sort_dedup as = []")
  case True
  then show ?thesis
    by (simp add: anomalies_decode_def anomalies_encode_def sort_dedup_def List.map_filter_def
        anomaly_from_wire_def all_anomalies_def)
next
  case False
  then have "split_on (CHR '','') (anomalies_encode as) = map anomaly_as_str (sort_dedup as)"
    unfolding anomalies_encode_def by (intro split_on_join) (auto simp: anomaly_no_comma)
  then show ?thesis
    by (simp add: anomalies_decode_def List.map_filter_def comp_def)
qed

section \<open>What the label rules admit\<close>

lemma continuation_not_ascii:
  "is_utf8_continuation b \<Longrightarrow> \<not> is_ascii_lower b \<and> \<not> is_label_key_char b \<and> \<not> is_label_value_char b"
  by (auto simp: is_utf8_continuation_def is_label_key_char_def is_label_value_char_def
      is_ascii_lower_def is_ascii_upper_def is_ascii_digit_def byte_of_def)

lemma utf8_chars_eq_Nil [simp]: "utf8_chars s = [] \<longleftrightarrow> s = []"
  by (cases s) simp_all

text \<open>When no continuation byte satisfies \<open>P\<close>, checking characters is checking bytes.\<close>

lemma all_ascii_chars:
  assumes "\<And>b. is_utf8_continuation b \<Longrightarrow> \<not> P b"
  shows "(\<forall>c\<in>set (utf8_chars s). ascii_char P c) \<longleftrightarrow> (\<forall>b\<in>set s. P b)"
proof (induction s rule: utf8_chars.induct)
  case (2 b bs)
  show ?case
  proof (cases bs)
    case (Cons x xs)
    then show ?thesis
      using 2 assms [of x] by (cases "is_utf8_continuation x") (auto simp: ascii_char_def)
  qed (simp add: ascii_char_def)
qed simp

lemma find_None_ascii:
  assumes "\<And>b. is_utf8_continuation b \<Longrightarrow> \<not> P b"
  shows "find (\<lambda>c. \<not> ascii_char P c) (utf8_chars s) = None \<longleftrightarrow> (\<forall>b\<in>set s. P b)"
  using all_ascii_chars [OF assms] by (simp add: find_None_all)

definition label_value_ok :: "string \<Rightarrow> bool" where
  "label_value_ok v \<longleftrightarrow> v \<noteq> [] \<and> length v \<le> 128 \<and> strip_prefix secret_prefix v = None
     \<and> (\<forall>b\<in>set v. is_label_value_char b)"

definition label_key_ok :: "string \<Rightarrow> bool" where
  "label_key_ok k \<longleftrightarrow> k \<noteq> [] \<and> length k \<le> 63 \<and> is_ascii_lower (hd k)
     \<and> (\<forall>b\<in>set k. is_label_key_char b)"

lemma validate_label_value_iff: "validate_label_value v = Inr () \<longleftrightarrow> label_value_ok v"
  using find_None_ascii [of is_label_value_char v] continuation_not_ascii
  by (auto simp: validate_label_value_def label_value_ok_def label_value_max_def
      split: option.splits)

lemma validate_label_key_iff: "validate_label_key k = Inr () \<longleftrightarrow> label_key_ok k"
proof (cases k)
  case Nil
  then show ?thesis by (simp add: validate_label_key_def label_key_ok_def)
next
  case (Cons b bs)
  show ?thesis
  proof (cases "takeWhile is_utf8_continuation bs = []")
    case True
    then have "dropWhile is_utf8_continuation bs = bs"
      by (metis append_Nil takeWhile_dropWhile_id)
    with True Cons show ?thesis
      using find_None_ascii [of is_label_key_char bs] continuation_not_ascii
      by (auto simp: validate_label_key_def label_key_ok_def ascii_char_def is_label_key_char_def
          split: option.splits)
  next
    case False
    then obtain x xs where "bs = x # xs" "is_utf8_continuation x"
      by (cases bs) (auto split: if_splits)
    with Cons False show ?thesis
      using continuation_not_ascii [of x]
      by (auto simp: validate_label_key_def label_key_ok_def ascii_char_def)
  qed
qed

lemma rbind_valid_label:
  "rbind (validate_label_key k) (\<lambda>_. validate_label_value v) = Inr u
     \<longleftrightarrow> label_key_ok k \<and> label_value_ok v"
  by (cases "validate_label_key k"; cases u)
    (auto simp flip: validate_label_key_iff validate_label_value_iff)

text \<open>The label one configuration entry binds.\<close>

definition entry_labels :: "string \<times> bool \<times> string option \<Rightarrow> label set" where
  "entry_labels e = {label_bound k v | k v. e = (labels_prefix @ k, False, Some v)
     \<and> label_key_ok k \<and> label_value_ok v}"

lemma bound_labels_loop_Cons:
  "set (fst (bound_labels_loop (e # rest))) = entry_labels e \<union> set (fst (bound_labels_loop rest))"
proof -
  obtain key over v where e: "e = (key, over, v)" by (cases e)
  show ?thesis
  proof (cases "strip_prefix labels_prefix key")
    case None
    then have "key \<noteq> labels_prefix @ k" for k by auto
    with None show ?thesis by (auto simp: e entry_labels_def case_prod_beta)
  next
    case (Some k)
    then have key: "key = labels_prefix @ k" by (simp add: strip_prefix_iff)
    show ?thesis
    proof (cases "over \<or> v = None")
      case True
      then show ?thesis by (auto simp: e key entry_labels_def case_prod_beta)
    next
      case False
      then obtain w where "v = Some w" by auto
      with False show ?thesis
        using rbind_valid_label [of k w]
        by (cases "rbind (validate_label_key k) (\<lambda>_. validate_label_value w)")
          (auto simp: e key entry_labels_def case_prod_beta)
    qed
  qed
qed

lemma bound_labels_loop_set:
  "set (fst (bound_labels_loop eff)) = (\<Union>e\<in>set eff. entry_labels e)"
  by (induction eff) (simp_all add: bound_labels_loop_Cons del: bound_labels_loop.simps(2))

text \<open>The labels a configuration binds, in sorted order, are exactly the valid string values under
  \<open>labels.\<close> keys outside the invocation override: a bad key, an over-long or secret-referencing value,
  or a character outside the safe set (checked per UTF-8 character) binds nothing.\<close>

lemma bound_labels_are_the_valid_ones:
  "sorted (fst (bound_labels_from effective))
   \<and> set (fst (bound_labels_from effective)) =
       {label_bound k v | k v. (labels_prefix @ k, False, Some v) \<in> set effective
          \<and> label_key_ok k \<and> label_value_ok v}"
  by (auto simp: bound_labels_from_def case_prod_beta bound_labels_loop_set entry_labels_def)

end
