(* ===== verification/Run_Ids.thy ===== *)
theory Run_Ids
  imports Run_Types
begin

text \<open>
  Run ids (\<open>RunId::mint\<close>, \<open>encode_ulid\<close>, \<open>is_ulid\<close> of \<open>domain/usage.rs\<close>): a minted id has the shape the
  validator asks for, and the byte order of minted ids, which is the order the store sorts by, is
  exactly the order of their timestamps and then of their random bytes.
\<close>

unbundle bit_operations_syntax

lemma or_eq_plus:
  assumes "2 ^ k dvd (a :: nat)" and "b < 2 ^ k"
  shows "a OR b = a + b"
proof -
  obtain q where "a = push_bit k q"
    using assms(1) by (auto simp: push_bit_eq_mult ac_simps elim: dvdE)
  moreover have "b = take_bit k b"
    using assms(2) by (simp add: take_bit_nat_eq_self)
  moreover have "push_bit k q AND take_bit k b = 0"
    by (auto simp: bit_eq_iff bit_simps)
  ultimately have "a AND b = 0" by simp
  then show ?thesis by (simp add: disjunctive_add_eq_or)
qed

text \<open>The big-endian value of a byte list.\<close>

fun be_val :: "nat list \<Rightarrow> nat" where
  "be_val [] = 0"
| "be_val (b # bs) = b * 256 ^ length bs + be_val bs"

lemma be_val_less: "\<forall>b\<in>set bs. b < 256 \<Longrightarrow> be_val bs < 256 ^ length bs"
proof (induction bs)
  case (Cons b bs)
  then have "b * 256 ^ length bs + be_val bs < b * 256 ^ length bs + 256 ^ length bs" by simp
  also have "\<dots> = (b + 1) * 256 ^ length bs" by (simp add: algebra_simps)
  also have "\<dots> \<le> 256 * 256 ^ length bs" using Cons.prems by (intro mult_le_mono1) simp
  finally show ?case by simp
qed simp

lemma be_val_less_iff:
  assumes "length bs = length cs" "\<forall>b\<in>set bs. b < 256" "\<forall>c\<in>set cs. c < 256"
  shows "be_val bs < be_val cs \<longleftrightarrow> bs < cs"
  using assms
proof (induction bs cs rule: list_induct2)
  case (Cons b bs c cs)
  let ?n = "256 ^ length cs :: nat"
  have bounds: "be_val bs < ?n" "be_val cs < ?n"
    using Cons.hyps Cons.prems be_val_less [of bs] be_val_less [of cs] by simp_all
  have strict: "x * ?n + u < y * ?n + v" if "x < y" "u < ?n" for x y u v :: nat
  proof -
    have "x * ?n + u < (x + 1) * ?n" using that(2) by (simp add: algebra_simps)
    also have "\<dots> \<le> y * ?n" using that(1) by (intro mult_le_mono1) simp
    finally show ?thesis by simp
  qed
  consider "b < c" | "b = c" | "c < b" by linarith
  then show ?case
  proof cases
    case 1
    then show ?thesis using strict [of b c "be_val bs" "be_val cs"] bounds Cons.hyps by simp
  next
    case 2
    then show ?thesis using Cons by simp
  next
    case 3
    then show ?thesis using strict [of c b "be_val cs" "be_val bs"] bounds Cons.hyps by simp
  qed
qed simp

lemma foldl_or_bytes:
  assumes "2 ^ (8 * length bs) dvd v" and "\<forall>b\<in>set bs. b < 256" and "n + length bs = 10"
  shows "foldl (\<lambda>value (i, byte). value OR (byte * 2 ^ (8 * (9 - i)))) v (enumerate n bs)
           = v + be_val bs"
  using assms
proof (induction bs arbitrary: v n)
  case (Cons b bs)
  let ?k = "8 * length bs"
  have pos: "9 - n = length bs" using Cons.prems(3) by simp
  have "b * 2 ^ ?k < 256 * 2 ^ ?k" using Cons.prems(2) by simp
  also have "(256 :: nat) * 2 ^ ?k = 2 ^ (8 * length (b # bs))" by (simp add: power_add)
  finally have "v OR (b * 2 ^ ?k) = v + b * 2 ^ ?k"
    by (rule or_eq_plus [OF Cons.prems(1)])
  moreover have "2 ^ ?k dvd v + b * 2 ^ ?k"
    using dvd_trans [OF le_imp_power_dvd [of ?k "8 * length (b # bs)" 2] Cons.prems(1)] by simp
  moreover have "(256 :: nat) ^ length bs = 2 ^ ?k" by (simp add: power_mult)
  ultimately show ?case
    using Cons.IH [of "v + b * 2 ^ ?k" "Suc n"] Cons.prems(2,3) by (simp add: pos)
qed simp

definition random_bytes :: "nat list \<Rightarrow> bool" where
  "random_bytes r \<longleftrightarrow> length r = 10 \<and> (\<forall>b\<in>set r. b < 256)"

lemma ulid_value_eq:
  assumes "m < 2 ^ 48" and "random_bytes r"
  shows "ulid_value m r = m * 2 ^ 80 + be_val r"
  using assms foldl_or_bytes [of r "m * 2 ^ 80" 0]
  by (simp add: ulid_value_def random_bytes_def)

text \<open>The base-32 rendering is strictly monotone on values that fit.\<close>

definition enc :: "nat \<Rightarrow> nat \<Rightarrow> string" where
  "enc n v = map (\<lambda>group. crockford ! (v div 2 ^ (5 * group) mod 32)) (rev [0..<n])"

lemma enc_Suc: "enc (Suc n) v = crockford ! (v div 2 ^ (5 * n) mod 32) # enc n v"
  by (simp add: enc_def)

lemma group_mod: "g < n \<Longrightarrow> (v mod 2 ^ (5 * n)) div 2 ^ (5 * g) mod 32 = (v div 2 ^ (5 * g) mod 32 :: nat)"
proof -
  assume g: "g < n"
  have "take_bit 5 (drop_bit (5 * g) (take_bit (5 * n) v)) = take_bit 5 (drop_bit (5 * g) v)"
    using g by (auto simp: bit_eq_iff bit_simps)
  then show ?thesis by (simp add: take_bit_eq_mod drop_bit_eq_div)
qed

lemma enc_mod: "enc n (v mod 2 ^ (5 * n)) = enc n v"
  by (simp add: enc_def group_mod)

lemma crockford_strict: "i < j \<Longrightarrow> j < 32 \<Longrightarrow> crockford ! i < crockford ! j"
proof -
  assume ij: "i < j" "j < 32"
  have "sorted_wrt (<) crockford" by code_simp
  then show ?thesis
    by (rule sorted_wrt_nth_less) (use ij in \<open>simp_all add: crockford_def\<close>)
qed

lemma crockford_nth: "crockford ! (k mod 32) \<in> set crockford"
  by (rule nth_mem) (simp add: crockford_def)

lemma enc_strict: "v < w \<Longrightarrow> w < 2 ^ (5 * n) \<Longrightarrow> enc n v < enc n w"
proof (induction n arbitrary: v w)
  case (Suc n)
  let ?p = "2 ^ (5 * n) :: nat"
  have w: "w div ?p < 32"
    using Suc.prems(2) by (simp add: less_mult_imp_div_less power_add mult.commute)
  have le: "v div ?p \<le> w div ?p" using Suc.prems(1) by (simp add: div_le_mono)
  show ?case
  proof (cases "v div ?p = w div ?p")
    case True
    then have "v mod ?p < w mod ?p"
      using Suc.prems(1) by (metis div_mult_mod_eq nat_add_left_cancel_less)
    then have "enc n (v mod ?p) < enc n (w mod ?p)" by (intro Suc.IH) simp_all
    then show ?thesis by (simp add: enc_Suc enc_mod True)
  next
    case False
    with le w have "crockford ! (v div ?p mod 32) < crockford ! (w div ?p mod 32)"
      by (intro crockford_strict) simp_all
    then show ?thesis by (simp add: enc_Suc)
  qed
qed simp

lemma enc_less_iff: "v < 2 ^ (5 * n) \<Longrightarrow> w < 2 ^ (5 * n) \<Longrightarrow> enc n v < enc n w \<longleftrightarrow> v < w"
  by (metis enc_strict linorder_neqE_nat order_less_asym order_less_irrefl)

lemma encode_ulid_enc: "encode_ulid m r = enc 26 (ulid_value m r)"
  by (simp add: encode_ulid_def enc_def)

lemma ulid_value_less:
  assumes "m < 2 ^ 48" and "random_bytes r"
  shows "ulid_value m r < 2 ^ (5 * 26)"
proof -
  have "be_val r < 2 ^ 80"
    using be_val_less [of r] assms(2) by (simp add: random_bytes_def)
  moreover have "m * 2 ^ 80 \<le> (2 ^ 48 - 1) * 2 ^ 80" using assms(1) by (intro mult_le_mono1) simp
  ultimately show ?thesis by (simp add: ulid_value_eq assms)
qed

lemma ulid_value_less_iff:
  assumes "m < 2 ^ 48" "m' < 2 ^ 48" "random_bytes r" "random_bytes r'"
  shows "ulid_value m r < ulid_value m' r' \<longleftrightarrow> m < m' \<or> m = m' \<and> r < r'"
proof -
  have b: "be_val r < 2 ^ 80" "be_val r' < 2 ^ 80"
    using be_val_less [of r] be_val_less [of r'] assms(3,4) by (simp_all add: random_bytes_def)
  have "be_val r < be_val r' \<longleftrightarrow> r < r'"
    using assms(3,4) by (intro be_val_less_iff) (simp_all add: random_bytes_def)
  moreover have "m * 2 ^ 80 + be_val r < m' * 2 ^ 80 + be_val r' \<longleftrightarrow>
      m < m' \<or> m = m' \<and> be_val r < be_val r'"
    using b by auto
  ultimately show ?thesis by (simp add: ulid_value_eq [OF assms(1,3)] ulid_value_eq [OF assms(2,4)])
qed

text \<open>Every minted id passes \<open>is_ulid\<close>, and minted ids sort byte-wise exactly by timestamp and then
  by random bytes: the id order the store uses is creation order, and equal ids mean equal inputs.\<close>

theorem minted_ids_sort_by_time:
  assumes "random_bytes r" and "random_bytes r'"
  shows "is_ulid (mint m r)
    \<and> (mint m r < mint m' r' \<longleftrightarrow>
        m AND mask 48 < m' AND mask 48 \<or> m AND mask 48 = m' AND mask 48 \<and> r < r')"
proof -
  have lt: "unat (x AND mask 48) < 2 ^ 48" for x :: u64
    using take_bit_nat_less_exp [of 48 "unat x"]
    by (simp add: unsigned_take_bit_eq flip: take_bit_eq_mask)
  have "is_ulid (mint m r)"
    using crockford_nth by (auto simp: is_ulid_def mint_def encode_ulid_def)
  moreover have "mint m r < mint m' r' \<longleftrightarrow>
      m AND mask 48 < m' AND mask 48 \<or> m AND mask 48 = m' AND mask 48 \<and> r < r'"
    using ulid_value_less_iff [OF lt lt assms] enc_less_iff [OF ulid_value_less ulid_value_less, OF lt _ lt]
    by (simp add: mint_def run_prefix_def encode_ulid_enc assms word_less_nat_alt word_unat_eq_iff)
  ultimately show ?thesis by blast
qed

theorem minted_ids_sort_by_time_witness:
  "mint 1700000000000 (replicate 10 0) < mint 1700000000001 (replicate 10 0)
   \<and> is_ulid (mint 1700000000000 (replicate 10 0))"
  using minted_ids_sort_by_time [of "replicate 10 0" "replicate 10 0" 1700000000000 1700000000001]
  by (simp add: random_bytes_def mask_eq_exp_minus_1)

end
