(* ===== verification/Database.thy ===== *)
theory Database
  imports Run_Types
begin

text \<open>
  The state database: the tables the Run store keeps (\<open>SCHEMA_V13\<close> of \<open>store/runs_sqlite.rs\<close>, \<open>SCHEMA_V12\<close>
  of \<open>store/run_store_sqlite.rs\<close>, the instance table of \<open>store/sqlite.rs\<close>) as lists of row records, in
  row order, with their TEXT columns kept as text. A map models a table that is only read and upserted
  by its primary key. A statement that would break a constraint (primary key, unique index, foreign key)
  is refused with \<open>Backend\<close>.

  Every operation of the store runs inside the writer's savepoint, which rolls back to its start on an
  error: an operation here returns \<open>Inl error\<close> and no state, or \<open>Inr\<close> its result and the new state.
\<close>

section \<open>Errors\<close>

text \<open>What \<open>StoreError::Backend\<close> reports: the constraint SQLite refused, or a text of the engine's own.\<close>

datatype backend_reason = PrimaryKey string | UniqueIndex string | ForeignKey string | Text string

datatype store_error =
  DuplicateName string
| NotFound string
| CorruptRow string string
| SchemaTooNew int int
| NeedsMigration int int
| MemoryBackingKindConflict string string string
| MemoryBackingHotSwap string string
| MemoryBackingChangedUnderStart string string string
| StateConflict string string string
| Busy u64
| Backend backend_reason

section \<open>Rows\<close>

record instance_row =
  in_id :: int
  in_name :: string
  in_kind :: string
  in_state :: string
  in_home :: string
  in_created :: string
  in_updated :: string
  in_generation :: int

record run_row =
  rw_id :: string
  rw_depth :: string
  rw_wire :: int
  rw_status :: string
  rw_anomalies :: string
  rw_parent :: "string option"
  rw_instance :: "int option"
  rw_owner :: int
  rw_end_cause :: "string option"
  rw_created :: string
  rw_updated :: string
  rw_ended :: "string option"

record label_row =
  lr_run :: string
  lr_key :: string
  lr_value :: string
  lr_source :: string

record limit_row =
  lm_run :: string
  lm_dimension :: string
  lm_scope :: string
  lm_value :: int
  lm_action :: string
  lm_source :: string
  lm_set_at :: string

record identity_row =
  id_binding :: string
  id_external :: string
  id_run :: string
  id_created :: string

record usage_row =
  ur_id :: int
  ur_instance :: "int option"
  ur_run :: string
  ur_input :: int
  ur_output :: int
  ur_source :: string
  ur_occurred :: string
  ur_sequence :: int
  ur_rate_input :: "int option"
  ur_rate_output :: "int option"
  ur_cached :: "int option"
  ur_rate_cached :: "int option"
  ur_generation :: int
  ur_call :: "string option"

record rollup_row =
  ro_events :: u64
  ro_input :: u64
  ro_output :: u64
  ro_cached :: u64
  ro_cached_unknown :: u64
  ro_cost :: micros

record latch_row =
  la_run :: string
  la_dimension :: string
  la_scope :: string
  la_action :: string
  la_at :: string

text \<open>The supervision facts of an instance (\<open>agent_runtime\<close>), its attached memory backing and its
  transition records.\<close>

record runtime_row =
  rt_instance :: int
  rt_pid :: int
  rt_start :: int
  rt_policy :: string
  rt_count :: int
  rt_cause :: "string option"
  rt_detached :: int
  rt_session :: "string option"
  rt_run :: "string option"
  rt_owner_pid :: "int option"
  rt_owner_start :: "int option"
  rt_lease_pid :: "int option"
  rt_lease_start :: "int option"

record backing_row =
  bk_instance :: int
  bk_kind :: string
  bk_attached :: string

record transition_row =
  tr_id :: int
  tr_instance :: int
  tr_event :: string

record breach_row =
  br_id :: int
  br_instance :: int
  br_run :: string
  br_dimension :: string
  br_scope :: string
  br_action :: string
  br_event :: string

record outbox_row =
  ob_seq :: int
  ob_event :: string
  ob_bytes :: int

section \<open>Tables\<close>

record db =
  db_instances :: "instance_row list"
  db_runs :: "run_row list"
  db_labels :: "label_row list"
  db_limits :: "limit_row list"
  db_identities :: "identity_row list"
  db_usage :: "usage_row list"
  db_usage_seq :: int
  db_rollup_instance :: "int \<rightharpoonup> rollup_row"
  db_rollup_run :: "int \<times> string \<rightharpoonup> rollup_row"
  db_folded_through :: int
  db_latches :: "latch_row list"
  db_breaches :: "breach_row list"
  db_breach_seq :: int
  db_outbox :: "outbox_row list"
  db_outbox_seq :: int
  db_outbox_ack :: "int option"
  db_outbox_bytes :: int
  db_runtime :: "runtime_row list"
  db_backings :: "backing_row list"
  db_transitions :: "transition_row list"
  db_transition_seq :: int

definition instance_id :: "db \<Rightarrow> string \<Rightarrow> int option" where
  "instance_id s name = map_option in_id (find (\<lambda>i. in_name i = name) (db_instances s))"

text \<open>The joined \<open>i.name\<close> and \<open>i.state\<close> of a row's \<open>instance_id\<close>.\<close>

definition joined_instance :: "db \<Rightarrow> int option \<Rightarrow> instance_row option" where
  "joined_instance s iid =
     (case iid of None \<Rightarrow> None | Some i \<Rightarrow> find (\<lambda>r. in_id r = i) (db_instances s))"

definition joined_name :: "db \<Rightarrow> int option \<Rightarrow> string option" where
  "joined_name s iid = map_option in_name (joined_instance s iid)"

definition find_run :: "db \<Rightarrow> string \<Rightarrow> run_row option" where
  "find_run s rid = find (\<lambda>r. rw_id r = rid) (db_runs s)"

text \<open>The predicate of the partial index \<open>idx_runs_open_owner\<close>.\<close>

definition open_owner_row :: "run_row \<Rightarrow> bool" where
  "open_owner_row r \<longleftrightarrow> rw_owner r = 1 \<and> rw_status r \<noteq> ''ended''"

section \<open>Well-formed databases\<close>

definition instances_ok :: "db \<Rightarrow> bool" where
  "instances_ok s \<longleftrightarrow> distinct (map in_id (db_instances s)) \<and> distinct (map in_name (db_instances s))"

definition one_open_owner :: "run_row list \<Rightarrow> bool" where
  "one_open_owner rows \<longleftrightarrow>
     (\<forall>r\<in>set rows. \<forall>r'\<in>set rows. open_owner_row r \<and> open_owner_row r'
        \<and> rw_instance r = rw_instance r' \<and> rw_instance r \<noteq> None \<longrightarrow> r = r')"

definition run_keys_ok :: "db \<Rightarrow> bool" where
  "run_keys_ok s \<longleftrightarrow>
     distinct (map rw_id (db_runs s)) \<and> one_open_owner (db_runs s)
     \<and> (\<forall>r\<in>set (db_runs s). \<forall>p. rw_parent r = Some p \<longrightarrow> p \<in> rw_id ` set (db_runs s))
     \<and> (\<forall>r\<in>set (db_runs s). \<forall>i. rw_instance r = Some i \<longrightarrow> i \<in> in_id ` set (db_instances s))"

definition side_tables_ok :: "db \<Rightarrow> bool" where
  "side_tables_ok s \<longleftrightarrow>
     distinct (map (\<lambda>l. (lr_run l, lr_key l)) (db_labels s))
     \<and> (\<forall>l\<in>set (db_labels s). lr_run l \<in> rw_id ` set (db_runs s))
     \<and> (\<forall>m\<in>set (db_limits s). lm_run m \<in> rw_id ` set (db_runs s))
     \<and> distinct (map (\<lambda>i. (id_binding i, id_external i)) (db_identities s))
     \<and> (\<forall>i\<in>set (db_identities s). id_run i \<in> rw_id ` set (db_runs s))"

text \<open>The text columns hold wire forms.\<close>

definition run_row_ok :: "run_row \<Rightarrow> bool" where
  "run_row_ok r \<longleftrightarrow> depth_from_wire (rw_depth r) \<noteq> None \<and> status_from_wire (rw_status r) \<noteq> None
     \<and> rw_owner r \<in> {0, 1}"

definition label_row_ok :: "label_row \<Rightarrow> bool" where
  "label_row_ok l \<longleftrightarrow> source_from_wire (lr_source l) \<noteq> None"

definition limit_row_ok :: "limit_row \<Rightarrow> bool" where
  "limit_row_ok m \<longleftrightarrow> lm_dimension m \<in> {''tokens'', ''dollars''} \<and> lm_scope m = ''per-run''
     \<and> (\<exists>a. lm_action m = action_as_str a)"

definition text_ok :: "db \<Rightarrow> bool" where
  "text_ok s \<longleftrightarrow> (\<forall>r\<in>set (db_runs s). run_row_ok r) \<and> (\<forall>l\<in>set (db_labels s). label_row_ok l)
     \<and> (\<forall>m\<in>set (db_limits s). limit_row_ok m)"

definition db_ok :: "db \<Rightarrow> bool" where
  "db_ok s \<longleftrightarrow> instances_ok s \<and> run_keys_ok s \<and> side_tables_ok s \<and> text_ok s"

lemmas db_ok_defs = db_ok_def run_keys_ok_def side_tables_ok_def text_ok_def

definition empty_db :: "instance_row list \<Rightarrow> db" where
  "empty_db is =
     \<lparr>db_instances = is, db_runs = [], db_labels = [], db_limits = [], db_identities = [],
      db_usage = [], db_usage_seq = 0, db_rollup_instance = Map.empty, db_rollup_run = Map.empty,
      db_folded_through = 0, db_latches = [], db_breaches = [], db_breach_seq = 0, db_outbox = [],
      db_outbox_seq = 0, db_outbox_ack = None, db_outbox_bytes = 0,
      db_runtime = [], db_backings = [], db_transitions = [], db_transition_seq = 0\<rparr>"

lemma db_ok_empty: "distinct (map in_id is) \<Longrightarrow> distinct (map in_name is) \<Longrightarrow> db_ok (empty_db is)"
  by (simp add: db_ok_defs instances_ok_def empty_db_def one_open_owner_def)

section \<open>Instances\<close>

text \<open>\<open>create_instance\<close>: SQLite gives the row the id after the highest one.\<close>

definition create_instance ::
  "string \<Rightarrow> string \<Rightarrow> lifecycle_state \<Rightarrow> string \<Rightarrow> string \<Rightarrow> string \<Rightarrow> db \<Rightarrow> store_error + db" where
  "create_instance name kind state home created updated s =
     (if \<exists>i\<in>set (db_instances s). in_name i = name then Inl (DuplicateName name)
      else Inr (s\<lparr>db_instances := db_instances s @
             [\<lparr>in_id = fold max (map in_id (db_instances s)) 0 + 1, in_name = name, in_kind = kind,
               in_state = lifecycle_as_str state, in_home = home, in_created = created,
               in_updated = updated, in_generation = 0\<rparr>]\<rparr>))"

definition set_state :: "string \<Rightarrow> lifecycle_state \<Rightarrow> string \<Rightarrow> db \<Rightarrow> store_error + db" where
  "set_state name state now s =
     (if \<exists>i\<in>set (db_instances s). in_name i = name then
        Inr (s\<lparr>db_instances := map (\<lambda>i. if in_name i = name
               then i\<lparr>in_state := lifecycle_as_str state, in_updated := now\<rparr> else i) (db_instances s)\<rparr>)
      else Inl (NotFound name))"

text \<open>\<open>delete_instance\<close>, with the rows its foreign keys cascade to: the instance's Runs and what hangs
  off them, its usage, rollups, breaches, transitions, supervision facts and backing; another Run's \<open>parent_run_id\<close> into them becomes null.\<close>

definition delete_instance :: "string \<Rightarrow> db \<Rightarrow> store_error + db" where
  "delete_instance name s =
     (case instance_id s name of
        None \<Rightarrow> Inl (NotFound name)
      | Some i \<Rightarrow>
          (let gone = rw_id ` {r \<in> set (db_runs s). rw_instance r = Some i}
           in Inr (s\<lparr>db_instances := filter (\<lambda>x. in_id x \<noteq> i) (db_instances s),
                db_runs := map (\<lambda>r. if (\<exists>p\<in>gone. rw_parent r = Some p) then r\<lparr>rw_parent := None\<rparr> else r)
                             (filter (\<lambda>r. rw_instance r \<noteq> Some i) (db_runs s)),
                db_labels := filter (\<lambda>l. lr_run l \<notin> gone) (db_labels s),
                db_limits := filter (\<lambda>m. lm_run m \<notin> gone) (db_limits s),
                db_identities := filter (\<lambda>x. id_run x \<notin> gone) (db_identities s),
                db_latches := filter (\<lambda>x. la_run x \<notin> gone) (db_latches s),
                db_usage := filter (\<lambda>u. ur_instance u \<noteq> Some i) (db_usage s),
                db_rollup_instance := (db_rollup_instance s)(i := None),
                db_rollup_run := (\<lambda>(j, r). if j = i then None else db_rollup_run s (j, r)),
                db_breaches := filter (\<lambda>b. br_instance b \<noteq> i) (db_breaches s),
                db_runtime := filter (\<lambda>x. rt_instance x \<noteq> i) (db_runtime s),
                db_backings := filter (\<lambda>x. bk_instance x \<noteq> i) (db_backings s),
                db_transitions := filter (\<lambda>x. tr_instance x \<noteq> i) (db_transitions s)\<rparr>)))"

lemma find_run_Some: "find_run s rid = Some r \<Longrightarrow> r \<in> set (db_runs s) \<and> rw_id r = rid"
  by (auto simp: find_run_def dest: find_Some_in)

lemma find_run_None: "find_run s rid = None \<longleftrightarrow> rid \<notin> rw_id ` set (db_runs s)"
  by (auto simp: find_run_def find_None_all)

lemma find_distinct_key:
  "distinct (map k xs) \<Longrightarrow> x \<in> set xs \<Longrightarrow> find (\<lambda>y. k y = k x) xs = Some x"
  by (induction xs) (auto simp: rev_image_eqI)

lemma find_run_in: "run_keys_ok s \<Longrightarrow> r \<in> set (db_runs s) \<Longrightarrow> find_run s (rw_id r) = Some r"
  by (simp add: find_run_def run_keys_ok_def find_distinct_key)

lemma instance_id_Some_name:
  "instances_ok s \<Longrightarrow> instance_id s n = Some i \<longleftrightarrow> joined_name s (Some i) = Some n"
  by (auto simp: instances_ok_def instance_id_def joined_name_def joined_instance_def
      dest!: find_Some_in dest: find_distinct_key)

end
