(* ===== verification/Run_Store.thy ===== *)
theory Run_Store
  imports Database
begin

text \<open>
  \<open>impl RunRecords for SqliteStore\<close> (\<open>store/runs_sqlite.rs\<close>): reading a Run row back into a record, the
  inserts and updates with the constraints they may break, the ancestor chain and the recursive query
  for the open in-process descendants.
\<close>

section \<open>Reading\<close>

definition read_record :: "db \<Rightarrow> run_row \<Rightarrow> store_error + run_record" where
  "read_record s row =
     (case depth_from_wire (rw_depth row) of
        None \<Rightarrow> Inl (CorruptRow ''runs'' (''Run '' @ quoted (rw_id row)
                       @ '' has an unknown control depth '' @ quoted (rw_depth row)))
      | Some depth \<Rightarrow>
          (case status_from_wire (rw_status row) of
             None \<Rightarrow> Inl (CorruptRow ''runs'' (''Run '' @ quoted (rw_id row)
                            @ '' has an unknown status '' @ quoted (rw_status row)))
           | Some status \<Rightarrow>
               Inr \<lparr>rr_id = rw_id row, rr_depth = depth, rr_wire = (rw_wire row \<noteq> 0),
                    rr_status = status, rr_anomalies = anomalies_decode (rw_anomalies row),
                    rr_parent = rw_parent row, rr_instance = joined_name s (rw_instance row),
                    rr_owner = (rw_owner row \<noteq> 0), rr_end_cause = rw_end_cause row,
                    rr_created = rw_created row, rr_updated = rw_updated row,
                    rr_ended = rw_ended row\<rparr>))"

text \<open>\<open>SELECT .. FROM runs LEFT JOIN agent_instances\<close> with a condition and an order.\<close>

definition records_where :: "db \<Rightarrow> (run_row \<Rightarrow> bool) \<Rightarrow> (run_row list \<Rightarrow> run_row list)
    \<Rightarrow> store_error + run_record list" where
  "records_where s P order = rmap (read_record s) (order (filter P (db_runs s)))"

definition run_record_of :: "db \<Rightarrow> run_id \<Rightarrow> store_error + run_record option" where
  "run_record_of s rid =
     (case find_run s rid of
        None \<Rightarrow> Inr None
      | Some row \<Rightarrow> rbind (read_record s row) (\<lambda>r. Inr (Some r)))"

definition read_label :: "run_id \<Rightarrow> label_row \<Rightarrow> store_error + label" where
  "read_label rid l =
     (case source_from_wire (lr_source l) of
        Some source \<Rightarrow> Inr (Label (lr_key l) (lr_value l) source)
      | None \<Rightarrow> Inl (CorruptRow ''run_labels'' (''Run '' @ quoted rid @ '' label '' @ quoted (lr_key l)
                       @ '' has an unknown source '' @ quoted (lr_source l))))"

definition run_labels :: "db \<Rightarrow> run_id \<Rightarrow> store_error + label list" where
  "run_labels s rid =
     rmap (read_label rid) (sort_key lr_key (filter (\<lambda>l. lr_run l = rid) (db_labels s)))"

definition read_limit :: "run_id \<Rightarrow> limit_row \<Rightarrow> run_limits \<Rightarrow> store_error + run_limits" where
  "read_limit rid row limits =
     (case parse_action (lm_action row) of
        Inl _ \<Rightarrow> Inl (CorruptRow ''run_limits'' (''Run '' @ quoted rid
                   @ '' has an unknown Breach Action '' @ quoted (lm_action row)))
      | Inr action \<Rightarrow>
          (let l = limits\<lparr>rl_action := Some action\<rparr>
           in if lm_dimension row = ''tokens'' then
                Inr (l\<lparr>rl_token := Some (word_of_int (max (lm_value row) 0))\<rparr>)
              else if lm_dimension row = ''dollars'' then
                Inr (l\<lparr>rl_dollar := Some (max (lm_value row) 0)\<rparr>)
              else Inl (CorruptRow ''run_limits'' (''Run '' @ quoted rid
                          @ '' has an unknown dimension '' @ quoted (lm_dimension row)))))"

definition run_limits_of :: "db \<Rightarrow> run_id \<Rightarrow> store_error + run_limits" where
  "run_limits_of s rid =
     rfold (read_limit rid)
       (filter (\<lambda>m. lm_run m = rid \<and> lm_scope m = ''per-run'') (db_limits s)) limits_default"

text \<open>The loop of \<open>run_chain\<close>: at most \<open>2 * MAX_RUN_NESTING\<close> records.\<close>

fun chain_loop :: "nat \<Rightarrow> db \<Rightarrow> run_id option \<Rightarrow> store_error + run_record list" where
  "chain_loop 0 s next = Inr []"
| "chain_loop (Suc n) s None = Inr []"
| "chain_loop (Suc n) s (Some rid) =
     rbind (run_record_of s rid) (\<lambda>found.
       case found of
         None \<Rightarrow> Inr []
       | Some record \<Rightarrow>
           rbind (chain_loop n s (rr_parent record)) (\<lambda>rest. Inr (record # rest)))"

definition run_chain :: "db \<Rightarrow> run_id \<Rightarrow> store_error + run_record list" where
  "run_chain s rid = chain_loop (2 * max_run_nesting) s (Some rid)"

definition open_process_run :: "db \<Rightarrow> string \<Rightarrow> store_error + run_record option" where
  "open_process_run s name =
     rbind (records_where s
              (\<lambda>r. joined_name s (rw_instance r) = Some name \<and> rw_owner r = 1 \<and> rw_status r \<noteq> ''ended'')
              (take 1))
       (\<lambda>rs. Inr (case rs of [] \<Rightarrow> None | r # _ \<Rightarrow> Some r))"

text \<open>The recursive part of the descendant query: the ids at each depth, from the row asked for.\<close>

fun tree_level :: "db \<Rightarrow> run_id \<Rightarrow> nat \<Rightarrow> run_id list" where
  "tree_level s rid 0 = [rid]"
| "tree_level s rid (Suc n) =
     concat (map (\<lambda>t. map rw_id (filter (\<lambda>c. rw_parent c = Some t) (db_runs s))) (tree_level s rid n))"

definition tree_ids :: "db \<Rightarrow> run_id \<Rightarrow> run_id list" where
  "tree_ids s rid = concat (map (tree_level s rid) [1..<17])"

definition open_in_process_descendants :: "db \<Rightarrow> run_id \<Rightarrow> store_error + run_record list" where
  "open_in_process_descendants s rid =
     (let own = (case find_run s rid of None \<Rightarrow> None | Some r \<Rightarrow> rw_instance r);
          ids = tree_ids s rid
      in records_where s
           (\<lambda>r. rw_id r \<in> set ids \<and> rw_status r \<noteq> ''ended'' \<and> rw_owner r = 0
                \<and> own \<noteq> None \<and> rw_instance r = own)
           (sort_key (\<lambda>r. (rw_created r, rw_id r))))"

definition identity_run :: "db \<Rightarrow> string \<Rightarrow> string \<Rightarrow> store_error + run_id option" where
  "identity_run s binding external =
     Inr (map_option id_run
       (find (\<lambda>i. id_binding i = binding \<and> id_external i = external) (db_identities s)))"

definition open_children :: "db \<Rightarrow> run_id \<Rightarrow> store_error + u64" where
  "open_children s rid =
     Inr (of_nat (length (filter (\<lambda>r. rw_parent r = Some rid \<and> rw_status r \<noteq> ''ended'') (db_runs s))))"

definition open_runs :: "db \<Rightarrow> store_error + run_record list" where
  "open_runs s = records_where s (\<lambda>r. rw_status r \<noteq> ''ended'') (sort_key rw_id)"

definition open_owners_without_a_process :: "db \<Rightarrow> store_error + run_record list" where
  "open_owners_without_a_process s =
     records_where s
       (\<lambda>r. rw_owner r = 1 \<and> rw_status r \<noteq> ''ended''
            \<and> (case joined_instance s (rw_instance r) of
                 None \<Rightarrow> False
               | Some i \<Rightarrow> in_state i \<in> {''failed'', ''stopped'', ''registered''}))
       (sort_key rw_id)"

section \<open>Writing\<close>

definition optional_instance_id :: "db \<Rightarrow> string option \<Rightarrow> store_error + int option" where
  "optional_instance_id s name =
     (case name of
        None \<Rightarrow> Inr None
      | Some n \<Rightarrow>
          (case instance_name_new n of
             Inl e \<Rightarrow> Inl (CorruptRow n (''invalid instance name on a Run: '' @ name_error_rule e))
           | Inr iname \<Rightarrow>
               (case instance_id s iname of
                  Some i \<Rightarrow> Inr (Some i)
                | None \<Rightarrow> Inl (NotFound n))))"

definition owner_clash :: "run_row list \<Rightarrow> run_row \<Rightarrow> bool" where
  "owner_clash others row \<longleftrightarrow>
     open_owner_row row \<and> (case rw_instance row of None \<Rightarrow> False
                             | Some i \<Rightarrow> \<exists>x\<in>set others. open_owner_row x \<and> rw_instance x = Some i)"

definition insert_run_row :: "run_row \<Rightarrow> db \<Rightarrow> store_error + db" where
  "insert_run_row row s =
     (if \<exists>r\<in>set (db_runs s). rw_id r = rw_id row then Inl (Backend (PrimaryKey ''runs''))
      else if owner_clash (db_runs s) row then Inl (Backend (UniqueIndex ''idx_runs_open_owner''))
      else if \<exists>p. rw_parent row = Some p \<and> find_run s p = None then
        Inl (Backend (ForeignKey ''runs.parent_run_id''))
      else Inr (s\<lparr>db_runs := db_runs s @ [row]\<rparr>))"

definition row_of :: "int option \<Rightarrow> run_record \<Rightarrow> run_row" where
  "row_of iid r =
     \<lparr>rw_id = rr_id r, rw_depth = depth_as_str (rr_depth r), rw_wire = of_bool (rr_wire r),
      rw_status = status_as_str (rr_status r), rw_anomalies = anomalies_encode (rr_anomalies r),
      rw_parent = rr_parent r, rw_instance = iid, rw_owner = of_bool (rr_owner r),
      rw_end_cause = rr_end_cause r, rw_created = rr_created r, rw_updated = rr_updated r,
      rw_ended = rr_ended r\<rparr>"

definition insert_label :: "run_id \<Rightarrow> label \<Rightarrow> db \<Rightarrow> store_error + db" where
  "insert_label rid l s =
     (if \<exists>x\<in>set (db_labels s). lr_run x = rid \<and> lr_key x = lb_key l
      then Inl (Backend (PrimaryKey ''run_labels''))
      else if find_run s rid = None then Inl (Backend (ForeignKey ''run_labels.run_id''))
      else Inr (s\<lparr>db_labels := db_labels s @
             [\<lparr>lr_run = rid, lr_key = lb_key l, lr_value = lb_value l,
               lr_source = source_as_str (lb_source l)\<rparr>]\<rparr>))"

definition limit_i64 :: "u64 \<Rightarrow> int" where
  "limit_i64 t = min (uint t) i64_max"

definition limit_entries :: "run_limits \<Rightarrow> (string \<times> int) list" where
  "limit_entries l =
     (case rl_token l of None \<Rightarrow> [] | Some t \<Rightarrow> [(''tokens'', limit_i64 t)])
     @ (case rl_dollar l of None \<Rightarrow> [] | Some m \<Rightarrow> [(''dollars'', m)])"

definition insert_limit ::
  "run_id \<Rightarrow> string \<Rightarrow> string \<Rightarrow> string \<times> int \<Rightarrow> db \<Rightarrow> store_error + db" where
  "insert_limit rid action at entry s =
     (let (dimension, limit) = entry
      in if \<exists>m\<in>set (db_limits s). lm_run m = rid \<and> lm_dimension m = dimension \<and> lm_scope m = ''per-run''
         then Inl (Backend (PrimaryKey ''run_limits''))
         else if find_run s rid = None then Inl (Backend (ForeignKey ''run_limits.run_id''))
         else Inr (s\<lparr>db_limits := db_limits s @
                [\<lparr>lm_run = rid, lm_dimension = dimension, lm_scope = ''per-run'', lm_value = limit,
                  lm_action = action, lm_source = ''host'', lm_set_at = at\<rparr>]\<rparr>))"

definition insert_identity ::
  "run_id \<Rightarrow> string \<Rightarrow> (string \<times> string) option \<Rightarrow> db \<Rightarrow> store_error + db" where
  "insert_identity rid at identity s =
     (case identity of
        None \<Rightarrow> Inr s
      | Some (binding, external) \<Rightarrow>
          if \<exists>i\<in>set (db_identities s). id_binding i = binding \<and> id_external i = external
          then Inl (Backend (UniqueIndex ''run_identities''))
          else if find_run s rid = None then Inl (Backend (ForeignKey ''run_identities.run_id''))
          else Inr (s\<lparr>db_identities := db_identities s @
                 [\<lparr>id_binding = binding, id_external = external, id_run = rid, id_created = at\<rparr>]\<rparr>))"

definition insert_run :: "new_run \<Rightarrow> db \<Rightarrow> store_error + db" where
  "insert_run run s =
     (let r = nr_record run; rid = rr_id r
      in rbind (optional_instance_id s (rr_instance r)) (\<lambda>iid.
         rbind (insert_run_row (row_of iid r) s) (\<lambda>s.
         rbind (rfold (insert_label rid) (nr_labels run) s) (\<lambda>s.
         rbind (rfold (insert_limit rid (action_as_str (limits_action (nr_limits run))) (rr_created r))
                  (limit_entries (nr_limits run)) s) (\<lambda>s.
         insert_identity rid (rr_created r) (nr_identity run) s)))))"

definition saved_row :: "run_record \<Rightarrow> run_row \<Rightarrow> run_row" where
  "saved_row r row =
     row\<lparr>rw_depth := depth_as_str (rr_depth r), rw_wire := of_bool (rr_wire r),
         rw_status := status_as_str (rr_status r), rw_anomalies := anomalies_encode (rr_anomalies r),
         rw_end_cause := rr_end_cause r, rw_updated := rr_updated r, rw_ended := rr_ended r\<rparr>"

definition save_run :: "run_record \<Rightarrow> db \<Rightarrow> store_error + db" where
  "save_run r s =
     (case find_run s (rr_id r) of
        None \<Rightarrow> Inl (NotFound (rr_id r))
      | Some old \<Rightarrow>
          if owner_clash (filter (\<lambda>x. rw_id x \<noteq> rr_id r) (db_runs s)) (saved_row r old)
          then Inl (Backend (UniqueIndex ''idx_runs_open_owner''))
          else Inr (s\<lparr>db_runs := map (\<lambda>x. if rw_id x = rr_id r then saved_row r x else x) (db_runs s)\<rparr>))"

definition upsert_label :: "run_id \<Rightarrow> label_source \<Rightarrow> label \<Rightarrow> db \<Rightarrow> store_error + db" where
  "upsert_label rid source l s =
     (if find_run s rid = None then Inl (Backend (ForeignKey ''run_labels.run_id''))
      else if \<exists>x\<in>set (db_labels s). lr_run x = rid \<and> lr_key x = lb_key l then
        Inr (s\<lparr>db_labels := map (\<lambda>x. if lr_run x = rid \<and> lr_key x = lb_key l
               then x\<lparr>lr_value := lb_value l, lr_source := source_as_str source\<rparr> else x) (db_labels s)\<rparr>)
      else Inr (s\<lparr>db_labels := db_labels s @
             [\<lparr>lr_run = rid, lr_key = lb_key l, lr_value = lb_value l,
               lr_source = source_as_str source\<rparr>]\<rparr>))"

definition replace_labels :: "run_id \<Rightarrow> label_source \<Rightarrow> label list \<Rightarrow> db \<Rightarrow> store_error + db" where
  "replace_labels rid source labels s =
     rfold (upsert_label rid source) labels
       (s\<lparr>db_labels := filter (\<lambda>x. \<not> (lr_run x = rid \<and> lr_source x = source_as_str source))
                          (db_labels s)\<rparr>)"

text \<open>\<open>INSERT OR IGNORE\<close>: an existing row of that id is left alone.\<close>

definition ensure_run_row :: "run_id \<Rightarrow> string \<Rightarrow> string \<Rightarrow> db \<Rightarrow> store_error + db" where
  "ensure_run_row rid name now s =
     (if find_run s rid \<noteq> None then Inr s
      else Inr (s\<lparr>db_runs := db_runs s @
             [\<lparr>rw_id = rid, rw_depth = ''supervised'', rw_wire = 0, rw_status = ''ended'',
               rw_anomalies = [], rw_parent = None, rw_instance = instance_id s name, rw_owner = 1,
               rw_end_cause = Some ''unregistered'', rw_created = now, rw_updated = now,
               rw_ended = Some now\<rparr>]\<rparr>))"

end
