(* ===== verification/Run_Store_Facts.thy ===== *)
theory Run_Store_Facts
  imports Run_Store
begin

text \<open>
  What the Run store promises its callers: on a well-formed database every read succeeds and is a pure
  function of the rows, every write keeps the database well-formed (one open process owner per instance
  among it), and a write shows in exactly the Run it names: \<open>entry_of\<close> is the store's content as the
  callers see it, one record with its labels and limits per Run id.
\<close>

section \<open>Reads are pure functions of well-formed rows\<close>

definition rec_of :: "db \<Rightarrow> run_row \<Rightarrow> run_record" where
  "rec_of s row =
     \<lparr>rr_id = rw_id row, rr_depth = the (depth_from_wire (rw_depth row)), rr_wire = (rw_wire row \<noteq> 0),
      rr_status = the (status_from_wire (rw_status row)),
      rr_anomalies = anomalies_decode (rw_anomalies row), rr_parent = rw_parent row,
      rr_instance = joined_name s (rw_instance row), rr_owner = (rw_owner row \<noteq> 0),
      rr_end_cause = rw_end_cause row, rr_created = rw_created row, rr_updated = rw_updated row,
      rr_ended = rw_ended row\<rparr>"

definition label_of :: "label_row \<Rightarrow> label" where
  "label_of l = Label (lr_key l) (lr_value l) (the (source_from_wire (lr_source l)))"

definition limit_step :: "limit_row \<Rightarrow> run_limits \<Rightarrow> run_limits" where
  "limit_step m l =
     (let l' = l\<lparr>rl_action := Some (case parse_action (lm_action m) of Inr a \<Rightarrow> a | Inl _ \<Rightarrow> ActWarn)\<rparr>
      in if lm_dimension m = ''tokens'' then l'\<lparr>rl_token := Some (word_of_int (max (lm_value m) 0))\<rparr>
         else l'\<lparr>rl_dollar := Some (max (lm_value m) 0)\<rparr>)"

definition labels_at :: "db \<Rightarrow> run_id \<Rightarrow> label list" where
  "labels_at s rid = map label_of (sort_key lr_key (filter (\<lambda>l. lr_run l = rid) (db_labels s)))"

definition limits_at :: "db \<Rightarrow> run_id \<Rightarrow> run_limits" where
  "limits_at s rid =
     fold limit_step (filter (\<lambda>m. lm_run m = rid \<and> lm_scope m = ''per-run'') (db_limits s))
       limits_default"

definition record_at :: "db \<Rightarrow> run_id \<Rightarrow> run_record option" where
  "record_at s rid = map_option (rec_of s) (find_run s rid)"

definition entry_of :: "db \<Rightarrow> run_id \<Rightarrow> run_entry option" where
  "entry_of s rid =
     map_option (\<lambda>r. \<lparr>re_record = r, re_labels = labels_at s rid, re_limits = limits_at s rid\<rparr>)
       (record_at s rid)"

lemma read_record_ok: "run_row_ok row \<Longrightarrow> read_record s row = Inr (rec_of s row)"
  by (auto simp: read_record_def rec_of_def run_row_ok_def)

lemma text_ok_rows:
  "text_ok s \<Longrightarrow> r \<in> set (db_runs s) \<Longrightarrow> run_row_ok r"
  "text_ok s \<Longrightarrow> l \<in> set (db_labels s) \<Longrightarrow> label_row_ok l"
  "text_ok s \<Longrightarrow> m \<in> set (db_limits s) \<Longrightarrow> limit_row_ok m"
  by (auto simp: text_ok_def)

lemma run_record_of_eq: "text_ok s \<Longrightarrow> run_record_of s rid = Inr (record_at s rid)"
  by (auto simp: run_record_of_def record_at_def read_record_ok text_ok_rows
      dest: find_run_Some split: option.splits)

lemma records_where_eq:
  "text_ok s \<Longrightarrow> (\<And>xs. set (order xs) \<subseteq> set xs) \<Longrightarrow>
     records_where s P order = Inr (map (rec_of s) (order (filter P (db_runs s))))"
  unfolding records_where_def
  by (rule rmap_Inr) (metis (no_types, lifting) filter_is_subset read_record_ok subsetD text_ok_rows(1))

lemma run_labels_eq: "text_ok s \<Longrightarrow> run_labels s rid = Inr (labels_at s rid)"
  unfolding run_labels_def labels_at_def
  by (rule rmap_Inr) (auto simp: read_label_def label_of_def label_row_ok_def dest!: text_ok_rows(2))

lemma run_limits_of_eq:
  assumes "text_ok s"
  shows "run_limits_of s rid = Inr (limits_at s rid)"
proof -
  have "rfold (read_limit rid) ms l = Inr (fold limit_step ms l)" if "\<forall>m\<in>set ms. limit_row_ok m" for ms l
    using that
  proof (induction ms arbitrary: l)
    case (Cons m ms)
    then obtain a where "parse_action (lm_action m) = Inr a" "lm_dimension m \<in> {''tokens'', ''dollars''}"
      by (auto simp: limit_row_ok_def parse_action_Inr)
    then show ?case using Cons by (auto simp: read_limit_def limit_step_def Let_def)
  qed simp
  then show ?thesis
    using assms by (auto simp: run_limits_of_def limits_at_def text_ok_def)
qed

lemma identity_run_total: "\<exists>x. identity_run s b e = Inr x"
  by (simp add: identity_run_def)

lemmas reads = run_record_of_eq run_labels_eq run_limits_of_eq

lemma rec_of_fields [simp]:
  "rr_id (rec_of s row) = rw_id row" "rr_parent (rec_of s row) = rw_parent row"
  "rr_created (rec_of s row) = rw_created row" "rr_updated (rec_of s row) = rw_updated row"
  "rr_instance (rec_of s row) = joined_name s (rw_instance row)"
  "rr_end_cause (rec_of s row) = rw_end_cause row" "rr_ended (rec_of s row) = rw_ended row"
  "rr_owner (rec_of s row) = (rw_owner row \<noteq> 0)"
  by (simp_all add: rec_of_def)

lemma rec_of_status: "run_row_ok row \<Longrightarrow> rw_status row = status_as_str (rr_status (rec_of s row))"
  by (auto simp: run_row_ok_def rec_of_def status_from_wire_iff)

lemma is_ended_rec: "run_row_ok row \<Longrightarrow> is_ended (rec_of s row) \<longleftrightarrow> rw_status row = ''ended''"
  using rec_of_status [of row s] by (simp add: is_ended_def)

lemma open_owner_rec:
  "run_row_ok row \<Longrightarrow> open_owner_row row \<longleftrightarrow> rr_owner (rec_of s row) \<and> \<not> is_ended (rec_of s row)"
  by (auto simp: open_owner_row_def is_ended_rec run_row_ok_def)

lemma rec_of_anomalies: "sort_dedup (rr_anomalies (rec_of s row)) = rr_anomalies (rec_of s row)"
  by (simp add: rec_of_def anomalies_decode_def)

lemma record_at_Some:
  "record_at s rid = Some r \<Longrightarrow> \<exists>row. find_run s rid = Some row \<and> r = rec_of s row \<and> rr_id r = rid"
  by (auto simp: record_at_def dest: find_run_Some)

lemma record_at_id: "record_at s rid = Some r \<Longrightarrow> rr_id r = rid"
  by (auto dest: record_at_Some)

lemma joined_name_cong: "db_instances s = db_instances s' \<Longrightarrow> joined_name s = joined_name s'"
  by (intro ext) (simp add: joined_name_def joined_instance_def split: option.splits)

lemma rec_of_cong: "db_instances s = db_instances s' \<Longrightarrow> rec_of s = rec_of s'"
  by (intro ext) (simp add: rec_of_def joined_name_cong [of s s'])

lemma labels_at_cong: "db_labels s = db_labels s' \<Longrightarrow> labels_at s = labels_at s'"
  by (intro ext) (simp add: labels_at_def)

lemma limits_at_cong: "db_limits s = db_limits s' \<Longrightarrow> limits_at s = limits_at s'"
  by (intro ext) (simp add: limits_at_def)

section \<open>Saving a record\<close>

text \<open>The columns \<open>save_run\<close> does not write.\<close>

definition same_identity :: "run_record \<Rightarrow> run_record \<Rightarrow> bool" where
  "same_identity old r \<longleftrightarrow> rr_id r = rr_id old \<and> rr_parent r = rr_parent old
     \<and> rr_instance r = rr_instance old \<and> rr_owner r = rr_owner old \<and> rr_created r = rr_created old"

lemma same_identity_refl [simp]: "same_identity r r"
  by (simp add: same_identity_def)

lemma find_map_rows:
  assumes "\<And>r. rw_id (f r) = rw_id r"
  shows "find (\<lambda>r. rw_id r = x) (map (\<lambda>r. if rw_id r = k then f r else r) rows)
    = (if x = k then map_option f (find (\<lambda>r. rw_id r = k) rows) else find (\<lambda>r. rw_id r = x) rows)"
  by (induction rows) (auto simp: assms)

lemma saved_row_id [simp]: "rw_id (saved_row r row) = rw_id row"
  by (simp add: saved_row_def)

lemma saved_row_ok: "run_row_ok row \<Longrightarrow> run_row_ok (saved_row r row)"
  by (simp add: run_row_ok_def saved_row_def)

lemma rec_of_saved_row:
  assumes "same_identity (rec_of s row) r" and "sort_dedup (rr_anomalies r) = rr_anomalies r"
  shows "rec_of s (saved_row r row) = r"
  using assms
  by (cases r) (simp add: rec_of_def saved_row_def same_identity_def anomalies_roundtrip)

lemma save_run_Inr:
  "save_run r s = Inr s' \<longleftrightarrow> (\<exists>old. find_run s (rr_id r) = Some old
     \<and> \<not> owner_clash (filter (\<lambda>x. rw_id x \<noteq> rr_id r) (db_runs s)) (saved_row r old)
     \<and> s' = s\<lparr>db_runs := map (\<lambda>x. if rw_id x = rr_id r then saved_row r x else x) (db_runs s)\<rparr>)"
  by (auto simp: save_run_def split: option.splits)

lemma save_run_find:
  assumes "save_run r s = Inr s'"
  shows "find_run s' x = (if x = rr_id r then map_option (saved_row r) (find_run s x) else find_run s x)"
  using assms by (auto simp: save_run_Inr find_run_def find_map_rows)

lemma save_run_tables:
  assumes "save_run r s = Inr s'"
  shows "db_instances s' = db_instances s" "db_labels s' = db_labels s" "db_limits s' = db_limits s"
    "db_identities s' = db_identities s" "map rw_id (db_runs s') = map rw_id (db_runs s)"
    "map rw_parent (db_runs s') = map rw_parent (db_runs s)"
    "map rw_instance (db_runs s') = map rw_instance (db_runs s)"
    "map rw_owner (db_runs s') = map rw_owner (db_runs s)"
  using assms by (auto simp: save_run_Inr saved_row_def)

lemma save_run_record:
  assumes "save_run r s = Inr s'" and "record_at s (rr_id r) = Some old" and "same_identity old r"
    and "sort_dedup (rr_anomalies r) = rr_anomalies r"
  shows "record_at s' = (record_at s)(rr_id r \<mapsto> r)"
proof
  fix x
  obtain row where row: "find_run s (rr_id r) = Some row" "old = rec_of s row"
    using assms(2) by (auto dest: record_at_Some)
  have "rec_of s' = rec_of s"
    using save_run_tables(1) [OF assms(1)] by (intro rec_of_cong) simp
  then show "record_at s' x = ((record_at s)(rr_id r \<mapsto> r)) x"
    using row rec_of_saved_row [of s row r] assms(3,4)
    by (simp add: record_at_def save_run_find [OF assms(1)])
qed

lemma save_run_entry:
  assumes "save_run r s = Inr s'" and "record_at s (rr_id r) = Some old" and "same_identity old r"
    and "sort_dedup (rr_anomalies r) = rr_anomalies r"
  shows "entry_of s' = (entry_of s)(rr_id r \<mapsto>
      \<lparr>re_record = r, re_labels = labels_at s (rr_id r), re_limits = limits_at s (rr_id r)\<rparr>)"
  using save_run_record [OF assms] save_run_tables(2,3) [OF assms(1)]
  by (auto simp: entry_of_def fun_eq_iff labels_at_cong [of s s'] limits_at_cong [of s s'])

lemma one_open_ownerD:
  "one_open_owner rows \<Longrightarrow> r \<in> set rows \<Longrightarrow> r' \<in> set rows \<Longrightarrow> open_owner_row r \<Longrightarrow>
     open_owner_row r' \<Longrightarrow> rw_instance r = rw_instance r' \<Longrightarrow> rw_instance r \<noteq> None \<Longrightarrow> r = r'"
  by (auto simp: one_open_owner_def)

lemma one_open_owner_subset:
  "one_open_owner rows \<Longrightarrow> set rows' \<subseteq> set rows \<Longrightarrow> one_open_owner rows'"
  unfolding one_open_owner_def by blast

text \<open>Adding one row that does not clash keeps the index unique.\<close>

lemma one_open_owner_insert:
  assumes "one_open_owner rows" and "\<not> owner_clash rows row" and "set rows' \<subseteq> insert row (set rows)"
  shows "one_open_owner rows'"
proof -
  have new: "\<not> (open_owner_row r \<and> rw_instance r = rw_instance row)"
    if "r \<in> set rows" "open_owner_row row" "rw_instance row \<noteq> None" for r
    using assms(2) that by (auto simp: owner_clash_def)
  have same: "r = r'" if "r \<in> insert row (set rows)" "r' \<in> insert row (set rows)" "open_owner_row r"
    "open_owner_row r'" "rw_instance r = rw_instance r'" "rw_instance r \<noteq> None" for r r'
  proof (cases "r = row \<or> r' = row")
    case True
    then show ?thesis using that new [of r] new [of r'] by (metis insert_iff)
  next
    case False
    with that have "r \<in> set rows" "r' \<in> set rows" by simp_all
    then show ?thesis by (rule one_open_ownerD [OF assms(1)]) (fact that)+
  qed
  show ?thesis
    unfolding one_open_owner_def
  proof (intro ballI impI, elim conjE)
    fix r r'
    assume "r \<in> set rows'" "r' \<in> set rows'"
    then have "r \<in> insert row (set rows)" "r' \<in> insert row (set rows)" using assms(3) by auto
    moreover assume "open_owner_row r" "open_owner_row r'" "rw_instance r = rw_instance r'"
      "rw_instance r \<noteq> None"
    ultimately show "r = r'" by (rule same)
  qed
qed

lemma save_run_db_ok:
  assumes "db_ok s" and "save_run r s = Inr s'"
  shows "db_ok s'"
proof -
  obtain old where old: "find_run s (rr_id r) = Some old"
      and clash: "\<not> owner_clash (filter (\<lambda>x. rw_id x \<noteq> rr_id r) (db_runs s)) (saved_row r old)"
      and s': "s' = s\<lparr>db_runs := map (\<lambda>x. if rw_id x = rr_id r then saved_row r x else x) (db_runs s)\<rparr>"
    using assms(2) by (auto simp: save_run_Inr)
  have only: "x = old" if "x \<in> set (db_runs s)" "rw_id x = rr_id r" for x
    using that find_run_in [of s x] old assms(1) by (simp add: db_ok_def)
  have rows: "x \<in> set (db_runs s') \<longleftrightarrow> x = saved_row r old \<or> (x \<in> set (db_runs s) \<and> rw_id x \<noteq> rr_id r)" for x
    using only find_run_Some [OF old] by (auto simp: s')
  have ids: "rw_id ` set (db_runs s') = rw_id ` set (db_runs s)"
    using save_run_tables(5) [OF assms(2)] by (metis list.set_map)
  have keep: "rw_parent (saved_row r old) = rw_parent old" "rw_instance (saved_row r old) = rw_instance old"
    by (simp_all add: saved_row_def)
  have "one_open_owner (db_runs s')"
  proof (rule one_open_owner_insert [OF _ clash])
    show "one_open_owner (filter (\<lambda>x. rw_id x \<noteq> rr_id r) (db_runs s))"
      using assms(1) one_open_owner_subset [of "db_runs s"] by (simp add: db_ok_def run_keys_ok_def)
  qed (auto simp: rows)
  moreover have "old \<in> set (db_runs s)" using find_run_Some [OF old] by simp
  moreover have "map rw_id (db_runs s') = map rw_id (db_runs s)"
    using save_run_tables(5) [OF assms(2)] .
  ultimately have "run_keys_ok s'"
    using assms(1) by (simp add: run_keys_ok_def db_ok_def ids save_run_tables(1) [OF assms(2)])
      (auto simp: rows keep)
  moreover have "text_ok s'"
    using assms(1) \<open>old \<in> _\<close> by (auto simp: text_ok_def db_ok_def rows saved_row_ok save_run_tables [OF assms(2)])
  ultimately show ?thesis
    using assms(1) by (auto simp: db_ok_def side_tables_ok_def instances_ok_def ids
        save_run_tables [OF assms(2)])
qed

section \<open>Inserting a Run\<close>

lemma insert_run_row_Inr:
  "insert_run_row row s = Inr s' \<longleftrightarrow> find_run s (rw_id row) = None \<and> \<not> owner_clash (db_runs s) row
     \<and> (\<forall>p. rw_parent row = Some p \<longrightarrow> find_run s p \<noteq> None) \<and> s' = s\<lparr>db_runs := db_runs s @ [row]\<rparr>"
  by (auto simp: insert_run_row_def find_run_def find_None_all)

lemma find_run_append:
  "find_run (s\<lparr>db_runs := db_runs s @ [row]\<rparr>) x =
     (case find_run s x of Some r \<Rightarrow> Some r | None \<Rightarrow> if rw_id row = x then Some row else None)"
proof -
  have "find P (xs @ [y]) = (case find P xs of Some r \<Rightarrow> Some r | None \<Rightarrow> if P y then Some y else None)"
    for P and xs :: "run_row list" and y
    by (induction xs) auto
  then show ?thesis by (simp add: find_run_def)
qed

lemma row_of_ok: "run_row_ok (row_of iid r)"
  by (simp add: run_row_ok_def row_of_def)

lemma insert_run_row_ok:
  assumes "db_ok s" and "insert_run_row row s = Inr s'" and "run_row_ok row"
    and "\<And>i. rw_instance row = Some i \<Longrightarrow> i \<in> in_id ` set (db_instances s)"
  shows "db_ok s'"
proof -
  have fresh: "rw_id row \<notin> rw_id ` set (db_runs s)" and clash: "\<not> owner_clash (db_runs s) row"
    and parent: "\<forall>p. rw_parent row = Some p \<longrightarrow> p \<in> rw_id ` set (db_runs s)"
    and s': "s' = s\<lparr>db_runs := db_runs s @ [row]\<rparr>"
    using assms(2) unfolding insert_run_row_Inr find_run_None not_not by blast+
  have "one_open_owner (db_runs s')"
    by (rule one_open_owner_insert [OF _ clash]) (use assms(1) in \<open>simp_all add: s' db_ok_def run_keys_ok_def\<close>)
  then have "run_keys_ok s'"
    using fresh parent assms(1,4) by (simp add: run_keys_ok_def db_ok_def s')
  moreover have "side_tables_ok s'" "text_ok s'" "instances_ok s'"
    using assms(1,3) by (auto simp: s' db_ok_def side_tables_ok_def text_ok_def instances_ok_def)
  ultimately show ?thesis by (simp add: db_ok_def)
qed

text \<open>The side tables of an inserted Run.\<close>

definition label_row_of :: "run_id \<Rightarrow> label \<Rightarrow> label_row" where
  "label_row_of rid l =
     \<lparr>lr_run = rid, lr_key = lb_key l, lr_value = lb_value l, lr_source = source_as_str (lb_source l)\<rparr>"

definition limit_row_of :: "run_id \<Rightarrow> string \<Rightarrow> string \<Rightarrow> string \<times> int \<Rightarrow> limit_row" where
  "limit_row_of rid action at e =
     \<lparr>lm_run = rid, lm_dimension = fst e, lm_scope = ''per-run'', lm_value = snd e,
      lm_action = action, lm_source = ''host'', lm_set_at = at\<rparr>"

lemma label_row_of_fields [simp]:
  "lr_run (label_row_of rid l) = rid" "lr_key (label_row_of rid l) = lb_key l"
  "label_of (label_row_of rid l) = l" "label_row_ok (label_row_of rid l)"
  by (cases l; simp add: label_row_of_def label_of_def label_row_ok_def)+

lemma insert_label_Inr:
  "insert_label rid l s = Inr s' \<longleftrightarrow>
     (\<forall>x\<in>set (db_labels s). \<not> (lr_run x = rid \<and> lr_key x = lb_key l)) \<and> find_run s rid \<noteq> None
     \<and> s' = s\<lparr>db_labels := db_labels s @ [label_row_of rid l]\<rparr>"
  by (auto simp: insert_label_def label_row_of_def)

lemma insert_labels_Inr:
  "rfold (insert_label rid) ls s = Inr s' \<Longrightarrow>
     s' = s\<lparr>db_labels := db_labels s @ map (label_row_of rid) ls\<rparr> \<and> distinct (map lb_key ls)
     \<and> (\<forall>l\<in>set ls. \<forall>x\<in>set (db_labels s). \<not> (lr_run x = rid \<and> lr_key x = lb_key l))
     \<and> (ls \<noteq> [] \<longrightarrow> find_run s rid \<noteq> None)"
proof (induction ls arbitrary: s)
  case (Cons l ls)
  then obtain t where t: "insert_label rid l s = Inr t" "rfold (insert_label rid) ls t = Inr s'"
    by auto
  then have l: "\<forall>x\<in>set (db_labels s). \<not> (lr_run x = rid \<and> lr_key x = lb_key l)" "find_run s rid \<noteq> None"
      "t = s\<lparr>db_labels := db_labels s @ [label_row_of rid l]\<rparr>"
    by (simp_all add: insert_label_Inr)
  have ls: "s' = t\<lparr>db_labels := db_labels t @ map (label_row_of rid) ls\<rparr>" "distinct (map lb_key ls)"
      "\<forall>k\<in>set ls. \<forall>x\<in>set (db_labels t). \<not> (lr_run x = rid \<and> lr_key x = lb_key k)"
    using Cons.IH [OF t(2)] by blast+
  have "lb_key l \<notin> lb_key ` set ls" using ls(3) by (fastforce simp: l(3))
  with l ls show ?case by simp
qed simp

lemma insert_limits_Inr:
  "rfold (insert_limit rid a at) es s = Inr s' \<Longrightarrow>
     s' = s\<lparr>db_limits := db_limits s @ map (limit_row_of rid a at) es\<rparr>
     \<and> (es \<noteq> [] \<longrightarrow> find_run s rid \<noteq> None)"
proof (induction es arbitrary: s)
  case (Cons e es)
  then obtain t where t: "insert_limit rid a at e s = Inr t" "rfold (insert_limit rid a at) es t = Inr s'"
    by auto
  then have "find_run s rid \<noteq> None" "t = s\<lparr>db_limits := db_limits s @ [limit_row_of rid a at e]\<rparr>"
    by (auto simp: insert_limit_def limit_row_of_def Let_def split: prod.splits if_splits)
  with Cons.IH [OF t(2)] show ?case by simp
qed simp

lemma insert_identity_Inr:
  "insert_identity rid at ident s = Inr s' \<Longrightarrow>
     (ident = None \<and> s' = s) \<or>
     (\<exists>b e. ident = Some (b, e) \<and> find_run s rid \<noteq> None
        \<and> (\<forall>i\<in>set (db_identities s). \<not> (id_binding i = b \<and> id_external i = e))
        \<and> s' = s\<lparr>db_identities := db_identities s
              @ [\<lparr>id_binding = b, id_external = e, id_run = rid, id_created = at\<rparr>]\<rparr>)"
  by (auto simp: insert_identity_def split: option.splits if_splits)

lemma optional_instance_id_Inr:
  "instances_ok s \<Longrightarrow> optional_instance_id s n = Inr iid \<Longrightarrow>
     joined_name s iid = n \<and> (\<forall>i. iid = Some i \<longrightarrow> i \<in> in_id ` set (db_instances s))"
  by (auto simp: optional_instance_id_def instance_id_def joined_name_def joined_instance_def
      instances_ok_def find_distinct_key
      dest!: instance_name_new_Inr find_Some_in split: option.splits sum.splits)

text \<open>An insert as one state change.\<close>

definition identity_rows :: "run_id \<Rightarrow> string \<Rightarrow> (string \<times> string) option \<Rightarrow> identity_row list" where
  "identity_rows rid at ident =
     (case ident of None \<Rightarrow> []
      | Some (b, e) \<Rightarrow> [\<lparr>id_binding = b, id_external = e, id_run = rid, id_created = at\<rparr>])"

definition inserted :: "new_run \<Rightarrow> int option \<Rightarrow> db \<Rightarrow> db" where
  "inserted run iid s =
     (let r = nr_record run; rid = rr_id r
      in s\<lparr>db_runs := db_runs s @ [row_of iid r],
           db_labels := db_labels s @ map (label_row_of rid) (nr_labels run),
           db_limits := db_limits s @ map (limit_row_of rid
             (action_as_str (limits_action (nr_limits run))) (rr_created r)) (limit_entries (nr_limits run)),
           db_identities := db_identities s @ identity_rows rid (rr_created r) (nr_identity run)\<rparr>)"

lemma insert_run_Inr:
  assumes "insert_run run s = Inr s'"
  obtains iid where "optional_instance_id s (rr_instance (nr_record run)) = Inr iid"
    and "insert_run_row (row_of iid (nr_record run)) s
           = Inr (s\<lparr>db_runs := db_runs s @ [row_of iid (nr_record run)]\<rparr>)"
    and "s' = inserted run iid s" and "distinct (map lb_key (nr_labels run))"
    and "\<forall>b e. nr_identity run = Some (b, e) \<longrightarrow>
           (\<forall>i\<in>set (db_identities s). \<not> (id_binding i = b \<and> id_external i = e))"
proof -
  let ?r = "nr_record run" and ?a = "action_as_str (limits_action (nr_limits run))"
  obtain iid t u v where iid: "optional_instance_id s (rr_instance ?r) = Inr iid"
      and t: "insert_run_row (row_of iid ?r) s = Inr t"
      and u: "rfold (insert_label (rr_id ?r)) (nr_labels run) t = Inr u"
      and v: "rfold (insert_limit (rr_id ?r) ?a (rr_created ?r)) (limit_entries (nr_limits run)) u = Inr v"
      and w: "insert_identity (rr_id ?r) (rr_created ?r) (nr_identity run) v = Inr s'"
    using assms by (auto simp: insert_run_def Let_def)
  have t': "t = s\<lparr>db_runs := db_runs s @ [row_of iid ?r]\<rparr>"
    using t by (simp add: insert_run_row_Inr)
  have u': "u = t\<lparr>db_labels := db_labels t @ map (label_row_of (rr_id ?r)) (nr_labels run)\<rparr>"
      "distinct (map lb_key (nr_labels run))"
    using insert_labels_Inr [OF u] by simp_all
  have v': "v = u\<lparr>db_limits := db_limits u @ map (limit_row_of (rr_id ?r) ?a (rr_created ?r))
        (limit_entries (nr_limits run))\<rparr>"
    using insert_limits_Inr [OF v] by simp
  have w': "s' = v\<lparr>db_identities := db_identities v
        @ identity_rows (rr_id ?r) (rr_created ?r) (nr_identity run)\<rparr>"
      "\<forall>b e. nr_identity run = Some (b, e) \<longrightarrow>
         (\<forall>i\<in>set (db_identities v). \<not> (id_binding i = b \<and> id_external i = e))"
    using insert_identity_Inr [OF w] by (auto simp: identity_rows_def)
  have "s' = inserted run iid s"
    by (simp add: w'(1) v' u'(1) t' inserted_def Let_def)
  moreover have "db_identities v = db_identities s" by (simp add: v' u'(1) t')
  ultimately show thesis using that [OF iid] t t' u'(2) w'(2) by simp
qed

lemma row_of_fields [simp]:
  "rw_id (row_of iid r) = rr_id r" "rw_instance (row_of iid r) = iid" "rw_parent (row_of iid r) = rr_parent r"
  by (simp_all add: row_of_def)

definition norm_limits :: "run_limits \<Rightarrow> run_limits" where
  "norm_limits l =
     \<lparr>rl_token = map_option (\<lambda>t. word_of_int (limit_i64 t)) (rl_token l),
      rl_dollar = map_option (\<lambda>m. max m 0) (rl_dollar l),
      rl_action = (if limits_is_armed l then Some (limits_action l) else None)\<rparr>"

lemma parse_action_as_str [simp]: "parse_action (action_as_str a) = Inr a"
  by (simp add: parse_action_Inr)

lemma limit_i64_nonneg [simp]: "0 \<le> limit_i64 t"
  by (simp add: limit_i64_def)

lemma fold_limit_rows:
  "fold limit_step (map (limit_row_of rid (action_as_str (limits_action l)) at) (limit_entries l))
     limits_default = norm_limits l"
  by (cases "rl_token l"; cases "rl_dollar l")
    (simp_all add: limit_entries_def limit_row_of_def limit_step_def limits_default_def norm_limits_def
      limits_is_armed_def Let_def max.absorb1)

lemma rec_of_row_of:
  "joined_name s iid = rr_instance r \<Longrightarrow>
     rec_of s (row_of iid r) = r\<lparr>rr_anomalies := sort_dedup (rr_anomalies r)\<rparr>"
  by (cases r) (simp add: rec_of_def row_of_def anomalies_roundtrip)

text \<open>What a reader sees after an insert.\<close>

definition inserted_entry :: "new_run \<Rightarrow> run_entry" where
  "inserted_entry run =
     \<lparr>re_record = (nr_record run)\<lparr>rr_anomalies := sort_dedup (rr_anomalies (nr_record run))\<rparr>,
      re_labels = sort_key lb_key (nr_labels run), re_limits = norm_limits (nr_limits run)\<rparr>"

lemma inserted_tables [simp]:
  "db_instances (inserted run iid s) = db_instances s"
  "db_runs (inserted run iid s) = db_runs s @ [row_of iid (nr_record run)]"
  by (simp_all add: inserted_def Let_def)

lemma filter_foreign_Nil:
  "(\<And>x. x \<in> set xs \<Longrightarrow> k x \<noteq> rid) \<Longrightarrow> filter (\<lambda>x. k x = rid) xs = []"
  by (simp add: filter_empty_conv)

lemma filter_const: "filter (\<lambda>x. P) xs = (if P then xs else [])"
  by simp

lemma sort_key_label_rows:
  "sort_key lr_key (map (label_row_of rid) ls) = map (label_row_of rid) (sort_key lb_key ls)"
proof -
  have "insort_key lr_key (label_row_of rid l) (map (label_row_of rid) xs)
      = map (label_row_of rid) (insort_key lb_key l xs)" for l xs
    by (induction xs) auto
  then show ?thesis by (induction ls) simp_all
qed

lemma side_rows_of_absent:
  assumes "side_tables_ok s" and "find_run s rid = None"
  shows "filter (\<lambda>l. lr_run l = rid) (db_labels s) = []"
    and "filter (\<lambda>m. lm_run m = rid \<and> lm_scope m = ''per-run'') (db_limits s) = []"
  using assms by (auto simp: side_tables_ok_def find_run_None filter_empty_conv)

lemma insert_run_entry:
  assumes "db_ok s" and "insert_run run s = Inr s'"
  shows "entry_of s' = (entry_of s)(rr_id (nr_record run) \<mapsto> inserted_entry run)"
    and "entry_of s (rr_id (nr_record run)) = None"
proof -
  let ?r = "nr_record run"
  let ?rid = "rr_id ?r"
  obtain iid where iid: "optional_instance_id s (rr_instance ?r) = Inr iid"
      and row: "insert_run_row (row_of iid ?r) s = Inr (s\<lparr>db_runs := db_runs s @ [row_of iid ?r]\<rparr>)"
      and s': "s' = inserted run iid s"
    using assms(2) by (rule insert_run_Inr)
  have fresh: "find_run s ?rid = None" using row by (simp add: insert_run_row_Inr)
  then show "entry_of s ?rid = None" by (simp add: entry_of_def record_at_def)
  have name: "joined_name s iid = rr_instance ?r"
    using optional_instance_id_Inr [OF _ iid] assms(1) by (simp add: db_ok_def)
  have rec: "rec_of s' = rec_of s" by (rule rec_of_cong) (simp add: s')
  have find: "find_run s' x = (case find_run s x of Some r \<Rightarrow> Some r
      | None \<Rightarrow> if ?rid = x then Some (row_of iid ?r) else None)" for x
    using find_run_append [of s "row_of iid ?r" x] by (simp add: s' inserted_def Let_def find_run_def)
  note absent = side_rows_of_absent [OF _ fresh]
  have labels: "labels_at s' x = (if x = ?rid then sort_key lb_key (nr_labels run) else labels_at s x)" for x
    using absent(1) assms(1)
    by (simp add: labels_at_def s' inserted_def Let_def db_ok_def filter_map comp_def filter_const
        sort_key_label_rows)
  have limits: "limits_at s' x = (if x = ?rid then norm_limits (nr_limits run) else limits_at s x)" for x
    using absent(2) assms(1) fold_limit_rows [of ?rid "nr_limits run" "rr_created ?r"]
    by (simp add: limits_at_def s' inserted_def Let_def db_ok_def filter_map comp_def limit_row_of_def
        filter_const)
  show "entry_of s' = (entry_of s)(?rid \<mapsto> inserted_entry run)"
  proof
    fix x
    show "entry_of s' x = ((entry_of s)(?rid \<mapsto> inserted_entry run)) x"
      using fresh by (cases "find_run s x")
        (auto simp: entry_of_def record_at_def find rec labels limits rec_of_row_of [OF name]
          inserted_entry_def)
  qed
qed

lemma limit_entries_dim: "e \<in> set (limit_entries l) \<Longrightarrow> fst e \<in> {''tokens'', ''dollars''}"
  by (auto simp: limit_entries_def split: option.splits)

lemma insert_run_db_ok:
  assumes "db_ok s" and "insert_run run s = Inr s'"
  shows "db_ok s'"
proof -
  let ?r = "nr_record run"
  obtain iid where iid: "optional_instance_id s (rr_instance ?r) = Inr iid"
      and row: "insert_run_row (row_of iid ?r) s = Inr (s\<lparr>db_runs := db_runs s @ [row_of iid ?r]\<rparr>)"
      and s': "s' = inserted run iid s" and keys: "distinct (map lb_key (nr_labels run))"
      and ident: "\<forall>b e. nr_identity run = Some (b, e) \<longrightarrow>
           (\<forall>i\<in>set (db_identities s). \<not> (id_binding i = b \<and> id_external i = e))"
    using assms(2) by (rule insert_run_Inr)
  have fresh: "rr_id ?r \<notin> rw_id ` set (db_runs s)"
    using row by (simp add: insert_run_row_Inr find_run_None)
  have "db_ok (s\<lparr>db_runs := db_runs s @ [row_of iid ?r]\<rparr>)"
    using assms(1) optional_instance_id_Inr [OF _ iid]
    by (intro insert_run_row_ok [OF assms(1) row row_of_ok]) (simp_all add: db_ok_def)
  then have runs: "run_keys_ok s'" "instances_ok s'" "\<forall>r\<in>set (db_runs s'). run_row_ok r"
    by (simp_all add: s' inserted_def Let_def db_ok_defs instances_ok_def)
  have side: "side_tables_ok s" and wires: "text_ok s" using assms(1) by (simp_all add: db_ok_def)
  have labels: "db_labels s' = db_labels s @ map (label_row_of (rr_id ?r)) (nr_labels run)"
    and limits: "db_limits s' = db_limits s @ map (limit_row_of (rr_id ?r)
        (action_as_str (limits_action (nr_limits run))) (rr_created ?r)) (limit_entries (nr_limits run))"
    and idents: "db_identities s' = db_identities s @ identity_rows (rr_id ?r) (rr_created ?r) (nr_identity run)"
    by (simp_all add: s' inserted_def Let_def)
  have not_label: "lr_run l \<noteq> rr_id ?r" if "l \<in> set (db_labels s)" for l
    using side fresh that unfolding side_tables_ok_def by metis
  have "distinct (map (\<lambda>l. (lr_run l, lr_key l)) (db_labels s'))"
    using side keys not_label by (auto simp: side_tables_ok_def labels distinct_map inj_on_def comp_def)
  moreover have "distinct (map (\<lambda>i. (id_binding i, id_external i)) (db_identities s'))"
    using side ident by (auto simp: side_tables_ok_def idents identity_rows_def split: option.splits)
  moreover have "rw_id ` set (db_runs s') = insert (rr_id ?r) (rw_id ` set (db_runs s))"
    by (simp add: s')
  moreover have "\<forall>l\<in>set (db_labels s'). lr_run l \<in> insert (rr_id ?r) (rw_id ` set (db_runs s))"
    using side by (auto simp: side_tables_ok_def labels)
  moreover have "\<forall>m\<in>set (db_limits s'). lm_run m \<in> insert (rr_id ?r) (rw_id ` set (db_runs s))"
    using side by (auto simp: side_tables_ok_def limits limit_row_of_def)
  moreover have "\<forall>i\<in>set (db_identities s'). id_run i \<in> insert (rr_id ?r) (rw_id ` set (db_runs s))"
    using side by (auto simp: side_tables_ok_def idents identity_rows_def split: option.splits)
  ultimately have "side_tables_ok s'" by (simp only: side_tables_ok_def simp_thms)
  moreover have "text_ok s'"
    using wires runs(3) by (auto simp: text_ok_def labels limits limit_row_ok_def limit_row_of_def
        dest: limit_entries_dim)
  ultimately show ?thesis using runs by (simp add: db_ok_def)
qed

section \<open>Replacing labels\<close>

text \<open>\<open>t\<close> is \<open>s\<close> but for the label rows of the Run \<open>rid\<close>.\<close>

definition labels_only :: "run_id \<Rightarrow> db \<Rightarrow> db \<Rightarrow> bool" where
  "labels_only rid s t \<longleftrightarrow> t = s\<lparr>db_labels := db_labels t\<rparr>
     \<and> (\<forall>x. x \<noteq> rid \<longrightarrow> filter (\<lambda>l. lr_run l = x) (db_labels t) = filter (\<lambda>l. lr_run l = x) (db_labels s))"

lemma labels_only_refl: "labels_only rid s s"
  by (simp add: labels_only_def)

lemma labels_only_trans: "labels_only rid s t \<Longrightarrow> labels_only rid t u \<Longrightarrow> labels_only rid s u"
  unfolding labels_only_def by (cases s; cases t; cases u) simp

lemma db_ok_labels_iff:
  "db_ok (s\<lparr>db_labels := ls\<rparr>) \<longleftrightarrow> instances_ok s \<and> run_keys_ok s \<and> side_tables_ok (s\<lparr>db_labels := ls\<rparr>)
     \<and> text_ok (s\<lparr>db_labels := ls\<rparr>)"
  by (simp add: db_ok_def instances_ok_def run_keys_ok_def)

definition label_rows_ok :: "db \<Rightarrow> label_row list \<Rightarrow> bool" where
  "label_rows_ok s ls \<longleftrightarrow> distinct (map (\<lambda>l. (lr_run l, lr_key l)) ls)
     \<and> (\<forall>l\<in>set ls. lr_run l \<in> rw_id ` set (db_runs s) \<and> label_row_ok l)"

lemma db_ok_labels: "db_ok s \<Longrightarrow> db_ok (s\<lparr>db_labels := ls\<rparr>) \<longleftrightarrow> label_rows_ok s ls"
  by (auto simp: db_ok_defs instances_ok_def label_rows_ok_def)

lemma label_rows_ok_db: "db_ok s \<Longrightarrow> label_rows_ok s (db_labels s)"
  by (auto simp: db_ok_defs label_rows_ok_def)

lemma label_rows_ok_filter: "label_rows_ok s ls \<Longrightarrow> label_rows_ok s (filter P ls)"
  by (simp add: label_rows_ok_def distinct_map_filter)

lemma label_rows_ok_append:
  "label_rows_ok s ls \<Longrightarrow> find_run s (lr_run l) \<noteq> None \<Longrightarrow> label_row_ok l \<Longrightarrow>
     (\<forall>x\<in>set ls. \<not> (lr_run x = lr_run l \<and> lr_key x = lr_key l)) \<Longrightarrow> label_rows_ok s (ls @ [l])"
  by (auto simp: label_rows_ok_def find_run_None)

lemma label_rows_ok_map:
  "label_rows_ok s ls \<Longrightarrow> (\<And>l. lr_run (f l) = lr_run l \<and> lr_key (f l) = lr_key l) \<Longrightarrow>
     (\<And>l. label_row_ok l \<Longrightarrow> label_row_ok (f l)) \<Longrightarrow> label_rows_ok s (map f ls)"
  by (simp add: label_rows_ok_def comp_def)

lemma upsert_label_step:
  assumes "db_ok s" and "upsert_label rid source l s = Inr s'"
  shows "db_ok s' \<and> labels_only rid s s'"
proof -
  have run: "find_run s rid \<noteq> None" using assms(2) by (auto simp: upsert_label_def split: if_splits)
  let ?new = "\<lparr>lr_run = rid, lr_key = lb_key l, lr_value = lb_value l, lr_source = source_as_str source\<rparr>"
  show ?thesis
  proof (cases "\<exists>x\<in>set (db_labels s). lr_run x = rid \<and> lr_key x = lb_key l")
    case True
    let ?f = "\<lambda>x. if lr_run x = rid \<and> lr_key x = lb_key l
               then x\<lparr>lr_value := lb_value l, lr_source := source_as_str source\<rparr> else x"
    have s': "s' = s\<lparr>db_labels := map ?f (db_labels s)\<rparr>"
      using assms(2) run True by (auto simp: upsert_label_def split: if_splits)
    have "label_rows_ok s (map ?f (db_labels s))"
      by (rule label_rows_ok_map [OF label_rows_ok_db [OF assms(1)]]) (auto simp: label_row_ok_def)
    moreover have "\<forall>x. x \<noteq> rid \<longrightarrow> filter (\<lambda>l. lr_run l = x) (map ?f ls) = filter (\<lambda>l. lr_run l = x) ls" for ls
      by (induction ls) auto
    ultimately show ?thesis
      using db_ok_labels [OF assms(1)] unfolding s' labels_only_def by simp
  next
    case False
    then have s': "s' = s\<lparr>db_labels := db_labels s @ [?new]\<rparr>"
      using assms(2) run by (auto simp: upsert_label_def split: if_splits)
    have "label_rows_ok s (db_labels s @ [?new])"
      using run False by (intro label_rows_ok_append [OF label_rows_ok_db [OF assms(1)]])
        (auto simp: label_row_ok_def)
    then show ?thesis
      using db_ok_labels [OF assms(1)] by (simp add: s' labels_only_def)
  qed
qed

lemma replace_labels_step:
  assumes "db_ok s" and "replace_labels rid source ls s = Inr s'"
  shows "db_ok s' \<and> labels_only rid s s'"
proof -
  let ?rows = "filter (\<lambda>x. \<not> (lr_run x = rid \<and> lr_source x = source_as_str source)) (db_labels s)"
  let ?t = "s\<lparr>db_labels := ?rows\<rparr>"
  have "db_ok ?t"
    using db_ok_labels [OF assms(1)] label_rows_ok_filter [OF label_rows_ok_db [OF assms(1)]] by simp
  moreover have "filter (\<lambda>l. lr_run l = x) ?rows = filter (\<lambda>l. lr_run l = x) (db_labels s)" if "x \<noteq> rid" for x
    using that by (auto simp: filter_filter intro: filter_cong)
  then have "labels_only rid s ?t" by (simp add: labels_only_def)
  ultimately have "db_ok ?t \<and> labels_only rid s ?t" by blast
  with assms(2) [unfolded replace_labels_def] show ?thesis
    by (rule rfold_invariant) (metis upsert_label_step labels_only_trans)
qed

lemma labels_only_entry:
  assumes "labels_only rid s t"
  shows "entry_of t = (\<lambda>x. map_option (\<lambda>e. if x = rid then e\<lparr>re_labels := labels_at t rid\<rparr> else e) (entry_of s x))"
proof
  fix x
  have t: "t = s\<lparr>db_labels := db_labels t\<rparr>" using assms by (simp add: labels_only_def)
  have same: "db_instances t = db_instances s" "db_limits t = db_limits s" "find_run t x = find_run s x"
    by (subst t, simp add: find_run_def)+
  have "labels_at t x = labels_at s x" if "x \<noteq> rid"
    using assms that by (simp add: labels_only_def labels_at_def)
  then show "entry_of t x = map_option (\<lambda>e. if x = rid then e\<lparr>re_labels := labels_at t rid\<rparr> else e) (entry_of s x)"
    using rec_of_cong [OF same(1)] limits_at_cong [OF same(2)]
    by (cases "find_run s x") (auto simp: entry_of_def record_at_def same(3))
qed

section \<open>The row of an unregistered Run\<close>

lemma instance_id_in: "instance_id s n = Some i \<Longrightarrow> i \<in> in_id ` set (db_instances s)"
  by (auto simp: instance_id_def dest!: find_Some_in)

lemma ensure_run_row_step:
  assumes "db_ok s" and "ensure_run_row rid name now s = Inr s'"
  shows "db_ok s' \<and> (\<forall>x. x \<noteq> rid \<longrightarrow> entry_of s' x = entry_of s x)
    \<and> (entry_of s rid \<noteq> None \<longrightarrow> s' = s)
    \<and> (entry_of s rid = None \<longrightarrow> (\<exists>e. entry_of s' rid = Some e \<and> is_ended (re_record e)
          \<and> rr_parent (re_record e) = None \<and> rr_owner (re_record e)))"
proof (cases "find_run s rid")
  case (Some r)
  then show ?thesis using assms by (simp add: ensure_run_row_def entry_of_def record_at_def)
next
  case None
  let ?row = "\<lparr>rw_id = rid, rw_depth = ''supervised'', rw_wire = 0, rw_status = ''ended'',
               rw_anomalies = [], rw_parent = None, rw_instance = instance_id s name, rw_owner = 1,
               rw_end_cause = Some ''unregistered'', rw_created = now, rw_updated = now,
               rw_ended = Some now\<rparr>"
  have s': "s' = s\<lparr>db_runs := db_runs s @ [?row]\<rparr>"
    using assms(2) None by (simp add: ensure_run_row_def)
  have ok: "run_row_ok ?row"
    by (simp add: run_row_ok_def depth_from_wire_def all_depths_def status_from_wire_def all_statuses_def)
  have "db_ok s'"
    using None ok instance_id_in [of s name] unfolding s'
    by (intro insert_run_row_ok [OF assms(1), of ?row])
      (simp_all add: insert_run_row_Inr owner_clash_def open_owner_row_def)
  moreover have rec: "rec_of s' = rec_of s" by (rule rec_of_cong) (simp add: s')
  moreover have find: "find_run s' x = (case find_run s x of Some r \<Rightarrow> Some r
      | None \<Rightarrow> if rid = x then Some ?row else None)" for x
    using find_run_append [of s ?row x] by (simp add: s')
  moreover have "labels_at s' = labels_at s" "limits_at s' = limits_at s"
    by (simp_all add: s' labels_at_def limits_at_def fun_eq_iff)
  moreover have "is_ended (rec_of s ?row)" "rr_parent (rec_of s ?row) = None" "rr_owner (rec_of s ?row)"
    using is_ended_rec [OF ok] by (simp, simp_all add: rec_of_def)
  ultimately show ?thesis
    using None by (auto simp: entry_of_def record_at_def split: option.splits)
qed

end
