(* ===== verification/Snapshot.thy ===== *)
theory Snapshot
  imports Run_Store_Facts
begin

text \<open>
  The published read model of the open Runs (\<open>domain/runs/snapshot.rs\<close>): a map of the open entries and a
  map of each instance's process-owning Run, replaced by \<open>with\<close> after every commit. The locale
  \<open>noted_writes\<close> states what the publisher relies on from a store whose writes are reported one entry at
  a time, and shows that the snapshot then always mirrors the store.
\<close>

record run_snapshot =
  sn_generation :: u64
  sn_runs :: "run_id \<rightharpoonup> run_entry"
  sn_owners :: "string \<rightharpoonup> run_id"

definition empty_snapshot :: run_snapshot where
  "empty_snapshot = \<lparr>sn_generation = 0, sn_runs = Map.empty, sn_owners = Map.empty\<rparr>"

definition snapshot_run :: "run_snapshot \<Rightarrow> run_id \<Rightarrow> run_entry option" where
  "snapshot_run snap rid = sn_runs snap rid"

definition owner_of :: "run_snapshot \<Rightarrow> string \<Rightarrow> run_entry option" where
  "owner_of snap instance = Option.bind (sn_owners snap instance) (sn_runs snap)"

text \<open>One turn of the loop of \<open>with\<close>.\<close>

definition apply_entry :: "run_entry \<Rightarrow> run_snapshot \<Rightarrow> run_snapshot" where
  "apply_entry e snap =
     (let rid = rr_id (re_record e);
          owner = (if rr_owner (re_record e) then rr_instance (re_record e) else None)
      in if is_ended (re_record e) then
           snap\<lparr>sn_runs := (sn_runs snap)(rid := None),
                sn_owners := (case owner of
                    None \<Rightarrow> sn_owners snap
                  | Some i \<Rightarrow> if sn_owners snap i = Some rid then (sn_owners snap)(i := None)
                              else sn_owners snap)\<rparr>
         else
           snap\<lparr>sn_runs := (sn_runs snap)(rid \<mapsto> e),
                sn_owners := (case owner of
                    None \<Rightarrow> sn_owners snap
                  | Some i \<Rightarrow> (sn_owners snap)(i \<mapsto> rid))\<rparr>)"

definition snapshot_with :: "run_entry list \<Rightarrow> run_snapshot \<Rightarrow> run_snapshot" where
  "snapshot_with changes snap =
     fold apply_entry changes (snap\<lparr>sn_generation := sn_generation snap + 1\<rparr>)"

definition publish :: "run_entry list \<Rightarrow> run_snapshot \<Rightarrow> run_snapshot" where
  "publish changes snap = (if changes = [] then snap else snapshot_with changes snap)"

section \<open>Mirroring a store\<close>

definition open_entry :: "run_entry \<Rightarrow> bool" where
  "open_entry e \<longleftrightarrow> \<not> is_ended (re_record e)"

definition owns :: "run_entry \<Rightarrow> string \<Rightarrow> bool" where
  "owns e i \<longleftrightarrow> rr_owner (re_record e) \<and> rr_instance (re_record e) = Some i \<and> open_entry e"

definition mirrors :: "(run_id \<Rightarrow> run_entry option) \<Rightarrow> run_snapshot \<Rightarrow> bool" where
  "mirrors entry snap \<longleftrightarrow>
     (\<forall>rid. sn_runs snap rid = (case entry rid of Some e \<Rightarrow> if open_entry e then Some e else None
                                | None \<Rightarrow> None))
     \<and> (\<forall>i rid. sn_owners snap i = Some rid \<longleftrightarrow> (\<exists>e. entry rid = Some e \<and> owns e i))"

text \<open>A mirror is determined by the store, generation apart.\<close>

lemma mirrors_unique:
  assumes "mirrors entry a" and "mirrors entry b"
  shows "sn_runs a = sn_runs b \<and> sn_owners a = sn_owners b"
proof -
  have "sn_owners a i = sn_owners b i" for i
  proof -
    have "sn_owners a i = Some rid \<longleftrightarrow> sn_owners b i = Some rid" for rid
      using assms by (simp add: mirrors_def)
    then show ?thesis by (metis not_None_eq)
  qed
  moreover have "sn_runs a rid = sn_runs b rid" for rid
    using assms by (simp add: mirrors_def)
  ultimately show ?thesis by (simp add: fun_eq_iff)
qed

lemma mirrors_generation [simp]: "mirrors entry (snap\<lparr>sn_generation := g\<rparr>) = mirrors entry snap"
  by (simp add: mirrors_def)

lemma mirrors_empty: "mirrors (\<lambda>_. None) empty_snapshot"
  by (simp add: mirrors_def empty_snapshot_def)

text \<open>At most one open entry owns an instance's process.\<close>

definition one_owner :: "(run_id \<Rightarrow> run_entry option) \<Rightarrow> bool" where
  "one_owner entry \<longleftrightarrow> (\<forall>a b e f i. entry a = Some e \<longrightarrow> entry b = Some f \<longrightarrow> owns e i \<longrightarrow> owns f i \<longrightarrow> a = b)"

lemma one_ownerD: "one_owner entry \<Longrightarrow> entry a = Some e \<Longrightarrow> entry b = Some f \<Longrightarrow> owns e i \<Longrightarrow> owns f i \<Longrightarrow> a = b"
  by (auto simp: one_owner_def)

lemma apply_entry_mirrors:
  assumes mir: "mirrors entry snap" and one: "one_owner (entry(rr_id (re_record e) \<mapsto> e))"
    and same: "\<And>old. entry (rr_id (re_record e)) = Some old \<Longrightarrow> same_identity (re_record old) (re_record e)"
  shows "mirrors (entry(rr_id (re_record e) \<mapsto> e)) (apply_entry e snap)"
proof -
  let ?rid = "rr_id (re_record e)"
  let ?new = "entry(?rid \<mapsto> e)"
  have runs: "sn_runs snap x = (case entry x of Some e \<Rightarrow> if open_entry e then Some e else None | None \<Rightarrow> None)"
    and owners: "sn_owners snap i = Some x \<longleftrightarrow> (\<exists>f. entry x = Some f \<and> owns f i)" for x i
    using mir by (simp_all add: mirrors_def)
  have runs': "sn_runs (apply_entry e snap) x
      = (case ?new x of Some e \<Rightarrow> if open_entry e then Some e else None | None \<Rightarrow> None)" for x
    by (simp add: apply_entry_def Let_def open_entry_def runs)
  have old: "owns old i \<Longrightarrow> rr_owner (re_record e) \<and> rr_instance (re_record e) = Some i"
    if "entry ?rid = Some old" for old i
    using same [OF that] by (auto simp: owns_def same_identity_def)
  have "sn_owners (apply_entry e snap) i = Some x \<longleftrightarrow> (\<exists>f. ?new x = Some f \<and> owns f i)" for i x
  proof (cases "owns e i")
    case True
    then have "sn_owners (apply_entry e snap) i = Some ?rid"
      by (simp add: apply_entry_def Let_def owns_def open_entry_def)
    moreover have "x = ?rid" if "?new x = Some f" "owns f i" for f
      using one_ownerD [OF one that(1) _ that(2) True] by simp
    moreover have "?new ?rid = Some e" by simp
    ultimately show ?thesis using True by (metis option.inject)
  next
    case False
    have "sn_owners (apply_entry e snap) i
        = (if sn_owners snap i = Some ?rid then None else sn_owners snap i)"
    proof (cases "sn_owners snap i = Some ?rid")
      case True
      then obtain f where "entry ?rid = Some f" "owns f i" using owners by auto
      then have "rr_owner (re_record e)" "rr_instance (re_record e) = Some i" using old by blast+
      with False True show ?thesis by (simp add: apply_entry_def Let_def owns_def open_entry_def)
    next
      case other: False
      then show ?thesis using False
        by (auto simp: apply_entry_def Let_def owns_def open_entry_def split: option.splits)
    qed
    then show ?thesis using owners [of i x] False by auto
  qed
  with runs' show ?thesis by (simp add: mirrors_def)
qed

text \<open>A sequence of writes, each reported with what it noted.\<close>

fun steps :: "('s \<Rightarrow> 'e \<Rightarrow> 's \<Rightarrow> bool) \<Rightarrow> 's \<Rightarrow> 'e list \<Rightarrow> 's \<Rightarrow> bool" where
  "steps step s [] t \<longleftrightarrow> s = t"
| "steps step s (e # es) t \<longleftrightarrow> (\<exists>u. step s e u \<and> steps step u es t)"

lemma steps_append: "steps step s (es @ fs) t \<longleftrightarrow> (\<exists>u. steps step s es u \<and> steps step u fs t)"
  by (induction es arbitrary: s) auto

lemma steps_invariant:
  "steps step s es t \<Longrightarrow> I s \<Longrightarrow> (\<And>u e v. step u e v \<Longrightarrow> I u \<Longrightarrow> I v) \<Longrightarrow> I t"
  by (induction es arbitrary: s) auto

locale noted_writes =
  fixes entry :: "'s \<Rightarrow> run_id \<Rightarrow> run_entry option"
    and step :: "'s \<Rightarrow> run_entry \<Rightarrow> 's \<Rightarrow> bool"
  assumes step_entry: "step s e t \<Longrightarrow> entry t = (entry s)(rr_id (re_record e) \<mapsto> e)"
    and step_one_owner: "step s e t \<Longrightarrow> one_owner (entry t)"
    and step_identity: "step s e t \<Longrightarrow> entry s (rr_id (re_record e)) = Some old \<Longrightarrow>
                          same_identity (re_record old) (re_record e)"
begin

lemma fold_mirrors:
  "steps step s es t \<Longrightarrow> mirrors (entry s) snap \<Longrightarrow> mirrors (entry t) (fold apply_entry es snap)"
proof (induction es arbitrary: s snap)
  case (Cons e es)
  then obtain u where u: "step s e u" "steps step u es t" by auto
  have "mirrors (entry u) (apply_entry e snap)"
    unfolding step_entry [OF u(1)]
    using Cons.prems(2) step_one_owner [OF u(1)] step_identity [OF u(1)]
    by (intro apply_entry_mirrors) (simp_all add: step_entry [OF u(1)])
  with Cons.IH [OF u(2)] show ?case by simp
qed simp

lemma publish_mirrors:
  "steps step s es t \<Longrightarrow> mirrors (entry s) snap \<Longrightarrow> mirrors (entry t) (publish es snap)"
  by (cases es) (auto simp: publish_def snapshot_with_def simp del: fold.simps intro!: fold_mirrors)

text \<open>The last entry noted for an id is what the store holds.\<close>

lemma steps_entry:
  "steps step s es t \<Longrightarrow>
     entry t x = (case find (\<lambda>e. rr_id (re_record e) = x) (rev es) of Some e \<Rightarrow> Some e | None \<Rightarrow> entry s x)"
proof (induction es arbitrary: s)
  case (Cons e es)
  then obtain u where u: "step s e u" "steps step u es t" by auto
  have "find P (xs @ [y]) = (case find P xs of Some z \<Rightarrow> Some z | None \<Rightarrow> if P y then Some y else None)"
    for P and xs :: "run_entry list" and y
    by (induction xs) auto
  with Cons.IH [OF u(2)] show ?case by (simp add: step_entry [OF u(1)] split: option.splits)
qed simp

end

end
