(* ===== verification/Verbs.thy ===== *)
theory Verbs
  imports Run_Types
begin

text \<open>
  The Control-Depth honor table (\<open>domain/runs/verbs.rs\<close>) and the configuration-time refusal of a Breach
  Action that reads it (\<open>action_refusal\<close> of \<open>domain/runs/ops.rs\<close>).
\<close>

datatype run_verb =
  ListUsage | Logs | BudgetsWarn | PauseResume | StopVerb | SendAttach
  | HoldReleaseRerouteReject | BreachActionPauseStopBlock

definition run_verbs :: "run_verb list" where
  "run_verbs = [ListUsage, Logs, BudgetsWarn, PauseResume, StopVerb, SendAttach,
     HoldReleaseRerouteReject, BreachActionPauseStopBlock]"

fun verb_as_str :: "run_verb \<Rightarrow> string" where
  "verb_as_str ListUsage = ''list-usage''"
| "verb_as_str Logs = ''logs''"
| "verb_as_str BudgetsWarn = ''budgets-warn''"
| "verb_as_str PauseResume = ''pause-resume''"
| "verb_as_str StopVerb = ''stop''"
| "verb_as_str SendAttach = ''send-attach''"
| "verb_as_str HoldReleaseRerouteReject = ''hold-release-reroute-reject''"
| "verb_as_str BreachActionPauseStopBlock = ''breach-action-pause-stop-block''"

datatype cell_behavior = Honored | Qualified | FailsFast | Refused

fun behavior_as_str :: "cell_behavior \<Rightarrow> string" where
  "behavior_as_str Honored = ''honored''"
| "behavior_as_str Qualified = ''qualified''"
| "behavior_as_str FailsFast = ''fails-fast''"
| "behavior_as_str Refused = ''refused''"

datatype verb_cell_doc =
  VerbCell (vc_behavior: cell_behavior) (vc_available: bool) (vc_note: string)

text \<open>The arms in the source's order, which its guards depend on.\<close>

fun verb_cell :: "run_verb \<Rightarrow> control_depth \<Rightarrow> bool \<Rightarrow> verb_cell_doc" where
  "verb_cell ListUsage Observed w = VerbCell Honored False ''from its telemetry, estimated''"
| "verb_cell ListUsage Wire w = VerbCell Honored False ''per-call records''"
| "verb_cell ListUsage Announced w = VerbCell Honored True ''per-call records''"
| "verb_cell ListUsage Supervised w = VerbCell Honored True ''per-call records and process state''"
| "verb_cell Logs Observed w = VerbCell FailsFast False ''fails fast''"
| "verb_cell Logs Wire w = VerbCell Honored False ''per-call records''"
| "verb_cell Logs Announced w = VerbCell Honored False ''per-call records''"
| "verb_cell Logs Supervised w = VerbCell Honored True ''process output and per-call records''"
| "verb_cell BudgetsWarn Observed w = VerbCell Honored False ''from its telemetry''"
| "verb_cell BudgetsWarn Wire w = VerbCell Honored False ''honored''"
| "verb_cell BudgetsWarn Announced w = VerbCell Honored True ''honored''"
| "verb_cell BudgetsWarn Supervised w = VerbCell Honored True ''honored''"
| "verb_cell PauseResume Observed w = VerbCell FailsFast False ''fails fast''"
| "verb_cell PauseResume Wire w =
     VerbCell Qualified False ''qualified: holds / releases the Run's calls''"
| "verb_cell PauseResume Announced w =
     VerbCell Qualified False ''qualified: holds / releases the Run's calls''"
| "verb_cell PauseResume Supervised w =
     VerbCell Honored True ''Adapter pause; a wire hold only as the FR-7 amendment allows''"
| "verb_cell StopVerb Observed w = VerbCell FailsFast False ''fails fast''"
| "verb_cell StopVerb Wire w =
     VerbCell Qualified False ''qualified: rejects further calls, the process keeps running''"
| "verb_cell StopVerb Announced w =
     VerbCell Qualified False ''qualified: rejects further calls and ends the Lease''"
| "verb_cell StopVerb Supervised w = VerbCell Honored True ''process stop''"
| "verb_cell SendAttach Supervised w =
     VerbCell Honored True ''per the Adapter's Capability Declaration; a child Run fails fast''"
| "verb_cell SendAttach d w = VerbCell FailsFast False ''fails fast''"
| "verb_cell HoldReleaseRerouteReject Observed w = VerbCell FailsFast False ''fails fast''"
| "verb_cell HoldReleaseRerouteReject d w =
     (if d = Supervised \<and> \<not> w
      then VerbCell FailsFast False ''fails fast, naming the Metering Source''
      else VerbCell Honored False ''honored'')"
| "verb_cell BreachActionPauseStopBlock Observed w =
     VerbCell Refused False
       ''set directly: refused at configuration; from a Policy: the fallback to warn''"
| "verb_cell BreachActionPauseStopBlock Supervised w =
     (if \<not> w
      then VerbCell Honored True
             ''pause and stop as the verbs above, latched; block refused at configuration''
      else VerbCell Honored True ''as the verbs above, latched'')"
| "verb_cell BreachActionPauseStopBlock Announced w =
     (if \<not> w
      then VerbCell Refused True
             ''set directly with no wire path: refused at configuration, naming the Metering Source''
      else VerbCell Honored False
             ''as the verbs above (block as reject), latched until the ceiling is raised or reset'')"
| "verb_cell BreachActionPauseStopBlock Wire w =
     VerbCell Honored False
       ''as the verbs above (block as reject), latched until the ceiling is raised or reset''"

definition no_wire_reason :: string where
  "no_wire_reason =
     ''the hosting process's model traffic does not pass through the Metering Proxy, so ''
     @ ''a child Run cannot be paused, stopped or blocked on its own''"

definition action_refusal :: "breach_action \<Rightarrow> control_depth \<Rightarrow> bool \<Rightarrow> string option" where
  "action_refusal action depth wire_path =
     (if action = ActWarn then None
      else
        (let cell = verb_cell BreachActionPauseStopBlock depth wire_path
         in if \<not> wire_path then Some no_wire_reason
            else if \<not> vc_available cell then
              Some (''holding and rejecting a '' @ depth_as_str depth
                    @ '' Run's calls is not available yet '' @ em_dash
                    @ '' use '' @ quoted ''warn''
                    @ '', or set the ceiling on the process-owning Run'')
            else None))"

lemma action_refusal_None:
  "action_refusal action depth wire = None \<longleftrightarrow>
     action = ActWarn \<or> (wire \<and> depth = Supervised)"
  by (cases depth) (simp_all add: action_refusal_def Let_def)

lemma action_refusal_announced:
  "action_refusal action Announced wire = None \<longleftrightarrow> action = ActWarn"
  by (simp add: action_refusal_None)

text \<open>The honor table, read as rules: an Observed Run offers nothing that acts on it (every acting
  verb fails fast or is refused, and none is available); without a wire path the verbs that work by
  holding calls are not honored at Supervised depth; and pausing or stopping the process itself is
  honored at Supervised depth alone.\<close>

lemma honor_table_rules:
  "(\<forall>v. vc_available (verb_cell v Observed w) = False)
   \<and> (\<forall>v. v \<in> {Logs, PauseResume, StopVerb, SendAttach, HoldReleaseRerouteReject,
              BreachActionPauseStopBlock} \<longrightarrow>
            vc_behavior (verb_cell v Observed w) \<in> {FailsFast, Refused})
   \<and> vc_behavior (verb_cell HoldReleaseRerouteReject Supervised False) = FailsFast
   \<and> vc_behavior (verb_cell BreachActionPauseStopBlock Announced False) = Refused
   \<and> (\<forall>v d. v \<in> {PauseResume, StopVerb, SendAttach} \<longrightarrow>
        vc_behavior (verb_cell v d w) = Honored \<longleftrightarrow> d = Supervised)
   \<and> (action_refusal action depth wire = None \<longleftrightarrow> action = ActWarn \<or> (wire \<and> depth = Supervised))"
proof -
  have "vc_available (verb_cell v Observed w) = False" for v
    by (cases v) simp_all
  moreover have "v \<in> {PauseResume, StopVerb, SendAttach} \<longrightarrow>
      vc_behavior (verb_cell v d w) = Honored \<longleftrightarrow> d = Supervised" for v d
    by (cases d) auto
  moreover have "v \<in> {Logs, PauseResume, StopVerb, SendAttach, HoldReleaseRerouteReject,
              BreachActionPauseStopBlock} \<longrightarrow>
            vc_behavior (verb_cell v Observed w) \<in> {FailsFast, Refused}" for v
    by auto
  ultimately show ?thesis by (simp add: action_refusal_None)
qed

lemma honor_table_rules_witness:
  "vc_behavior (verb_cell StopVerb Observed True) \<in> {FailsFast, Refused}
   \<and> vc_behavior (verb_cell StopVerb Announced True) \<noteq> Honored"
  using honor_table_rules [of True ActWarn Observed True] by blast

end
