(* ===== verification/Run_Ops.thy ===== *)
theory Run_Ops
  imports Snapshot Verbs
begin

text \<open>
  The operations on Runs (\<open>domain/runs/ops.rs\<close>): each one reads the store, writes it, and notes for every
  write one event and one entry. State is passed as the pair of the changes collected so far and the
  database; timestamps are parameters.
\<close>

record run_changes =
  ch_events :: "run_event list"
  ch_entries :: "run_entry list"

definition no_changes :: run_changes where
  "no_changes = \<lparr>ch_events = [], ch_entries = []\<rparr>"

definition changes_extend :: "run_changes \<Rightarrow> run_changes \<Rightarrow> run_changes" where
  "changes_extend a b = \<lparr>ch_events = ch_events a @ ch_events b, ch_entries = ch_entries a @ ch_entries b\<rparr>"

datatype run_fate = Relaunching | Terminal

record prior =
  pr_status :: "run_status option"
  pr_depth :: "control_depth option"
  pr_wire :: "bool option"

definition no_prior :: prior where
  "no_prior = \<lparr>pr_status = None, pr_depth = None, pr_wire = None\<rparr>"

type_synonym op_state = "run_changes \<times> db"

definition event_for ::
  "run_record \<Rightarrow> label list \<Rightarrow> run_event_kind \<Rightarrow> prior \<Rightarrow> string option \<Rightarrow> run_event" where
  "event_for r labels kind prior cause =
     \<lparr>ev_schema = run_event_schema_version, ev_change = kind, ev_run = rr_id r,
      ev_parent = rr_parent r, ev_instance = rr_instance r, ev_depth = rr_depth r,
      ev_wire = rr_wire r, ev_status = rr_status r, ev_prior_status = pr_status prior,
      ev_prior_depth = pr_depth prior, ev_prior_wire = pr_wire prior,
      ev_anomalies = rr_anomalies r, ev_labels = filter (\<lambda>l. lb_source l = Bound) labels,
      ev_cause = cause, ev_at = rr_updated r\<rparr>"

definition note_change ::
  "run_record \<Rightarrow> run_event_kind \<Rightarrow> prior \<Rightarrow> string option \<Rightarrow> op_state \<Rightarrow> store_error + op_state" where
  "note_change r kind prior cause st =
     (let (ch, s) = st
      in rbind (run_labels s (rr_id r)) (\<lambda>labels.
         rbind (run_limits_of s (rr_id r)) (\<lambda>limits.
         Inr (\<lparr>ch_events = ch_events ch @ [event_for r labels kind prior cause],
               ch_entries = ch_entries ch @ [\<lparr>re_record = r, re_labels = labels, re_limits = limits\<rparr>]\<rparr>,
              s))))"

definition move_to ::
  "run_record \<Rightarrow> run_status \<Rightarrow> anomaly list \<Rightarrow> string option \<Rightarrow> string \<Rightarrow> op_state
     \<Rightarrow> store_error + (run_record option \<times> op_state)" where
  "move_to record status anomalies0 cause at st =
     (let anomalies = sort_dedup anomalies0
      in if rr_status record = status \<and> rr_anomalies record = anomalies then Inr (None, st)
         else
           (let prior = rr_status record;
                ends = (status = Ended \<and> prior \<noteq> Ended);
                kind = (if ends then EndedEvent
                        else if status \<noteq> prior then StatusChanged else AnomaliesChanged);
                r1 = (if ends then record\<lparr>rr_end_cause := cause, rr_ended := Some at\<rparr> else record);
                r = r1\<lparr>rr_status := status, rr_anomalies := anomalies, rr_updated := at\<rparr>
            in rbind (save_run r (snd st)) (\<lambda>s.
               rbind (note_change r kind
                        (no_prior\<lparr>pr_status := if kind \<noteq> AnomaliesChanged then Some prior else None\<rparr>)
                        cause (fst st, s)) (\<lambda>st.
               Inr (Some r, st)))))"

definition cascade_child :: "run_status \<Rightarrow> bool \<Rightarrow> string \<Rightarrow> run_record \<Rightarrow> op_state \<Rightarrow> store_error + op_state" where
  "cascade_child to stopped at child st =
     (let go = (\<lambda>status cause. rbind (move_to child status (rr_anomalies child) (Some cause) at st)
                                 (\<lambda>(_, st). Inr st))
      in if to = Held \<and> rr_status child = Active then go Held ''parent-paused''
         else if to = Active \<and> rr_status child = Held then go Active ''parent-resumed''
         else if to = Ended then go Ended (if stopped then ''parent-stopped'' else ''parent-ended'')
         else Inr st)"

definition cascade ::
  "run_id \<Rightarrow> run_status \<Rightarrow> run_status \<Rightarrow> bool \<Rightarrow> string \<Rightarrow> op_state \<Rightarrow> store_error + op_state" where
  "cascade owner from to stopped at st =
     (if from = to then Inr st
      else rbind (open_in_process_descendants (snd st) owner) (\<lambda>children.
           rfold (cascade_child to stopped at) children st))"

text \<open>\<open>push\<close> and \<open>retain\<close> on the anomaly list.\<close>

definition retain_not :: "anomaly \<Rightarrow> anomaly list \<Rightarrow> anomaly list" where
  "retain_not a as = filter (\<lambda>x. x \<noteq> a) as"

definition project_plan ::
  "run_record \<Rightarrow> lifecycle_state \<Rightarrow> run_fate \<Rightarrow> string
     \<Rightarrow> (run_status \<times> anomaly list \<times> string option) option" where
  "project_plan run new_state fate cause =
     (case new_state of
        Running \<Rightarrow> Some (Active, retain_not FailedAnomaly (rr_anomalies run), None)
      | Failed \<Rightarrow>
          (let anomalies = rr_anomalies run @ [FailedAnomaly]
           in case fate of
                Relaunching \<Rightarrow> Some (rr_status run, anomalies, None)
              | Terminal \<Rightarrow> Some (Ended, anomalies, Some cause))
      | Stopped \<Rightarrow> Some (Ended, rr_anomalies run, Some cause)
      | Paused \<Rightarrow> Some (Held, rr_anomalies run, None)
      | _ \<Rightarrow> None)"

definition project_transition ::
  "string \<Rightarrow> lifecycle_state \<Rightarrow> run_fate \<Rightarrow> string \<Rightarrow> string \<Rightarrow> db \<Rightarrow> store_error + op_state" where
  "project_transition instance new_state fate cause at s =
     rbind (open_process_run s instance) (\<lambda>found.
       case found of
         None \<Rightarrow> Inr (no_changes, s)
       | Some run \<Rightarrow>
           (case project_plan run new_state fate cause of
              None \<Rightarrow> Inr (no_changes, s)
            | Some (status, anomalies, end_cause) \<Rightarrow>
                rbind (move_to run status anomalies end_cause at (no_changes, s)) (\<lambda>(_, st).
                cascade (rr_id run) (rr_status run) status (new_state = Stopped) at st)))"

record supervised_run =
  su_instance :: string
  su_run :: run_id
  su_wire :: bool
  su_labels :: "label list"
  su_fresh :: bool

definition depth_anomalies ::
  "run_limits \<Rightarrow> run_record \<Rightarrow> control_depth \<Rightarrow> bool \<Rightarrow> anomaly list" where
  "depth_anomalies limits record depth wire =
     (if limits_is_armed limits \<and> limits_action limits \<noteq> ActWarn \<and> \<not> rr_owner record then
        (let kept = retain_not DepthFallback (rr_anomalies record)
         in if action_refusal (limits_action limits) depth wire \<noteq> None
            then sort (kept @ [DepthFallback]) else kept)
      else rr_anomalies record)"

definition sync_depth ::
  "run_record \<Rightarrow> control_depth \<Rightarrow> bool \<Rightarrow> string \<Rightarrow> db \<Rightarrow> store_error + op_state" where
  "sync_depth record depth wire at s =
     (if rr_depth record = depth \<and> rr_wire record = wire then Inr (no_changes, s)
      else rbind (run_limits_of s (rr_id record)) (\<lambda>limits.
        let r = record\<lparr>rr_depth := depth, rr_wire := wire, rr_updated := at,
                       rr_anomalies := depth_anomalies limits record depth wire\<rparr>
        in rbind (save_run r s) (\<lambda>s.
           note_change r DepthChanged
             \<lparr>pr_status = None, pr_depth = Some (rr_depth record), pr_wire = Some (rr_wire record)\<rparr>
             None (no_changes, s))))"

definition sync_bound_labels ::
  "run_id \<Rightarrow> label list \<Rightarrow> string \<Rightarrow> db \<Rightarrow> store_error + op_state" where
  "sync_bound_labels rid labels at s =
     rbind (run_labels s rid) (\<lambda>all.
       let current = filter (\<lambda>l. lb_source l = Bound) all; wanted = sort labels
       in if current = wanted then Inr (no_changes, s)
          else rbind (run_record_of s rid) (\<lambda>found.
            case found of
              None \<Rightarrow> Inr (no_changes, s)
            | Some record \<Rightarrow>
                rbind (replace_labels rid Bound wanted s) (\<lambda>s.
                let r = record\<lparr>rr_updated := at\<rparr>
                in rbind (save_run r s) (\<lambda>s.
                   note_change r LabelsChanged no_prior None (no_changes, s)))))"

definition mark_breach :: "run_id \<Rightarrow> string \<Rightarrow> db \<Rightarrow> store_error + op_state" where
  "mark_breach rid at s =
     rbind (run_record_of s rid) (\<lambda>found.
       case found of
         None \<Rightarrow> Inr (no_changes, s)
       | Some record \<Rightarrow>
           if Breach \<in> set (rr_anomalies record) then Inr (no_changes, s)
           else rbind (move_to record (rr_status record) (rr_anomalies record @ [Breach]) None at
                         (no_changes, s)) (\<lambda>(_, st). Inr st))"

text \<open>The replaced owner of \<open>ensure_supervised\<close>, with its descendants.\<close>

definition end_replaced :: "supervised_run \<Rightarrow> string \<Rightarrow> db \<Rightarrow> store_error + op_state" where
  "end_replaced run at s =
     rbind (open_process_run s (su_instance run)) (\<lambda>found.
       case found of
         None \<Rightarrow> Inr (no_changes, s)
       | Some open \<Rightarrow>
           if rr_id open = su_run run then Inr (no_changes, s)
           else rbind (move_to open Ended (rr_anomalies open) (Some ''replaced'') at (no_changes, s))
                  (\<lambda>(_, st). cascade (rr_id open) (rr_status open) Ended False at st))"

definition reopen :: "run_record \<Rightarrow> string \<Rightarrow> op_state \<Rightarrow> store_error + (run_record \<times> op_state)" where
  "reopen existing at st =
     (if is_ended existing then
        (let r = existing\<lparr>rr_status := Active, rr_end_cause := None, rr_ended := None, rr_updated := at\<rparr>
         in rbind (save_run r (snd st)) (\<lambda>s.
            rbind (note_change r StatusChanged (no_prior\<lparr>pr_status := Some Ended\<rparr>) (Some ''relaunched'')
                     (fst st, s)) (\<lambda>st. Inr (r, st))))
      else Inr (existing, st))"

definition fresh_record :: "supervised_run \<Rightarrow> string \<Rightarrow> run_record" where
  "fresh_record run at =
     \<lparr>rr_id = su_run run, rr_depth = Supervised, rr_wire = su_wire run, rr_status = Active,
      rr_anomalies = [], rr_parent = None, rr_instance = Some (su_instance run), rr_owner = True,
      rr_end_cause = None, rr_created = at, rr_updated = at, rr_ended = None\<rparr>"

definition ensure_supervised :: "supervised_run \<Rightarrow> string \<Rightarrow> db \<Rightarrow> store_error + op_state" where
  "ensure_supervised run at s0 =
     rbind (end_replaced run at s0) (\<lambda>(ch, s).
     rbind (run_record_of s (su_run run)) (\<lambda>found.
       if found \<noteq> None \<and> \<not> su_fresh run then
         rbind (reopen (the found) at (ch, s)) (\<lambda>(existing, ch, s).
         rbind (sync_depth existing Supervised (su_wire run) at s) (\<lambda>(ch1, s).
         rbind (sync_bound_labels (su_run run) (su_labels run) at s) (\<lambda>(ch2, s).
         Inr (changes_extend (changes_extend ch ch1) ch2, s))))
       else
         (let r = fresh_record run at
          in rbind (insert_run \<lparr>nr_record = r, nr_labels = su_labels run, nr_limits = limits_default,
                                nr_identity = None\<rparr> s) (\<lambda>s.
             note_change r Created no_prior None (ch, s)))))"

section \<open>Child Runs\<close>

datatype run_parent = ParentRun run_id | ParentInstance string

record child_request =
  cq_parent :: run_parent
  cq_labels :: "(string \<times> string) list"
  cq_limits :: run_limits
  cq_external :: "string option"

datatype run_error =
  RunNotFound run_id
| NoOpenRun string
| ParentEnded run_id
| NestingTooDeep run_id nat nat
| ActionUnavailable string string string string
| OwnsProcess run_id string
| Invalid string string
| StoreErr store_error

fun run_error_code :: "run_error \<Rightarrow> string" where
  "run_error_code (RunNotFound _) = ''run-not-found''"
| "run_error_code (NoOpenRun _) = ''no-open-run''"
| "run_error_code (ParentEnded _) = ''parent-ended''"
| "run_error_code (NestingTooDeep _ _ _) = ''nesting-too-deep''"
| "run_error_code (ActionUnavailable _ _ _ _) = ''action-unavailable''"
| "run_error_code (OwnsProcess _ _) = ''owns-process''"
| "run_error_code (Invalid _ _) = ''invalid-request''"
| "run_error_code (StoreErr _) = ''store''"

text \<open>The \<open>From<StoreError>\<close> conversion of \<open>?\<close>.\<close>

definition from_store :: "store_error + 'a \<Rightarrow> run_error + 'a" where
  "from_store r = (case r of Inl e \<Rightarrow> Inl (StoreErr e) | Inr x \<Rightarrow> Inr x)"

definition resolve_parent :: "run_parent \<Rightarrow> db \<Rightarrow> run_error + run_record" where
  "resolve_parent parent s =
     (case parent of
        ParentRun rid \<Rightarrow>
          rbind (from_store (run_record_of s rid)) (\<lambda>found.
            case found of None \<Rightarrow> Inl (RunNotFound rid) | Some r \<Rightarrow> Inr r)
      | ParentInstance name \<Rightarrow>
          (case instance_name_new name of
             Inl e \<Rightarrow> Inl (Invalid ''parent'' (name_error_rule e))
           | Inr iname \<Rightarrow>
               rbind (from_store (open_process_run s iname)) (\<lambda>found.
                 case found of None \<Rightarrow> Inl (NoOpenRun name) | Some r \<Rightarrow> Inr r)))"

fun caller_labels :: "(string \<times> string) list \<Rightarrow> label list \<Rightarrow> run_error + label list" where
  "caller_labels [] labels = Inr labels"
| "caller_labels ((key, value) # rest) labels =
     (case rbind (validate_label_key key) (\<lambda>_. validate_label_value value) of
        Inl reason \<Rightarrow> Inl (Invalid ''label'' reason)
      | Inr _ \<Rightarrow>
          if \<exists>l\<in>set labels. lb_key l = key
          then Inl (Invalid ''label'' (''label key '' @ quoted key @ '' is given twice''))
          else caller_labels rest (labels @ [label_caller key value]))"

definition child_record :: "run_record \<Rightarrow> run_id \<Rightarrow> string \<Rightarrow> run_record" where
  "child_record parent rid at =
     \<lparr>rr_id = rid, rr_depth = Announced, rr_wire = rr_wire parent,
      rr_status = (if rr_status parent = Held then Held else Active), rr_anomalies = [],
      rr_parent = Some (rr_id parent), rr_instance = rr_instance parent, rr_owner = False,
      rr_end_cause = None, rr_created = at, rr_updated = at, rr_ended = None\<rparr>"

text \<open>The checks on the request, then the insert. \<open>Inl\<close> of the inner sum is the external id's earlier
  Run.\<close>

definition check_action :: "run_limits \<Rightarrow> bool \<Rightarrow> run_error + unit" where
  "check_action limits wire =
     (case rl_action limits of
        None \<Rightarrow> Inr ()
      | Some action \<Rightarrow>
          (case action_refusal action Announced wire of
             None \<Rightarrow> Inr ()
           | Some reason \<Rightarrow>
               Inl (ActionUnavailable (action_as_str action) (depth_as_str Announced)
                      (if wire then ''engine-observed'' else ''self-reported'') reason)))"

definition open_new_child ::
  "child_request \<Rightarrow> run_id \<Rightarrow> string \<Rightarrow> db \<Rightarrow> run_error + (run_id \<times> op_state)" where
  "open_new_child request rid at s =
     rbind (resolve_parent (cq_parent request) s) (\<lambda>parent.
     if is_ended parent then Inl (ParentEnded (rr_id parent))
     else rbind (from_store (run_chain s (rr_id parent))) (\<lambda>chain.
       let level = length chain + 1
       in if level > max_run_nesting then Inl (NestingTooDeep (rr_id parent) level max_run_nesting)
          else rbind (check_action (cq_limits request) (rr_wire parent)) (\<lambda>_.
            rbind (caller_labels (cq_labels request) []) (\<lambda>labels.
              let r = child_record parent rid at
              in rbind (from_store (insert_run
                   \<lparr>nr_record = r, nr_labels = sort labels, nr_limits = cq_limits request,
                    nr_identity = map_option (\<lambda>e. (host_identity_binding, e)) (cq_external request)\<rparr> s))
                   (\<lambda>s.
                 rbind (from_store (note_change r Created no_prior
                          (if rr_status parent = Held then Some ''parent-paused'' else None)
                          (no_changes, s))) (\<lambda>st.
                 Inr (rid, st)))))))"

definition open_child ::
  "child_request \<Rightarrow> run_id \<Rightarrow> string \<Rightarrow> db \<Rightarrow> run_error + (run_id \<times> op_state)" where
  "open_child request rid at s =
     rbind (case cq_external request of
              None \<Rightarrow> Inr None
            | Some external \<Rightarrow> from_store (identity_run s host_identity_binding external)) (\<lambda>known.
       case known of
         Some existing \<Rightarrow> Inr (existing, no_changes, s)
       | None \<Rightarrow> open_new_child request rid at s)"

definition close_run :: "run_id \<Rightarrow> string \<Rightarrow> db \<Rightarrow> run_error + op_state" where
  "close_run rid at s =
     rbind (from_store (run_record_of s rid)) (\<lambda>found.
       case found of
         None \<Rightarrow> Inl (RunNotFound rid)
       | Some record \<Rightarrow>
           if rr_owner record \<and> \<not> is_ended record then
             Inl (OwnsProcess rid (case rr_instance record of Some i \<Rightarrow> i | None \<Rightarrow> []))
           else if is_ended record then Inr (no_changes, s)
           else rbind (from_store (move_to record Ended (rr_anomalies record) (Some ''closed'') at
                                     (no_changes, s))) (\<lambda>(_, st). Inr st))"

definition open_entries :: "db \<Rightarrow> store_error + run_entry list" where
  "open_entries s =
     rbind (open_runs s) (rmap (\<lambda>r.
       rbind (run_labels s (rr_id r)) (\<lambda>labels.
       rbind (run_limits_of s (rr_id r)) (\<lambda>limits.
       Inr \<lparr>re_record = r, re_labels = labels, re_limits = limits\<rparr>))))"

definition end_owner :: "string \<Rightarrow> run_record \<Rightarrow> op_state \<Rightarrow> store_error + op_state" where
  "end_owner at record st =
     rbind (move_to record Ended (rr_anomalies record) (Some ''relaunch-not-run'') at st) (\<lambda>(_, st).
     cascade (rr_id record) (rr_status record) Ended False at st)"

definition end_runs_without_a_process :: "string \<Rightarrow> db \<Rightarrow> store_error + op_state" where
  "end_runs_without_a_process at s =
     rbind (open_owners_without_a_process s) (\<lambda>records. rfold (end_owner at) records (no_changes, s))"

end
