(* ===== verification/Run_Ops_Facts.thy ===== *)
theory Run_Ops_Facts
  imports Run_Ops
begin

text \<open>
  Every Run operation is a sequence of logged writes: each write changes the entry of one Run, is noted
  with exactly the entry the store then holds, and its event is a faithful difference from the entry
  before. The publisher's interface is interpreted on these writes, so the published snapshot mirrors
  the store after every operation.
\<close>

section \<open>Logged writes\<close>

definition noted :: "db \<Rightarrow> run_entry \<Rightarrow> db \<Rightarrow> bool" where
  "noted s e t \<longleftrightarrow> db_ok s \<and> db_ok t
     \<and> entry_of t = (entry_of s)(rr_id (re_record e) \<mapsto> e)
     \<and> (\<forall>old. entry_of s (rr_id (re_record e)) = Some old \<longrightarrow>
          same_identity (re_record old) (re_record e))"

text \<open>The event says what the entry is now, and names the prior value of what changed.\<close>

definition describes :: "run_event \<Rightarrow> run_entry option \<Rightarrow> run_entry \<Rightarrow> bool" where
  "describes ev old e \<longleftrightarrow>
     (let r = re_record e
      in ev_schema ev = run_event_schema_version \<and> ev_run ev = rr_id r \<and> ev_parent ev = rr_parent r
         \<and> ev_instance ev = rr_instance r \<and> ev_depth ev = rr_depth r \<and> ev_wire ev = rr_wire r
         \<and> ev_status ev = rr_status r \<and> ev_anomalies ev = rr_anomalies r \<and> ev_at ev = rr_updated r
         \<and> ev_labels ev = filter (\<lambda>l. lb_source l = Bound) (re_labels e)
         \<and> (case old of
              None \<Rightarrow> ev_change ev = Created
            | Some e0 \<Rightarrow>
                (let r0 = re_record e0
                 in ev_change ev \<noteq> Created
                    \<and> (case ev_prior_status ev of None \<Rightarrow> rr_status r0 = rr_status r
                       | Some p \<Rightarrow> rr_status r0 = p)
                    \<and> (case ev_prior_depth ev of None \<Rightarrow> rr_depth r0 = rr_depth r
                       | Some p \<Rightarrow> rr_depth r0 = p)
                    \<and> (case ev_prior_wire ev of None \<Rightarrow> rr_wire r0 = rr_wire r
                       | Some p \<Rightarrow> rr_wire r0 = p)
                    \<and> (ev_change ev = EndedEvent \<longleftrightarrow> rr_status r = Ended \<and> rr_status r0 \<noteq> Ended))))"

definition logged :: "db \<Rightarrow> run_event \<times> run_entry \<Rightarrow> db \<Rightarrow> bool" where
  "logged s p t \<longleftrightarrow> noted s (snd p) t
     \<and> describes (fst p) (entry_of s (rr_id (re_record (snd p)))) (snd p)"

definition grows :: "op_state \<Rightarrow> op_state \<Rightarrow> bool" where
  "grows st st' \<longleftrightarrow> (\<exists>new. ch_events (fst st') = ch_events (fst st) @ map fst new
     \<and> ch_entries (fst st') = ch_entries (fst st) @ map snd new
     \<and> steps logged (snd st) new (snd st'))"

lemma grows_refl [simp]: "grows st st"
  by (auto simp: grows_def intro!: exI [of _ "[]"])

lemma grows_trans: "grows a b \<Longrightarrow> grows b c \<Longrightarrow> grows a c"
proof -
  assume "grows a b" "grows b c"
  then obtain m n where m: "ch_events (fst b) = ch_events (fst a) @ map fst m"
      "ch_entries (fst b) = ch_entries (fst a) @ map snd m" "steps logged (snd a) m (snd b)"
    and n: "ch_events (fst c) = ch_events (fst b) @ map fst n"
      "ch_entries (fst c) = ch_entries (fst b) @ map snd n" "steps logged (snd b) n (snd c)"
    by (auto simp: grows_def)
  then have "steps logged (snd a) (m @ n) (snd c)" by (auto simp: steps_append)
  with m n show ?thesis unfolding grows_def by (intro exI [of _ "m @ n"]) simp
qed

lemma grows_extend:
  assumes "grows a (ch, s)" and "grows (no_changes, s) (ch1, t)"
  shows "grows a (changes_extend ch ch1, t)"
proof -
  have "grows (ch, s) (changes_extend ch ch1, t)"
    using assms(2) by (auto simp: grows_def changes_extend_def no_changes_def)
  with assms(1) show ?thesis by (rule grows_trans)
qed

lemma steps_logged_noted: "steps logged s ps t \<Longrightarrow> steps noted s (map snd ps) t"
  by (induction ps arbitrary: s) (auto simp: logged_def)

lemma steps_logged_db_ok: "steps logged s ps t \<Longrightarrow> db_ok s \<Longrightarrow> db_ok t"
  by (erule steps_invariant) (auto simp: logged_def noted_def)

lemma grows_db_ok: "grows st st' \<Longrightarrow> db_ok (snd st) \<Longrightarrow> db_ok (snd st')"
  by (auto simp: grows_def intro: steps_logged_db_ok)

section \<open>The publisher's interface on this store\<close>

lemma entry_of_open_row:
  assumes "db_ok s" and "entry_of s rid = Some e" and "owns e i"
  obtains row where "find_run s rid = Some row" "open_owner_row row" "joined_name s (rw_instance row) = Some i"
proof -
  obtain row where row: "find_run s rid = Some row" "re_record e = rec_of s row"
    using assms(2) by (auto simp: entry_of_def record_at_def)
  then have "run_row_ok row" using assms(1) find_run_Some by (auto simp: db_ok_def text_ok_def)
  with row assms(3) show thesis
    using open_owner_rec [of row s] by (intro that) (auto simp: owns_def open_entry_def)
qed

lemma joined_name_None [simp]: "joined_name s None = None"
  by (simp add: joined_name_def joined_instance_def)

lemma joined_name_inj:
  "instances_ok s \<Longrightarrow> joined_name s a = Some n \<Longrightarrow> joined_name s b = Some n \<Longrightarrow> a = b"
proof -
  assume ok: "instances_ok s" and ab: "joined_name s a = Some n" "joined_name s b = Some n"
  then obtain x y where "a = Some x" "b = Some y" by (cases a; cases b) simp_all
  moreover from this ab have "instance_id s n = Some x" "instance_id s n = Some y"
    by (simp_all only: instance_id_Some_name [OF ok])
  ultimately show ?thesis by simp
qed

lemma one_owner_entry_of: "db_ok s \<Longrightarrow> one_owner (entry_of s)"
  unfolding one_owner_def
proof (intro allI impI)
  fix a b e f i
  assume ok: "db_ok s" and e: "entry_of s a = Some e" "owns e i" and f: "entry_of s b = Some f" "owns f i"
  from entry_of_open_row [OF ok e] obtain ra where
    ra: "find_run s a = Some ra" "open_owner_row ra" "joined_name s (rw_instance ra) = Some i" .
  from entry_of_open_row [OF ok f] obtain rb where
    rb: "find_run s b = Some rb" "open_owner_row rb" "joined_name s (rw_instance rb) = Some i" .
  have "rw_instance ra = rw_instance rb"
    using ok ra(3) rb(3) by (auto simp: db_ok_def intro: joined_name_inj)
  moreover have "rw_instance ra \<noteq> None" using ra(3) by (cases "rw_instance ra") simp_all
  ultimately have "ra = rb"
    using ok ra rb find_run_Some by (intro one_open_ownerD [of "db_runs s"]) (auto simp: db_ok_def run_keys_ok_def)
  then show "a = b" using find_run_Some [OF ra(1)] find_run_Some [OF rb(1)] by simp
qed

interpretation runs: noted_writes entry_of noted
proof
  show "noted s e t \<Longrightarrow> one_owner (entry_of t)" for s e t
    by (rule one_owner_entry_of) (simp add: noted_def)
qed (simp_all add: noted_def)

text \<open>Publishing what an operation noted keeps the snapshot a mirror of the store.\<close>

lemma grows_mirrors:
  assumes "grows (no_changes, s) (ch, t)" and "mirrors (entry_of s) snap"
  shows "mirrors (entry_of t) (publish (ch_entries ch) snap)"
proof -
  obtain new where "ch_entries ch = map snd new" "steps logged s new t"
    using assms(1) by (auto simp: grows_def no_changes_def)
  then show ?thesis using runs.publish_mirrors [OF steps_logged_noted assms(2)] by simp
qed

section \<open>The single steps\<close>

lemma entry_of_record: "record_at s rid = Some r \<Longrightarrow>
    entry_of s rid = Some \<lparr>re_record = r, re_labels = labels_at s rid, re_limits = limits_at s rid\<rparr>"
  by (simp add: entry_of_def)

lemma record_at_entry: "record_at s rid = map_option re_record (entry_of s rid)"
  by (simp add: entry_of_def option.map_comp comp_def option.map_ident)

lemma note_change_eq:
  "db_ok s \<Longrightarrow> note_change r kind prior cause (ch, s) =
     Inr (\<lparr>ch_events = ch_events ch @ [event_for r (labels_at s (rr_id r)) kind prior cause],
           ch_entries = ch_entries ch @ [\<lparr>re_record = r, re_labels = labels_at s (rr_id r),
                                          re_limits = limits_at s (rr_id r)\<rparr>]\<rparr>, s)"
  by (simp add: note_change_def run_labels_eq run_limits_of_eq db_ok_def)

lemma grows_one:
  "logged s (ev, e) t \<Longrightarrow> ch' = \<lparr>ch_events = ch_events ch @ [ev], ch_entries = ch_entries ch @ [e]\<rparr> \<Longrightarrow>
     grows (ch, s) (ch', t)"
  unfolding grows_def by (rule exI [of _ "[(ev, e)]"]) simp

text \<open>A save followed by its event.\<close>

lemma save_note_grows:
  assumes ok: "db_ok s" and save: "save_run r s = Inr t" and old: "record_at s (rr_id r) = Some old"
    and same: "same_identity old r" and sorted: "sort_dedup (rr_anomalies r) = rr_anomalies r"
    and noting: "note_change r kind prior cause (ch, t) = Inr (ch', u)"
    and ev: "describes (event_for r (labels_at s (rr_id r)) kind prior cause) (entry_of s (rr_id r))
      \<lparr>re_record = r, re_labels = labels_at s (rr_id r), re_limits = limits_at s (rr_id r)\<rparr>"
  shows "grows (ch, s) (ch', t) \<and> u = t \<and> record_at t = (record_at s)(rr_id r \<mapsto> r)"
proof -
  have t: "db_ok t" by (rule save_run_db_ok [OF ok save])
  have eq: "labels_at t = labels_at s" "limits_at t = limits_at s"
    by (rule labels_at_cong limits_at_cong, rule save_run_tables [OF save])+
  let ?e = "\<lparr>re_record = r, re_labels = labels_at s (rr_id r), re_limits = limits_at s (rr_id r)\<rparr>"
  have "noted s ?e t"
    using ok t save_run_entry [OF save old same sorted] same
    by (simp add: noted_def entry_of_record [OF old])
  then have log: "logged s (event_for r (labels_at s (rr_id r)) kind prior cause, ?e) t"
    using ev by (simp add: logged_def)
  have "ch' = \<lparr>ch_events = ch_events ch @ [event_for r (labels_at s (rr_id r)) kind prior cause],
      ch_entries = ch_entries ch @ [?e]\<rparr> \<and> u = t"
    using noting by (simp add: note_change_eq [OF t] eq)
  then show ?thesis
    using grows_one [OF log] save_run_record [OF save old same sorted] by simp
qed

section \<open>Moving one Run\<close>

text \<open>The record after \<open>move_to\<close>.\<close>

definition moved ::
  "run_record \<Rightarrow> run_status \<Rightarrow> anomaly list \<Rightarrow> string option \<Rightarrow> string \<Rightarrow> run_record" where
  "moved r status anomalies cause at =
     (if rr_status r = status \<and> rr_anomalies r = sort_dedup anomalies then r
      else (if status = Ended \<and> rr_status r \<noteq> Ended then r\<lparr>rr_end_cause := cause, rr_ended := Some at\<rparr> else r)
             \<lparr>rr_status := status, rr_anomalies := sort_dedup anomalies, rr_updated := at\<rparr>)"

lemma moved_fields [simp]:
  "rr_id (moved r status anomalies cause at) = rr_id r"
  "rr_status (moved r status anomalies cause at) = status"
  "rr_anomalies (moved r status anomalies cause at) = sort_dedup anomalies"
  "rr_parent (moved r status anomalies cause at) = rr_parent r"
  "rr_instance (moved r status anomalies cause at) = rr_instance r"
  "rr_owner (moved r status anomalies cause at) = rr_owner r"
  "rr_created (moved r status anomalies cause at) = rr_created r"
  "rr_depth (moved r status anomalies cause at) = rr_depth r"
  "rr_wire (moved r status anomalies cause at) = rr_wire r"
  by (auto simp: moved_def)

lemma same_identity_moved [simp]: "same_identity r (moved r status anomalies cause at)"
  by (simp add: same_identity_def)

lemma describes_move:
  assumes "e0 = \<lparr>re_record = r0, re_labels = ls, re_limits = lim\<rparr>" and "rr_depth r = rr_depth r0"
    and "rr_wire r = rr_wire r0"
    and "kind = (if rr_status r = Ended \<and> rr_status r0 \<noteq> Ended then EndedEvent
                 else if rr_status r \<noteq> rr_status r0 then StatusChanged else AnomaliesChanged)"
    and "prior = no_prior\<lparr>pr_status := if kind \<noteq> AnomaliesChanged then Some (rr_status r0) else None\<rparr>"
  shows "describes (event_for r ls kind prior cause) (Some e0)
           \<lparr>re_record = r, re_labels = ls, re_limits = lim\<rparr>"
  using assms by (simp add: describes_def event_for_def no_prior_def Let_def)

lemma move_to_spec:
  assumes ok: "db_ok s" and cur: "record_at s (rr_id record) = Some record"
    and move: "move_to record status anomalies cause at (ch, s) = Inr (res, ch', t)"
  shows "grows (ch, s) (ch', t)
    \<and> record_at t = (record_at s)(rr_id record \<mapsto> moved record status anomalies cause at)"
proof (cases "rr_status record = status \<and> rr_anomalies record = sort_dedup anomalies")
  case True
  then have "ch' = ch \<and> t = s" using move by (simp add: move_to_def)
  moreover have "moved record status anomalies cause at = record" using True by (simp add: moved_def)
  ultimately show ?thesis using cur by (simp add: fun_upd_idem)
next
  case False
  let ?r = "moved record status anomalies cause at"
  define kind where "kind = (if status = Ended \<and> rr_status record \<noteq> Ended then EndedEvent
      else if status \<noteq> rr_status record then StatusChanged else AnomaliesChanged)"
  define prior where "prior = no_prior\<lparr>pr_status :=
      if kind \<noteq> AnomaliesChanged then Some (rr_status record) else None\<rparr>"
  obtain u where u: "save_run ?r s = Inr u" and n: "note_change ?r kind prior cause (ch, u) = Inr (ch', t)"
    using move False
    by (auto simp: move_to_def Let_def moved_def kind_def prior_def split: if_splits)
  have cur': "record_at s (rr_id ?r) = Some record" using cur by simp
  have "grows (ch, s) (ch', u) \<and> t = u \<and> record_at u = (record_at s)(rr_id ?r \<mapsto> ?r)"
    by (rule save_note_grows [OF ok u cur' same_identity_moved _ n], simp)
      (simp add: entry_of_record [OF cur] describes_move [OF refl] kind_def prior_def)
  then show ?thesis by simp
qed

section \<open>The cascade\<close>

definition cascaded :: "run_status \<Rightarrow> bool \<Rightarrow> string \<Rightarrow> run_record \<Rightarrow> run_record" where
  "cascaded to stopped at c =
     (if to = Held \<and> rr_status c = Active then moved c Held (rr_anomalies c) (Some ''parent-paused'') at
      else if to = Active \<and> rr_status c = Held
        then moved c Active (rr_anomalies c) (Some ''parent-resumed'') at
      else if to = Ended then moved c Ended (rr_anomalies c)
             (Some (if stopped then ''parent-stopped'' else ''parent-ended'')) at
      else c)"

lemma cascade_child_spec:
  assumes ok: "db_ok s" and cur: "record_at s (rr_id c) = Some c"
    and go: "cascade_child to stopped at c (ch, s) = Inr (ch', t)"
  shows "grows (ch, s) (ch', t) \<and> record_at t = (record_at s)(rr_id c \<mapsto> cascaded to stopped at c)"
proof -
  have move: "grows (ch, s) (ch', t) \<and> record_at t = (record_at s)(rr_id c \<mapsto> moved c st (rr_anomalies c) cause at)"
    if "rbind (move_to c st (rr_anomalies c) cause at (ch, s)) (\<lambda>(_, st). Inr st) = Inr (ch', t)" for st cause
    using that move_to_spec [OF ok cur] by (auto split: prod.splits)
  consider (held) "to = Held \<and> rr_status c = Active" | (active) "to = Active \<and> rr_status c = Held"
    | (ended) "to = Ended"
    | (other) "\<not> (to = Held \<and> rr_status c = Active)" "\<not> (to = Active \<and> rr_status c = Held)" "to \<noteq> Ended"
    by blast
  then show ?thesis
  proof cases
    case held
    then show ?thesis using go move [of Held "Some ''parent-paused''"]
      by (simp add: cascade_child_def cascaded_def)
  next
    case active
    then show ?thesis using go move [of Active "Some ''parent-resumed''"]
      by (simp add: cascade_child_def cascaded_def)
  next
    case ended
    then show ?thesis
      using go move [of Ended "Some (if stopped then ''parent-stopped'' else ''parent-ended'')"]
      by (simp add: cascade_child_def cascaded_def)
  next
    case other
    then have "ch' = ch \<and> t = s" using go by (auto simp: cascade_child_def Let_def split: if_splits)
    moreover have "cascaded to stopped at c = c" using other by (auto simp: cascaded_def)
    ultimately show ?thesis using cur by (simp add: fun_upd_idem)
  qed
qed

lemma cascade_children_spec:
  assumes "rfold (cascade_child to stopped at) cs (ch, s) = Inr (ch', t)" and "db_ok s"
    and "\<forall>c\<in>set cs. record_at s (rr_id c) = Some c" and "distinct (map rr_id cs)"
  shows "grows (ch, s) (ch', t) \<and> (\<forall>x. record_at t x =
     (case find (\<lambda>c. rr_id c = x) cs of Some c \<Rightarrow> Some (cascaded to stopped at c) | None \<Rightarrow> record_at s x))"
  using assms
proof (induction cs arbitrary: ch s)
  case (Cons c cs)
  obtain ch1 u where u: "cascade_child to stopped at c (ch, s) = Inr (ch1, u)"
      "rfold (cascade_child to stopped at) cs (ch1, u) = Inr (ch', t)"
    using Cons.prems(1) by auto
  have step: "grows (ch, s) (ch1, u)" "record_at u = (record_at s)(rr_id c \<mapsto> cascaded to stopped at c)"
    using cascade_child_spec [OF Cons.prems(2) _ u(1)] Cons.prems(3) by simp_all
  have ok: "db_ok u" using grows_db_ok [OF step(1)] Cons.prems(2) by simp
  have "grows (ch1, u) (ch', t) \<and> (\<forall>x. record_at t x =
     (case find (\<lambda>c. rr_id c = x) cs of Some c \<Rightarrow> Some (cascaded to stopped at c) | None \<Rightarrow> record_at u x))"
  proof (rule Cons.IH [OF u(2) ok])
    show "\<forall>d\<in>set cs. record_at u (rr_id d) = Some d"
    proof
      fix d assume d: "d \<in> set cs"
      then have "rr_id d \<noteq> rr_id c" using Cons.prems(4) by (metis distinct.simps(2) image_eqI list.set_map list.simps(9))
      with d Cons.prems(3) show "record_at u (rr_id d) = Some d" by (simp add: step(2))
    qed
    show "distinct (map rr_id cs)" using Cons.prems(4) by simp
  qed
  moreover have "find (\<lambda>d. rr_id d = rr_id c) cs = None"
    using Cons.prems(4) by (simp add: find_None_iff) (metis image_eqI)
  ultimately show ?case
    using grows_trans [OF step(1)] step(2) by (auto split: option.splits)
qed simp

section \<open>Queries\<close>

lemma db_ok_text: "db_ok s \<Longrightarrow> text_ok s" by (simp add: db_ok_def)
lemma db_ok_keys: "db_ok s \<Longrightarrow> run_keys_ok s" by (simp add: db_ok_def)
lemma db_ok_instances: "db_ok s \<Longrightarrow> instances_ok s" by (simp add: db_ok_def)

lemma record_at_row: "db_ok s \<Longrightarrow> row \<in> set (db_runs s) \<Longrightarrow> record_at s (rw_id row) = Some (rec_of s row)"
  by (simp add: record_at_def find_run_in db_ok_keys)

lemma record_at_iff:
  "db_ok s \<Longrightarrow> record_at s x = Some r \<longleftrightarrow> (\<exists>row\<in>set (db_runs s). rw_id row = x \<and> r = rec_of s row)"
  by (auto simp: record_at_row dest: record_at_Some find_run_Some)

text \<open>A query in an order that permutes its rows returns current records, each once.\<close>

lemma records_where_current:
  assumes "db_ok s" and "\<And>xs. set (order xs) \<subseteq> set xs" and "\<And>xs. distinct (map rw_id xs) \<Longrightarrow> distinct (map rw_id (order xs))"
    and "records_where s P order = Inr cs"
  shows "distinct (map rr_id cs) \<and> (\<forall>c\<in>set cs. record_at s (rr_id c) = Some c)"
proof -
  have cs: "cs = map (rec_of s) (order (filter P (db_runs s)))"
    using assms(4) records_where_eq [OF db_ok_text [OF assms(1)] assms(2), of P] by simp
  have "distinct (map rw_id (filter P (db_runs s)))"
    using assms(1) by (simp add: db_ok_def run_keys_ok_def distinct_map_filter)
  then have "distinct (map rr_id cs)" using assms(3) by (simp add: cs comp_def)
  moreover have "record_at s (rr_id c) = Some c" if "c \<in> set cs" for c
  proof -
    from that obtain row where "row \<in> set (filter P (db_runs s))" "c = rec_of s row"
      using assms(2) [of "filter P (db_runs s)"] unfolding cs by (auto simp del: set_filter)
    then show ?thesis using assms(1) by (simp add: record_at_row)
  qed
  ultimately show ?thesis by blast
qed

lemma distinct_sort_key_map: "distinct (map f xs) \<Longrightarrow> distinct (map f (sort_key k xs))"
  by (metis distinct_sort distinct_map set_sort)

lemma records_where_sorted:
  assumes "db_ok s" and "records_where s P (sort_key k) = Inr cs"
  shows "distinct (map rr_id cs)" and "\<forall>c\<in>set cs. record_at s (rr_id c) = Some c"
    and "set cs = rec_of s ` {row \<in> set (db_runs s). P row}"
  using records_where_current [OF assms(1) _ _ assms(2)] records_where_eq [OF db_ok_text [OF assms(1)], of "sort_key k" P]
    assms(2) by (auto simp: distinct_sort_key_map)

text \<open>The open process-owning Run of an instance.\<close>

lemma open_process_run_eq:
  assumes "db_ok s"
  shows "\<exists>res. open_process_run s n = Inr res \<and>
    (\<forall>r. res = Some r \<longleftrightarrow> record_at s (rr_id r) = Some r \<and> rr_owner r \<and> \<not> is_ended r \<and> rr_instance r = Some n)"
proof -
  let ?P = "\<lambda>r. joined_name s (rw_instance r) = Some n \<and> rw_owner r = 1 \<and> rw_status r \<noteq> ''ended''"
  let ?rows = "filter ?P (db_runs s)"
  have P: "?P row \<longleftrightarrow> rr_owner (rec_of s row) \<and> \<not> is_ended (rec_of s row) \<and> rr_instance (rec_of s row) = Some n"
    if "row \<in> set (db_runs s)" for row
    using that assms open_owner_rec [of row s] by (auto simp: open_owner_row_def db_ok_def text_ok_def)
  have same: "a = b" if "a \<in> set ?rows" "b \<in> set ?rows" for a b
  proof (rule one_open_ownerD [of "db_runs s"])
    show "one_open_owner (db_runs s)" using assms by (simp add: db_ok_def run_keys_ok_def)
    show "rw_instance a = rw_instance b"
      using that joined_name_inj [OF db_ok_instances [OF assms], of "rw_instance a" n "rw_instance b"] by simp
    show "rw_instance a \<noteq> None" using that by (cases "rw_instance a") auto
  qed (use that in \<open>auto simp: open_owner_row_def\<close>)
  have eq: "open_process_run s n = Inr (case map (rec_of s) (take 1 ?rows) of [] \<Rightarrow> None | r # _ \<Rightarrow> Some r)"
  proof -
    have "records_where s ?P (take 1) = Inr (map (rec_of s) (take 1 ?rows))"
      by (rule records_where_eq [OF db_ok_text [OF assms]]) (rule set_take_subset)
    then show ?thesis by (simp add: open_process_run_def)
  qed
  have "(case map (rec_of s) (take 1 ?rows) of [] \<Rightarrow> None | r # _ \<Rightarrow> Some r) = Some r
      \<longleftrightarrow> (\<exists>row\<in>set ?rows. r = rec_of s row)" for r
    using same by (cases ?rows) auto
  moreover have "(\<exists>row\<in>set ?rows. r = rec_of s row) \<longleftrightarrow>
      record_at s (rr_id r) = Some r \<and> rr_owner r \<and> \<not> is_ended r \<and> rr_instance r = Some n" for r
  proof
    assume "\<exists>row\<in>set ?rows. r = rec_of s row"
    then obtain row where "row \<in> set (db_runs s)" "?P row" "r = rec_of s row" by auto
    then show "record_at s (rr_id r) = Some r \<and> rr_owner r \<and> \<not> is_ended r \<and> rr_instance r = Some n"
      using P [of row] by (simp add: record_at_row assms)
  next
    assume r: "record_at s (rr_id r) = Some r \<and> rr_owner r \<and> \<not> is_ended r \<and> rr_instance r = Some n"
    then obtain row where "row \<in> set (db_runs s)" "r = rec_of s row"
      using record_at_iff [OF assms] by auto
    moreover from this have "?P row" using r P [of row] by simp
    ultimately show "\<exists>row\<in>set ?rows. r = rec_of s row" by auto
  qed
  ultimately show ?thesis using eq by blast
qed

lemma open_process_run_Some:
  assumes "db_ok s" and "open_process_run s n = Inr (Some r)"
  shows "record_at s (rr_id r) = Some r" and "rr_owner r" and "\<not> is_ended r" and "rr_instance r = Some n"
  using open_process_run_eq [OF assms(1), of n] assms(2) by auto

text \<open>The in-process descendants of a Run.\<close>

definition in_process_child :: "db \<Rightarrow> run_id \<Rightarrow> run_record \<Rightarrow> bool" where
  "in_process_child s owner c \<longleftrightarrow>
     rr_id c \<in> set (tree_ids s owner) \<and> \<not> is_ended c \<and> \<not> rr_owner c
     \<and> (\<exists>p. record_at s owner = Some p \<and> rr_instance p \<noteq> None \<and> rr_instance c = rr_instance p)"

lemma joined_name_Some_iff:
  assumes "db_ok s" and "row \<in> set (db_runs s)"
  shows "joined_name s (rw_instance row) = None \<longleftrightarrow> rw_instance row = None"
proof (cases "rw_instance row")
  case (Some i)
  then have "i \<in> in_id ` set (db_instances s)" using assms by (auto simp: db_ok_def run_keys_ok_def)
  then have "find (\<lambda>r. in_id r = i) (db_instances s) \<noteq> None" by (auto simp: find_None_iff)
  then show ?thesis using Some by (auto simp: joined_name_def joined_instance_def)
qed simp

lemma descendants_spec:
  assumes ok: "db_ok s" and cs: "open_in_process_descendants s owner = Inr cs"
  shows "distinct (map rr_id cs)" and "\<forall>c\<in>set cs. record_at s (rr_id c) = Some c"
    and "c \<in> set cs \<longleftrightarrow> record_at s (rr_id c) = Some c \<and> in_process_child s owner c"
proof -
  define own where "own = (case find_run s owner of None \<Rightarrow> None | Some r \<Rightarrow> rw_instance r)"
  let ?P = "\<lambda>r. rw_id r \<in> set (tree_ids s owner) \<and> rw_status r \<noteq> ''ended'' \<and> rw_owner r = 0
                \<and> own \<noteq> None \<and> rw_instance r = own"
  have q: "records_where s ?P (sort_key (\<lambda>r. (rw_created r, rw_id r))) = Inr cs"
    using cs by (simp add: open_in_process_descendants_def own_def Let_def)
  note sorted = records_where_sorted [OF ok q]
  show "distinct (map rr_id cs)" "\<forall>c\<in>set cs. record_at s (rr_id c) = Some c" by (fact sorted)+
  have "?P row \<longleftrightarrow> in_process_child s owner (rec_of s row)" if row: "row \<in> set (db_runs s)" for row
  proof -
    have "own \<noteq> None \<and> rw_instance row = own \<longleftrightarrow>
        (\<exists>p. record_at s owner = Some p \<and> rr_instance p \<noteq> None \<and> rr_instance (rec_of s row) = rr_instance p)"
    proof (cases "find_run s owner")
      case (Some orow)
      then have orow: "orow \<in> set (db_runs s)" by (auto dest: find_run_Some)
      have "joined_name s (rw_instance row) = joined_name s (rw_instance orow)
          \<longleftrightarrow> rw_instance row = rw_instance orow" if "rw_instance orow \<noteq> None"
        using that joined_name_inj [OF db_ok_instances [OF ok]] joined_name_Some_iff [OF ok orow] by fastforce
      then show ?thesis
        using joined_name_Some_iff [OF ok orow] by (auto simp: own_def Some record_at_def)
    qed (simp add: own_def record_at_def)
    moreover have "rw_status row \<noteq> ''ended'' \<longleftrightarrow> \<not> is_ended (rec_of s row)"
      "rw_owner row = 0 \<longleftrightarrow> \<not> rr_owner (rec_of s row)"
      using row ok by (auto simp: is_ended_rec db_ok_def text_ok_def)
    ultimately show ?thesis by (auto simp: in_process_child_def)
  qed
  then show "c \<in> set cs \<longleftrightarrow> record_at s (rr_id c) = Some c \<and> in_process_child s owner c"
    unfolding sorted(3) by (auto simp: record_at_iff [OF ok])
qed

section \<open>Ancestors\<close>

definition parent_of :: "db \<Rightarrow> run_id \<Rightarrow> run_id option" where
  "parent_of s x = Option.bind (record_at s x) rr_parent"

primrec anc :: "(run_id \<Rightarrow> run_id option) \<Rightarrow> nat \<Rightarrow> run_id \<Rightarrow> run_id option" where
  "anc par 0 x = Some x"
| "anc par (Suc n) x = Option.bind (par x) (anc par n)"

lemma anc_Suc_right: "anc par (Suc n) x = Option.bind (anc par n x) par"
proof (induction n arbitrary: x)
  case 0
  show ?case by (cases "par x") simp_all
next
  case (Suc n)
  then show ?case by (cases "par x") simp_all
qed

lemma anc_add: "anc par (m + n) x = Option.bind (anc par m x) (anc par n)"
proof (induction m arbitrary: x)
  case (Suc m)
  then show ?case by (cases "par x") simp_all
qed simp

text \<open>The recursive query reaches exactly the Runs below.\<close>

lemma tree_level_anc:
  assumes "db_ok s"
  shows "x \<in> set (tree_level s rid (Suc n)) \<longleftrightarrow> anc (parent_of s) (Suc n) x = Some rid"
proof -
  have par: "(\<exists>row\<in>set (db_runs s). rw_id row = x \<and> rw_parent row = Some t) \<longleftrightarrow> parent_of s x = Some t" for x t
    using assms by (auto simp: parent_of_def bind_eq_Some_conv record_at_iff)
  have lev: "x \<in> set (tree_level s rid (Suc n)) \<longleftrightarrow> (\<exists>t\<in>set (tree_level s rid n). parent_of s x = Some t)" for x n
    unfolding par [symmetric] by auto
  show ?thesis
  proof (induction n arbitrary: x)
    case 0
    show ?case unfolding lev by (cases "parent_of s x") simp_all
  next
    case (Suc n)
    show ?case
      unfolding lev [of x "Suc n"] Bex_def Suc.IH anc.simps(2) [of _ "Suc n" x] bind_eq_Some_conv
      by blast
  qed
qed

lemma tree_ids_anc:
  assumes "db_ok s"
  shows "x \<in> set (tree_ids s rid) \<longleftrightarrow> (\<exists>n. 1 \<le> n \<and> n \<le> 16 \<and> anc (parent_of s) n x = Some rid)"
proof -
  have "set [1..<17] = {n::nat. 1 \<le> n \<and> n \<le> 16}" by auto
  then have "x \<in> set (tree_ids s rid) \<longleftrightarrow> (\<exists>n. 1 \<le> n \<and> n \<le> 16 \<and> x \<in> set (tree_level s rid n))"
    by (auto simp: tree_ids_def simp del: upt_Suc)
  moreover have "x \<in> set (tree_level s rid n) \<longleftrightarrow> anc (parent_of s) n x = Some rid" if "1 \<le> n" for n
    using that tree_level_anc [OF assms, of x rid "n - 1"] by simp
  ultimately show ?thesis by blast
qed

section \<open>The whole cascade\<close>

lemma cascade_spec:
  assumes ok: "db_ok s" and go: "cascade owner from to stopped at (ch, s) = Inr (ch', t)"
  shows "grows (ch, s) (ch', t)"
    and "record_at t x = (case record_at s x of None \<Rightarrow> None
          | Some c \<Rightarrow> Some (if from \<noteq> to \<and> in_process_child s owner c then cascaded to stopped at c else c))"
proof -
  have "grows (ch, s) (ch', t) \<and> record_at t x = (case record_at s x of None \<Rightarrow> None
          | Some c \<Rightarrow> Some (if from \<noteq> to \<and> in_process_child s owner c then cascaded to stopped at c else c))"
  proof (cases "from = to")
    case True
    then show ?thesis using go by (auto simp: cascade_def split: option.splits)
  next
    case False
    then obtain cs where cs: "open_in_process_descendants s owner = Inr cs"
        and run: "rfold (cascade_child to stopped at) cs (ch, s) = Inr (ch', t)"
      using go by (auto simp: cascade_def)
    note d = descendants_spec [OF ok cs]
    have main: "grows (ch, s) (ch', t)" "record_at t x =
       (case find (\<lambda>c. rr_id c = x) cs of Some c \<Rightarrow> Some (cascaded to stopped at c) | None \<Rightarrow> record_at s x)"
      using cascade_children_spec [OF run ok d(2,1)] by simp_all
    show ?thesis
    proof (cases "find (\<lambda>c. rr_id c = x) cs")
      case (Some c)
      then have "c \<in> set cs" "rr_id c = x" using find_Some_in [OF Some] by auto
      then have "record_at s x = Some c" "in_process_child s owner c" using d(3) by auto
      then show ?thesis using main Some False by simp
    next
      case None
      have "\<not> in_process_child s owner c" if "record_at s x = Some c" for c
      proof
        assume "in_process_child s owner c"
        then have "c \<in> set cs" using d(3) that record_at_id [OF that] by simp
        then show False using None record_at_id [OF that] by (auto simp: find_None_iff)
      qed
      then show ?thesis using main None by (auto split: option.splits)
    qed
  qed
  then show "grows (ch, s) (ch', t)"
    "record_at t x = (case record_at s x of None \<Rightarrow> None
          | Some c \<Rightarrow> Some (if from \<noteq> to \<and> in_process_child s owner c then cascaded to stopped at c else c))"
    by simp_all
qed

text \<open>Moving an owner and cascading from it.\<close>

definition after_owner_move ::
  "db \<Rightarrow> run_record \<Rightarrow> run_status \<Rightarrow> run_record \<Rightarrow> bool \<Rightarrow> string \<Rightarrow> run_id \<Rightarrow> run_record option" where
  "after_owner_move s run to run' stopped at x =
     (if x = rr_id run then Some run'
      else (case record_at s x of None \<Rightarrow> None
            | Some c \<Rightarrow> Some (if rr_status run \<noteq> to \<and> in_process_child s (rr_id run) c
                             then cascaded to stopped at c else c)))"

lemma owner_move_spec:
  assumes ok: "db_ok s" and cur: "record_at s (rr_id run) = Some run" and own: "rr_owner run"
    and mv: "move_to run to anomalies cause at (ch, s) = Inr (res, ch1, u)"
    and cas: "cascade (rr_id run) (rr_status run) to stopped at (ch1, u) = Inr (ch', t)"
  shows "grows (ch, s) (ch', t)"
    and "record_at t = after_owner_move s run to (moved run to anomalies cause at) stopped at"
proof -
  note m = move_to_spec [OF ok cur mv]
  have oku: "db_ok u" using grows_db_ok [OF m [THEN conjunct1]] ok by simp
  note c = cascade_spec [OF oku cas]
  show "grows (ch, s) (ch', t)" using m c(1) grows_trans by blast
  have rec: "record_at u = (record_at s)(rr_id run \<mapsto> moved run to anomalies cause at)" using m by simp
  have "parent_of u = parent_of s" using cur by (auto simp: parent_of_def rec fun_eq_iff)
  then have "in_process_child u (rr_id run) d = in_process_child s (rr_id run) d" for d
    using cur by (simp add: in_process_child_def tree_ids_anc [OF oku] tree_ids_anc [OF ok] rec)
  moreover have "\<not> in_process_child s (rr_id run) (moved run to anomalies cause at)"
    using own by (simp add: in_process_child_def)
  ultimately show "record_at t = after_owner_move s run to (moved run to anomalies cause at) stopped at"
    by (auto simp: fun_eq_iff c(2) rec after_owner_move_def split: option.splits)
qed

end
