(* ===== verification/Run_Ops_Growth.thy ===== *)
theory Run_Ops_Growth
  imports Run_Ops_Facts
begin

text \<open>
  Every public operation on Runs, from its result: it is a sequence of logged writes (so the published
  snapshot keeps mirroring the store), and what it did to the records.
\<close>

section \<open>Operations on one Run\<close>

lemma move_to_growsE:
  assumes "rbind (move_to record status anomalies cause at (ch, s)) (\<lambda>(_, st). Inr st) = Inr (ch', t)"
    and "db_ok s" and "record_at s (rr_id record) = Some record"
  shows "grows (ch, s) (ch', t)"
    and "record_at t = (record_at s)(rr_id record \<mapsto> moved record status anomalies cause at)"
  using assms move_to_spec [OF assms(2,3)] by (auto split: prod.splits)

lemma mark_breach_spec:
  assumes ok: "db_ok s" and go: "mark_breach rid at s = Inr (ch, t)"
  shows "grows (no_changes, s) (ch, t)"
    and "record_at t = (case record_at s rid of None \<Rightarrow> record_at s
      | Some r \<Rightarrow> if Breach \<in> set (rr_anomalies r) then record_at s
                 else (record_at s)(rid \<mapsto> moved r (rr_status r) (rr_anomalies r @ [Breach]) None at))"
proof -
  have "grows (no_changes, s) (ch, t) \<and> record_at t = (case record_at s rid of None \<Rightarrow> record_at s
      | Some r \<Rightarrow> if Breach \<in> set (rr_anomalies r) then record_at s
                 else (record_at s)(rid \<mapsto> moved r (rr_status r) (rr_anomalies r @ [Breach]) None at))"
  proof (cases "record_at s rid")
    case None
    then show ?thesis using go by (simp add: mark_breach_def run_record_of_eq db_ok_text [OF ok])
  next
    case (Some r)
    note id = record_at_id [OF Some]
    show ?thesis
    proof (cases "Breach \<in> set (rr_anomalies r)")
      case True
      then show ?thesis using go Some by (simp add: mark_breach_def run_record_of_eq db_ok_text [OF ok])
    next
      case False
      then have "rbind (move_to r (rr_status r) (rr_anomalies r @ [Breach]) None at (no_changes, s))
          (\<lambda>(_, st). Inr st) = Inr (ch, t)"
        using go Some by (simp add: mark_breach_def run_record_of_eq db_ok_text [OF ok])
      from move_to_growsE [OF this ok] Some False id show ?thesis by simp
    qed
  qed
  then show "grows (no_changes, s) (ch, t)" and "record_at t = (case record_at s rid of None \<Rightarrow> record_at s
      | Some r \<Rightarrow> if Breach \<in> set (rr_anomalies r) then record_at s
                 else (record_at s)(rid \<mapsto> moved r (rr_status r) (rr_anomalies r @ [Breach]) None at))"
    by simp_all
qed

lemma sort_dedup_retain:
  "sort_dedup as = as \<Longrightarrow> sort_dedup (retain_not a as) = retain_not a as"
  unfolding retain_not_def
  by (rule sort_dedup_unique) (metis sorted_wrt_filter sorted_sort_dedup, metis distinct_filter distinct_sort_dedup)

lemma depth_anomalies_sorted:
  assumes "sort_dedup (rr_anomalies r) = rr_anomalies r"
  shows "sort_dedup (depth_anomalies limits r depth wire) = depth_anomalies limits r depth wire"
proof -
  have "distinct (retain_not DepthFallback (rr_anomalies r))"
    by (metis assms distinct_filter distinct_sort_dedup retain_not_def)
  then show ?thesis
    using assms sort_dedup_retain [OF assms, of DepthFallback]
    by (auto simp: depth_anomalies_def Let_def retain_not_def intro: sort_dedup_unique)
qed

lemma describes_other:
  assumes "e0 = \<lparr>re_record = r0, re_labels = ls0, re_limits = lim\<rparr>" and "rr_status r = rr_status r0"
    and "kind \<noteq> Created" "kind \<noteq> EndedEvent" and "pr_status prior = None"
    and "pr_depth prior = None \<and> rr_depth r = rr_depth r0 \<or> pr_depth prior = Some (rr_depth r0)"
    and "pr_wire prior = None \<and> rr_wire r = rr_wire r0 \<or> pr_wire prior = Some (rr_wire r0)"
  shows "describes (event_for r ls kind prior cause) (Some e0)
           \<lparr>re_record = r, re_labels = ls, re_limits = lim\<rparr>"
  using assms by (auto simp: describes_def event_for_def Let_def)

lemma sync_depth_spec:
  assumes ok: "db_ok s" and cur: "record_at s (rr_id r) = Some r"
    and go: "sync_depth r depth wire at s = Inr (ch, t)"
  shows "grows (no_changes, s) (ch, t)"
    and "\<exists>r'. record_at t = (record_at s)(rr_id r \<mapsto> r') \<and> same_identity r r' \<and> rr_status r' = rr_status r
      \<and> rr_depth r' = depth \<and> rr_wire r' = wire"
proof -
  have "grows (no_changes, s) (ch, t) \<and> (\<exists>r'. record_at t = (record_at s)(rr_id r \<mapsto> r') \<and> same_identity r r'
      \<and> rr_status r' = rr_status r \<and> rr_depth r' = depth \<and> rr_wire r' = wire)"
  proof (cases "rr_depth r = depth \<and> rr_wire r = wire")
    case True
    then show ?thesis using go cur by (auto simp: sync_depth_def fun_upd_idem intro!: exI [of _ r])
  next
    case False
    let ?lim = "limits_at s (rr_id r)"
    let ?r = "r\<lparr>rr_depth := depth, rr_wire := wire, rr_updated := at,
                rr_anomalies := depth_anomalies ?lim r depth wire\<rparr>"
    let ?prior = "\<lparr>pr_status = None, pr_depth = Some (rr_depth r), pr_wire = Some (rr_wire r)\<rparr>"
    obtain u where u: "save_run ?r s = Inr u" "note_change ?r DepthChanged ?prior None (no_changes, u) = Inr (ch, t)"
      using go False by (auto simp: sync_depth_def run_limits_of_eq db_ok_text [OF ok] Let_def)
    have sorted: "sort_dedup (rr_anomalies r) = rr_anomalies r"
      using cur rec_of_anomalies by (auto dest: record_at_Some)
    have "grows (no_changes, s) (ch, u) \<and> t = u \<and> record_at u = (record_at s)(rr_id ?r \<mapsto> ?r)"
    proof (rule save_note_grows [OF ok u(1) _ _ _ u(2)])
      show "record_at s (rr_id ?r) = Some r" using cur by simp
      show "same_identity r ?r" by (simp add: same_identity_def)
      show "sort_dedup (rr_anomalies ?r) = rr_anomalies ?r" by (simp add: depth_anomalies_sorted [OF sorted])
    qed (simp add: entry_of_record [OF cur] describes_other [OF refl])
    then show ?thesis by (auto simp: same_identity_def intro!: exI [of _ ?r])
  qed
  then show "grows (no_changes, s) (ch, t)" and "\<exists>r'. record_at t = (record_at s)(rr_id r \<mapsto> r') \<and> same_identity r r'
      \<and> rr_status r' = rr_status r \<and> rr_depth r' = depth \<and> rr_wire r' = wire"
    by simp_all
qed

lemma labels_only_record: "labels_only rid s t \<Longrightarrow> record_at t = record_at s"
proof
  fix x
  assume "labels_only rid s t"
  then show "record_at t x = record_at s x"
    by (cases "entry_of s x") (auto simp: record_at_entry labels_only_entry)
qed

lemma labels_only_limits: "labels_only rid s t \<Longrightarrow> limits_at t = limits_at s"
  by (rule limits_at_cong) (metis db.select_convs(4) db.surjective db.update_convs(3) labels_only_def)

lemma sync_bound_labels_spec:
  assumes ok: "db_ok s" and go: "sync_bound_labels rid labels at s = Inr (ch, t)"
  shows "grows (no_changes, s) (ch, t)"
    and "record_at t = record_at s \<or> (\<exists>r. record_at s rid = Some r
           \<and> record_at t = (record_at s)(rid \<mapsto> r\<lparr>rr_updated := at\<rparr>))"
proof -
  have "grows (no_changes, s) (ch, t) \<and> (record_at t = record_at s \<or> (\<exists>r. record_at s rid = Some r
           \<and> record_at t = (record_at s)(rid \<mapsto> r\<lparr>rr_updated := at\<rparr>)))"
  proof (cases "filter (\<lambda>l. lb_source l = Bound) (labels_at s rid) = sort labels \<or> record_at s rid = None")
    case True
    then show ?thesis
      using go by (auto simp: sync_bound_labels_def run_labels_eq run_record_of_eq db_ok_text [OF ok] Let_def
          split: if_splits)
  next
    case False
    then obtain r where r: "record_at s rid = Some r" by auto
    note id = record_at_id [OF r]
    let ?r = "r\<lparr>rr_updated := at\<rparr>"
    obtain v u where v: "replace_labels rid Bound (sort labels) s = Inr v" and u: "save_run ?r v = Inr u"
        and n: "note_change ?r LabelsChanged no_prior None (no_changes, u) = Inr (ch, t)"
      using go False r by (auto simp: sync_bound_labels_def run_labels_eq run_record_of_eq db_ok_text [OF ok] Let_def)
    have okv: "db_ok v" and only: "labels_only rid s v" using replace_labels_step [OF ok v] by simp_all
    have okt: "db_ok u" by (rule save_run_db_ok [OF okv u])
    have rec: "record_at v = record_at s" and lim: "limits_at v = limits_at s"
      by (rule labels_only_record [OF only], rule labels_only_limits [OF only])
    have cur: "record_at v (rr_id ?r) = Some r" by (simp add: rec r id)
    have same: "same_identity r ?r" by (simp add: same_identity_def)
    have sorted: "sort_dedup (rr_anomalies ?r) = rr_anomalies ?r"
      using r rec_of_anomalies by (auto dest: record_at_Some)
    let ?e = "\<lparr>re_record = ?r, re_labels = labels_at v rid, re_limits = limits_at v rid\<rparr>"
    let ?ev = "event_for ?r (labels_at v rid) LabelsChanged no_prior None"
    have ent: "entry_of u = (entry_of v)(rid \<mapsto> ?e)"
      using save_run_entry [OF u cur same sorted] by (simp add: id)
    have "entry_of u = (entry_of s)(rid \<mapsto> ?e)"
    proof
      fix x
      show "entry_of u x = ((entry_of s)(rid \<mapsto> ?e)) x"
        by (cases "entry_of s x") (simp_all add: ent labels_only_entry [OF only])
    qed
    then have "noted s ?e u"
      using ok okt same by (simp add: noted_def id entry_of_record [OF r])
    then have log: "logged s (?ev, ?e) u"
      by (simp add: logged_def id entry_of_record [OF r] lim describes_other [OF refl] no_prior_def)
    have lu: "labels_at u = labels_at v" "limits_at u = limits_at v"
      by (rule labels_at_cong limits_at_cong, rule save_run_tables [OF u])+
    have "ch = \<lparr>ch_events = ch_events no_changes @ [?ev], ch_entries = ch_entries no_changes @ [?e]\<rparr> \<and> t = u"
      using n by (simp add: note_change_eq [OF okt] lu id)
    then show ?thesis
      using grows_one [OF log] save_run_record [OF u cur same sorted] r by (simp add: rec id)
  qed
  then show "grows (no_changes, s) (ch, t)" and "record_at t = record_at s \<or> (\<exists>r. record_at s rid = Some r
           \<and> record_at t = (record_at s)(rid \<mapsto> r\<lparr>rr_updated := at\<rparr>))"
    by simp_all
qed

section \<open>Operations on an owner and its descendants\<close>

definition owner_run :: "db \<Rightarrow> string \<Rightarrow> run_record option" where
  "owner_run s n = (case open_process_run s n of Inr r \<Rightarrow> r | Inl _ \<Rightarrow> None)"

lemma owner_run_eq: "db_ok s \<Longrightarrow> open_process_run s n = Inr (owner_run s n)"
  using open_process_run_eq [of s n] by (auto simp: owner_run_def)

lemma owner_run_iff:
  "db_ok s \<Longrightarrow> owner_run s n = Some r \<longleftrightarrow>
     record_at s (rr_id r) = Some r \<and> rr_owner r \<and> \<not> is_ended r \<and> rr_instance r = Some n"
proof -
  assume "db_ok s"
  from open_process_run_eq [OF this, of n] obtain res where res: "open_process_run s n = Inr res"
    "\<forall>r. res = Some r \<longleftrightarrow> record_at s (rr_id r) = Some r \<and> rr_owner r \<and> \<not> is_ended r \<and> rr_instance r = Some n"
    by blast
  have "owner_run s n = res" by (simp add: owner_run_def res(1))
  then show ?thesis using res(2) by blast
qed

text \<open>An owner moved with its cascade, as one relation.\<close>

definition owner_moved :: "db \<Rightarrow> run_record \<Rightarrow> run_status \<Rightarrow> anomaly list \<Rightarrow> string option \<Rightarrow> bool
    \<Rightarrow> string \<Rightarrow> db \<Rightarrow> bool" where
  "owner_moved s run to anomalies cause stopped at t \<longleftrightarrow>
     record_at t = after_owner_move s run to (moved run to anomalies cause at) stopped at"

lemma project_transition_spec:
  assumes ok: "db_ok s" and go: "project_transition n new_state fate cause at s = Inr (ch, t)"
  shows "grows (no_changes, s) (ch, t)"
    and "case owner_run s n of None \<Rightarrow> t = s
      | Some run \<Rightarrow> (case project_plan run new_state fate cause of None \<Rightarrow> t = s
         | Some (status, anomalies, c) \<Rightarrow> owner_moved s run status anomalies c (new_state = Stopped) at t)"
proof -
  have "grows (no_changes, s) (ch, t) \<and> (case owner_run s n of None \<Rightarrow> t = s
      | Some run \<Rightarrow> (case project_plan run new_state fate cause of None \<Rightarrow> t = s
         | Some (status, anomalies, c) \<Rightarrow> owner_moved s run status anomalies c (new_state = Stopped) at t))"
  proof (cases "owner_run s n")
    case None
    then show ?thesis using go by (simp add: project_transition_def owner_run_eq [OF ok])
  next
    case (Some run)
    then have cur: "record_at s (rr_id run) = Some run" "rr_owner run"
      by (simp_all add: owner_run_iff [OF ok])
    show ?thesis
    proof (cases "project_plan run new_state fate cause")
      case None
      then show ?thesis using go Some by (simp add: project_transition_def owner_run_eq [OF ok])
    next
      case plan: (Some p)
      obtain status anomalies c where p: "p = (status, anomalies, c)" by (cases p)
      obtain res ch1 u where mv: "move_to run status anomalies c at (no_changes, s) = Inr (res, ch1, u)"
          and cas: "cascade (rr_id run) (rr_status run) status (new_state = Stopped) at (ch1, u) = Inr (ch, t)"
        using go Some plan p by (auto simp: project_transition_def owner_run_eq [OF ok])
      from owner_move_spec [OF ok cur mv cas] Some plan p show ?thesis by (simp add: owner_moved_def)
    qed
  qed
  then show "grows (no_changes, s) (ch, t)" and "case owner_run s n of None \<Rightarrow> t = s
      | Some run \<Rightarrow> (case project_plan run new_state fate cause of None \<Rightarrow> t = s
         | Some (status, anomalies, c) \<Rightarrow> owner_moved s run status anomalies c (new_state = Stopped) at t)"
    by simp_all
qed

lemma end_replaced_spec:
  assumes ok: "db_ok s" and go: "end_replaced run at s = Inr (ch, t)"
  shows "grows (no_changes, s) (ch, t)"
    and "t = s \<or> (\<exists>old. owner_run s (su_instance run) = Some old \<and> rr_id old \<noteq> su_run run
           \<and> owner_moved s old Ended (rr_anomalies old) (Some ''replaced'') False at t)"
proof -
  have "grows (no_changes, s) (ch, t) \<and> (t = s \<or> (\<exists>old. owner_run s (su_instance run) = Some old
      \<and> rr_id old \<noteq> su_run run \<and> owner_moved s old Ended (rr_anomalies old) (Some ''replaced'') False at t))"
  proof (cases "owner_run s (su_instance run)")
    case None
    then show ?thesis using go by (simp add: end_replaced_def owner_run_eq [OF ok])
  next
    case (Some old)
    then have cur: "record_at s (rr_id old) = Some old" "rr_owner old"
      by (simp_all add: owner_run_iff [OF ok])
    show ?thesis
    proof (cases "rr_id old = su_run run")
      case True
      then show ?thesis using go Some by (simp add: end_replaced_def owner_run_eq [OF ok])
    next
      case False
      obtain res ch1 u where mv: "move_to old Ended (rr_anomalies old) (Some ''replaced'') at (no_changes, s)
            = Inr (res, ch1, u)"
          and cas: "cascade (rr_id old) (rr_status old) Ended False at (ch1, u) = Inr (ch, t)"
        using go Some False by (auto simp: end_replaced_def owner_run_eq [OF ok])
      from owner_move_spec [OF ok cur mv cas] Some False show ?thesis by (simp add: owner_moved_def)
    qed
  qed
  then show "grows (no_changes, s) (ch, t)" and "t = s \<or> (\<exists>old. owner_run s (su_instance run) = Some old
      \<and> rr_id old \<noteq> su_run run \<and> owner_moved s old Ended (rr_anomalies old) (Some ''replaced'') False at t)"
    by simp_all
qed

lemma end_owner_spec:
  assumes ok: "db_ok s" and cur: "record_at s (rr_id r) = Some r" "rr_owner r"
    and go: "end_owner at r (ch, s) = Inr (ch', t)"
  shows "grows (ch, s) (ch', t)"
    and "owner_moved s r Ended (rr_anomalies r) (Some ''relaunch-not-run'') False at t"
proof -
  obtain res ch1 u where mv: "move_to r Ended (rr_anomalies r) (Some ''relaunch-not-run'') at (ch, s)
        = Inr (res, ch1, u)"
      and cas: "cascade (rr_id r) (rr_status r) Ended False at (ch1, u) = Inr (ch', t)"
    using go by (auto simp: end_owner_def)
  from owner_move_spec [OF ok cur mv cas]
  show "grows (ch, s) (ch', t)"
    and "owner_moved s r Ended (rr_anomalies r) (Some ''relaunch-not-run'') False at t"
    by (simp_all add: owner_moved_def)
qed

text \<open>Owners other than the one moved are untouched.\<close>

lemma owner_moved_other:
  assumes "owner_moved s r to as cause stopped at t" and "record_at s x = Some c" and "rr_owner c" "x \<noteq> rr_id r"
  shows "record_at t x = Some c"
  using assms by (simp add: owner_moved_def after_owner_move_def in_process_child_def)

lemma end_owners_spec:
  assumes "rfold (end_owner at) rs (ch, s) = Inr (ch', t)" and "db_ok s"
    and "\<forall>r\<in>set rs. record_at s (rr_id r) = Some r \<and> rr_owner r \<and> \<not> is_ended r \<and> rr_instance r \<noteq> None"
    and "distinct (map rr_id rs)"
    and "\<And>u v r. I u \<Longrightarrow> db_ok u \<Longrightarrow> record_at u (rr_id r) = Some r \<Longrightarrow> rr_owner r \<Longrightarrow>
        \<not> is_ended r \<Longrightarrow> rr_instance r \<noteq> None \<Longrightarrow> owner_moved u r Ended (rr_anomalies r) (Some ''relaunch-not-run'') False at v \<Longrightarrow> db_ok v \<Longrightarrow> I v"
    and "I s"
  shows "grows (ch, s) (ch', t) \<and> I t"
  using assms
proof (induction rs arbitrary: ch s)
  case (Cons r rs)
  obtain ch1 u where u: "end_owner at r (ch, s) = Inr (ch1, u)" "rfold (end_owner at) rs (ch1, u) = Inr (ch', t)"
    using Cons.prems(1) by auto
  have r: "record_at s (rr_id r) = Some r" "rr_owner r" "\<not> is_ended r" "rr_instance r \<noteq> None"
    using Cons.prems(3) by simp_all
  note e = end_owner_spec [OF Cons.prems(2) r(1,2) u(1)]
  have oku: "db_ok u" using grows_db_ok [OF e(1)] Cons.prems(2) by simp
  have "\<forall>x\<in>set rs. record_at u (rr_id x) = Some x \<and> rr_owner x \<and> \<not> is_ended x \<and> rr_instance x \<noteq> None"
  proof
    fix x assume x: "x \<in> set rs"
    then have "rr_id x \<noteq> rr_id r" using Cons.prems(4) by (metis distinct.simps(2) image_eqI list.set_map list.simps(9))
    with x Cons.prems(3) show "record_at u (rr_id x) = Some x \<and> rr_owner x \<and> \<not> is_ended x
        \<and> rr_instance x \<noteq> None"
      using owner_moved_other [OF e(2), of "rr_id x" x] by simp
  qed
  moreover have "I u" by (rule Cons.prems(5) [OF Cons.prems(6,2) r e(2) oku])
  ultimately have "grows (ch1, u) (ch', t) \<and> I t"
    using Cons.prems(4,5) by (intro Cons.IH [OF u(2) oku]) simp_all
  then show ?case using grows_trans [OF e(1)] by blast
qed simp

lemma end_runs_spec:
  assumes ok: "db_ok s" and go: "end_runs_without_a_process at s = Inr (ch, t)"
    and I: "\<And>u v r. I u \<Longrightarrow> db_ok u \<Longrightarrow> record_at u (rr_id r) = Some r \<Longrightarrow> rr_owner r \<Longrightarrow>
        \<not> is_ended r \<Longrightarrow> rr_instance r \<noteq> None \<Longrightarrow> owner_moved u r Ended (rr_anomalies r) (Some ''relaunch-not-run'') False at v \<Longrightarrow> db_ok v \<Longrightarrow> I v"
    and Is: "I s"
  shows "grows (no_changes, s) (ch, t) \<and> I t"
proof -
  obtain rs where q: "open_owners_without_a_process s = Inr rs" and f: "rfold (end_owner at) rs (no_changes, s) = Inr (ch, t)"
    using go by (auto simp: end_runs_without_a_process_def)
  note w = records_where_sorted [OF ok q [unfolded open_owners_without_a_process_def]]
  have "\<forall>r\<in>set rs. rr_owner r \<and> \<not> is_ended r \<and> rr_instance r \<noteq> None"
    unfolding w(3) using db_ok_text [OF ok]
    by (auto simp: is_ended_rec text_ok_rows joined_name_def split: option.splits)
  then have "\<forall>r\<in>set rs. record_at s (rr_id r) = Some r \<and> rr_owner r \<and> \<not> is_ended r \<and> rr_instance r \<noteq> None"
    using w(2) by blast
  from end_owners_spec [where I = I, OF f ok this w(1)] I Is show ?thesis by blast
qed

section \<open>Creating and reopening\<close>

lemma insert_note_grows:
  assumes ok: "db_ok s" and ins: "insert_run run s = Inr u" and r: "nr_record run = r" "rr_anomalies r = []"
    and noting: "note_change r Created prior cause (ch, u) = Inr (ch', t)"
  shows "grows (ch, s) (ch', t)" and "t = u" and "record_at t = (record_at s)(rr_id r \<mapsto> r)"
    and "record_at s (rr_id r) = None"
    and "entry_of t = (entry_of s)(rr_id r \<mapsto> inserted_entry run)"
proof -
  have oku: "db_ok u" by (rule insert_run_db_ok [OF ok ins])
  have fresh: "entry_of s (rr_id r) = None" and ent: "entry_of u = (entry_of s)(rr_id r \<mapsto> inserted_entry run)"
    using insert_run_entry [OF ok ins] r by simp_all
  have r': "re_record (inserted_entry run) = r"
    using r by (cases r) (simp add: inserted_entry_def sort_dedup_def)
  then have rec: "record_at u = (record_at s)(rr_id r \<mapsto> r)"
    by (auto simp: record_at_entry ent fun_eq_iff)
  have e: "inserted_entry run = \<lparr>re_record = r, re_labels = labels_at u (rr_id r), re_limits = limits_at u (rr_id r)\<rparr>"
    using entry_of_record [of u "rr_id r" r] by (simp add: rec ent)
  let ?ev = "event_for r (labels_at u (rr_id r)) Created prior cause"
  have "noted s (inserted_entry run) u" using ok oku ent fresh by (simp add: noted_def r')
  then have log: "logged s (?ev, inserted_entry run) u"
    using fresh by (simp add: logged_def r') (simp add: describes_def event_for_def e Let_def)
  have ch': "ch' = \<lparr>ch_events = ch_events ch @ [?ev], ch_entries = ch_entries ch @ [inserted_entry run]\<rparr>"
    and t: "t = u"
    using noting by (auto simp: note_change_eq [OF oku] e)
  show "grows (ch, s) (ch', t)" unfolding t by (rule grows_one [OF log ch'])
  show "t = u" "record_at t = (record_at s)(rr_id r \<mapsto> r)"
      "entry_of t = (entry_of s)(rr_id r \<mapsto> inserted_entry run)"
    using rec ent by (simp_all add: t)
  show "record_at s (rr_id r) = None" using fresh by (simp add: record_at_entry)
qed

lemma reopen_spec:
  assumes ok: "db_ok s" and cur: "record_at s (rr_id r) = Some r"
    and go: "reopen r at (ch, s) = Inr (r', ch', t)"
  shows "grows (ch, s) (ch', t)" and "record_at t = (record_at s)(rr_id r \<mapsto> r')" and "same_identity r r'"
    and "r' = r \<and> \<not> is_ended r \<or> is_ended r \<and> rr_status r' = Active"
proof -
  have "grows (ch, s) (ch', t) \<and> record_at t = (record_at s)(rr_id r \<mapsto> r') \<and> same_identity r r'
    \<and> (r' = r \<and> \<not> is_ended r \<or> is_ended r \<and> rr_status r' = Active)"
  proof (cases "is_ended r")
    case False
    then show ?thesis using go cur by (auto simp: reopen_def fun_upd_idem)
  next
    case True
    let ?r = "r\<lparr>rr_status := Active, rr_end_cause := None, rr_ended := None, rr_updated := at\<rparr>"
    let ?prior = "no_prior\<lparr>pr_status := Some Ended\<rparr>"
    obtain u where u: "save_run ?r s = Inr u" "r' = ?r"
        "note_change ?r StatusChanged ?prior (Some ''relaunched'') (ch, u) = Inr (ch', t)"
      using go True by (auto simp: reopen_def Let_def)
    have "grows (ch, s) (ch', u) \<and> t = u \<and> record_at u = (record_at s)(rr_id ?r \<mapsto> ?r)"
    proof (rule save_note_grows [OF ok u(1) _ _ _ u(3)])
      show "record_at s (rr_id ?r) = Some r" using cur by simp
      show "same_identity r ?r" by (simp add: same_identity_def)
      show "sort_dedup (rr_anomalies ?r) = rr_anomalies ?r"
        using cur rec_of_anomalies by (auto dest: record_at_Some)
      show "describes (event_for ?r (labels_at s (rr_id ?r)) StatusChanged ?prior (Some ''relaunched''))
          (entry_of s (rr_id ?r))
          \<lparr>re_record = ?r, re_labels = labels_at s (rr_id ?r), re_limits = limits_at s (rr_id ?r)\<rparr>"
        using True by (simp add: entry_of_record [OF cur] describes_def event_for_def no_prior_def Let_def is_ended_def)
    qed
    then show ?thesis using True u(2) by (simp add: same_identity_def)
  qed
  then show "grows (ch, s) (ch', t)" and "record_at t = (record_at s)(rr_id r \<mapsto> r')" and "same_identity r r'"
    and "r' = r \<and> \<not> is_ended r \<or> is_ended r \<and> rr_status r' = Active" by simp_all
qed

text \<open>The two ways \<open>ensure_supervised\<close> ends, from the state its replacement left.\<close>

lemma ensure_supervised_spec:
  assumes ok: "db_ok s" and go: "ensure_supervised run at s = Inr (ch, t)"
  obtains ch0 u where "end_replaced run at s = Inr (ch0, u)" and "grows (no_changes, s) (ch, t)"
    and "db_ok u" and "db_ok t"
    and "(\<exists>r r'. record_at u (su_run run) = Some r \<and> \<not> su_fresh run \<and> same_identity r r'
            \<and> \<not> is_ended r' \<and> record_at t = (record_at u)(su_run run \<mapsto> r'))
       \<or> (record_at u (su_run run) = None
            \<and> record_at t = (record_at u)(su_run run \<mapsto> fresh_record run at))"
proof -
  obtain ch0 u where e: "end_replaced run at s = Inr (ch0, u)"
    using go by (auto simp: ensure_supervised_def split: prod.splits)
  have g0: "grows (no_changes, s) (ch0, u)" by (rule end_replaced_spec(1) [OF ok e])
  have oku: "db_ok u" using grows_db_ok [OF g0] ok by simp
  have "grows (no_changes, s) (ch, t) \<and> ((\<exists>r r'. record_at u (su_run run) = Some r \<and> \<not> su_fresh run
        \<and> same_identity r r' \<and> \<not> is_ended r' \<and> record_at t = (record_at u)(su_run run \<mapsto> r'))
       \<or> (record_at u (su_run run) = None \<and> record_at t = (record_at u)(su_run run \<mapsto> fresh_record run at)))"
  proof (cases "record_at u (su_run run) \<noteq> None \<and> \<not> su_fresh run")
    case True
    then obtain r where r: "record_at u (su_run run) = Some r" by auto
    note id = record_at_id [OF r]
    obtain r1 ch1 v1 ch2 v2 ch3 where
      a: "reopen r at (ch0, u) = Inr (r1, ch1, v1)" and
      b: "sync_depth r1 Supervised (su_wire run) at v1 = Inr (ch2, v2)" and
      c: "sync_bound_labels (su_run run) (su_labels run) at v2 = Inr (ch3, t)" and
      ch: "ch = changes_extend (changes_extend ch1 ch2) ch3"
      using go e True r by (auto simp: ensure_supervised_def run_record_of_eq db_ok_text [OF oku])
    note A = reopen_spec [OF oku _ a, unfolded id, OF r]
    have ok1: "db_ok v1" using grows_db_ok [OF A(1)] oku by simp
    have id1: "rr_id r1 = su_run run" using A(3) id by (simp add: same_identity_def)
    have cur1: "record_at v1 (rr_id r1) = Some r1" by (simp add: A(2) id1)
    note B = sync_depth_spec [OF ok1 cur1 b]
    have ok2: "db_ok v2" using grows_db_ok [OF B(1)] ok1 by simp
    obtain r2 where r2: "record_at v2 = (record_at v1)(su_run run \<mapsto> r2)" "same_identity r1 r2"
        "rr_status r2 = rr_status r1"
      using B(2) by (auto simp: id1)
    note C = sync_bound_labels_spec [OF ok2 c]
    obtain r3 where r3: "record_at t = (record_at v2)(su_run run \<mapsto> r3)" "same_identity r2 r3"
        "rr_status r3 = rr_status r2"
      using C(2) r2(1) by (auto simp: fun_upd_idem same_identity_def)
    have "grows (no_changes, s) (ch, t)"
      using grows_extend [OF grows_extend [OF grows_trans [OF g0 A(1)] B(1)] C(1)] by (simp add: ch)
    moreover have "same_identity r r3" using A(3) r2(2) r3(2) by (simp add: same_identity_def)
    moreover have "\<not> is_ended r3" using A(4) r2(3) r3(3) by (auto simp: is_ended_def)
    moreover have "record_at t = (record_at u)(su_run run \<mapsto> r3)" by (simp add: r3(1) r2(1) A(2))
    ultimately show ?thesis using r True by blast
  next
    case False
    let ?r = "fresh_record run at"
    let ?new = "\<lparr>nr_record = ?r, nr_labels = su_labels run, nr_limits = limits_default, nr_identity = None\<rparr>"
    obtain v where v: "insert_run ?new u = Inr v" "note_change ?r Created no_prior None (ch0, v) = Inr (ch, t)"
      using go e False by (auto simp: ensure_supervised_def run_record_of_eq db_ok_text [OF oku] Let_def)
    have "nr_record ?new = ?r" "rr_anomalies ?r = []" "rr_id ?r = su_run run" by (simp_all add: fresh_record_def)
    note I = insert_note_grows [OF oku v(1) this(1,2) v(2), unfolded this(3)]
    show ?thesis using grows_trans [OF g0 I(1)] I(3,4) by simp
  qed
  moreover from this have "db_ok t" using grows_db_ok [of "(no_changes, s)" "(ch, t)"] ok by simp
  ultimately show thesis using that [OF e _ oku] by blast
qed

lemma from_store_Inr: "from_store r = Inr x \<longleftrightarrow> r = Inr x"
  by (cases r) (simp_all add: from_store_def)

lemma close_run_spec:
  assumes ok: "db_ok s" and go: "close_run rid at s = Inr (ch, t)"
  shows "grows (no_changes, s) (ch, t)"
    and "\<exists>r. record_at s rid = Some r \<and> (is_ended r \<and> t = s \<and> ch = no_changes
      \<or> \<not> is_ended r \<and> \<not> rr_owner r
        \<and> record_at t = (record_at s)(rid \<mapsto> moved r Ended (rr_anomalies r) (Some ''closed'') at))"
proof -
  obtain r where r: "record_at s rid = Some r"
    using go by (cases "record_at s rid") (simp_all add: close_run_def run_record_of_eq db_ok_text [OF ok] from_store_def)
  note id = record_at_id [OF r]
  have "grows (no_changes, s) (ch, t) \<and> (is_ended r \<and> t = s \<and> ch = no_changes
      \<or> \<not> is_ended r \<and> \<not> rr_owner r
        \<and> record_at t = (record_at s)(rid \<mapsto> moved r Ended (rr_anomalies r) (Some ''closed'') at))"
  proof (cases "is_ended r")
    case True
    then show ?thesis using go r by (simp add: close_run_def run_record_of_eq db_ok_text [OF ok] from_store_def)
  next
    case False
    then have "\<not> rr_owner r"
      using go r by (auto simp: close_run_def run_record_of_eq db_ok_text [OF ok] from_store_def split: if_splits)
    moreover have "rbind (move_to r Ended (rr_anomalies r) (Some ''closed'') at (no_changes, s)) (\<lambda>(_, st). Inr st)
        = Inr (ch, t)"
      using go r False calculation
      by (auto simp: close_run_def run_record_of_eq db_ok_text [OF ok] from_store_Inr from_store_def [of "Inr _"]
          split: prod.splits)
    from move_to_growsE [OF this ok] have "grows (no_changes, s) (ch, t)"
      "record_at t = (record_at s)(rid \<mapsto> moved r Ended (rr_anomalies r) (Some ''closed'') at)"
      using r id by simp_all
    ultimately show ?thesis using False by simp
  qed
  then show "grows (no_changes, s) (ch, t)" and "\<exists>r. record_at s rid = Some r \<and> (is_ended r \<and> t = s \<and> ch = no_changes
      \<or> \<not> is_ended r \<and> \<not> rr_owner r
        \<and> record_at t = (record_at s)(rid \<mapsto> moved r Ended (rr_anomalies r) (Some ''closed'') at))"
    using r by auto
qed

end
