(* ===== verification/Run_Tree.thy ===== *)
theory Run_Tree
  imports Run_Ops_Growth
begin

text \<open>
  The tree of Runs and the reachable states: a database and its published snapshot, started with no Run
  and moved by the operations of the engine. In every reachable state the snapshot mirrors the store, an
  instance has at most one open process-owning Run, no Run is more than eight levels deep, and no open
  Run hangs under an ended process owner.
\<close>

section \<open>The tree invariant\<close>

definition par_of :: "(run_id \<Rightarrow> run_record option) \<Rightarrow> run_id \<Rightarrow> run_id option" where
  "par_of rec x = Option.bind (rec x) rr_parent"

lemma parent_of_par_of: "parent_of s = par_of (record_at s)"
  by (simp add: parent_of_def par_of_def fun_eq_iff)

text \<open>The Run \<open>x\<close> sits \<open>n\<close> levels below the process owner \<open>R\<close>.\<close>

definition rooted :: "(run_id \<Rightarrow> run_record option) \<Rightarrow> run_id \<Rightarrow> nat \<Rightarrow> run_record \<Rightarrow> bool" where
  "rooted rec x n R \<longleftrightarrow> anc (par_of rec) n x = Some (rr_id R) \<and> rec (rr_id R) = Some R
     \<and> rr_parent R = None \<and> rr_owner R"

definition tree_ok :: "(run_id \<Rightarrow> run_record option) \<Rightarrow> bool" where
  "tree_ok rec \<longleftrightarrow> (\<forall>x r. rec x = Some r \<longrightarrow>
     (\<exists>n R. n < max_run_nesting \<and> rooted rec x n R \<and> rr_instance R = rr_instance r
        \<and> (rr_owner r \<longrightarrow> n = 0) \<and> (\<not> is_ended r \<longrightarrow> \<not> is_ended R)))"

lemma tree_okD:
  assumes "tree_ok rec" and "rec x = Some r"
  obtains n R where "n < max_run_nesting" "rooted rec x n R" "rr_instance R = rr_instance r"
    "rr_owner r \<Longrightarrow> n = 0" "\<not> is_ended r \<Longrightarrow> \<not> is_ended R"
  using assms unfolding tree_ok_def by blast

lemma rooted_unique: "rooted rec x m R \<Longrightarrow> rooted rec x n S \<Longrightarrow> m = n \<and> R = S"
proof (induction m arbitrary: x n)
  case 0
  then have "par_of rec x = None" by (auto simp: rooted_def par_of_def)
  with 0 show ?case by (cases n) (auto simp: rooted_def)
next
  case (Suc m)
  then obtain y where y: "par_of rec x = Some y" "rooted rec y m R" by (auto simp: rooted_def bind_eq_Some_conv)
  have "n \<noteq> 0" using y(1) Suc.prems(2) by (intro notI) (auto simp: rooted_def par_of_def)
  then obtain k where n: "n = Suc k" by (cases n) auto
  with Suc.prems(2) y(1) have "rooted rec y k S" by (simp add: rooted_def)
  with Suc.IH y(2) n show ?case by blast
qed

lemma tree_ok_empty: "tree_ok (\<lambda>_. None)"
  by (simp add: tree_ok_def)

text \<open>Records change, the tree does not.\<close>

definition same_tree :: "(run_id \<Rightarrow> run_record option) \<Rightarrow> (run_id \<Rightarrow> run_record option) \<Rightarrow> bool" where
  "same_tree rec rec' \<longleftrightarrow> (\<forall>x. rel_option same_identity (rec x) (rec' x))"

lemma same_tree_par: "same_tree rec rec' \<Longrightarrow> par_of rec' = par_of rec"
proof
  fix x
  assume "same_tree rec rec'"
  then have "rel_option same_identity (rec x) (rec' x)" by (simp add: same_tree_def)
  then show "par_of rec' x = par_of rec x"
    by (cases "rec x"; cases "rec' x") (auto simp: par_of_def same_identity_def)
qed

text \<open>The tree survives when every owner that was open and still has an open descendant stays open.\<close>

lemma tree_ok_change:
  assumes ok: "tree_ok rec" and same: "same_tree rec rec'"
    and live: "\<And>x b a n R S. rec' x = Some b \<Longrightarrow> rec x = Some a \<Longrightarrow> \<not> rr_owner a \<Longrightarrow> \<not> is_ended b \<Longrightarrow>
        rooted rec x n R \<Longrightarrow> n < max_run_nesting \<Longrightarrow> rr_instance R = rr_instance a \<Longrightarrow>
        (\<not> is_ended a \<Longrightarrow> \<not> is_ended R) \<Longrightarrow> rec' (rr_id R) = Some S \<Longrightarrow> \<not> is_ended S"
  shows "tree_ok rec'"
  unfolding tree_ok_def
proof (intro allI impI)
  fix x b
  assume b: "rec' x = Some b"
  have rel: "rel_option same_identity (rec y) (rec' y)" for y using same by (simp add: same_tree_def)
  obtain a where a: "rec x = Some a" "same_identity a b" using rel [of x] b by (cases "rec x") auto
  obtain n R where n: "n < max_run_nesting" "rooted rec x n R" "rr_instance R = rr_instance a"
      "rr_owner a \<Longrightarrow> n = 0" "\<not> is_ended a \<Longrightarrow> \<not> is_ended R"
    using ok a(1) by (rule tree_okD) blast
  obtain S where S: "rec' (rr_id R) = Some S" "same_identity R S"
    using rel [of "rr_id R"] n(2) by (cases "rec' (rr_id R)") (auto simp: rooted_def)
  have "rooted rec' x n S"
    using n(2) S by (simp add: rooted_def same_tree_par [OF same] same_identity_def)
  moreover have "rr_owner b \<Longrightarrow> n = 0" using a(2) n(4) by (simp add: same_identity_def)
  moreover have "\<not> is_ended S" if "\<not> is_ended b"
  proof (cases "rr_owner a")
    case True
    then have "x = rr_id R" using n(2,4) by (simp add: rooted_def)
    then show ?thesis using S b that by simp
  next
    case False
    from live [OF b a(1) False that n(2,1,3,5) S(1)] show ?thesis .
  qed
  moreover have "rr_instance S = rr_instance b"
    using S(2) a(2) n(3) by (simp add: same_identity_def)
  ultimately show "\<exists>n R. n < max_run_nesting \<and> rooted rec' x n R \<and> rr_instance R = rr_instance b
        \<and> (rr_owner b \<longrightarrow> n = 0) \<and> (\<not> is_ended b \<longrightarrow> \<not> is_ended R)"
    using n(1) by blast
qed

text \<open>No child opens and no owner closes.\<close>

lemma tree_ok_mono:
  assumes ok: "tree_ok rec" and same: "same_tree rec rec'"
    and child: "\<And>x a b. rec x = Some a \<Longrightarrow> rec' x = Some b \<Longrightarrow> \<not> rr_owner a \<Longrightarrow> \<not> is_ended b \<Longrightarrow> \<not> is_ended a"
    and owner: "\<And>x a b. rec x = Some a \<Longrightarrow> rec' x = Some b \<Longrightarrow> rr_owner a \<Longrightarrow> \<not> is_ended a \<Longrightarrow> \<not> is_ended b"
  shows "tree_ok rec'"
proof (rule tree_ok_change [OF ok same])
  fix x b a n R S
  assume "rec' x = Some b" "rec x = Some a" "\<not> rr_owner a" "\<not> is_ended b" "rooted rec x n R"
    "\<not> is_ended a \<Longrightarrow> \<not> is_ended R" "rec' (rr_id R) = Some S"
  then show "\<not> is_ended S" using child [of x a b] owner [of "rr_id R" R S] by (auto simp: rooted_def)
qed

lemma same_tree_upd:
  "rec x = Some r \<Longrightarrow> same_identity r r' \<Longrightarrow> same_tree rec (rec(x \<mapsto> r'))"
  by (simp add: same_tree_def option.rel_refl)

lemma tree_ok_upd:
  assumes "tree_ok rec" and "rec x = Some r" and "same_identity r r'"
    and "\<not> rr_owner r \<Longrightarrow> \<not> is_ended r' \<Longrightarrow> \<not> is_ended r" and "rr_owner r \<Longrightarrow> \<not> is_ended r \<Longrightarrow> \<not> is_ended r'"
  shows "tree_ok (rec(x \<mapsto> r'))"
  using assms by (intro tree_ok_mono [OF assms(1) same_tree_upd]) (auto split: if_splits)

section \<open>A new Run\<close>

lemma anc_mono:
  "(\<And>z y. par z = Some y \<Longrightarrow> par' z = Some y) \<Longrightarrow> anc par n x = Some r \<Longrightarrow> anc par' n x = Some r"
  by (induction n arbitrary: x) (auto simp: bind_eq_Some_conv)

lemma rooted_insert:
  assumes "rec x = None" and "rooted rec y n R"
  shows "rooted (rec(x \<mapsto> r)) y n R"
proof -
  have "par_of (rec(x \<mapsto> r)) z = Some w" if "par_of rec z = Some w" for z w
    using that assms(1) by (auto simp: par_of_def bind_eq_Some_conv)
  then show ?thesis using assms anc_mono [of "par_of rec" "par_of (rec(x \<mapsto> r))"] by (auto simp: rooted_def)
qed

lemma tree_ok_insert:
  assumes ok: "tree_ok rec" and fresh: "rec x = None"
    and new: "\<exists>n R. n < max_run_nesting \<and> rooted (rec(x \<mapsto> r)) x n R \<and> rr_instance R = rr_instance r
        \<and> (rr_owner r \<longrightarrow> n = 0) \<and> (\<not> is_ended r \<longrightarrow> \<not> is_ended R)"
  shows "tree_ok (rec(x \<mapsto> r))"
  unfolding tree_ok_def
proof (intro allI impI)
  fix y c
  assume y: "(rec(x \<mapsto> r)) y = Some c"
  show "\<exists>n R. n < max_run_nesting \<and> rooted (rec(x \<mapsto> r)) y n R \<and> rr_instance R = rr_instance c
        \<and> (rr_owner c \<longrightarrow> n = 0) \<and> (\<not> is_ended c \<longrightarrow> \<not> is_ended R)"
  proof (cases "y = x")
    case True
    then show ?thesis using new y by simp
  next
    case False
    then have "rec y = Some c" using y by simp
    with ok obtain n R where "n < max_run_nesting" "rooted rec y n R" "rr_instance R = rr_instance c"
      "rr_owner c \<longrightarrow> n = 0" "\<not> is_ended c \<longrightarrow> \<not> is_ended R"
      unfolding tree_ok_def by blast
    then show ?thesis using rooted_insert [of rec x, OF fresh] by blast
  qed
qed

lemma tree_ok_insert_owner:
  assumes "tree_ok rec" and "rec x = None" and "rr_id r = x" and "rr_owner r" and "rr_parent r = None"
  shows "tree_ok (rec(x \<mapsto> r))"
  using assms by (intro tree_ok_insert exI [of _ 0] exI [of _ r]) (auto simp: rooted_def max_run_nesting_def)

lemma tree_ok_insert_child:
  assumes ok: "tree_ok rec" and fresh: "rec x = None" and p: "rec (rr_id p) = Some p"
    and r: "rr_id r = x" "rr_parent r = Some (rr_id p)" "rr_instance r = rr_instance p" "\<not> rr_owner r"
    and live: "\<not> is_ended p" and deep: "\<And>n R. rooted rec (rr_id p) n R \<Longrightarrow> n < max_run_nesting \<Longrightarrow> Suc n < max_run_nesting"
  shows "tree_ok (rec(x \<mapsto> r))"
proof (rule tree_ok_insert [OF ok fresh])
  obtain n R where n: "rooted rec (rr_id p) n R" "rr_instance R = rr_instance p" "\<not> is_ended p \<Longrightarrow> \<not> is_ended R"
    "n < max_run_nesting"
    using ok p by (rule tree_okD) blast
  have "rooted (rec(x \<mapsto> r)) (rr_id p) n R" by (rule rooted_insert [OF fresh n(1)])
  then have "rooted (rec(x \<mapsto> r)) x (Suc n) R" by (simp add: rooted_def par_of_def r(2))
  then show "\<exists>n R. n < max_run_nesting \<and> rooted (rec(x \<mapsto> r)) x n R \<and> rr_instance R = rr_instance r
        \<and> (rr_owner r \<longrightarrow> n = 0) \<and> (\<not> is_ended r \<longrightarrow> \<not> is_ended R)"
    using deep [OF n(1,4)] n(2,3) live r(3,4) by (intro exI [of _ "Suc n"] exI [of _ R]) simp
qed

section \<open>Moving an owner\<close>

lemma cascaded_fields [simp]:
  "rr_id (cascaded to stopped at c) = rr_id c" "same_identity c (cascaded to stopped at c)"
  by (simp_all add: cascaded_def)

lemma cascaded_open: "to \<noteq> Ended \<Longrightarrow> \<not> is_ended c \<Longrightarrow> \<not> is_ended (cascaded to stopped at c)"
  by (auto simp: cascaded_def is_ended_def)

lemma cascaded_ended: "is_ended (cascaded Ended stopped at c)"
  by (auto simp: cascaded_def is_ended_def)

lemma owner_moved_same_tree:
  assumes "record_at s (rr_id r) = Some r" and "owner_moved s r to as cause stopped at t"
  shows "same_tree (record_at s) (record_at t)"
  using assms
  by (auto simp: same_tree_def owner_moved_def after_owner_move_def option.rel_refl split: option.splits)

lemma owner_moved_tree:
  assumes ok: "db_ok s" and tree: "tree_ok (record_at s)" and cur: "record_at s (rr_id r) = Some r"
    and own: "rr_owner r" "\<not> is_ended r" "rr_instance r \<noteq> None"
    and mv: "owner_moved s r to as cause stopped at t"
  shows "tree_ok (record_at t)"
proof -
  note same = owner_moved_same_tree [OF cur mv]
  have t: "record_at t y = (if y = rr_id r then Some (moved r to as cause at)
      else (case record_at s y of None \<Rightarrow> None
            | Some c \<Rightarrow> Some (if rr_status r \<noteq> to \<and> in_process_child s (rr_id r) c
                             then cascaded to stopped at c else c)))" for y
    using mv by (simp add: owner_moved_def after_owner_move_def)
  show ?thesis
  proof (cases "to = Ended")
    case False
    show ?thesis
    proof (rule tree_ok_mono [OF tree same])
      fix x a b
      assume ab: "record_at s x = Some a" "record_at t x = Some b"
      show "\<not> rr_owner a \<Longrightarrow> \<not> is_ended b \<Longrightarrow> \<not> is_ended a"
        using ab own(1) cur by (auto simp: t in_process_child_def split: if_splits)
      show "rr_owner a \<Longrightarrow> \<not> is_ended a \<Longrightarrow> \<not> is_ended b"
        using ab False by (auto simp: t in_process_child_def is_ended_def split: if_splits)
    qed
  next
    case True
    have moves: "rr_status r \<noteq> to" using own(2) True by (simp add: is_ended_def)
    show ?thesis
    proof (rule tree_ok_change [OF tree same])
      fix x b a n R S
      assume b: "record_at t x = Some b" "record_at s x = Some a" and a: "\<not> rr_owner a" "\<not> is_ended b"
        and root: "rooted (record_at s) x n R" "n < max_run_nesting" "rr_instance R = rr_instance a"
          "\<not> is_ended a \<Longrightarrow> \<not> is_ended R"
        and S: "record_at t (rr_id R) = Some S"
      have x: "x \<noteq> rr_id r" using a(1) b(2) cur own(1) by auto
      have "b = (if in_process_child s (rr_id r) a then cascaded Ended stopped at a else a)"
        using b(1) [unfolded t] moves x b(2) True by (auto split: if_splits)
      then have same_a: "b = a" "\<not> in_process_child s (rr_id r) a"
        using a(2) cascaded_ended [of stopped at a] by (cases "in_process_child s (rr_id r) a"; simp)+
      show "\<not> is_ended S"
      proof (cases "rr_id R = rr_id r")
        case True
        then have R: "R = r" using root(1) cur unfolding rooted_def by (metis option.inject)
        have "n \<noteq> 0" using root(1) x R by (cases n) (simp_all add: rooted_def)
        moreover have "anc (parent_of s) n x = Some (rr_id r)"
          using root(1) R by (simp add: rooted_def parent_of_par_of)
        ultimately have "x \<in> set (tree_ids s (rr_id r))"
          using root(2) unfolding tree_ids_anc [OF ok] max_run_nesting_def by (intro exI [of _ n]) simp
        then have "in_process_child s (rr_id r) a"
          using a same_a(1) root(3) R cur own(3) record_at_id [OF b(2)] by (simp add: in_process_child_def)
        then show ?thesis using same_a(2) by simp
      next
        case False
        have "S = R"
          using S False root(1) by (auto simp: t rooted_def in_process_child_def)
        then show ?thesis using root(4) a(2) same_a(1) by simp
      qed
    qed
  qed
qed

section \<open>The depth of the chain\<close>

lemma chain_loop_total:
  "text_ok s \<Longrightarrow> \<exists>cs. chain_loop k s next = Inr cs"
proof (induction k arbitrary: "next")
  case (Suc k)
  show ?case
  proof (cases "next")
    case (Some x)
    show ?thesis
    proof (cases "record_at s x")
      case (Some r)
      obtain cs where "chain_loop k s (rr_parent r) = Inr cs" using Suc by blast
      with Some \<open>next = Some x\<close> Suc.prems show ?thesis by (simp add: run_record_of_eq)
    qed (use Some Suc.prems in \<open>simp add: run_record_of_eq\<close>)
  qed simp
qed simp

lemma chain_loop_length:
  "text_ok s \<Longrightarrow> rooted (record_at s) x n R \<Longrightarrow> \<exists>cs. chain_loop k s (Some x) = Inr cs \<and> length cs = min k (Suc n)"
proof (induction n arbitrary: x k)
  case 0
  then have x: "record_at s x = Some R" "rr_parent R = None" by (simp_all add: rooted_def)
  show ?case
  proof (cases k)
    case (Suc m)
    have "chain_loop m s None = Inr []" by (cases m) simp_all
    then show ?thesis using Suc x 0 by (simp add: run_record_of_eq)
  qed simp
next
  case (Suc n)
  then obtain r p where r: "record_at s x = Some r" "rr_parent r = Some p" and p: "rooted (record_at s) p n R"
    by (auto simp: rooted_def par_of_def bind_eq_Some_conv)
  show ?case
  proof (cases k)
    case (Suc m)
    from Suc.IH [OF Suc.prems(1) p, of m] obtain cs where "chain_loop m s (Some p) = Inr cs"
      "length cs = min m (Suc n)" by blast
    then show ?thesis using Suc r Suc.prems(1) by (simp add: run_record_of_eq)
  qed simp
qed

lemma run_chain_length:
  assumes "text_ok s" and "rooted (record_at s) x n R" and "n < max_run_nesting"
  shows "\<exists>cs. run_chain s x = Inr cs \<and> length cs = Suc n"
  using chain_loop_length [OF assms(1,2), of "2 * max_run_nesting"] assms(3)
  by (simp add: run_chain_def max_run_nesting_def min_def)

end
