(* ===== verification/Outbox.thy ===== *)
theory Outbox
  imports Database
begin

text \<open>
  The engine-global outbox (\<open>store/run_store_sqlite.rs\<close>: \<open>append_outbox\<close>, \<open>outbox_page\<close>,
  \<open>outbox_bounds\<close>, \<open>set_outbox_ack\<close>; \<open>domain/outbox.rs\<close>: the export and the acknowledgement). Every
  committed event is a row under one increasing sequence; a byte cap evicts the acknowledged prefix
  first, then the oldest unacknowledged rows, never the last one. Events are the JSON text the store
  keeps; its decoder is a parameter.
\<close>

section \<open>Appending\<close>

record outbox_append =
  oa_seq :: u64
  oa_dropped_acked :: nat
  oa_dropped_unacked :: nat

definition log_rotate_max_bytes :: int where
  "log_rotate_max_bytes = 10 * 1024 * 1024"

definition log_rotate_generations :: int where
  "log_rotate_generations = 3"

definition outbox_max_bytes :: int where
  "outbox_max_bytes = log_rotate_max_bytes * log_rotate_generations"

text \<open>\<open>x.max(0) as u64\<close> of an i64 column.\<close>

definition seq_u64 :: "int \<Rightarrow> u64" where
  "seq_u64 x = word_of_int (max x 0)"

text \<open>\<open>clamp_tokens\<close>: an u64 as an i64 parameter.\<close>

definition clamp_tokens :: "u64 \<Rightarrow> int" where
  "clamp_tokens v = min (uint v) (2 ^ 63 - 1)"

definition evict_outbox_through :: "int \<Rightarrow> db \<Rightarrow> db" where
  "evict_outbox_through t s =
     (let freed = sum_list (map ob_bytes (filter (\<lambda>r. ob_seq r \<le> t) (db_outbox s)))
      in s\<lparr>db_outbox := filter (\<lambda>r. \<not> ob_seq r \<le> t) (db_outbox s),
           db_outbox_bytes := max (db_outbox_bytes s - freed) 0\<rparr>)"

text \<open>The scan over the rows below the last one: the counters and \<open>through\<close>.\<close>

fun evict_scan :: "int option \<Rightarrow> int \<Rightarrow> outbox_row list \<Rightarrow> nat \<times> nat \<times> int option \<Rightarrow> nat \<times> nat \<times> int option" where
  "evict_scan ack need [] acc = acc"
| "evict_scan ack need (r # rows) (acked, unacked, through) =
     (let need' = max (need - max (ob_bytes r) 0) 0
      in if (case ack of Some a \<Rightarrow> ob_seq r \<le> a | None \<Rightarrow> False) then
           evict_scan ack need' rows (acked + 1, unacked, Some (ob_seq r))
         else if need > 0 then evict_scan ack need' rows (acked, unacked + 1, Some (ob_seq r))
         else (acked, unacked, through))"

definition last_seq :: "db \<Rightarrow> int" where
  "last_seq s = (if db_outbox s = [] then 0 else Max (ob_seq ` set (db_outbox s)))"

definition make_room :: "int \<Rightarrow> int \<Rightarrow> db \<Rightarrow> nat \<times> nat \<times> db" where
  "make_room incoming cap s =
     (let total = max (db_outbox_bytes s) 0
      in if total + incoming > cap then
           (let rows = sort_key ob_seq (filter (\<lambda>r. ob_seq r < last_seq s) (db_outbox s));
                (acked, unacked, through) = evict_scan (db_outbox_ack s) (total + incoming - cap) rows (0, 0, None)
            in (acked, unacked, case through of None \<Rightarrow> s | Some t \<Rightarrow> evict_outbox_through t s))
         else (0, 0, s))"

text \<open>The insert takes the next AUTOINCREMENT id; SQLite refuses it past the largest one.\<close>

definition append_outbox :: "string \<Rightarrow> int \<Rightarrow> db \<Rightarrow> store_error + (outbox_append \<times> db)" where
  "append_outbox json cap s =
     (let incoming = int (length json);
          (acked, unacked, s1) = make_room incoming cap s;
          seq = db_outbox_seq s1 + 1
      in if seq \<ge> 2 ^ 63 then Inl (Backend (Text ''database or disk is full''))
         else Inr (\<lparr>oa_seq = seq_u64 seq, oa_dropped_acked = acked, oa_dropped_unacked = unacked\<rparr>,
                   s1\<lparr>db_outbox := db_outbox s1 @ [\<lparr>ob_seq = seq, ob_event = json, ob_bytes = incoming\<rparr>],
                      db_outbox_seq := seq, db_outbox_bytes := db_outbox_bytes s1 + incoming\<rparr>))"

section \<open>Reading\<close>

record 'e outbox_entry =
  oe_schema :: nat
  oe_seq :: u64
  oe_event :: 'e

record 'a page =
  pg_items :: "'a list"
  pg_next :: "int option"

definition page_from_rows :: "(int \<times> 'a) list \<Rightarrow> nat \<Rightarrow> 'a page" where
  "page_from_rows rows limit =
     \<lparr>pg_items = map snd rows,
      pg_next = (if length rows = limit \<and> rows \<noteq> [] then Some (fst (last rows)) else None)\<rparr>"

definition outbox_schema_version :: nat where
  "outbox_schema_version = 1"

definition outbox_page ::
  "(string \<Rightarrow> 'e option) \<Rightarrow> u64 \<Rightarrow> nat \<Rightarrow> db \<Rightarrow> store_error + 'e outbox_entry page" where
  "outbox_page decode after limit0 s =
     (let limit = max limit0 1;
          rows = take limit (sort_key ob_seq (filter (\<lambda>r. clamp_tokens after < ob_seq r) (db_outbox s)))
      in rbind (rmap (\<lambda>r. case decode (ob_event r) of
                  None \<Rightarrow> Inl (Backend (Text ''corrupt stored outbox event''))
                | Some e \<Rightarrow> Inr (ob_seq r, \<lparr>oe_schema = outbox_schema_version, oe_seq = seq_u64 (ob_seq r),
                                            oe_event = e\<rparr>)) rows) (\<lambda>items.
         Inr (page_from_rows items limit)))"

record outbox_bounds =
  ob_retained_from :: u64
  ob_tail :: u64
  ob_ack :: "u64 option"

definition read_bounds :: "db \<Rightarrow> outbox_bounds" where
  "read_bounds s =
     \<lparr>ob_retained_from = (if db_outbox s = [] then 1 else seq_u64 (Min (ob_seq ` set (db_outbox s)))),
      ob_tail = (if db_outbox s = [] then 0 else seq_u64 (Max (ob_seq ` set (db_outbox s)))),
      ob_ack = map_option seq_u64 (db_outbox_ack s)\<rparr>"

definition set_outbox_ack :: "u64 \<Rightarrow> db \<Rightarrow> db" where
  "set_outbox_ack seq s = s\<lparr>db_outbox_ack := Some (clamp_tokens seq)\<rparr>"

section \<open>Export and acknowledgement\<close>

datatype outbox_refusal = BelowFloor u64 u64 | PastTail u64 u64 string
datatype outbox_error = OutboxStore store_error | OutboxRefused outbox_refusal

record 'e journal_view =
  jv_entries :: "'e outbox_entry list"
  jv_torn :: bool
  jv_blank :: nat
  jv_retained_from :: u64
  jv_tail :: u64

record 'e export_batch =
  eb_schema :: nat
  eb_events :: "'e outbox_entry list"
  eb_cursor :: u64
  eb_torn :: bool
  eb_blank :: nat
  eb_retained_from :: u64

definition select_batch :: "'e journal_view \<Rightarrow> u64 \<Rightarrow> nat \<Rightarrow> outbox_refusal + 'e export_batch" where
  "select_batch view after limit =
     (if after > jv_tail view then Inl (PastTail after (jv_tail view) ''cursor'')
      else if after + 1 < jv_retained_from view then Inl (BelowFloor after (jv_retained_from view))
      else
        (let events = take limit (filter (\<lambda>e. after < oe_seq e) (jv_entries view))
         in Inr \<lparr>eb_schema = outbox_schema_version, eb_events = events,
                 eb_cursor = (if events = [] then after else oe_seq (last events)),
                 eb_torn = jv_torn view, eb_blank = jv_blank view,
                 eb_retained_from = jv_retained_from view\<rparr>))"

definition check_ack :: "u64 \<Rightarrow> u64 \<Rightarrow> outbox_refusal + unit" where
  "check_ack given tail = (if given > tail then Inl (PastTail given tail ''ack'') else Inr ())"

definition export_batch_default_max :: nat where
  "export_batch_default_max = 500"

definition export_batch_max_cap :: nat where
  "export_batch_max_cap = 10000"

definition export_limit :: "nat \<Rightarrow> nat" where
  "export_limit m = (if m = 0 then export_batch_default_max else min m export_batch_max_cap)"

text \<open>The bounds and the page come from one read snapshot: the state \<open>s\<close>.\<close>

definition export_core ::
  "(string \<Rightarrow> 'e option) \<Rightarrow> u64 option \<Rightarrow> nat \<Rightarrow> db \<Rightarrow> outbox_error + 'e export_batch" where
  "export_core decode after max0 s =
     (let limit = export_limit max0; bounds = read_bounds s;
          from = (case after of Some c \<Rightarrow> c | None \<Rightarrow> (case ob_ack bounds of Some a \<Rightarrow> a | None \<Rightarrow> 0))
      in case outbox_page decode from limit s of
           Inl e \<Rightarrow> Inl (OutboxStore e)
         | Inr page \<Rightarrow>
             (case select_batch \<lparr>jv_entries = pg_items page, jv_torn = False, jv_blank = 0,
                       jv_retained_from = ob_retained_from bounds, jv_tail = ob_tail bounds\<rparr> from limit of
                Inl r \<Rightarrow> Inl (OutboxRefused r)
              | Inr b \<Rightarrow> Inr b))"

definition ack_core :: "u64 \<Rightarrow> db \<Rightarrow> outbox_refusal + (u64 \<times> db)" where
  "ack_core given s =
     (let bounds = read_bounds s;
          current = (case ob_ack bounds of Some a \<Rightarrow> a | None \<Rightarrow> 0);
          target = max current given
      in case check_ack target (ob_tail bounds) of
           Inl r \<Rightarrow> Inl r
         | Inr _ \<Rightarrow> Inr (target, if target > current then set_outbox_ack target s else s))"

section \<open>The invariant\<close>

definition bytes_of :: "outbox_row list \<Rightarrow> int" where
  "bytes_of rows = sum_list (map ob_bytes rows)"

lemma bytes_of_simps [simp]:
  "bytes_of [] = 0" "bytes_of (r # rows) = ob_bytes r + bytes_of rows" "bytes_of (a @ b) = bytes_of a + bytes_of b"
  by (simp_all add: bytes_of_def)

definition acked :: "int option \<Rightarrow> outbox_row \<Rightarrow> bool" where
  "acked ack r \<longleftrightarrow> (case ack of Some a \<Rightarrow> ob_seq r \<le> a | None \<Rightarrow> False)"

definition outbox_ok :: "db \<Rightarrow> bool" where
  "outbox_ok s \<longleftrightarrow>
     (\<exists>k\<ge>1. map ob_seq (db_outbox s) = [k..db_outbox_seq s])
     \<and> (db_outbox s = [] \<longrightarrow> db_outbox_seq s = 0)
     \<and> (\<forall>r\<in>set (db_outbox s). ob_bytes r = int (length (ob_event r)))
     \<and> db_outbox_bytes s = bytes_of (db_outbox s)
     \<and> 0 \<le> db_outbox_seq s \<and> db_outbox_seq s < 2 ^ 63
     \<and> (\<forall>a. db_outbox_ack s = Some a \<longrightarrow> 0 \<le> a \<and> a \<le> db_outbox_seq s)"

lemma outbox_ok_empty: "outbox_ok (empty_db is)"
  by (auto simp: outbox_ok_def empty_db_def)

lemma upto_snoc: "i \<le> j \<Longrightarrow> [i..j] = [i..j - 1] @ [j::int]"
  by (rule upto_rec2)

lemma outbox_ok_split:
  assumes "outbox_ok s" and "db_outbox s \<noteq> []"
  obtains rows r k where "db_outbox s = rows @ [r]" "ob_seq r = db_outbox_seq s"
    "map ob_seq rows = [k..db_outbox_seq s - 1]" "1 \<le> k" "k \<le> db_outbox_seq s"
proof -
  obtain rows r where rows: "db_outbox s = rows @ [r]" using assms(2) by (metis rev_exhaust)
  obtain k where k: "1 \<le> k" "map ob_seq (db_outbox s) = [k..db_outbox_seq s]" using assms(1) by (auto simp: outbox_ok_def)
  then have "k \<le> db_outbox_seq s" using rows by (metis Nil_is_map_conv assms(2) upto_Nil2 not_le)
  then show thesis using that [OF rows] k rows upto_snoc [of k "db_outbox_seq s"] by simp
qed

lemma nonneg_bytes: "outbox_ok s \<Longrightarrow> r \<in> set (db_outbox s) \<Longrightarrow> 0 \<le> ob_bytes r"
  by (simp add: outbox_ok_def)

lemma bytes_of_nonneg: "(\<And>r. r \<in> set rows \<Longrightarrow> 0 \<le> ob_bytes r) \<Longrightarrow> 0 \<le> bytes_of rows"
  by (induction rows) simp_all

section \<open>What an append evicts\<close>

fun evicted :: "int option \<Rightarrow> int \<Rightarrow> outbox_row list \<Rightarrow> nat" where
  "evicted ack need [] = 0"
| "evicted ack need (r # rows) =
     (if acked ack r \<or> need > 0 then Suc (evicted ack (max (need - max (ob_bytes r) 0) 0) rows) else 0)"

lemma evicted_le: "evicted ack need rows \<le> length rows"
  by (induction ack need rows rule: evicted.induct) auto

lemma evict_scan_evicted:
  "evict_scan ack need rows (a, u, th) =
     (let gone = take (evicted ack need rows) rows
      in (a + length (filter (acked ack) gone), u + length (filter (\<lambda>r. \<not> acked ack r) gone),
          if gone = [] then th else Some (ob_seq (last gone))))"
proof (induction rows arbitrary: need a u th)
  case (Cons r rows)
  have "(case ack of Some x \<Rightarrow> ob_seq r \<le> x | None \<Rightarrow> False) = acked ack r" by (simp add: acked_def)
  then show ?case by (simp add: Cons.IH Let_def)
qed simp

lemma evicted_needed:
  "\<forall>r\<in>set rows. 0 \<le> ob_bytes r \<Longrightarrow> i < evicted ack need rows \<Longrightarrow> \<not> acked ack (rows ! i) \<Longrightarrow>
     bytes_of (take i rows) < need"
proof (induction rows arbitrary: need i)
  case (Cons r rows)
  show ?case
  proof (cases i)
    case 0
    then show ?thesis using Cons.prems by (simp split: if_splits)
  next
    case (Suc j)
    then have "bytes_of (take j rows) < max (need - max (ob_bytes r) 0) 0"
      using Cons.IH [of j] Cons.prems by (simp split: if_splits)
    moreover have "0 \<le> bytes_of (take j rows)"
      using Cons.prems(1) by (auto intro!: bytes_of_nonneg dest: in_set_takeD)
    ultimately show ?thesis using Suc Cons.prems(1) by (simp add: max_def split: if_splits)
  qed
qed simp

lemma evicted_stop:
  "\<forall>r\<in>set rows. 0 \<le> ob_bytes r \<Longrightarrow> evicted ack need rows < length rows \<Longrightarrow>
     need \<le> bytes_of (take (evicted ack need rows) rows)"
proof (induction rows arbitrary: need)
  case (Cons r rows)
  show ?case
  proof (cases "acked ack r \<or> need > 0")
    case True
    define m where "m = max (need - max (ob_bytes r) 0) 0"
    have "evicted ack need (r # rows) = Suc (evicted ack m rows)" using True by (simp add: m_def)
    moreover from this have "m \<le> bytes_of (take (evicted ack m rows) rows)"
      using Cons.IH [of m] Cons.prems by simp
    moreover have "need - ob_bytes r \<le> m" using Cons.prems(1) by (simp add: m_def)
    ultimately show ?thesis by simp
  qed (use Cons.prems in simp)
qed simp

lemma max_upto: "k \<le> (n::int) \<Longrightarrow> Max {k..n} = n"
  by (simp add: Max_eq_iff)

lemma last_seq_eq: "outbox_ok s \<Longrightarrow> last_seq s = db_outbox_seq s"
proof (cases "db_outbox s = []")
  case False
  assume ok: "outbox_ok s"
  then obtain k where k: "map ob_seq (db_outbox s) = [k..db_outbox_seq s]" by (auto simp: outbox_ok_def)
  then have "ob_seq ` set (db_outbox s) = {k..db_outbox_seq s}" by (metis list.set_map set_upto)
  moreover have "k \<le> db_outbox_seq s" using k False by (metis Nil_is_map_conv not_le upto_Nil2)
  ultimately show ?thesis using False by (simp add: last_seq_def max_upto)
qed (simp add: last_seq_def outbox_ok_def)

lemma sorted_upto_rows: "map ob_seq rows = [i..j] \<Longrightarrow> sort_key ob_seq rows = rows"
  by (rule sort_key_id_if_sorted) (metis sorted_upto)

lemma rows_below_last:
  assumes "outbox_ok s" and "db_outbox s = rows @ [r]"
  shows "sort_key ob_seq (filter (\<lambda>x. ob_seq x < last_seq s) (db_outbox s)) = rows"
proof -
  obtain rows' r' k where split: "db_outbox s = rows' @ [r']" "ob_seq r' = db_outbox_seq s"
      "map ob_seq rows' = [k..db_outbox_seq s - 1]"
    using outbox_ok_split [OF assms(1)] assms(2) by (metis Nil_is_append_conv not_Cons_self2)
  then have same: "rows' = rows" "r' = r" using assms(2) by simp_all
  have "ob_seq x < db_outbox_seq s" if "x \<in> set rows" for x
  proof -
    have "ob_seq x \<in> set (map ob_seq rows)" using that by simp
    then show ?thesis unfolding split(3) [unfolded same] by simp
  qed
  then have "filter (\<lambda>x. ob_seq x < last_seq s) (db_outbox s) = rows"
    using split(1,2) by (simp add: last_seq_eq [OF assms(1)] same filter_id_conv)
  then show ?thesis using sorted_upto_rows [of rows] split(3) by (simp add: same)
qed

lemma evict_through_take:
  assumes "map ob_seq (a @ b) = [i..j]" and "a \<noteq> []" and "db_outbox s = a @ b"
  shows "evict_outbox_through (ob_seq (last a)) s
      = s\<lparr>db_outbox := b, db_outbox_bytes := max (db_outbox_bytes s - bytes_of a) 0\<rparr>"
proof -
  have sorted: "sorted_wrt (<) (map ob_seq (a @ b))" unfolding assms(1) by (induction i j rule: upto.induct) (subst upto.simps, auto)
  obtain c z where a: "a = c @ [z]" using assms(2) by (metis rev_exhaust)
  have le: "ob_seq x \<le> ob_seq (last a)" if "x \<in> set a" for x
    using that sorted by (auto simp: a sorted_wrt_append)
  have gt: "ob_seq (last a) < ob_seq x" if "x \<in> set b" for x
    using sorted that last_in_set [OF assms(2)] by (auto simp: sorted_wrt_append)
  have "filter (\<lambda>r. ob_seq r \<le> ob_seq (last a)) (db_outbox s) = a"
      "filter (\<lambda>r. \<not> ob_seq r \<le> ob_seq (last a)) (db_outbox s) = b"
    using le gt by (force simp: assms(3) filter_id_conv filter_empty_conv not_le)+
  then show ?thesis by (simp add: evict_outbox_through_def Let_def bytes_of_def)
qed

lemma make_room_spec:
  assumes ok: "outbox_ok s" and room: "make_room incoming cap s = (a, u, s1)" and inc: "0 \<le> incoming"
  obtains gone kept where "db_outbox s = gone @ kept"
    and "s1 = s\<lparr>db_outbox := kept, db_outbox_bytes := bytes_of kept\<rparr>"
    and "kept = [] \<longleftrightarrow> db_outbox s = []"
    and "a = length (filter (acked (db_outbox_ack s)) gone)"
    and "u = length (filter (\<lambda>r. \<not> acked (db_outbox_ack s) r) gone)"
    and "gone \<noteq> [] \<longrightarrow> bytes_of (db_outbox s) + incoming > cap"
    and "\<forall>i < length gone. \<not> acked (db_outbox_ack s) (gone ! i) \<longrightarrow>
           bytes_of (drop i (db_outbox s)) + incoming > cap"
    and "1 < length kept \<longrightarrow> bytes_of kept + incoming \<le> cap"
proof -
  have total: "db_outbox_bytes s = bytes_of (db_outbox s)" using ok by (simp add: outbox_ok_def)
  have pos: "0 \<le> bytes_of (db_outbox s)" using nonneg_bytes [OF ok] by (rule bytes_of_nonneg)
  have same: "s\<lparr>db_outbox := db_outbox s, db_outbox_bytes := bytes_of (db_outbox s)\<rparr> = s"
    by (simp flip: total)
  show thesis
  proof (cases "bytes_of (db_outbox s) + incoming > cap \<and> db_outbox s \<noteq> []")
    case False
    then have "(a, u, s1) = (0, 0, s)"
    proof (cases "db_outbox s = []")
      case True
      then show ?thesis using room by (auto simp: make_room_def Let_def split: if_splits)
    next
      case nonempty: False
      then show ?thesis using room False pos by (simp add: make_room_def Let_def total)
    qed
    then show thesis using False same
      by (intro that [of "[]" "db_outbox s"]) (auto simp: not_less)
  next
    case True
    then obtain rows r k where split: "db_outbox s = rows @ [r]" "map ob_seq rows = [k..db_outbox_seq s - 1]"
      using outbox_ok_split [OF ok] by metis
    define need where "need = bytes_of (db_outbox s) + incoming - cap"
    define n where "n = evicted (db_outbox_ack s) need rows"
    have nonneg: "\<forall>x\<in>set rows. 0 \<le> ob_bytes x" using nonneg_bytes [OF ok] split(1) by simp
    let ?gone = "take n rows" and ?kept = "drop n rows @ [r]"
    have s1: "s1 = (if ?gone = [] then s else evict_outbox_through (ob_seq (last ?gone)) s)"
      and counts: "a = length (filter (acked (db_outbox_ack s)) ?gone)"
        "u = length (filter (\<lambda>r. \<not> acked (db_outbox_ack s) r) ?gone)"
      using room True pos
      by (auto simp: make_room_def Let_def total rows_below_last [OF ok split(1)] evict_scan_evicted
          simp flip: need_def n_def split: if_splits)
    have parts: "db_outbox s = ?gone @ ?kept" using split(1) by simp
    then have bytes: "bytes_of (db_outbox s) = bytes_of ?gone + bytes_of ?kept" by (metis bytes_of_simps(3))
    have kept_pos: "0 \<le> bytes_of ?kept"
      using nonneg_bytes [OF ok] by (intro bytes_of_nonneg) (auto simp: split(1) dest: in_set_dropD)
    show thesis
    proof (rule that [OF parts]; (intro allI impI)?)
      show "s1 = s\<lparr>db_outbox := ?kept, db_outbox_bytes := bytes_of ?kept\<rparr>"
      proof (cases "?gone = []")
        case True
        then have "?kept = db_outbox s" using parts by simp
        then show ?thesis using s1 True same by simp
      next
        case False
        obtain k' where "map ob_seq (?gone @ ?kept) = [k'..db_outbox_seq s]"
          using ok parts by (metis outbox_ok_def)
        from evict_through_take [OF this False parts] show ?thesis
          using s1 False bytes kept_pos by (simp add: total del: bytes_of_simps)
      qed
    next
      fix i
      assume i: "i < length ?gone" "\<not> acked (db_outbox_ack s) (?gone ! i)"
      have "bytes_of (take i rows) < need"
        by (rule evicted_needed [OF nonneg]) (use i in \<open>simp_all add: n_def [symmetric]\<close>)
      moreover have "db_outbox s = take i rows @ drop i (db_outbox s)"
        using i split(1) by (simp add: append_assoc [symmetric] del: append_assoc)
      then have "bytes_of (db_outbox s) = bytes_of (take i rows) + bytes_of (drop i (db_outbox s))"
        by (metis bytes_of_simps(3))
      ultimately show "bytes_of (drop i (db_outbox s)) + incoming > cap" by (simp add: need_def)
    next
      assume "1 < length ?kept"
      then have "n < length rows" by simp
      then have "need \<le> bytes_of (take n rows)" using evicted_stop [OF nonneg] by (simp add: n_def)
      then show "bytes_of ?kept + incoming \<le> cap" using bytes by (simp add: need_def del: bytes_of_simps)
    qed (use counts True split(1) in auto)
  qed
qed

lemma suffix_upto:
  "map ob_seq (gone @ kept) = [k..n] \<Longrightarrow> kept \<noteq> [] \<Longrightarrow> map ob_seq kept = [k + int (length gone)..n]"
proof (induction gone arbitrary: k)
  case (Cons r gone)
  then have "k \<le> n" by (metis Nil_is_map_conv append_Cons list.simps(3) not_le upto_Nil2)
  then have "map ob_seq (gone @ kept) = [k + 1..n]" using Cons.prems(1) upto_rec1 [of k n] by simp
  from Cons.IH [OF this Cons.prems(2)] show ?case by (simp add: algebra_simps)
qed simp

text \<open>An append, as one relation on the rows.\<close>

lemma append_outbox_spec:
  assumes ok: "outbox_ok s" and go: "append_outbox json cap s = Inr (app, t)"
  obtains gone kept where "db_outbox s = gone @ kept"
    and "db_outbox t = kept @ [\<lparr>ob_seq = db_outbox_seq s + 1, ob_event = json, ob_bytes = int (length json)\<rparr>]"
    and "t = s\<lparr>db_outbox := db_outbox t, db_outbox_seq := db_outbox_seq s + 1,
               db_outbox_bytes := bytes_of (db_outbox t)\<rparr>"
    and "kept = [] \<longleftrightarrow> db_outbox s = []"
    and "app = \<lparr>oa_seq = seq_u64 (db_outbox_seq s + 1),
           oa_dropped_acked = length (filter (acked (db_outbox_ack s)) gone),
           oa_dropped_unacked = length (filter (\<lambda>r. \<not> acked (db_outbox_ack s) r) gone)\<rparr>"
    and "\<forall>i < length gone. \<not> acked (db_outbox_ack s) (gone ! i) \<longrightarrow>
           bytes_of (drop i (db_outbox s)) + int (length json) > cap"
    and "1 < length kept \<longrightarrow> bytes_of (db_outbox t) \<le> cap"
    and "gone \<noteq> [] \<longrightarrow> bytes_of (db_outbox s) + int (length json) > cap"
    and "db_outbox_seq s + 1 < 2 ^ 63"
proof -
  obtain a u s1 where room: "make_room (int (length json)) cap s = (a, u, s1)" by (metis prod_cases3)
  obtain gone kept where parts: "db_outbox s = gone @ kept"
      "s1 = s\<lparr>db_outbox := kept, db_outbox_bytes := bytes_of kept\<rparr>" "kept = [] \<longleftrightarrow> db_outbox s = []"
      "a = length (filter (acked (db_outbox_ack s)) gone)"
      "u = length (filter (\<lambda>r. \<not> acked (db_outbox_ack s) r) gone)"
      "gone \<noteq> [] \<longrightarrow> bytes_of (db_outbox s) + int (length json) > cap"
      "\<forall>i < length gone. \<not> acked (db_outbox_ack s) (gone ! i) \<longrightarrow>
         bytes_of (drop i (db_outbox s)) + int (length json) > cap"
      "1 < length kept \<longrightarrow> bytes_of kept + int (length json) \<le> cap"
    using make_room_spec [OF ok room of_nat_0_le_iff] .
  have "db_outbox_seq s1 = db_outbox_seq s" by (simp add: parts(2))
  with go have bound: "db_outbox_seq s + 1 < 2 ^ 63"
    and app: "app = \<lparr>oa_seq = seq_u64 (db_outbox_seq s + 1), oa_dropped_acked = a, oa_dropped_unacked = u\<rparr>"
    and t: "t = s1\<lparr>db_outbox := kept @ [\<lparr>ob_seq = db_outbox_seq s + 1, ob_event = json, ob_bytes = int (length json)\<rparr>],
      db_outbox_seq := db_outbox_seq s + 1, db_outbox_bytes := bytes_of kept + int (length json)\<rparr>"
    by (auto simp: append_outbox_def room Let_def parts(2) split: if_splits)
  from t have rows: "db_outbox t = kept @ [\<lparr>ob_seq = db_outbox_seq s + 1, ob_event = json, ob_bytes = int (length json)\<rparr>]"
    by simp
  have "t = s\<lparr>db_outbox := db_outbox t, db_outbox_seq := db_outbox_seq s + 1, db_outbox_bytes := bytes_of (db_outbox t)\<rparr>"
    unfolding rows by (simp add: t parts(2))
  moreover have "bytes_of (db_outbox t) \<le> cap" if "1 < length kept" using parts(8) that by (simp add: rows)
  ultimately show thesis
    using that [OF parts(1) rows _ parts(3) app [unfolded parts(4,5)] parts(7) _ parts(6) bound] by blast
qed

lemma append_outbox_ok:
  assumes ok: "outbox_ok s" and go: "append_outbox json cap s = Inr (app, t)"
  shows "outbox_ok t"
proof -
  obtain gone kept where parts: "db_outbox s = gone @ kept"
      "db_outbox t = kept @ [\<lparr>ob_seq = db_outbox_seq s + 1, ob_event = json, ob_bytes = int (length json)\<rparr>]"
      "t = s\<lparr>db_outbox := db_outbox t, db_outbox_seq := db_outbox_seq s + 1,
               db_outbox_bytes := bytes_of (db_outbox t)\<rparr>"
      "kept = [] \<longleftrightarrow> db_outbox s = []" "db_outbox_seq s + 1 < 2 ^ 63"
    using append_outbox_spec [OF ok go] by metis
  obtain k where k: "1 \<le> k" "map ob_seq (gone @ kept) = [k..db_outbox_seq s]" "0 \<le> db_outbox_seq s"
    using ok parts(1) by (auto simp: outbox_ok_def)
  have "\<exists>k\<ge>1. map ob_seq (db_outbox t) = [k..db_outbox_seq s + 1]"
  proof (cases "kept = []")
    case True
    then have "db_outbox_seq s = 0" using ok parts(4) by (simp add: outbox_ok_def)
    then show ?thesis using True parts(2) by (intro exI [of _ 1]) simp
  next
    case False
    have "map ob_seq kept = [k + int (length gone)..db_outbox_seq s]" by (rule suffix_upto [OF k(2) False])
    moreover from this have "k + int (length gone) \<le> db_outbox_seq s"
      using False by (metis Nil_is_map_conv not_le upto_Nil2)
    ultimately show ?thesis using k(1) parts(2) upto_snoc [of "k + int (length gone)" "db_outbox_seq s + 1"]
      by (intro exI [of _ "k + int (length gone)"]) simp
  qed
  moreover have "\<forall>r\<in>set (db_outbox t). ob_bytes r = int (length (ob_event r))"
    using ok parts(1,2) by (auto simp: outbox_ok_def)
  moreover have "db_outbox_seq t = db_outbox_seq s + 1" "db_outbox_ack t = db_outbox_ack s"
      "db_outbox_bytes t = bytes_of (db_outbox t)"
    by (subst parts(3), simp)+
  ultimately show ?thesis
    using ok parts(2,5) k(3) by (auto simp: outbox_ok_def)
qed

section \<open>Cursors\<close>

lemma uint_seq_u64 [simp]: "0 \<le> x \<Longrightarrow> x < 2 ^ 63 \<Longrightarrow> uint (seq_u64 x) = x"
  by (simp add: seq_u64_def uint_word_of_int take_bit_eq_mod)

lemma clamp_seq_u64 [simp]: "0 \<le> x \<Longrightarrow> x < 2 ^ 63 \<Longrightarrow> clamp_tokens (seq_u64 x) = x"
  by (simp add: clamp_tokens_def)

lemma clamp_tokens_nonneg [simp]: "0 \<le> clamp_tokens v"
  by (simp add: clamp_tokens_def)

lemma min_upto: "k \<le> (n::int) \<Longrightarrow> Min {k..n} = k"
  by (simp add: Min_eq_iff)

definition floor_seq :: "db \<Rightarrow> int" where
  "floor_seq s = (if db_outbox s = [] then 1 else ob_seq (hd (db_outbox s)))"

lemma outbox_rows_upto:
  assumes "outbox_ok s"
  shows "map ob_seq (db_outbox s) = [floor_seq s..db_outbox_seq s]" and "1 \<le> floor_seq s"
    and "floor_seq s \<le> db_outbox_seq s + 1"
proof -
  obtain k where k: "1 \<le> k" "map ob_seq (db_outbox s) = [k..db_outbox_seq s]" using assms by (auto simp: outbox_ok_def)
  have "db_outbox s \<noteq> [] \<Longrightarrow> k = floor_seq s \<and> k \<le> db_outbox_seq s"
  proof -
    assume ne: "db_outbox s \<noteq> []"
    then have le: "k \<le> db_outbox_seq s" using k(2) by (metis Nil_is_map_conv not_le upto_Nil2)
    then have "hd (map ob_seq (db_outbox s)) = k" unfolding k(2) by (simp add: upto_rec1)
    then show ?thesis using ne le by (simp add: floor_seq_def list.map_sel)
  qed
  moreover have "db_outbox s = [] \<Longrightarrow> db_outbox_seq s = 0 \<and> floor_seq s = 1"
    using assms by (simp add: outbox_ok_def floor_seq_def)
  ultimately show "map ob_seq (db_outbox s) = [floor_seq s..db_outbox_seq s]" "1 \<le> floor_seq s"
      "floor_seq s \<le> db_outbox_seq s + 1"
    using k by (cases "db_outbox s = []"; simp)+
qed

lemma read_bounds_eq:
  assumes "outbox_ok s"
  shows "read_bounds s = \<lparr>ob_retained_from = seq_u64 (floor_seq s), ob_tail = seq_u64 (db_outbox_seq s),
           ob_ack = map_option seq_u64 (db_outbox_ack s)\<rparr>"
proof (cases "db_outbox s = []")
  case True
  then show ?thesis using assms by (simp add: read_bounds_def floor_seq_def outbox_ok_def seq_u64_def)
next
  case False
  note rows = outbox_rows_upto [OF assms]
  have "ob_seq ` set (db_outbox s) = {floor_seq s..db_outbox_seq s}" using rows(1) by (metis list.set_map set_upto)
  moreover have "floor_seq s \<le> db_outbox_seq s" using rows(1) False by (metis Nil_is_map_conv not_le upto_Nil2)
  ultimately show ?thesis using False by (simp add: read_bounds_def max_upto min_upto)
qed

lemma filter_upto: "filter (\<lambda>x. c < x) [k..n] = [max k (c + 1)..n::int]"
proof (induction k n rule: upto.induct)
  case (1 i j)
  show ?case
  proof (cases "i \<le> j")
    case True
    then show ?thesis using 1 by (cases "i \<le> c"; cases "i = c + 1") (simp_all add: upto_rec1 max_def)
  qed simp
qed

lemma take_upto: "take l [k..n] = [k..min n (k + int l - 1)]"
proof (induction k n arbitrary: l rule: upto.induct)
  case (1 i j)
  show ?case
  proof (cases "i \<le> j \<and> l \<noteq> 0")
    case True
    then obtain m where "l = Suc m" by (cases l) simp_all
    then show ?thesis using True 1 [of m] by (simp add: upto_rec1 min_def)
  qed auto
qed

lemma drop_upto: "drop l [k..n] = [k + int l..n]"
proof (induction k n arbitrary: l rule: upto.induct)
  case (1 i j)
  show ?case
  proof (cases "i \<le> j \<and> l \<noteq> 0")
    case True
    then obtain m where "l = Suc m" by (cases l) simp_all
    then show ?thesis using True 1 [of m] by (simp add: upto_rec1 algebra_simps)
  qed auto
qed

lemma take_rows_filter:
  assumes "map ob_seq rows = [k..n]"
  shows "take l rows = filter (\<lambda>r. ob_seq r \<le> k + int l - 1) rows"
proof -
  have "map ob_seq (take l rows) = [k..min n (k + int l - 1)]" "map ob_seq (drop l rows) = [k + int l..n]"
    by (simp_all add: take_map [symmetric] drop_map [symmetric] assms take_upto drop_upto)
  then have "ob_seq ` set (take l rows) = {k..min n (k + int l - 1)}" "ob_seq ` set (drop l rows) = {k + int l..n}"
    by (metis list.set_map set_upto)+
  then have "\<forall>r\<in>set (take l rows). ob_seq r \<le> k + int l - 1" "\<forall>r\<in>set (drop l rows). \<not> ob_seq r \<le> k + int l - 1"
    by force+
  then have "filter (\<lambda>r. ob_seq r \<le> k + int l - 1) (take l rows @ drop l rows) = take l rows"
    by (simp add: filter_id_conv filter_empty_conv del: append_take_drop_id)
  then show ?thesis by simp
qed

text \<open>The rows a page reads, and their sequences.\<close>

definition page_rows :: "int \<Rightarrow> nat \<Rightarrow> db \<Rightarrow> outbox_row list" where
  "page_rows c l s = take l (filter (\<lambda>r. c < ob_seq r) (db_outbox s))"

lemma page_rows_seqs:
  assumes "outbox_ok s"
  shows "map ob_seq (page_rows c l s)
      = [max (floor_seq s) (c + 1)..min (db_outbox_seq s) (max (floor_seq s) (c + 1) + int l - 1)]"
proof -
  have "map ob_seq (filter (\<lambda>r. c < ob_seq r) (db_outbox s)) = filter (\<lambda>x. c < x) (map ob_seq (db_outbox s))"
    by (simp add: filter_map o_def)
  then show ?thesis
    by (simp add: page_rows_def take_map [symmetric] outbox_rows_upto(1) [OF assms] filter_upto take_upto)
qed

lemma outbox_page_eq:
  assumes ok: "outbox_ok s" and dec: "\<forall>r\<in>set (db_outbox s). decode (ob_event r) = Some (ev r)" and l: "1 \<le> l"
  shows "\<exists>nxt. outbox_page decode after l s = Inr \<lparr>pg_items = map (\<lambda>r. \<lparr>oe_schema = outbox_schema_version,
           oe_seq = seq_u64 (ob_seq r), oe_event = ev r\<rparr>) (page_rows (clamp_tokens after) l s), pg_next = nxt\<rparr>"
proof -
  let ?f = "filter (\<lambda>r. clamp_tokens after < ob_seq r) (db_outbox s)"
  have "map ob_seq ?f = filter (\<lambda>x. clamp_tokens after < x) (map ob_seq (db_outbox s))"
    by (simp add: filter_map o_def)
  then have sorted: "sort_key ob_seq ?f = ?f"
    unfolding outbox_rows_upto(1) [OF ok] filter_upto by (rule sorted_upto_rows)
  have sub: "\<forall>r\<in>set (page_rows (clamp_tokens after) l s). decode (ob_event r) = Some (ev r)"
    using dec by (auto simp: page_rows_def dest: in_set_takeD)
  have "rmap (\<lambda>r. case decode (ob_event r) of
        None \<Rightarrow> Inl (Backend (Text ''corrupt stored outbox event''))
      | Some e \<Rightarrow> Inr (ob_seq r, \<lparr>oe_schema = outbox_schema_version, oe_seq = seq_u64 (ob_seq r), oe_event = e\<rparr>)) rows
    = Inr (map (\<lambda>r. (ob_seq r, \<lparr>oe_schema = outbox_schema_version, oe_seq = seq_u64 (ob_seq r), oe_event = ev r\<rparr>)) rows)"
    if "\<forall>r\<in>set rows. decode (ob_event r) = Some (ev r)" for rows
    using that by (induction rows) auto
  from this [OF sub] show ?thesis
    using l by (simp add: outbox_page_def Let_def sorted page_rows_def page_from_rows_def o_def)
qed

text \<open>(C30) An append gives the event the next sequence, evicts a prefix of the oldest rows and never the
  last one, and counts what it evicts. An unacknowledged row goes only when the rows from it on and the
  new one together exceed the cap; and unless a single older row is left, the outbox is within the cap
  afterwards.\<close>

theorem outbox_retention:
  assumes "outbox_ok s" and "append_outbox json cap s = Inr (app, t)"
  shows "outbox_ok t
     \<and> (\<exists>gone kept. db_outbox s = gone @ kept \<and> (kept = [] \<longrightarrow> db_outbox s = [])
        \<and> db_outbox t = kept @ [\<lparr>ob_seq = db_outbox_seq s + 1, ob_event = json, ob_bytes = int (length json)\<rparr>]
        \<and> uint (oa_seq app) = db_outbox_seq s + 1
        \<and> oa_dropped_acked app + oa_dropped_unacked app = length gone
        \<and> (\<forall>i < length gone. \<not> acked (db_outbox_ack s) (gone ! i) \<longrightarrow>
             bytes_of (drop i (db_outbox s)) + int (length json) > cap)
        \<and> (1 < length kept \<longrightarrow> bytes_of (db_outbox t) \<le> cap))"
proof -
  have ok: "outbox_ok t" by (rule append_outbox_ok [OF assms])
  obtain gone kept where parts: "db_outbox s = gone @ kept"
      "db_outbox t = kept @ [\<lparr>ob_seq = db_outbox_seq s + 1, ob_event = json, ob_bytes = int (length json)\<rparr>]"
      "kept = [] \<longleftrightarrow> db_outbox s = []"
      "app = \<lparr>oa_seq = seq_u64 (db_outbox_seq s + 1),
         oa_dropped_acked = length (filter (acked (db_outbox_ack s)) gone),
         oa_dropped_unacked = length (filter (\<lambda>r. \<not> acked (db_outbox_ack s) r) gone)\<rparr>"
      "\<forall>i < length gone. \<not> acked (db_outbox_ack s) (gone ! i) \<longrightarrow>
         bytes_of (drop i (db_outbox s)) + int (length json) > cap"
      "1 < length kept \<longrightarrow> bytes_of (db_outbox t) \<le> cap" "db_outbox_seq s + 1 < 2 ^ 63"
    using append_outbox_spec [OF assms] by metis
  have "0 \<le> db_outbox_seq s" using assms(1) by (simp add: outbox_ok_def)
  then have "uint (oa_seq app) = db_outbox_seq s + 1" using parts(4,7) by simp
  moreover have "oa_dropped_acked app + oa_dropped_unacked app = length gone"
    by (simp add: parts(4) sum_length_filter_compl)
  ultimately show ?thesis using ok parts(1-3,5,6) by blast
qed

lemma outbox_retention_witness:
  "\<exists>t. outbox_ok t \<and> map ob_seq (db_outbox t) = [2, 3] \<and> db_outbox_seq t = 3"
proof -
  let ?r = "\<lambda>n. \<lparr>ob_seq = n, ob_event = ''abcd'', ob_bytes = 4\<rparr>"
  let ?s = "(empty_db [])\<lparr>db_outbox := [?r 1, ?r 2], db_outbox_seq := 2, db_outbox_bytes := 8, db_outbox_ack := Some 1\<rparr>"
  have "map ob_seq (db_outbox ?s) = [1..db_outbox_seq ?s]" by (simp add: upto.simps [of 1] upto.simps [of 2])
  then have ok: "outbox_ok ?s"
    unfolding outbox_ok_def by (intro conjI exI [of _ 1]) (simp_all add: empty_db_def)
  have "sort_key ob_seq (filter (\<lambda>x. ob_seq x < last_seq ?s) (db_outbox ?s)) = [?r 1]"
    by (rule rows_below_last [OF ok]) simp
  then have "make_room 4 8 ?s = (1, 0, ?s\<lparr>db_outbox := [?r 2], db_outbox_bytes := 4\<rparr>)"
    by (simp add: make_room_def evict_outbox_through_def empty_db_def Let_def)
  then have t: "append_outbox ''wxyz'' 8 ?s = Inr (\<lparr>oa_seq = seq_u64 3, oa_dropped_acked = 1, oa_dropped_unacked = 0\<rparr>,
      ?s\<lparr>db_outbox := [?r 2, \<lparr>ob_seq = 3, ob_event = ''wxyz'', ob_bytes = 4\<rparr>], db_outbox_seq := 3, db_outbox_bytes := 8\<rparr>)"
    (is "_ = Inr (?a, ?t)")
    by (simp add: append_outbox_def)
  have "outbox_ok ?t" by (rule conjunct1 [OF outbox_retention [OF ok t]])
  moreover have "map ob_seq (db_outbox ?t) = [2, 3]" "db_outbox_seq ?t = 3" by simp_all
  ultimately show ?thesis by (intro exI [of _ ?t] conjI)
qed

text \<open>(C31) An export from a cursor at the retained floor or above, and not past the tail, serves without a
  gap: exactly the events after the cursor, in order, as many as the limit allows, and moves the cursor to
  the last one served. A cursor outside is refused with the floor or the tail it missed. With no cursor the
  export resumes after the acknowledged one.\<close>

theorem export_is_lossless:
  assumes ok: "outbox_ok s" and dec: "\<forall>r\<in>set (db_outbox s). decode (ob_event r) = Some (ev r)"
    and cur: "from = (case after of Some c \<Rightarrow> c | None \<Rightarrow> (case db_outbox_ack s of Some a \<Rightarrow> seq_u64 a | None \<Rightarrow> 0))"
  shows "if uint from > db_outbox_seq s then
           export_core decode after m s = Inl (OutboxRefused (PastTail from (seq_u64 (db_outbox_seq s)) ''cursor''))
         else if uint from + 1 < floor_seq s then
           export_core decode after m s = Inl (OutboxRefused (BelowFloor from (seq_u64 (floor_seq s))))
         else (\<exists>b last. export_core decode after m s = Inr b \<and> last = min (db_outbox_seq s) (uint from + int (export_limit m))
           \<and> map (uint \<circ> oe_seq) (eb_events b) = [uint from + 1..last] \<and> uint (eb_cursor b) = last
           \<and> map oe_event (eb_events b) = map ev (filter (\<lambda>r. uint from < ob_seq r \<and> ob_seq r \<le> last) (db_outbox s)))"
proof -
  let ?l = "export_limit m"
  have l: "1 \<le> ?l" by (simp add: export_limit_def export_batch_default_max_def export_batch_max_cap_def)
  have seq: "0 \<le> db_outbox_seq s" "db_outbox_seq s < 2 ^ 63" using ok by (simp_all add: outbox_ok_def)
  note fl = outbox_rows_upto [OF ok]
  have tail: "jv_tail (v\<lparr>jv_tail := seq_u64 (db_outbox_seq s)\<rparr>) < from \<longleftrightarrow> uint from > db_outbox_seq s" for v :: "'a journal_view"
    using seq by (simp add: word_less_def)
  obtain nxt where page: "outbox_page decode from ?l s = Inr \<lparr>pg_items = map (\<lambda>r. \<lparr>oe_schema = outbox_schema_version,
           oe_seq = seq_u64 (ob_seq r), oe_event = ev r\<rparr>) (page_rows (clamp_tokens from) ?l s), pg_next = nxt\<rparr>"
    using outbox_page_eq [OF ok dec l] by blast
  have start: "(case after of Some c \<Rightarrow> c | None \<Rightarrow> (case ob_ack (read_bounds s) of Some a \<Rightarrow> a | None \<Rightarrow> 0)) = from"
    by (auto simp: cur read_bounds_eq [OF ok] split: option.splits)
  have core: "export_core decode after m s = (case select_batch
       \<lparr>jv_entries = map (\<lambda>r. \<lparr>oe_schema = outbox_schema_version, oe_seq = seq_u64 (ob_seq r), oe_event = ev r\<rparr>)
          (page_rows (clamp_tokens from) ?l s), jv_torn = False, jv_blank = 0,
        jv_retained_from = seq_u64 (floor_seq s), jv_tail = seq_u64 (db_outbox_seq s)\<rparr> from ?l of
       Inl r \<Rightarrow> Inl (OutboxRefused r) | Inr b \<Rightarrow> Inr b)"
    unfolding export_core_def Let_def start page by (simp add: read_bounds_eq [OF ok])
  show ?thesis
  proof (cases "uint from > db_outbox_seq s")
    case True
    then show ?thesis using seq by (simp add: core select_batch_def word_less_def)
  next
    case within: False
    then have c: "clamp_tokens from = uint from" using seq by (simp add: clamp_tokens_def)
    have next1: "uint (from + 1) = uint from + 1" using within seq by (simp add: uint_word_ariths mod_pos_pos_trivial)
    have floor: "uint (seq_u64 (floor_seq s)) = floor_seq s"
    proof (rule uint_seq_u64)
      show "0 \<le> floor_seq s" using fl(2) by simp
      show "floor_seq s < 2 ^ 63"
      proof (cases "db_outbox s = []")
        case False
        then have "floor_seq s \<le> db_outbox_seq s" using fl(1) by (metis Nil_is_map_conv not_le upto_Nil2)
        then show ?thesis using seq by simp
      qed (simp add: floor_seq_def)
    qed
    have guard: "seq_u64 (db_outbox_seq s) < from \<longleftrightarrow> False"
      "from + 1 < seq_u64 (floor_seq s) \<longleftrightarrow> uint from + 1 < floor_seq s"
      using within seq by (simp_all add: word_less_def next1 floor)
    show ?thesis
    proof (cases "uint from + 1 < floor_seq s")
      case True
      then show ?thesis using within by (simp add: core select_batch_def guard)
    next
      case False
      let ?rows = "page_rows (uint from) ?l s"
      let ?e = "\<lambda>r. \<lparr>oe_schema = outbox_schema_version, oe_seq = seq_u64 (ob_seq r), oe_event = ev r\<rparr>"
      define till where "till = min (db_outbox_seq s) (uint from + int ?l)"
      have seqs: "map ob_seq ?rows = [uint from + 1..till]"
        using page_rows_seqs [OF ok] False by (simp add: till_def max_def)
      have range: "uint from < ob_seq r" "ob_seq r \<le> till" "ob_seq r < 2 ^ 63" if "r \<in> set ?rows" for r
      proof -
        have "ob_seq r \<in> set (map ob_seq ?rows)" using that by simp
        then show "uint from < ob_seq r" "ob_seq r \<le> till" "ob_seq r < 2 ^ 63"
          unfolding seqs using seq by (auto simp: till_def)
      qed
      have u: "uint (seq_u64 (ob_seq r)) = ob_seq r" if "r \<in> set ?rows" for r
        using range [OF that] uint_ge_0 [of "from"] by (intro uint_seq_u64) linarith+
      have "filter (\<lambda>e. from < oe_seq e) (map ?e ?rows) = map ?e ?rows"
        using range u by (auto simp: filter_id_conv word_less_def)
      moreover have "length ?rows \<le> ?l" by (simp add: page_rows_def)
      ultimately obtain b where b: "export_core decode after m s = Inr b" "eb_events b = map ?e ?rows"
          "eb_cursor b = (if ?rows = [] then from else seq_u64 (ob_seq (last ?rows)))"
        using False by (simp add: core select_batch_def guard c last_map Let_def)
      have m1: "map (uint \<circ> oe_seq) (eb_events b) = [uint from + 1..till]" by (simp add: b(2) u flip: seqs)
      have m2: "uint (eb_cursor b) = till"
      proof (cases "?rows = []")
        case True
        then have "till < uint from + 1" using seqs by simp
        then show ?thesis using True within l by (simp add: b(3) till_def)
      next
        case False
        then have "ob_seq (last ?rows) = last [uint from + 1..till]" using seqs by (metis last_map)
        moreover have "uint from + 1 \<le> till" using False seqs by (metis Nil_is_map_conv not_le upto_Nil2)
        ultimately have "ob_seq (last ?rows) = till" by (simp add: upto_snoc)
        then show ?thesis using u [OF last_in_set [OF False]] False by (simp add: b(3))
      qed
      have "?rows = filter (\<lambda>r. uint from < ob_seq r \<and> ob_seq r \<le> till) (db_outbox s)"
      proof -
        have "map ob_seq (filter (\<lambda>r. uint from < ob_seq r) (db_outbox s)) = [uint from + 1..db_outbox_seq s]"
          using False filter_upto [of "uint from" "floor_seq s" "db_outbox_seq s"]
          by (simp add: fl(1) [symmetric] filter_map o_def)
        from take_rows_filter [OF this, of ?l]
        have "?rows = filter (\<lambda>r. ob_seq r \<le> uint from + 1 + int ?l - 1) (filter (\<lambda>r. uint from < ob_seq r) (db_outbox s))"
          by (simp add: page_rows_def)
        also have "\<dots> = filter (\<lambda>r. uint from < ob_seq r \<and> ob_seq r \<le> till) (db_outbox s)"
        proof (simp only: filter_filter, rule filter_cong [OF refl])
          fix r
          assume "r \<in> set (db_outbox s)"
          then have "ob_seq r \<in> set (map ob_seq (db_outbox s))" by simp
          then have "ob_seq r \<le> db_outbox_seq s" unfolding fl(1) by simp
          then show "(uint from < ob_seq r \<and> ob_seq r \<le> uint from + 1 + int ?l - 1)
              = (uint from < ob_seq r \<and> ob_seq r \<le> till)" by (auto simp: till_def)
        qed
        finally show ?thesis .
      qed
      then have m3: "map oe_event (eb_events b) = map ev (filter (\<lambda>r. uint from < ob_seq r \<and> ob_seq r \<le> till) (db_outbox s))"
        by (simp add: b(2) o_def)
      show ?thesis
        unfolding if_not_P [OF within] if_not_P [OF False]
        by (intro exI conjI, rule b(1), rule till_def, rule m1, rule m2, rule m3)
    qed
  qed
qed

lemma export_is_lossless_witness:
  "\<exists>b. export_core (\<lambda>j. Some (length j)) (Some 1) 1
       ((empty_db [])\<lparr>db_outbox := [\<lparr>ob_seq = 1, ob_event = ''ab'', ob_bytes = 2\<rparr>, \<lparr>ob_seq = 2, ob_event = ''abc'', ob_bytes = 3\<rparr>],
          db_outbox_seq := 2, db_outbox_bytes := 5\<rparr>) = Inr b
     \<and> map (uint \<circ> oe_seq) (eb_events b) = [2] \<and> map oe_event (eb_events b) = [3]"
  (is "\<exists>b. export_core ?d _ _ ?s = _ \<and> _")
proof -
  have "map ob_seq (db_outbox ?s) = [1..db_outbox_seq ?s]" by (simp add: upto.simps [of 1] upto.simps [of 2])
  then have ok: "outbox_ok ?s"
    unfolding outbox_ok_def by (intro conjI exI [of _ 1]) (simp_all add: empty_db_def)
  have dec: "\<forall>r\<in>set (db_outbox ?s). ?d (ob_event r) = Some (length (ob_event r))" by simp
  have start: "(1::u64) = (case Some 1 of Some c \<Rightarrow> c | None \<Rightarrow> (case db_outbox_ack ?s of Some a \<Rightarrow> seq_u64 a | None \<Rightarrow> 0))"
    by simp
  have "\<not> uint (1::u64) > db_outbox_seq ?s" "\<not> uint (1::u64) + 1 < floor_seq ?s" "export_limit 1 = 1"
    by (simp_all add: floor_seq_def export_limit_def export_batch_max_cap_def)
  moreover from this export_is_lossless [OF ok dec start, where m = 1]
  obtain b where "export_core ?d (Some 1) 1 ?s = Inr b" "map (uint \<circ> oe_seq) (eb_events b) = [2..2]"
    "map oe_event (eb_events b) = map (\<lambda>r. length (ob_event r)) (filter (\<lambda>r. 1 < ob_seq r \<and> ob_seq r \<le> 2) (db_outbox ?s))"
    by auto
  ultimately show ?thesis by simp
qed

section \<open>Acknowledging\<close>

lemma ack_core_ok:
  assumes ok: "outbox_ok s" and go: "ack_core given s = Inr (v, t)"
  shows "outbox_ok t"
proof -
  have seq: "0 \<le> db_outbox_seq s" "db_outbox_seq s < 2 ^ 63" using ok by (simp_all add: outbox_ok_def)
  have t: "t = s \<or> t = set_outbox_ack v s" and v: "v \<le> seq_u64 (db_outbox_seq s)"
    using go by (auto simp: ack_core_def Let_def check_ack_def read_bounds_eq [OF ok] not_less split: if_splits)
  have "uint v \<le> db_outbox_seq s" using v seq by (simp add: word_le_def)
  then have "clamp_tokens v = uint v" using seq by (simp add: clamp_tokens_def)
  then show ?thesis using t ok v seq by (auto simp: outbox_ok_def set_outbox_ack_def word_le_def)
qed


text \<open>An acknowledgement only moves forward: it answers the larger of the durable cursor and the given
  one, stores it, keeps every row, is a no-op when repeated or when it is behind, and is refused, with
  nothing written, exactly when it names a sequence past the tail.\<close>

theorem ack_moves_forward:
  assumes ok: "outbox_ok s"
  shows "if uint given > db_outbox_seq s then
           ack_core given s = Inl (PastTail given (seq_u64 (db_outbox_seq s)) ''ack'')
         else (\<exists>v t. ack_core given s = Inr (v, t)
           \<and> uint v = max (uint given) (case db_outbox_ack s of Some a \<Rightarrow> a | None \<Rightarrow> 0)
           \<and> outbox_ok t \<and> db_outbox t = db_outbox s
           \<and> (uint v \<noteq> 0 \<longrightarrow> db_outbox_ack t = Some (uint v))
           \<and> (\<forall>less. less \<le> v \<longrightarrow> ack_core less t = Inr (v, t)))"
proof -
  have seq: "0 \<le> db_outbox_seq s" "db_outbox_seq s < 2 ^ 63" using ok by (simp_all add: outbox_ok_def)
  define cur where "cur = (case db_outbox_ack s of Some a \<Rightarrow> a | None \<Rightarrow> 0)"
  have cur: "0 \<le> cur" "cur \<le> db_outbox_seq s" using ok by (auto simp: outbox_ok_def cur_def split: option.splits)
  have current: "(case ob_ack (read_bounds s) of Some a \<Rightarrow> a | None \<Rightarrow> 0) = seq_u64 cur"
    by (simp add: read_bounds_eq [OF ok] cur_def seq_u64_def split: option.splits)
  have uc: "uint (seq_u64 cur) = cur" using cur seq by simp
  have core: "ack_core given s = (if max (seq_u64 cur) given > seq_u64 (db_outbox_seq s)
      then Inl (PastTail (max (seq_u64 cur) given) (seq_u64 (db_outbox_seq s)) ''ack'')
      else Inr (max (seq_u64 cur) given,
        if given > seq_u64 cur then set_outbox_ack given s else s))"
    unfolding ack_core_def Let_def current by (auto simp: check_ack_def read_bounds_eq [OF ok] max_def)
  show ?thesis
  proof (cases "uint given > db_outbox_seq s")
    case True
    then have "max (seq_u64 cur) given = given" using cur by (simp add: max_def word_le_def uc)
    then show ?thesis using True seq by (simp add: core word_less_def)
  next
    case False
    define v where "v = max (seq_u64 cur) given"
    define t where "t = (if given > seq_u64 cur then set_outbox_ack given s else s)"
    have v: "uint v = max (uint given) cur" by (auto simp: v_def max_def word_le_def uc)
    have go: "ack_core given s = Inr (v, t)"
      using False cur seq by (auto simp: core v_def t_def word_less_def max_def uc)
    have ack: "db_outbox_ack t = (if uint given > cur then Some (uint given) else db_outbox_ack s)"
      using False seq by (simp add: t_def set_outbox_ack_def clamp_tokens_def word_less_def uc)
    have same: "db_outbox t = db_outbox s" "db_outbox_seq t = db_outbox_seq s" "db_outbox_bytes t = db_outbox_bytes s"
      by (simp_all add: t_def set_outbox_ack_def)
    have okt: "outbox_ok t" using ok False by (auto simp: outbox_ok_def same ack split: if_splits)
    have stored: "(case db_outbox_ack t of Some a \<Rightarrow> a | None \<Rightarrow> 0) = uint v"
      by (auto simp: ack v cur_def split: option.splits)
    have "ack_core less t = Inr (v, t)" if "less \<le> v" for less
    proof -
      have again: "(case ob_ack (read_bounds t) of Some a \<Rightarrow> a | None \<Rightarrow> 0) = v"
      proof -
        have "(case ob_ack (read_bounds t) of Some a \<Rightarrow> a | None \<Rightarrow> 0) = seq_u64 (uint v)"
          unfolding stored [symmetric] by (simp add: read_bounds_eq [OF okt] seq_u64_def split: option.splits)
        then show ?thesis by (simp add: seq_u64_def)
      qed
      have "\<not> seq_u64 (db_outbox_seq s) < v"
        using False cur seq by (simp add: word_less_def v)
      then show ?thesis
        using that unfolding ack_core_def Let_def again
        by (simp add: check_ack_def read_bounds_eq [OF okt] same max_def)
    qed
    moreover have "uint v \<noteq> 0 \<longrightarrow> db_outbox_ack t = Some (uint v)"
      using cur(1) by (auto simp: ack v cur_def max_def split: option.splits)
    ultimately show ?thesis
      unfolding if_not_P [OF False] using go v okt same(1) by (auto simp: cur_def)
  qed
qed

lemma ack_moves_forward_witness: "\<exists>v t. ack_core 0 (empty_db []) = Inr (v, t) \<and> uint v = 0 \<and> outbox_ok t"
  using ack_moves_forward [OF outbox_ok_empty [of "[]"], of 0] by (auto simp: empty_db_def)

end
