(* ===== verification/Run_System.thy ===== *)
theory Run_System
  imports Run_Tree Outbox
begin

text \<open>
  The Run subsystem as a whole: every operation of \<open>domain/runs/ops.rs\<close>, as the writer runs it, moves a
  database and the published snapshot. Here are the reachable states, their invariant and the properties
  of the operations.
\<close>

section \<open>Opening a child\<close>

lemma check_action_ok:
  "check_action limits wire = Inr () \<longleftrightarrow>
     (\<forall>a. rl_action limits = Some a \<longrightarrow> action_refusal a Announced wire = None)"
  by (auto simp: check_action_def split: option.splits)

definition find_parent :: "db \<Rightarrow> run_parent \<Rightarrow> run_record option" where
  "find_parent s parent =
     (case parent of
        ParentRun rid \<Rightarrow> record_at s rid
      | ParentInstance name \<Rightarrow>
          (case instance_name_new name of Inl _ \<Rightarrow> None | Inr n \<Rightarrow> owner_run s n))"

lemma resolve_parent_Inr:
  "db_ok s \<Longrightarrow> resolve_parent parent s = Inr p \<longleftrightarrow> find_parent s parent = Some p"
  by (auto simp: resolve_parent_def find_parent_def run_record_of_eq db_ok_text from_store_def
      owner_run_eq split: run_parent.splits sum.splits option.splits)

lemma find_parent_current:
  "db_ok s \<Longrightarrow> find_parent s parent = Some p \<Longrightarrow> record_at s (rr_id p) = Some p"
  by (auto simp: find_parent_def owner_run_iff record_at_id split: run_parent.splits sum.splits)

lemma open_new_child_spec:
  assumes ok: "db_ok s" and go: "open_new_child request rid at s = Inr (got, ch, t)"
  obtains p where "find_parent s (cq_parent request) = Some p" and "\<not> is_ended p" and "got = rid"
    and "\<And>n R. rooted (record_at s) (rr_id p) n R \<Longrightarrow> n < max_run_nesting \<Longrightarrow> Suc n < max_run_nesting"
    and "check_action (cq_limits request) (rr_wire p) = Inr ()"
    and "grows (no_changes, s) (ch, t)" and "record_at s rid = None"
    and "record_at t = (record_at s)(rid \<mapsto> child_record p rid at)"
    and "entry_of t = (entry_of s)(rid \<mapsto> inserted_entry
           \<lparr>nr_record = child_record p rid at,
            nr_labels = sort (case caller_labels (cq_labels request) [] of Inr ls \<Rightarrow> ls),
            nr_limits = cq_limits request,
            nr_identity = map_option (\<lambda>e. (host_identity_binding, e)) (cq_external request)\<rparr>)"
proof -
  obtain p chain labels u where p: "resolve_parent (cq_parent request) s = Inr p" "\<not> is_ended p"
      and chain: "run_chain s (rr_id p) = Inr chain" "length chain + 1 \<le> max_run_nesting"
      and act: "check_action (cq_limits request) (rr_wire p) = Inr ()"
      and labels: "caller_labels (cq_labels request) [] = Inr labels"
      and ins: "insert_run \<lparr>nr_record = child_record p rid at, nr_labels = sort labels,
          nr_limits = cq_limits request,
          nr_identity = map_option (\<lambda>e. (host_identity_binding, e)) (cq_external request)\<rparr> s = Inr u"
      and noting: "note_change (child_record p rid at) Created no_prior
          (if rr_status p = Held then Some ''parent-paused'' else None) (no_changes, u) = Inr (ch, t)"
      and got: "got = rid"
    using go by (auto simp: open_new_child_def Let_def from_store_Inr split: if_splits)
  have deep: "Suc n < max_run_nesting" if "rooted (record_at s) (rr_id p) n R" "n < max_run_nesting" for n R
    using run_chain_length [OF db_ok_text [OF ok] that] chain by auto
  have id: "rr_id (child_record p rid at) = rid" "rr_anomalies (child_record p rid at) = []"
    by (simp_all add: child_record_def)
  show thesis
    using p act got deep labels id resolve_parent_Inr [OF ok]
      insert_note_grows [OF ok ins _ id(2) noting]
    by (intro that [of p]) simp_all
qed

section \<open>Jobs\<close>

text \<open>The database and the published snapshot. \<open>enc\<close> is the JSON text of the bus event that carries a
  Run event (\<open>serde_json::to_string(&EngineEvent::Run(..))\<close>), \<open>None\<close> where the encoder fails.\<close>

record engine =
  en_db :: db
  en_snap :: run_snapshot

type_synonym encoder = "run_event \<Rightarrow> string option"
type_synonym committed = "(run_event \<times> outbox_append) list"

definition commit_event ::
  "encoder \<Rightarrow> run_event \<Rightarrow> committed \<times> db \<Rightarrow> store_error + (committed \<times> db)" where
  "commit_event enc ev st =
     (case enc ev of
        None \<Rightarrow> Inl (Backend (Text ''could not encode an outbox event''))
      | Some json \<Rightarrow>
          rbind (append_outbox json outbox_max_bytes (snd st)) (\<lambda>(app, s).
          Inr (fst st @ [(ev, app)], s)))"

definition commit_changes ::
  "encoder \<Rightarrow> run_changes \<Rightarrow> engine \<Rightarrow> store_error + (committed \<times> engine)" where
  "commit_changes enc ch en =
     rbind (rfold (commit_event enc) (ch_events ch) ([], en_db en)) (\<lambda>(committed, s).
     Inr (committed, \<lparr>en_db = s,
            en_snap = (if ch_entries ch \<noteq> [] then publish (ch_entries ch) (en_snap en) else en_snap en)\<rparr>))"

text \<open>One writer job around an operation: a refusal or a failure commits nothing, and the snapshot is
  published with the commit.\<close>

definition run_job ::
  "encoder \<Rightarrow> (db \<Rightarrow> run_error + ('a \<times> op_state)) \<Rightarrow> engine \<Rightarrow> run_error + ('a \<times> committed \<times> engine)" where
  "run_job enc op en =
     rbind (op (en_db en)) (\<lambda>(v, ch, s).
     rbind (from_store (commit_changes enc ch (en\<lparr>en_db := s\<rparr>))) (\<lambda>(committed, en).
     Inr (v, committed, en)))"

definition no_value :: "store_error + op_state \<Rightarrow> run_error + (unit \<times> op_state)" where
  "no_value r = rbind (from_store r) (\<lambda>st. Inr ((), st))"

text \<open>The projection of a lifecycle transition: in its own savepoint, so its failure rolls back only
  itself and is handed on as a diagnostic.\<close>

definition project_in_savepoint ::
  "encoder \<Rightarrow> string \<Rightarrow> lifecycle_state \<Rightarrow> run_fate \<Rightarrow> string \<Rightarrow> string \<Rightarrow> engine
     \<Rightarrow> committed \<times> store_error option \<times> engine" where
  "project_in_savepoint enc name new_state fate cause at en =
     (case rbind (project_transition name new_state fate cause at (en_db en)) (\<lambda>(ch, s).
             commit_changes enc ch (en\<lparr>en_db := s\<rparr>)) of
        Inl e \<Rightarrow> ([], Some e, en)
      | Inr (committed, en') \<Rightarrow> (committed, None, en'))"

definition ensure_supervised_run ::
  "encoder \<Rightarrow> supervised_run \<Rightarrow> string \<Rightarrow> engine \<Rightarrow> store_error + (committed \<times> engine)" where
  "ensure_supervised_run enc run at en =
     rbind (ensure_supervised run at (en_db en)) (\<lambda>(ch, s). commit_changes enc ch (en\<lparr>en_db := s\<rparr>))"

definition sync_run_labels ::
  "encoder \<Rightarrow> string \<Rightarrow> label list \<Rightarrow> string \<Rightarrow> engine \<Rightarrow> run_error + (unit \<times> committed \<times> engine)" where
  "sync_run_labels enc name labels at =
     run_job enc (\<lambda>s. no_value (rbind (open_process_run s name) (\<lambda>found.
       case found of
         None \<Rightarrow> Inr (no_changes, s)
       | Some open \<Rightarrow> sync_bound_labels (rr_id open) labels at s)))"

definition open_child_run ::
  "encoder \<Rightarrow> child_request \<Rightarrow> run_id \<Rightarrow> string \<Rightarrow> engine \<Rightarrow> run_error + (run_id \<times> committed \<times> engine)" where
  "open_child_run enc request rid at = run_job enc (open_child request rid at)"

definition close_run_job ::
  "encoder \<Rightarrow> run_id \<Rightarrow> string \<Rightarrow> engine \<Rightarrow> run_error + (unit \<times> committed \<times> engine)" where
  "close_run_job enc rid at = run_job enc (\<lambda>s. rbind (close_run rid at s) (\<lambda>st. Inr ((), st)))"

definition sweep_job :: "encoder \<Rightarrow> string \<Rightarrow> engine \<Rightarrow> run_error + (unit \<times> committed \<times> engine)" where
  "sweep_job enc at = run_job enc (\<lambda>s. no_value (end_runs_without_a_process at s))"

text \<open>The engine opens: the snapshot is the one published from the open Runs, or empty where they
  could not be read.\<close>

definition open_snapshot :: "db \<Rightarrow> run_snapshot" where
  "open_snapshot s =
     (case open_entries s of Inl _ \<Rightarrow> empty_snapshot | Inr entries \<Rightarrow> publish entries empty_snapshot)"

section \<open>What the outbox leaves alone\<close>

definition run_tables :: "db \<Rightarrow> instance_row list \<times> run_row list \<times> label_row list \<times> limit_row list \<times> identity_row list" where
  "run_tables s = (db_instances s, db_runs s, db_labels s, db_limits s, db_identities s)"

lemma run_tables_cong:
  assumes "run_tables t = run_tables s"
  shows "entry_of t = entry_of s" and "record_at t = record_at s" and "db_ok t \<longleftrightarrow> db_ok s"
proof -
  have t: "db_instances t = db_instances s" "db_runs t = db_runs s" "db_labels t = db_labels s"
    "db_limits t = db_limits s" "db_identities t = db_identities s"
    using assms by (simp_all add: run_tables_def)
  show rec: "record_at t = record_at s"
    by (rule ext) (simp add: record_at_def find_run_def t rec_of_cong [OF t(1)])
  show "entry_of t = entry_of s"
    by (rule ext) (simp add: entry_of_def rec labels_at_cong [OF t(3)] limits_at_cong [OF t(4)])
  show "db_ok t \<longleftrightarrow> db_ok s"
    by (simp add: db_ok_defs instances_ok_def one_open_owner_def t)
qed

definition outbox_part :: "db \<Rightarrow> outbox_row list \<times> int \<times> int option \<times> int" where
  "outbox_part s = (db_outbox s, db_outbox_seq s, db_outbox_ack s, db_outbox_bytes s)"

lemma outbox_part_ok: "outbox_part t = outbox_part s \<Longrightarrow> outbox_ok t \<longleftrightarrow> outbox_ok s"
  by (simp add: outbox_part_def outbox_ok_def)

lemma append_outbox_tables:
  assumes "outbox_ok s" and "append_outbox json cap s = Inr (app, t)"
  shows "run_tables t = run_tables s"
proof -
  obtain rows n b where "t = s\<lparr>db_outbox := rows, db_outbox_seq := n, db_outbox_bytes := b\<rparr>"
    using append_outbox_spec [OF assms] by metis
  then show ?thesis by (simp add: run_tables_def)
qed

lemma commit_event_Inr:
  "commit_event enc ev st = Inr (c, s) \<longleftrightarrow> (\<exists>json app. enc ev = Some json
     \<and> append_outbox json outbox_max_bytes (snd st) = Inr (app, s) \<and> c = fst st @ [(ev, app)])"
  by (auto simp: commit_event_def split: option.splits)

lemma commit_events_tables:
  "rfold (commit_event enc) evs (c, s) = Inr (c', t) \<Longrightarrow> outbox_ok s \<Longrightarrow>
     outbox_ok t \<and> run_tables t = run_tables s \<and> map fst c' = map fst c @ evs"
proof (induction evs arbitrary: c s)
  case (Cons ev evs)
  then obtain json app u where u: "append_outbox json outbox_max_bytes s = Inr (app, u)"
      "rfold (commit_event enc) evs (c @ [(ev, app)], u) = Inr (c', t)"
    by (auto simp: commit_event_Inr)
  with Cons.IH [OF u(2) append_outbox_ok [OF Cons.prems(2) u(1)]] show ?case
    using append_outbox_tables [OF Cons.prems(2) u(1)] by simp
qed simp

lemma commit_changes_spec:
  assumes "commit_changes enc ch en = Inr (c, en')" and "outbox_ok (en_db en)"
  shows "outbox_ok (en_db en')" and "run_tables (en_db en') = run_tables (en_db en)"
    and "en_snap en' = publish (ch_entries ch) (en_snap en)" and "map fst c = ch_events ch"
  using assms commit_events_tables [of enc "ch_events ch" "[]" "en_db en"]
  by (auto simp: commit_changes_def publish_def split: if_splits)

lemma append_outbox_total:
  assumes "outbox_ok s" and "db_outbox_seq s + 1 < 2 ^ 63"
  obtains app t rows b where "append_outbox json cap s = Inr (app, t)"
    and "t = s\<lparr>db_outbox := rows, db_outbox_seq := db_outbox_seq s + 1, db_outbox_bytes := b\<rparr>"
proof -
  obtain a u s1 where room: "make_room (int (length json)) cap s = (a, u, s1)" by (metis prod_cases3)
  have "db_outbox_seq s1 = db_outbox_seq s"
    by (rule make_room_spec [OF assms(1) room of_nat_0_le_iff]) simp
  then obtain app t where go: "append_outbox json cap s = Inr (app, t)"
    using assms(2) by (simp add: append_outbox_def room Let_def)
  show thesis
  proof (rule append_outbox_spec [OF assms(1) go])
    assume "t = s\<lparr>db_outbox := db_outbox t, db_outbox_seq := db_outbox_seq s + 1, db_outbox_bytes := bytes_of (db_outbox t)\<rparr>"
    then show thesis by (rule that [OF go])
  qed
qed

lemma commit_events_total:
  assumes "outbox_ok s" and "db_outbox_seq s + int (length evs) < 2 ^ 63" and "\<And>ev. enc ev \<noteq> None"
  obtains c' t rows b where "rfold (commit_event enc) evs (c, s) = Inr (c', t)"
    and "t = s\<lparr>db_outbox := rows, db_outbox_seq := db_outbox_seq s + int (length evs), db_outbox_bytes := b\<rparr>"
proof -
  have "\<exists>c' rows b. rfold (commit_event enc) evs (c, s)
      = Inr (c', s\<lparr>db_outbox := rows, db_outbox_seq := db_outbox_seq s + int (length evs), db_outbox_bytes := b\<rparr>)"
    using assms(1,2)
  proof (induction evs arbitrary: c s)
    case Nil
    have "rfold (commit_event enc) [] (c, s) = Inr (c, s\<lparr>db_outbox := db_outbox s,
        db_outbox_seq := db_outbox_seq s + int (length []), db_outbox_bytes := db_outbox_bytes s\<rparr>)" by simp
    then show ?case by blast
  next
    case (Cons ev evs)
    obtain json where json: "enc ev = Some json" using assms(3) [of ev] by auto
    have less: "db_outbox_seq s + 1 < 2 ^ 63" using Cons.prems(2) by simp
    obtain app t rows b where t: "append_outbox json outbox_max_bytes s = Inr (app, t)"
        "t = s\<lparr>db_outbox := rows, db_outbox_seq := db_outbox_seq s + 1, db_outbox_bytes := b\<rparr>"
      using append_outbox_total [OF Cons.prems(1) less] .
    have "outbox_ok t" by (rule append_outbox_ok [OF Cons.prems(1) t(1)])
    moreover have "db_outbox_seq t + int (length evs) < 2 ^ 63" using Cons.prems(2) by (simp add: t(2))
    ultimately obtain c' rows' b' where "rfold (commit_event enc) evs (c @ [(ev, app)], t)
        = Inr (c', t\<lparr>db_outbox := rows', db_outbox_seq := db_outbox_seq t + int (length evs), db_outbox_bytes := b'\<rparr>)"
      using Cons.IH by blast
    then have "rfold (commit_event enc) (ev # evs) (c, s)
        = Inr (c', s\<lparr>db_outbox := rows', db_outbox_seq := db_outbox_seq s + int (length (ev # evs)), db_outbox_bytes := b'\<rparr>)"
      using json t by (simp add: commit_event_def algebra_simps)
    then show ?case by blast
  qed
  then show thesis using that by blast
qed

lemma commit_changes_total:
  assumes "outbox_ok (en_db en)" and "db_outbox_seq (en_db en) + int (length (ch_events ch)) < 2 ^ 63"
    and "\<And>ev. enc ev \<noteq> None"
  obtains c en' rows b where "commit_changes enc ch en = Inr (c, en')"
    and "en_db en' = (en_db en)\<lparr>db_outbox := rows, db_outbox_seq := db_outbox_seq (en_db en) + int (length (ch_events ch)),
                                db_outbox_bytes := b\<rparr>"
proof -
  obtain c t rows b where "rfold (commit_event enc) (ch_events ch) ([], en_db en) = Inr (c, t)"
      "t = (en_db en)\<lparr>db_outbox := rows, db_outbox_seq := db_outbox_seq (en_db en) + int (length (ch_events ch)),
                      db_outbox_bytes := b\<rparr>"
    using commit_events_total [OF assms] .
  then show thesis using that by (simp add: commit_changes_def)
qed

section \<open>The snapshot at open\<close>

lemma fold_open_mirrors:
  assumes "distinct (map (rr_id \<circ> re_record) es)"
    and "\<forall>e\<in>set es. entry (rr_id (re_record e)) = Some e" and "one_owner entry"
  shows "mirrors (entry |` ((rr_id \<circ> re_record) ` set es)) (fold apply_entry es (empty_snapshot\<lparr>sn_generation := g\<rparr>))"
  using assms(1,2)
proof (induction es rule: rev_induct)
  case Nil
  then show ?case using mirrors_empty by (simp add: restrict_map_def)
next
  case (snoc e es)
  let ?ids = "(rr_id \<circ> re_record) ` set es"
  let ?rid = "rr_id (re_record e)"
  have e: "entry ?rid = Some e" "?rid \<notin> ?ids" using snoc.prems by auto
  have eq: "entry |` ((rr_id \<circ> re_record) ` set (es @ [e])) = (entry |` ?ids)(?rid \<mapsto> e)"
    using e(1) by (auto simp: restrict_map_def fun_eq_iff)
  have "one_owner (entry |` X)" for X
    using assms(3) by (auto simp: one_owner_def restrict_map_def split: if_splits)
  then have "one_owner ((entry |` ?ids)(?rid \<mapsto> e))" by (metis eq)
  moreover have "mirrors (entry |` ?ids) (fold apply_entry es (empty_snapshot\<lparr>sn_generation := g\<rparr>))"
    using snoc by simp
  moreover have "(entry |` ?ids) ?rid = None" using e(2) by (simp add: restrict_map_def)
  ultimately have "mirrors ((entry |` ?ids)(?rid \<mapsto> e)) (apply_entry e (fold apply_entry es (empty_snapshot\<lparr>sn_generation := g\<rparr>)))"
    by (intro apply_entry_mirrors) simp_all
  then show ?case unfolding eq fold_append by (simp del: fun_upd_apply)
qed

lemma open_entries_spec:
  assumes ok: "db_ok s"
  obtains es where "open_entries s = Inr es" and "distinct (map (rr_id \<circ> re_record) es)"
    and "\<And>e. e \<in> set es \<longleftrightarrow> entry_of s (rr_id (re_record e)) = Some e \<and> open_entry e"
proof -
  note tok = db_ok_text [OF ok]
  obtain rs where rs: "open_runs s = Inr rs"
    using records_where_eq [OF tok, of "sort_key rw_id" "\<lambda>r. rw_status r \<noteq> ''ended''"] by (auto simp: open_runs_def)
  note spec = records_where_sorted [OF ok rs [unfolded open_runs_def]]
  let ?e = "\<lambda>r. \<lparr>re_record = r, re_labels = labels_at s (rr_id r), re_limits = limits_at s (rr_id r)\<rparr>"
  have "open_entries s = Inr (map ?e rs)"
    unfolding open_entries_def rs rbind_simps
    by (rule rmap_Inr) (simp add: run_labels_eq [OF tok] run_limits_of_eq [OF tok])
  moreover have "distinct (map (rr_id \<circ> re_record) (map ?e rs))" using spec(1) by (simp add: o_def)
  moreover have "e \<in> set (map ?e rs) \<longleftrightarrow> entry_of s (rr_id (re_record e)) = Some e \<and> open_entry e" for e
  proof
    assume "e \<in> set (map ?e rs)"
    then obtain r where r: "r \<in> set rs" "e = ?e r" by auto
    then have "record_at s (rr_id r) = Some r" using spec(2) by blast
    moreover have "\<not> is_ended r"
      using r(1) unfolding spec(3) using tok by (auto simp: is_ended_rec text_ok_rows)
    ultimately show "entry_of s (rr_id (re_record e)) = Some e \<and> open_entry e"
      using r(2) by (simp add: entry_of_def open_entry_def)
  next
    assume "entry_of s (rr_id (re_record e)) = Some e \<and> open_entry e"
    then have e: "record_at s (rr_id (re_record e)) = Some (re_record e)" "e = ?e (re_record e)" "\<not> is_ended (re_record e)"
      by (cases e, auto simp: entry_of_def open_entry_def)+
    then obtain row where "row \<in> set (db_runs s)" "re_record e = rec_of s row"
      using record_at_iff [OF ok] by blast
    then have "re_record e \<in> set rs"
      unfolding spec(3) using e(3) tok by (auto simp: is_ended_rec text_ok_rows)
    then show "e \<in> set (map ?e rs)" using e(2) by auto
  qed
  ultimately show thesis by (rule that)
qed

lemma open_snapshot_mirrors:
  assumes ok: "db_ok s"
  shows "mirrors (entry_of s) (open_snapshot s)"
proof -
  obtain es where es: "open_entries s = Inr es" "distinct (map (rr_id \<circ> re_record) es)"
      "\<And>e. e \<in> set es \<longleftrightarrow> entry_of s (rr_id (re_record e)) = Some e \<and> open_entry e"
    using open_entries_spec [OF ok] by blast
  let ?sub = "entry_of s |` ((rr_id \<circ> re_record) ` set es)"
  obtain g where "open_snapshot s = fold apply_entry es (empty_snapshot\<lparr>sn_generation := g\<rparr>)"
  proof (cases "es = []")
    case True
    then have "open_snapshot s = fold apply_entry es (empty_snapshot\<lparr>sn_generation := 0\<rparr>)"
      by (simp add: open_snapshot_def es(1) publish_def empty_snapshot_def)
    then show thesis by (rule that)
  next
    case False
    then show thesis using that by (simp add: open_snapshot_def es(1) publish_def snapshot_with_def)
  qed
  then have mir: "mirrors ?sub (open_snapshot s)"
    using fold_open_mirrors [OF es(2) _ one_owner_entry_of [OF ok]] es(3) by simp
  have sub: "?sub x = Some e \<longleftrightarrow> entry_of s x = Some e \<and> open_entry e" for x e
  proof
    assume a: "?sub x = Some e"
    then obtain f where "f \<in> set es" "x = rr_id (re_record f)" "entry_of s x = Some e"
      by (auto simp: restrict_map_def split: if_splits)
    then show "entry_of s x = Some e \<and> open_entry e" using es(3) [of f] by simp
  next
    assume a: "entry_of s x = Some e \<and> open_entry e"
    then have "rr_id (re_record e) = x" by (auto simp: entry_of_def dest: record_at_id)
    then show "?sub x = Some e" using a es(3) [of e] by (auto simp: restrict_map_def)
  qed
  have runs: "sn_runs (open_snapshot s) x = (case entry_of s x of Some e \<Rightarrow> if open_entry e then Some e else None | None \<Rightarrow> None)" for x
  proof -
    have "sn_runs (open_snapshot s) x = (case ?sub x of Some e \<Rightarrow> if open_entry e then Some e else None | None \<Rightarrow> None)"
      using mir by (simp only: mirrors_def)
    moreover have "?sub x = (case entry_of s x of Some e \<Rightarrow> if open_entry e then Some e else None | None \<Rightarrow> None)"
      using sub [of x] by (cases "?sub x"; cases "entry_of s x") auto
    ultimately show ?thesis by (simp split: option.splits)
  qed
  have "sn_owners (open_snapshot s) i = Some x \<longleftrightarrow> (\<exists>e. ?sub x = Some e \<and> owns e i)" for i x
    using mir by (simp only: mirrors_def)
  with runs show ?thesis unfolding mirrors_def sub by (auto simp: owns_def)
qed

section \<open>Writes of the instance table\<close>

lemma find_map: "find P (map f xs) = map_option f (find (P \<circ> f) xs)"
  by (induction xs) auto

lemma instances_change_entry:
  assumes t: "t = s\<lparr>db_instances := is\<rparr>"
    and names: "\<And>row. row \<in> set (db_runs s) \<Longrightarrow> joined_name t (rw_instance row) = joined_name s (rw_instance row)"
  shows "entry_of t = entry_of s" and "record_at t = record_at s"
proof -
  have rows: "find_run t = find_run s" by (rule ext) (simp add: t find_run_def)
  have "rec_of t row = rec_of s row" if "row \<in> set (db_runs s)" for row
    using names [OF that] by (simp add: rec_of_def)
  then show rec: "record_at t = record_at s"
    by (intro ext) (auto simp: record_at_def rows dest: find_run_Some split: option.splits intro!: option.map_cong0)
  have "labels_at t = labels_at s" "limits_at t = limits_at s"
    by (rule labels_at_cong, simp add: t) (rule limits_at_cong, simp add: t)
  then show "entry_of t = entry_of s" by (intro ext) (simp add: entry_of_def rec)
qed

lemma set_state_tables:
  assumes ok: "db_ok s" and go: "set_state n st at s = Inr t"
  shows "db_ok t" and "entry_of t = entry_of s" and "record_at t = record_at s" and "outbox_part t = outbox_part s"
proof -
  define f :: "instance_row \<Rightarrow> instance_row" where "f = (\<lambda>i. if in_name i = n then i\<lparr>in_state := lifecycle_as_str st, in_updated := at\<rparr> else i)"
  have t: "t = s\<lparr>db_instances := map f (db_instances s)\<rparr>"
    using go by (simp add: set_state_def f_def split: if_splits)
  have f: "in_id (f i) = in_id i" "in_name (f i) = in_name i" for i by (simp_all add: f_def)
  have "joined_name t iid = joined_name s iid" for iid
    by (auto simp: joined_name_def joined_instance_def t find_map o_def f option.map_comp split: option.splits)
  with instances_change_entry [OF t] show "entry_of t = entry_of s" "record_at t = record_at s" by blast+
  have "map in_id (map f (db_instances s)) = map in_id (db_instances s)"
    "map in_name (map f (db_instances s)) = map in_name (db_instances s)" by (simp_all add: o_def f)
  moreover from this(1) have "in_id ` f ` set (db_instances s) = in_id ` set (db_instances s)"
    by (metis list.set_map)
  ultimately show "db_ok t" using ok by (simp add: t db_ok_defs instances_ok_def del: map_map)
  show "outbox_part t = outbox_part s" by (simp add: t outbox_part_def)
qed

lemma fold_max_ge: "x \<in> set xs \<Longrightarrow> x \<le> fold max xs (m::int)" and fold_max_start: "m \<le> fold max xs (m::int)"
  by (induction xs arbitrary: m) (auto, (meson max.cobounded1 max.cobounded2 order.trans)+)

lemma create_instance_tables:
  assumes ok: "db_ok s" and go: "create_instance n kind st home c u s = Inr t"
  shows "db_ok t" and "entry_of t = entry_of s" and "record_at t = record_at s" and "outbox_part t = outbox_part s"
proof -
  define new where "new = \<lparr>in_id = fold max (map in_id (db_instances s)) 0 + 1, in_name = n, in_kind = kind,
               in_state = lifecycle_as_str st, in_home = home, in_created = c, in_updated = u, in_generation = 0\<rparr>"
  have t: "t = s\<lparr>db_instances := db_instances s @ [new]\<rparr>" and fresh: "n \<notin> in_name ` set (db_instances s)"
    using go by (auto simp: create_instance_def new_def split: if_splits)
  have id: "in_id i < in_id new" if "i \<in> set (db_instances s)" for i
    using fold_max_ge [of "in_id i" "map in_id (db_instances s)" 0] that by (simp add: new_def)
  have "joined_name t (rw_instance row) = joined_name s (rw_instance row)" if row: "row \<in> set (db_runs s)" for row
  proof (cases "rw_instance row")
    case (Some i)
    then have "i \<in> in_id ` set (db_instances s)"
      using ok row by (simp add: db_ok_def run_keys_ok_def)
    then obtain x where x: "x \<in> set (db_instances s)" "in_id x = i" by auto
    then have "find (\<lambda>r. in_id r = i) (db_instances s) \<noteq> None" by (auto simp: find_None_all)
    moreover have "find P (xs @ [y]) = (case find P xs of Some z \<Rightarrow> Some z | None \<Rightarrow> if P y then Some y else None)"
      for P and xs :: "instance_row list" and y by (induction xs) auto
    ultimately show ?thesis by (auto simp: joined_name_def joined_instance_def t Some split: option.splits)
  qed simp
  with instances_change_entry [OF t] show "entry_of t = entry_of s" "record_at t = record_at s" by blast+
  have "in_id new \<notin> in_id ` set (db_instances s)" "in_name new = n" using id by (fastforce, simp add: new_def)
  then have "instances_ok t" using ok fresh by (auto simp: t db_ok_def instances_ok_def)
  then show "db_ok t" using ok by (auto simp: t db_ok_defs)
  show "outbox_part t = outbox_part s" by (simp add: t outbox_part_def)
qed

section \<open>Reachable states\<close>

text \<open>A launch names a fresh Run id or the id of an earlier launch, so the id of a process owner: it comes
  from \<open>RunId::mint\<close> or from the spawn record.\<close>

definition launch_ok :: "supervised_run \<Rightarrow> db \<Rightarrow> bool" where
  "launch_ok run s \<longleftrightarrow> (case record_at s (su_run run) of Some r \<Rightarrow> rr_owner r | None \<Rightarrow> True)"

text \<open>The steps of the engine: every job on Runs, the writes that concern other tables, and a restart.\<close>

inductive engine_step :: "encoder \<Rightarrow> engine \<Rightarrow> engine \<Rightarrow> bool" for enc where
  transition: "project_in_savepoint enc name new_state fate cause at en = (c, e, en') \<Longrightarrow> engine_step enc en en'"
| launch: "ensure_supervised_run enc run at en = Inr (c, en') \<Longrightarrow> launch_ok run (en_db en) \<Longrightarrow> engine_step enc en en'"
| breach: "mark_breach rid at (en_db en) = Inr (ch, s) \<Longrightarrow> commit_changes enc ch (en\<lparr>en_db := s\<rparr>) = Inr (c, en') \<Longrightarrow>
    engine_step enc en en'"
| relabel: "sync_run_labels enc name labels at en = Inr (u, c, en') \<Longrightarrow> engine_step enc en en'"
| child: "open_child_run enc request rid at en = Inr (got, c, en') \<Longrightarrow> engine_step enc en en'"
| close: "close_run_job enc rid at en = Inr (u, c, en') \<Longrightarrow> engine_step enc en en'"
| sweep: "sweep_job enc at en = Inr (u, c, en') \<Longrightarrow> engine_step enc en en'"
| unregistered: "ensure_run_row rid name at (en_db en) = Inr s \<Longrightarrow> engine_step enc en (en\<lparr>en_db := s\<rparr>)"
| add_instance: "create_instance n kind st home cr up (en_db en) = Inr s \<Longrightarrow> engine_step enc en (en\<lparr>en_db := s\<rparr>)"
| change_state: "set_state n st at (en_db en) = Inr s \<Longrightarrow> engine_step enc en (en\<lparr>en_db := s\<rparr>)"
| acknowledge: "ack_core given (en_db en) = Inr (v, s) \<Longrightarrow> engine_step enc en (en\<lparr>en_db := s\<rparr>)"
| event: "append_outbox json outbox_max_bytes (en_db en) = Inr (app, s) \<Longrightarrow> engine_step enc en (en\<lparr>en_db := s\<rparr>)"
| other_table: "run_tables s = run_tables (en_db en) \<Longrightarrow> outbox_part s = outbox_part (en_db en) \<Longrightarrow>
    engine_step enc en (en\<lparr>en_db := s\<rparr>)"
| restart: "engine_step enc en (en\<lparr>en_snap := open_snapshot (en_db en)\<rparr>)"

definition fresh_engine :: engine where
  "fresh_engine = \<lparr>en_db = empty_db [], en_snap = open_snapshot (empty_db [])\<rparr>"

inductive reachable :: "encoder \<Rightarrow> engine \<Rightarrow> bool" for enc where
  start: "reachable enc fresh_engine"
| step: "reachable enc en \<Longrightarrow> engine_step enc en en' \<Longrightarrow> reachable enc en'"

section \<open>The invariant\<close>

definition engine_ok :: "engine \<Rightarrow> bool" where
  "engine_ok en \<longleftrightarrow> db_ok (en_db en) \<and> outbox_ok (en_db en)
     \<and> mirrors (entry_of (en_db en)) (en_snap en) \<and> tree_ok (record_at (en_db en))"

lemma engine_ok_same_runs:
  assumes "engine_ok en" and "db_ok s" and "outbox_ok s" and "entry_of s = entry_of (en_db en)"
    and "record_at s = record_at (en_db en)"
  shows "engine_ok (en\<lparr>en_db := s\<rparr>)"
  using assms by (simp add: engine_ok_def)

text \<open>What every operation on Runs promises to the job around it.\<close>

definition keeps_runs :: "db \<Rightarrow> run_changes \<Rightarrow> db \<Rightarrow> bool" where
  "keeps_runs s ch t \<longleftrightarrow> grows (no_changes, s) (ch, t) \<and> outbox_part t = outbox_part s
     \<and> (tree_ok (record_at s) \<longrightarrow> tree_ok (record_at t))"

lemma committed_ok:
  assumes ok: "engine_ok en" and keeps: "keeps_runs (en_db en) ch s"
    and commit: "commit_changes enc ch (en\<lparr>en_db := s\<rparr>) = Inr (c, en')"
  shows "engine_ok en'"
proof -
  have en: "db_ok (en_db en)" "outbox_ok (en_db en)" "mirrors (entry_of (en_db en)) (en_snap en)"
      "tree_ok (record_at (en_db en))" using ok by (simp_all add: engine_ok_def)
  have g: "grows (no_changes, en_db en) (ch, s)" "outbox_part s = outbox_part (en_db en)" "tree_ok (record_at s)"
    using keeps en(4) by (simp_all add: keeps_runs_def)
  have oks: "db_ok s" "outbox_ok s" using grows_db_ok [OF g(1)] en outbox_part_ok [OF g(2)] by simp_all
  from commit_changes_spec [OF commit] oks(2)
  have c: "outbox_ok (en_db en')" "run_tables (en_db en') = run_tables s"
      "en_snap en' = publish (ch_entries ch) (en_snap en)" by simp_all
  have "mirrors (entry_of s) (publish (ch_entries ch) (en_snap en))" by (rule grows_mirrors [OF g(1) en(3)])
  then show ?thesis using oks c g(3) run_tables_cong [OF c(2)] by (simp add: engine_ok_def)
qed

section \<open>The operations leave the outbox alone\<close>

lemma save_run_outbox: "save_run r s = Inr t \<Longrightarrow> outbox_part t = outbox_part s"
  by (auto simp: save_run_Inr outbox_part_def)

lemma insert_run_outbox: "insert_run run s = Inr t \<Longrightarrow> outbox_part t = outbox_part s"
  by (erule insert_run_Inr) (auto simp: inserted_def Let_def outbox_part_def)

lemma replace_labels_outbox: "replace_labels rid src ls s = Inr t \<Longrightarrow> outbox_part t = outbox_part s"
  unfolding replace_labels_def
  by (erule rfold_invariant [where I = "\<lambda>u. outbox_part u = outbox_part s"])
    (auto simp: upsert_label_def outbox_part_def split: if_splits)

lemma note_change_outbox: "note_change r kind prior cause st = Inr st' \<Longrightarrow> snd st' = snd st"
  by (auto simp: note_change_def Let_def split: prod.splits)

lemma move_to_outbox: "move_to r to as cause at st = Inr (x, st') \<Longrightarrow> outbox_part (snd st') = outbox_part (snd st)"
  by (auto simp: move_to_def Let_def dest!: save_run_outbox note_change_outbox split: if_splits)

lemma cascade_child_outbox:
  "cascade_child to stopped at c st = Inr st' \<Longrightarrow> outbox_part (snd st') = outbox_part (snd st)"
  by (auto simp: cascade_child_def Let_def dest!: move_to_outbox split: if_splits)

lemma cascade_outbox: "cascade owner from to stopped at st = Inr st' \<Longrightarrow> outbox_part (snd st') = outbox_part (snd st)"
  by (auto simp: cascade_def split: if_splits dest: cascade_child_outbox
      elim!: rfold_invariant [where I = "\<lambda>u. outbox_part (snd u) = outbox_part (snd st)"])

lemmas op_outbox = save_run_outbox insert_run_outbox replace_labels_outbox note_change_outbox move_to_outbox cascade_outbox

lemma project_transition_outbox:
  "project_transition n new_state fate cause at s = Inr (ch, t) \<Longrightarrow> outbox_part t = outbox_part s"
  by (auto simp: project_transition_def split: option.splits dest!: op_outbox)

lemma mark_breach_outbox: "mark_breach rid at s = Inr (ch, t) \<Longrightarrow> outbox_part t = outbox_part s"
  by (auto simp: mark_breach_def split: option.splits if_splits dest!: op_outbox)

lemma sync_depth_outbox: "sync_depth r depth wire at s = Inr (ch, t) \<Longrightarrow> outbox_part t = outbox_part s"
  by (auto simp: sync_depth_def Let_def split: if_splits dest!: op_outbox)

lemma sync_bound_labels_outbox: "sync_bound_labels rid labels at s = Inr (ch, t) \<Longrightarrow> outbox_part t = outbox_part s"
  by (auto simp: sync_bound_labels_def Let_def split: if_splits option.splits dest!: op_outbox)

lemma end_replaced_outbox: "end_replaced run at s = Inr (ch, t) \<Longrightarrow> outbox_part t = outbox_part s"
  by (auto simp: end_replaced_def split: option.splits if_splits dest!: op_outbox)

lemma reopen_outbox: "reopen r at st = Inr (r', st') \<Longrightarrow> outbox_part (snd st') = outbox_part (snd st)"
  by (auto simp: reopen_def Let_def split: if_splits dest!: op_outbox)

lemma ensure_supervised_outbox: "ensure_supervised run at s = Inr (ch, t) \<Longrightarrow> outbox_part t = outbox_part s"
  by (auto simp: ensure_supervised_def Let_def split: if_splits prod.splits
      dest!: op_outbox end_replaced_outbox reopen_outbox sync_depth_outbox sync_bound_labels_outbox)

lemma open_child_outbox: "open_child request rid at s = Inr (got, ch, t) \<Longrightarrow> outbox_part t = outbox_part s"
  by (auto simp: open_child_def open_new_child_def Let_def from_store_Inr split: if_splits option.splits dest!: op_outbox)

lemma close_run_outbox: "close_run rid at s = Inr (ch, t) \<Longrightarrow> outbox_part t = outbox_part s"
  by (auto simp: close_run_def from_store_Inr split: if_splits option.splits dest!: op_outbox)

lemma end_runs_outbox:
  "end_runs_without_a_process at s = Inr (ch, t) \<Longrightarrow> outbox_part t = outbox_part s"
proof -
  assume go: "end_runs_without_a_process at s = Inr (ch, t)"
  have one: "outbox_part (snd st') = outbox_part (snd st)" if "end_owner at r st = Inr st'" for r st st'
    using that by (auto simp: end_owner_def dest!: op_outbox)
  from go obtain rs where "rfold (end_owner at) rs (no_changes, s) = Inr (ch, t)"
    by (auto simp: end_runs_without_a_process_def)
  from rfold_invariant [OF this, where I = "\<lambda>u. outbox_part (snd u) = outbox_part s"] one
  show ?thesis by auto
qed

section \<open>Every operation keeps the tree\<close>

lemma project_transition_keeps:
  assumes ok: "db_ok s" and go: "project_transition n new_state fate cause at s = Inr (ch, t)"
  shows "keeps_runs s ch t"
proof -
  have "tree_ok (record_at t)" if tree: "tree_ok (record_at s)"
  proof (cases "owner_run s n")
    case None
    then show ?thesis using project_transition_spec(2) [OF ok go] tree by simp
  next
    case (Some run)
    then have cur: "record_at s (rr_id run) = Some run" "rr_owner run" "\<not> is_ended run" "rr_instance run \<noteq> None"
      by (simp_all add: owner_run_iff [OF ok])
    then show ?thesis
      using project_transition_spec(2) [OF ok go] tree owner_moved_tree [OF ok tree cur]
      by (auto simp: Some split: option.splits prod.splits)
  qed
  then show ?thesis
    using project_transition_spec(1) [OF ok go] project_transition_outbox [OF go] by (simp add: keeps_runs_def)
qed

lemma end_replaced_tree:
  assumes ok: "db_ok s" and go: "end_replaced run at s = Inr (ch, t)" and tree: "tree_ok (record_at s)"
  shows "tree_ok (record_at t)"
  using end_replaced_spec(2) [OF ok go] tree owner_moved_tree [OF ok tree]
  by (auto simp: owner_run_iff [OF ok])

lemma mark_breach_keeps:
  assumes ok: "db_ok s" and go: "mark_breach rid at s = Inr (ch, t)"
  shows "keeps_runs s ch t"
proof -
  have "tree_ok (record_at t)" if tree: "tree_ok (record_at s)"
  proof (cases "record_at s rid")
    case (Some r)
    let ?r = "moved r (rr_status r) (rr_anomalies r @ [Breach]) None at"
    have "tree_ok ((record_at s)(rid \<mapsto> ?r))"
      by (rule tree_ok_upd [OF tree Some]) (simp_all add: is_ended_def)
    then show ?thesis using mark_breach_spec(2) [OF ok go] tree by (simp add: Some split: if_splits)
  qed (use mark_breach_spec(2) [OF ok go] tree in simp)
  then show ?thesis
    using mark_breach_spec(1) [OF ok go] mark_breach_outbox [OF go] by (simp add: keeps_runs_def)
qed

lemma sync_bound_labels_keeps:
  assumes ok: "db_ok s" and go: "sync_bound_labels rid labels at s = Inr (ch, t)"
  shows "keeps_runs s ch t"
proof -
  have "tree_ok (record_at t)" if tree: "tree_ok (record_at s)"
    using sync_bound_labels_spec(2) [OF ok go] tree
    by (auto intro!: tree_ok_upd [OF tree] simp: same_identity_def is_ended_def)
  then show ?thesis
    using sync_bound_labels_spec(1) [OF ok go] sync_bound_labels_outbox [OF go] by (simp add: keeps_runs_def)
qed

lemma close_run_keeps:
  assumes ok: "db_ok s" and go: "close_run rid at s = Inr (ch, t)"
  shows "keeps_runs s ch t"
proof -
  have "tree_ok (record_at t)" if tree: "tree_ok (record_at s)"
    using close_run_spec(2) [OF ok go] tree
    by (auto intro!: tree_ok_upd [OF tree] simp: is_ended_def)
  then show ?thesis
    using close_run_spec(1) [OF ok go] close_run_outbox [OF go] by (simp add: keeps_runs_def)
qed

lemma end_runs_keeps:
  assumes ok: "db_ok s" and go: "end_runs_without_a_process at s = Inr (ch, t)"
  shows "keeps_runs s ch t"
proof -
  have g: "grows (no_changes, s) (ch, t) \<and> True"
    by (rule end_runs_spec [OF ok go, where I = "\<lambda>_. True"]) simp_all
  have "tree_ok (record_at t)" if tree: "tree_ok (record_at s)"
    using end_runs_spec [OF ok go, where I = "\<lambda>u. tree_ok (record_at u)"] tree owner_moved_tree by blast
  then show ?thesis using g end_runs_outbox [OF go] by (simp add: keeps_runs_def)
qed

lemma ensure_supervised_keeps:
  assumes ok: "db_ok s" and go: "ensure_supervised run at s = Inr (ch, t)" and launch: "launch_ok run s"
  shows "keeps_runs s ch t"
proof -
  obtain ch0 u where u: "end_replaced run at s = Inr (ch0, u)" "grows (no_changes, s) (ch, t)"
      "db_ok u" "db_ok t" "(\<exists>r r'. record_at u (su_run run) = Some r \<and> \<not> su_fresh run \<and> same_identity r r'
            \<and> \<not> is_ended r' \<and> record_at t = (record_at u)(su_run run \<mapsto> r'))
       \<or> (record_at u (su_run run) = None
            \<and> record_at t = (record_at u)(su_run run \<mapsto> fresh_record run at))"
    using ensure_supervised_spec [OF ok go] .
  have "tree_ok (record_at t)" if tree: "tree_ok (record_at s)"
  proof -
    have treeu: "tree_ok (record_at u)" by (rule end_replaced_tree [OF ok u(1) tree])
    have owner: "rr_owner r" if r: "record_at u (su_run run) = Some r" for r
    proof (cases "u = s")
      case True
      then show ?thesis using launch r by (simp add: launch_ok_def)
    next
      case False
      then obtain old where old: "owner_run s (su_instance run) = Some old"
          "owner_moved s old Ended (rr_anomalies old) (Some ''replaced'') False at u"
        using end_replaced_spec(2) [OF ok u(1)] by auto
      then have "same_tree (record_at s) (record_at u)"
        by (intro owner_moved_same_tree) (simp_all add: owner_run_iff [OF ok])
      then have "rel_option same_identity (record_at s (su_run run)) (Some r)"
        unfolding same_tree_def r [symmetric] by (rule spec)
      then obtain r0 where "record_at s (su_run run) = Some r0" "same_identity r0 r"
        by (cases "record_at s (su_run run)") auto
      then show ?thesis using launch by (simp add: launch_ok_def same_identity_def)
    qed
    from u(5) show ?thesis
    proof
      assume "\<exists>r r'. record_at u (su_run run) = Some r \<and> \<not> su_fresh run \<and> same_identity r r'
            \<and> \<not> is_ended r' \<and> record_at t = (record_at u)(su_run run \<mapsto> r')"
      then show ?thesis using owner by (auto intro!: tree_ok_upd [OF treeu])
    next
      assume "record_at u (su_run run) = None
            \<and> record_at t = (record_at u)(su_run run \<mapsto> fresh_record run at)"
      then show ?thesis using tree_ok_insert_owner [OF treeu] by (simp add: fresh_record_def)
    qed
  qed
  then show ?thesis using u(2) ensure_supervised_outbox [OF go] by (simp add: keeps_runs_def)
qed

lemma open_child_keeps:
  assumes ok: "db_ok s" and go: "open_child request rid at s = Inr (got, ch, t)"
  shows "keeps_runs s ch t"
proof (cases "open_new_child request rid at s = Inr (got, ch, t)")
  case True
  obtain p where p: "find_parent s (cq_parent request) = Some p" "\<not> is_ended p"
      "\<And>n R. rooted (record_at s) (rr_id p) n R \<Longrightarrow> n < max_run_nesting \<Longrightarrow> Suc n < max_run_nesting"
      "grows (no_changes, s) (ch, t)" "record_at s rid = None"
      "record_at t = (record_at s)(rid \<mapsto> child_record p rid at)"
    using open_new_child_spec [OF ok True] by metis
  have "tree_ok (record_at t)" if tree: "tree_ok (record_at s)"
    unfolding p(6)
    by (rule tree_ok_insert_child [OF tree p(5) find_parent_current [OF ok p(1)]])
      (use p(2,3) in \<open>simp_all add: child_record_def\<close>)
  then show ?thesis using p(4) open_child_outbox [OF go] by (simp add: keeps_runs_def)
next
  case False
  then have "ch = no_changes \<and> t = s"
    using go by (auto simp: open_child_def from_store_Inr split: option.splits)
  then show ?thesis by (simp add: keeps_runs_def)
qed

section \<open>Every step keeps the invariant\<close>

lemma run_job_Inr:
  assumes "run_job enc job en = Inr (v, c, en')"
  obtains ch s where "job (en_db en) = Inr (v, ch, s)" and "commit_changes enc ch (en\<lparr>en_db := s\<rparr>) = Inr (c, en')"
  using assms by (auto simp: run_job_def from_store_Inr split: prod.splits)

lemma run_job_ok:
  assumes "engine_ok en" and "run_job enc job en = Inr (v, c, en')"
    and "\<And>ch s. job (en_db en) = Inr (v, ch, s) \<Longrightarrow> keeps_runs (en_db en) ch s"
  shows "engine_ok en'"
proof (rule run_job_Inr [OF assms(2)])
  fix ch s
  assume "job (en_db en) = Inr (v, ch, s)" "commit_changes enc ch (en\<lparr>en_db := s\<rparr>) = Inr (c, en')"
  then show ?thesis using committed_ok [OF assms(1) assms(3)] by blast
qed

lemma no_value_Inr: "no_value r = Inr (u, st) \<longleftrightarrow> r = Inr st"
  by (cases st) (auto simp: no_value_def from_store_Inr rbind_eq_Inr)

lemma keeps_runs_refl: "keeps_runs s no_changes s"
  by (simp add: keeps_runs_def)

lemma project_in_savepoint_ok:
  assumes ok: "engine_ok en" and go: "project_in_savepoint enc name new_state fate cause at en = (c, e, en')"
  shows "engine_ok en'"
proof (cases "rbind (project_transition name new_state fate cause at (en_db en)) (\<lambda>(ch, s).
             commit_changes enc ch (en\<lparr>en_db := s\<rparr>))")
  case (Inl x)
  then show ?thesis using go ok by (simp add: project_in_savepoint_def)
next
  case (Inr r)
  then obtain ch s where p: "project_transition name new_state fate cause at (en_db en) = Inr (ch, s)"
      "commit_changes enc ch (en\<lparr>en_db := s\<rparr>) = Inr (c, en')"
    using go by (auto simp: project_in_savepoint_def split: prod.splits)
  from ok have "db_ok (en_db en)" by (simp add: engine_ok_def)
  from committed_ok [OF ok project_transition_keeps [OF this p(1)] p(2)] show ?thesis .
qed

lemma ensure_run_row_ok:
  assumes ok: "engine_ok en" and go: "ensure_run_row rid name at (en_db en) = Inr s"
  shows "engine_ok (en\<lparr>en_db := s\<rparr>)"
proof -
  have en: "db_ok (en_db en)" "outbox_ok (en_db en)" "mirrors (entry_of (en_db en)) (en_snap en)"
      "tree_ok (record_at (en_db en))" using ok by (simp_all add: engine_ok_def)
  note row = ensure_run_row_step [OF en(1) go]
  have out: "outbox_ok s"
    using en(2) outbox_part_ok [of s "en_db en"] go
    by (auto simp: ensure_run_row_def outbox_part_def split: if_splits)
  show ?thesis
  proof (cases "entry_of (en_db en) rid")
    case (Some e)
    then show ?thesis using row ok by simp
  next
    case None
    then obtain e where e: "entry_of s = (entry_of (en_db en))(rid \<mapsto> e)" "is_ended (re_record e)"
        "rr_parent (re_record e) = None" "rr_owner (re_record e)"
      using row by (metis fun_upd_apply ext)
    have rec: "record_at s = (record_at (en_db en))(rid \<mapsto> re_record e)"
      by (rule ext) (simp add: record_at_entry e(1))
    moreover have "record_at (en_db en) rid = None" using None by (simp add: record_at_entry)
    moreover have "rr_id (re_record e) = rid" using rec by (intro record_at_id [of s]) simp
    ultimately have "tree_ok (record_at s)"
      using e(3,4) tree_ok_insert_owner [OF en(4)] by simp
    moreover have "mirrors (entry_of s) (en_snap en)"
      using en(3) None e(2) unfolding mirrors_def e(1)
      by (auto simp: open_entry_def owns_def)
    ultimately show ?thesis using row out by (simp add: engine_ok_def)
  qed
qed

lemma engine_step_ok:
  assumes "engine_step enc en en'" and "engine_ok en"
  shows "engine_ok en'"
  using assms
proof (induction rule: engine_step.induct)
  case (transition name new_state fate cause at en c e en')
  then show ?case by (blast intro: project_in_savepoint_ok)
next
  case (launch run at en c en')
  then obtain ch s where p: "ensure_supervised run at (en_db en) = Inr (ch, s)"
      "commit_changes enc ch (en\<lparr>en_db := s\<rparr>) = Inr (c, en')"
    by (auto simp: ensure_supervised_run_def split: prod.splits)
  have "db_ok (en_db en)" using launch by (simp add: engine_ok_def)
  from committed_ok [OF launch(3) ensure_supervised_keeps [OF this p(1) launch(2)] p(2)] show ?case .
next
  case (breach rid at en ch s c en')
  then have "db_ok (en_db en)" by (simp add: engine_ok_def)
  from committed_ok [OF breach(3) mark_breach_keeps [OF this breach(1)] breach(2)] show ?case .
next
  case (relabel name labels at en u c en')
  then show ?case
    unfolding sync_run_labels_def
    by (elim run_job_ok [rotated]) (auto simp: no_value_Inr engine_ok_def keeps_runs_refl
        split: option.splits intro: sync_bound_labels_keeps)
next
  case (child request rid at en got c en')
  then show ?case
    unfolding open_child_run_def
    by (elim run_job_ok [rotated]) (auto simp: engine_ok_def intro: open_child_keeps)
next
  case (close rid at en u c en')
  then show ?case
    unfolding close_run_job_def
    by (elim run_job_ok [rotated]) (auto simp: engine_ok_def intro: close_run_keeps)
next
  case (sweep at en u c en')
  then show ?case
    unfolding sweep_job_def
    by (elim run_job_ok [rotated]) (auto simp: no_value_Inr engine_ok_def intro: end_runs_keeps)
next
  case (unregistered rid name at en s)
  then show ?case by (blast intro: ensure_run_row_ok)
next
  case (add_instance n kind st home cr up en s)
  then show ?case
    using create_instance_tables [of "en_db en" n kind st home cr up s] outbox_part_ok [of s "en_db en"]
    by (intro engine_ok_same_runs) (auto simp: engine_ok_def)
next
  case (change_state n st at en s)
  then show ?case
    using set_state_tables [of "en_db en" n st at s] outbox_part_ok [of s "en_db en"]
    by (intro engine_ok_same_runs) (auto simp: engine_ok_def)
next
  case (acknowledge given en v s)
  have "run_tables s = run_tables (en_db en)"
    using acknowledge(1) by (auto simp: ack_core_def Let_def set_outbox_ack_def run_tables_def split: sum.splits if_splits)
  from run_tables_cong [OF this] show ?case
    using acknowledge(2) ack_core_ok [OF _ acknowledge(1)]
    by (intro engine_ok_same_runs) (auto simp: engine_ok_def)
next
  case (event json en app s)
  then have "outbox_ok (en_db en)" by (simp add: engine_ok_def)
  from run_tables_cong [OF append_outbox_tables [OF this event(1)]] append_outbox_ok [OF this event(1)] event(2)
  show ?case by (intro engine_ok_same_runs) (auto simp: engine_ok_def)
next
  case (other_table s en)
  then show ?case
    using run_tables_cong [OF other_table(1)] outbox_part_ok [OF other_table(2)]
    by (intro engine_ok_same_runs) (auto simp: engine_ok_def)
next
  case (restart en)
  then show ?case using open_snapshot_mirrors by (simp add: engine_ok_def)
qed

lemma reachable_ok: "reachable enc en \<Longrightarrow> engine_ok en"
proof (induction rule: reachable.induct)
  case start
  have "db_ok (empty_db [])" by (rule db_ok_empty) simp_all
  moreover have "record_at (empty_db []) = (\<lambda>_. None)"
    by (rule ext) (simp add: record_at_def find_run_def empty_db_def)
  ultimately show ?case
    using outbox_ok_empty [of "[]"] open_snapshot_mirrors tree_ok_empty
    by (simp add: engine_ok_def fresh_engine_def)
qed (rule engine_step_ok)

end
