(* ===== verification/Run_Demo.thy ===== *)
theory Run_Demo
  imports Run_System
begin

text \<open>
  A concrete reachable engine, built step by step from the fresh one: an instance, its launch and a child
  Run under it. The properties of the Run subsystem are applied to it.
\<close>

definition demo_encoder :: encoder where
  "demo_encoder ev = Some ''{}''"

definition demo_instance :: instance_row where
  "demo_instance = \<lparr>in_id = 1, in_name = ''a'', in_kind = ''k'', in_state = ''failed'', in_home = ''h'',
     in_created = ''t0'', in_updated = ''t0'', in_generation = 0\<rparr>"

definition demo_launch :: supervised_run where
  "demo_launch = \<lparr>su_instance = ''a'', su_run = ''r1'', su_wire = True, su_labels = [], su_fresh = True\<rparr>"

definition demo_request :: child_request where
  "demo_request = \<lparr>cq_parent = ParentInstance ''a'', cq_labels = [], cq_limits = limits_default,
     cq_external = Some ''job''\<rparr>"

definition demo_owner :: run_record where
  "demo_owner = fresh_record demo_launch ''t1''"

definition demo_child :: run_record where
  "demo_child = child_record demo_owner ''r2'' ''t2''"

text \<open>The databases after each step, outbox apart.\<close>

definition demo_db0 :: db where
  "demo_db0 = (empty_db [])\<lparr>db_instances := [demo_instance]\<rparr>"

definition demo_db1 :: db where
  "demo_db1 = demo_db0\<lparr>db_runs := [row_of (Some 1) demo_owner]\<rparr>"

definition demo_db2 :: db where
  "demo_db2 = demo_db1\<lparr>db_runs := [row_of (Some 1) demo_owner, row_of (Some 1) demo_child],
     db_identities := [\<lparr>id_binding = ''host'', id_external = ''job'', id_run = ''r2'', id_created = ''t2''\<rparr>]\<rparr>"

lemmas demo_defs = demo_db0_def demo_db1_def demo_db2_def demo_instance_def demo_launch_def demo_owner_def
  demo_child_def demo_request_def empty_db_def fresh_record_def child_record_def row_of_def

lemma demo_name: "instance_name_new ''a'' = Inr ''a''"
  by code_simp

lemma demo_anomalies: "anomalies_encode [] = []" "anomalies_decode [] = []"
  by code_simp+

lemma demo_wire:
  "depth_from_wire ''supervised'' = Some Supervised" "status_from_wire ''active'' = Some Active"
  by code_simp+

lemmas demo_ops = insert_run_def optional_instance_id_def instance_id_def insert_run_row_def owner_clash_def
  open_owner_row_def limit_entries_def limits_default_def insert_identity_def note_change_def run_labels_def
  run_limits_of_def records_where_def read_record_def find_run_def joined_name_def joined_instance_def
  demo_name demo_anomalies demo_wire no_changes_def Let_def

lemma demo_create: "create_instance ''a'' ''k'' Failed ''h'' ''t0'' ''t0'' (empty_db []) = Inr demo_db0"
  by (simp add: create_instance_def demo_defs)

lemma demo_ensure: "\<exists>ch. ensure_supervised demo_launch ''t1'' demo_db0 = Inr (ch, demo_db1) \<and> length (ch_events ch) = 1"
  by (simp add: ensure_supervised_def end_replaced_def open_process_run_def run_record_of_def demo_defs demo_ops)

definition no_outbox :: "db \<Rightarrow> outbox_row list \<Rightarrow> int \<Rightarrow> int \<Rightarrow> db" where
  "no_outbox s rows n b = s\<lparr>db_outbox := rows, db_outbox_seq := n, db_outbox_bytes := b\<rparr>"

lemma demo_open:
  "\<exists>ch. open_child demo_request ''r2'' ''t2'' (no_outbox demo_db1 rows n b) = Inr (''r2'', ch, no_outbox demo_db2 rows n b)
     \<and> length (ch_events ch) = 1"
  by (simp add: open_child_def open_new_child_def from_store_def identity_run_def resolve_parent_def open_process_run_def
      is_ended_def run_record_of_def run_chain_def max_run_nesting_def numeral_eq_Suc check_action_def
      host_identity_binding_def no_outbox_def demo_defs demo_ops)

text \<open>One event fits the outbox of every state the demonstration reaches.\<close>

lemma demo_commit:
  assumes "engine_ok en" and "db_outbox_seq (en_db en) < 100" and "length (ch_events ch) < 100"
    and "outbox_ok s" and "db_outbox_seq s = db_outbox_seq (en_db en)"
  shows "\<exists>c en' rows b. commit_changes demo_encoder ch (en\<lparr>en_db := s\<rparr>) = Inr (c, en')
    \<and> en_db en' = no_outbox s rows (db_outbox_seq s + int (length (ch_events ch))) b"
proof -
  have "outbox_ok (en_db (en\<lparr>en_db := s\<rparr>))"
    "db_outbox_seq (en_db (en\<lparr>en_db := s\<rparr>)) + int (length (ch_events ch)) < 2 ^ 63"
    "\<And>ev. demo_encoder ev \<noteq> None" using assms by (simp_all add: demo_encoder_def)
  then obtain c en' rows b where c: "commit_changes demo_encoder ch (en\<lparr>en_db := s\<rparr>) = Inr (c, en')"
      "en_db en' = (en_db (en\<lparr>en_db := s\<rparr>))\<lparr>db_outbox := rows,
        db_outbox_seq := db_outbox_seq (en_db (en\<lparr>en_db := s\<rparr>)) + int (length (ch_events ch)), db_outbox_bytes := b\<rparr>"
    by (rule commit_changes_total)
  then have "en_db en' = no_outbox s rows (db_outbox_seq s + int (length (ch_events ch))) b"
    by (simp add: no_outbox_def)
  with c(1) show ?thesis by blast
qed

lemma no_outbox_no_outbox [simp]: "no_outbox (no_outbox s r n b) r' n' b' = no_outbox s r' n' b'"
  by (simp add: no_outbox_def)

lemma no_outbox_fields [simp]:
  "db_outbox_seq (no_outbox s r n b) = n" "run_tables (no_outbox s r n b) = run_tables s"
  "db_instances (no_outbox s r n b) = db_instances s" "db_runs (no_outbox s r n b) = db_runs s"
  by (simp_all add: no_outbox_def run_tables_def)

lemma demo_reachable0:
  obtains en where "reachable demo_encoder en" and "en_db en = demo_db0"
proof -
  have "engine_step demo_encoder fresh_engine (fresh_engine\<lparr>en_db := demo_db0\<rparr>)"
    by (rule add_instance [where n = "''a''" and kind = "''k''" and st = Failed and home = "''h''" and cr = "''t0''" and up = "''t0''"])
      (simp add: fresh_engine_def demo_create)
  from reachable.step [OF reachable.start this] show thesis using that by (simp add: fresh_engine_def)
qed

lemma demo_reachable1:
  obtains en rows n b where "reachable demo_encoder en" and "en_db en = no_outbox demo_db1 rows n b" and "n < 50"
proof -
  obtain en where en: "reachable demo_encoder en" "en_db en = demo_db0" by (rule demo_reachable0)
  have ok: "engine_ok en" by (rule reachable_ok [OF en(1)])
  obtain ch where ch: "ensure_supervised demo_launch ''t1'' demo_db0 = Inr (ch, demo_db1)"
      "length (ch_events ch) = 1" using demo_ensure by blast
  have "outbox_ok demo_db1" "db_outbox_seq demo_db1 = 0"
    using ok outbox_part_ok [of demo_db1 demo_db0]
    by (simp_all add: engine_ok_def en(2)) (simp_all add: demo_defs outbox_part_def)
  moreover have "db_outbox_seq demo_db0 = 0" by (simp add: demo_defs)
  ultimately obtain c en' rows b where commit: "commit_changes demo_encoder ch (en\<lparr>en_db := demo_db1\<rparr>) = Inr (c, en')"
      "en_db en' = no_outbox demo_db1 rows (0 + int (length (ch_events ch))) b"
    using demo_commit [OF ok, of ch demo_db1] ch(2) en(2) by auto
  have "ensure_supervised_run demo_encoder demo_launch ''t1'' en = Inr (c, en')"
    by (simp add: ensure_supervised_run_def en(2) ch(1) commit(1))
  moreover have "launch_ok demo_launch (en_db en)"
    by (simp add: launch_ok_def en(2) record_at_def find_run_def demo_defs)
  ultimately have "reachable demo_encoder en'" using launch reachable.step [OF en(1)] by blast
  then show thesis using that commit(2) ch(2) by simp
qed

lemma demo_reachable2_seq:
  obtains en rows n b where "reachable demo_encoder en" and "en_db en = no_outbox demo_db2 rows n b" and "n < 60"
proof -
  obtain en rows n b where en: "reachable demo_encoder en" "en_db en = no_outbox demo_db1 rows n b" "n < 50"
    by (rule demo_reachable1)
  have ok: "engine_ok en" by (rule reachable_ok [OF en(1)])
  obtain ch where ch: "open_child demo_request ''r2'' ''t2'' (no_outbox demo_db1 rows n b)
        = Inr (''r2'', ch, no_outbox demo_db2 rows n b)" "length (ch_events ch) = 1"
    using demo_open by blast
  have "outbox_ok (no_outbox demo_db2 rows n b)"
    using ok outbox_part_ok [of "no_outbox demo_db2 rows n b" "en_db en"]
    by (simp add: engine_ok_def en(2)) (simp add: no_outbox_def demo_db2_def outbox_part_def)
  then obtain c en' rows' b' where commit: "commit_changes demo_encoder ch (en\<lparr>en_db := no_outbox demo_db2 rows n b\<rparr>) = Inr (c, en')"
      "en_db en' = no_outbox demo_db2 rows' (n + 1) b'"
    using demo_commit [OF ok, of ch "no_outbox demo_db2 rows n b"] ch(2) en(2,3) by auto
  have "open_child_run demo_encoder demo_request ''r2'' ''t2'' en = Inr (''r2'', c, en')"
    by (simp add: open_child_run_def run_job_def en(2) ch(1) commit(1) from_store_def)
  then have "reachable demo_encoder en'" using child reachable.step [OF en(1)] by blast
  then show thesis using that [OF _ commit(2)] en(3) by simp
qed

lemma demo_reachable2:
  obtains en rows n b where "reachable demo_encoder en" and "en_db en = no_outbox demo_db2 rows n b"
  by (rule demo_reachable2_seq)

lemma demo_entries:
  "record_at (no_outbox demo_db2 rows n b) ''r1'' = Some demo_owner"
  "record_at (no_outbox demo_db2 rows n b) ''r2'' = Some demo_child"
  by (simp_all add: record_at_def no_outbox_def rec_of_def demo_defs demo_ops
      depth_from_wire_def all_depths_def)

lemma demo_open_entry:
  "\<exists>e. entry_of (no_outbox demo_db2 rows n b) ''r1'' = Some e \<and> owns e ''a'' \<and> open_entry e"
  by (simp add: entry_of_def demo_entries owns_def open_entry_def)
    (simp add: demo_owner_def fresh_record_def is_ended_def demo_launch_def)

end
