(* ===== verification/Run_Properties.thy ===== *)
theory Run_Properties
  imports Run_Demo
begin

text \<open>
  The properties of the Run subsystem: of every reachable engine, and of each job on it.
\<close>

section \<open>Every reachable engine\<close>

lemma open_entries_iff:
  assumes "db_ok s"
  shows "\<exists>es. open_entries s = Inr es
    \<and> (\<forall>e. e \<in> set es \<longleftrightarrow> entry_of s (rr_id (re_record e)) = Some e \<and> open_entry e)"
proof (rule open_entries_spec [OF assms])
  fix es
  assume "open_entries s = Inr es"
    and "\<And>e. e \<in> set es \<longleftrightarrow> entry_of s (rr_id (re_record e)) = Some e \<and> open_entry e"
  then show ?thesis by simp
qed



text \<open>(C21) The Runs of every reachable engine form bounded trees: every Run hangs, through fewer than eight
  parents, from a process-owning Run without a parent and of the same instance; process owners are never
  nested; an open Run never hangs from an ended owner; and no two open process owners share an instance.\<close>

theorem runs_form_bounded_trees:
  assumes "reachable enc en" and "record_at (en_db en) x = Some r"
  shows "(\<exists>n R. n < max_run_nesting \<and> anc (parent_of (en_db en)) n x = Some (rr_id R)
            \<and> record_at (en_db en) (rr_id R) = Some R \<and> rr_owner R \<and> rr_parent R = None
            \<and> rr_instance R = rr_instance r \<and> (rr_owner r \<longrightarrow> R = r) \<and> (\<not> is_ended r \<longrightarrow> \<not> is_ended R))
     \<and> (\<forall>y q. record_at (en_db en) y = Some q \<longrightarrow> rr_owner r \<longrightarrow> rr_owner q \<longrightarrow> \<not> is_ended r \<longrightarrow> \<not> is_ended q \<longrightarrow>
          rr_instance r \<noteq> None \<longrightarrow> rr_instance q = rr_instance r \<longrightarrow> y = x)"
proof -
  have ok: "db_ok (en_db en)" "tree_ok (record_at (en_db en))"
    using reachable_ok [OF assms(1)] by (simp_all add: engine_ok_def)
  obtain n R where n: "n < max_run_nesting" "rooted (record_at (en_db en)) x n R" "rr_instance R = rr_instance r"
      "rr_owner r \<Longrightarrow> n = 0" "\<not> is_ended r \<Longrightarrow> \<not> is_ended R"
    using ok(2) assms(2) by (rule tree_okD) blast
  have "rr_owner r \<longrightarrow> R = r" using n(2,4) assms(2) by (auto simp: rooted_def)
  moreover have "y = x" if q: "record_at (en_db en) y = Some q" "rr_owner r" "rr_owner q" "\<not> is_ended r" "\<not> is_ended q"
      "rr_instance r \<noteq> None" "rr_instance q = rr_instance r" for y q
  proof -
    obtain i where i: "rr_instance r = Some i" using q(6) by auto
    have "owner_run (en_db en) i = Some r" "owner_run (en_db en) i = Some q"
      using q i assms(2) record_at_id [OF q(1)] record_at_id [OF assms(2)] by (simp_all add: owner_run_iff [OF ok(1)])
    then show ?thesis using record_at_id [OF q(1)] record_at_id [OF assms(2)] by simp
  qed
  ultimately show ?thesis using n by (auto simp: rooted_def parent_of_par_of)
qed

lemma runs_form_bounded_trees_witness:
  "\<exists>en n R. reachable demo_encoder en \<and> record_at (en_db en) ''r2'' = Some demo_child
     \<and> anc (parent_of (en_db en)) n ''r2'' = Some (rr_id R) \<and> rr_owner R \<and> \<not> is_ended R"
proof -
  obtain en rows n b where en: "reachable demo_encoder en" "en_db en = no_outbox demo_db2 rows n b"
    by (rule demo_reachable2)
  have r: "record_at (en_db en) ''r2'' = Some demo_child" by (simp add: en(2) demo_entries)
  have "\<not> is_ended demo_child" by (simp add: is_ended_def demo_child_def child_record_def)
  with runs_form_bounded_trees [OF en(1) r] r en(1) show ?thesis by blast
qed

section \<open>A lifecycle transition\<close>

lemma saved_row_open: "open_owner_row (saved_row r row) \<longleftrightarrow> rw_owner row = 1 \<and> \<not> is_ended r"
  by (cases "rr_status r") (simp_all add: open_owner_row_def saved_row_def is_ended_def)

lemma save_run_total:
  assumes ok: "db_ok s" and cur: "record_at s (rr_id r) = Some old" and same: "same_identity old r"
    and opens: "rr_owner r \<Longrightarrow> \<not> is_ended r \<Longrightarrow> \<not> is_ended old"
  shows "\<exists>t. save_run r s = Inr t"
proof -
  obtain row where row: "find_run s (rr_id r) = Some row" "old = rec_of s row"
    using cur by (auto simp: record_at_def)
  then have in_rows: "row \<in> set (db_runs s)" "rw_id row = rr_id r" by (auto dest: find_run_Some)
  then have row_ok: "run_row_ok row" using db_ok_text [OF ok] by (simp add: text_ok_rows)
  have "\<not> owner_clash (filter (\<lambda>x. rw_id x \<noteq> rr_id r) (db_runs s)) (saved_row r row)"
  proof
    assume clash: "owner_clash (filter (\<lambda>x. rw_id x \<noteq> rr_id r) (db_runs s)) (saved_row r row)"
    then have open_new: "rw_owner row = 1" "\<not> is_ended r" by (auto simp: owner_clash_def saved_row_open)
    have "rr_owner r" using same open_new(1) row(2) by (simp add: same_identity_def rec_of_def)
    then have "open_owner_row row"
      using opens open_new row(2) is_ended_rec [OF row_ok, of s] by (simp add: open_owner_row_def)
    moreover obtain x where "x \<in> set (db_runs s)" "rw_id x \<noteq> rr_id r" "open_owner_row x" "rw_instance x = rw_instance row"
        "rw_instance row \<noteq> None"
      using clash by (auto simp: owner_clash_def saved_row_def split: option.splits)
    ultimately show False
      using one_open_ownerD [of "db_runs s" x row] in_rows ok by (auto simp: db_ok_def run_keys_ok_def)
  qed
  then show ?thesis using row(1) by (auto simp: save_run_Inr)
qed

lemma move_to_total:
  assumes ok: "db_ok s" and cur: "record_at s (rr_id r) = Some r" and opens: "rr_owner r \<Longrightarrow> to \<noteq> Ended \<Longrightarrow> \<not> is_ended r"
  shows "\<exists>res st. move_to r to anomalies cause at (ch, s) = Inr (res, st)"
proof (cases "rr_status r = to \<and> rr_anomalies r = sort_dedup anomalies")
  case True
  then show ?thesis by (simp add: move_to_def)
next
  case False
  let ?r = "moved r to anomalies cause at"
  have same: "same_identity r ?r" by simp
  have "\<not> is_ended ?r \<Longrightarrow> to \<noteq> Ended" by (simp add: is_ended_def)
  then obtain u where u: "save_run ?r s = Inr u"
    using save_run_total [OF ok, of ?r r] cur opens same by (auto simp: same_identity_def)
  have sorted: "sort_dedup (rr_anomalies ?r) = rr_anomalies ?r" by simp
  have oku: "db_ok u" using save_run_db_ok [OF ok u] cur same by simp
  let ?kind = "if to = Ended \<and> rr_status r \<noteq> Ended then EndedEvent
      else if to \<noteq> rr_status r then StatusChanged else AnomaliesChanged"
  have "move_to r to anomalies cause at (ch, s)
      = rbind (save_run ?r s) (\<lambda>u. rbind (note_change ?r ?kind
          (no_prior\<lparr>pr_status := if ?kind \<noteq> AnomaliesChanged then Some (rr_status r) else None\<rparr>) cause (ch, u))
          (\<lambda>st. Inr (Some ?r, st)))"
    by (simp add: move_to_def Let_def moved_def if_not_P [OF False])
  then show ?thesis by (auto simp: u note_change_eq [OF oku])
qed

lemma cascade_child_total:
  assumes "db_ok s" and "record_at s (rr_id c) = Some c" and "\<not> rr_owner c"
  shows "\<exists>st. cascade_child to stopped at c (ch, s) = Inr st"
proof -
  have go: "\<exists>st. rbind (move_to c status (rr_anomalies c) (Some cause) at (ch, s)) (\<lambda>(_, st). Inr st) = Inr st"
    for status cause
  proof -
    obtain res st where "move_to c status (rr_anomalies c) (Some cause) at (ch, s) = Inr (res, st)"
      using move_to_total [OF assms(1,2)] assms(3) by blast
    then show ?thesis by simp
  qed
  consider (held) "to = Held" "rr_status c = Active" | (active) "to = Active" "rr_status c = Held" | (ended) "to = Ended"
    | (other) "\<not> (to = Held \<and> rr_status c = Active)" "\<not> (to = Active \<and> rr_status c = Held)" "to \<noteq> Ended" by blast
  then show ?thesis
  proof cases
    case held
    then show ?thesis using go [of Held "''parent-paused''"] by (simp add: cascade_child_def)
  next
    case active
    then show ?thesis using go [of Active "''parent-resumed''"] by (simp add: cascade_child_def)
  next
    case ended
    then show ?thesis using go [of Ended "if stopped then ''parent-stopped'' else ''parent-ended''"]
      by (simp add: cascade_child_def)
  next
    case other
    then have "cascade_child to stopped at c (ch, s) = Inr (ch, s)" by (auto simp: cascade_child_def Let_def)
    then show ?thesis by blast
  qed
qed

lemma cascade_children_total:
  assumes "db_ok s" and "\<forall>c\<in>set cs. record_at s (rr_id c) = Some c \<and> \<not> rr_owner c" and "distinct (map rr_id cs)"
  shows "\<exists>st. rfold (cascade_child to stopped at) cs (ch, s) = Inr st"
  using assms
proof (induction cs arbitrary: ch s)
  case (Cons c cs)
  then obtain ch1 u where u: "cascade_child to stopped at c (ch, s) = Inr (ch1, u)"
    using cascade_child_total [of s c to stopped at ch] by auto
  have step: "grows (ch, s) (ch1, u)" "record_at u = (record_at s)(rr_id c \<mapsto> cascaded to stopped at c)"
    using cascade_child_spec [OF Cons.prems(1) _ u] Cons.prems(2) by simp_all
  have "db_ok u" using grows_db_ok [OF step(1)] Cons.prems(1) by simp
  moreover have "\<forall>d\<in>set cs. record_at u (rr_id d) = Some d \<and> \<not> rr_owner d"
  proof
    fix d
    assume d: "d \<in> set cs"
    then have "rr_id d \<noteq> rr_id c" using Cons.prems(3) by (metis distinct.simps(2) image_eqI list.set_map list.simps(9))
    with d Cons.prems(2) show "record_at u (rr_id d) = Some d \<and> \<not> rr_owner d" by (simp add: step(2))
  qed
  ultimately show ?case using Cons.IH [of u ch1] Cons.prems(3) u by simp
qed simp

lemma owner_move_total:
  assumes ok: "db_ok s" and cur: "record_at s (rr_id run) = Some run" and opens: "\<not> is_ended run"
  shows "\<exists>st. rbind (move_to run to anomalies cause at (ch, s)) (\<lambda>(_, st).
           cascade (rr_id run) (rr_status run) to stopped at st) = Inr st"
proof -
  obtain res ch1 u where mv: "move_to run to anomalies cause at (ch, s) = Inr (res, ch1, u)"
    using move_to_total [OF ok cur] opens by force
  have oku: "db_ok u" using move_to_spec [OF ok cur mv] grows_db_ok ok by fastforce
  obtain cs where cs: "open_in_process_descendants u (rr_id run) = Inr cs" "distinct (map rr_id cs)"
      "\<forall>c\<in>set cs. record_at u (rr_id c) = Some c \<and> in_process_child u (rr_id run) c"
  proof -
    obtain cs where "open_in_process_descendants u (rr_id run) = Inr cs"
      using records_where_eq [OF db_ok_text [OF oku]]
      by (simp add: open_in_process_descendants_def Let_def)
    from that [OF this] descendants_spec [OF oku this] show thesis by blast
  qed
  then show ?thesis using cascade_children_total [OF oku, of cs to stopped at ch1]
    by (auto simp: mv cascade_def in_process_child_def)
qed

text \<open>In a reachable engine the Runs the cascade reaches are all the open in-process Runs of the instance.\<close>

lemma open_run_has_owner:
  assumes "engine_ok en" and "record_at (en_db en) x = Some r" and "\<not> is_ended r" and "rr_instance r = Some n"
  shows "\<exists>k run. owner_run (en_db en) n = Some run \<and> anc (parent_of (en_db en)) k x = Some (rr_id run)
    \<and> k < max_run_nesting"
proof -
  have ok: "db_ok (en_db en)" "tree_ok (record_at (en_db en))" using assms(1) by (simp_all add: engine_ok_def)
  obtain k R where k: "k < max_run_nesting" "rooted (record_at (en_db en)) x k R" "rr_instance R = rr_instance r"
      "rr_owner r \<Longrightarrow> k = 0" "\<not> is_ended r \<Longrightarrow> \<not> is_ended R"
    using ok(2) assms(2) by (rule tree_okD) blast
  have "owner_run (en_db en) n = Some R"
    using k assms(3,4) by (simp add: owner_run_iff [OF ok(1)] rooted_def)
  then show ?thesis using k by (auto simp: rooted_def parent_of_par_of)
qed

lemma in_process_child_iff:
  assumes ok: "engine_ok en" and own: "owner_run (en_db en) n = Some run" and c: "record_at (en_db en) (rr_id c) = Some c"
  shows "in_process_child (en_db en) (rr_id run) c \<longleftrightarrow> \<not> is_ended c \<and> \<not> rr_owner c \<and> rr_instance c = Some n"
proof -
  have db: "db_ok (en_db en)" using ok by (simp add: engine_ok_def)
  have run: "record_at (en_db en) (rr_id run) = Some run" "rr_owner run" "rr_instance run = Some n"
    using own by (simp_all add: owner_run_iff [OF db])
  show ?thesis
  proof
    assume "\<not> is_ended c \<and> \<not> rr_owner c \<and> rr_instance c = Some n"
    then have live: "\<not> is_ended c" "\<not> rr_owner c" "rr_instance c = Some n" by simp_all
    obtain k where k: "anc (parent_of (en_db en)) k (rr_id c) = Some (rr_id run)" "k < max_run_nesting"
      using open_run_has_owner [OF ok c live(1,3)] own by auto
    have "k \<noteq> 0"
    proof
      assume "k = 0"
      then have "rr_id c = rr_id run" using k(1) by simp
      then have "c = run" using c run(1) by (metis option.inject)
      then show False using run(2) live(2) by simp
    qed
    then have "rr_id c \<in> set (tree_ids (en_db en) (rr_id run))"
      using k unfolding tree_ids_anc [OF db] max_run_nesting_def by (intro exI [of _ k]) simp
    then show "in_process_child (en_db en) (rr_id run) c"
      using live run by (simp add: in_process_child_def)
  qed (use run in \<open>auto simp: in_process_child_def\<close>)
qed

lemma project_transition_total:
  assumes db: "db_ok s"
  shows "\<exists>ch t. project_transition n new_state fate cause at s = Inr (ch, t)"
proof (cases "owner_run s n")
  case (Some run)
  then have run: "record_at s (rr_id run) = Some run" "\<not> is_ended run"
    by (simp_all add: owner_run_iff [OF db])
  show ?thesis
  proof (cases "project_plan run new_state fate cause")
    case plan: (Some p)
    obtain to anomalies c where p: "p = (to, anomalies, c)" by (cases p)
    then show ?thesis
      using owner_move_total [OF db run, of to anomalies c at no_changes "new_state = Stopped"]
      by (auto simp: project_transition_def owner_run_eq [OF db] Some plan)
  qed (simp add: project_transition_def owner_run_eq [OF db] Some)
qed (simp add: project_transition_def owner_run_eq [OF db])

text \<open>Projecting a lifecycle transition onto the Runs never fails in a reachable engine, and what it
  writes is the reference: with no open owner, or for a state that does not move Runs, nothing; otherwise
  the owner is moved as planned and, if its status changed, every open child Run of the instance, and no
  other Run, follows it: held by a pause, active again by a resume, ended by an end.\<close>

theorem transition_moves_the_whole_instance:
  assumes "reachable enc en"
  shows "\<exists>ch t. project_transition n new_state fate cause at (en_db en) = Inr (ch, t)
     \<and> (case owner_run (en_db en) n of
          None \<Rightarrow> t = en_db en \<and> ch = no_changes
        | Some run \<Rightarrow> (case project_plan run new_state fate cause of
             None \<Rightarrow> t = en_db en \<and> ch = no_changes
           | Some (to, anomalies, c) \<Rightarrow> \<forall>x. record_at t x =
               (if x = rr_id run then Some (moved run to anomalies c at)
                else map_option (\<lambda>r. if rr_status run \<noteq> to \<and> \<not> is_ended r \<and> \<not> rr_owner r \<and> rr_instance r = Some n
                                     then cascaded to (new_state = Stopped) at r else r) (record_at (en_db en) x))))"
proof -
  have ok: "engine_ok en" by (rule reachable_ok [OF assms])
  then have db: "db_ok (en_db en)" by (simp add: engine_ok_def)
  show ?thesis
  proof (cases "owner_run (en_db en) n")
    case None
    then show ?thesis by (simp add: project_transition_def owner_run_eq [OF db])
  next
    case (Some run)
    then have run: "record_at (en_db en) (rr_id run) = Some run" "\<not> is_ended run"
      by (simp_all add: owner_run_iff [OF db])
    show ?thesis
    proof (cases "project_plan run new_state fate cause")
      case None
      then show ?thesis by (simp add: project_transition_def owner_run_eq [OF db] Some)
    next
      case plan: (Some p)
      obtain to anomalies c where p: "p = (to, anomalies, c)" by (cases p)
      obtain ch t where go: "project_transition n new_state fate cause at (en_db en) = Inr (ch, t)"
        using project_transition_total [OF db] by blast
      have moved: "record_at t = after_owner_move (en_db en) run to (moved run to anomalies c at) (new_state = Stopped) at"
        using project_transition_spec(2) [OF db go] by (simp add: Some plan p owner_moved_def)
      have "record_at t x = (if x = rr_id run then Some (moved run to anomalies c at)
          else map_option (\<lambda>r. if rr_status run \<noteq> to \<and> \<not> is_ended r \<and> \<not> rr_owner r \<and> rr_instance r = Some n
                               then cascaded to (new_state = Stopped) at r else r) (record_at (en_db en) x))" for x
      proof (cases "record_at (en_db en) x")
        case None
        then show ?thesis using run by (auto simp: moved after_owner_move_def)
      next
        case r: (Some r)
        then have "in_process_child (en_db en) (rr_id run) r \<longleftrightarrow> \<not> is_ended r \<and> \<not> rr_owner r \<and> rr_instance r = Some n"
          using in_process_child_iff [OF ok Some] record_at_id [OF r] by simp
        then show ?thesis by (simp add: moved after_owner_move_def r)
      qed
      then show ?thesis using go by (simp add: Some plan p)
    qed
  qed
qed

lemma transition_moves_the_whole_instance_witness:
  "\<exists>en ch t. reachable demo_encoder en \<and> project_transition ''a'' Paused Relaunching ''c'' ''t3'' (en_db en) = Inr (ch, t)
     \<and> map_option rr_status (record_at t ''r1'') = Some Held \<and> map_option rr_status (record_at t ''r2'') = Some Held"
proof -
  obtain en rows n b where en: "reachable demo_encoder en" "en_db en = no_outbox demo_db2 rows n b"
    by (rule demo_reachable2)
  have db: "db_ok (en_db en)" using reachable_ok [OF en(1)] by (simp add: engine_ok_def)
  have fields: "rr_id demo_owner = ''r1''" "rr_status demo_owner = Active" "rr_status demo_child = Active"
    "\<not> is_ended demo_child" "\<not> rr_owner demo_child" "rr_instance demo_child = Some ''a''" "rr_anomalies demo_owner = []"
    "\<not> is_ended demo_owner" "rr_owner demo_owner" "rr_instance demo_owner = Some ''a''"
    by (simp_all add: demo_child_def child_record_def demo_owner_def fresh_record_def demo_launch_def is_ended_def)
  have own: "owner_run (en_db en) ''a'' = Some demo_owner"
    unfolding owner_run_iff [OF db] by (simp add: fields en(2) demo_entries)
  have plan: "project_plan demo_owner Paused Relaunching ''c'' = Some (Held, [], None)"
    by (simp add: project_plan_def fields)
  from transition_moves_the_whole_instance [OF en(1), of "''a''" Paused Relaunching "''c''" "''t3''"]
  obtain ch t where go: "project_transition ''a'' Paused Relaunching ''c'' ''t3'' (en_db en) = Inr (ch, t)"
    and all: "\<forall>x. record_at t x = (if x = ''r1'' then Some (moved demo_owner Held [] None ''t3'')
      else map_option (\<lambda>r. if rr_status demo_owner \<noteq> Held \<and> \<not> is_ended r \<and> \<not> rr_owner r \<and> rr_instance r = Some ''a''
                           then cascaded Held (Paused = Stopped) ''t3'' r else r) (record_at (en_db en) x))"
    unfolding own by (auto simp: plan fields)
  have "record_at t ''r1'' = Some (moved demo_owner Held [] None ''t3'')"
    "record_at t ''r2'' = Some (cascaded Held False ''t3'' demo_child)"
    using spec [OF all, of "''r1''"] spec [OF all, of "''r2''"] by (simp_all add: en(2) demo_entries fields)
  with go show ?thesis using en(1) by (auto simp: cascaded_def fields)
qed

text \<open>(C22) Once the projection of a stop has run, no Run of the instance is open: neither its process owner
  nor any child Run opened under it.\<close>

theorem stopped_instance_has_no_open_run:
  assumes "reachable enc en" and "project_transition n Stopped fate cause at (en_db en) = Inr (ch, t)"
    and "record_at t x = Some r" and "rr_instance r = Some n"
  shows "is_ended r"
proof (rule ccontr)
  assume live: "\<not> is_ended r"
  have ok: "engine_ok en" by (rule reachable_ok [OF assms(1)])
  then have db: "db_ok (en_db en)" by (simp add: engine_ok_def)
  show False
  proof (cases "owner_run (en_db en) n")
    case None
    then have "t = en_db en" using project_transition_spec(2) [OF db assms(2)] by simp
    then show False using open_run_has_owner [OF ok _ live assms(4)] assms(3) None by auto
  next
    case (Some run)
    then have run: "record_at (en_db en) (rr_id run) = Some run" "rr_status run \<noteq> Ended"
      by (auto simp: owner_run_iff [OF db] is_ended_def)
    have rec: "record_at t = after_owner_move (en_db en) run Ended (moved run Ended (rr_anomalies run) (Some cause) at) True at"
      using project_transition_spec(2) [OF db assms(2)] by (simp add: Some project_plan_def owner_moved_def)
    show False
    proof (cases "x = rr_id run")
      case True
      then have "r = moved run Ended (rr_anomalies run) (Some cause) at"
        using assms(3) by (simp add: rec after_owner_move_def)
      then show False using live by (simp add: is_ended_def)
    next
      case False
      then obtain r0 where r0: "record_at (en_db en) x = Some r0"
          "r = (if in_process_child (en_db en) (rr_id run) r0 then cascaded Ended True at r0 else r0)"
        using assms(3) run(2) by (auto simp: rec after_owner_move_def split: option.splits)
      have "rr_instance r0 = Some n" "\<not> is_ended r0"
        using r0(2) assms(4) live cascaded_ended [of True at r0] by (auto simp: cascaded_def split: if_splits)
      then have "\<not> rr_owner r0"
        using False Some r0(1) record_at_id [OF r0(1)] owner_run_iff [OF db, of n r0] by auto
      then have "in_process_child (en_db en) (rr_id run) r0"
        using in_process_child_iff [OF ok Some, of r0] r0(1) record_at_id [OF r0(1)] \<open>rr_instance r0 = Some n\<close> \<open>\<not> is_ended r0\<close> by simp
      then show False using r0(2) live cascaded_ended [of True at r0] by simp
    qed
  qed
qed

lemma stopped_instance_has_no_open_run_witness:
  "\<exists>en ch t r. reachable demo_encoder en \<and> project_transition ''a'' Stopped Terminal ''stop'' ''t3'' (en_db en) = Inr (ch, t)
     \<and> record_at t ''r2'' = Some r \<and> is_ended r"
proof -
  obtain en rows n b where en: "reachable demo_encoder en" "en_db en = no_outbox demo_db2 rows n b"
    by (rule demo_reachable2)
  have db: "db_ok (en_db en)" using reachable_ok [OF en(1)] by (simp add: engine_ok_def)
  obtain ch t where go: "project_transition ''a'' Stopped Terminal ''stop'' ''t3'' (en_db en) = Inr (ch, t)"
    using project_transition_total [OF db] by blast
  obtain r where r: "record_at t ''r2'' = Some r" "rr_instance r = Some ''a''"
  proof (cases "owner_run (en_db en) ''a''")
    case None
    then have "t = en_db en" using project_transition_spec(2) [OF db go] by simp
    then show thesis using that [of demo_child]
      by (simp add: en(2) demo_entries demo_child_def child_record_def demo_owner_def fresh_record_def demo_launch_def)
  next
    case (Some run)
    then have cur: "record_at (en_db en) (rr_id run) = Some run" by (simp add: owner_run_iff [OF db])
    have "same_tree (record_at (en_db en)) (record_at t)"
      using project_transition_spec(2) [OF db go] by (intro owner_moved_same_tree [OF cur]) (simp add: Some project_plan_def)
    then have "rel_option same_identity (record_at (en_db en) ''r2'') (record_at t ''r2'')" by (simp add: same_tree_def)
    then show thesis using that
      by (cases "record_at t ''r2''") (auto simp: en(2) demo_entries demo_child_def child_record_def demo_owner_def
          fresh_record_def demo_launch_def same_identity_def)
  qed
  from stopped_instance_has_no_open_run [OF en(1) go r] show ?thesis using en(1) go r(1) by blast
qed

section \<open>Child Runs\<close>

lemma insert_run_identity:
  assumes "insert_run run s = Inr u" and "nr_identity run = Some (b, e)"
  shows "identity_run u b e = Inr (Some (rr_id (nr_record run)))"
proof -
  obtain iid where u: "u = inserted run iid s"
      and new: "\<forall>b e. nr_identity run = Some (b, e) \<longrightarrow>
           (\<forall>i\<in>set (db_identities s). \<not> (id_binding i = b \<and> id_external i = e))"
    by (rule insert_run_Inr [OF assms(1)])
  have "find (\<lambda>i. id_binding i = b \<and> id_external i = e) (db_identities s) = None"
    using new assms(2) by (auto simp: find_None_iff)
  moreover have "find P (xs @ ys) = (case find P xs of Some z \<Rightarrow> Some z | None \<Rightarrow> find P ys)" for P and xs ys :: "identity_row list"
    by (induction xs) auto
  ultimately show ?thesis
    by (simp add: identity_run_def u inserted_def Let_def assms(2) identity_rows_def)
qed

text \<open>Opening a child Run under an external id is idempotent: once an open with the id has answered,
  every later one with the same id answers the same Run and changes nothing, whatever else it asks for.\<close>

theorem retried_open_answers_the_same_run:
  assumes "db_ok s" and "cq_external request = Some external" and "open_child request rid at s = Inr (got, ch, t)"
    and "cq_external again = Some external"
  shows "open_child again rid' at' t = Inr (got, no_changes, t)"
proof -
  have "identity_run t host_identity_binding external = Inr (Some got)"
  proof (cases "identity_run s host_identity_binding external = Inr (Some got)")
    case True
    then have "t = s" using assms(2,3) by (auto simp: open_child_def from_store_def)
    then show ?thesis using True by simp
  next
    case False
    then have go: "open_new_child request rid at s = Inr (got, ch, t)"
      using assms(2,3) by (auto simp: open_child_def from_store_def identity_run_def split: option.splits)
    then obtain p labels u where ins: "insert_run \<lparr>nr_record = child_record p rid at, nr_labels = sort labels,
          nr_limits = cq_limits request,
          nr_identity = map_option (\<lambda>e. (host_identity_binding, e)) (cq_external request)\<rparr> s = Inr u"
        and noting: "note_change (child_record p rid at) Created no_prior
          (if rr_status p = Held then Some ''parent-paused'' else None) (no_changes, u) = Inr (ch, t)"
        and got: "got = rid"
      by (auto simp: open_new_child_def Let_def from_store_Inr split: if_splits)
    have "t = u" using note_change_outbox [OF noting] by simp
    then show ?thesis using insert_run_identity [OF ins] got by (simp add: assms(2) child_record_def)
  qed
  then show ?thesis by (simp add: open_child_def assms(4) from_store_def)
qed

lemma retried_open_answers_the_same_run_witness:
  "\<exists>s ch t. open_child demo_request ''r2'' ''t2'' s = Inr (''r2'', ch, t)
     \<and> open_child demo_request ''r9'' ''t9'' t = Inr (''r2'', no_changes, t)"
proof -
  obtain en rows n b where en: "reachable demo_encoder en" "en_db en = no_outbox demo_db1 rows n b"
    by (rule demo_reachable1)
  have db: "db_ok (no_outbox demo_db1 rows n b)" using reachable_ok [OF en(1)] by (simp add: engine_ok_def en(2))
  obtain ch where go: "open_child demo_request ''r2'' ''t2'' (no_outbox demo_db1 rows n b)
        = Inr (''r2'', ch, no_outbox demo_db2 rows n b)"
    using demo_open by blast
  have ext: "cq_external demo_request = Some ''job''" by (simp add: demo_request_def)
  from retried_open_answers_the_same_run [OF db ext go ext] go show ?thesis by blast
qed

lemma caller_labels_Inr:
  "caller_labels kvs acc = Inr ls \<Longrightarrow> ls = acc @ map (\<lambda>(k, v). label_caller k v) kvs
     \<and> (distinct (map lb_key acc) \<longrightarrow> distinct (map lb_key ls))
     \<and> (\<forall>(k, v)\<in>set kvs. validate_label_key k = Inr () \<and> validate_label_value v = Inr ())"
proof (induction kvs arbitrary: acc)
  case (Cons kv kvs)
  obtain k v where kv: "kv = (k, v)" by (cases kv)
  have valid: "validate_label_key k = Inr ()" "validate_label_value v = Inr ()"
    and new: "\<not> (\<exists>l\<in>set acc. lb_key l = k)" and go: "caller_labels kvs (acc @ [label_caller k v]) = Inr ls"
    using Cons.prems by (auto simp: kv rbind_eq_Inr split: sum.splits if_splits)
  have "distinct (map lb_key acc) \<longrightarrow> distinct (map lb_key (acc @ [label_caller k v]))"
    using new by (auto simp: label_caller_def)
  then have "distinct (map lb_key acc) \<longrightarrow> distinct (map lb_key ls)" using Cons.IH [OF go] by blast
  moreover have "ls = acc @ map (\<lambda>(k, v). label_caller k v) (kv # kvs)" using Cons.IH [OF go] by (simp add: kv)
  ultimately show ?case using Cons.IH [OF go] valid by (simp only: kv) simp
qed simp

text \<open>A new child Run is opened only where it can be kept and governed: its parent (the Run named, or
  the open Run of the instance named) is open and not at the deepest level; its own limits act by warning
  only; it belongs to the parent's instance, is announced, shares the parent's wire path, and starts held
  exactly when the parent is held; its labels are the caller's, every one valid and each key once; and no
  other Run changes.\<close>

theorem opened_child_is_well_placed:
  assumes "reachable enc en" and "open_new_child request rid at (en_db en) = Inr (got, ch, t)"
  shows "got = rid \<and> record_at (en_db en) rid = None
     \<and> (\<exists>p k R e. find_parent (en_db en) (cq_parent request) = Some p \<and> \<not> is_ended p
          \<and> rooted (record_at (en_db en)) (rr_id p) k R \<and> Suc k < max_run_nesting
          \<and> (\<forall>a. rl_action (cq_limits request) = Some a \<longrightarrow> a = ActWarn)
          \<and> entry_of t = (entry_of (en_db en))(rid \<mapsto> e)
          \<and> re_record e = child_record p rid at
          \<and> (rr_status (re_record e) = Held \<longleftrightarrow> rr_status p = Held) \<and> \<not> is_ended (re_record e)
          \<and> set (re_labels e) = (\<lambda>(k, v). label_caller k v) ` set (cq_labels request)
          \<and> distinct (map lb_key (re_labels e))
          \<and> (\<forall>(k, v)\<in>set (cq_labels request). validate_label_key k = Inr () \<and> validate_label_value v = Inr ()))"
proof -
  have ok: "db_ok (en_db en)" "tree_ok (record_at (en_db en))"
    using reachable_ok [OF assms(1)] by (simp_all add: engine_ok_def)
  obtain labels where labels: "caller_labels (cq_labels request) [] = Inr labels"
    using assms(2) by (auto simp: open_new_child_def Let_def from_store_Inr split: if_splits)
  note ls = caller_labels_Inr [OF labels]
  show ?thesis
  proof (rule open_new_child_spec [OF ok(1) assms(2)])
    fix p
    assume p: "find_parent (en_db en) (cq_parent request) = Some p" "\<not> is_ended p" "got = rid"
      and deep: "\<And>n R. rooted (record_at (en_db en)) (rr_id p) n R \<Longrightarrow> n < max_run_nesting \<Longrightarrow> Suc n < max_run_nesting"
      and act: "check_action (cq_limits request) (rr_wire p) = Inr ()"
      and free: "record_at (en_db en) rid = None"
      and ent: "entry_of t = (entry_of (en_db en))(rid \<mapsto> inserted_entry
           \<lparr>nr_record = child_record p rid at,
            nr_labels = sort (case caller_labels (cq_labels request) [] of Inr ls \<Rightarrow> ls),
            nr_limits = cq_limits request,
            nr_identity = map_option (\<lambda>e. (host_identity_binding, e)) (cq_external request)\<rparr>)"
        (is "_ = (entry_of (en_db en))(rid \<mapsto> ?e)")
    have cur: "record_at (en_db en) (rr_id p) = Some p" by (rule find_parent_current [OF ok(1) p(1)])
    obtain k R where k: "k < max_run_nesting" "rooted (record_at (en_db en)) (rr_id p) k R"
      using ok(2) cur by (rule tree_okD)
    have made: "re_record ?e = child_record p rid at"
      by (simp add: inserted_entry_def child_record_def sort_dedup_def)
    have "re_labels ?e = sort_key lb_key (sort labels)" by (simp add: inserted_entry_def labels)
    moreover have "distinct (map lb_key (sort_key lb_key (sort labels)))"
      by (intro distinct_sort_key_map mp [OF ls [THEN conjunct2, THEN conjunct1]]) simp
    ultimately have "set (re_labels ?e) = (\<lambda>(k, v). label_caller k v) ` set (cq_labels request)"
        "distinct (map lb_key (re_labels ?e))" using ls by auto
    moreover have "\<forall>a. rl_action (cq_limits request) = Some a \<longrightarrow> a = ActWarn"
      using act by (simp add: check_action_ok action_refusal_announced)
    moreover have "rr_status (re_record ?e) = Held \<longleftrightarrow> rr_status p = Held" "\<not> is_ended (re_record ?e)"
      unfolding made by (auto simp: child_record_def is_ended_def)
    ultimately show ?thesis using p free ent made k(2) deep [OF k(2,1)] ls by blast
  qed
qed

lemma opened_child_is_well_placed_witness:
  "\<exists>en ch t e. reachable demo_encoder en \<and> open_new_child demo_request ''r2'' ''t2'' (en_db en) = Inr (''r2'', ch, t)
     \<and> entry_of t ''r2'' = Some e \<and> rr_depth (re_record e) = Announced"
proof -
  obtain en rows n b where en: "reachable demo_encoder en" "en_db en = no_outbox demo_db1 rows n b"
    by (rule demo_reachable1)
  obtain ch t where "open_child demo_request ''r2'' ''t2'' (en_db en) = Inr (''r2'', ch, t)"
    using demo_open en(2) by metis
  then have go: "open_new_child demo_request ''r2'' ''t2'' (en_db en) = Inr (''r2'', ch, t)"
    by (simp add: open_child_def demo_request_def identity_run_def from_store_def en(2) no_outbox_def demo_db1_def demo_db0_def empty_db_def)
  from opened_child_is_well_placed [OF en(1) go] obtain p e where "entry_of t = (entry_of (en_db en))(''r2'' \<mapsto> e)"
      "re_record e = child_record p ''r2'' ''t2''" by blast
  then have "entry_of t ''r2'' = Some e" "rr_depth (re_record e) = Announced" by (simp_all add: child_record_def)
  then show ?thesis using en(1) go by blast
qed

text \<open>Closing a Run: an unknown id is refused; an open process owner is refused and keeps running; an
  ended Run is left as it is; and an open child Run is ended with the cause \<open>closed\<close>, after which a second
  close changes nothing. No other Run changes.\<close>

theorem close_run_outcome:
  assumes "db_ok s"
  shows "case record_at s rid of
      None \<Rightarrow> close_run rid at s = Inl (RunNotFound rid)
    | Some r \<Rightarrow>
        if rr_owner r \<and> \<not> is_ended r then \<exists>i. close_run rid at s = Inl (OwnsProcess rid i)
        else if is_ended r then close_run rid at s = Inr (no_changes, s)
        else (\<exists>ch t r'. close_run rid at s = Inr (ch, t) \<and> record_at t = (record_at s)(rid \<mapsto> r')
               \<and> is_ended r' \<and> rr_end_cause r' = Some ''closed'' \<and> rr_ended r' = Some at
               \<and> close_run rid at' t = Inr (no_changes, t))"
proof (cases "record_at s rid")
  case None
  then show ?thesis by (simp add: close_run_def run_record_of_eq db_ok_text [OF assms] from_store_def)
next
  case (Some r)
  note id = record_at_id [OF Some]
  have read: "from_store (run_record_of s rid) = Inr (Some r)"
    by (simp add: run_record_of_eq db_ok_text [OF assms] from_store_def Some)
  show ?thesis
  proof (cases "is_ended r \<or> rr_owner r")
    case True
    then show ?thesis by (auto simp: close_run_def read Some)
  next
    case False
    obtain res ch t where mv: "move_to r Ended (rr_anomalies r) (Some ''closed'') at (no_changes, s) = Inr (res, ch, t)"
      using move_to_total [OF assms, of r Ended] Some id by force
    then have "from_store (move_to r Ended (rr_anomalies r) (Some ''closed'') at (no_changes, s)) = Inr (res, ch, t)"
      by (simp add: from_store_def)
    then have go: "close_run rid at s = Inr (ch, t)" using False by (simp add: close_run_def read)
    let ?r = "moved r Ended (rr_anomalies r) (Some ''closed'') at"
    have spec: "grows (no_changes, s) (ch, t)" "record_at t = (record_at s)(rid \<mapsto> ?r)"
      using move_to_spec [OF assms _ mv] Some id by simp_all
    have "db_ok t" using grows_db_ok [OF spec(1)] assms by simp
    moreover have "is_ended ?r" "rr_end_cause ?r = Some ''closed''" "rr_ended ?r = Some at"
      using False by (auto simp: is_ended_def moved_def)
    moreover have "close_run rid at' t = Inr (no_changes, t)"
      using \<open>db_ok t\<close> \<open>is_ended ?r\<close>
      by (simp add: close_run_def run_record_of_eq db_ok_text from_store_def spec(2))
    ultimately show ?thesis using False go spec(2) by (auto simp: Some)
  qed
qed

lemma close_run_outcome_witness:
  "\<exists>s. close_run ''r1'' ''t3'' s = Inl (OwnsProcess ''r1'' ''a'') \<and> (\<exists>ch t. close_run ''r2'' ''t3'' s = Inr (ch, t)
      \<and> close_run ''r2'' ''t4'' t = Inr (no_changes, t))"
proof -
  obtain en rows n b where en: "reachable demo_encoder en" "en_db en = no_outbox demo_db2 rows n b"
    by (rule demo_reachable2)
  have db: "db_ok (en_db en)" using reachable_ok [OF en(1)] by (simp add: engine_ok_def)
  have r1: "record_at (en_db en) ''r1'' = Some demo_owner" "rr_owner demo_owner" "\<not> is_ended demo_owner"
      "rr_instance demo_owner = Some ''a''"
    by (simp_all add: en(2) demo_entries) (simp_all add: demo_owner_def fresh_record_def demo_launch_def is_ended_def)
  have r2: "record_at (en_db en) ''r2'' = Some demo_child" "\<not> rr_owner demo_child" "\<not> is_ended demo_child"
    by (simp_all add: en(2) demo_entries) (simp_all add: demo_child_def child_record_def demo_owner_def fresh_record_def is_ended_def)
  have "close_run ''r1'' ''t3'' (en_db en) = Inl (OwnsProcess ''r1'' ''a'')"
    using close_run_outcome [OF db, of "''r1''" "''t3''"] r1
    by (auto simp: close_run_def run_record_of_eq db_ok_text [OF db] from_store_def)
  moreover have "\<exists>ch t. close_run ''r2'' ''t3'' (en_db en) = Inr (ch, t) \<and> close_run ''r2'' ''t4'' t = Inr (no_changes, t)"
    using close_run_outcome [OF db, of "''r2''" "''t3''" "''t4''"] r2 by auto
  ultimately show ?thesis by blast
qed

end
