(* ===== verification/Registry.thy ===== *)
theory Registry
  imports Run_Demo
begin

text \<open>
  The instance registry (\<open>domain/registry.rs\<close>, \<open>domain/instance.rs\<close> and the instance half of
  \<open>store/sqlite.rs\<close>): reading an instance back, listing the fleet, registering and removing. Path and
  adapter resolution and the file system are parameters: the computed home, the outcome of
  \<open>adapter::resolve\<close>, of \<open>materialize_home\<close> and of removing the home tree.
\<close>

section \<open>Instances\<close>

record agent_instance =
  ai_name :: string
  ai_kind :: string
  ai_state :: lifecycle_state
  ai_home :: string
  ai_created :: string
  ai_updated :: string

definition row_to_instance :: "instance_row \<Rightarrow> store_error + agent_instance" where
  "row_to_instance row =
     (case instance_name_new (in_name row) of
        Inl _ \<Rightarrow> Inl (CorruptRow (in_name row) ''invalid stored name'')
      | Inr name \<Rightarrow>
          (case lifecycle_from_wire (in_state row) of
             None \<Rightarrow> Inl (CorruptRow (in_name row) ''unknown lifecycle state'')
           | Some state \<Rightarrow>
               Inr \<lparr>ai_name = name, ai_kind = in_kind row, ai_state = state, ai_home = in_home row,
                    ai_created = in_created row, ai_updated = in_updated row\<rparr>))"

definition get_instance :: "db \<Rightarrow> string \<Rightarrow> store_error + agent_instance option" where
  "get_instance s name =
     (case find (\<lambda>i. in_name i = name) (db_instances s) of
        None \<Rightarrow> Inr None
      | Some row \<Rightarrow> rbind (row_to_instance row) (\<lambda>i. Inr (Some i)))"

text \<open>\<open>ORDER BY name\<close> is SQLite's byte order.\<close>

definition list_instances :: "db \<Rightarrow> store_error + agent_instance list" where
  "list_instances s = rmap row_to_instance (sort_key in_name (db_instances s))"

section \<open>Registering and removing\<close>

datatype registry_error =
  InvalidName string name_error
| DuplicateInstance string
| NoInstance string
| RunningRequiresForce string
| AdapterRejected string
| HomeFailed string
| RegisterOrphanRow string string store_error
| RemoveLeftoverHome string string
| HotSwapRefused string string
| KindConflictRefused string string string
| RowCommittedDirFailed string string string
| HomeIo string string string
| Store store_error

definition valid_name :: "string \<Rightarrow> registry_error + string" where
  "valid_name name = (case instance_name_new name of Inl reason \<Rightarrow> Inl (InvalidName name reason) | Inr n \<Rightarrow> Inr n)"

definition lookup_instance :: "string \<Rightarrow> db \<Rightarrow> registry_error + agent_instance" where
  "lookup_instance name s =
     (case get_instance s name of
        Inl e \<Rightarrow> Inl (Store e)
      | Inr None \<Rightarrow> Inl (NoInstance name)
      | Inr (Some i) \<Rightarrow> Inr i)"

text \<open>The two writer jobs of a registration, each its own commit: the outcome is paired with the
  database it leaves behind, for a failure after the first commit still leaves one.\<close>

definition register_with_adapter ::
  "string \<Rightarrow> string + string \<Rightarrow> (string \<Rightarrow> string) \<Rightarrow> (string \<Rightarrow> string option) \<Rightarrow> string \<Rightarrow> db
     \<Rightarrow> (registry_error + agent_instance) \<times> db" where
  "register_with_adapter candidate resolved home_of materialize now s =
     (case valid_name candidate of
        Inl e \<Rightarrow> (Inl e, s)
      | Inr name \<Rightarrow>
     (case resolved of
        Inl why \<Rightarrow> (Inl (AdapterRejected why), s)
      | Inr kind \<Rightarrow>
          (let inst = \<lparr>ai_name = name, ai_kind = kind, ai_state = Registered, ai_home = home_of name,
                       ai_created = now, ai_updated = now\<rparr>
           in case create_instance name kind Registered (home_of name) now now s of
                Inl (DuplicateName n) \<Rightarrow> (Inl (DuplicateInstance n), s)
              | Inl e \<Rightarrow> (Inl (Store e), s)
              | Inr s1 \<Rightarrow>
                  (case materialize name of
                     None \<Rightarrow> (Inr inst, s1)
                   | Some io \<Rightarrow>
                       (case delete_instance name s1 of
                          Inl rollback \<Rightarrow> (Inl (RegisterOrphanRow name io rollback), s1)
                        | Inr s2 \<Rightarrow> (Inl (HomeFailed io), s2))))))"

text \<open>The record half of a removal; \<open>leftover\<close> is the outcome of removing the home tree for
  \<open>RemoveDisposition::Delete\<close>, \<open>None\<close> where it went or is kept.\<close>

datatype remove_disposition = Retain | Delete

definition registry_remove ::
  "string \<Rightarrow> remove_disposition \<Rightarrow> bool \<Rightarrow> (string \<Rightarrow> string option) \<Rightarrow> db
     \<Rightarrow> (registry_error + unit) \<times> db" where
  "registry_remove candidate disposition force leftover s =
     (case rbind (valid_name candidate) (\<lambda>name. lookup_instance name s) of
        Inl e \<Rightarrow> (Inl e, s)
      | Inr inst \<Rightarrow>
          (let name = ai_name inst
           in if \<not> force \<and> \<not> is_removable_without_force (ai_state inst)
              then (Inl (RunningRequiresForce name), s)
              else (case delete_instance name s of
                      Inl e \<Rightarrow> (Inl (Store e), s)
                    | Inr s' \<Rightarrow>
                        (case (if disposition = Delete then leftover name else None) of
                           None \<Rightarrow> (Inr (), s')
                         | Some why \<Rightarrow> (Inl (RemoveLeftoverHome name why), s')))))"

text \<open>The engine's removal is that half alone: the job does not publish.\<close>

definition remove_job ::
  "string \<Rightarrow> remove_disposition \<Rightarrow> bool \<Rightarrow> (string \<Rightarrow> string option) \<Rightarrow> engine
     \<Rightarrow> (registry_error + unit) \<times> engine" where
  "remove_job candidate disposition force leftover en =
     (case registry_remove candidate disposition force leftover (en_db en) of
        (r, s) \<Rightarrow> (r, en\<lparr>en_db := s\<rparr>))"

section \<open>A removal and the Run store\<close>

text \<open>A child belongs to its parent's instance.\<close>

lemma tree_ok_parent:
  assumes tree: "tree_ok rec" and r: "rec x = Some r" "rr_parent r = Some p"
  shows "\<exists>q. rec p = Some q \<and> rr_instance q = rr_instance r"
proof -
  obtain n R where n: "rooted rec x n R" "rr_instance R = rr_instance r"
    using tree r(1) by (rule tree_okD)
  have "n \<noteq> 0" using n(1) r by (intro notI) (auto simp: rooted_def)
  then obtain m where "n = Suc m" by (cases n) auto
  with n(1) r have m: "rooted rec p m R" by (simp add: rooted_def par_of_def)
  then obtain q where q: "rec p = Some q" by (cases m) (auto simp: rooted_def par_of_def bind_eq_Some_conv)
  obtain k S where k: "rooted rec p k S" "rr_instance S = rr_instance q" using tree q by (rule tree_okD)
  with rooted_unique [OF m k(1)] n(2) q show ?thesis by simp
qed

lemma delete_instance_entries:
  assumes ok: "db_ok s" and tree: "tree_ok (record_at s)" and go: "delete_instance n s = Inr t"
  shows "entry_of t rid =
    (case entry_of s rid of Some e \<Rightarrow> if rr_instance (re_record e) = Some n then None else Some e | None \<Rightarrow> None)"
proof -
  have inst: "instances_ok s" and keys: "distinct (map rw_id (db_runs s))" "distinct (map in_id (db_instances s))"
    using ok by (simp_all add: db_ok_def run_keys_ok_def instances_ok_def)
  obtain i where i: "instance_id s n = Some i" using go by (auto simp: delete_instance_def split: option.splits)
  define gone where "gone = rw_id ` {r \<in> set (db_runs s). rw_instance r = Some i}"
  define orphan :: "run_row \<Rightarrow> run_row" where "orphan r = (if (\<exists>p\<in>gone. rw_parent r = Some p) then r\<lparr>rw_parent := None\<rparr> else r)" for r
  have t: "db_instances t = filter (\<lambda>x. in_id x \<noteq> i) (db_instances s)"
      "db_runs t = map orphan (filter (\<lambda>r. rw_instance r \<noteq> Some i) (db_runs s))"
      "db_labels t = filter (\<lambda>l. lr_run l \<notin> gone) (db_labels s)"
      "db_limits t = filter (\<lambda>m. lm_run m \<notin> gone) (db_limits s)"
    using go i by (auto simp: delete_instance_def Let_def gone_def orphan_def)
  have orphan [simp]: "rw_id (orphan r) = rw_id r" for r by (simp add: orphan_def)
  have find_t: "find_run t rid = (case find_run s rid of
      Some r \<Rightarrow> if rw_instance r \<noteq> Some i then Some (orphan r) else None | None \<Rightarrow> None)"
    by (simp add: find_run_def t(2) find_map comp_def find_filter_key [OF keys(1)] split: option.split)
  have mine: "rw_instance row = Some i \<longleftrightarrow> rr_instance (rec_of s row) = Some n" for row
  proof -
    have "joined_name s (Some i) = Some n" using instance_id_Some_name [OF inst] i by blast
    then have "rw_instance row = Some i \<longleftrightarrow> joined_name s (rw_instance row) = Some n"
      using joined_name_inj [OF inst, of "rw_instance row" n "Some i"] by metis
    then show ?thesis by (simp add: rec_of_def)
  qed
  show ?thesis
  proof (cases "find_run s rid")
    case None
    then show ?thesis by (simp add: entry_of_def record_at_def find_t)
  next
    case (Some row)
    then have row: "row \<in> set (db_runs s)" "rw_id row = rid" by (auto dest: find_run_Some)
    have rec: "record_at s rid = Some (rec_of s row)" by (simp add: record_at_def Some)
    show ?thesis
    proof (cases "rw_instance row = Some i")
      case True
      then show ?thesis using mine [of row] by (simp add: entry_of_def rec record_at_def find_t Some)
    next
      case False
      have keep: "rid \<notin> gone"
        using False keys(1) row by (auto simp: gone_def dest: inj_onD [OF distinct_map [THEN iffD1, THEN conjunct2]])
      have "p \<notin> gone" if p: "rw_parent row = Some p" for p
      proof
        assume "p \<in> gone"
        then obtain r where r: "r \<in> set (db_runs s)" "rw_id r = p" "rw_instance r = Some i" by (auto simp: gone_def)
        have "run_keys_ok s" using ok by (simp add: db_ok_def)
        then have "record_at s p = Some (rec_of s r)" using find_run_in r(1,2) by (auto simp: record_at_def)
        moreover obtain q where "record_at s p = Some q" "rr_instance q = rr_instance (rec_of s row)"
          using tree_ok_parent [OF tree rec] p by (auto simp: rec_of_def)
        ultimately show False using mine [of r] mine [of row] r(3) False by simp
      qed
      then have same: "orphan row = row" by (auto simp: orphan_def)
      have "joined_name t (rw_instance row) = joined_name s (rw_instance row)"
        using False find_filter_key [OF keys(2), of _ "\<lambda>x. in_id x \<noteq> i"]
        by (auto simp: joined_name_def joined_instance_def t(1) dest!: find_Some_in split: option.splits)
      then have "rec_of t row = rec_of s row" by (simp add: rec_of_def)
      moreover have "filter (\<lambda>l. lr_run l = rid) (db_labels t) = filter (\<lambda>l. lr_run l = rid) (db_labels s)"
        "filter (\<lambda>m. lm_run m = rid \<and> lm_scope m = ''per-run'') (db_limits t) =
           filter (\<lambda>m. lm_run m = rid \<and> lm_scope m = ''per-run'') (db_limits s)"
        using keep by (auto simp: t intro: filter_cong)
      ultimately show ?thesis
        using False mine [of row]
        by (simp add: entry_of_def record_at_def find_t Some same labels_at_def limits_at_def)
    qed
  qed
qed

lemma registry_remove_Inr:
  assumes "registry_remove n d force leftover s = (Inr (), t)"
  shows "delete_instance n s = Inr t" and "\<exists>i. get_instance s n = Inr (Some i) \<and> (force \<or> ai_state i \<noteq> Running)"
proof -
  have name: "ai_name i = n" if "get_instance s n = Inr (Some i)" for i
    using that by (auto simp: get_instance_def row_to_instance_def instance_name_new_def dest!: find_Some_in
        split: option.splits sum.splits if_splits list.splits)
  have valid: "m = n" if "valid_name n = Inr m" for m
    using that by (auto simp: valid_name_def instance_name_new_def split: sum.splits if_splits list.splits)
  obtain m where "valid_name n = Inr m"
    using assms by (auto simp: registry_remove_def split: sum.splits)
  with valid have m: "valid_name n = Inr n" by simp
  obtain i where i: "get_instance s n = Inr (Some i)"
    using assms m by (auto simp: registry_remove_def lookup_instance_def split: sum.splits option.splits)
  show "delete_instance n s = Inr t" "\<exists>i. get_instance s n = Inr (Some i) \<and> (force \<or> ai_state i \<noteq> Running)"
    using assms m i name [OF i]
    by (auto simp: registry_remove_def lookup_instance_def is_removable_without_force_def Let_def
        split: sum.splits option.splits if_splits)
qed

text \<open>(C32) A removal takes the instance's Runs out of the store but publishes nothing: every Run of the
  instance the published snapshot showed open stays in it although the store no longer holds it, and the
  snapshot still mirrors the store exactly when there was none.\<close>

theorem removal_leaves_the_snapshot:
  assumes "reachable enc en" and "remove_job n d force leftover en = (Inr (), en')"
  shows "(\<forall>rid e. snapshot_run (en_snap en) rid = Some e \<and> rr_instance (re_record e) = Some n \<longrightarrow>
            snapshot_run (en_snap en') rid = Some e \<and> record_at (en_db en') rid = None)
     \<and> (mirrors (entry_of (en_db en')) (en_snap en') \<longleftrightarrow>
          \<not> (\<exists>rid e. snapshot_run (en_snap en) rid = Some e \<and> rr_instance (re_record e) = Some n))"
proof -
  let ?s = "en_db en" and ?t = "en_db en'"
  have ok: "db_ok ?s" "mirrors (entry_of ?s) (en_snap en)" "tree_ok (record_at ?s)"
    using reachable_ok [OF assms(1)] by (simp_all add: engine_ok_def)
  have go: "registry_remove n d force leftover ?s = (Inr (), ?t)" and snap: "en_snap en' = en_snap en"
    using assms(2) by (auto simp: remove_job_def split: prod.splits)
  have entries: "entry_of ?t rid = (case entry_of ?s rid of
      Some e \<Rightarrow> if rr_instance (re_record e) = Some n then None else Some e | None \<Rightarrow> None)" for rid
    by (rule delete_instance_entries [OF ok(1,3) registry_remove_Inr(1) [OF go]])
  have shown: "snapshot_run (en_snap en) rid = Some e \<longleftrightarrow> entry_of ?s rid = Some e \<and> open_entry e" for rid e
    using ok(2) by (auto simp: mirrors_def snapshot_run_def split: option.splits)
  have gone: "record_at ?t rid = None" if "snapshot_run (en_snap en) rid = Some e" "rr_instance (re_record e) = Some n" for rid e
    using that by (simp add: shown record_at_entry entries)
  have "mirrors (entry_of ?t) (en_snap en)"
    if none: "\<And>rid e. snapshot_run (en_snap en) rid = Some e \<Longrightarrow> rr_instance (re_record e) \<noteq> Some n"
  proof -
    have "owns e i \<Longrightarrow> entry_of ?s rid = Some e \<Longrightarrow> rr_instance (re_record e) \<noteq> Some n" for e i rid
      using none [of rid e] by (simp add: shown owns_def)
    then have "(\<exists>e. entry_of ?t rid = Some e \<and> owns e i) \<longleftrightarrow> (\<exists>e. entry_of ?s rid = Some e \<and> owns e i)" for rid i
      by (auto simp: entries split: option.splits)
    moreover have "(case entry_of ?t rid of Some e \<Rightarrow> if open_entry e then Some e else None | None \<Rightarrow> None)
        = (case entry_of ?s rid of Some e \<Rightarrow> if open_entry e then Some e else None | None \<Rightarrow> None)" for rid
      using none [of rid] by (auto simp: entries shown split: option.splits)
    ultimately show ?thesis using ok(2) by (simp add: mirrors_def)
  qed
  moreover have "\<not> mirrors (entry_of ?t) (en_snap en)"
    if stale: "snapshot_run (en_snap en) rid = Some e" "rr_instance (re_record e) = Some n" for rid e
  proof -
    have "entry_of ?t rid = None" using gone [OF stale] by (simp add: record_at_entry)
    then show ?thesis using stale(1) by (auto simp: mirrors_def snapshot_run_def dest!: spec [of _ rid])
  qed
  ultimately show ?thesis using gone unfolding snap by blast
qed

lemma demo_removal:
  "\<exists>t. registry_remove ''a'' Retain False (\<lambda>_. None) (no_outbox demo_db2 rows n b) = (Inr (), t)"
  by (simp add: registry_remove_def valid_name_def lookup_instance_def get_instance_def row_to_instance_def
      no_outbox_def demo_defs demo_name lifecycle_from_wire_def is_removable_without_force_def Let_def
      delete_instance_def instance_id_def)

lemma removal_leaves_the_snapshot_witness:
  "\<exists>en en' e. reachable demo_encoder en \<and> remove_job ''a'' Retain False (\<lambda>_. None) en = (Inr (), en')
     \<and> snapshot_run (en_snap en') ''r1'' = Some e \<and> record_at (en_db en') ''r1'' = None"
proof -
  obtain en rows n b where en: "reachable demo_encoder en" "en_db en = no_outbox demo_db2 rows n b"
    by (rule demo_reachable2)
  obtain t where t: "registry_remove ''a'' Retain False (\<lambda>_. None) (en_db en) = (Inr (), t)"
    using demo_removal en(2) by metis
  have go: "remove_job ''a'' Retain False (\<lambda>_. None) en = (Inr (), en\<lparr>en_db := t\<rparr>)"
    by (simp add: remove_job_def t)
  obtain e where e: "entry_of (en_db en) ''r1'' = Some e" "owns e ''a''" "open_entry e"
    using demo_open_entry en(2) by metis
  have "mirrors (entry_of (en_db en)) (en_snap en)" using reachable_ok [OF en(1)] by (simp add: engine_ok_def)
  then have "snapshot_run (en_snap en) ''r1'' = Some e" using e by (simp add: mirrors_def snapshot_run_def)
  moreover have "rr_instance (re_record e) = Some ''a''" using e(2) by (simp add: owns_def)
  ultimately show ?thesis using removal_leaves_the_snapshot [OF en(1) go] en(1) go by blast
qed

section \<open>A registration is atomic\<close>

lemma delete_created:
  assumes ok: "db_ok s" and new: "create_instance n kind Registered home now now s = Inr t" and go: "delete_instance n t = Inr u"
  shows "run_tables u = run_tables s"
proof -
  let ?row = "\<lparr>in_id = fold max (map in_id (db_instances s)) 0 + 1, in_name = n, in_kind = kind,
               in_state = lifecycle_as_str Registered, in_home = home, in_created = now, in_updated = now, in_generation = 0\<rparr>"
  have t: "t = s\<lparr>db_instances := db_instances s @ [?row]\<rparr>" and fresh: "\<forall>i\<in>set (db_instances s). in_name i \<noteq> n"
    using new by (auto simp: create_instance_def split: if_splits)
  have id: "in_id i < in_id ?row" if "i \<in> set (db_instances s)" for i
    using fold_max_ge [of "in_id i" "map in_id (db_instances s)" 0] that by simp
  have "find (\<lambda>i. in_name i = n) (db_instances s) = None" using fresh by (auto simp: find_None_iff)
  then have i: "instance_id t n = Some (in_id ?row)"
    by (simp add: instance_id_def t find_append)
  have none: "rw_instance r \<noteq> Some (in_id ?row)" if "r \<in> set (db_runs s)" for r
    using ok that id by (fastforce simp: db_ok_def run_keys_ok_def)
  have gone: "rw_id ` {r \<in> set (db_runs t). rw_instance r = Some (in_id ?row)} = {}"
    using none by (auto simp: t)
  have kept: "filter (\<lambda>x. in_id x \<noteq> in_id ?row) (db_instances t) = db_instances s"
    "filter (\<lambda>r. rw_instance r \<noteq> Some (in_id ?row)) (db_runs t) = db_runs s"
    using id none by (fastforce simp: t filter_id_conv)+
  show ?thesis
    using go unfolding delete_instance_def i option.case Let_def gone kept
    by (auto simp: run_tables_def t)
qed

text \<open>A registration either succeeds - with a valid, free name, an accepted adapter and a built home, the
  new instance read back as registered and every other instance and every Run untouched - or it fails and
  leaves the instance and Run tables exactly as they were, the created row rolled back.\<close>

theorem registration_is_atomic:
  assumes "db_ok s" and "register_with_adapter candidate resolved home_of materialize now s = (r, t)"
  shows "case r of
      Inr i \<Rightarrow> ai_name i = candidate \<and> ai_state i = Registered \<and> resolved = Inr (ai_kind i) \<and> materialize candidate = None
             \<and> get_instance s candidate = Inr None \<and> get_instance t candidate = Inr (Some i)
             \<and> (\<forall>m. m \<noteq> candidate \<longrightarrow> get_instance t m = get_instance s m) \<and> entry_of t = entry_of s
    | Inl e \<Rightarrow> run_tables t = run_tables s \<and> (\<forall>n io x. e \<noteq> RegisterOrphanRow n io x)"
proof -
  have name: "m = candidate \<and> instance_name_new candidate = Inr candidate" if "valid_name candidate = Inr m" for m
    using that by (auto simp: valid_name_def instance_name_new_def split: sum.splits if_splits list.splits)
  show ?thesis
  proof (cases "valid_name candidate")
    case (Inl e)
    then show ?thesis
      using assms(2) by (auto simp: register_with_adapter_def valid_name_def split: sum.splits)
  next
    case (Inr m)
    then have valid: "valid_name candidate = Inr candidate" and new: "instance_name_new candidate = Inr candidate"
      using name by blast+
    show ?thesis
    proof (cases resolved)
      case (Inl why)
      then show ?thesis using assms(2) by (auto simp: register_with_adapter_def valid)
    next
      case kind: (Inr kind)
      show ?thesis
      proof (cases "create_instance candidate kind Registered (home_of candidate) now now s")
        case (Inl e)
        then show ?thesis using assms(2)
          by (auto simp: register_with_adapter_def valid kind create_instance_def split: if_splits)
      next
        case row: (Inr u)
        let ?row = "\<lparr>in_id = fold max (map in_id (db_instances s)) 0 + 1, in_name = candidate, in_kind = kind,
            in_state = lifecycle_as_str Registered, in_home = home_of candidate, in_created = now,
            in_updated = now, in_generation = 0\<rparr>"
        have u: "u = s\<lparr>db_instances := db_instances s @ [?row]\<rparr>"
          and free: "find (\<lambda>i. in_name i = candidate) (db_instances s) = None"
          using row by (auto simp: create_instance_def find_None_iff split: if_splits)
        show ?thesis
        proof (cases "materialize candidate")
          case None
          have "get_instance u candidate = Inr (Some \<lparr>ai_name = candidate, ai_kind = kind, ai_state = Registered,
              ai_home = home_of candidate, ai_created = now, ai_updated = now\<rparr>)"
            by (simp add: get_instance_def u find_append free row_to_instance_def new lifecycle_wire_roundtrip
                del: lifecycle_as_str.simps)
          moreover have "get_instance u m = get_instance s m" if "m \<noteq> candidate" for m
            using that by (simp add: get_instance_def u find_append split: option.split)
          moreover have "get_instance s candidate = Inr None" by (simp add: get_instance_def free)
          ultimately show ?thesis
            using assms(2) create_instance_tables(2) [OF assms(1) row]
            by (auto simp: register_with_adapter_def valid kind row None)
        next
          case (Some io)
          have "instance_id u candidate \<noteq> None" by (simp add: instance_id_def u find_append free)
          then obtain v where v: "delete_instance candidate u = Inr v" by (auto simp: delete_instance_def Let_def)
          then show ?thesis
            using assms(2) delete_created [OF assms(1) row v]
            by (auto simp: register_with_adapter_def valid kind row Some)
        qed
      qed
    qed
  qed
qed

lemma registration_is_atomic_witness:
  "\<exists>t. register_with_adapter ''b'' (Inr ''k'') (\<lambda>n. ''h'') (\<lambda>n. Some ''disk full'') ''t'' demo_db2 = (Inl (HomeFailed ''disk full''), t)
     \<and> run_tables t = run_tables demo_db2"
proof -
  obtain en rows n b where en: "reachable demo_encoder en" "en_db en = no_outbox demo_db2 rows n b"
    by (rule demo_reachable2)
  have "db_ok (no_outbox demo_db2 rows n b)" using reachable_ok [OF en(1)] en(2) by (simp add: engine_ok_def)
  then have ok: "db_ok demo_db2" using run_tables_cong(3) [of "no_outbox demo_db2 rows n b" demo_db2] by simp
  have "\<exists>t. register_with_adapter ''b'' (Inr ''k'') (\<lambda>n. ''h'') (\<lambda>n. Some ''disk full'') ''t'' demo_db2
      = (Inl (HomeFailed ''disk full''), t)"
    by (simp add: register_with_adapter_def valid_name_def instance_name_new_def create_instance_def
        delete_instance_def instance_id_def demo_defs Let_def, code_simp)
  with registration_is_atomic [OF ok] show ?thesis by fastforce
qed

end
