(* ===== verification/Ledger_Facts.thy ===== *)
theory Ledger_Facts
  imports Ledger Run_Demo
begin

text \<open>
  The rollups are what a scan of the ledger sums. A rollup row is the saturation of six exact sums, so that
  adding a row, merging two rollups and regrouping rows by Run are all sums of naturals.
\<close>

section \<open>Exact sums\<close>

datatype sum_field = SEvents | SInput | SOutput | SCached | SUnknown | SCost

fun weight :: "stored_usage \<Rightarrow> sum_field \<Rightarrow> nat" where
  "weight u SEvents = 1"
| "weight u SInput = unat (sg_input u)"
| "weight u SOutput = unat (sg_output u)"
| "weight u SCached = (case sg_cached u of Some c \<Rightarrow> unat c | None \<Rightarrow> 0)"
| "weight u SUnknown = (case sg_cached u of Some _ \<Rightarrow> 0 | None \<Rightarrow> 1)"
| "weight u SCost = nat (stored_cost u)"

definition sat_u64 :: "nat \<Rightarrow> u64" where
  "sat_u64 n = word_of_nat (min n (2 ^ 64 - 1))"

definition sat_row :: "(sum_field \<Rightarrow> nat) \<Rightarrow> rollup_row" where
  "sat_row t =
     \<lparr>ro_events = sat_u64 (t SEvents), ro_input = sat_u64 (t SInput), ro_output = sat_u64 (t SOutput),
      ro_cached = sat_u64 (t SCached), ro_cached_unknown = sat_u64 (t SUnknown),
      ro_cost = min i64_max (int (t SCost))\<rparr>"

lemma unat_sat_u64: "unat (sat_u64 n) = min n (2 ^ 64 - 1)"
proof -
  have "min n (2 ^ 64 - 1) < 2 ^ LENGTH(64)" by (simp add: min_def) 
  then show ?thesis unfolding sat_u64_def by (simp add: unsigned_of_nat take_bit_nat_eq_self)
qed

lemma sat_add_u64: "sat_add (sat_u64 a) (sat_u64 b) = sat_u64 (a + b)"
  by (rule word_eq_unatI) (simp add: sat_simps unat_sat_u64)

lemma sat_u64_unat: "sat_u64 (unat w) = w"
  by (rule word_eq_unatI) (use unsigned_less [of w, where 'a = nat] in \<open>simp add: unat_sat_u64\<close>)

lemma sat_add_u64_unat: "sat_add (sat_u64 a) w = sat_u64 (a + unat w)"
  using sat_add_u64 [of a "unat w"] by (simp add: sat_u64_unat)

lemma sat_u64_1: "sat_add (sat_u64 a) 1 = sat_u64 (Suc a)"
  using sat_add_u64_unat [of a 1] by simp

lemma sat_cost: "i64_sat_add (min i64_max (int a)) (min i64_max (int b)) = min i64_max (int (a + b))"
  by (simp add: i64_defs)

lemma sat_row_cong: "(\<And>f. a f = b f) \<Longrightarrow> sat_row a = sat_row b"
  by (simp add: sat_row_def)

text \<open>Saturating late is saturating at every step.\<close>

lemma sat_row_mod: "(\<And>f. min (a f) (2 ^ 64 - 1) = min (b f) (2 ^ 64 - 1)) \<Longrightarrow> sat_row a = sat_row b"
proof -
  assume eq: "\<And>f. min (a f) (2 ^ 64 - 1) = min (b f) (2 ^ 64 - 1)"
  have "min i64_max (int (a SCost)) = min i64_max (int (b SCost))"
    using eq [of SCost] by (auto simp: i64_max_def min_def split: if_splits)
  then show ?thesis using eq by (simp add: sat_row_def sat_u64_def)
qed

lemma stored_cost_bounds: "0 \<le> stored_cost u" "stored_cost u \<le> i64_max"
  by (simp_all add: stored_cost_def Let_def split: option.split)

lemma merge_sat_row: "rollup_merge (sat_row d) (sat_row t) = sat_row (\<lambda>f. t f + d f)"
  by (simp add: rollup_merge_def sat_row_def sat_add_u64 micros_saturating_add_def sat_cost)

lemma add_sat_row: "rollup_add u (sat_row t) = sat_row (\<lambda>f. t f + weight u f)"
proof -
  have "stored_cost u = min i64_max (int (nat (stored_cost u)))" using stored_cost_bounds [of u] by simp
  then have "micros_saturating_add (min i64_max (int (t SCost))) (stored_cost u)
      = min i64_max (int (t SCost + nat (stored_cost u)))"
    using sat_cost [of "t SCost" "nat (stored_cost u)"] by (simp add: micros_saturating_add_def)
  then show ?thesis
    by (simp add: rollup_add_def sat_row_def sat_add_u64_unat sat_u64_1 split: option.split)
qed

lemma sat_row_zero: "rollup_row_zero = sat_row (\<lambda>_. 0)"
  by (simp add: rollup_row_zero_def sat_row_def sat_u64_def)

text \<open>The scan: one row after the other, saturating.\<close>

definition scan_rows :: "usage_row list \<Rightarrow> rollup_row" where
  "scan_rows rows = fold (\<lambda>u. rollup_add (stored_usage_of u)) rows rollup_row_zero"

definition row_sum :: "usage_row list \<Rightarrow> sum_field \<Rightarrow> nat" where
  "row_sum rows f = (\<Sum>u\<leftarrow>rows. weight (stored_usage_of u) f)"

lemma scan_rows_sum: "scan_rows rows = sat_row (row_sum rows)"
proof -
  have "fold (\<lambda>u. rollup_add (stored_usage_of u)) rows (sat_row t) = sat_row (\<lambda>f. t f + row_sum rows f)" for t
    by (induction rows arbitrary: t) (simp_all add: add_sat_row row_sum_def add.assoc)
  then show ?thesis by (simp add: scan_rows_def sat_row_zero)
qed

section \<open>Hash maps of rollups\<close>

definition entry :: "('k \<times> rollup_row) list \<Rightarrow> 'k \<Rightarrow> rollup_row" where
  "entry m k = (case map_of m k of Some v \<Rightarrow> v | None \<Rightarrow> rollup_row_zero)"

lemma entry_Nil [simp]: "entry [] k = rollup_row_zero"
  by (simp add: entry_def)

lemma entry_at_entry: "entry (at_entry k f m) x = (if x = k then f (entry m k) else entry m x)"
  by (induction m) (auto simp: entry_def)

lemma keys_at_entry_list:
  "map fst (at_entry k f m) = (if k \<in> fst ` set m then map fst m else map fst m @ [k])"
  by (induction m rule: at_entry.induct) auto

lemma keys_at_entry: "fst ` set (at_entry k f m) = insert k (fst ` set m)"
proof -
  have "set (map fst (at_entry k f m)) = insert k (set (map fst m))"
    unfolding keys_at_entry_list by auto
  then show ?thesis by simp
qed

lemma distinct_at_entry: "distinct (map fst m) \<Longrightarrow> distinct (map fst (at_entry k f m))"
  unfolding keys_at_entry_list by simp

lemma entry_distinct: "distinct (map fst m) \<Longrightarrow> (k, v) \<in> set m \<Longrightarrow> entry m k = v"
  by (simp add: entry_def)

text \<open>Rows grouped under a key.\<close>

definition group :: "(usage_row \<Rightarrow> 'k option) \<Rightarrow> usage_row list \<Rightarrow> ('k \<times> rollup_row) list" where
  "group key rows =
     fold (\<lambda>u m. case key u of None \<Rightarrow> m | Some k \<Rightarrow> at_entry k (rollup_add (stored_usage_of u)) m) rows []"

definition run_key :: "usage_row \<Rightarrow> (int \<times> run_id) option" where
  "run_key u = map_option (\<lambda>i. (i, ur_run u)) (ur_instance u)"

lemma by_instance_group: "by_instance rows = group ur_instance rows"
  by (simp add: by_instance_def group_def)

lemma by_run_group: "by_run rows = group run_key rows"
  unfolding by_run_def group_def
  by (intro fold_cong refl arg_cong2 [where f = "\<lambda>g. fold g rows"] ext) (simp_all add: run_key_def split: option.split)

lemma group_step:
  "distinct (map fst m) \<Longrightarrow> (\<And>k. entry m k = sat_row (t k)) \<Longrightarrow>
   (let m' = fold (\<lambda>u m. case key u of None \<Rightarrow> m | Some k \<Rightarrow> at_entry k (rollup_add (stored_usage_of u)) m) rows m
    in distinct (map fst m') \<and> fst ` set m' = fst ` set m \<union> {k. \<exists>u\<in>set rows. key u = Some k}
       \<and> (\<forall>k. entry m' k = sat_row (\<lambda>f. t k f + row_sum (filter (\<lambda>u. key u = Some k) rows) f)))"
proof (induction rows arbitrary: m t)
  case Nil
  then show ?case by (simp add: row_sum_def)
next
  case (Cons u rows)
  show ?case
  proof (cases "key u")
    case None
    then show ?thesis using Cons.IH [OF Cons.prems] by (auto simp: Let_def)
  next
    case (Some k)
    let ?m = "at_entry k (rollup_add (stored_usage_of u)) m"
    let ?t = "\<lambda>x f. t x f + (if x = k then weight (stored_usage_of u) f else 0)"
    have "entry ?m x = sat_row (?t x)" for x
      using Cons.prems(2) by (simp add: entry_at_entry add_sat_row)
    from Cons.IH [OF distinct_at_entry [OF Cons.prems(1)] this]
    show ?thesis
      by (auto simp: Let_def Some keys_at_entry row_sum_def add.assoc)
  qed
qed

lemma group_spec:
  "distinct (map fst (group key rows))"
  "fst ` set (group key rows) = {k. \<exists>u\<in>set rows. key u = Some k}"
  "entry (group key rows) k = sat_row (row_sum (filter (\<lambda>u. key u = Some k) rows))"
  using group_step [of "[]" "\<lambda>_ _. 0" key rows] by (simp_all add: group_def Let_def sat_row_zero)

text \<open>Sums over the groups are sums over the rows.\<close>

lemma sum_groups:
  assumes "finite K" and "\<And>u k. u \<in> set rows \<Longrightarrow> key u = Some k \<Longrightarrow> k \<in> K"
  shows "(\<Sum>k\<in>K. c k * row_sum (filter (\<lambda>u. key u = Some k) rows) f)
       = (\<Sum>u\<leftarrow>rows. case key u of None \<Rightarrow> 0 | Some k \<Rightarrow> c k * weight (stored_usage_of u) f)"
  using assms(2)
proof (induction rows)
  case Nil
  then show ?case by (simp add: row_sum_def)
next
  case (Cons u rows)
  have ih: "(\<Sum>k\<in>K. c k * row_sum (filter (\<lambda>u. key u = Some k) rows) f)
      = (\<Sum>u\<leftarrow>rows. case key u of None \<Rightarrow> 0 | Some k \<Rightarrow> c k * weight (stored_usage_of u) f)"
    by (rule Cons.IH) (use Cons.prems in auto)
  have "(\<Sum>k\<in>K. c k * row_sum (filter (\<lambda>u. key u = Some k) (u # rows)) f)
      = (\<Sum>k\<in>K. (if key u = Some k then c k * weight (stored_usage_of u) f else 0)
           + c k * row_sum (filter (\<lambda>u. key u = Some k) rows) f)"
    by (intro sum.cong refl) (simp add: row_sum_def distrib_left)
  also have "\<dots> = (\<Sum>k\<in>K. if key u = Some k then c k * weight (stored_usage_of u) f else 0)
      + (\<Sum>u\<leftarrow>rows. case key u of None \<Rightarrow> 0 | Some k \<Rightarrow> c k * weight (stored_usage_of u) f)"
    by (simp add: sum.distrib ih)
  also have "(\<Sum>k\<in>K. if key u = Some k then c k * weight (stored_usage_of u) f else 0)
      = (case key u of None \<Rightarrow> 0 | Some k \<Rightarrow> c k * weight (stored_usage_of u) f)"
    using Cons.prems [of u] assms(1) by (cases "key u") (simp_all add: sum.delta')
  finally show ?case by simp
qed

text \<open>A Run's rows go to it and to every hosted ancestor.\<close>

definition targets :: "(run_id \<Rightarrow> (int option \<times> run_id) list) \<Rightarrow> int \<times> run_id \<Rightarrow> (int \<times> run_id) list" where
  "targets chain k = List.map_filter (\<lambda>(host, a). map_option (\<lambda>j. (j, a)) host) (chain (snd k)) @ [k]"

lemma at_entry_merge:
  assumes "distinct (map fst m)" and "\<And>x. entry m x = sat_row (t x)"
  shows "distinct (map fst (at_entry k (rollup_merge (sat_row d)) m))
     \<and> (\<forall>x. entry (at_entry k (rollup_merge (sat_row d)) m) x = sat_row (\<lambda>f. t x f + (if x = k then d f else 0)))"
  using assms by (simp add: distinct_at_entry entry_at_entry merge_sat_row)

lemma merge_chain:
  assumes "distinct (map fst m)" and "\<And>x. entry m x = sat_row (t x)"
  shows "let m' = fold (\<lambda>(host, a) m. case host of Some j \<Rightarrow> at_entry (j, a) (rollup_merge (sat_row d)) m | None \<Rightarrow> m) chain m
    in distinct (map fst m') \<and> (\<forall>x. entry m' x = sat_row (\<lambda>f. t x f
         + count_list (List.map_filter (\<lambda>(host, a). map_option (\<lambda>j. (j, a)) host) chain) x * d f))"
  using assms
proof (induction chain arbitrary: m t)
  case Nil
  then show ?case by (simp add: Let_def List.map_filter_simps)
next
  case (Cons c chain)
  obtain host a where c: "c = (host, a)" by (cases c)
  show ?case
  proof (cases host)
    case None
    then show ?thesis using Cons.IH [OF Cons.prems] by (simp add: c List.map_filter_simps Let_def)
  next
    case (Some j)
    note step = at_entry_merge [OF Cons.prems, of "(j, a)" d]
    from Cons.IH [OF step [THEN conjunct1] step [THEN conjunct2, THEN spec]]
    show ?thesis by (simp add: c Some List.map_filter_simps Let_def add.assoc) (auto intro!: sat_row_cong)
  qed
qed

lemma with_ancestors_step:
  assumes "distinct (map fst m)" and "\<And>x. entry m x = sat_row (t x)"
    and "\<And>k v. (k, v) \<in> set deltas \<Longrightarrow> v = sat_row (D k)"
  shows "let m' = fold (\<lambda>((i, rid), delta) m.
        at_entry (i, rid) (rollup_merge delta)
          (fold (\<lambda>(host, a) m. case host of Some j \<Rightarrow> at_entry (j, a) (rollup_merge delta) m | None \<Rightarrow> m)
             (chain rid) m)) deltas m
    in distinct (map fst m') \<and> (\<forall>x. entry m' x =
         sat_row (\<lambda>f. t x f + (\<Sum>k\<leftarrow>map fst deltas. count_list (targets chain k) x * D k f)))"
  using assms
proof (induction deltas arbitrary: m t)
  case Nil
  then show ?case by (simp add: Let_def)
next
  case (Cons kd deltas)
  obtain i rid delta where kd: "kd = ((i, rid), delta)" by (cases kd) auto
  have delta: "delta = sat_row (D (i, rid))" by (rule Cons.prems(3)) (simp add: kd)
  define m1 where "m1 = fold (\<lambda>(host, a) m. case host of Some j \<Rightarrow> at_entry (j, a) (rollup_merge delta) m | None \<Rightarrow> m)
             (chain rid) m"
  note chain_step = merge_chain [OF Cons.prems(1,2), of "D (i, rid)" "chain rid", unfolded Let_def, folded delta, folded m1_def]
  have m1: "distinct (map fst m1)" "entry m1 x = sat_row (\<lambda>f. t x f
      + count_list (List.map_filter (\<lambda>(host, a). map_option (\<lambda>j. (j, a)) host) (chain rid)) x * D (i, rid) f)" for x
    using chain_step by (blast, blast)
  define m2 where "m2 = at_entry (i, rid) (rollup_merge delta) m1"
  have m2: "distinct (map fst m2)"
    "entry m2 x = sat_row (\<lambda>f. t x f + count_list (targets chain (i, rid)) x * D (i, rid) f)" for x
    using at_entry_merge [OF m1, of "(i, rid)" "D (i, rid)", THEN conjunct1]
      at_entry_merge [OF m1, of "(i, rid)" "D (i, rid)", THEN conjunct2, THEN spec, of x]
    by (auto simp: m2_def delta targets_def distrib_right add.assoc intro!: sat_row_cong)
  show ?case
    using Cons.IH [OF m2 Cons.prems(3)] by (simp add: kd Let_def m1_def [symmetric] m2_def [symmetric] add.assoc)
qed

lemma with_ancestors_spec:
  assumes "\<And>k v. (k, v) \<in> set deltas \<Longrightarrow> v = sat_row (D k)"
  shows "distinct (map fst (with_ancestors chain deltas))"
    and "entry (with_ancestors chain deltas) x =
      sat_row (\<lambda>f. \<Sum>k\<leftarrow>map fst deltas. count_list (targets chain k) x * D k f)"
  using with_ancestors_step [of "[]" "\<lambda>_ _. 0" deltas D chain, unfolded Let_def, folded with_ancestors_def] assms
  by (cases x, auto simp: sat_row_zero)+

section \<open>The fold over the database\<close>

lemma write_instances:
  assumes "distinct (map fst deltas)"
  shows "\<exists>m. fold (\<lambda>(i, delta) t. write_instance_rollup i (rollup_merge delta (read_instance_rollup t i)) t) deltas s
        = s\<lparr>db_rollup_instance := m\<rparr>
     \<and> (\<forall>i. read_instance_rollup (s\<lparr>db_rollup_instance := m\<rparr>) i =
          (if i \<in> fst ` set deltas then rollup_merge (entry deltas i) (read_instance_rollup s i)
           else read_instance_rollup s i))"
  using assms
proof (induction deltas arbitrary: s)
  case Nil
  show ?case by (intro exI [of _ "db_rollup_instance s"]) simp
next
  case (Cons kd deltas)
  obtain i d where kd: "kd = (i, d)" by (cases kd)
  let ?s = "write_instance_rollup i (rollup_merge d (read_instance_rollup s i)) s"
  obtain m where m: "fold (\<lambda>(i, delta) t. write_instance_rollup i (rollup_merge delta (read_instance_rollup t i)) t) deltas ?s
        = ?s\<lparr>db_rollup_instance := m\<rparr>"
     "\<And>j. read_instance_rollup (?s\<lparr>db_rollup_instance := m\<rparr>) j =
          (if j \<in> fst ` set deltas then rollup_merge (entry deltas j) (read_instance_rollup ?s j)
           else read_instance_rollup ?s j)" using Cons.IH [of ?s] Cons.prems by auto
  have "?s\<lparr>db_rollup_instance := m\<rparr> = s\<lparr>db_rollup_instance := m\<rparr>" by (simp add: write_instance_rollup_def)
  moreover have "read_instance_rollup ?s j = (if j = i then rollup_merge d (read_instance_rollup s i) else read_instance_rollup s j)" for j
    by (simp add: read_instance_rollup_def write_instance_rollup_def)
  moreover have "entry (kd # deltas) j = (if j = i then d else entry deltas j)" for j
    by (simp add: kd entry_def)
  ultimately show ?case using m Cons.prems by (intro exI [of _ m]) (auto simp: kd)
qed

lemma write_runs:
  assumes "distinct (map fst deltas)"
  shows "\<exists>m. fold (\<lambda>(k, delta) t. write_run_rollup k (rollup_merge delta (read_run_rollup t k)) t) deltas s
        = s\<lparr>db_rollup_run := m\<rparr>
     \<and> (\<forall>k. read_run_rollup (s\<lparr>db_rollup_run := m\<rparr>) k =
          (if k \<in> fst ` set deltas then rollup_merge (entry deltas k) (read_run_rollup s k)
           else read_run_rollup s k))"
  using assms
proof (induction deltas arbitrary: s)
  case Nil
  show ?case by (intro exI [of _ "db_rollup_run s"]) simp
next
  case (Cons kd deltas)
  obtain i d where kd: "kd = (i, d)" by (cases kd)
  let ?s = "write_run_rollup i (rollup_merge d (read_run_rollup s i)) s"
  obtain m where m: "fold (\<lambda>(k, delta) t. write_run_rollup k (rollup_merge delta (read_run_rollup t k)) t) deltas ?s
        = ?s\<lparr>db_rollup_run := m\<rparr>"
     "\<And>j. read_run_rollup (?s\<lparr>db_rollup_run := m\<rparr>) j =
          (if j \<in> fst ` set deltas then rollup_merge (entry deltas j) (read_run_rollup ?s j)
           else read_run_rollup ?s j)" using Cons.IH [of ?s] Cons.prems by auto
  have "?s\<lparr>db_rollup_run := m\<rparr> = s\<lparr>db_rollup_run := m\<rparr>" by (simp add: write_run_rollup_def)
  moreover have "read_run_rollup ?s j = (if j = i then rollup_merge d (read_run_rollup s i) else read_run_rollup s j)" for j
    by (simp add: read_run_rollup_def write_run_rollup_def)
  moreover have "entry (kd # deltas) j = (if j = i then d else entry deltas j)" for j
    by (simp add: kd entry_def)
  ultimately show ?case using m Cons.prems by (intro exI [of _ m]) (auto simp: kd)
qed

text \<open>What the rollups should say: the rows folded so far, each added once to its instance and once to
  every target of its Run.\<close>

definition folded_rows :: "db \<Rightarrow> usage_row list" where
  "folded_rows s = filter (\<lambda>u. ur_id u \<le> db_folded_through s) (db_usage s)"

definition row_targets :: "db \<Rightarrow> usage_row \<Rightarrow> (int \<times> run_id) list" where
  "row_targets s u = (case run_key u of None \<Rightarrow> [] | Some k \<Rightarrow> targets (ancestors_for_fold s) k)"

definition target_sum :: "db \<Rightarrow> usage_row list \<Rightarrow> int \<times> run_id \<Rightarrow> sum_field \<Rightarrow> nat" where
  "target_sum s rows k f = (\<Sum>u\<leftarrow>rows. count_list (row_targets s u) k * weight (stored_usage_of u) f)"

definition instance_sum :: "usage_row list \<Rightarrow> int \<Rightarrow> sum_field \<Rightarrow> nat" where
  "instance_sum rows i = row_sum (filter (\<lambda>u. ur_instance u = Some i) rows)"

definition ledger_ok :: "db \<Rightarrow> bool" where
  "ledger_ok s \<longleftrightarrow>
     (\<forall>i. read_instance_rollup s i = sat_row (instance_sum (folded_rows s) i))
   \<and> (\<forall>k. read_run_rollup s k = sat_row (target_sum s (folded_rows s) k))
   \<and> sorted_wrt (<) (map ur_id (db_usage s)) \<and> (\<forall>u\<in>set (db_usage s). ur_id u \<le> db_usage_seq s)
   \<and> db_folded_through s \<le> db_usage_seq s"

lemma sum_list_split: "(\<Sum>u\<leftarrow>rows. (g u :: nat)) = (\<Sum>u\<leftarrow>filter P rows. g u) + (\<Sum>u\<leftarrow>filter (\<lambda>u. \<not> P u) rows. g u)"
  by (induction rows) auto

lemma instance_sum_split:
  "instance_sum rows i f = instance_sum (filter P rows) i f + instance_sum (filter (\<lambda>u. \<not> P u) rows) i f"
  using sum_list_split [of "\<lambda>u. weight (stored_usage_of u) f" "filter (\<lambda>u. ur_instance u = Some i) rows" P]
  by (simp add: instance_sum_def row_sum_def conj_commute)

lemma target_sum_split:
  "target_sum s rows k f = target_sum s (filter P rows) k f + target_sum s (filter (\<lambda>u. \<not> P u) rows) k f"
  unfolding target_sum_def by (rule sum_list_split)

lemma find_run_cong: "db_runs t = db_runs s \<Longrightarrow> find_run t = find_run s"
  by (rule ext) (simp only: find_run_def)

lemma up_chain_cong: "db_runs t = db_runs s \<Longrightarrow> up_chain n t p = up_chain n s p"
proof -
  assume "db_runs t = db_runs s"
  then have same: "find_run t = find_run s" by (rule find_run_cong)
  show ?thesis
  proof (induction n arbitrary: p)
    case (Suc n)
    then show ?case by (cases p) (simp_all add: same split: option.split)
  qed simp
qed

lemma ancestors_cong: "db_runs t = db_runs s \<Longrightarrow> ancestors_for_fold t = ancestors_for_fold s"
  by (rule ext) (simp only: ancestors_for_fold_def find_run_cong [of t s] up_chain_cong [of t s])

lemma row_targets_cong: "db_runs t = db_runs s \<Longrightarrow> row_targets t = row_targets s"
  by (rule ext) (simp only: row_targets_def ancestors_cong [of t s])

lemma target_sum_cong: "db_runs t = db_runs s \<Longrightarrow> target_sum t = target_sum s"
  by (intro ext) (simp only: target_sum_def row_targets_cong [of t s])

lemma highest_ge: "(w :: int) \<le> fold (\<lambda>u h. max h (ur_id u)) rows w \<and> (\<forall>u\<in>set rows. ur_id u \<le> fold (\<lambda>u h. max h (ur_id u)) rows w)
   \<and> (\<forall>b. w \<le> b \<longrightarrow> (\<forall>u\<in>set rows. ur_id u \<le> b) \<longrightarrow> fold (\<lambda>u h. max h (ur_id u)) rows w \<le> b)"
proof (induction rows arbitrary: w)
  case (Cons u rows)
  from Cons.IH [of "max w (ur_id u)"] show ?case by (auto simp: max_def split: if_splits)
qed simp

lemma run_deltas:
  "distinct (map fst (with_ancestors chain (by_run rows)))"
  "entry (with_ancestors chain (by_run rows)) k = sat_row (\<lambda>f. \<Sum>u\<leftarrow>rows.
      count_list (case run_key u of None \<Rightarrow> [] | Some x \<Rightarrow> targets chain x) k * weight (stored_usage_of u) f)"
proof -
  let ?D = "\<lambda>x. row_sum (filter (\<lambda>u. run_key u = Some x) rows)"
  have D: "v = sat_row (?D x)" if "(x, v) \<in> set (by_run rows)" for x v
    using entry_distinct [OF group_spec(1)] that group_spec(3) unfolding by_run_group by metis
  note anc = with_ancestors_spec [of "by_run rows" ?D, OF D, of chain]
  show "distinct (map fst (with_ancestors chain (by_run rows)))" by (rule anc(1))
  have "(\<Sum>x\<leftarrow>map fst (by_run rows). count_list (targets chain x) k * ?D x f)
      = (\<Sum>u\<leftarrow>rows. case run_key u of None \<Rightarrow> 0 | Some x \<Rightarrow> count_list (targets chain x) k * weight (stored_usage_of u) f)" for f
  proof -
    have "(\<Sum>x\<leftarrow>map fst (by_run rows). count_list (targets chain x) k * ?D x f)
        = (\<Sum>x\<in>fst ` set (by_run rows). count_list (targets chain x) k * ?D x f)"
      by (subst sum_list_distinct_conv_sum_set) (simp_all add: by_run_group group_spec(1))
    also have "\<dots> = (\<Sum>u\<leftarrow>rows. case run_key u of None \<Rightarrow> 0 | Some x \<Rightarrow> count_list (targets chain x) k * weight (stored_usage_of u) f)"
      by (rule sum_groups, simp, unfold by_run_group group_spec(2), blast)
    finally show ?thesis .
  qed
  moreover have "(case run_key u of None \<Rightarrow> 0 | Some x \<Rightarrow> count_list (targets chain x) k * weight (stored_usage_of u) f)
      = count_list (case run_key u of None \<Rightarrow> [] | Some x \<Rightarrow> targets chain x) k * weight (stored_usage_of u) f" for u f
    by (simp split: option.split)
  ultimately show "entry (with_ancestors chain (by_run rows)) k = sat_row (\<lambda>f. \<Sum>u\<leftarrow>rows.
      count_list (case run_key u of None \<Rightarrow> [] | Some x \<Rightarrow> targets chain x) k * weight (stored_usage_of u) f)"
    using anc(2) [of k] by (simp del: map_map)
qed

lemma merge_zero: "rollup_merge rollup_row_zero (sat_row t) = sat_row t"
  by (simp add: sat_row_zero merge_sat_row)

lemma entry_absent: "k \<notin> fst ` set m \<Longrightarrow> entry m k = rollup_row_zero"
  by (simp add: entry_def map_of_eq_None_iff [THEN iffD2])

lemma fold_rows_spec:
  assumes ok: "ledger_ok s"
  shows "\<exists>mi mr h. fold_rows True s = s\<lparr>db_rollup_instance := mi, db_rollup_run := mr, db_folded_through := h\<rparr>
     \<and> folded_rows (fold_rows True s) = db_usage s \<and> ledger_ok (fold_rows True s)"
proof -
  let ?w = "db_folded_through s"
  define new where "new = filter (\<lambda>u. ur_id u > ?w) (db_usage s)"
  have sorted: "sort_key ur_id (db_usage s) = db_usage s"
    using ok by (intro sort_key_id_if_sorted) (auto simp: ledger_ok_def sorted_wrt_map intro: sorted_wrt_mono_rel [rotated])
  define h where "h = fold (\<lambda>u h. max h (ur_id u)) new ?w"
  obtain mi where mi: "fold (\<lambda>(i, delta) t. write_instance_rollup i (rollup_merge delta (read_instance_rollup t i)) t)
        (by_instance new) s = s\<lparr>db_rollup_instance := mi\<rparr>"
      "\<And>i. read_instance_rollup (s\<lparr>db_rollup_instance := mi\<rparr>) i =
          (if i \<in> fst ` set (by_instance new) then rollup_merge (entry (by_instance new) i) (read_instance_rollup s i)
           else read_instance_rollup s i)"
    using write_instances [of "by_instance new" s] by (auto simp: by_instance_group group_spec(1))
  let ?s1 = "s\<lparr>db_rollup_instance := mi\<rparr>"
  define deltas where "deltas = with_ancestors (ancestors_for_fold ?s1) (by_run new)"
  obtain mr where mr: "fold (\<lambda>(k, delta) t. write_run_rollup k (rollup_merge delta (read_run_rollup t k)) t) deltas ?s1
        = ?s1\<lparr>db_rollup_run := mr\<rparr>"
     "\<And>k. read_run_rollup (?s1\<lparr>db_rollup_run := mr\<rparr>) k =
          (if k \<in> fst ` set deltas then rollup_merge (entry deltas k) (read_run_rollup ?s1 k) else read_run_rollup ?s1 k)"
    using write_runs [of deltas ?s1] run_deltas(1) by (auto simp: deltas_def)
  have t: "fold_rows True s = s\<lparr>db_rollup_instance := mi, db_rollup_run := mr, db_folded_through := h\<rparr>"
    using highest_ge [of ?w new]
    by (simp add: fold_rows_def Let_def sorted new_def [symmetric] h_def [symmetric] mi(1) deltas_def [symmetric] mr(1))
  have all: "ur_id u \<le> h" if "u \<in> set (db_usage s)" for u
    using that highest_ge [of ?w new] by (cases "ur_id u > ?w") (auto simp: h_def new_def not_less)
  then have folded: "folded_rows (fold_rows True s) = db_usage s"
    by (simp add: folded_rows_def t)
  have old: "filter (\<lambda>u. \<not> ur_id u > ?w) (db_usage s) = folded_rows s" by (simp add: folded_rows_def not_less)
  have "read_instance_rollup (fold_rows True s) i = sat_row (instance_sum (db_usage s) i)" for i
  proof -
    have "read_instance_rollup (fold_rows True s) i = read_instance_rollup (s\<lparr>db_rollup_instance := mi\<rparr>) i"
      by (simp add: t read_instance_rollup_def)
    also have "\<dots> = rollup_merge (entry (by_instance new) i) (sat_row (instance_sum (folded_rows s) i))"
      using mi(2) [of i] ok entry_absent [of i "by_instance new"] by (simp add: ledger_ok_def merge_zero)
    also have "\<dots> = sat_row (instance_sum (db_usage s) i)"
      by (simp add: by_instance_group group_spec(3) merge_sat_row instance_sum_def [symmetric])
        (rule sat_row_cong, simp add: instance_sum_split [of "db_usage s" i _ "\<lambda>u. ur_id u > ?w"] old new_def add.commute)
    finally show ?thesis .
  qed
  moreover have "read_run_rollup (fold_rows True s) k = sat_row (target_sum s (db_usage s) k)" for k
  proof -
    have base: "read_run_rollup s k = sat_row (target_sum s (folded_rows s) k)"
      using ok unfolding ledger_ok_def by blast
    have same: "ancestors_for_fold ?s1 = ancestors_for_fold s" by (rule ancestors_cong) simp
    have d: "entry deltas k = sat_row (target_sum s new k)"
      unfolding deltas_def run_deltas(2)
      by (rule sat_row_cong, simp add: target_sum_def row_targets_def same cong: option.case_cong)
    have "read_run_rollup (fold_rows True s) k = read_run_rollup (?s1\<lparr>db_rollup_run := mr\<rparr>) k"
      by (simp add: t read_run_rollup_def)
    also have "\<dots> = rollup_merge (entry deltas k) (read_run_rollup s k)"
      using mr(2) [of k] entry_absent [of k deltas] base by (simp add: merge_zero read_run_rollup_def)
    also have "\<dots> = rollup_merge (sat_row (target_sum s new k)) (sat_row (target_sum s (folded_rows s) k))"
      by (simp add: base d)
    also have "\<dots> = sat_row (target_sum s (db_usage s) k)"
      by (simp add: merge_sat_row)
        (rule sat_row_cong, simp add: target_sum_split [of s "db_usage s" k _ "\<lambda>u. ur_id u > ?w"] old new_def add.commute)
    finally show ?thesis .
  qed
  moreover have "h \<le> db_usage_seq s"
    using highest_ge [of ?w new] ok by (auto simp: h_def ledger_ok_def new_def)
  ultimately have "ledger_ok (fold_rows True s)"
    using ok target_sum_cong [of "fold_rows True s" s] by (simp add: ledger_ok_def folded) (simp add: t)
  with t folded show ?thesis by blast
qed

section \<open>Subtrees\<close>

text \<open>A row counts for a Run of an instance when it was metered on that very Run, or on a Run below it.\<close>

definition in_subtree :: "db \<Rightarrow> int \<times> run_id \<Rightarrow> usage_row \<Rightarrow> bool" where
  "in_subtree s k u \<longleftrightarrow> (\<exists>i. ur_instance u = Some i \<and> (k = (i, ur_run u) \<or>
     (\<exists>n. anc (parent_of s) (Suc n) (ur_run u) = Some (snd k) \<and> Option.bind (find_run s (snd k)) rw_instance = Some (fst k))))"

lemma rooted_anc:
  "rooted rec x n R \<Longrightarrow> anc (par_of rec) m x = Some y \<Longrightarrow> m \<le> n \<and> rooted rec y (n - m) R"
proof (induction m arbitrary: x n)
  case (Suc m)
  then obtain p where p: "par_of rec x = Some p" "anc (par_of rec) m p = Some y" by (auto simp: bind_eq_Some_conv)
  have "n \<noteq> 0" using p(1) Suc.prems(1) by (intro notI) (auto simp: rooted_def par_of_def)
  then obtain k where n: "n = Suc k" by (cases n) auto
  with Suc.prems(1) p(1) have "rooted rec p k R" by (simp add: rooted_def)
  from Suc.IH [OF this p(2)] n show ?case by simp
qed simp

lemma parent_row: "par_of (record_at s) x = Option.bind (find_run s x) rw_parent"
  by (cases "find_run s x") (simp_all add: par_of_def record_at_def rec_of_def)

lemma up_chain_rooted:
  "rooted (record_at s) x n R \<Longrightarrow> n \<le> k \<Longrightarrow>
     distinct (map rw_id (up_chain k s (par_of (record_at s) x)))
   \<and> (\<forall>r\<in>set (up_chain k s (par_of (record_at s) x)). find_run s (rw_id r) = Some r)
   \<and> (\<forall>a. a \<in> rw_id ` set (up_chain k s (par_of (record_at s) x)) \<longleftrightarrow> (\<exists>m. anc (par_of (record_at s)) (Suc m) x = Some a))"
proof (induction n arbitrary: x k)
  case 0
  then have "par_of (record_at s) x = None" by (auto simp: rooted_def par_of_def)
  then show ?case by simp
next
  case (Suc n)
  then obtain p j where p: "par_of (record_at s) x = Some p" "rooted (record_at s) p n R" and k: "k = Suc j" "n \<le> j"
    by (cases k) (auto simp: rooted_def bind_eq_Some_conv)
  have "record_at s p \<noteq> None" using p(2) by (cases n) (auto simp: rooted_def par_of_def bind_eq_Some_conv)
  then obtain row where row: "find_run s p = Some row" by (auto simp: record_at_def)
  then have id: "rw_id row = p" by (auto dest: find_run_Some)
  have chain: "up_chain k s (Some p) = row # up_chain j s (par_of (record_at s) p)"
    by (simp add: k(1) row parent_row)
  note ih = Suc.IH [OF p(2) k(2)]
  have "p \<notin> rw_id ` set (up_chain j s (par_of (record_at s) p))"
  proof
    assume "p \<in> rw_id ` set (up_chain j s (par_of (record_at s) p))"
    then obtain m where "anc (par_of (record_at s)) (Suc m) p = Some p" using ih by blast
    then have deep: "Suc m \<le> n" "rooted (record_at s) p (n - Suc m) R" using rooted_anc [OF p(2)] by blast+
    from rooted_unique [OF p(2) deep(2)] deep(1) show False by simp
  qed
  moreover have "(\<exists>m. anc (par_of (record_at s)) (Suc m) x = Some a) \<longleftrightarrow>
      a = p \<or> (\<exists>m. anc (par_of (record_at s)) (Suc m) p = Some a)" for a
  proof
    assume "\<exists>m. anc (par_of (record_at s)) (Suc m) x = Some a"
    then obtain m where "anc (par_of (record_at s)) m p = Some a" using p(1) by auto
    then show "a = p \<or> (\<exists>m. anc (par_of (record_at s)) (Suc m) p = Some a)" by (cases m) auto
  next
    assume "a = p \<or> (\<exists>m. anc (par_of (record_at s)) (Suc m) p = Some a)"
    then show "\<exists>m. anc (par_of (record_at s)) (Suc m) x = Some a"
    proof
      assume "a = p"
      then have "anc (par_of (record_at s)) (Suc 0) x = Some a" using p(1) by simp
      then show ?thesis by blast
    next
      assume "\<exists>m. anc (par_of (record_at s)) (Suc m) p = Some a"
      then obtain m where "anc (par_of (record_at s)) (Suc (Suc m)) x = Some a" using p(1) by auto
      then show ?thesis by blast
    qed
  qed
  ultimately show ?case using ih row id by (simp add: p(1) chain)
qed

lemma map_filter_hosts:
  "List.map_filter (\<lambda>(host, a). map_option (\<lambda>j. (j, a)) host) (map (\<lambda>r. (rw_instance r, rw_id r)) rows)
     = List.map_filter (\<lambda>r. map_option (\<lambda>j. (j, rw_id r)) (rw_instance r)) rows"
  by (induction rows) (simp_all add: List.map_filter_simps split: option.split)

lemma distinct_hosts:
  "distinct (map rw_id rows) \<Longrightarrow> distinct (List.map_filter (\<lambda>r. map_option (\<lambda>j. (j, rw_id r)) (rw_instance r)) rows)
   \<and> (\<forall>j a. (j, a) \<in> set (List.map_filter (\<lambda>r. map_option (\<lambda>j. (j, rw_id r)) (rw_instance r)) rows)
        \<longleftrightarrow> (\<exists>r\<in>set rows. rw_id r = a \<and> rw_instance r = Some j))"
  by (induction rows) (auto simp: List.map_filter_simps rev_image_eqI split: option.split)

lemma row_targets_subtree:
  assumes tree: "tree_ok (record_at s)"
  shows "distinct (row_targets s u) \<and> (k \<in> set (row_targets s u) \<longleftrightarrow> in_subtree s k u)"
proof (cases "ur_instance u")
  case None
  then show ?thesis by (simp add: row_targets_def run_key_def in_subtree_def)
next
  case (Some i)
  let ?run = "ur_run u" and ?par = "par_of (record_at s)"
  let ?rows = "up_chain 16 s (?par ?run)"
  have rows: "distinct (map rw_id ?rows) \<and> (\<forall>r\<in>set ?rows. find_run s (rw_id r) = Some r)
      \<and> (\<forall>a. a \<in> rw_id ` set ?rows \<longleftrightarrow> (\<exists>m. anc ?par (Suc m) ?run = Some a)) \<and> ?run \<notin> rw_id ` set ?rows"
  proof (cases "record_at s ?run")
    case None
    then show ?thesis by (simp add: par_of_def)
  next
    case (Some r)
    obtain n R where n: "n < max_run_nesting" "rooted (record_at s) ?run n R" using tree Some by (rule tree_okD)
    then have "n \<le> 16" by (simp add: max_run_nesting_def)
    note chain = up_chain_rooted [OF n(2) this]
    have False if "anc ?par (Suc m) ?run = Some ?run" for m
      using rooted_anc [OF n(2) that] rooted_unique [OF n(2), of "n - Suc m" R] by linarith
    with chain show ?thesis by blast
  qed
  have t: "row_targets s u = List.map_filter (\<lambda>r. map_option (\<lambda>j. (j, rw_id r)) (rw_instance r)) ?rows @ [(i, ?run)]"
    by (simp add: row_targets_def run_key_def Some targets_def ancestors_for_fold_def map_filter_hosts parent_row [symmetric])
  note hosts = distinct_hosts [OF rows [THEN conjunct1]]
  have "(j, a) \<in> set (row_targets s u) \<longleftrightarrow> in_subtree s (j, a) u" for j a
  proof -
    have "(\<exists>r\<in>set ?rows. rw_id r = a \<and> rw_instance r = Some j) \<longleftrightarrow>
        a \<in> rw_id ` set ?rows \<and> Option.bind (find_run s a) rw_instance = Some j" (is "?l = ?r")
    proof
      show "?l \<Longrightarrow> ?r" using rows by auto
      assume r: ?r
      then obtain r where "r \<in> set ?rows" "rw_id r = a" by auto
      with r rows show ?l by auto
    qed
    moreover have "(j, a) \<in> set (row_targets s u) \<longleftrightarrow> (\<exists>r\<in>set ?rows. rw_id r = a \<and> rw_instance r = Some j) \<or> (j, a) = (i, ?run)"
      unfolding t set_append Un_iff hosts [THEN conjunct2, THEN spec, THEN spec] by simp
    moreover have "in_subtree s (j, a) u \<longleftrightarrow> (j, a) = (i, ?run) \<or>
        (\<exists>m. anc ?par (Suc m) ?run = Some a) \<and> Option.bind (find_run s a) rw_instance = Some j"
      unfolding in_subtree_def Some parent_of_par_of by simp
    ultimately show ?thesis using rows by blast
  qed
  moreover have "distinct (row_targets s u)"
  proof -
    have "?run \<notin> rw_id ` set ?rows" using rows by (elim conjE)
    then have "\<not> (\<exists>r\<in>set ?rows. rw_id r = ?run \<and> rw_instance r = Some i)"
      by (metis image_eqI)
    then have "(i, ?run) \<notin> set (List.map_filter (\<lambda>r. map_option (\<lambda>j. (j, rw_id r)) (rw_instance r)) ?rows)"
      using hosts by blast
    then show ?thesis using hosts by (simp add: t)
  qed
  ultimately show ?thesis by (cases k) simp
qed

section \<open>An insert\<close>

lemma sums_Nil [simp]: "row_sum [] = (\<lambda>_. 0)" "target_sum s [] = (\<lambda>_ _. 0)" "instance_sum [] = (\<lambda>_ _. 0)"
  by (simp_all add: fun_eq_iff row_sum_def target_sum_def instance_sum_def)

lemma ledger_ok_empty: "ledger_ok (empty_db is)"
  by (simp add: ledger_ok_def empty_db_def read_instance_rollup_def read_run_rollup_def folded_rows_def
      sat_row_zero)

lemma require_instance_id_Inr:
  "require_instance_id name s = Inr i \<Longrightarrow> instance_id s name = Some i"
  by (auto simp: require_instance_id_def instance_name_new_def split: sum.splits option.splits if_splits list.splits)

lemma insert_usage_Inserted:
  assumes "insert_usage ev rate g s = Inr (Inserted, t)"
  shows "\<exists>i. instance_id s (ue_instance ev) = Some i \<and> require_instance_id (ue_instance ev) s = Inr i
     \<and> db_usage_seq s + 1 < 2 ^ 63
     \<and> (\<forall>v\<in>set (db_usage s). \<not> same_dedup_key (usage_row_of (db_usage_seq s + 1) i ev rate g) v)
     \<and> t = fold_rows True (s\<lparr>db_usage := db_usage s @ [usage_row_of (db_usage_seq s + 1) i ev rate g],
                              db_usage_seq := db_usage_seq s + 1\<rparr>)"
  using assms by (auto simp: insert_usage_def Let_def require_instance_id_Inr split: if_splits)

lemma ledger_ok_append:
  assumes ok: "ledger_ok s"
  shows "ledger_ok (s\<lparr>db_usage := db_usage s @ [usage_row_of (db_usage_seq s + 1) i ev rate g],
                       db_usage_seq := db_usage_seq s + 1\<rparr>)" (is "ledger_ok ?t")
proof -
  have rows: "folded_rows ?t = folded_rows s" using ok by (auto simp: folded_rows_def ledger_ok_def usage_row_of_def)
  moreover have "target_sum ?t = target_sum s" by (rule target_sum_cong) simp
  moreover have "read_instance_rollup ?t = read_instance_rollup s" "read_run_rollup ?t = read_run_rollup s"
    by (auto simp: fun_eq_iff read_instance_rollup_def read_run_rollup_def)
  moreover have "sorted_wrt (<) (map ur_id (db_usage ?t))" "\<forall>u\<in>set (db_usage ?t). ur_id u \<le> db_usage_seq ?t"
    "db_folded_through ?t \<le> db_usage_seq ?t"
    using ok by (auto simp: ledger_ok_def usage_row_of_def sorted_wrt_append)
  ultimately show ?thesis using ok by (simp only: ledger_ok_def) simp
qed

lemma insert_usage_spec:
  assumes ok: "ledger_ok s" and go: "insert_usage ev rate g s = Inr (out, t)"
  shows "ledger_ok t" and "run_tables t = run_tables s" and "outbox_part t = outbox_part s"
    and "out = Inserted \<Longrightarrow> folded_rows t = db_usage t \<and> (\<exists>i. instance_id s (ue_instance ev) = Some i
           \<and> db_usage t = db_usage s @ [usage_row_of (db_usage_seq s + 1) i ev rate g])"
    and "out = DuplicateReplay \<Longrightarrow> t = s"
proof -
  show dup: "out = DuplicateReplay \<Longrightarrow> t = s"
    using go by (auto simp: insert_usage_def Let_def split: if_splits)
  have ins: "ledger_ok t \<and> run_tables t = run_tables s \<and> outbox_part t = outbox_part s
      \<and> folded_rows t = db_usage t \<and> (\<exists>i. instance_id s (ue_instance ev) = Some i
           \<and> db_usage t = db_usage s @ [usage_row_of (db_usage_seq s + 1) i ev rate g])"
    if new: "out = Inserted"
  proof -
    obtain i where i: "instance_id s (ue_instance ev) = Some i"
      "t = fold_rows True (s\<lparr>db_usage := db_usage s @ [usage_row_of (db_usage_seq s + 1) i ev rate g],
                              db_usage_seq := db_usage_seq s + 1\<rparr>)"
      using insert_usage_Inserted [OF go [unfolded new]] by blast
    obtain mi mr h where t: "t = s\<lparr>db_usage := db_usage s @ [usage_row_of (db_usage_seq s + 1) i ev rate g],
         db_usage_seq := db_usage_seq s + 1, db_rollup_instance := mi, db_rollup_run := mr, db_folded_through := h\<rparr>"
      "folded_rows t = db_usage s @ [usage_row_of (db_usage_seq s + 1) i ev rate g]" "ledger_ok t"
      using fold_rows_spec [OF ledger_ok_append [OF ok, of i ev rate g], folded i(2)] by (elim exE conjE) simp
    show ?thesis using t(2,3) i(1) by (simp add: t(1) run_tables_def outbox_part_def)
  qed
  show "ledger_ok t" "run_tables t = run_tables s" "outbox_part t = outbox_part s"
    using ins dup ok by (cases out; simp)+
  show "out = Inserted \<Longrightarrow> folded_rows t = db_usage t \<and> (\<exists>i. instance_id s (ue_instance ev) = Some i
           \<and> db_usage t = db_usage s @ [usage_row_of (db_usage_seq s + 1) i ev rate g])"
    using ins by blast
qed

text \<open>(C2) After every committed usage event the rollups are what the old row-by-row scan sums: an
  instance's is the saturating fold of all its rows, and a Run's is the saturating fold of the rows metered
  on it or on any Run below it, each counted once - although the event was only added to the stored sums of
  the Run and of its ancestors.\<close>

theorem rollups_equal_the_row_scan:
  assumes "ledger_ok s" and "tree_ok (record_at s)" and "insert_usage ev rate g s = Inr (Inserted, t)"
  shows "ledger_ok t
     \<and> (\<forall>i. read_instance_rollup t i = scan_rows (filter (\<lambda>u. ur_instance u = Some i) (db_usage t)))
     \<and> (\<forall>k. read_run_rollup t k = scan_rows (filter (in_subtree t k) (db_usage t)))"
proof -
  note spec = insert_usage_spec [OF assms(1,3)]
  have rows: "folded_rows t = db_usage t" using spec(4) by simp
  have tree: "tree_ok (record_at t)" using assms(2) run_tables_cong(2) [OF spec(2)] by simp
  have "target_sum t rows k = row_sum (filter (in_subtree t k) rows)" for rows k
  proof
    fix f
    have "count_list (row_targets t u) k = (if in_subtree t k u then 1 else 0)" for u
      using row_targets_subtree [OF tree, of u k] by (simp add: count_list_distinct)
    then show "target_sum t rows k f = row_sum (filter (in_subtree t k) rows) f"
      by (simp add: target_sum_def row_sum_def) (induction rows; simp)
  qed
  then show ?thesis
    using spec(1) by (simp add: ledger_ok_def rows instance_sum_def scan_rows_sum)
qed

lemma demo_ledger:
  obtains n b rows where "ledger_ok (no_outbox demo_db2 rows n b)" "tree_ok (record_at (no_outbox demo_db2 rows n b))"
proof -
  obtain en rows n b where en: "reachable demo_encoder en" "en_db en = no_outbox demo_db2 rows n b"
    by (rule demo_reachable2)
  have "tree_ok (record_at (no_outbox demo_db2 rows n b))" using reachable_ok [OF en(1)] en(2) by (simp add: engine_ok_def)
  moreover have "ledger_ok (no_outbox demo_db2 rows n b)"
    by (simp add: ledger_ok_def no_outbox_def demo_defs read_instance_rollup_def read_run_rollup_def folded_rows_def
      sat_row_zero)
  ultimately show thesis by (rule that [rotated])
qed

definition demo_usage :: usage_event where
  "demo_usage = \<lparr>ue_instance = ''a'', ue_run = ''r2'', ue_input = 10, ue_output = 5, ue_cached = Some 0,
     ue_source = ''self-reported'', ue_sequence = 1, ue_occurred = ''t3''\<rparr>"

lemma demo_usage_inserted: "\<exists>t. insert_usage demo_usage None 0 (no_outbox demo_db2 rows n b) = Inr (Inserted, t)"
  by (simp add: insert_usage_def require_instance_id_def demo_usage_def demo_name instance_id_def no_outbox_def demo_defs Let_def)

text \<open>The tokens of the child \<open>r2\<close> are in the total of its owner \<open>r1\<close>.\<close>

lemma rollups_equal_the_row_scan_witness:
  "\<exists>s t. insert_usage demo_usage None 0 s = Inr (Inserted, t) \<and> ledger_ok t
     \<and> read_run_rollup t (1, ''r1'') = scan_rows (filter (in_subtree t (1, ''r1'')) (db_usage t))"
proof -
  obtain rows n b where s: "ledger_ok (no_outbox demo_db2 rows n b)" "tree_ok (record_at (no_outbox demo_db2 rows n b))"
    by (rule demo_ledger)
  obtain t where t: "insert_usage demo_usage None 0 (no_outbox demo_db2 rows n b) = Inr (Inserted, t)"
    using demo_usage_inserted by blast
  show ?thesis using rollups_equal_the_row_scan [OF s t] t by blast
qed

section \<open>Replays\<close>

definition no_double_count :: "db \<Rightarrow> bool" where
  "no_double_count s \<longleftrightarrow> sorted_wrt (\<lambda>u v. \<not> same_dedup_key v u) (db_usage s)"

lemma same_key_of:
  assumes "ue_run ev' = ue_run ev" and "ue_sequence ev' = ue_sequence ev"
  shows "same_dedup_key (usage_row_of n i ev' rate' g) v \<longleftrightarrow> same_dedup_key (usage_row_of m i ev rate g) v"
  using assms by (auto simp: same_dedup_key_def usage_row_of_def)

text \<open>Usage is never counted twice: once an event of an instance, a Run, a sequence number and a launch
  generation is in the ledger, any delivery with the same four is answered as a replay and changes nothing,
  whatever tokens or rate it carries; and a commit keeps the deduplication keys of the ledger distinct.\<close>

theorem replays_are_not_counted:
  assumes "ledger_ok s" and "no_double_count s" and "insert_usage ev rate g s = Inr (out, t)"
    and "ue_instance ev' = ue_instance ev" and "ue_run ev' = ue_run ev" and "ue_sequence ev' = ue_sequence ev"
    and "db_usage_seq t + 1 < 2 ^ 63"
  shows "no_double_count t \<and> insert_usage ev' rate' g t = Inr (DuplicateReplay, t)"
proof -
  note spec = insert_usage_spec [OF assms(1,3)]
  obtain i where i: "require_instance_id (ue_instance ev) s = Inr i" using assms(3) by (auto simp: insert_usage_def)
  have same: "instance_id t = instance_id s"
    using spec(2) by (auto simp: run_tables_def instance_id_def fun_eq_iff)
  have "require_instance_id (ue_instance ev') t = require_instance_id (ue_instance ev) s"
    unfolding require_instance_id_def assms(4) same by (rule refl)
  with i have i': "require_instance_id (ue_instance ev') t = Inr i" by (rule trans [rotated])
  have "\<exists>v\<in>set (db_usage t). same_dedup_key (usage_row_of (db_usage_seq s + 1) i ev rate g) v"
  proof (cases out)
    case Inserted
    then have "usage_row_of (db_usage_seq s + 1) i ev rate g \<in> set (db_usage t)"
      using spec(4) require_instance_id_Inr [OF i] by auto
    then show ?thesis by (rule bexI [rotated]) (simp add: same_dedup_key_def usage_row_of_def)
  next
    case DuplicateReplay
    then show ?thesis using assms(3) spec(5) i by (auto simp: insert_usage_def Let_def split: if_splits)
  qed
  then have "\<exists>v\<in>set (db_usage t). same_dedup_key (usage_row_of (db_usage_seq t + 1) i ev' rate' g) v"
    using same_key_of [OF assms(5,6)] by blast
  then have "insert_usage ev' rate' g t = Inr (DuplicateReplay, t)"
    using i' assms(7) by (simp add: insert_usage_def Let_def)
  moreover have "no_double_count t"
  proof (cases out)
    case Inserted
    then obtain j where j: "require_instance_id (ue_instance ev) s = Inr j"
        "\<forall>v\<in>set (db_usage s). \<not> same_dedup_key (usage_row_of (db_usage_seq s + 1) j ev rate g) v"
      using insert_usage_Inserted assms(3) by blast
    then show ?thesis using assms(2) spec(4) i Inserted require_instance_id_Inr [OF i]
      by (auto simp: no_double_count_def sorted_wrt_append)
  next
    case DuplicateReplay
    then show ?thesis using spec(5) assms(2) by simp
  qed
  ultimately show ?thesis by blast
qed

lemma replays_are_not_counted_witness:
  "\<exists>s t. insert_usage demo_usage None 0 s = Inr (Inserted, t)
     \<and> insert_usage (demo_usage\<lparr>ue_input := 99\<rparr>) None 0 t = Inr (DuplicateReplay, t)"
proof -
  obtain rows n b where s: "ledger_ok (no_outbox demo_db2 rows n b)" "tree_ok (record_at (no_outbox demo_db2 rows n b))"
    by (rule demo_ledger)
  obtain t where t: "insert_usage demo_usage None 0 (no_outbox demo_db2 rows n b) = Inr (Inserted, t)"
    using demo_usage_inserted by blast
  have "no_double_count (no_outbox demo_db2 rows n b)" by (simp add: no_double_count_def no_outbox_def demo_defs)
  moreover have "db_usage_seq t + 1 < 2 ^ 63"
  proof -
    obtain i where "t = fold_rows True ((no_outbox demo_db2 rows n b)\<lparr>
        db_usage := db_usage (no_outbox demo_db2 rows n b) @ [usage_row_of (db_usage_seq (no_outbox demo_db2 rows n b) + 1) i demo_usage None 0],
        db_usage_seq := db_usage_seq (no_outbox demo_db2 rows n b) + 1\<rparr>)"
      using insert_usage_Inserted [OF t] by blast
    then have "db_usage_seq t = db_usage_seq (no_outbox demo_db2 rows n b) + 1"
      using fold_rows_spec [OF ledger_ok_append [OF s(1), of i demo_usage None 0]] by auto
    then show ?thesis by (simp add: no_outbox_def demo_defs)
  qed
  ultimately have "insert_usage (demo_usage\<lparr>ue_input := 99\<rparr>) None 0 t = Inr (DuplicateReplay, t)"
    using replays_are_not_counted [OF s(1) _ t, of "demo_usage\<lparr>ue_input := 99\<rparr>" None] by simp
  with t show ?thesis by blast
qed

end
