(* ===== verification/Pipeline.thy ===== *)
theory Pipeline
  imports Ledger_Facts Governance
begin

text \<open>
  The metering pipeline as writer jobs (\<open>domain/pipeline.rs\<close>, with the breach and latch tables of
  \<open>store/run_store_sqlite.rs\<close>): a usage event is inserted and folded, its outbox row appended, and the
  ceilings of every level from the attributed Run up to its process owner are decided on the new totals;
  each decision writes its breach, latch and outbox rows and raises its Run's breach Anomaly.

  The JSON encodings are parameters. \<open>at\<close> is what the clock reads. \<open>fault\<close> is the error a totals read
  fails with, \<open>None\<close> when SQLite answers: the evaluation degrades a failed read to zero.
\<close>

section \<open>Breach events\<close>

record breach_event =
  be_instance :: string
  be_run :: run_id
  be_scope :: breach_scope
  be_dimension :: breach_dimension
  be_limit :: u64
  be_observed :: u64
  be_dollar_limit :: "micros option"
  be_dollar_observed :: "micros option"
  be_estimate :: "estimate_label option"
  be_action :: breach_action
  be_source :: string
  be_at :: string

definition breach_event_new ::
  "string \<Rightarrow> run_id \<Rightarrow> breach_scope \<Rightarrow> u64 \<Rightarrow> u64 \<Rightarrow> breach_action \<Rightarrow> string \<Rightarrow> string \<Rightarrow> breach_event" where
  "breach_event_new inst rid scope limit observed action source at =
     \<lparr>be_instance = inst, be_run = rid, be_scope = scope, be_dimension = Tokens, be_limit = limit,
      be_observed = observed, be_dollar_limit = None, be_dollar_observed = None, be_estimate = None,
      be_action = action, be_source = source, be_at = at\<rparr>"

definition breach_event_new_cost ::
  "string \<Rightarrow> run_id \<Rightarrow> breach_scope \<Rightarrow> micros \<Rightarrow> micros \<Rightarrow> estimate_label \<Rightarrow> breach_action \<Rightarrow> string \<Rightarrow> string
     \<Rightarrow> breach_event" where
  "breach_event_new_cost inst rid scope limit observed label action source at =
     \<lparr>be_instance = inst, be_run = rid, be_scope = scope, be_dimension = Dollars,
      be_limit = as_decision_u64 limit, be_observed = as_decision_u64 observed, be_dollar_limit = Some limit,
      be_dollar_observed = Some observed, be_estimate = Some label, be_action = action, be_source = source,
      be_at = at\<rparr>"

record eval_input =
  pi_name :: string
  pi_run :: run_id
  pi_source :: string
  pi_budget :: token_budget
  pi_token_action :: breach_action
  pi_rate :: "rate option"
  pi_cap :: cost_cap
  pi_cost_action :: breach_action
  pi_supervised :: bool
  pi_fenced :: bool

text \<open>\<open>as i64\<close> of a decision's \<open>u64\<close> reads the word as signed.\<close>

definition breach_event_of :: "eval_input \<Rightarrow> run_id \<Rightarrow> governance_decision \<Rightarrow> string \<Rightarrow> breach_event" where
  "breach_event_of input rid d at =
     (case gd_dimension d of
        Tokens \<Rightarrow> breach_event_new (pi_name input) rid (gd_scope d) (gd_limit d) (gd_observed d) (gd_action d)
                    (pi_source input) at
      | Dollars \<Rightarrow> breach_event_new_cost (pi_name input) rid (gd_scope d) (sint (gd_limit d)) (sint (gd_observed d))
                    Estimated (gd_action d) (pi_source input) at)"

section \<open>Breach and latch rows\<close>

record encoders =
  jn_usage :: "usage_event \<Rightarrow> string option"
  jn_breach_row :: "breach_event \<Rightarrow> string option"
  jn_breach :: "breach_event \<Rightarrow> string option"
  jn_run :: encoder

definition append_json :: "string option \<Rightarrow> db \<Rightarrow> store_error + (outbox_append \<times> db)" where
  "append_json json s =
     (case json of
        None \<Rightarrow> Inl (Backend (Text ''could not encode an outbox event''))
      | Some text \<Rightarrow> append_outbox text outbox_max_bytes s)"

definition append_breach :: "string option \<Rightarrow> breach_event \<Rightarrow> db \<Rightarrow> store_error + db" where
  "append_breach json ev s =
     rbind (require_instance_id (be_instance ev) s) (\<lambda>iid.
       case json of
         None \<Rightarrow> Inl (Backend (Text ''could not encode a breach event''))
       | Some text \<Rightarrow>
           if db_breach_seq s + 1 \<ge> 2 ^ 63 then Inl (Backend (Text ''database or disk is full''))
           else Inr (s\<lparr>db_breaches := db_breaches s @
               [\<lparr>br_id = db_breach_seq s + 1, br_instance = iid, br_run = be_run ev,
                 br_dimension = dimension_as_str (be_dimension ev), br_scope = scope_as_str (be_scope ev),
                 br_action = action_as_str (be_action ev), br_event = text\<rparr>],
               db_breach_seq := db_breach_seq s + 1\<rparr>))"

text \<open>\<open>INSERT OR IGNORE\<close>: a latch that is there stays; the foreign key to the Run is still checked.\<close>

definition latch_row_of :: "run_id \<Rightarrow> latch_key \<Rightarrow> breach_action \<Rightarrow> string \<Rightarrow> latch_row" where
  "latch_row_of rid key action at =
     \<lparr>la_run = rid, la_dimension = dimension_as_str (lk_dimension key), la_scope = scope_as_str (lk_scope key),
      la_action = action_as_str action, la_at = at\<rparr>"

definition latch_key_of :: "latch_row \<Rightarrow> string \<times> string \<times> string \<times> string" where
  "latch_key_of l = (la_run l, la_dimension l, la_scope l, la_action l)"

definition latch :: "run_id \<Rightarrow> latch_key \<Rightarrow> breach_action \<Rightarrow> string \<Rightarrow> db \<Rightarrow> store_error + db" where
  "latch rid key action at s =
     (let row = latch_row_of rid key action at
      in if latch_key_of row \<in> latch_key_of ` set (db_latches s) then Inr s
         else if find_run s rid = None then Inl (Backend (ForeignKey ''run_latches.run_id''))
         else Inr (s\<lparr>db_latches := db_latches s @ [row]\<rparr>))"

definition parse_dimension :: "string \<Rightarrow> breach_dimension option" where
  "parse_dimension raw = find (\<lambda>d. dimension_as_str d = raw) [Tokens, Dollars]"

definition parse_scope :: "string \<Rightarrow> breach_scope option" where
  "parse_scope raw = find (\<lambda>s. scope_as_str s = raw) [PerRun, Cumulative]"

definition read_latch :: "latch_row \<Rightarrow> store_error + latch_key \<times> breach_action" where
  "read_latch l =
     (case (parse_dimension (la_dimension l), parse_scope (la_scope l), parse_action (la_action l)) of
        (Some d, Some s, Inr a) \<Rightarrow> Inr (LatchKey d s, a)
      | _ \<Rightarrow> Inl (CorruptRow (la_run l) ''unreadable latch row''))"

definition latches :: "db \<Rightarrow> run_id \<Rightarrow> store_error + (latch_key \<times> breach_action) list" where
  "latches s rid = rmap read_latch (filter (\<lambda>l. la_run l = rid) (db_latches s))"

section \<open>The levels\<close>

record level =
  lv_run :: run_id
  lv_process :: bool
  lv_acts :: bool
  lv_limits :: run_limits
  lv_child_action :: breach_action

definition level_is_armed :: "level \<Rightarrow> bool" where
  "level_is_armed l \<longleftrightarrow> lv_process l \<or> limits_is_armed (lv_limits l)"

definition process_level :: "run_id \<Rightarrow> bool \<Rightarrow> level" where
  "process_level rid acts =
     \<lparr>lv_run = rid, lv_process = True, lv_acts = acts, lv_limits = limits_default, lv_child_action = ActWarn\<rparr>"

definition child_level :: "db \<Rightarrow> run_record \<Rightarrow> store_error + level" where
  "child_level s r =
     rbind (run_limits_of s (rr_id r)) (\<lambda>limits.
       let action = limits_action limits
       in Inr \<lparr>lv_run = rr_id r, lv_process = False, lv_acts = False, lv_limits = limits,
               lv_child_action = (if action_refusal action (rr_depth r) (rr_wire r) \<noteq> None then ActWarn else action)\<rparr>)"

text \<open>The loop over the chain stops at the first process owner.\<close>

fun chain_levels :: "db \<Rightarrow> run_record list \<Rightarrow> store_error + level list" where
  "chain_levels s [] = Inr []"
| "chain_levels s (r # chain) =
     (if rr_owner r then Inr [process_level (rr_id r) (\<not> is_ended r)]
      else rbind (child_level s r) (\<lambda>l. rbind (chain_levels s chain) (\<lambda>ls. Inr (l # ls))))"

definition levels_for :: "eval_input \<Rightarrow> string \<Rightarrow> db \<Rightarrow> store_error + (level list \<times> db)" where
  "levels_for input at s =
     rbind (run_chain s (pi_run input)) (\<lambda>chain.
       if chain = [] then
         rbind (ensure_run_row (pi_run input) (pi_name input) at s) (\<lambda>s'.
         Inr ([process_level (pi_run input) True], s'))
       else rbind (chain_levels s chain) (\<lambda>ls. Inr (ls, s)))"

section \<open>One level's decision input\<close>

definition read_or_zero :: "store_error + rollup \<Rightarrow> string \<Rightarrow> string list \<Rightarrow> rollup \<times> string list" where
  "read_or_zero result scope degraded =
     (case result of Inr r \<Rightarrow> (r, degraded) | Inl _ \<Rightarrow> (rollup_zero, degraded @ [scope]))"

definition level_arms :: "eval_input \<Rightarrow> level \<Rightarrow> token_budget \<times> breach_action \<times> cost_cap \<times> breach_action" where
  "level_arms input l =
     (if lv_process l then (pi_budget input, pi_token_action input, pi_cap input, pi_cost_action input)
      else (\<lparr>tb_per_run = rl_token (lv_limits l), tb_cumulative = None\<rparr>, lv_child_action l,
            \<lparr>cc_per_run = rl_dollar (lv_limits l), cc_cumulative = None\<rparr>, lv_child_action l))"

definition level_input ::
  "store_error option \<Rightarrow> eval_input \<Rightarrow> db \<Rightarrow> level \<Rightarrow> string list \<Rightarrow> store_error + (governance_input \<times> string list)" where
  "level_input fault input s l degraded =
     (let (budget, token_action, cap, cost_action) = level_arms input l;
          read = (\<lambda>r. case fault of Some e \<Rightarrow> Inl e | None \<Rightarrow> Inr r);
          (run, degraded) = read_or_zero (read (run_rollup s (pi_name input) (lv_run l))) ''per-run'' degraded;
          (cumulative, degraded) =
            (if lv_process l then read_or_zero (read (instance_rollup s (pi_name input))) ''cumulative'' degraded
             else (rollup_zero, degraded));
          token = (if token_budget_is_set budget then
                     Some \<lparr>ta_run_total = total_tokens (ru_totals run),
                           ta_cumulative_total = total_tokens (ru_totals cumulative),
                           ta_budget = budget, ta_action = token_action\<rparr> else None);
          dollar = (if pi_rate input \<noteq> None \<and> cost_cap_is_set cap then
                     Some \<lparr>da_run_cost = ru_cost run, da_cumulative_cost = ru_cost cumulative, da_cap = cap,
                           da_action = cost_action\<rparr> else None)
      in rbind (latches s (lv_run l)) (\<lambda>ls.
         Inr (\<lparr>gi_token = token, gi_dollar = dollar,
               gi_latched = map fst (filter (\<lambda>(key, action).
                  action = (case lk_dimension key of Tokens \<Rightarrow> token_action | Dollars \<Rightarrow> cost_action)) ls)\<rparr>,
              degraded)))"

fun level_inputs ::
  "store_error option \<Rightarrow> eval_input \<Rightarrow> db \<Rightarrow> level list \<Rightarrow> string list \<Rightarrow> store_error + (governance_input list \<times> string list)" where
  "level_inputs fault input s [] degraded = Inr ([], degraded)"
| "level_inputs fault input s (l # ls) degraded =
     rbind (level_input fault input s l degraded) (\<lambda>(i, degraded).
     rbind (level_inputs fault input s ls degraded) (\<lambda>(is, degraded). Inr (i # is, degraded)))"

section \<open>Evaluating\<close>

record committed_breach =
  cb_event :: breach_event
  cb_decision :: governance_decision
  cb_outbox :: outbox_append
  cb_process :: bool

record evaluation =
  ev_breaches :: "committed_breach list"
  ev_degraded :: "string list"
  ev_run_events :: committed

definition evaluation_default :: evaluation where
  "evaluation_default = \<lparr>ev_breaches = [], ev_degraded = [], ev_run_events = []\<rparr>"

text \<open>What the loops thread: the breaches so far, the latch keys whose after-commit hooks raise the fence
  (\<open>fence_raise_all\<close>), the Run changes and the database.\<close>

record eval_state =
  es_breaches :: "committed_breach list"
  es_raises :: "latch_key list"
  es_changes :: run_changes
  es_db :: db

definition commit_decision ::
  "encoders \<Rightarrow> eval_input \<Rightarrow> level \<Rightarrow> string \<Rightarrow> governance_decision \<Rightarrow> eval_state \<Rightarrow> store_error + eval_state" where
  "commit_decision js input l at d st =
     (let event = breach_event_of input (lv_run l) d at;
          key = LatchKey (gd_dimension d) (gd_scope d)
      in rbind (append_breach (jn_breach_row js event) event (es_db st)) (\<lambda>s.
         rbind (latch (lv_run l) key (gd_action d) (be_at event) s) (\<lambda>s.
         rbind (append_json (jn_breach js event) s) (\<lambda>(app, s).
         Inr (st\<lparr>es_breaches := es_breaches st @
                    [\<lparr>cb_event = event, cb_decision = d, cb_outbox = app, cb_process = lv_acts l\<rparr>],
                 es_raises := (if lv_acts l \<and> gd_action d = ActBlock \<and> pi_fenced input then es_raises st @ [key]
                               else es_raises st),
                 es_db := s\<rparr>)))))"

definition commit_level ::
  "encoders \<Rightarrow> eval_input \<Rightarrow> string \<Rightarrow> level \<times> governance_outcome \<Rightarrow> eval_state \<Rightarrow> store_error + eval_state" where
  "commit_level js input at lo st =
     (case lo of (l, outcome) \<Rightarrow>
        rbind (rfold (commit_decision js input l at) (go_decisions outcome) st) (\<lambda>st.
        if \<exists>b\<in>set (es_breaches st). be_run (cb_event b) = lv_run l then
          rbind (mark_breach (lv_run l) at (es_db st)) (\<lambda>(ch, s).
          Inr (st\<lparr>es_changes := changes_extend (es_changes st) ch, es_db := s\<rparr>))
        else Inr st))"

definition evaluate ::
  "encoders \<Rightarrow> store_error option \<Rightarrow> eval_input \<Rightarrow> string \<Rightarrow> engine \<Rightarrow> store_error + (evaluation \<times> latch_key list \<times> engine)" where
  "evaluate js fault input at en =
     (if \<not> pi_supervised input then Inr (evaluation_default, [], en)
      else rbind (levels_for input at (en_db en)) (\<lambda>(all_levels, s).
        let levels = filter level_is_armed all_levels
        in if levels = [] then Inr (evaluation_default, [], en\<lparr>en_db := s\<rparr>)
           else rbind (level_inputs fault input s levels []) (\<lambda>(inputs, degraded).
             rbind (rfold (commit_level js input at) (zip levels (decide_chain inputs))
                      \<lparr>es_breaches = [], es_raises = [], es_changes = no_changes, es_db = s\<rparr>) (\<lambda>st.
             rbind (commit_changes (jn_run js) (es_changes st) (en\<lparr>en_db := es_db st\<rparr>)) (\<lambda>(committed, en').
             Inr (\<lparr>ev_breaches = es_breaches st, ev_degraded = degraded, ev_run_events = committed\<rparr>,
                  es_raises st, en'))))))"

text \<open>\<open>commit_usage\<close>: \<open>None\<close> for a replay.\<close>

definition commit_usage ::
  "encoders \<Rightarrow> store_error option \<Rightarrow> usage_event \<Rightarrow> u64 \<Rightarrow> eval_input \<Rightarrow> string \<Rightarrow> engine
     \<Rightarrow> store_error + ((usage_event \<times> outbox_append) option \<times> evaluation \<times> latch_key list \<times> engine)" where
  "commit_usage js fault ev generation input at en =
     rbind (insert_usage ev (pi_rate input) generation (en_db en)) (\<lambda>(outcome, s).
     if outcome = DuplicateReplay then Inr (None, evaluation_default, [], en\<lparr>en_db := s\<rparr>)
     else rbind (append_json (jn_usage js ev) s) (\<lambda>(app, s).
          rbind (evaluate js fault input at (en\<lparr>en_db := s\<rparr>)) (\<lambda>(evaluation, raises, en').
          Inr (Some (ev, app), evaluation, raises, en'))))"

end
