(* ===== verification/Pipeline_Facts.thy ===== *)
theory Pipeline_Facts
  imports Pipeline
begin

text \<open>
  The pipeline's properties: an evaluation keeps the Run subsystem's invariant, fires every ceiling that is
  reached and not latched, never fires a pair twice under one action, and raises the wire fence only for a
  blocking breach of an open process owner.
\<close>

section \<open>Frames\<close>

definition meter_part ::
  "db \<Rightarrow> usage_row list \<times> int \<times> (int \<rightharpoonup> rollup_row) \<times> (int \<times> string \<rightharpoonup> rollup_row) \<times> int" where
  "meter_part s = (db_usage s, db_usage_seq s, db_rollup_instance s, db_rollup_run s, db_folded_through s)"

definition breach_part :: "db \<Rightarrow> breach_row list \<times> latch_row list" where
  "breach_part s = (db_breaches s, db_latches s)"

definition breach_row_of :: "int \<Rightarrow> int \<Rightarrow> breach_event \<Rightarrow> string \<Rightarrow> breach_row" where
  "breach_row_of rowid iid ev json =
     \<lparr>br_id = rowid, br_instance = iid, br_run = be_run ev,
      br_dimension = dimension_as_str (be_dimension ev), br_scope = scope_as_str (be_scope ev),
      br_action = action_as_str (be_action ev), br_event = json\<rparr>"

lemma append_breach_Inr:
  "append_breach json ev s = Inr t \<Longrightarrow>
     \<exists>iid tx. require_instance_id (be_instance ev) s = Inr iid \<and> json = Some tx \<and> db_breach_seq s + 1 < 2 ^ 63
        \<and> t = s\<lparr>db_breaches := db_breaches s @ [breach_row_of (db_breach_seq s + 1) iid ev tx],
               db_breach_seq := db_breach_seq s + 1\<rparr>"
  unfolding append_breach_def breach_row_of_def
  by (cases json; cases "require_instance_id (be_instance ev) s"; simp split: if_splits)

lemma append_breach_frame:
  "append_breach json ev s = Inr t \<Longrightarrow> run_tables t = run_tables s \<and> outbox_part t = outbox_part s
     \<and> meter_part t = meter_part s \<and> db_latches t = db_latches s"
  by (drule append_breach_Inr) (auto simp: run_tables_def outbox_part_def meter_part_def)

lemma latch_frame:
  "latch rid key action at s = Inr t \<Longrightarrow> run_tables t = run_tables s \<and> outbox_part t = outbox_part s
     \<and> meter_part t = meter_part s \<and> db_breaches t = db_breaches s
     \<and> latch_key_of ` set (db_latches t) = insert (latch_key_of (latch_row_of rid key action at)) (latch_key_of ` set (db_latches s))"
  by (auto simp: latch_def Let_def run_tables_def outbox_part_def meter_part_def split: if_splits)

lemma append_json_frame:
  assumes "append_json json s = Inr (app, t)" and "outbox_ok s"
  shows "run_tables t = run_tables s \<and> outbox_ok t \<and> meter_part t = meter_part s \<and> breach_part t = breach_part s"
proof -
  obtain tx where go: "append_outbox tx outbox_max_bytes s = Inr (app, t)"
    using assms(1) by (auto simp: append_json_def split: option.splits)
  then obtain rows n b where "t = s\<lparr>db_outbox := rows, db_outbox_seq := n, db_outbox_bytes := b\<rparr>"
    using append_outbox_spec [OF assms(2)] by metis
  then have "meter_part t = meter_part s \<and> breach_part t = breach_part s" by (simp add: meter_part_def breach_part_def)
  then show ?thesis using append_outbox_tables [OF assms(2) go] append_outbox_ok [OF assms(2) go] by simp
qed

lemma save_run_meter: "save_run r s = Inr t \<Longrightarrow> meter_part t = meter_part s \<and> breach_part t = breach_part s"
  by (auto simp: save_run_Inr meter_part_def breach_part_def)

lemma move_to_meter:
  "move_to r to as cause at st = Inr (x, st') \<Longrightarrow>
     meter_part (snd st') = meter_part (snd st) \<and> breach_part (snd st') = breach_part (snd st)"
  by (auto simp: move_to_def Let_def dest!: save_run_meter note_change_outbox split: if_splits)

lemma mark_breach_meter:
  "mark_breach rid at s = Inr (ch, t) \<Longrightarrow> meter_part t = meter_part s \<and> breach_part t = breach_part s"
  by (auto simp: mark_breach_def split: option.splits if_splits dest!: move_to_meter)

lemma ensure_run_row_meter:
  "ensure_run_row rid name at s = Inr t \<Longrightarrow> meter_part t = meter_part s \<and> breach_part t = breach_part s"
  by (auto simp: ensure_run_row_def meter_part_def breach_part_def split: if_splits)

section \<open>The Run invariant through an evaluation\<close>

lemma mirrors_same:
  "sn_runs b = sn_runs a \<Longrightarrow> sn_owners b = sn_owners a \<Longrightarrow> mirrors look b \<longleftrightarrow> mirrors look a"
  by (simp add: mirrors_def)

lemma apply_entry_cong:
  "sn_runs b = sn_runs a \<Longrightarrow> sn_owners b = sn_owners a \<Longrightarrow>
     sn_runs (apply_entry e b) = sn_runs (apply_entry e a) \<and> sn_owners (apply_entry e b) = sn_owners (apply_entry e a)"
  by (simp add: apply_entry_def Let_def split: option.split)

lemma fold_apply_cong:
  "sn_runs b = sn_runs a \<Longrightarrow> sn_owners b = sn_owners a \<Longrightarrow>
     sn_runs (fold apply_entry es b) = sn_runs (fold apply_entry es a)
   \<and> sn_owners (fold apply_entry es b) = sn_owners (fold apply_entry es a)"
proof (induction es arbitrary: a b)
  case (Cons e es)
  from apply_entry_cong [OF Cons.prems, of e] show ?case
    unfolding fold_Cons comp_apply by (elim conjE) (rule Cons.IH)
qed simp

lemma publish_fold:
  "sn_runs (publish es snap) = sn_runs (fold apply_entry es snap) \<and> sn_owners (publish es snap) = sn_owners (fold apply_entry es snap)"
  using fold_apply_cong [of "snap\<lparr>sn_generation := sn_generation snap + 1\<rparr>" snap es]
  by (cases es) (simp_all add: publish_def snapshot_with_def del: fold_Cons fold.simps(2))

lemma mirrors_publish: "mirrors look (publish es snap) \<longleftrightarrow> mirrors look (fold apply_entry es snap)"
  by (rule mirrors_same) (simp_all add: publish_fold)

text \<open>What the loop over the levels keeps, for the snapshot published before it.\<close>

definition loop_ok :: "run_snapshot \<Rightarrow> eval_state \<Rightarrow> bool" where
  "loop_ok snap st \<longleftrightarrow> db_ok (es_db st) \<and> outbox_ok (es_db st) \<and> tree_ok (record_at (es_db st))
     \<and> mirrors (entry_of (es_db st)) (fold apply_entry (ch_entries (es_changes st)) snap)"

lemma loop_ok_tables:
  assumes "loop_ok snap st" and "run_tables s = run_tables (es_db st)" and "outbox_ok s"
    and "es_db st' = s" and "es_changes st' = es_changes st"
  shows "loop_ok snap st'"
  using assms run_tables_cong [OF assms(2)] by (simp add: loop_ok_def)

lemma commit_decision_Inr:
  "commit_decision js input l at d st = Inr st' \<longleftrightarrow>
     (\<exists>s1 s2 app s3. append_breach (jn_breach_row js (breach_event_of input (lv_run l) d at)) (breach_event_of input (lv_run l) d at) (es_db st) = Inr s1
        \<and> latch (lv_run l) (LatchKey (gd_dimension d) (gd_scope d)) (gd_action d) (be_at (breach_event_of input (lv_run l) d at)) s1 = Inr s2
        \<and> append_json (jn_breach js (breach_event_of input (lv_run l) d at)) s2 = Inr (app, s3)
        \<and> st' = st\<lparr>es_breaches := es_breaches st @
                    [\<lparr>cb_event = breach_event_of input (lv_run l) d at, cb_decision = d, cb_outbox = app, cb_process = lv_acts l\<rparr>],
                 es_raises := (if lv_acts l \<and> gd_action d = ActBlock \<and> pi_fenced input
                               then es_raises st @ [LatchKey (gd_dimension d) (gd_scope d)] else es_raises st),
                 es_db := s3\<rparr>)"
  by (auto simp: commit_decision_def Let_def rbind_eq_Inr split: prod.splits)

lemma commit_decision_ok:
  assumes ok: "loop_ok snap st" and go: "commit_decision js input l at d st = Inr st'"
  shows "loop_ok snap st'"
proof -
  let ?ev = "breach_event_of input (lv_run l) d at"
  obtain s1 s2 app s3 where s: "append_breach (jn_breach_row js ?ev) ?ev (es_db st) = Inr s1"
      "latch (lv_run l) (LatchKey (gd_dimension d) (gd_scope d)) (gd_action d) (be_at ?ev) s1 = Inr s2"
      "append_json (jn_breach js ?ev) s2 = Inr (app, s3)"
      "es_db st' = s3" "es_changes st' = es_changes st"
    using go unfolding commit_decision_Inr by auto
  have "outbox_ok (es_db st)" using ok by (simp add: loop_ok_def)
  then have out: "outbox_ok s2"
    using append_breach_frame [OF s(1)] latch_frame [OF s(2)] outbox_part_ok [of s2 "es_db st"] by simp
  then show ?thesis
    using append_breach_frame [OF s(1)] latch_frame [OF s(2)] append_json_frame [OF s(3) out]
    by (intro loop_ok_tables [OF ok _ _ s(4,5)]) simp_all
qed

lemma commit_level_Inr:
  assumes "commit_level js input at (l, outcome) st = Inr st'"
  shows "\<exists>mid. rfold (commit_decision js input l at) (go_decisions outcome) st = Inr mid \<and>
    (if \<exists>b\<in>set (es_breaches mid). be_run (cb_event b) = lv_run l
     then \<exists>ch s. mark_breach (lv_run l) at (es_db mid) = Inr (ch, s)
            \<and> st' = mid\<lparr>es_changes := changes_extend (es_changes mid) ch, es_db := s\<rparr>
     else st' = mid)"
  using assms by (auto simp: commit_level_def rbind_eq_Inr split: if_splits)

lemma grows_fold_mirrors:
  assumes "grows (no_changes, s) (ch, t)" and "mirrors (entry_of s) snap"
  shows "mirrors (entry_of t) (fold apply_entry (ch_entries ch) snap)"
  using grows_mirrors [OF assms] by (simp add: mirrors_publish)

lemma commit_level_ok:
  assumes ok: "loop_ok snap st" and go: "commit_level js input at lo st = Inr st'"
  shows "loop_ok snap st'"
proof -
  obtain l outcome where lo: "lo = (l, outcome)" by (cases lo)
  from commit_level_Inr [OF go [unfolded lo]] obtain mid
    where mid: "rfold (commit_decision js input l at) (go_decisions outcome) st = Inr mid"
      and st': "if \<exists>b\<in>set (es_breaches mid). be_run (cb_event b) = lv_run l
     then \<exists>ch s. mark_breach (lv_run l) at (es_db mid) = Inr (ch, s)
            \<and> st' = mid\<lparr>es_changes := changes_extend (es_changes mid) ch, es_db := s\<rparr>
     else st' = mid" by blast
  have okm: "loop_ok snap mid"
    using mid ok by (rule rfold_invariant) (rule commit_decision_ok)
  show ?thesis
  proof (cases "\<exists>b\<in>set (es_breaches mid). be_run (cb_event b) = lv_run l")
    case True
    with st' obtain ch s where s: "mark_breach (lv_run l) at (es_db mid) = Inr (ch, s)"
        "st' = mid\<lparr>es_changes := changes_extend (es_changes mid) ch, es_db := s\<rparr>" by auto
    have keeps: "keeps_runs (es_db mid) ch s" using okm mark_breach_keeps [OF _ s(1)] by (simp add: loop_ok_def)
    then have g: "grows (no_changes, es_db mid) (ch, s)" "outbox_part s = outbox_part (es_db mid)"
      "tree_ok (record_at s)" using okm by (simp_all add: keeps_runs_def loop_ok_def)
    show ?thesis
      using okm grows_db_ok [OF g(1)] outbox_part_ok [OF g(2)] g(3) grows_fold_mirrors [OF g(1)]
      by (simp add: loop_ok_def s(2) changes_extend_def)
  next
    case False
    then show ?thesis using st' okm by simp
  qed
qed

definition eval_start :: "db \<Rightarrow> eval_state" where
  "eval_start s = \<lparr>es_breaches = [], es_raises = [], es_changes = no_changes, es_db = s\<rparr>"

text \<open>An evaluation that has levels to decide.\<close>

lemma evaluate_Inr:
  assumes go: "evaluate js fault input at en = Inr (evn, raises, en')" and "pi_supervised input"
  obtains levels s where "levels_for input at (en_db en) = Inr (levels, s)" and "filter level_is_armed levels = []"
      and "evn = evaluation_default" and "raises = []" and "en' = en\<lparr>en_db := s\<rparr>"
  | levels s inputs degraded st c where "levels_for input at (en_db en) = Inr (levels, s)"
      and "filter level_is_armed levels \<noteq> []"
      and "level_inputs fault input s (filter level_is_armed levels) [] = Inr (inputs, degraded)"
      and "rfold (commit_level js input at) (zip (filter level_is_armed levels) (map decide inputs)) (eval_start s) = Inr st"
      and "commit_changes (jn_run js) (es_changes st) (en\<lparr>en_db := es_db st\<rparr>) = Inr (c, en')"
      and "raises = es_raises st" and "evn = \<lparr>ev_breaches = es_breaches st, ev_degraded = degraded, ev_run_events = c\<rparr>"
proof -
  obtain levels s where l: "levels_for input at (en_db en) = Inr (levels, s)"
    using go assms(2) by (auto simp: evaluate_def rbind_eq_Inr)
  show thesis
  proof (cases "filter level_is_armed levels = []")
    case True
    with l go assms(2) show thesis by (intro that(1) [OF l]) (simp_all add: evaluate_def Let_def)
  next
    case False
    with l go assms(2) show thesis
      unfolding evaluate_def Let_def decide_chain_def eval_start_def [symmetric]
      by (auto intro!: that(2) [OF l False])
  qed
qed

lemma levels_for_ok:
  assumes ok: "engine_ok en" and go: "levels_for input at (en_db en) = Inr (levels, s)"
  shows "engine_ok (en\<lparr>en_db := s\<rparr>)" and "meter_part s = meter_part (en_db en)" and "breach_part s = breach_part (en_db en)"
proof -
  have "s = en_db en \<or> ensure_run_row (pi_run input) (pi_name input) at (en_db en) = Inr s"
    using go by (auto simp: levels_for_def split: if_splits)
  then show "engine_ok (en\<lparr>en_db := s\<rparr>)" "meter_part s = meter_part (en_db en)" "breach_part s = breach_part (en_db en)"
    using ok ensure_run_row_ok [OF ok] ensure_run_row_meter by auto
qed

lemma evaluate_ok:
  assumes ok: "engine_ok en" and go: "evaluate js fault input at en = Inr (evn, raises, en')"
  shows "engine_ok en'"
proof (cases "pi_supervised input")
  case False
  then show ?thesis using go ok by (simp add: evaluate_def)
next
  case True
  show ?thesis
  proof (rule evaluate_Inr [OF go True])
    fix levels s
    assume "levels_for input at (en_db en) = Inr (levels, s)" "en' = en\<lparr>en_db := s\<rparr>"
    then show ?thesis using levels_for_ok [OF ok] by simp
  next
    fix levels s inputs degraded st c
    assume l: "levels_for input at (en_db en) = Inr (levels, s)"
      and loop: "rfold (commit_level js input at) (zip (filter level_is_armed levels) (map decide inputs)) (eval_start s) = Inr st"
      and commit: "commit_changes (jn_run js) (es_changes st) (en\<lparr>en_db := es_db st\<rparr>) = Inr (c, en')"
    have "loop_ok (en_snap en) (eval_start s)"
      using levels_for_ok(1) [OF ok l] by (simp add: loop_ok_def eval_start_def engine_ok_def no_changes_def)
    with loop have fin: "loop_ok (en_snap en) st"
      by (rule rfold_invariant) (rule commit_level_ok)
    then have "outbox_ok (en_db (en\<lparr>en_db := es_db st\<rparr>))" by (simp add: loop_ok_def)
    note c = commit_changes_spec [OF commit this]
    from c(2) have "run_tables (en_db en') = run_tables (es_db st)" by simp
    from c(1,3) run_tables_cong [OF this] fin show ?thesis
      by (simp add: engine_ok_def loop_ok_def mirrors_publish)
  qed
qed

lemma engine_ok_tables:
  assumes "engine_ok en" and "run_tables s = run_tables (en_db en)" and "outbox_ok s"
  shows "engine_ok (en\<lparr>en_db := s\<rparr>)"
  using assms run_tables_cong [OF assms(2)] by (simp add: engine_ok_def)

text \<open>A usage commit is either a replay, or an insert, its outbox row and an evaluation.\<close>

lemma commit_usage_Inr:
  assumes "commit_usage js fault ev generation input at en = Inr (update, evn, raises, en')"
  obtains s where "insert_usage ev (pi_rate input) generation (en_db en) = Inr (DuplicateReplay, s)"
      and "update = None" and "evn = evaluation_default" and "raises = []" and "en' = en\<lparr>en_db := s\<rparr>"
  | s app u where "insert_usage ev (pi_rate input) generation (en_db en) = Inr (Inserted, s)"
      and "append_json (jn_usage js ev) s = Inr (app, u)" and "update = Some (ev, app)"
      and "evaluate js fault input at (en\<lparr>en_db := u\<rparr>) = Inr (evn, raises, en')"
proof -
  obtain out s where ins: "insert_usage ev (pi_rate input) generation (en_db en) = Inr (out, s)"
    using assms by (auto simp: commit_usage_def)
  show thesis
  proof (cases out)
    case Inserted
    then show thesis using assms ins by (auto simp: commit_usage_def intro!: that(2))
  next
    case DuplicateReplay
    then show thesis using assms ins by (auto simp: commit_usage_def intro!: that(1))
  qed
qed

lemma commit_usage_ok:
  assumes ok: "engine_ok en" and ledger: "ledger_ok (en_db en)"
    and go: "commit_usage js fault ev generation input at en = Inr (update, evn, raises, en')"
  shows "engine_ok en'"
proof (rule commit_usage_Inr [OF go])
  fix s
  assume ins: "insert_usage ev (pi_rate input) generation (en_db en) = Inr (DuplicateReplay, s)" "en' = en\<lparr>en_db := s\<rparr>"
  then show ?thesis using insert_usage_spec(5) [OF ledger ins(1)] ok by simp
next
  fix s app u
  assume ins: "insert_usage ev (pi_rate input) generation (en_db en) = Inr (Inserted, s)"
    and app: "append_json (jn_usage js ev) s = Inr (app, u)"
    and evl: "evaluate js fault input at (en\<lparr>en_db := u\<rparr>) = Inr (evn, raises, en')"
  have out: "outbox_ok s"
    using insert_usage_spec(3) [OF ledger ins] outbox_part_ok [of s "en_db en"] ok by (simp add: engine_ok_def)
  from append_json_frame [OF app out] insert_usage_spec(2) [OF ledger ins]
  have "engine_ok (en\<lparr>en_db := u\<rparr>)" by (intro engine_ok_tables [OF ok]) simp_all
  from evaluate_ok [OF this evl] show ?thesis .
qed

section \<open>The levels are different Runs\<close>

lemma chain_loop_ids:
  "text_ok s \<Longrightarrow> rooted (record_at s) x n R \<Longrightarrow> chain_loop k s (Some x) = Inr cs \<Longrightarrow>
     distinct (map rr_id cs) \<and> (\<forall>r\<in>set cs. (\<exists>m. anc (par_of (record_at s)) m x = Some (rr_id r)) \<and> record_at s (rr_id r) = Some r)"
proof (induction n arbitrary: x k cs)
  case 0
  then have x: "record_at s x = Some R" "rr_parent R = None" by (simp_all add: rooted_def)
  have id: "rr_id R = x" using record_at_id [OF x(1)] .
  show ?case
  proof (cases k)
    case (Suc j)
    have "chain_loop j s None = Inr []" by (cases j) simp_all
    with 0 Suc x have "cs = [R]" by (simp add: run_record_of_eq)
    moreover have "anc (par_of (record_at s)) 0 x = Some (rr_id R)" by (simp add: id)
    ultimately show ?thesis using x id by (simp del: anc.simps) blast
  qed (use 0 in simp)
next
  case (Suc n)
  then obtain p where p: "par_of (record_at s) x = Some p" "rooted (record_at s) p n R"
    by (auto simp: rooted_def bind_eq_Some_conv)
  then obtain r where r: "record_at s x = Some r" "rr_parent r = Some p" by (auto simp: par_of_def bind_eq_Some_conv)
  have id: "rr_id r = x" using record_at_id [OF r(1)] .
  show ?case
  proof (cases k)
    case (Suc j)
    then obtain rest where rest: "chain_loop j s (Some p) = Inr rest" "cs = r # rest"
      using Suc.prems r by (auto simp: run_record_of_eq)
    note ih = Suc.IH [OF Suc.prems(1) p(2) rest(1)]
    have up: "anc (par_of (record_at s)) (Suc m) x = Some y" if "anc (par_of (record_at s)) m p = Some y" for m y
      using that p(1) by simp
    have "x \<notin> rr_id ` set rest"
    proof
      assume "x \<in> rr_id ` set rest"
      then obtain m where m: "anc (par_of (record_at s)) (Suc m) x = Some x" using ih up by fastforce
      then have "Suc m \<le> Suc n" "rooted (record_at s) x (Suc n - Suc m) R"
        using rooted_anc [OF Suc.prems(2) m] by blast+
      with rooted_unique [OF Suc.prems(2) this(2)] show False by simp
    qed
    moreover have "anc (par_of (record_at s)) 0 x = Some (rr_id r)" by (simp add: id)
    moreover have "\<exists>m. anc (par_of (record_at s)) m x = Some (rr_id c)" if "c \<in> set rest" for c
      using ih that up by metis
    ultimately show ?thesis using ih r(1) id unfolding rest(2) by (auto simp del: anc.simps)
  qed (use Suc.prems in simp)
qed

lemma chain_levels_runs:
  "chain_levels s cs = Inr ls \<Longrightarrow> \<exists>k. map lv_run ls = take k (map rr_id cs)"
proof (induction cs arbitrary: ls)
  case (Cons r cs)
  show ?case
  proof (cases "rr_owner r")
    case True
    with Cons.prems show ?thesis by (intro exI [of _ 1]) (auto simp: process_level_def)
  next
    case False
    with Cons.prems obtain l ls' where l: "child_level s r = Inr l" "chain_levels s cs = Inr ls'" "ls = l # ls'"
      by auto
    from Cons.IH [OF l(2)] obtain k where "map lv_run ls' = take k (map rr_id cs)" ..
    moreover have "lv_run l = rr_id r" using l(1) by (auto simp: child_level_def Let_def)
    ultimately show ?thesis by (intro exI [of _ "Suc k"]) (simp add: l(3))
  qed
qed simp

lemma levels_distinct:
  assumes ok: "db_ok s" "tree_ok (record_at s)" and go: "levels_for input at s = Inr (levels, t)"
  shows "distinct (map lv_run (filter P levels))"
proof -
  obtain cs where cs: "run_chain s (pi_run input) = Inr cs" using go by (auto simp: levels_for_def)
  have "distinct (map lv_run levels)"
  proof (cases "cs = []")
    case True
    then show ?thesis using go cs by (auto simp: levels_for_def process_level_def)
  next
    case False
    have tok: "text_ok s" using ok by (simp add: db_ok_def)
    have "record_at s (pi_run input) \<noteq> None"
    proof
      assume "record_at s (pi_run input) = None"
      then have "run_chain s (pi_run input) = Inr []"
        by (simp add: run_chain_def max_run_nesting_def numeral_eq_Suc run_record_of_eq [OF tok])
      then show False using cs False by simp
    qed
    then obtain r where "record_at s (pi_run input) = Some r" by auto
    from tree_okD [OF ok(2) this] obtain n R where "rooted (record_at s) (pi_run input) n R" by metis
    from chain_loop_ids [OF tok this cs [unfolded run_chain_def]] have "distinct (map rr_id cs)" by simp
    moreover have "chain_levels s cs = Inr levels" using go cs False by (auto simp: levels_for_def)
    from chain_levels_runs [OF this] obtain k where "map lv_run levels = take k (map rr_id cs)" ..
    ultimately show ?thesis by simp
  qed
  then show ?thesis by (simp add: distinct_map_filter)
qed

section \<open>Latches\<close>

text \<open>The text a latch of a pair under an action is stored as.\<close>

definition latch_text :: "run_id \<Rightarrow> latch_key \<Rightarrow> breach_action \<Rightarrow> string \<times> string \<times> string \<times> string" where
  "latch_text rid k a = (rid, dimension_as_str (lk_dimension k), scope_as_str (lk_scope k), action_as_str a)"

definition latch_texts :: "db \<Rightarrow> (string \<times> string \<times> string \<times> string) set" where
  "latch_texts s = latch_key_of ` set (db_latches s)"

lemma latch_row_text [simp]: "latch_key_of (latch_row_of rid k a at) = latch_text rid k a"
  by (simp add: latch_key_of_def latch_row_of_def latch_text_def)

lemma parse_dimension_iff: "parse_dimension raw = Some d \<longleftrightarrow> raw = dimension_as_str d"
  by (cases d) (auto simp: parse_dimension_def)

lemma parse_scope_iff: "parse_scope raw = Some c \<longleftrightarrow> raw = scope_as_str c"
  by (cases c) (auto simp: parse_scope_def)

lemma breach_wire_roundtrips [simp]:
  "parse_dimension (dimension_as_str d) = Some d" "parse_scope (scope_as_str c) = Some c"
  by (simp_all add: parse_dimension_iff parse_scope_iff)

lemma wire_inj [simp]:
  "dimension_as_str d = dimension_as_str d' \<longleftrightarrow> d = d'" "scope_as_str c = scope_as_str c' \<longleftrightarrow> c = c'"
  "action_as_str a = action_as_str a' \<longleftrightarrow> a = a'"
  by (metis breach_wire_roundtrips(1) option.inject, metis breach_wire_roundtrips(2) option.inject, metis parse_action_roundtrip sum.inject(2))

lemma read_latch_iff: "read_latch l = Inr (k, a) \<longleftrightarrow> latch_key_of l = latch_text (la_run l) k a"
  by (cases k)
    (auto simp: read_latch_def latch_key_of_def latch_text_def parse_dimension_iff parse_scope_iff parse_action_Inr
      split: option.splits sum.splits)

lemma latches_iff:
  assumes "latches s rid = Inr ls"
  shows "(k, a) \<in> set ls \<longleftrightarrow> latch_text rid k a \<in> latch_texts s"
proof -
  have "(k, a) \<in> set ls \<longleftrightarrow> (\<exists>l\<in>set (db_latches s). la_run l = rid \<and> read_latch l = Inr (k, a))"
    using rmap_Inr_set [OF assms [unfolded latches_def]] by auto
  also have "\<dots> \<longleftrightarrow> latch_text rid k a \<in> latch_texts s"
    by (auto simp: read_latch_iff latch_texts_def latch_text_def latch_key_of_def)
  finally show ?thesis .
qed

text \<open>The action a level configures for a dimension, and the pairs its decision input holds latched.\<close>

definition level_action :: "eval_input \<Rightarrow> level \<Rightarrow> breach_dimension \<Rightarrow> breach_action" where
  "level_action input l d =
     (let (_, token_action, _, cost_action) = level_arms input l
      in case d of Tokens \<Rightarrow> token_action | Dollars \<Rightarrow> cost_action)"

lemma level_input_Inr:
  assumes "level_input fault input s l dg = Inr (gi, dg')"
  shows "set (gi_latched gi) = {k. latch_text (lv_run l) k (level_action input l (lk_dimension k)) \<in> latch_texts s}"
    and "gi_token gi = Some t \<Longrightarrow> ta_action t = level_action input l Tokens"
    and "gi_dollar gi = Some d \<Longrightarrow> da_action d = level_action input l Dollars"
proof -
  obtain b ta c ca where arms: "level_arms input l = (b, ta, c, ca)" by (metis prod_cases4)
  have "\<exists>ls. latches s (lv_run l) = Inr ls
      \<and> gi_latched gi = map fst (filter (\<lambda>(key, action). action = (case lk_dimension key of Tokens \<Rightarrow> ta | Dollars \<Rightarrow> ca)) ls)
      \<and> (\<forall>t. gi_token gi = Some t \<longrightarrow> ta_action t = ta) \<and> (\<forall>d. gi_dollar gi = Some d \<longrightarrow> da_action d = ca)"
    using assms by (auto simp: level_input_def Let_def arms split: prod.splits if_splits)
  then obtain ls where ls: "latches s (lv_run l) = Inr ls"
    and gi: "gi_latched gi = map fst (filter (\<lambda>(key, action).
                  action = (case lk_dimension key of Tokens \<Rightarrow> ta | Dollars \<Rightarrow> ca)) ls)"
      "gi_token gi = Some t \<Longrightarrow> ta_action t = ta" "gi_dollar gi = Some d \<Longrightarrow> da_action d = ca"
    by blast
  have act: "level_action input l x = (case x of Tokens \<Rightarrow> ta | Dollars \<Rightarrow> ca)" for x
    by (simp add: level_action_def arms)
  have "k \<in> set (gi_latched gi) \<longleftrightarrow> (k, level_action input l (lk_dimension k)) \<in> set ls" for k
    unfolding gi(1) act by force
  then show "set (gi_latched gi) = {k. latch_text (lv_run l) k (level_action input l (lk_dimension k)) \<in> latch_texts s}"
    by (auto simp: latches_iff [OF ls])
  show "gi_token gi = Some t \<Longrightarrow> ta_action t = level_action input l Tokens"
    "gi_dollar gi = Some d \<Longrightarrow> da_action d = level_action input l Dollars"
    using gi(2,3) by (simp_all add: act)
qed

lemma breached_action:
  "Breached c a' lim v = budget_evaluate r u b a \<Longrightarrow> a' = a" "Breached c a' lim v = cost_evaluate x y cap a \<Longrightarrow> a' = a"
  using budget_evaluate_breached [of r u b a c a' lim v] cost_evaluate_breached [of x y cap a c a' lim v]
  by (metis, metis)

lemma decision_action:
  assumes "level_input fault input s l dg = Inr (gi, dg')" and "d \<in> set (go_decisions (decide gi))"
  shows "gd_action d = level_action input l (gd_dimension d)"
  using assms(2) level_input_Inr(2,3) [OF assms(1)]
  by (auto simp: decide_decisions dimension_decisions_def dest!: breached_action
      split: breach_decision.splits if_splits option.splits)

lemma decision_fresh:
  assumes "level_input fault input s l dg = Inr (gi, dg')" and "d \<in> set (go_decisions (decide gi))"
  shows "latch_text (lv_run l) (decision_key d) (gd_action d) \<notin> latch_texts s"
proof -
  have "decision_key d \<notin> set (gi_latched gi)" using decide_keys_fresh [of gi] assms(2) by auto
  then show ?thesis
    using decision_action [OF assms] by (simp add: level_input_Inr(1) [OF assms(1)] decision_key_def)
qed

text \<open>No two breach rows tell of the same pair of the same Run under the same action, and every breach is
  latched.\<close>

definition breach_text :: "breach_row \<Rightarrow> string \<times> string \<times> string \<times> string" where
  "breach_text b = (br_run b, br_dimension b, br_scope b, br_action b)"

definition breaches_ok :: "db \<Rightarrow> bool" where
  "breaches_ok s \<longleftrightarrow> distinct (map breach_text (db_breaches s)) \<and> breach_text ` set (db_breaches s) \<subseteq> latch_texts s"

lemma breach_event_of_fields:
  "be_run (breach_event_of input rid d at) = rid" "be_scope (breach_event_of input rid d at) = gd_scope d"
  "be_dimension (breach_event_of input rid d at) = gd_dimension d" "be_action (breach_event_of input rid d at) = gd_action d"
  "be_instance (breach_event_of input rid d at) = pi_name input" "be_at (breach_event_of input rid d at) = at"
  by (simp_all add: breach_event_of_def breach_event_new_def breach_event_new_cost_def split: breach_dimension.split)

lemma commit_decision_breaches:
  assumes out: "outbox_ok (es_db st)" and go: "commit_decision js input l at d st = Inr st'"
  shows "outbox_ok (es_db st')"
    and "map breach_text (db_breaches (es_db st')) = map breach_text (db_breaches (es_db st)) @ [latch_text (lv_run l) (decision_key d) (gd_action d)]"
    and "latch_texts (es_db st') = insert (latch_text (lv_run l) (decision_key d) (gd_action d)) (latch_texts (es_db st))"
proof -
  let ?ev = "breach_event_of input (lv_run l) d at"
  obtain s1 s2 app s3 where s: "append_breach (jn_breach_row js ?ev) ?ev (es_db st) = Inr s1"
      "latch (lv_run l) (decision_key d) (gd_action d) (be_at ?ev) s1 = Inr s2"
      "append_json (jn_breach js ?ev) s2 = Inr (app, s3)" "es_db st' = s3"
    using go unfolding commit_decision_Inr decision_key_def by auto
  have out2: "outbox_ok s2"
    using append_breach_frame [OF s(1)] latch_frame [OF s(2)] outbox_part_ok [of s2 "es_db st"] out by simp
  note f3 = append_json_frame [OF s(3) out2]
  show "outbox_ok (es_db st')" using f3 s(4) by simp
  obtain iid tx where s1: "s1 = (es_db st)\<lparr>db_breaches := db_breaches (es_db st) @ [breach_row_of (db_breach_seq (es_db st) + 1) iid ?ev tx],
               db_breach_seq := db_breach_seq (es_db st) + 1\<rparr>"
    using append_breach_Inr [OF s(1)] by blast
  have row: "breach_text (breach_row_of n iid ?ev tx) = latch_text (lv_run l) (decision_key d) (gd_action d)" for n
    by (simp add: breach_text_def breach_row_of_def latch_text_def decision_key_def breach_event_of_fields)
  show "map breach_text (db_breaches (es_db st')) = map breach_text (db_breaches (es_db st)) @ [latch_text (lv_run l) (decision_key d) (gd_action d)]"
    using f3 latch_frame [OF s(2)] s(4) by (simp add: breach_part_def s1 row)
  show "latch_texts (es_db st') = insert (latch_text (lv_run l) (decision_key d) (gd_action d)) (latch_texts (es_db st))"
    using f3 latch_frame [OF s(2)] s(4) by (simp add: breach_part_def latch_texts_def s1)
qed

section \<open>What an evaluation commits\<close>

text \<open>The decisions of all levels, in the order they are committed, and what each leaves behind.\<close>

definition fired :: "(level \<times> governance_outcome) list \<Rightarrow> (level \<times> governance_decision) list" where
  "fired los = concat (map (\<lambda>(l, outcome). map (Pair l) (go_decisions outcome)) los)"

definition fired_text :: "level \<times> governance_decision \<Rightarrow> string \<times> string \<times> string \<times> string" where
  "fired_text p = latch_text (lv_run (fst p)) (decision_key (snd p)) (gd_action (snd p))"

definition fired_breach :: "eval_input \<Rightarrow> string \<Rightarrow> level \<times> governance_decision \<Rightarrow> breach_event \<times> governance_decision \<times> bool" where
  "fired_breach input at p = (breach_event_of input (lv_run (fst p)) (snd p) at, snd p, lv_acts (fst p))"

definition fired_raise :: "eval_input \<Rightarrow> level \<times> governance_decision \<Rightarrow> bool" where
  "fired_raise input p \<longleftrightarrow> lv_acts (fst p) \<and> gd_action (snd p) = ActBlock \<and> pi_fenced input"

definition breach_facts :: "committed_breach \<Rightarrow> breach_event \<times> governance_decision \<times> bool" where
  "breach_facts b = (cb_event b, cb_decision b, cb_process b)"

definition wrote :: "eval_input \<Rightarrow> string \<Rightarrow> (level \<times> governance_decision) list \<Rightarrow> eval_state \<Rightarrow> eval_state \<Rightarrow> bool" where
  "wrote input at ps st st' \<longleftrightarrow> outbox_ok (es_db st')
     \<and> map breach_facts (es_breaches st') = map breach_facts (es_breaches st) @ map (fired_breach input at) ps
     \<and> es_raises st' = es_raises st @ map (\<lambda>p. decision_key (snd p)) (filter (fired_raise input) ps)
     \<and> map breach_text (db_breaches (es_db st')) = map breach_text (db_breaches (es_db st)) @ map fired_text ps
     \<and> latch_texts (es_db st') = latch_texts (es_db st) \<union> set (map fired_text ps)"

lemma wrote_refl: "outbox_ok (es_db st) \<Longrightarrow> wrote input at [] st st"
  by (simp add: wrote_def)

lemma wrote_trans: "wrote input at ps a b \<Longrightarrow> wrote input at qs b c \<Longrightarrow> wrote input at (ps @ qs) a c"
  by (auto simp: wrote_def)

lemma commit_decision_wrote:
  assumes "outbox_ok (es_db st)" and go: "commit_decision js input l at d st = Inr st'"
  shows "wrote input at [(l, d)] st st'"
proof -
  have "map breach_facts (es_breaches st') = map breach_facts (es_breaches st) @ map (fired_breach input at) [(l, d)]
      \<and> es_raises st' = es_raises st @ map (\<lambda>p. decision_key (snd p)) (filter (fired_raise input) [(l, d)])"
    using go unfolding commit_decision_Inr
    by (auto simp: breach_facts_def fired_breach_def fired_raise_def decision_key_def)
  then show ?thesis using commit_decision_breaches [OF assms] by (simp add: wrote_def fired_text_def)
qed

lemma commit_decisions_wrote:
  "outbox_ok (es_db st) \<Longrightarrow> rfold (commit_decision js input l at) ds st = Inr st' \<Longrightarrow> wrote input at (map (Pair l) ds) st st'"
proof (induction ds arbitrary: st)
  case Nil
  then show ?case by (simp add: wrote_refl)
next
  case (Cons d ds)
  then obtain u where u: "commit_decision js input l at d st = Inr u" "rfold (commit_decision js input l at) ds u = Inr st'"
    by auto
  note one = commit_decision_wrote [OF Cons.prems(1) u(1)]
  from wrote_trans [OF one Cons.IH [OF _ u(2)]] one show ?case by (simp add: wrote_def)
qed

lemma commit_level_wrote:
  assumes out: "outbox_ok (es_db st)" and go: "commit_level js input at (l, outcome) st = Inr st'"
  shows "wrote input at (map (Pair l) (go_decisions outcome)) st st'"
proof -
  obtain mid where mid: "rfold (commit_decision js input l at) (go_decisions outcome) st = Inr mid"
    and st': "if \<exists>b\<in>set (es_breaches mid). be_run (cb_event b) = lv_run l
     then \<exists>ch s. mark_breach (lv_run l) at (es_db mid) = Inr (ch, s)
            \<and> st' = mid\<lparr>es_changes := changes_extend (es_changes mid) ch, es_db := s\<rparr>
     else st' = mid" using commit_level_Inr [OF go] by blast
  note w = commit_decisions_wrote [OF out mid]
  have "es_breaches st' = es_breaches mid \<and> es_raises st' = es_raises mid
      \<and> outbox_part (es_db st') = outbox_part (es_db mid) \<and> breach_part (es_db st') = breach_part (es_db mid)"
    using st' mark_breach_outbox mark_breach_meter by (auto split: if_splits)
  then show ?thesis using w outbox_part_ok [of "es_db st'" "es_db mid"]
    by (simp add: wrote_def breach_part_def latch_texts_def)
qed

lemma commit_levels_wrote:
  "outbox_ok (es_db st) \<Longrightarrow> rfold (commit_level js input at) los st = Inr st' \<Longrightarrow> wrote input at (fired los) st st'"
proof (induction los arbitrary: st)
  case Nil
  then show ?case by (simp add: wrote_refl fired_def)
next
  case (Cons lo los)
  obtain l outcome where lo: "lo = (l, outcome)" by (cases lo)
  from Cons.prems obtain u where u: "commit_level js input at (l, outcome) st = Inr u"
      "rfold (commit_level js input at) los u = Inr st'" by (auto simp: lo)
  note one = commit_level_wrote [OF Cons.prems(1) u(1)]
  from wrote_trans [OF one Cons.IH [OF _ u(2)]] one show ?case by (simp add: wrote_def fired_def lo)
qed

lemma level_inputs_nth:
  "level_inputs fault input s ls dg = Inr (gis, dg') \<Longrightarrow>
     length gis = length ls \<and> (\<forall>(l, gi)\<in>set (zip ls gis). \<exists>a b. level_input fault input s l a = Inr (gi, b))"
proof (induction ls arbitrary: dg gis)
  case (Cons l ls)
  then obtain gi d1 gis' where g: "level_input fault input s l dg = Inr (gi, d1)"
      "level_inputs fault input s ls d1 = Inr (gis', dg')" "gis = gi # gis'" by auto
  from Cons.IH [OF g(2)] g show ?case by auto
qed simp

lemma fired_fresh:
  assumes inputs: "level_inputs fault input s ls dg = Inr (gis, dg')" and runs: "distinct (map lv_run ls)"
  shows "distinct (map fired_text (fired (zip ls (map decide gis))))
     \<and> set (map fired_text (fired (zip ls (map decide gis)))) \<inter> latch_texts s = {}"
  using assms
proof (induction ls arbitrary: dg gis)
  case Nil
  then show ?case by (simp add: fired_def)
next
  case (Cons l ls)
  obtain gi d1 gis' where g: "level_input fault input s l dg = Inr (gi, d1)"
      "level_inputs fault input s ls d1 = Inr (gis', dg')" "gis = gi # gis'" using Cons.prems by auto
  let ?here = "map fired_text (map (Pair l) (go_decisions (decide gi)))"
  let ?rest = "map fired_text (fired (zip ls (map decide gis')))"
  have split: "map fired_text (fired (zip (l # ls) (map decide gis))) = ?here @ ?rest"
    by (simp add: g(3) fired_def)
  have "inj_on (\<lambda>d. fired_text (l, d)) (set (go_decisions (decide gi)))"
  proof (rule inj_onI)
    fix d e assume de: "d \<in> set (go_decisions (decide gi))" "e \<in> set (go_decisions (decide gi))" "fired_text (l, d) = fired_text (l, e)"
    then have "decision_key d = decision_key e"
      by (simp add: fired_text_def latch_text_def decision_key_def)
    with decide_keys_fresh [of gi] de(1,2) show "d = e" by (auto simp: distinct_map dest: inj_onD)
  qed
  moreover have "distinct (go_decisions (decide gi))" using decide_keys_fresh [of gi] by (auto simp: distinct_map)
  ultimately have here: "distinct ?here" by (simp add: distinct_map comp_def)
  have "set ?here \<inter> set ?rest = {}"
  proof (rule equals0I)
    fix x assume x: "x \<in> set ?here \<inter> set ?rest"
    have "fst x = lv_run l" using x by (auto simp: fired_text_def latch_text_def)
    moreover have "fst x \<in> set (map lv_run ls)"
      using x by (auto simp: fired_text_def latch_text_def fired_def dest: set_zip_leftD)
    ultimately show False using Cons.prems(2) by simp
  qed
  moreover have "set ?here \<inter> latch_texts s = {}" using decision_fresh [OF g(1)] by (auto simp: fired_text_def)
  ultimately show ?case using here Cons.IH [OF g(2)] Cons.prems(2) unfolding split by auto
qed

lemma breaches_ok_alt:
  "breaches_ok s \<longleftrightarrow> distinct (map breach_text (db_breaches s)) \<and> set (map breach_text (db_breaches s)) \<subseteq> latch_texts s"
  by (simp only: breaches_ok_def set_map)

lemma wrote_breaches_ok:
  assumes "wrote input at ps st st'" and "breaches_ok (es_db st)"
    and "distinct (map fired_text ps) \<and> set (map fired_text ps) \<inter> latch_texts (es_db st) = {}"
  shows "breaches_ok (es_db st')"
proof -
  have w: "map breach_text (db_breaches (es_db st')) = map breach_text (db_breaches (es_db st)) @ map fired_text ps"
    "latch_texts (es_db st') = latch_texts (es_db st) \<union> set (map fired_text ps)"
    using assms(1) unfolding wrote_def by simp_all
  show ?thesis
    using assms(2,3) unfolding breaches_ok_alt w distinct_append set_append by blast
qed

lemma commit_changes_breaches:
  assumes "commit_changes enc ch en = Inr (c, en')" and "outbox_ok (en_db en)"
  shows "breach_part (en_db en') = breach_part (en_db en)" "meter_part (en_db en') = meter_part (en_db en)"
proof -
  have step: "outbox_ok (snd v) \<and> breach_part (snd v) = breach_part (snd u) \<and> meter_part (snd v) = meter_part (snd u)"
    if "commit_event enc e u = Inr v" "outbox_ok (snd u)" for e u v
  proof -
    have "append_json (enc e) (snd u) = Inr (snd (last (fst v)), snd v)"
      using that(1) by (auto simp: commit_event_def append_json_def split: option.splits prod.splits)
    from append_json_frame [OF this that(2)] show ?thesis by simp
  qed
  obtain s where "rfold (commit_event enc) (ch_events ch) ([], en_db en) = Inr (c, s)" "en_db en' = s"
    using assms(1) by (auto simp: commit_changes_def)
  moreover from this(1) have "outbox_ok (snd (c, s)) \<and> breach_part (snd (c, s)) = breach_part (en_db en)
      \<and> meter_part (snd (c, s)) = meter_part (en_db en)"
    by (rule rfold_invariant [where I = "\<lambda>u. outbox_ok (snd u) \<and> breach_part (snd u) = breach_part (en_db en)
      \<and> meter_part (snd u) = meter_part (en_db en)"], use assms(2) in simp) (use step in simp)
  ultimately show "breach_part (en_db en') = breach_part (en_db en)" "meter_part (en_db en') = meter_part (en_db en)" by simp_all
qed

text \<open>An evaluation of a supervised instance, seen through its levels and the decisions they fired.\<close>

lemma evaluate_fired:
  assumes ok: "engine_ok en" and go: "evaluate js fault input at en = Inr (evn, raises, en')" and sup: "pi_supervised input"
  shows "\<exists>levels s gis dg. levels_for input at (en_db en) = Inr (levels, s)
     \<and> level_inputs fault input s (filter level_is_armed levels) [] = Inr (gis, dg)
     \<and> (let ps = fired (zip (filter level_is_armed levels) (map decide gis))
        in map breach_facts (ev_breaches evn) = map (fired_breach input at) ps
         \<and> raises = map (\<lambda>p. decision_key (snd p)) (filter (fired_raise input) ps)
         \<and> map breach_text (db_breaches (en_db en')) = map breach_text (db_breaches (en_db en)) @ map fired_text ps
         \<and> latch_texts (en_db en') = latch_texts (en_db en) \<union> set (map fired_text ps)
         \<and> ev_degraded evn = dg)"
proof (rule evaluate_Inr [OF go sup])
  fix levels s
  assume l: "levels_for input at (en_db en) = Inr (levels, s)" "filter level_is_armed levels = []"
    and e: "evn = evaluation_default" "raises = []" "en' = en\<lparr>en_db := s\<rparr>"
  have "breach_part s = breach_part (en_db en)" by (rule levels_for_ok(3) [OF ok l(1)])
  with l e show ?thesis
    by (intro exI [of _ levels] exI [of _ s] exI [of _ "[]"])
      (simp add: fired_def evaluation_default_def breach_part_def latch_texts_def)
next
  fix levels s gis dg st c
  assume l: "levels_for input at (en_db en) = Inr (levels, s)"
    and gis: "level_inputs fault input s (filter level_is_armed levels) [] = Inr (gis, dg)"
    and loop: "rfold (commit_level js input at) (zip (filter level_is_armed levels) (map decide gis)) (eval_start s) = Inr st"
    and commit: "commit_changes (jn_run js) (es_changes st) (en\<lparr>en_db := es_db st\<rparr>) = Inr (c, en')"
    and e: "raises = es_raises st" "evn = \<lparr>ev_breaches = es_breaches st, ev_degraded = dg, ev_run_events = c\<rparr>"
  let ?ps = "fired (zip (filter level_is_armed levels) (map decide gis))"
  have out: "outbox_ok (es_db (eval_start s))" using levels_for_ok(1) [OF ok l] by (simp add: engine_ok_def eval_start_def)
  note w = commit_levels_wrote [OF out loop, unfolded wrote_def]
  have same: "breach_part (en_db en') = breach_part (es_db st)"
    using commit_changes_breaches [OF commit] w by simp
  have s: "breach_part s = breach_part (en_db en)" by (rule levels_for_ok(3) [OF ok l])
  have "map breach_facts (ev_breaches evn) = map (fired_breach input at) ?ps
         \<and> raises = map (\<lambda>p. decision_key (snd p)) (filter (fired_raise input) ?ps)
         \<and> map breach_text (db_breaches (en_db en')) = map breach_text (db_breaches (en_db en)) @ map fired_text ?ps
         \<and> latch_texts (en_db en') = latch_texts (en_db en) \<union> set (map fired_text ?ps) \<and> ev_degraded evn = dg"
    using w same s by (simp add: e eval_start_def breach_part_def latch_texts_def)
  with l gis show ?thesis unfolding Let_def by blast
qed

end
