(* ===== verification/Pipeline_Properties.thy ===== *)
theory Pipeline_Properties
  imports Pipeline_Facts Run_Properties
begin

text \<open>
  The properties of the metering pipeline: what a usage commit keeps, what it must fire, what may raise the
  wire fence, and that it is never refused.
\<close>

section \<open>Never twice\<close>

lemma evaluate_breaches_ok:
  assumes ok: "engine_ok en" "breaches_ok (en_db en)" and go: "evaluate js fault input at en = Inr (evn, raises, en')"
  shows "breaches_ok (en_db en')
    \<and> (\<forall>b\<in>set (ev_breaches evn). latch_text (be_run (cb_event b)) (decision_key (cb_decision b)) (gd_action (cb_decision b))
          \<in> latch_texts (en_db en') - latch_texts (en_db en))"
proof (cases "pi_supervised input")
  case False
  then show ?thesis using go ok by (auto simp: evaluate_def evaluation_default_def)
next
  case True
  obtain levels s gis dg where l: "levels_for input at (en_db en) = Inr (levels, s)"
      and gis: "level_inputs fault input s (filter level_is_armed levels) [] = Inr (gis, dg)"
      and w: "let ps = fired (zip (filter level_is_armed levels) (map decide gis))
        in map breach_facts (ev_breaches evn) = map (fired_breach input at) ps
         \<and> raises = map (\<lambda>p. decision_key (snd p)) (filter (fired_raise input) ps)
         \<and> map breach_text (db_breaches (en_db en')) = map breach_text (db_breaches (en_db en)) @ map fired_text ps
         \<and> latch_texts (en_db en') = latch_texts (en_db en) \<union> set (map fired_text ps)
         \<and> ev_degraded evn = dg"
    using evaluate_fired [OF ok(1) go True] by blast
  let ?ps = "fired (zip (filter level_is_armed levels) (map decide gis))"
  have w: "map breach_facts (ev_breaches evn) = map (fired_breach input at) ?ps"
      "map breach_text (db_breaches (en_db en')) = map breach_text (db_breaches (en_db en)) @ map fired_text ?ps"
      "latch_texts (en_db en') = latch_texts (en_db en) \<union> set (map fired_text ?ps)"
    using w by (simp_all add: Let_def)
  have "distinct (map lv_run (filter level_is_armed levels))"
    using ok(1) levels_distinct [OF _ _ l] by (simp add: engine_ok_def)
  from fired_fresh [OF gis this]
  have fresh: "distinct (map fired_text ?ps)" "set (map fired_text ?ps) \<inter> latch_texts (en_db en) = {}"
    using levels_for_ok(3) [OF ok(1) l] by (simp_all add: breach_part_def latch_texts_def)
  have "breaches_ok (en_db en')"
    using ok(2) fresh unfolding breaches_ok_alt w distinct_append set_append by blast
  moreover have "latch_text (be_run (cb_event b)) (decision_key (cb_decision b)) (gd_action (cb_decision b)) \<in> set (map fired_text ?ps)"
    if "b \<in> set (ev_breaches evn)" for b
  proof -
    have "breach_facts b \<in> set (map (fired_breach input at) ?ps)" using that w(1) by (metis image_eqI list.set_map)
    then obtain p where "p \<in> set ?ps" "breach_facts b = fired_breach input at p" by auto
    then have "latch_text (be_run (cb_event b)) (decision_key (cb_decision b)) (gd_action (cb_decision b)) = fired_text p"
      by (auto simp: breach_facts_def fired_breach_def fired_text_def breach_event_of_fields)
    then show ?thesis using \<open>p \<in> set ?ps\<close> by simp
  qed
  ultimately show ?thesis using fresh(2) w(3) by blast
qed

lemma insert_usage_breaches:
  assumes "ledger_ok s" and "insert_usage ev rate g s = Inr (Inserted, t)"
  shows "breach_part t = breach_part s"
proof -
  obtain i where t: "t = fold_rows True (s\<lparr>db_usage := db_usage s @ [usage_row_of (db_usage_seq s + 1) i ev rate g],
                              db_usage_seq := db_usage_seq s + 1\<rparr>)"
    using insert_usage_Inserted [OF assms(2)] by blast
  show ?thesis using fold_rows_spec [OF ledger_ok_append [OF assms(1), of i ev rate g], folded t]
    by (elim exE conjE) (simp add: breach_part_def)
qed

lemma usage_row_committed:
  assumes ok: "engine_ok en" and ledger: "ledger_ok (en_db en)"
    and ins: "insert_usage ev rate g (en_db en) = Inr (Inserted, s)" and app: "append_json json s = Inr (app, u)"
  shows "engine_ok (en\<lparr>en_db := u\<rparr>)" and "breach_part u = breach_part (en_db en)" and "ledger_ok u"
    and "run_tables u = run_tables (en_db en)" and "meter_part u = meter_part s"
proof -
  have out: "outbox_ok s"
    using insert_usage_spec(3) [OF ledger ins] outbox_part_ok [of s "en_db en"] ok by (simp add: engine_ok_def)
  note f = append_json_frame [OF app out]
  show "engine_ok (en\<lparr>en_db := u\<rparr>)" using f insert_usage_spec(2) [OF ledger ins] by (intro engine_ok_tables [OF ok]) simp_all
  show "breach_part u = breach_part (en_db en)" using f insert_usage_breaches [OF ledger ins] by simp
  show "meter_part u = meter_part s" using f by simp
  show tables: "run_tables u = run_tables (en_db en)" using f insert_usage_spec(2) [OF ledger ins] by simp
  have "ledger_ok s" by (rule insert_usage_spec(1) [OF ledger ins])
  moreover have "target_sum u = target_sum s"
    using f by (intro target_sum_cong) (simp add: run_tables_def)
  ultimately show "ledger_ok u"
    using f by (simp add: ledger_ok_def meter_part_def read_instance_rollup_def read_run_rollup_def folded_rows_def)
qed

text \<open>(C1) A usage commit keeps the Run subsystem's invariant, and no ceiling ever breaches twice: the breach
  rows name pairwise different (Run, dimension, scope, action), every one is latched, and a breach the commit
  records was not latched before and is afterwards - so no later commit fires it again.\<close>

theorem no_ceiling_breaches_twice:
  assumes "engine_ok en" and "ledger_ok (en_db en)" and "breaches_ok (en_db en)"
    and "commit_usage js fault ev generation input at en = Inr (update, evn, raises, en')"
  shows "engine_ok en' \<and> breaches_ok (en_db en')
    \<and> (\<forall>b\<in>set (ev_breaches evn). latch_text (be_run (cb_event b)) (decision_key (cb_decision b)) (gd_action (cb_decision b))
          \<in> latch_texts (en_db en') - latch_texts (en_db en))"
proof (rule commit_usage_Inr [OF assms(4)])
  fix s
  assume e: "insert_usage ev (pi_rate input) generation (en_db en) = Inr (DuplicateReplay, s)" "evn = evaluation_default" "en' = en\<lparr>en_db := s\<rparr>"
  then show ?thesis using assms(1,3) insert_usage_spec(5) [OF assms(2) e(1)] by (simp add: evaluation_default_def)
next
  fix s app u
  assume ins: "insert_usage ev (pi_rate input) generation (en_db en) = Inr (Inserted, s)"
    and app: "append_json (jn_usage js ev) s = Inr (app, u)"
    and evl: "evaluate js fault input at (en\<lparr>en_db := u\<rparr>) = Inr (evn, raises, en')"
  note e = usage_row_committed [OF assms(1,2) ins app]
  then have "latch_texts u = latch_texts (en_db en)" "breaches_ok (en_db (en\<lparr>en_db := u\<rparr>))"
    using assms(3) by (simp_all add: breach_part_def latch_texts_def breaches_ok_def)
  then show ?thesis
    using commit_usage_ok [OF assms(1,2,4)] evaluate_breaches_ok [OF e(1) _ evl] by simp
qed

section \<open>A reached ceiling fires\<close>

text \<open>The levels of a Run of a tree end in its process owner.\<close>

lemma chain_levels_owner:
  "text_ok s \<Longrightarrow> tree_ok (record_at s) \<Longrightarrow> rooted (record_at s) x n R \<Longrightarrow> n < k \<Longrightarrow>
   chain_loop k s (Some x) = Inr cs \<Longrightarrow> chain_levels s cs = Inr ls \<Longrightarrow>
     process_level (rr_id R) (\<not> is_ended R) \<in> set ls \<and> (\<forall>l\<in>set ls. lv_acts l \<longrightarrow> l = process_level (rr_id R) True \<and> \<not> is_ended R)"
proof (induction n arbitrary: x k cs ls)
  case 0
  then have x: "record_at s x = Some R" "rr_parent R = None" "rr_owner R" by (simp_all add: rooted_def)
  obtain j where k: "k = Suc j" using 0 by (cases k) auto
  have "chain_loop j s None = Inr []" by (cases j) simp_all
  with 0 k x have "ls = [process_level (rr_id R) (\<not> is_ended R)]" by (auto simp: run_record_of_eq)
  then show ?case by (auto simp: process_level_def)
next
  case (Suc n)
  then obtain p where p: "par_of (record_at s) x = Some p" "rooted (record_at s) p n R"
    by (auto simp: rooted_def bind_eq_Some_conv)
  then obtain r where r: "record_at s x = Some r" "rr_parent r = Some p" by (auto simp: par_of_def bind_eq_Some_conv)
  have child: "\<not> rr_owner r"
  proof
    assume own: "rr_owner r"
    from tree_okD [OF Suc.prems(2) r(1)] obtain m S where m: "rooted (record_at s) x m S" "rr_owner r \<longrightarrow> m = 0"
      by metis
    with rooted_unique [OF Suc.prems(3) m(1)] own show False by simp
  qed
  obtain j where k: "k = Suc j" "n < j" using Suc.prems(4) by (cases k) auto
  obtain rest where rest: "chain_loop j s (Some p) = Inr rest" "cs = r # rest"
    using Suc.prems(1,5) k(1) r by (auto simp: run_record_of_eq)
  obtain l ls' where l: "child_level s r = Inr l" "chain_levels s rest = Inr ls'" "ls = l # ls'"
    using Suc.prems(6) child by (auto simp: rest(2))
  have "\<not> lv_acts l" using l(1) by (auto simp: child_level_def Let_def)
  with Suc.IH [OF Suc.prems(1,2) p(2) k(2) rest(1) l(2)] show ?case by (auto simp: l(3))
qed

lemma levels_for_owner:
  assumes ok: "db_ok s" "tree_ok (record_at s)" and run: "rooted (record_at s) (pi_run input) n R" "n < max_run_nesting"
    and go: "levels_for input at s = Inr (levels, t)"
  shows "t = s" and "process_level (rr_id R) (\<not> is_ended R) \<in> set levels"
    and "\<forall>l\<in>set levels. lv_acts l \<longrightarrow> l = process_level (rr_id R) True \<and> \<not> is_ended R"
proof -
  have tok: "text_ok s" using ok by (simp add: db_ok_def)
  obtain cs where cs: "run_chain s (pi_run input) = Inr cs" using go by (auto simp: levels_for_def)
  have "cs \<noteq> []" using run_chain_length [OF tok run] cs by auto
  then have go': "chain_levels s cs = Inr levels" "t = s" using go cs by (auto simp: levels_for_def)
  show "t = s" by (rule go'(2))
  have "n < 2 * max_run_nesting" using run(2) by simp
  from chain_levels_owner [OF tok ok(2) run(1) this cs [unfolded run_chain_def] go'(1)]
  show "process_level (rr_id R) (\<not> is_ended R) \<in> set levels"
    "\<forall>l\<in>set levels. lv_acts l \<longrightarrow> l = process_level (rr_id R) True \<and> \<not> is_ended R" by simp_all
qed

lemma fired_mem:
  assumes "level_inputs fault input s ls dg = Inr (gis, dg')" and "l \<in> set ls"
  shows "\<exists>gi a b. level_input fault input s l a = Inr (gi, b)
     \<and> (\<forall>d\<in>set (go_decisions (decide gi)). (l, d) \<in> set (fired (zip ls (map decide gis))))"
  using assms
proof (induction ls arbitrary: dg gis)
  case (Cons k ls)
  obtain gi d1 gis' where g: "level_input fault input s k dg = Inr (gi, d1)"
      "level_inputs fault input s ls d1 = Inr (gis', dg')" "gis = gi # gis'" using Cons.prems by auto
  show ?case
  proof (cases "l = k")
    case True
    then show ?thesis using g(1) by (intro exI conjI) (auto simp: g(3) fired_def)
  next
    case False
    with Cons.prems(2) Cons.IH [OF g(2)] obtain gi' a b where "level_input fault input s l a = Inr (gi', b)"
        "\<forall>d\<in>set (go_decisions (decide gi')). (l, d) \<in> set (fired (zip ls (map decide gis')))" by auto
    then show ?thesis by (intro exI conjI) (auto simp: g(3) fired_def)
  qed
qed simp

lemma owner_token_arm:
  assumes "level_input None input s (process_level rid acts) dg = Inr (gi, dg')" and "tb_per_run (pi_budget input) = Some limit"
  shows "\<exists>t. gi_token gi = Some t \<and> ta_run_total t = total_tokens (ru_totals (run_rollup s (pi_name input) rid))
     \<and> ta_budget t = pi_budget input \<and> ta_action t = pi_token_action input"
  using assms by (auto simp: level_input_def Let_def level_arms_def process_level_def read_or_zero_def token_budget_is_set_def)

text \<open>(C23) Enforcement is complete: whenever a supervised Run is evaluated and the tokens its process owner's
  rollup holds have reached the instance's per-run ceiling, the breach is committed with the ceiling and the
  observed total, unless that pair is already latched for the owner under the configured action; it acts on the
  process exactly when the owner is open, and a blocking action then raises the wire fence.\<close>

theorem reached_ceiling_fires:
  assumes "engine_ok en" and "pi_supervised input" and "record_at (en_db en) (pi_run input) = Some r"
    and "anc (parent_of (en_db en)) n (pi_run input) = Some (rr_id R)" and "record_at (en_db en) (rr_id R) = Some R" and "rr_owner R"
    and "tb_per_run (pi_budget input) = Some limit"
    and "limit \<le> total_tokens (ru_totals (run_rollup (en_db en) (pi_name input) (rr_id R)))"
    and "latch_text (rr_id R) (LatchKey Tokens PerRun) (pi_token_action input) \<notin> latch_texts (en_db en)"
    and "evaluate js None input at en = Inr (evn, raises, en')"
  shows "(\<exists>b\<in>set (ev_breaches evn).
      cb_event b = breach_event_new (pi_name input) (rr_id R) PerRun limit
        (total_tokens (ru_totals (run_rollup (en_db en) (pi_name input) (rr_id R)))) (pi_token_action input) (pi_source input) at
      \<and> cb_process b = (\<not> is_ended R))
    \<and> (pi_token_action input = ActBlock \<longrightarrow> pi_fenced input \<longrightarrow> \<not> is_ended R \<longrightarrow> LatchKey Tokens PerRun \<in> set raises)"
proof -
  have ok: "db_ok (en_db en)" "tree_ok (record_at (en_db en))" using assms(1) by (simp_all add: engine_ok_def)
  from tree_okD [OF ok(2) assms(5)] obtain m S where m: "rooted (record_at (en_db en)) (rr_id R) m S" "rr_owner R \<longrightarrow> m = 0"
    by metis
  then have "rr_parent R = None" using assms(5,6) by (auto simp: rooted_def)
  then have run: "rooted (record_at (en_db en)) (pi_run input) n R"
    using assms(4,5,6) by (simp add: rooted_def parent_of_par_of)
  from tree_okD [OF ok(2) assms(3)] obtain k T where k: "k < max_run_nesting" "rooted (record_at (en_db en)) (pi_run input) k T"
    by metis
  have n: "n < max_run_nesting" using rooted_unique [OF run k(2)] k(1) by simp
  obtain levels s gis dg where l: "levels_for input at (en_db en) = Inr (levels, s)"
      and gis: "level_inputs None input s (filter level_is_armed levels) [] = Inr (gis, dg)"
      and w: "let ps = fired (zip (filter level_is_armed levels) (map decide gis))
        in map breach_facts (ev_breaches evn) = map (fired_breach input at) ps
         \<and> raises = map (\<lambda>p. decision_key (snd p)) (filter (fired_raise input) ps)
         \<and> map breach_text (db_breaches (en_db en')) = map breach_text (db_breaches (en_db en)) @ map fired_text ps
         \<and> latch_texts (en_db en') = latch_texts (en_db en) \<union> set (map fired_text ps)
         \<and> ev_degraded evn = dg"
    using evaluate_fired [OF assms(1,10,2)] by blast
  let ?ps = "fired (zip (filter level_is_armed levels) (map decide gis))"
  let ?l = "process_level (rr_id R) (\<not> is_ended R)"
  let ?total = "total_tokens (ru_totals (run_rollup (en_db en) (pi_name input) (rr_id R)))"
  note own = levels_for_owner [OF ok run n l]
  have "?l \<in> set (filter level_is_armed levels)" using own(2) by (simp add: level_is_armed_def process_level_def)
  from fired_mem [OF gis this] obtain gi a b where gi: "level_input None input s ?l a = Inr (gi, b)"
      "\<forall>d\<in>set (go_decisions (decide gi)). (?l, d) \<in> set ?ps" by blast
  obtain t where t: "gi_token gi = Some t" "ta_run_total t = ?total" "ta_budget t = pi_budget input"
      "ta_action t = pi_token_action input"
    using owner_token_arm [OF gi(1) assms(7)] own(1) by auto
  have "LatchKey Tokens PerRun \<notin> set (gi_latched gi)"
    using assms(9) own(1) by (simp add: level_input_Inr(1) [OF gi(1)] level_action_def level_arms_def process_level_def)
  moreover have "budget_evaluate (ta_run_total t) (ta_cumulative_total t) (ta_budget t) (ta_action t)
      = Breached PerRun (pi_token_action input) limit ?total"
    using assms(7,8) by (simp add: budget_evaluate_def t)
  ultimately have "\<lparr>gd_dimension = Tokens, gd_scope = PerRun, gd_action = pi_token_action input, gd_limit = limit,
      gd_observed = ?total\<rparr> \<in> set (go_decisions (decide gi))" (is "?d \<in> _")
    by (simp add: decide_decisions dimension_decisions_def t(1))
  with gi(2) have p: "(?l, ?d) \<in> set ?ps" by blast
  then have "fired_breach input at (?l, ?d) \<in> set (map breach_facts (ev_breaches evn))"
    using w by (simp add: Let_def)
  then obtain b where b: "b \<in> set (ev_breaches evn)" "breach_facts b = fired_breach input at (?l, ?d)" by auto
  from b(2) have "cb_event b = breach_event_new (pi_name input) (rr_id R) PerRun limit ?total (pi_token_action input) (pi_source input) at
      \<and> cb_process b = (\<not> is_ended R)"
    by (simp add: breach_facts_def fired_breach_def process_level_def breach_event_of_def)
  moreover have "LatchKey Tokens PerRun \<in> set raises" if "pi_token_action input = ActBlock" "pi_fenced input" "\<not> is_ended R"
  proof -
    have "(?l, ?d) \<in> set (filter (fired_raise input) ?ps)" using p that by (simp add: fired_raise_def process_level_def)
    then have "decision_key ?d \<in> set raises" using w by (force simp: Let_def)
    then show ?thesis by (simp add: decision_key_def)
  qed
  ultimately show ?thesis using b(1) by blast
qed

section \<open>Who may raise the fence\<close>

lemma levels_for_acts:
  assumes ok: "db_ok s" "tree_ok (record_at s)" and go: "levels_for input at s = Inr (levels, t)"
    and l: "l \<in> set levels" "lv_acts l"
  shows "record_at s (lv_run l) = None \<or> (\<exists>R. record_at s (lv_run l) = Some R \<and> rr_owner R \<and> \<not> is_ended R)"
proof (cases "record_at s (pi_run input)")
  case None
  have tok: "text_ok s" using ok by (simp add: db_ok_def)
  have "run_chain s (pi_run input) = Inr []"
    using None by (simp add: run_chain_def max_run_nesting_def numeral_eq_Suc run_record_of_eq [OF tok])
  then have "levels = [process_level (pi_run input) True]" using go by (auto simp: levels_for_def)
  then show ?thesis using l None by (simp add: process_level_def)
next
  case (Some r)
  from tree_okD [OF ok(2) Some] obtain n R
    where n: "n < max_run_nesting" "rooted (record_at s) (pi_run input) n R" by metis
  have "l = process_level (rr_id R) True \<and> \<not> is_ended R" using levels_for_owner(3) [OF ok n(2,1) go] l by blast
  moreover have "record_at s (rr_id R) = Some R" "rr_owner R" using n(2) by (simp_all add: rooted_def)
  ultimately show ?thesis by (simp add: process_level_def)
qed

text \<open>Enforcement acts on nothing else: an evaluation hands the wire fence only reasons it committed as
  blocking breaches of the process itself - of an open process-owning Run, or of a Run id the store has no row
  for - and raising them on a fresh fence makes it refuse exactly by them, so a child Run's ceiling or an
  ended owner's never stops the process's calls.\<close>

theorem only_the_process_is_fenced:
  assumes "engine_ok en" and "evaluate js fault input at en = Inr (evn, raises, en')"
  shows "(\<forall>k\<in>set raises. \<exists>b\<in>set (ev_breaches evn). cb_process b \<and> gd_action (cb_decision b) = ActBlock
            \<and> decision_key (cb_decision b) = k)
    \<and> (\<forall>b\<in>set (ev_breaches evn). cb_process b \<longrightarrow> record_at (en_db en) (be_run (cb_event b)) = None
            \<or> (\<exists>R. record_at (en_db en) (be_run (cb_event b)) = Some R \<and> rr_owner R \<and> \<not> is_ended R))
    \<and> (raises \<noteq> [] \<longrightarrow> pi_fenced input)
    \<and> (\<exists>bits. fence_raise_all raises 0 = Some bits \<and> fence_current_refusal bits = fence_refusal raises)"
proof (cases "pi_supervised input")
  case False
  then have "evn = evaluation_default \<and> raises = []" using assms(2) by (auto simp: evaluate_def)
  then show ?thesis using fence_raise_all_refusal [of "[]"] by (auto simp: evaluation_default_def)
next
  case True
  have ok: "db_ok (en_db en)" "tree_ok (record_at (en_db en))" using assms(1) by (simp_all add: engine_ok_def)
  obtain levels s gis dg where l: "levels_for input at (en_db en) = Inr (levels, s)"
      and w: "let ps = fired (zip (filter level_is_armed levels) (map decide gis))
        in map breach_facts (ev_breaches evn) = map (fired_breach input at) ps
         \<and> raises = map (\<lambda>p. decision_key (snd p)) (filter (fired_raise input) ps)
         \<and> map breach_text (db_breaches (en_db en')) = map breach_text (db_breaches (en_db en)) @ map fired_text ps
         \<and> latch_texts (en_db en') = latch_texts (en_db en) \<union> set (map fired_text ps)
         \<and> ev_degraded evn = dg"
    using evaluate_fired [OF assms True] by blast
  let ?ps = "fired (zip (filter level_is_armed levels) (map decide gis))"
  have w: "set (map breach_facts (ev_breaches evn)) = fired_breach input at ` set ?ps"
      "raises = map (\<lambda>p. decision_key (snd p)) (filter (fired_raise input) ?ps)"
    using w by (simp_all add: Let_def del: set_map) (metis list.set_map)
  have breach: "\<exists>p\<in>set ?ps. breach_facts b = fired_breach input at p" if "b \<in> set (ev_breaches evn)" for b
    using that w(1) by (metis image_iff list.set_map)
  have conv: "\<exists>b\<in>set (ev_breaches evn). breach_facts b = fired_breach input at p" if "p \<in> set ?ps" for p
    using that w(1) by (metis image_iff list.set_map)
  have level: "fst p \<in> set levels" if "p \<in> set ?ps" for p
    using that by (auto simp: fired_def dest: set_zip_leftD)
  have "\<exists>b\<in>set (ev_breaches evn). cb_process b \<and> gd_action (cb_decision b) = ActBlock \<and> decision_key (cb_decision b) = k"
    if k: "k \<in> set raises" for k
  proof -
    obtain p where p: "p \<in> set ?ps" "fired_raise input p" "k = decision_key (snd p)"
      using k unfolding w(2) set_map set_filter by blast
    then obtain b where "b \<in> set (ev_breaches evn)" "breach_facts b = fired_breach input at p" using conv by blast
    then show ?thesis using p by (intro bexI [of _ b]) (auto simp: breach_facts_def fired_breach_def fired_raise_def)
  qed
  moreover have "record_at (en_db en) (be_run (cb_event b)) = None
            \<or> (\<exists>R. record_at (en_db en) (be_run (cb_event b)) = Some R \<and> rr_owner R \<and> \<not> is_ended R)"
    if b: "b \<in> set (ev_breaches evn)" "cb_process b" for b
  proof -
    obtain p where p: "p \<in> set ?ps" "breach_facts b = fired_breach input at p" using breach b(1) by blast
    then have "be_run (cb_event b) = lv_run (fst p)" "lv_acts (fst p)"
      using b(2) by (auto simp: breach_facts_def fired_breach_def breach_event_of_fields)
    then show ?thesis using levels_for_acts [OF ok l level [OF p(1)]] by simp
  qed
  moreover have "raises \<noteq> [] \<longrightarrow> pi_fenced input" using w(2) by (auto simp: fired_raise_def filter_empty_conv)
  ultimately show ?thesis using fence_raise_all_refusal [of raises] by blast
qed

end
