(* ===== verification/Pipeline_Total.thy ===== *)
theory Pipeline_Total
  imports Pipeline_Properties
begin

text \<open>
  A usage report of a registered instance is always committed: no ceiling, latch, ended Run or failed totals
  read makes the pipeline refuse it. Only a spent 63-bit row id or an encoder that fails could.
\<close>

section \<open>Room to write\<close>

definition encodes :: "encoders \<Rightarrow> bool" where
  "encodes js \<longleftrightarrow> (\<forall>u. jn_usage js u \<noteq> None) \<and> (\<forall>b. jn_breach_row js b \<noteq> None) \<and> (\<forall>b. jn_breach js b \<noteq> None)
     \<and> (\<forall>e. jn_run js e \<noteq> None)"

text \<open>Room for \<open>k\<close> more outbox and breach rows, and the instance the rows name.\<close>

definition ready :: "string \<Rightarrow> nat \<Rightarrow> db \<Rightarrow> bool" where
  "ready name k s \<longleftrightarrow> outbox_ok s \<and> db_outbox_seq s + int k < 2 ^ 63 \<and> db_breach_seq s + int k < 2 ^ 63
     \<and> (\<exists>i. require_instance_id name s = Inr i)"

lemma ready_mono: "ready name k s \<Longrightarrow> j \<le> k \<Longrightarrow> ready name j s"
  by (auto simp: ready_def)

lemma require_instance_cong:
  assumes "db_instances t = db_instances s"
  shows "require_instance_id name t = require_instance_id name s"
proof -
  have "instance_id t = instance_id s" by (rule ext) (simp add: instance_id_def assms)
  then show ?thesis unfolding require_instance_id_def by (simp only:)
qed

lemma append_json_total:
  assumes "json \<noteq> None" and "outbox_ok s" and "db_outbox_seq s + 1 < 2 ^ 63"
  shows "\<exists>app rows b. append_json json s
     = Inr (app, s\<lparr>db_outbox := rows, db_outbox_seq := db_outbox_seq s + 1, db_outbox_bytes := b\<rparr>)"
proof -
  obtain tx where tx: "json = Some tx" using assms(1) by auto
  obtain app t rows b where "append_outbox tx outbox_max_bytes s = Inr (app, t)"
      "t = s\<lparr>db_outbox := rows, db_outbox_seq := db_outbox_seq s + 1, db_outbox_bytes := b\<rparr>"
    using append_outbox_total [OF assms(2,3)] .
  then show ?thesis by (intro exI) (simp add: append_json_def tx)
qed

lemma latch_total:
  assumes "find_run s rid \<noteq> None"
  shows "\<exists>ls. latch rid key action at s = Inr (s\<lparr>db_latches := ls\<rparr>)"
proof (cases "latch_key_of (latch_row_of rid key action at) \<in> latch_key_of ` set (db_latches s)")
  case True
  then show ?thesis by (intro exI [of _ "db_latches s"]) (simp add: latch_def)
qed (use assms in \<open>auto simp: latch_def Let_def\<close>)

lemma commit_decision_total:
  assumes js: "encodes js" and r: "ready (pi_name input) (Suc k) (es_db st)" and run: "find_run (es_db st) (lv_run l) \<noteq> None"
  shows "\<exists>st'. commit_decision js input l at d st = Inr st' \<and> ready (pi_name input) k (es_db st')
     \<and> run_tables (es_db st') = run_tables (es_db st) \<and> es_changes st' = es_changes st"
proof -
  let ?s = "es_db st" and ?ev = "breach_event_of input (lv_run l) d at"
  obtain i where i: "require_instance_id (pi_name input) ?s = Inr i" using r by (auto simp: ready_def)
  obtain tx where tx: "jn_breach_row js ?ev = Some tx" using js unfolding encodes_def by blast
  let ?s1 = "?s\<lparr>db_breaches := db_breaches ?s @ [breach_row_of (db_breach_seq ?s + 1) i ?ev tx], db_breach_seq := db_breach_seq ?s + 1\<rparr>"
  have a: "append_breach (jn_breach_row js ?ev) ?ev ?s = Inr ?s1"
    using i r by (simp add: append_breach_def breach_event_of_fields tx ready_def breach_row_of_def)
  obtain ls where l: "latch (lv_run l) (LatchKey (gd_dimension d) (gd_scope d)) (gd_action d) (be_at ?ev) ?s1
      = Inr (?s1\<lparr>db_latches := ls\<rparr>)"
  proof -
    have "find_run ?s1 (lv_run l) \<noteq> None" using run by (simp add: find_run_def)
    from latch_total [OF this] that show ?thesis by blast
  qed
  let ?s2 = "?s1\<lparr>db_latches := ls\<rparr>"
  have out: "outbox_ok ?s2" "db_outbox_seq ?s2 + 1 < 2 ^ 63"
    using r outbox_part_ok [of ?s2 ?s] by (simp_all add: ready_def outbox_part_def)
  obtain app rows b where o: "append_json (jn_breach js ?ev) ?s2
      = Inr (app, ?s2\<lparr>db_outbox := rows, db_outbox_seq := db_outbox_seq ?s2 + 1, db_outbox_bytes := b\<rparr>)"
    using append_json_total [OF _ out] js by (metis encodes_def)
  let ?s3 = "?s2\<lparr>db_outbox := rows, db_outbox_seq := db_outbox_seq ?s2 + 1, db_outbox_bytes := b\<rparr>"
  have "outbox_ok ?s3" using append_json_frame [OF o out(1)] by simp
  moreover have "require_instance_id (pi_name input) ?s3 = Inr i"
    using i require_instance_cong [of ?s3 ?s] by simp
  ultimately have "ready (pi_name input) k ?s3" using r by (simp add: ready_def)
  moreover have "run_tables ?s3 = run_tables ?s" by (simp add: run_tables_def)
  ultimately show ?thesis
    unfolding commit_decision_def Let_def a l rbind_simps o by simp
qed

lemma commit_decisions_total:
  "encodes js \<Longrightarrow> ready (pi_name input) (length ds + k) (es_db st) \<Longrightarrow> find_run (es_db st) (lv_run l) \<noteq> None \<Longrightarrow>
     \<exists>st'. rfold (commit_decision js input l at) ds st = Inr st' \<and> ready (pi_name input) k (es_db st')
       \<and> run_tables (es_db st') = run_tables (es_db st) \<and> es_changes st' = es_changes st"
proof (induction ds arbitrary: st)
  case (Cons d ds)
  obtain u where u: "commit_decision js input l at d st = Inr u" "ready (pi_name input) (length ds + k) (es_db u)"
      "run_tables (es_db u) = run_tables (es_db st)" "es_changes u = es_changes st"
    using commit_decision_total [OF Cons.prems(1) _ Cons.prems(3), where k = "length ds + k" and input = input and d = d and at = at] Cons.prems(2) by auto
  have "find_run (es_db u) (lv_run l) \<noteq> None"
    using Cons.prems(3) u(3) by (simp add: run_tables_def find_run_def)
  from Cons.IH [OF Cons.prems(1) u(2) this] u show ?case by auto
qed simp

lemma mark_breach_total:
  assumes ok: "db_ok s"
  shows "\<exists>ch t. mark_breach rid at s = Inr (ch, t)"
proof (cases "record_at s rid")
  case None
  then show ?thesis by (simp add: mark_breach_def run_record_of_eq db_ok_text [OF ok])
next
  case (Some r)
  have "record_at s (rr_id r) = Some r" using Some record_at_id [OF Some] by simp
  then have "\<exists>res st. move_to r (rr_status r) (rr_anomalies r @ [Breach]) None at (no_changes, s) = Inr (res, st)"
    by (rule move_to_total [OF ok]) (simp add: is_ended_def)
  then obtain res st
    where "move_to r (rr_status r) (rr_anomalies r @ [Breach]) None at (no_changes, s) = Inr (res, st)" by blast
  then show ?thesis using Some by (cases st) (auto simp: mark_breach_def run_record_of_eq db_ok_text [OF ok])
qed

lemma move_to_rows:
  "move_to r to as cause at st = Inr (res, st') \<Longrightarrow>
     (\<exists>rows. snd st' = (snd st)\<lparr>db_runs := rows\<rparr>) \<and> length (ch_events (fst st')) \<le> length (ch_events (fst st)) + 1"
proof -
  assume go: "move_to r to as cause at st = Inr (res, st')"
  show ?thesis
  proof (cases "rr_status r = to \<and> rr_anomalies r = sort_dedup as")
    case True
    then have "st' = st" using go by (simp add: move_to_def)
    then show ?thesis by (auto intro: exI [of _ "db_runs (snd st)"])
  next
    case False
    then obtain x u kind prior where "save_run x (snd st) = Inr u" "note_change x kind prior cause (fst st, u) = Inr st'"
      using go unfolding move_to_def Let_def by (auto simp: if_not_P [OF False])
    then show ?thesis
      by (auto simp: save_run_Inr note_change_def Let_def rbind_eq_Inr)
  qed
qed

lemma mark_breach_rows:
  assumes go: "mark_breach rid at s = Inr (ch, t)"
  shows "(\<exists>rows. t = s\<lparr>db_runs := rows\<rparr>) \<and> length (ch_events ch) \<le> 1"
proof -
  have "ch = no_changes \<and> t = s
      \<or> (\<exists>r res. move_to r (rr_status r) (rr_anomalies r @ [Breach]) None at (no_changes, s) = Inr (res, (ch, t)))"
    using go by (auto simp: mark_breach_def split: option.splits if_splits)
  then show ?thesis
  proof
    assume "ch = no_changes \<and> t = s"
    then show ?thesis by (auto simp: no_changes_def intro: exI [of _ "db_runs s"])
  next
    assume "\<exists>r res. move_to r (rr_status r) (rr_anomalies r @ [Breach]) None at (no_changes, s) = Inr (res, (ch, t))"
    then show ?thesis using move_to_rows by (fastforce simp: no_changes_def)
  qed
qed

section \<open>The levels are committed\<close>

text \<open>Every level's Run has a row; a level writes at most three outbox rows.\<close>

definition level_ready :: "encoders \<Rightarrow> string \<Rightarrow> nat \<Rightarrow> level list \<Rightarrow> eval_state \<Rightarrow> bool" where
  "level_ready js name k ls st \<longleftrightarrow> encodes js \<and> db_ok (es_db st) \<and> ready name k (es_db st)
     \<and> (\<forall>l\<in>set ls. record_at (es_db st) (lv_run l) \<noteq> None)"

lemma commit_level_total:
  assumes r: "level_ready js (pi_name input) (length (go_decisions outcome) + k) (l # ls) st"
  shows "\<exists>st'. commit_level js input at (l, outcome) st = Inr st' \<and> level_ready js (pi_name input) k ls st'
     \<and> length (ch_events (es_changes st')) \<le> length (ch_events (es_changes st)) + 1"
proof -
  have js: "encodes js" and ok: "db_ok (es_db st)" using r by (simp_all add: level_ready_def)
  have "find_run (es_db st) (lv_run l) \<noteq> None" using r by (auto simp: level_ready_def record_at_def)
  then obtain mid where mid: "rfold (commit_decision js input l at) (go_decisions outcome) st = Inr mid"
      "ready (pi_name input) k (es_db mid)" "run_tables (es_db mid) = run_tables (es_db st)" "es_changes mid = es_changes st"
    using commit_decisions_total [OF js, of input "go_decisions outcome" k st l at] r by (auto simp: level_ready_def)
  have okm: "db_ok (es_db mid)" using ok run_tables_cong(3) [OF mid(3)] by simp
  have recm: "record_at (es_db mid) = record_at (es_db st)" by (rule run_tables_cong(2) [OF mid(3)])
  show ?thesis
  proof (cases "\<exists>b\<in>set (es_breaches mid). be_run (cb_event b) = lv_run l")
    case False
    then show ?thesis
      using mid r okm by (simp add: commit_level_def level_ready_def recm)
  next
    case True
    obtain ch t where m: "mark_breach (lv_run l) at (es_db mid) = Inr (ch, t)" using mark_breach_total [OF okm] by blast
    obtain rows where t: "t = (es_db mid)\<lparr>db_runs := rows\<rparr>" "length (ch_events ch) \<le> 1" using mark_breach_rows [OF m] by blast
    have okt: "db_ok t" using grows_db_ok [OF mark_breach_spec(1) [OF okm m]] okm by simp
    have rec: "record_at t x \<noteq> None" if "record_at (es_db st) x \<noteq> None" for x
      using mark_breach_spec(2) [OF okm m] that by (auto simp: recm split: option.splits if_splits)
    have "ready (pi_name input) k t"
      using mid(2) outbox_part_ok [OF mark_breach_outbox [OF m]] require_instance_cong [of t "es_db mid" "pi_name input"]
      by (simp add: ready_def t(1))
    then have "level_ready js (pi_name input) k ls (mid\<lparr>es_changes := changes_extend (es_changes mid) ch, es_db := t\<rparr>)"
      using js okt rec r by (auto simp: level_ready_def)
    then show ?thesis
      using mid(1,4) m True t(2) by (simp add: commit_level_def changes_extend_def)
  qed
qed

lemma commit_levels_total:
  "level_ready js (pi_name input) (2 * length los + k) (map fst los) st \<Longrightarrow>
   (\<forall>(l, out)\<in>set los. length (go_decisions out) \<le> 2) \<Longrightarrow>
     \<exists>st'. rfold (commit_level js input at) los st = Inr st' \<and> ready (pi_name input) k (es_db st')
       \<and> length (ch_events (es_changes st')) \<le> length (ch_events (es_changes st)) + length los"
proof (induction los arbitrary: st)
  case Nil
  then show ?case by (simp add: level_ready_def)
next
  case (Cons lo los)
  obtain l out where lo: "lo = (l, out)" by (cases lo)
  have "level_ready js (pi_name input) (length (go_decisions out) + (2 * length los + k)) (l # map fst los) st"
    using Cons.prems ready_mono [of "pi_name input" "2 * length (lo # los) + k" "es_db st"
        "length (go_decisions out) + (2 * length los + k)"]
    by (simp add: level_ready_def lo)
  from commit_level_total [OF this] obtain u where u: "commit_level js input at (l, out) st = Inr u"
      "level_ready js (pi_name input) (2 * length los + k) (map fst los) u"
      "length (ch_events (es_changes u)) \<le> length (ch_events (es_changes st)) + 1" by blast
  from Cons.IH [OF u(2)] Cons.prems(2) u(1,3) show ?case by (fastforce simp: lo)
qed

section \<open>The whole commit\<close>

text \<open>Every latch row is one the pipeline wrote.\<close>

definition latches_ok :: "db \<Rightarrow> bool" where
  "latches_ok s \<longleftrightarrow> (\<forall>l\<in>set (db_latches s). \<exists>k a. latch_key_of l = latch_text (la_run l) k a)"

lemma latches_total: "latches_ok s \<Longrightarrow> \<exists>ls. latches s rid = Inr ls"
  unfolding latches_def by (rule rmap_total) (auto simp: latches_ok_def read_latch_iff [symmetric])

lemma level_input_total: "latches_ok s \<Longrightarrow> \<exists>gi dg'. level_input fault input s l dg = Inr (gi, dg')"
  using latches_total [of s "lv_run l"] by (auto simp: level_input_def Let_def split: prod.split)

lemma level_inputs_total: "latches_ok s \<Longrightarrow> \<exists>gis dg'. level_inputs fault input s ls dg = Inr (gis, dg')"
proof (induction ls arbitrary: dg)
  case (Cons l ls)
  obtain gi d1 where g: "level_input fault input s l dg = Inr (gi, d1)" using level_input_total [OF Cons.prems] by metis
  obtain gis d2 where "level_inputs fault input s ls d1 = Inr (gis, d2)" using Cons by metis
  with g show ?case by simp
qed simp

lemma chain_loop_len: "chain_loop k s x = Inr cs \<Longrightarrow> length cs \<le> k"
proof (induction k arbitrary: x cs)
  case (Suc k)
  then show ?case by (cases x) (auto split: option.splits)
qed simp

lemma chain_levels_total: "text_ok s \<Longrightarrow> \<exists>ls. chain_levels s cs = Inr ls \<and> length ls \<le> length cs"
proof (induction cs)
  case (Cons r cs)
  then obtain ls where "chain_levels s cs = Inr ls" "length ls \<le> length cs" by auto
  then show ?case using run_limits_of_eq [OF Cons.prems] by (auto simp: child_level_def Let_def)
qed simp

lemma levels_for_total:
  assumes ok: "engine_ok en"
  shows "\<exists>levels s. levels_for input at (en_db en) = Inr (levels, s) \<and> length levels \<le> 16 \<and> db_latches s = db_latches (en_db en)
     \<and> outbox_part s = outbox_part (en_db en) \<and> db_breach_seq s = db_breach_seq (en_db en) \<and> db_instances s = db_instances (en_db en)
     \<and> (\<forall>l\<in>set levels. record_at s (lv_run l) \<noteq> None)"
proof -
  have dok: "db_ok (en_db en)" "tree_ok (record_at (en_db en))" and tok: "text_ok (en_db en)"
    using ok by (simp_all add: engine_ok_def db_ok_def)
  obtain cs where cs: "run_chain (en_db en) (pi_run input) = Inr cs" using chain_loop_total [OF tok] unfolding run_chain_def by blast
  show ?thesis
  proof (cases "cs = []")
    case True
    obtain s where s: "ensure_run_row (pi_run input) (pi_name input) at (en_db en) = Inr s"
      by (cases "find_run (en_db en) (pi_run input) = None") (simp_all add: ensure_run_row_def)
    have "record_at s (pi_run input) \<noteq> None"
      using ensure_run_row_step [OF dok(1) s] by (auto simp: record_at_entry)
    moreover have "db_latches s = db_latches (en_db en)" "outbox_part s = outbox_part (en_db en)"
      "db_breach_seq s = db_breach_seq (en_db en)" "db_instances s = db_instances (en_db en)"
      using s by (auto simp: ensure_run_row_def outbox_part_def split: if_splits)
    ultimately show ?thesis using cs True s by (auto simp: levels_for_def process_level_def)
  next
    case False
    obtain ls where ls: "chain_levels (en_db en) cs = Inr ls" "length ls \<le> length cs" using chain_levels_total [OF tok] by blast
    have len: "length cs \<le> 16"
      using chain_loop_len [OF cs [unfolded run_chain_def]] by (simp add: max_run_nesting_def)
    have "record_at (en_db en) (pi_run input) \<noteq> None"
    proof
      assume "record_at (en_db en) (pi_run input) = None"
      then have "run_chain (en_db en) (pi_run input) = Inr []"
        by (simp add: run_chain_def max_run_nesting_def numeral_eq_Suc run_record_of_eq [OF tok])
      then show False using cs False by simp
    qed
    then obtain r where "record_at (en_db en) (pi_run input) = Some r" by auto
    from tree_okD [OF dok(2) this] obtain n R where "rooted (record_at (en_db en)) (pi_run input) n R" by metis
    note ids = chain_loop_ids [OF tok this cs [unfolded run_chain_def]]
    obtain k where "map lv_run ls = take k (map rr_id cs)" using chain_levels_runs [OF ls(1)] ..
    then have "lv_run ` set ls \<subseteq> rr_id ` set cs" by (metis list.set_map set_take_subset)
    moreover have "record_at (en_db en) x \<noteq> None" if "x \<in> rr_id ` set cs" for x using ids that by auto
    ultimately have "\<forall>l\<in>set ls. record_at (en_db en) (lv_run l) \<noteq> None" by blast
    then show ?thesis using cs False ls len by (auto simp: levels_for_def)
  qed
qed

lemma decisions_le2: "length (go_decisions (decide gi)) \<le> 2"
  using dimension_decisions_le1 [of gi Tokens] dimension_decisions_le1 [of gi Dollars] by (simp add: decide_decisions)

lemma evaluate_total:
  assumes ok: "engine_ok en" and js: "encodes js" and r: "ready (pi_name input) 64 (en_db en)" and latch: "latches_ok (en_db en)"
  shows "\<exists>evn raises en'. evaluate js fault input at en = Inr (evn, raises, en')"
proof (cases "pi_supervised input")
  case False
  then show ?thesis by (simp add: evaluate_def)
next
  case True
  obtain levels s where l: "levels_for input at (en_db en) = Inr (levels, s)" "length levels \<le> 16" "db_latches s = db_latches (en_db en)"
      "outbox_part s = outbox_part (en_db en)" "db_breach_seq s = db_breach_seq (en_db en)" "db_instances s = db_instances (en_db en)"
      "\<forall>l\<in>set levels. record_at s (lv_run l) \<noteq> None"
    using levels_for_total [OF ok] by blast
  let ?ls = "filter level_is_armed levels"
  have ls: "latches_ok s" using latch by (simp add: latches_ok_def l(3))
  obtain gis dg where gis: "level_inputs fault input s ?ls [] = Inr (gis, dg)" using level_inputs_total [OF ls] by metis
  let ?los = "zip ?ls (map decide gis)"
  have len: "length ?los \<le> 16" using l(2) 
    using length_filter_le [of level_is_armed levels] by (simp del: length_filter_le)
  have rs: "ready (pi_name input) 64 s"
    using r outbox_part_ok [OF l(4)] require_instance_cong [OF l(6)] l(4,5) by (simp add: ready_def outbox_part_def)
  have "level_ready js (pi_name input) (2 * length ?los + 16) (map fst ?los) (eval_start s)"
    using js levels_for_ok(1) [OF ok l(1)] ready_mono [OF rs, of "2 * length ?los + 16"] len l(7)
    by (auto simp: level_ready_def eval_start_def engine_ok_def dest: set_zip_leftD)
  moreover have "\<forall>(l, out)\<in>set ?los. length (go_decisions out) \<le> 2"
    by (auto dest!: set_zip_rightD simp: decisions_le2)
  ultimately obtain st where st: "rfold (commit_level js input at) ?los (eval_start s) = Inr st" "ready (pi_name input) 16 (es_db st)"
      "length (ch_events (es_changes st)) \<le> length ?los"
    using commit_levels_total [of js input ?los 16 "eval_start s" at] by (auto simp: eval_start_def no_changes_def)
  have room: "outbox_ok (en_db (en\<lparr>en_db := es_db st\<rparr>))"
      "db_outbox_seq (en_db (en\<lparr>en_db := es_db st\<rparr>)) + int (length (ch_events (es_changes st))) < 2 ^ 63"
  proof -
    have "length (ch_events (es_changes st)) \<le> 16" using st(3) len by (rule order_trans)
    then show "outbox_ok (en_db (en\<lparr>en_db := es_db st\<rparr>))"
      "db_outbox_seq (en_db (en\<lparr>en_db := es_db st\<rparr>)) + int (length (ch_events (es_changes st))) < 2 ^ 63"
      using st(2) by (simp_all add: ready_def)
  qed
  have enc: "jn_run js e \<noteq> None" for e using js unfolding encodes_def by blast
  obtain c en' where "commit_changes (jn_run js) (es_changes st) (en\<lparr>en_db := es_db st\<rparr>) = Inr (c, en')"
    using commit_changes_total [OF room, of "jn_run js"] enc by metis
  with True l(1) gis st(1) show ?thesis
    by (simp add: evaluate_def Let_def decide_chain_def eval_start_def)
qed

section \<open>The ledger through an evaluation\<close>

definition same_place :: "run_row \<Rightarrow> run_row \<Rightarrow> bool" where
  "same_place a b \<longleftrightarrow> rw_id a = rw_id b \<and> rw_parent a = rw_parent b \<and> rw_instance a = rw_instance b"

lemma up_chain_same:
  assumes "\<And>x. rel_option same_place (find_run s x) (find_run t x)"
  shows "map (\<lambda>r. (rw_instance r, rw_id r)) (up_chain n t p) = map (\<lambda>r. (rw_instance r, rw_id r)) (up_chain n s p)"
proof (induction n arbitrary: p)
  case (Suc n)
  show ?case
  proof (cases p)
    case (Some x)
    show ?thesis
    proof (cases "find_run s x")
      case None
      then show ?thesis using assms [of x] Some by (simp add: option_rel_Some1)
    next
      case (Some a)
      then obtain b where "find_run t x = Some b" "same_place a b" using assms [of x] by (auto simp: option_rel_Some1)
      then show ?thesis using Suc.IH [of "rw_parent a"] Some \<open>p = Some x\<close> by (simp add: same_place_def)
    qed
  qed simp
qed simp

lemma ancestors_same:
  assumes "\<And>x. rel_option same_place (find_run s x) (find_run t x)"
  shows "ancestors_for_fold t = ancestors_for_fold s"
proof
  fix x
  have "Option.bind (find_run t x) rw_parent = Option.bind (find_run s x) rw_parent"
    using assms [of x] by (cases "find_run s x") (auto simp: option_rel_Some1 same_place_def)
  then show "ancestors_for_fold t x = ancestors_for_fold s x"
    by (simp add: ancestors_for_fold_def up_chain_same [OF assms])
qed

lemma ledger_ok_same:
  assumes "ledger_ok s" and "meter_part t = meter_part s" and "ancestors_for_fold t = ancestors_for_fold s"
  shows "ledger_ok t"
proof -
  have "target_sum t = target_sum s" by (intro ext) (simp only: target_sum_def row_targets_def assms(3))
  then show ?thesis
    using assms(1,2) by (simp add: ledger_ok_def meter_part_def read_instance_rollup_def read_run_rollup_def folded_rows_def)
qed

lemma mark_breach_ancestors:
  assumes "mark_breach rid at s = Inr (ch, t)"
  shows "ancestors_for_fold t = ancestors_for_fold s"
proof -
  have "t = s \<or> (\<exists>r. save_run r s = Inr t)"
    using assms by (auto simp: mark_breach_def move_to_def Let_def dest!: note_change_outbox split: option.splits if_splits)
  then show ?thesis
  proof
    assume "\<exists>r. save_run r s = Inr t"
    then obtain r where "t = s\<lparr>db_runs := map (\<lambda>x. if rw_id x = rr_id r then saved_row r x else x) (db_runs s)\<rparr>"
      by (auto simp: save_run_Inr)
    then have "find_run t x = map_option (\<lambda>y. if rw_id y = rr_id r then saved_row r y else y) (find_run s x)" for x
      by (simp add: find_run_def find_map comp_def saved_row_def if_distrib cong: if_cong)
    then have "rel_option same_place (find_run s x) (find_run t x)" for x
      by (cases "find_run s x") (auto simp: same_place_def saved_row_def)
    then show ?thesis by (rule ancestors_same)
  qed simp
qed

lemma ensure_run_row_ancestors:
  assumes ok: "db_ok s" and go: "ensure_run_row rid name at s = Inr t"
  shows "ancestors_for_fold t = ancestors_for_fold s"
proof (cases "find_run s rid = None")
  case False
  then show ?thesis using go by (simp add: ensure_run_row_def)
next
  case True
  then obtain row where t: "t = s\<lparr>db_runs := db_runs s @ [row]\<rparr>" "rw_id row = rid" "rw_parent row = None"
    using go by (auto simp: ensure_run_row_def)
  have find: "find_run t x = (if x = rid then Some row else find_run s x)" for x
    using True by (auto simp: find_run_def t find_append split: option.split)
  have par: "rw_parent r \<noteq> Some rid" if "find_run s x = Some r" for x r
  proof
    assume "rw_parent r = Some rid"
    moreover have "r \<in> set (db_runs s)" using find_run_Some [OF that] by simp
    ultimately have "rid \<in> rw_id ` set (db_runs s)" using ok by (auto simp: db_ok_def run_keys_ok_def)
    then show False using True by (simp add: find_run_None)
  qed
  have "up_chain n t p = up_chain n s p" if "p \<noteq> Some rid" for n p
    using that
  proof (induction n arbitrary: p)
    case (Suc n)
    show ?case
    proof (cases p)
      case (Some x)
      then have x: "find_run t x = find_run s x" using Suc.prems by (auto simp: find)
      show ?thesis
      proof (cases "find_run s x")
        case (Some r)
        from Suc.IH [OF par [OF this]] show ?thesis using x Some \<open>p = Some x\<close> by simp
      qed (use x Some in simp)
    qed simp
  qed simp
  moreover have "Option.bind (find_run t x) rw_parent = Option.bind (find_run s x) rw_parent"
    "Option.bind (find_run s x) rw_parent \<noteq> Some rid" for x
    using True t(3) par [of x] by (auto simp: find bind_eq_Some_conv)
  ultimately show ?thesis by (intro ext) (simp add: ancestors_for_fold_def)
qed

lemma commit_decision_ledger:
  assumes "outbox_ok (es_db st) \<and> ledger_ok (es_db st)" and go: "commit_decision js input l at d st = Inr st'"
  shows "outbox_ok (es_db st') \<and> ledger_ok (es_db st')"
proof -
  let ?ev = "breach_event_of input (lv_run l) d at"
  obtain s1 s2 app s3 where s: "append_breach (jn_breach_row js ?ev) ?ev (es_db st) = Inr s1"
      "latch (lv_run l) (LatchKey (gd_dimension d) (gd_scope d)) (gd_action d) (be_at ?ev) s1 = Inr s2"
      "append_json (jn_breach js ?ev) s2 = Inr (app, s3)" "es_db st' = s3"
    using go unfolding commit_decision_Inr by auto
  have out: "outbox_ok s2"
    using append_breach_frame [OF s(1)] latch_frame [OF s(2)] outbox_part_ok [of s2 "es_db st"] assms(1) by simp
  note f = append_breach_frame [OF s(1)] latch_frame [OF s(2)] append_json_frame [OF s(3) out]
  have "ancestors_for_fold s3 = ancestors_for_fold (es_db st)"
    using f by (intro ancestors_cong) (simp add: run_tables_def)
  moreover have "meter_part s3 = meter_part (es_db st)" using f by simp
  ultimately have "ledger_ok s3" by (intro ledger_ok_same [OF conjunct2 [OF assms(1)]])
  then show ?thesis using f s(4) by simp
qed

lemma commit_level_ledger:
  assumes st: "outbox_ok (es_db st) \<and> ledger_ok (es_db st)" and go: "commit_level js input at lo st = Inr st'"
  shows "outbox_ok (es_db st') \<and> ledger_ok (es_db st')"
proof -
  obtain l outcome where lo: "lo = (l, outcome)" by (cases lo)
  obtain mid where mid: "rfold (commit_decision js input l at) (go_decisions outcome) st = Inr mid"
    and st': "if \<exists>b\<in>set (es_breaches mid). be_run (cb_event b) = lv_run l
     then \<exists>ch s. mark_breach (lv_run l) at (es_db mid) = Inr (ch, s)
            \<and> st' = mid\<lparr>es_changes := changes_extend (es_changes mid) ch, es_db := s\<rparr>
     else st' = mid" using commit_level_Inr [OF go [unfolded lo]] by blast
  have m: "outbox_ok (es_db mid) \<and> ledger_ok (es_db mid)"
    using mid st by (rule rfold_invariant) (rule commit_decision_ledger)
  show ?thesis
  proof (cases "\<exists>b\<in>set (es_breaches mid). be_run (cb_event b) = lv_run l")
    case True
    obtain ch u where u: "mark_breach (lv_run l) at (es_db mid) = Inr (ch, u)"
        "st' = mid\<lparr>es_changes := changes_extend (es_changes mid) ch, es_db := u\<rparr>"
      using st' unfolding if_P [OF True] by blast
    have "meter_part u = meter_part (es_db mid)" using mark_breach_meter [OF u(1)] by simp
    then have "ledger_ok u"
      by (intro ledger_ok_same [OF conjunct2 [OF m]] mark_breach_ancestors [OF u(1)])
    moreover have "outbox_ok u" using outbox_part_ok [OF mark_breach_outbox [OF u(1)]] m by blast
    ultimately show ?thesis by (simp add: u(2))
  qed (use st' m in simp)
qed

lemma evaluate_ledger:
  assumes ok: "engine_ok en" and ledger: "ledger_ok (en_db en)" and go: "evaluate js fault input at en = Inr (evn, raises, en')"
  shows "ledger_ok (en_db en')"
proof (cases "pi_supervised input")
  case False
  then show ?thesis using go ledger by (auto simp: evaluate_def)
next
  case True
  have dok: "db_ok (en_db en)" using ok by (simp add: engine_ok_def)
  have start: "ledger_ok s" if l: "levels_for input at (en_db en) = Inr (levels, s)" for levels s
  proof -
    have "ancestors_for_fold s = ancestors_for_fold (en_db en)"
      using l ensure_run_row_ancestors [OF dok] by (auto simp: levels_for_def split: if_splits)
    then show ?thesis using ledger levels_for_ok(2) [OF ok l] ledger_ok_same by blast
  qed
  show ?thesis
  proof (rule evaluate_Inr [OF go True])
    fix levels s
    assume "levels_for input at (en_db en) = Inr (levels, s)" "en' = en\<lparr>en_db := s\<rparr>"
    then show ?thesis using start by simp
  next
    fix levels s gis dg st c
    assume l: "levels_for input at (en_db en) = Inr (levels, s)"
      and loop: "rfold (commit_level js input at) (zip (filter level_is_armed levels) (map decide gis)) (eval_start s) = Inr st"
      and commit: "commit_changes (jn_run js) (es_changes st) (en\<lparr>en_db := es_db st\<rparr>) = Inr (c, en')"
    have "outbox_ok s" using levels_for_ok(1) [OF ok l] by (simp add: engine_ok_def)
    then have "outbox_ok (es_db (eval_start s)) \<and> ledger_ok (es_db (eval_start s))" using start [OF l] by (simp add: eval_start_def)
    with loop have fin: "outbox_ok (es_db st) \<and> ledger_ok (es_db st)"
      by (rule rfold_invariant) (rule commit_level_ledger)
    then have out: "outbox_ok (en_db (en\<lparr>en_db := es_db st\<rparr>))" by simp
    have "run_tables (en_db en') = run_tables (es_db st)" using commit_changes_spec(2) [OF commit out] by simp
    then have "ancestors_for_fold (en_db en') = ancestors_for_fold (es_db st)"
      by (intro ancestors_cong) (simp add: run_tables_def)
    moreover have "meter_part (en_db en') = meter_part (es_db st)" using commit_changes_breaches(2) [OF commit out] by simp
    ultimately show ?thesis using fin ledger_ok_same by blast
  qed
qed

lemma insert_usage_breach_seq:
  assumes "ledger_ok s" and "insert_usage ev rate g s = Inr (Inserted, t)"
  shows "db_breach_seq t = db_breach_seq s"
proof -
  obtain i where t: "t = fold_rows True (s\<lparr>db_usage := db_usage s @ [usage_row_of (db_usage_seq s + 1) i ev rate g],
                              db_usage_seq := db_usage_seq s + 1\<rparr>)"
    using insert_usage_Inserted [OF assms(2)] by blast
  show ?thesis using fold_rows_spec [OF ledger_ok_append [OF assms(1), of i ev rate g], folded t]
    by (elim exE conjE) simp
qed

lemma commit_usage_total:
  assumes "engine_ok en" and "ledger_ok (en_db en)" and "latches_ok (en_db en)" and "encodes js"
    and "ready (ue_instance ev) 65 (en_db en)" and "db_usage_seq (en_db en) + 1 < 2 ^ 63" and "pi_name input = ue_instance ev"
  shows "\<exists>update evn raises en' iid. commit_usage js fault ev generation input at en = Inr (update, evn, raises, en')
     \<and> ledger_ok (en_db en') \<and> require_instance_id (ue_instance ev) (en_db en) = Inr iid
     \<and> (update = None \<longleftrightarrow> (\<exists>v\<in>set (db_usage (en_db en)).
           same_dedup_key (usage_row_of (db_usage_seq (en_db en) + 1) iid ev (pi_rate input) generation) v))"
proof -
  obtain iid where iid: "require_instance_id (ue_instance ev) (en_db en) = Inr iid" using assms(5) by (auto simp: ready_def)
  let ?dup = "\<exists>v\<in>set (db_usage (en_db en)). same_dedup_key (usage_row_of (db_usage_seq (en_db en) + 1) iid ev (pi_rate input) generation) v"
  show ?thesis
  proof (cases ?dup)
    case True
    then have "insert_usage ev (pi_rate input) generation (en_db en) = Inr (DuplicateReplay, en_db en)"
      using iid assms(6) by (simp add: insert_usage_def Let_def)
    then show ?thesis using True iid assms(2) by (simp add: commit_usage_def)
  next
    case False
    then obtain s where ins: "insert_usage ev (pi_rate input) generation (en_db en) = Inr (Inserted, s)"
      using iid assms(6) by (simp add: insert_usage_def Let_def)
    note spec = insert_usage_spec(2,3) [OF assms(2) ins] insert_usage_breaches [OF assms(2) ins]
    have bs: "db_breach_seq s = db_breach_seq (en_db en)" by (rule insert_usage_breach_seq [OF assms(2) ins])
    have out: "outbox_ok s" "db_outbox_seq s + 1 < 2 ^ 63"
      using assms(5) spec(2) outbox_part_ok [OF spec(2)] by (simp_all add: ready_def outbox_part_def)
    have "jn_usage js ev \<noteq> None" using assms(4) unfolding encodes_def by blast
    then obtain app rows b where app: "append_json (jn_usage js ev) s
        = Inr (app, s\<lparr>db_outbox := rows, db_outbox_seq := db_outbox_seq s + 1, db_outbox_bytes := b\<rparr>)" (is "_ = Inr (app, ?u)")
      using append_json_total [OF _ out] by blast
    note e = usage_row_committed [OF assms(1,2) ins app]
    have "require_instance_id (ue_instance ev) ?u = Inr iid"
      using iid require_instance_cong [of ?u "en_db en" "ue_instance ev"] spec(1) by (simp add: run_tables_def)
    then have r: "ready (pi_name input) 64 (en_db (en\<lparr>en_db := ?u\<rparr>))"
      using assms(5,7) spec(2) e(1) bs by (simp add: ready_def outbox_part_def engine_ok_def)
    have l: "latches_ok (en_db (en\<lparr>en_db := ?u\<rparr>))" using assms(3) e(2) by (simp add: latches_ok_def breach_part_def)
    obtain evn raises en' where evl: "evaluate js fault input at (en\<lparr>en_db := ?u\<rparr>) = Inr (evn, raises, en')"
      using evaluate_total [OF e(1) assms(4) r l] by blast
    have "ledger_ok (en_db en')" by (rule evaluate_ledger [OF e(1) _ evl]) (simp add: e(3) del: db.simps)
    then show ?thesis using False iid by (simp add: commit_usage_def ins app evl)
  qed
qed

text \<open>(C24) A usage report of a registered instance is always committed, whatever its ceilings, latches and
  Run states and even when every totals read fails: with encoders that work and row ids left to hand out the
  job returns, the ledger's rollups are again what a scan sums, and the report is refused as a replay exactly
  when a row with its deduplication key was there.\<close>

theorem usage_is_always_committed:
  assumes "engine_ok en" and "ledger_ok (en_db en)" and "latches_ok (en_db en)" and "encodes js"
    and "ready (ue_instance ev) 65 (en_db en)" and "db_usage_seq (en_db en) + 1 < 2 ^ 63" and "pi_name input = ue_instance ev"
  shows "\<exists>update evn raises en' iid. commit_usage js fault ev generation input at en = Inr (update, evn, raises, en')
     \<and> ledger_ok (en_db en') \<and> require_instance_id (ue_instance ev) (en_db en) = Inr iid
     \<and> (update = None \<longleftrightarrow> (\<exists>v\<in>set (db_usage (en_db en)).
           same_dedup_key (usage_row_of (db_usage_seq (en_db en) + 1) iid ev (pi_rate input) generation) v))"
  by (rule commit_usage_total [OF assms])

section \<open>The demonstration\<close>

definition demo_encoders :: encoders where
  "demo_encoders = \<lparr>jn_usage = \<lambda>_. Some ''{}'', jn_breach_row = \<lambda>_. Some ''{}'', jn_breach = \<lambda>_. Some ''{}'',
     jn_run = demo_encoder\<rparr>"

text \<open>A per-run ceiling of no tokens at all, blocking.\<close>

definition demo_level_input :: eval_input where
  "demo_level_input = \<lparr>pi_name = ''a'', pi_run = ''r2'', pi_source = ''self-reported'',
     pi_budget = \<lparr>tb_per_run = Some 0, tb_cumulative = None\<rparr>, pi_token_action = ActBlock, pi_rate = None,
     pi_cap = cost_cap_none, pi_cost_action = ActWarn, pi_supervised = True, pi_fenced = True\<rparr>"

lemma demo_metering:
  obtains en where "engine_ok en" and "ledger_ok (en_db en)" and "latches_ok (en_db en)" and "breaches_ok (en_db en)"
    and "ready ''a'' 65 (en_db en)" and "db_usage_seq (en_db en) = 0" and "latch_texts (en_db en) = {}"
    and "record_at (en_db en) ''r1'' = Some demo_owner" and "record_at (en_db en) ''r2'' = Some demo_child"
proof -
  obtain en rows n b where en: "reachable demo_encoder en" "en_db en = no_outbox demo_db2 rows n b" "n < 60"
    by (rule demo_reachable2_seq)
  have ok: "engine_ok en" by (rule reachable_ok [OF en(1)])
  have ledger: "ledger_ok (en_db en)"
    by (simp add: en(2) ledger_ok_def no_outbox_def demo_defs read_instance_rollup_def read_run_rollup_def folded_rows_def
      sat_row_zero)
  have none: "db_latches (en_db en) = []" "db_breaches (en_db en) = []" "db_breach_seq (en_db en) = 0" "db_usage_seq (en_db en) = 0"
    by (simp_all add: en(2) no_outbox_def demo_defs)
  have "require_instance_id ''a'' (en_db en) = Inr 1"
    by (simp add: en(2) require_instance_id_def demo_name instance_id_def no_outbox_def demo_defs)
  then have "ready ''a'' 65 (en_db en)" using ok en(2,3) none(3) by (simp add: ready_def engine_ok_def)
  then show thesis
    using ok ledger none demo_entries [of rows n b, folded en(2)]
    by (intro that) (simp_all add: latches_ok_def breaches_ok_def latch_texts_def)
qed

lemma demo_encodes: "encodes demo_encoders"
  by (simp add: encodes_def demo_encoders_def demo_encoder_def)

lemma usage_is_always_committed_witness:
  "\<exists>en update evn raises en'. commit_usage demo_encoders (Some (NotFound ''io'')) demo_usage 0 demo_level_input ''t4'' en
       = Inr (update, evn, raises, en') \<and> ledger_ok (en_db en')"
proof -
  obtain en where en: "engine_ok en" "ledger_ok (en_db en)" "latches_ok (en_db en)" "ready ''a'' 65 (en_db en)" "db_usage_seq (en_db en) = 0"
    by (rule demo_metering)
  have "ready (ue_instance demo_usage) 65 (en_db en)" "db_usage_seq (en_db en) + 1 < 2 ^ 63" "pi_name demo_level_input = ue_instance demo_usage"
    using en(4,5) by (simp_all add: demo_usage_def demo_level_input_def)
  from usage_is_always_committed [OF en(1,2,3) demo_encodes this, of "Some (NotFound ''io'')" 0 "''t4''"] show ?thesis by blast
qed

lemma no_ceiling_breaches_twice_witness:
  "\<exists>en update evn raises en'. commit_usage demo_encoders None demo_usage 0 demo_level_input ''t4'' en = Inr (update, evn, raises, en')
     \<and> breaches_ok (en_db en')"
proof -
  obtain en where en: "engine_ok en" "ledger_ok (en_db en)" "latches_ok (en_db en)" "breaches_ok (en_db en)" "ready ''a'' 65 (en_db en)"
      "db_usage_seq (en_db en) = 0"
    by (rule demo_metering)
  have "ready (ue_instance demo_usage) 65 (en_db en)" "db_usage_seq (en_db en) + 1 < 2 ^ 63" "pi_name demo_level_input = ue_instance demo_usage"
    using en(5,6) by (simp_all add: demo_usage_def demo_level_input_def)
  from commit_usage_total [OF en(1,2,3) demo_encodes this, of None 0 "''t4''"] obtain update evn raises en'
    where go: "commit_usage demo_encoders None demo_usage 0 demo_level_input ''t4'' en = Inr (update, evn, raises, en')" by blast
  with no_ceiling_breaches_twice [OF en(1,2,4) go] show ?thesis by blast
qed

text \<open>The child's report fires its owner's ceiling and raises the fence.\<close>

lemma demo_evaluates:
  obtains en evn raises en' where "engine_ok en" and "record_at (en_db en) ''r1'' = Some demo_owner"
    and "record_at (en_db en) ''r2'' = Some demo_child" and "latch_texts (en_db en) = {}"
    and "evaluate demo_encoders None demo_level_input ''t4'' en = Inr (evn, raises, en')"
proof -
  obtain en where en: "engine_ok en" "latches_ok (en_db en)" "ready ''a'' 65 (en_db en)" "latch_texts (en_db en) = {}"
      "record_at (en_db en) ''r1'' = Some demo_owner" "record_at (en_db en) ''r2'' = Some demo_child"
    by (rule demo_metering)
  have "ready (pi_name demo_level_input) 64 (en_db en)" using ready_mono [OF en(3), of 64] by (simp add: demo_level_input_def)
  from evaluate_total [OF en(1) demo_encodes this en(2)] that [OF en(1,5,6,4)] show thesis by metis
qed

lemma reached_ceiling_fires_witness:
  "\<exists>en evn raises en'. evaluate demo_encoders None demo_level_input ''t4'' en = Inr (evn, raises, en')
     \<and> LatchKey Tokens PerRun \<in> set raises"
proof -
  obtain en evn raises en' where en: "engine_ok en" "record_at (en_db en) ''r1'' = Some demo_owner"
      "record_at (en_db en) ''r2'' = Some demo_child" "latch_texts (en_db en) = {}"
      "evaluate demo_encoders None demo_level_input ''t4'' en = Inr (evn, raises, en')" by (rule demo_evaluates)
  have run: "record_at (en_db en) (pi_run demo_level_input) = Some demo_child"
    "anc (parent_of (en_db en)) 1 (pi_run demo_level_input) = Some (rr_id demo_owner)"
    "record_at (en_db en) (rr_id demo_owner) = Some demo_owner" "rr_owner demo_owner" "\<not> is_ended demo_owner"
    using en(2,3) by (simp_all add: demo_level_input_def parent_of_def demo_child_def demo_owner_def child_record_def
        fresh_record_def demo_launch_def is_ended_def)
  have "pi_supervised demo_level_input" "tb_per_run (pi_budget demo_level_input) = Some 0" "pi_token_action demo_level_input = ActBlock"
    "pi_fenced demo_level_input" by (simp_all add: demo_level_input_def)
  with reached_ceiling_fires [OF en(1) this(1) run(1-4) this(2) _ _ en(5)] en(4,5) run(5) show ?thesis by auto
qed

lemma only_the_process_is_fenced_witness:
  "\<exists>en evn raises en'. evaluate demo_encoders None demo_level_input ''t4'' en = Inr (evn, raises, en')
     \<and> (\<exists>bits. fence_raise_all raises 0 = Some bits \<and> fence_current_refusal bits = fence_refusal raises)"
proof -
  obtain en evn raises en' where en: "engine_ok en" "evaluate demo_encoders None demo_level_input ''t4'' en = Inr (evn, raises, en')"
    by (rule demo_evaluates)
  from only_the_process_is_fenced [OF en] en(2) show ?thesis by blast
qed

end
