(* ===== verification/Spawn_Records.thy ===== *)
theory Spawn_Records
  imports Restart Database
begin

text \<open>
  The write-ahead spawn records: the \<open>agent_runtime\<close> operations of \<open>store/sqlite.rs\<close> and the decoding of
  a row into a \<open>SpawnRecord\<close>. A u32 is stored as itself, a u64 is stored bit-cast to the signed column
  (\<open>as i64\<close>) and read back clamped at zero. The planner of theory Restart works on the decoded records;
  the last section shows that these operations implement the ones it uses.
\<close>

definition single_quoted :: "string \<Rightarrow> string" where
  "single_quoted x = [CHR 0x27] @ x @ [CHR 0x27]"

definition arrow :: string where "arrow = [CHR 0xE2, CHR 0x86, CHR 0x92]"

section \<open>Reading\<close>

definition runtime_at :: "db \<Rightarrow> int \<Rightarrow> runtime_row option" where
  "runtime_at s i = find (\<lambda>r. rt_instance r = i) (db_runtime s)"

text \<open>The pair columns of an owner or a lease: a missing, zero or negative half reads as none.\<close>

definition read_identity :: "int option \<Rightarrow> int option \<Rightarrow> fingerprint option" where
  "read_identity pid start =
     (case (pid, start) of
        (Some p, Some t) \<Rightarrow> if p > 0 \<and> t > 0 then Some (word_of_int p, word_of_int t) else None
      | _ \<Rightarrow> None)"

definition row_to_spawn_record :: "string \<Rightarrow> runtime_row \<Rightarrow> store_error + spawn_record" where
  "row_to_spawn_record name row =
     (case policy_from_wire (rt_policy row) of
        None \<Rightarrow> Inl (CorruptRow name (''unknown restart policy '' @ single_quoted (rt_policy row)))
      | Some policy \<Rightarrow> Inr
          \<lparr>sr_pid = word_of_int (max (rt_pid row) 0), sr_start_time = word_of_int (max (rt_start row) 0),
           sr_policy = policy, sr_count = word_of_int (max (rt_count row) 0), sr_cause = rt_cause row,
           sr_detach = (rt_detached row \<noteq> 0), sr_acp_session = rt_session row,
           sr_run_id = (case rt_run row of Some [] \<Rightarrow> None | r \<Rightarrow> r),
           sr_owner = read_identity (rt_owner_pid row) (rt_owner_start row),
           sr_lease = read_identity (rt_lease_pid row) (rt_lease_start row)\<rparr>)"

definition get_spawn_record_db :: "string \<Rightarrow> db \<Rightarrow> store_error + spawn_record option" where
  "get_spawn_record_db name s =
     (case instance_id s name of
        None \<Rightarrow> Inr None
      | Some i \<Rightarrow>
          (case runtime_at s i of
             None \<Rightarrow> Inr None
           | Some row \<Rightarrow> rbind (row_to_spawn_record name row) (\<lambda>r. Inr (Some r))))"

definition list_spawn_records :: "db \<Rightarrow> store_error + (string \<times> spawn_record) list" where
  "list_spawn_records s =
     rmap (\<lambda>(n, row). rbind (case instance_name_new n of
                Inl e \<Rightarrow> Inl (CorruptRow n (''invalid stored name: '' @ name_error_rule e))
              | Inr name \<Rightarrow> Inr name) (\<lambda>name.
            rbind (row_to_spawn_record name row) (\<lambda>r. Inr (name, r))))
       (sort_key fst (concat (map (\<lambda>row. case joined_name s (Some (rt_instance row)) of
                                           None \<Rightarrow> [] | Some n \<Rightarrow> [(n, row)]) (db_runtime s))))"

section \<open>Writing\<close>

text \<open>\<open>as i64\<close>\<close>

definition pid_i64 :: "u32 \<Rightarrow> int" where "pid_i64 p = uint p"
definition bits_i64 :: "u64 \<Rightarrow> int" where "bits_i64 t = sint t"

definition runtime_row_of :: "int \<Rightarrow> spawn_record \<Rightarrow> runtime_row" where
  "runtime_row_of i r =
     \<lparr>rt_instance = i, rt_pid = pid_i64 (sr_pid r), rt_start = bits_i64 (sr_start_time r),
      rt_policy = policy_as_str (sr_policy r), rt_count = uint (sr_count r), rt_cause = sr_cause r,
      rt_detached = of_bool (sr_detach r), rt_session = sr_acp_session r, rt_run = sr_run_id r,
      rt_owner_pid = map_option (pid_i64 \<circ> fst) (sr_owner r),
      rt_owner_start = map_option (bits_i64 \<circ> snd) (sr_owner r),
      rt_lease_pid = map_option (pid_i64 \<circ> fst) (sr_lease r),
      rt_lease_start = map_option (bits_i64 \<circ> snd) (sr_lease r)\<rparr>"

text \<open>\<open>INSERT ... ON CONFLICT(instance_id) DO UPDATE\<close>: \<open>conflict\<close> is what the update makes of the row there.\<close>

definition upsert_runtime :: "runtime_row \<Rightarrow> (runtime_row \<Rightarrow> runtime_row) \<Rightarrow> db \<Rightarrow> db" where
  "upsert_runtime row conflict s =
     (if \<exists>x\<in>set (db_runtime s). rt_instance x = rt_instance row
      then s\<lparr>db_runtime := map (\<lambda>x. if rt_instance x = rt_instance row then conflict x else x) (db_runtime s)\<rparr>
      else s\<lparr>db_runtime := db_runtime s @ [row]\<rparr>)"

definition upsert_spawn_record :: "string \<Rightarrow> spawn_record \<Rightarrow> db \<Rightarrow> store_error + db" where
  "upsert_spawn_record name r s =
     (case instance_id s name of
        None \<Rightarrow> Inl (NotFound name)
      | Some i \<Rightarrow> Inr (upsert_runtime (runtime_row_of i r) (\<lambda>_. runtime_row_of i r) s))"

text \<open>\<open>UPDATE agent_runtime SET ... WHERE instance_id = ?\<close> with a guard; the number of rows changed.\<close>

definition update_runtime :: "int \<Rightarrow> (runtime_row \<Rightarrow> bool) \<Rightarrow> (runtime_row \<Rightarrow> runtime_row) \<Rightarrow> db \<Rightarrow> nat \<times> db" where
  "update_runtime i guard f s =
     (length (filter (\<lambda>x. rt_instance x = i \<and> guard x) (db_runtime s)),
      s\<lparr>db_runtime := map (\<lambda>x. if rt_instance x = i \<and> guard x then f x else x) (db_runtime s)\<rparr>)"

definition set_acp_session_id :: "string \<Rightarrow> string option \<Rightarrow> db \<Rightarrow> store_error + db" where
  "set_acp_session_id name session s =
     (case instance_id s name of
        None \<Rightarrow> Inl (NotFound name)
      | Some i \<Rightarrow>
          (let (rows, t) = update_runtime i (\<lambda>_. True) (\<lambda>x. x\<lparr>rt_session := session\<rparr>) s
           in if rows = 0 then Inl (NotFound name) else Inr t))"

definition set_spawn_run_id :: "string \<Rightarrow> string \<Rightarrow> fingerprint \<Rightarrow> db \<Rightarrow> store_error + db" where
  "set_spawn_run_id name rid fp s =
     (case instance_id s name of
        None \<Rightarrow> Inl (NotFound name)
      | Some i \<Rightarrow>
          (let (rows, t) = update_runtime i (\<lambda>x. rt_pid x = pid_i64 (fst fp) \<and> rt_start x = bits_i64 (snd fp))
                             (\<lambda>x. x\<lparr>rt_run := Some rid\<rparr>) s
           in if rows = 0 then
                (if runtime_at s i \<noteq> None
                 then Inl (Backend (Text (''the spawn record for '' @ single_quoted name
                         @ '' changed while its Run id was being persisted (a concurrent stop'' @ arrow
                         @ ''start won the race) '' @ em_dash @ '' the fresh record's own Run id stands; ''
                         @ ''the stale mint was not written'')))
                 else Inl (NotFound name))
              else Inr t))"

text \<open>The compare-and-set of the adoption lease: \<open>IS\<close> compares a missing value as equal to a missing one.\<close>

definition try_acquire_adoption_lease ::
  "string \<Rightarrow> fingerprint option \<Rightarrow> fingerprint \<Rightarrow> db \<Rightarrow> store_error + (bool \<times> db)" where
  "try_acquire_adoption_lease name expected holder s =
     (case instance_id s name of
        None \<Rightarrow> Inr (False, s)
      | Some i \<Rightarrow>
          (let (rows, t) = update_runtime i
                 (\<lambda>x. rt_lease_pid x = map_option (pid_i64 \<circ> fst) expected
                      \<and> rt_lease_start x = map_option (bits_i64 \<circ> snd) expected)
                 (\<lambda>x. x\<lparr>rt_lease_pid := Some (pid_i64 (fst holder)), rt_lease_start := Some (bits_i64 (snd holder))\<rparr>) s
           in Inr (rows = 1, t)))"

definition clear_spawn_record :: "string \<Rightarrow> db \<Rightarrow> store_error + db" where
  "clear_spawn_record name s =
     (case instance_id s name of
        None \<Rightarrow> Inr s
      | Some i \<Rightarrow> Inr (s\<lparr>db_runtime := filter (\<lambda>x. rt_instance x \<noteq> i) (db_runtime s)\<rparr>))"

definition seed_row :: "int \<Rightarrow> restart_policy \<Rightarrow> int \<Rightarrow> string option \<Rightarrow> runtime_row" where
  "seed_row i policy count session =
     \<lparr>rt_instance = i, rt_pid = 0, rt_start = 0, rt_policy = policy_as_str policy, rt_count = count,
      rt_cause = None, rt_detached = 0, rt_session = session, rt_run = None, rt_owner_pid = None,
      rt_owner_start = None, rt_lease_pid = None, rt_lease_start = None\<rparr>"

definition settle_spawn_record_db :: "string \<Rightarrow> db \<Rightarrow> store_error + (bool \<times> db)" where
  "settle_spawn_record_db name s =
     rbind (get_spawn_record_db name s) (\<lambda>found.
       case found of
         None \<Rightarrow> Inr (False, s)
       | Some r \<Rightarrow>
           (case instance_id s name of
              None \<Rightarrow> Inl (NotFound name)
            | Some i \<Rightarrow>
                (let t = s\<lparr>db_runtime := filter (\<lambda>x. rt_instance x \<noteq> i) (db_runtime s)\<rparr>
                 in case sr_acp_session r of
                      Some session \<Rightarrow>
                        Inr (True, t\<lparr>db_runtime := db_runtime t @
                                   [seed_row i (sr_policy r) (uint (sr_count r)) (Some session)]\<rparr>)
                    | None \<Rightarrow> Inr (False, t))))"

definition set_restart_count_db :: "string \<Rightarrow> u32 \<Rightarrow> string option \<Rightarrow> db \<Rightarrow> store_error + db" where
  "set_restart_count_db name count cause s =
     (case instance_id s name of
        None \<Rightarrow> Inr s
      | Some i \<Rightarrow> Inr (snd (update_runtime i (\<lambda>_. True) (\<lambda>x. x\<lparr>rt_count := uint count, rt_cause := cause\<rparr>) s)))"

definition set_restart_policy_db :: "string \<Rightarrow> restart_policy \<Rightarrow> db \<Rightarrow> store_error + db" where
  "set_restart_policy_db name policy s =
     (case instance_id s name of
        None \<Rightarrow> Inl (NotFound name)
      | Some i \<Rightarrow> Inr (upsert_runtime (seed_row i policy 0 None) (\<lambda>x. x\<lparr>rt_policy := policy_as_str policy\<rparr>) s))"

section \<open>Well-formed rows\<close>

definition runtime_ok :: "db \<Rightarrow> bool" where
  "runtime_ok s \<longleftrightarrow> instances_ok s \<and> distinct (map rt_instance (db_runtime s))
     \<and> (\<forall>x\<in>set (db_runtime s). rt_instance x \<in> in_id ` set (db_instances s)
          \<and> policy_from_wire (rt_policy x) \<noteq> None)"

definition spawn_of :: "runtime_row \<Rightarrow> spawn_record" where
  "spawn_of row =
     \<lparr>sr_pid = word_of_int (max (rt_pid row) 0), sr_start_time = word_of_int (max (rt_start row) 0),
      sr_policy = the (policy_from_wire (rt_policy row)), sr_count = word_of_int (max (rt_count row) 0),
      sr_cause = rt_cause row, sr_detach = (rt_detached row \<noteq> 0), sr_acp_session = rt_session row,
      sr_run_id = (case rt_run row of Some [] \<Rightarrow> None | r \<Rightarrow> r),
      sr_owner = read_identity (rt_owner_pid row) (rt_owner_start row),
      sr_lease = read_identity (rt_lease_pid row) (rt_lease_start row)\<rparr>"

lemma row_to_spawn_record_ok:
  "policy_from_wire (rt_policy row) \<noteq> None \<Longrightarrow> row_to_spawn_record n row = Inr (spawn_of row)"
  by (auto simp: row_to_spawn_record_def spawn_of_def)

lemma runtime_at_Some: "runtime_at s i = Some x \<Longrightarrow> x \<in> set (db_runtime s) \<and> rt_instance x = i"
  by (auto simp: runtime_at_def dest: find_Some_in)

lemma runtime_at_None: "runtime_at s i = None \<longleftrightarrow> i \<notin> rt_instance ` set (db_runtime s)"
  by (auto simp: runtime_at_def find_None_all)

lemma runtime_at_in: "runtime_ok s \<Longrightarrow> x \<in> set (db_runtime s) \<Longrightarrow> runtime_at s (rt_instance x) = Some x"
  by (simp add: runtime_at_def runtime_ok_def find_distinct_key)

lemma get_spawn_record_eq:
  "runtime_ok s \<Longrightarrow> get_spawn_record_db n s
     = Inr (Option.bind (instance_id s n) (\<lambda>i. map_option spawn_of (runtime_at s i)))"
  by (auto simp: get_spawn_record_db_def runtime_ok_def row_to_spawn_record_ok dest!: runtime_at_Some
      split: option.splits)

lemma instance_id_inj:
  assumes "instances_ok s" and "instance_id s n = Some i" and "instance_id s m = Some i"
  shows "n = m"
  using assms instance_id_Some_name [OF assms(1), of n i] instance_id_Some_name [OF assms(1), of m i] by simp

section \<open>What each statement does to the rows\<close>

lemma find_map_update:
  assumes "distinct (map k xs)" and "\<And>x. k (f x) = k x"
  shows "find (\<lambda>x. k x = j) (map (\<lambda>x. if k x = i \<and> g x then f x else x) xs)
    = map_option (\<lambda>x. if j = i \<and> g x then f x else x) (find (\<lambda>x. k x = j) xs)"
  using assms by (induction xs) auto

lemma update_runtime_at:
  assumes "runtime_ok s" and "\<And>x. rt_instance (f x) = rt_instance x"
  shows "runtime_at (snd (update_runtime i g f s)) j
    = map_option (\<lambda>x. if j = i \<and> g x then f x else x) (runtime_at s j)"
  using assms find_map_update [of rt_instance "db_runtime s" f j i g]
  by (simp add: update_runtime_def runtime_at_def runtime_ok_def)

lemma update_runtime_rows:
  assumes "runtime_ok s"
  shows "fst (update_runtime i g f s) = (case runtime_at s i of Some x \<Rightarrow> of_bool (g x) | None \<Rightarrow> 0)"
proof -
  have "length (filter (\<lambda>x. k x = i \<and> g x) xs) = (case find (\<lambda>x. k x = i) xs of Some x \<Rightarrow> of_bool (g x) | None \<Rightarrow> 0)"
    if "distinct (map k xs)" for xs :: "runtime_row list" and k
    using that
  proof (induction xs)
    case (Cons a xs)
    have "filter (\<lambda>x. k x = k a \<and> g x) xs = []" "find (\<lambda>x. k x = k a) xs = None"
      using Cons.prems by (simp_all add: filter_empty_conv find_None_all) (metis image_eqI)+
    then show ?case using Cons by auto
  qed simp
  from this [of rt_instance "db_runtime s"] show ?thesis
    using assms by (simp add: update_runtime_def runtime_at_def runtime_ok_def)
qed

lemma upsert_runtime_at:
  assumes "runtime_ok s" and "\<And>x. rt_instance x = rt_instance row \<Longrightarrow> rt_instance (f x) = rt_instance row"
  shows "runtime_at (upsert_runtime row f s) j
    = (if j = rt_instance row then Some (case runtime_at s j of Some x \<Rightarrow> f x | None \<Rightarrow> row) else runtime_at s j)"
proof -
  have "find (\<lambda>x. rt_instance x = j) (map (\<lambda>x. if rt_instance x = rt_instance row then f x else x) xs)
    = map_option (\<lambda>x. if j = rt_instance row then f x else x) (find (\<lambda>x. rt_instance x = j) xs)"
    if "distinct (map rt_instance xs)" for xs :: "runtime_row list"
    using that assms(2) by (induction xs) auto
  note map_rows = this
  have "(\<exists>x\<in>set (db_runtime s). rt_instance x = rt_instance row) \<longleftrightarrow> runtime_at s (rt_instance row) \<noteq> None"
    by (metis image_iff runtime_at_None)
  then show ?thesis
    using assms(1) map_rows [of "db_runtime s"]
    by (auto simp: upsert_runtime_def runtime_at_def runtime_ok_def find_append option.map_ident split: option.split)
qed

lemma clear_runtime_at:
  "runtime_at (s\<lparr>db_runtime := filter (\<lambda>x. rt_instance x \<noteq> i) (db_runtime s)\<rparr>) j
     = (if j = i then None else runtime_at s j)"
proof -
  have "find (\<lambda>x. rt_instance x = j) (filter (\<lambda>x. rt_instance x \<noteq> i) xs)
      = (if j = i then None else find (\<lambda>x. rt_instance x = j) xs)" for xs :: "runtime_row list"
    by (induction xs) auto
  then show ?thesis by (simp add: runtime_at_def)
qed

lemma runtime_ok_cong:
  assumes "runtime_ok s" and "db_instances t = db_instances s" and "distinct (map rt_instance (db_runtime t))"
    and "\<And>j x. runtime_at t j = Some x \<Longrightarrow> j \<in> in_id ` set (db_instances s) \<and> policy_from_wire (rt_policy x) \<noteq> None"
  shows "runtime_ok t"
proof -
  have "runtime_at t (rt_instance x) = Some x" if "x \<in> set (db_runtime t)" for x
    using that assms(3) by (simp add: runtime_at_def find_distinct_key)
  then show ?thesis using assms by (auto simp: runtime_ok_def instances_ok_def)
qed

lemma policy_from_wire_as_str [simp]: "policy_from_wire (policy_as_str p) = Some p"
  by (rule policy_wire_roundtrip)

lemma word_of_uint_max [simp]: "word_of_int (max (uint w) 0) = w"
  by (simp add: max_def)

section \<open>Round trip\<close>

text \<open>What a record reads back as: a start-time token past the signed column reads as zero, an owner or
  a lease with a zero pid or an unrepresentable token as none, an empty Run id as none.\<close>

definition stored_time :: "u64 \<Rightarrow> u64" where
  "stored_time t = (if uint t < 2 ^ 63 then t else 0)"

definition stored_identity :: "fingerprint option \<Rightarrow> fingerprint option" where
  "stored_identity f = (case f of
     Some (p, t) \<Rightarrow> if p = 0 \<or> stored_time t = 0 then None else Some (p, t) | None \<Rightarrow> None)"

definition stored_record :: "spawn_record \<Rightarrow> spawn_record" where
  "stored_record r = r\<lparr>sr_start_time := stored_time (sr_start_time r),
     sr_run_id := (case sr_run_id r of Some [] \<Rightarrow> None | x \<Rightarrow> x),
     sr_owner := stored_identity (sr_owner r), sr_lease := stored_identity (sr_lease r)\<rparr>"

lemma bits_i64_eq: "bits_i64 t = (if uint t < 2 ^ 63 then uint t else uint t - 2 ^ 64)"
proof -
  have lt: "0 \<le> uint t" "uint t < 2 ^ 64" using uint_bounded [of t] by simp_all
  have "bit (uint t) 63 \<longleftrightarrow> \<not> uint t < 2 ^ 63"
  proof (cases "uint t < 2 ^ 63")
    case False
    then have "uint t div 2 ^ 63 = 1" using lt by (intro div_pos_geq [THEN trans]) auto
    then show ?thesis using False by (simp add: bit_iff_odd)
  qed (simp add: bit_iff_odd lt(1))
  moreover have "take_bit 64 (uint t) = uint t" using lt by (simp add: take_bit_int_eq_self)
  ultimately show ?thesis
    by (simp add: bits_i64_def sint_uint signed_take_bit_eq_take_bit_minus)
qed

lemma bits_i64_inj: "bits_i64 a = bits_i64 b \<longleftrightarrow> a = b"
  unfolding bits_i64_def by (metis signed_word_eqI)

lemma pid_i64_inj: "pid_i64 a = pid_i64 b \<longleftrightarrow> a = b"
  unfolding pid_i64_def by (metis unsigned_word_eqI)

lemma read_stored_time: "word_of_int (max (bits_i64 t) 0) = stored_time t"
  using uint_bounded [of t] by (auto simp: bits_i64_eq stored_time_def max_def uint_0_iff)

lemma bits_i64_pos: "0 < bits_i64 t \<longleftrightarrow> stored_time t \<noteq> 0"
proof -
  have "0 < uint t \<longleftrightarrow> t \<noteq> 0" using uint_bounded [of t] by (simp add: less_le unsigned_eq_0_iff)
  then show ?thesis using uint_bounded [of t] by (auto simp: bits_i64_eq stored_time_def)
qed

lemma read_stored_identity:
  "read_identity (map_option (pid_i64 \<circ> fst) f) (map_option (bits_i64 \<circ> snd) f) = stored_identity f"
proof (cases f)
  case (Some pt)
  obtain p t where pt: "pt = (p, t)" by (cases pt)
  have "0 < pid_i64 p \<longleftrightarrow> p \<noteq> 0" using uint_bounded [of p] by (simp add: pid_i64_def less_le unsigned_eq_0_iff)
  moreover have "word_of_int (bits_i64 t) = t" by (simp add: bits_i64_def)
  ultimately show ?thesis
    by (simp add: Some pt read_identity_def stored_identity_def bits_i64_pos pid_i64_def)
qed (simp add: read_identity_def stored_identity_def)

lemma spawn_of_runtime_row_of: "spawn_of (runtime_row_of i r) = stored_record r"
  by (simp add: spawn_of_def runtime_row_of_def stored_record_def read_stored_time read_stored_identity
      pid_i64_def)

lemma upsert_spawn_record_at:
  assumes "runtime_ok s" and "upsert_spawn_record n r s = Inr t"
  obtains i where "instance_id s n = Some i" "db_instances t = db_instances s"
    "\<And>j. runtime_at t j = (if j = i then Some (runtime_row_of i r) else runtime_at s j)" "runtime_ok t"
proof -
  obtain i where i: "instance_id s n = Some i" and t: "t = upsert_runtime (runtime_row_of i r) (\<lambda>_. runtime_row_of i r) s"
    using assms(2) by (auto simp: upsert_spawn_record_def split: option.splits)
  have row: "rt_instance (runtime_row_of i r) = i" by (simp add: runtime_row_of_def)
  have at: "runtime_at t j = (if j = i then Some (runtime_row_of i r) else runtime_at s j)" for j
    using upsert_runtime_at [OF assms(1), of "runtime_row_of i r" "\<lambda>_. runtime_row_of i r" j]
    by (auto simp: t row split: option.splits)
  have inst: "db_instances t = db_instances s" by (simp add: t upsert_runtime_def)
  have keys: "distinct (map rt_instance (db_runtime t))"
    using assms(1) by (auto simp: t upsert_runtime_def runtime_ok_def row comp_def if_distrib [of rt_instance] cong: if_cong)
  have "i \<in> in_id ` set (db_instances s)"
    using i by (auto simp: instance_id_def dest!: find_Some_in)
  then have "j \<in> in_id ` set (db_instances s) \<and> policy_from_wire (rt_policy x) \<noteq> None"
    if "runtime_at t j = Some x" for j x
    using that runtime_at_Some [of s j x] assms(1)
    by (cases "j = i") (auto simp: at runtime_row_of_def runtime_ok_def)
  then have "runtime_ok t" by (rule runtime_ok_cong [OF assms(1) inst keys])
  with i inst at show ?thesis by (rule that)
qed

text \<open>(C34) A spawn record survives its round trip through the store: what the engine reads back after the
  write is the record it wrote, normalised only where a token does not fit the signed column or an owner,
  a lease or a Run id is empty, and exactly the record otherwise; and no other instance's record changes.\<close>

theorem spawn_record_roundtrip:
  assumes "runtime_ok s" and "upsert_spawn_record n r s = Inr t"
  shows "get_spawn_record_db n t = Inr (Some (stored_record r))
     \<and> (uint (sr_start_time r) < 2 ^ 63 \<longrightarrow> sr_run_id r \<noteq> Some [] \<longrightarrow>
        (\<forall>f. f \<in> {sr_owner r, sr_lease r} \<longrightarrow> stored_identity f = f) \<longrightarrow> stored_record r = r)
     \<and> (\<forall>m. m \<noteq> n \<longrightarrow> get_spawn_record_db m t = get_spawn_record_db m s)"
proof -
  obtain i where i: "instance_id s n = Some i" "db_instances t = db_instances s"
      "\<And>j. runtime_at t j = (if j = i then Some (runtime_row_of i r) else runtime_at s j)" "runtime_ok t"
    using upsert_spawn_record_at [OF assms] by metis
  have ids: "instance_id t m = instance_id s m" for m using i(2) by (simp add: instance_id_def)
  have "instances_ok s" using assms(1) by (simp add: runtime_ok_def)
  then have "get_spawn_record_db m t = get_spawn_record_db m s" if "m \<noteq> n" for m
    using that i(1) instance_id_inj [of s n i m]
    by (cases "instance_id s m")
       (auto simp: get_spawn_record_eq [OF assms(1)] get_spawn_record_eq [OF i(4)] ids i(3))
  moreover have "get_spawn_record_db n t = Inr (Some (stored_record r))"
    by (simp add: get_spawn_record_eq i(4) ids i(1,3) spawn_of_runtime_row_of)
  moreover have "stored_record r = r" if "uint (sr_start_time r) < 2 ^ 63" "sr_run_id r \<noteq> Some []"
      "\<forall>f. f \<in> {sr_owner r, sr_lease r} \<longrightarrow> stored_identity f = f"
    using that by (auto simp: stored_record_def stored_time_def split: option.splits list.splits)
  ultimately show ?thesis by blast
qed

section \<open>Adoption\<close>

lemma update_runtime_ok:
  assumes "runtime_ok s" and "\<And>x. rt_instance (f x) = rt_instance x" and "\<And>x. rt_policy (f x) = rt_policy x"
  shows "runtime_ok (snd (update_runtime i g f s))"
proof -
  let ?h = "\<lambda>x. if rt_instance x = i \<and> g x then f x else x"
  have "map rt_instance (map ?h xs) = map rt_instance xs" for xs using assms(2) by (induction xs) auto
  then show ?thesis
    using assms by (auto simp: runtime_ok_def update_runtime_def instances_ok_def simp del: map_map)
qed

lemma runtime_ok_instances: "runtime_ok s \<Longrightarrow> instances_ok s"
  by (simp add: runtime_ok_def)

text \<open>Several engines that all read the same lease try to take it, one after the other.\<close>

fun adopt_all :: "string \<Rightarrow> fingerprint option \<Rightarrow> fingerprint list \<Rightarrow> db \<Rightarrow> store_error + (bool list \<times> db)" where
  "adopt_all n expected [] s = Inr ([], s)"
| "adopt_all n expected (h # hs) s =
     rbind (try_acquire_adoption_lease n expected h s) (\<lambda>(won, s).
     rbind (adopt_all n expected hs s) (\<lambda>(rest, s). Inr (won # rest, s)))"

definition lease_is :: "fingerprint option \<Rightarrow> runtime_row \<Rightarrow> bool" where
  "lease_is f x \<longleftrightarrow> rt_lease_pid x = map_option (pid_i64 \<circ> fst) f \<and> rt_lease_start x = map_option (bits_i64 \<circ> snd) f"

definition with_lease :: "fingerprint \<Rightarrow> runtime_row \<Rightarrow> runtime_row" where
  "with_lease h x = x\<lparr>rt_lease_pid := Some (pid_i64 (fst h)), rt_lease_start := Some (bits_i64 (snd h))\<rparr>"

lemma lease_is_with_lease: "lease_is f (with_lease h x) \<longleftrightarrow> f = Some h"
  by (cases f) (auto simp: lease_is_def with_lease_def pid_i64_inj bits_i64_inj prod_eq_iff)

lemma with_lease_fields [simp]:
  "rt_instance (with_lease h x) = rt_instance x" "rt_policy (with_lease h x) = rt_policy x"
  by (simp_all add: with_lease_def)

lemma try_acquire_eq:
  "try_acquire_adoption_lease n e h s = Inr
     (case instance_id s n of
        None \<Rightarrow> (False, s)
      | Some i \<Rightarrow> (let (rows, t) = update_runtime i (lease_is e) (with_lease h) s in (rows = 1, t)))"
  unfolding try_acquire_adoption_lease_def lease_is_def [abs_def] with_lease_def [abs_def]
  by (simp split: option.split prod.split)

lemma update_runtime_none:
  "fst (update_runtime i g f s) = 0 \<Longrightarrow> snd (update_runtime i g f s) = s"
  by (auto simp: update_runtime_def filter_empty_conv intro!: db.equality map_idI)

text \<open>What one attempt does.\<close>

lemma try_acquire_spec:
  assumes ok: "runtime_ok s" and i: "instance_id s n = Some i"
  shows "\<exists>t. try_acquire_adoption_lease n e h s = Inr (\<exists>x. runtime_at s i = Some x \<and> lease_is e x, t)
     \<and> runtime_ok t \<and> db_instances t = db_instances s
     \<and> (\<forall>j. runtime_at t j = map_option (\<lambda>x. if j = i \<and> lease_is e x then with_lease h x else x) (runtime_at s j))
     \<and> ((\<nexists>x. runtime_at s i = Some x \<and> lease_is e x) \<longrightarrow> t = s)"
proof -
  let ?u = "update_runtime i (lease_is e) (with_lease h) s"
  have rows: "fst ?u = (case runtime_at s i of Some x \<Rightarrow> of_bool (lease_is e x) | None \<Rightarrow> 0)"
    by (rule update_runtime_rows [OF ok])
  have one: "fst ?u = 1 \<longleftrightarrow> (\<exists>x. runtime_at s i = Some x \<and> lease_is e x)"
    by (simp add: rows split: option.split)
  have "(\<nexists>x. runtime_at s i = Some x \<and> lease_is e x) \<longrightarrow> snd ?u = s"
    using update_runtime_none [of i "lease_is e" "with_lease h" s] rows by (auto split: option.splits)
  moreover have "try_acquire_adoption_lease n e h s = Inr (fst ?u = 1, snd ?u)"
    by (simp add: try_acquire_eq i split: prod.split)
  moreover have "runtime_ok (snd ?u)" by (rule update_runtime_ok [OF ok]) simp_all
  moreover have "db_instances (snd ?u) = db_instances s" by (simp add: update_runtime_def)
  moreover have "runtime_at (snd ?u) j = map_option (\<lambda>x. if j = i \<and> lease_is e x then with_lease h x else x) (runtime_at s j)" for j
    by (rule update_runtime_at [OF ok]) simp
  ultimately show ?thesis using one by auto
qed

lemma adopt_all_lost:
  assumes "runtime_ok s" and "instance_id s n = Some i" and "\<nexists>x. runtime_at s i = Some x \<and> lease_is e x"
  shows "adopt_all n e hs s = Inr (replicate (length hs) False, s)"
proof (induction hs)
  case (Cons h hs)
  obtain t where "try_acquire_adoption_lease n e h s = Inr (False, t)" "t = s"
    using try_acquire_spec [OF assms(1,2), of e h] assms(3) by auto
  then show ?case by (simp add: Cons.IH)
qed simp


text \<open>(C36) A respawn resets the lease, so an attempt guarded by the empty lease a stale reader saw succeeds on
  the fresh record of another process.\<close>

theorem stale_adopter_takes_a_respawn:
  assumes "runtime_ok s" and "upsert_spawn_record n r s = Inr t" and "sr_lease r = None"
  shows "\<exists>u. try_acquire_adoption_lease n None h t = Inr (True, u)"
proof -
  obtain i where i: "instance_id s n = Some i" "db_instances t = db_instances s"
      "\<And>j. runtime_at t j = (if j = i then Some (runtime_row_of i r) else runtime_at s j)" "runtime_ok t"
    using upsert_spawn_record_at [OF assms(1,2)] by metis
  have "instance_id t n = Some i" using i(1,2) by (simp add: instance_id_def)
  from try_acquire_spec [OF i(4) this, of None h] i(3) [of i] assms(3) show ?thesis
    by (auto simp: lease_is_def runtime_row_of_def)
qed

section \<open>The planner's rows\<close>

text \<open>The abstraction the planner of theory Restart works on.\<close>

definition planner_of :: "db \<Rightarrow> (string \<rightharpoonup> u32) \<Rightarrow> planner" where
  "planner_of s streaks =
     \<lparr>pl_known = map in_name (db_instances s),
      pl_runtime = (\<lambda>n. case get_spawn_record_db n s of Inr r \<Rightarrow> r | Inl _ \<Rightarrow> None),
      pl_streaks = streaks\<rparr>"

lemma known_instance: "instance_id s n = None \<longleftrightarrow> n \<notin> set (pl_known (planner_of s st))"
  by (auto simp: planner_of_def instance_id_def find_None_all)

lemma planner_eqI:
  assumes "runtime_ok s" and "runtime_ok t" and "db_instances t = db_instances s" and "instance_id s n = Some i"
    and "\<And>j. j \<noteq> i \<Longrightarrow> runtime_at t j = runtime_at s j"
  shows "planner_of t st = (planner_of s st)\<lparr>pl_runtime := (pl_runtime (planner_of s st))(n := map_option spawn_of (runtime_at t i))\<rparr>"
proof -
  have ids: "instance_id t m = instance_id s m" for m using assms(3) by (simp add: instance_id_def)
  have "(case get_spawn_record_db m t of Inr r \<Rightarrow> r | Inl _ \<Rightarrow> None)
      = ((\<lambda>m. case get_spawn_record_db m s of Inr r \<Rightarrow> r | Inl _ \<Rightarrow> None)(n := map_option spawn_of (runtime_at t i))) m" for m
  proof (cases "instance_id s m")
    case (Some a)
    have "runtime_at t a = runtime_at s a" if "m \<noteq> n"
      using that Some assms(4,5) instance_id_inj [OF runtime_ok_instances [OF assms(1)], of n i m] by auto
    then show ?thesis
      using Some assms(4) by (auto simp: get_spawn_record_eq [OF assms(1)] get_spawn_record_eq [OF assms(2)] ids)
  qed (use assms(4) in \<open>auto simp: get_spawn_record_eq [OF assms(1)] get_spawn_record_eq [OF assms(2)] ids\<close>)
  then show ?thesis using assms(3) by (auto simp: planner_of_def)
qed

lemma planner_get:
  assumes "runtime_ok s"
  shows "get_spawn_record_db n s = Inr (get_spawn_record (planner_of s st) n)"
    and "pl_runtime (planner_of s st) n = Option.bind (instance_id s n) (\<lambda>i. map_option spawn_of (runtime_at s i))"
proof -
  show run: "pl_runtime (planner_of s st) n = Option.bind (instance_id s n) (\<lambda>i. map_option spawn_of (runtime_at s i))"
    by (simp add: planner_of_def get_spawn_record_eq [OF assms])
  show "get_spawn_record_db n s = Inr (get_spawn_record (planner_of s st) n)"
    using known_instance [of s n st] by (auto simp: get_spawn_record_def get_spawn_record_eq [OF assms] run)
qed

lemma spawn_of_seed: "spawn_of (seed_row i p (uint c) session) = policy_seed p c session"
  by (simp add: spawn_of_def seed_row_def policy_seed_def read_identity_def)

lemma spawn_of_updates [simp]:
  "spawn_of (x\<lparr>rt_count := uint c, rt_cause := cause\<rparr>) = (spawn_of x)\<lparr>sr_count := c, sr_cause := cause\<rparr>"
  "spawn_of (x\<lparr>rt_policy := policy_as_str p\<rparr>) = (spawn_of x)\<lparr>sr_policy := p\<rparr>"
  by (simp_all add: spawn_of_def)

lemma planner_streaks [simp]: "pl_streaks (planner_of s st) = st"
  by (simp add: planner_of_def)

lemma set_restart_count_refines:
  assumes ok: "runtime_ok s" and go: "set_restart_count_db n c cause s = Inr t"
  shows "runtime_ok t \<and> planner_of t st = set_restart_count n c cause (planner_of s st)"
proof (cases "instance_id s n")
  case None
  then show ?thesis
    using go ok known_instance [of s n st] by (simp add: set_restart_count_db_def set_restart_count_def)
next
  case (Some i)
  let ?f = "\<lambda>x. x\<lparr>rt_count := uint c, rt_cause := cause\<rparr>"
  have t: "t = snd (update_runtime i (\<lambda>_. True) ?f s)" using go Some by (simp add: set_restart_count_db_def)
  have ok': "runtime_ok t" unfolding t by (rule update_runtime_ok [OF ok]) simp_all
  have at: "runtime_at t j = map_option (\<lambda>x. if j = i \<and> True then ?f x else x) (runtime_at s j)" for j
    unfolding t by (rule update_runtime_at [OF ok]) simp
  have inst: "db_instances t = db_instances s" by (simp add: t update_runtime_def)
  have "planner_of t st = (planner_of s st)\<lparr>pl_runtime := (pl_runtime (planner_of s st))(n := map_option spawn_of (runtime_at t i))\<rparr>"
    by (rule planner_eqI [OF ok ok' inst Some]) (simp add: at option.map_ident)
  moreover have "pl_runtime (planner_of s st) n = map_option spawn_of (runtime_at s i)"
    by (simp add: planner_get(2) [OF ok] Some)
  moreover have "(pl_runtime (planner_of s st))(n := None) = pl_runtime (planner_of s st)"
    if "pl_runtime (planner_of s st) n = None" using that by (rule fun_upd_idem)
  ultimately show ?thesis
    using ok' known_instance [of s n st] Some
    by (cases "runtime_at s i") (auto simp: set_restart_count_def at)
qed

lemma set_restart_policy_refines:
  assumes ok: "runtime_ok s"
  shows "case set_restart_policy_db n p s of
      Inl e \<Rightarrow> e = NotFound n \<and> set_restart_policy n p (planner_of s st) = planner_of s st
    | Inr t \<Rightarrow> runtime_ok t \<and> planner_of t st = set_restart_policy n p (planner_of s st)"
proof (cases "instance_id s n")
  case None
  then show ?thesis
    using known_instance [of s n st] by (simp add: set_restart_policy_db_def set_restart_policy_def)
next
  case (Some i)
  let ?f = "\<lambda>x. x\<lparr>rt_policy := policy_as_str p\<rparr>" and ?row = "seed_row i p 0 None"
  let ?t = "upsert_runtime ?row ?f s"
  have row: "rt_instance ?row = i" "rt_policy ?row = policy_as_str p" by (simp_all add: seed_row_def)
  have at: "runtime_at ?t j = (if j = i then Some (case runtime_at s j of Some x \<Rightarrow> ?f x | None \<Rightarrow> ?row) else runtime_at s j)" for j
    using upsert_runtime_at [OF ok, of ?row ?f j] by (simp add: row)
  have inst: "db_instances ?t = db_instances s" by (simp add: upsert_runtime_def)
  have "map rt_instance (map (\<lambda>x. if rt_instance x = i then ?f x else x) xs) = map rt_instance xs" for xs :: "runtime_row list"
    by (induction xs) auto
  then have keys: "distinct (map rt_instance (db_runtime ?t))"
    using ok by (auto simp: upsert_runtime_def runtime_ok_def row simp del: map_map)
  have "i \<in> in_id ` set (db_instances s)" using Some by (auto simp: instance_id_def dest!: find_Some_in)
  then have parsed: "j \<in> in_id ` set (db_instances s) \<and> policy_from_wire (rt_policy x) \<noteq> None"
    if t: "runtime_at ?t j = Some x" for j x
  proof (cases "j = i")
    case True
    then have "rt_policy x = policy_as_str p" using t unfolding at by (auto simp: row split: option.splits)
    then show ?thesis using \<open>i \<in> _\<close> True by simp
  next
    case False
    then have "runtime_at s j = Some x" using t unfolding at by simp
    from runtime_at_Some [OF this] ok show ?thesis by (auto simp: runtime_ok_def)
  qed
  have ok': "runtime_ok ?t" by (rule runtime_ok_cong [OF ok inst keys parsed])
  have "planner_of ?t st = (planner_of s st)\<lparr>pl_runtime := (pl_runtime (planner_of s st))(n := map_option spawn_of (runtime_at ?t i))\<rparr>"
    by (rule planner_eqI [OF ok ok' inst Some]) (simp add: at)
  moreover have "pl_runtime (planner_of s st) n = map_option spawn_of (runtime_at s i)"
    by (simp add: planner_get(2) [OF ok] Some)
  ultimately show ?thesis
    using ok' known_instance [of s n st] Some spawn_of_seed [of i p 0 None]
    by (cases "runtime_at s i") (simp_all add: set_restart_policy_db_def set_restart_policy_def at)
qed

lemma settle_refines:
  assumes ok: "runtime_ok s"
  shows "\<exists>kept t. settle_spawn_record_db n s = Inr (kept, t) \<and> runtime_ok t
     \<and> planner_of t st = settle_spawn_record n (planner_of s st)
     \<and> kept = (\<exists>r. get_spawn_record (planner_of s st) n = Some r \<and> sr_acp_session r \<noteq> None)"
proof (cases "get_spawn_record (planner_of s st) n")
  case None
  then show ?thesis using ok
    by (intro exI [of _ False]) (simp add: settle_spawn_record_db_def settle_spawn_record_def planner_get(1) [OF ok, of n st])
next
  case (Some r)
  then obtain i where i: "instance_id s n = Some i"
    using known_instance [of s n st] by (auto simp: get_spawn_record_def split: if_splits)
  let ?cleared = "s\<lparr>db_runtime := filter (\<lambda>x. rt_instance x \<noteq> i) (db_runtime s)\<rparr>"
  define seed where "seed = (case sr_acp_session r of None \<Rightarrow> []
    | Some session \<Rightarrow> [seed_row i (sr_policy r) (uint (sr_count r)) (Some session)])"
  let ?t = "s\<lparr>db_runtime := filter (\<lambda>x. rt_instance x \<noteq> i) (db_runtime s) @ seed\<rparr>"
  have go: "settle_spawn_record_db n s = Inr (sr_acp_session r \<noteq> None, ?t)"
    by (simp add: settle_spawn_record_db_def planner_get(1) [OF ok, of n st] Some i seed_def Let_def split: option.split)
  have seed: "\<forall>x\<in>set seed. rt_instance x = i \<and> policy_from_wire (rt_policy x) \<noteq> None" "distinct (map rt_instance seed)"
    by (auto simp: seed_def seed_row_def split: option.splits)
  have "i \<in> in_id ` set (db_instances s)" using i by (auto simp: instance_id_def dest!: find_Some_in)
  then have ok': "runtime_ok ?t"
    using ok seed by (auto simp: runtime_ok_def instances_ok_def distinct_map_filter)
  have at: "runtime_at ?t j = (if j = i then (case seed of [] \<Rightarrow> None | x # _ \<Rightarrow> Some x) else runtime_at s j)" for j
  proof -
    have "runtime_at ?t j = (case runtime_at ?cleared j of Some x \<Rightarrow> Some x | None \<Rightarrow> find (\<lambda>x. rt_instance x = j) seed)"
      by (simp add: runtime_at_def find_append)
    moreover have "find (\<lambda>x. rt_instance x = j) seed = (if j = i then (case seed of [] \<Rightarrow> None | x # _ \<Rightarrow> Some x) else None)"
      by (cases "sr_acp_session r") (auto simp: seed_def seed_row_def)
    ultimately show ?thesis
      using clear_runtime_at [where s = s and i = i and j = j] by (cases "j = i") (auto split: option.split)
  qed
  have "planner_of ?t st = (planner_of s st)\<lparr>pl_runtime := (pl_runtime (planner_of s st))(n := map_option spawn_of (runtime_at ?t i))\<rparr>"
    by (rule planner_eqI [OF ok ok' _ i]) (simp_all add: at)
  moreover have "map_option spawn_of (runtime_at ?t i)
      = map_option (\<lambda>session. policy_seed (sr_policy r) (sr_count r) (Some session)) (sr_acp_session r)"
    unfolding at by (simp add: seed_def spawn_of_seed split: option.split)
  ultimately have "planner_of ?t st = settle_spawn_record n (planner_of s st)"
    by (simp add: settle_spawn_record_def Some)
  with go ok' Some show ?thesis by auto
qed

text \<open>(C35) The store implements the rows the crash planner works on: reading a record, bumping the restart
  count, setting the policy and settling a record on the tables are, through the decoding of the rows, the
  planner's own operations, none of them fails on an instance the store knows, and each keeps the rows
  decodable.\<close>

theorem spawn_rows_implement_the_planner:
  assumes "runtime_ok s"
  shows "get_spawn_record_db n s = Inr (get_spawn_record (planner_of s st) n)
     \<and> (\<exists>t. set_restart_count_db n c cause s = Inr t \<and> runtime_ok t
          \<and> planner_of t st = set_restart_count n c cause (planner_of s st))
     \<and> (case set_restart_policy_db n p s of
          Inl e \<Rightarrow> e = NotFound n \<and> set_restart_policy n p (planner_of s st) = planner_of s st
        | Inr t \<Rightarrow> runtime_ok t \<and> planner_of t st = set_restart_policy n p (planner_of s st))
     \<and> (\<exists>kept t. settle_spawn_record_db n s = Inr (kept, t) \<and> runtime_ok t
          \<and> planner_of t st = settle_spawn_record n (planner_of s st)
          \<and> kept = (\<exists>r. get_spawn_record (planner_of s st) n = Some r \<and> sr_acp_session r \<noteq> None))"
proof -
  have "\<exists>t. set_restart_count_db n c cause s = Inr t"
    by (simp add: set_restart_count_db_def split: option.split)
  then obtain t where "set_restart_count_db n c cause s = Inr t" by blast
  then show ?thesis
    using planner_get(1) [OF assms] set_restart_count_refines [OF assms] set_restart_policy_refines [OF assms]
      settle_refines [OF assms] by blast
qed

section \<open>Witnesses\<close>

definition demo_spawned :: db where
  "demo_spawned = empty_db [\<lparr>in_id = 1, in_name = ''a'', in_kind = ''mock'', in_state = ''running'',
     in_home = ''h'', in_created = ''t0'', in_updated = ''t0'', in_generation = 1\<rparr>]"

definition demo_record :: spawn_record where
  "demo_record = (policy_seed OnFailure 2 (Some ''s1''))\<lparr>sr_pid := 42, sr_start_time := 7, sr_run_id := Some ''r1''\<rparr>"

lemma demo_spawned_ok: "runtime_ok demo_spawned"
  by (simp add: demo_spawned_def empty_db_def runtime_ok_def instances_ok_def)

lemma demo_upsert: "\<exists>t. upsert_spawn_record ''a'' demo_record demo_spawned = Inr t \<and> runtime_ok t
   \<and> get_spawn_record_db ''a'' t = Inr (Some demo_record)"
proof -
  have "instance_id demo_spawned ''a'' = Some 1" by (simp add: demo_spawned_def empty_db_def instance_id_def)
  then obtain t where t: "upsert_spawn_record ''a'' demo_record demo_spawned = Inr t"
    by (simp add: upsert_spawn_record_def)
  obtain i where i: "instance_id demo_spawned ''a'' = Some i" "db_instances t = db_instances demo_spawned"
      "\<And>j. runtime_at t j = (if j = i then Some (runtime_row_of i demo_record) else runtime_at demo_spawned j)" "runtime_ok t"
    using upsert_spawn_record_at [OF demo_spawned_ok t] by metis
  have "stored_record demo_record = demo_record"
    by (simp add: stored_record_def demo_record_def policy_seed_def stored_time_def stored_identity_def)
  moreover have "instance_id t ''a'' = Some i" using i(1,2) by (simp add: instance_id_def)
  ultimately have "get_spawn_record_db ''a'' t = Inr (Some demo_record)"
    by (simp add: get_spawn_record_eq [OF i(4)] i(3) spawn_of_runtime_row_of)
  with t i(4) show ?thesis by blast
qed

lemma spawn_record_roundtrip_witness:
  "\<exists>t. upsert_spawn_record ''a'' demo_record demo_spawned = Inr t
     \<and> get_spawn_record_db ''a'' t = Inr (Some (stored_record demo_record))"
proof -
  obtain t where t: "upsert_spawn_record ''a'' demo_record demo_spawned = Inr t" using demo_upsert by blast
  show ?thesis using spawn_record_roundtrip [OF demo_spawned_ok t] t by blast
qed


lemma spawn_rows_implement_the_planner_witness:
  "\<exists>s t. get_spawn_record_db ''a'' s = Inr (Some demo_record) \<and> settle_spawn_record_db ''a'' s = Inr (True, t)
     \<and> planner_of t Map.empty = settle_spawn_record ''a'' (planner_of s Map.empty)"
proof -
  obtain s where s: "runtime_ok s" "get_spawn_record_db ''a'' s = Inr (Some demo_record)" using demo_upsert by blast
  have session: "sr_acp_session demo_record \<noteq> None" by (simp add: demo_record_def policy_seed_def)
  have "get_spawn_record_db ''a'' s = Inr (get_spawn_record (planner_of s Map.empty) ''a'')"
    and "\<exists>kept t. settle_spawn_record_db ''a'' s = Inr (kept, t) \<and> runtime_ok t
          \<and> planner_of t Map.empty = settle_spawn_record ''a'' (planner_of s Map.empty)
          \<and> kept = (\<exists>r. get_spawn_record (planner_of s Map.empty) ''a'' = Some r \<and> sr_acp_session r \<noteq> None)"
    using spawn_rows_implement_the_planner [OF s(1), of "''a''" Map.empty] by blast+
  with s(2) session show ?thesis by auto
qed

lemma stale_adopter_takes_a_respawn_witness:
  "\<exists>t u. upsert_spawn_record ''a'' (demo_record\<lparr>sr_lease := None\<rparr>) demo_spawned = Inr t
     \<and> try_acquire_adoption_lease ''a'' None (7, 1) t = Inr (True, u)"
proof -
  obtain t where t: "upsert_spawn_record ''a'' (demo_record\<lparr>sr_lease := None\<rparr>) demo_spawned = Inr t"
    by (simp add: upsert_spawn_record_def demo_spawned_def empty_db_def instance_id_def)
  from stale_adopter_takes_a_respawn [OF demo_spawned_ok t] t show ?thesis by auto
qed

end
