(* ===== verification/Store_Writer.thy ===== *)
theory Store_Writer
  imports Database "HOL-Library.Sublist" "HOL-Library.Multiset"
begin

text \<open>
  The store writer (\<open>hekma-engine/src/store/writer.rs\<close>): the one thread that writes the state database.
  Callers send jobs over a channel; the writer collects a batch, opens one transaction, runs every job
  of the batch in its own savepoint, commits, runs the jobs' hooks and answers the callers. A caller that
  has waited too long abandons its job by a compare-and-set on the job's slot, which the writer claims by
  the same compare-and-set before it runs the job.

  The store, the value of a job and its hooks are type parameters: a job is a function on the store. What
  SQLite decides is an argument of the step: whether the transaction begins, a savepoint opens or is
  released, the whole transaction is rolled back under the writer, and the commit succeeds. The clock is
  a choice of steps: a caller may give up on a pending job at any time, and the window of a batch without
  acked jobs may end at any time.
\<close>

definition batch_max_events :: nat where "batch_max_events = 512"
definition ack_bound_ms :: u64 where "ack_bound_ms = 1000"

section \<open>Jobs\<close>

datatype slot = Pending | Taken | Abandoned

text \<open>What the closure of a job does: it returns, fails, or panics.\<close>

datatype 'a outcome = Done 'a | Fails store_error | Panics

record ('s, 'v, 'h) job =
  jb_id :: nat
  jb_acked :: bool
  jb_weight :: nat
  jb_work :: "'s \<Rightarrow> ('v \<times> 's \<times> 'h list) outcome"

text \<open>A job that ran in the open batch: its result and the hooks it registered.\<close>

record ('v, 'h) ran =
  rn_id :: nat
  rn_result :: "store_error + 'v"
  rn_hooks :: "'h list"

datatype ('s, 'v, 'h) phase =
  Idle
| Collecting "('s, 'v, 'h) job list" nat bool
| Collected "('s, 'v, 'h) job list"
| Refusing store_error "('s, 'v, 'h) job list"
| InBatch 's "('s, 'v, 'h) job list" "('v, 'h) ran list" bool

record ('s, 'v, 'h) writer =
  wr_db :: 's
  wr_sent :: "('s, 'v, 'h) job list"
  wr_queue :: "('s, 'v, 'h) job list"
  wr_slot :: "nat \<Rightarrow> slot"
  wr_phase :: "('s, 'v, 'h) phase"
  wr_answers :: "(nat \<times> (store_error + 'v)) list"
  wr_hooks :: "'h list"
  wr_batches :: nat
  wr_jobs :: nat

section \<open>Errors\<close>

definition read_only_refusal :: store_error where
  "read_only_refusal =
     Backend (Text ''this engine was opened read-only (no store writer); the write was not applied'')"

definition writer_gone :: store_error where
  "writer_gone = Backend (Text ''the store writer has stopped; the write was not applied'')"

definition job_panicked :: store_error where
  "job_panicked = Backend (Text ''a store writer job panicked; its write was rolled back'')"

definition batch_lost :: store_error where
  "batch_lost = Backend (Text (''the store writer's batch transaction was rolled back by SQLite (a full disk ''
      @ ''or an I/O error), so this write was not applied''))"

text \<open>\<open>batch_failure\<close>; \<open>show_error\<close> is the rendering of the error into the text.\<close>

definition batch_failure :: "(store_error \<Rightarrow> string) \<Rightarrow> store_error \<Rightarrow> store_error" where
  "batch_failure show_error err =
     (case err of
        Busy waited \<Rightarrow> Busy waited
      | other \<Rightarrow> Backend (Text (''the store writer's batch did not commit, so this write was not applied: ''
                              @ show_error other)))"

section \<open>Callers\<close>

text \<open>\<open>StoreWriter::send\<close>: a read-only engine has no writer, a stopped one no channel.\<close>

definition send_job ::
  "bool \<Rightarrow> bool \<Rightarrow> ('s, 'v, 'h) job \<Rightarrow> ('s, 'v, 'h) writer \<Rightarrow> store_error + ('s, 'v, 'h) writer" where
  "send_job read_only connected j w =
     (if read_only then Inl read_only_refusal
      else if \<not> connected then Inl writer_gone
      else Inr (w\<lparr>wr_sent := wr_sent w @ [j], wr_queue := wr_queue w @ [j]\<rparr>))"

text \<open>The weight of a call is at least one.\<close>

definition call_weight :: "nat \<Rightarrow> nat" where "call_weight n = max n 1"

text \<open>The compare-and-set of a slot from \<open>PENDING\<close>: whether it succeeded, and the slots afterwards.\<close>

definition claim :: "slot \<Rightarrow> nat \<Rightarrow> (nat \<Rightarrow> slot) \<Rightarrow> bool \<times> (nat \<Rightarrow> slot)" where
  "claim to i slots = (if slots i = Pending then (True, slots(i := to)) else (False, slots))"

text \<open>The timeout branch of \<open>call_weighted\<close>: an abandoned job answers \<open>Busy\<close>; on a job already taken the
  caller waits on.\<close>

definition give_up :: "nat \<Rightarrow> ('s, 'v, 'h) writer \<Rightarrow> ('s, 'v, 'h) writer" where
  "give_up i w =
     (case claim Abandoned i (wr_slot w) of
        (True, slots) \<Rightarrow> w\<lparr>wr_slot := slots, wr_answers := wr_answers w @ [(i, Inl (Busy ack_bound_ms))]\<rparr>
      | (False, _) \<Rightarrow> w)"

section \<open>Batches\<close>

text \<open>\<open>next_batch\<close>, one receive at a time. A full batch stops; with an acked job in it the batch takes what
  is queued and never waits; without one it may wait for the rest of its window.\<close>

definition first_job :: "('s, 'v, 'h) writer \<Rightarrow> ('s, 'v, 'h) writer option" where
  "first_job w =
     (case (wr_phase w, wr_queue w) of
        (Idle, j # q) \<Rightarrow> Some (w\<lparr>wr_queue := q, wr_phase := Collecting [j] (jb_weight j) (jb_acked j)\<rparr>)
      | _ \<Rightarrow> None)"

definition next_job :: "('s, 'v, 'h) writer \<Rightarrow> ('s, 'v, 'h) writer option" where
  "next_job w =
     (case (wr_phase w, wr_queue w) of
        (Collecting batch weight any_acked, j # q) \<Rightarrow>
          if weight < batch_max_events
          then Some (w\<lparr>wr_queue := q,
                 wr_phase := Collecting (batch @ [j]) (weight + jb_weight j) (any_acked \<or> jb_acked j)\<rparr>)
          else None
      | _ \<Rightarrow> None)"

text \<open>\<open>window_over\<close>: the window of an unacked batch has passed.\<close>

definition close_batch :: "bool \<Rightarrow> ('s, 'v, 'h) writer \<Rightarrow> ('s, 'v, 'h) writer option" where
  "close_batch window_over w =
     (case wr_phase w of
        Collecting batch weight any_acked \<Rightarrow>
          if \<not> weight < batch_max_events \<or> (if any_acked then wr_queue w = [] else window_over)
          then Some (w\<lparr>wr_phase := Collected batch\<rparr>) else None
      | _ \<Rightarrow> None)"

section \<open>Transactions\<close>

text \<open>\<open>in_savepoint\<close>: an error of the body, or of releasing the savepoint, undoes the body.\<close>

definition in_savepoint ::
  "store_error option \<Rightarrow> store_error option \<Rightarrow> ('s \<Rightarrow> store_error + ('a \<times> 's)) \<Rightarrow> 's \<Rightarrow> (store_error + 'a) \<times> 's" where
  "in_savepoint opens releases body s =
     (case opens of
        Some e \<Rightarrow> (Inl e, s)
      | None \<Rightarrow>
          (case body s of
             Inl e \<Rightarrow> (Inl e, s)
           | Inr (v, t) \<Rightarrow> (case releases of Some e \<Rightarrow> (Inl e, s) | None \<Rightarrow> (Inr v, t))))"

text \<open>\<open>catch_unwind\<close> around the work; the hooks of a job that failed are dropped.\<close>

definition run_work :: "('s, 'v, 'h) job \<Rightarrow> 's \<Rightarrow> store_error + (('v \<times> 'h list) \<times> 's)" where
  "run_work j s =
     (case jb_work j s of
        Done (v, t, hooks) \<Rightarrow> Inr ((v, hooks), t)
      | Fails e \<Rightarrow> Inl e
      | Panics \<Rightarrow> Inl job_panicked)"

text \<open>What SQLite does around one job.\<close>

record job_env =
  je_opens :: "store_error option"
  je_releases :: "store_error option"
  je_rolled_back :: bool

definition begin_batch :: "store_error option \<Rightarrow> ('s, 'v, 'h) writer \<Rightarrow> ('s, 'v, 'h) writer option" where
  "begin_batch failure w =
     (case wr_phase w of
        Collected batch \<Rightarrow>
          Some (w\<lparr>wr_phase := (case failure of Some e \<Rightarrow> Refusing e batch | None \<Rightarrow> InBatch (wr_db w) batch [] False)\<rparr>)
      | _ \<Rightarrow> None)"

definition answer :: "nat \<Rightarrow> store_error + 'v \<Rightarrow> ('s, 'v, 'h) writer \<Rightarrow> ('s, 'v, 'h) writer" where
  "answer i r w = w\<lparr>wr_answers := wr_answers w @ [(i, r)]\<rparr>"

text \<open>The loop over the jobs of a batch that did not begin.\<close>

definition refuse_job :: "(store_error \<Rightarrow> string) \<Rightarrow> ('s, 'v, 'h) writer \<Rightarrow> ('s, 'v, 'h) writer option" where
  "refuse_job show_error w =
     (case wr_phase w of
        Refusing err (j # rest) \<Rightarrow>
          (case claim Taken (jb_id j) (wr_slot w) of
             (True, slots) \<Rightarrow> Some (answer (jb_id j) (Inl (batch_failure show_error err))
                                     (w\<lparr>wr_slot := slots, wr_phase := Refusing err rest\<rparr>))
           | (False, _) \<Rightarrow> Some (w\<lparr>wr_phase := Refusing err rest\<rparr>))
      | Refusing _ [] \<Rightarrow> Some (w\<lparr>wr_phase := Idle\<rparr>)
      | _ \<Rightarrow> None)"

text \<open>The loop over the jobs of an open batch.\<close>

definition run_next :: "job_env \<Rightarrow> ('s, 'v, 'h) writer \<Rightarrow> ('s, 'v, 'h) writer option" where
  "run_next env w =
     (case wr_phase w of
        InBatch tx (j # rest) finished lost \<Rightarrow>
          (case claim Taken (jb_id j) (wr_slot w) of
             (False, _) \<Rightarrow> Some (w\<lparr>wr_phase := InBatch tx rest finished lost\<rparr>)
           | (True, slots) \<Rightarrow>
               if lost then Some (answer (jb_id j) (Inl batch_lost)
                                    (w\<lparr>wr_slot := slots, wr_phase := InBatch tx rest finished lost\<rparr>))
               else
                 (let (result, tx') = in_savepoint (je_opens env) (je_releases env) (run_work j) tx;
                      entry = \<lparr>rn_id = jb_id j, rn_result = map_sum id fst result,
                               rn_hooks = (case result of Inr (_, hooks) \<Rightarrow> hooks | Inl _ \<Rightarrow> [])\<rparr>
                  in Some (w\<lparr>wr_slot := slots,
                       wr_phase := InBatch tx' rest (finished @ [entry]) (je_rolled_back env)\<rparr>)))
      | _ \<Rightarrow> None)"

definition finish_with :: "store_error \<Rightarrow> ('v, 'h) ran list \<Rightarrow> (nat \<times> (store_error + 'v)) list" where
  "finish_with err finished = map (\<lambda>r. (rn_id r, Inl err)) finished"

text \<open>The end of the batch: lost, committed or not committed.\<close>

definition end_batch :: "(store_error \<Rightarrow> string) \<Rightarrow> store_error option \<Rightarrow> ('s, 'v, 'h) writer \<Rightarrow> ('s, 'v, 'h) writer option" where
  "end_batch show_error failure w =
     (case wr_phase w of
        InBatch tx [] finished lost \<Rightarrow>
          if lost then Some (w\<lparr>wr_phase := Idle, wr_answers := wr_answers w @ finish_with batch_lost finished\<rparr>)
          else (case failure of
             None \<Rightarrow> Some (w\<lparr>wr_phase := Idle, wr_db := tx,
                       wr_answers := wr_answers w @ map (\<lambda>r. (rn_id r, rn_result r)) finished,
                       wr_hooks := wr_hooks w @ concat (map rn_hooks finished),
                       wr_batches := wr_batches w + 1, wr_jobs := wr_jobs w + length finished\<rparr>)
           | Some err \<Rightarrow> Some (w\<lparr>wr_phase := Idle,
                       wr_answers := wr_answers w @ finish_with (batch_failure show_error err) finished\<rparr>))
      | _ \<Rightarrow> None)"

section \<open>The writer and its callers\<close>

text \<open>The writer's own moves, and every move: a send of a fresh job, a caller that gives up on an acked
  job, or a move of the writer.\<close>

inductive writer_move :: "(store_error \<Rightarrow> string) \<Rightarrow> ('s, 'v, 'h) writer \<Rightarrow> ('s, 'v, 'h) writer \<Rightarrow> bool" for show_error where
  first: "first_job w = Some w' \<Longrightarrow> writer_move show_error w w'"
| collect: "next_job w = Some w' \<Longrightarrow> writer_move show_error w w'"
| stop: "close_batch window_over w = Some w' \<Longrightarrow> writer_move show_error w w'"
| open_tx: "begin_batch failure w = Some w' \<Longrightarrow> writer_move show_error w w'"
| refuse: "refuse_job show_error w = Some w' \<Longrightarrow> writer_move show_error w w'"
| run: "run_next env w = Some w' \<Longrightarrow> writer_move show_error w w'"
| finish: "end_batch show_error failure w = Some w' \<Longrightarrow> writer_move show_error w w'"

inductive writer_step :: "(store_error \<Rightarrow> string) \<Rightarrow> ('s, 'v, 'h) writer \<Rightarrow> ('s, 'v, 'h) writer \<Rightarrow> bool" for show_error where
  send: "send_job False True j w = Inr w' \<Longrightarrow> jb_id j \<notin> jb_id ` set (wr_sent w) \<Longrightarrow> writer_step show_error w w'"
| timeout: "j \<in> set (wr_sent w) \<Longrightarrow> jb_acked j \<Longrightarrow> give_up (jb_id j) w = w' \<Longrightarrow> writer_step show_error w w'"
| move: "writer_move show_error w w' \<Longrightarrow> writer_step show_error w w'"

definition fresh_writer :: "'s \<Rightarrow> ('s, 'v, 'h) writer" where
  "fresh_writer s = \<lparr>wr_db = s, wr_sent = [], wr_queue = [], wr_slot = (\<lambda>_. Pending), wr_phase = Idle,
     wr_answers = [], wr_hooks = [], wr_batches = 0, wr_jobs = 0\<rparr>"

inductive writer_reachable :: "(store_error \<Rightarrow> string) \<Rightarrow> 's \<Rightarrow> ('s, 'v, 'h) writer \<Rightarrow> bool" for show_error s where
  fresh: "writer_reachable show_error s (fresh_writer s)"
| step: "writer_reachable show_error s w \<Longrightarrow> writer_step show_error w w' \<Longrightarrow> writer_reachable show_error s w'"

section \<open>One job after another\<close>

text \<open>The reference: the jobs answered with a value, run one after the other on the store.\<close>

fun replay :: "(('s, 'v, 'h) job \<times> 'v) list \<Rightarrow> 's \<times> 'h list \<Rightarrow> ('s \<times> 'h list) option" where
  "replay [] st = Some st"
| "replay ((j, v) # rest) (s, hooks) =
     (case jb_work j s of
        Done (v', t, hs) \<Rightarrow> if v' = v then replay rest (t, hooks @ hs) else None
      | _ \<Rightarrow> None)"

definition job_of :: "('s, 'v, 'h) writer \<Rightarrow> nat \<Rightarrow> ('s, 'v, 'h) job" where
  "job_of w i = the (find (\<lambda>j. jb_id j = i) (wr_sent w))"

definition granted :: "(nat \<times> (store_error + 'v)) list \<Rightarrow> (nat \<times> 'v) list" where
  "granted answers = concat (map (\<lambda>(i, r). case r of Inr v \<Rightarrow> [(i, v)] | Inl _ \<Rightarrow> []) answers)"

definition applied :: "('s, 'v, 'h) writer \<Rightarrow> (('s, 'v, 'h) job \<times> 'v) list" where
  "applied w = map (\<lambda>(i, v). (job_of w i, v)) (granted (wr_answers w))"

text \<open>The jobs the writer holds, in the order it will reach them, and what the open batch has done.\<close>

definition held :: "('s, 'v, 'h) phase \<Rightarrow> ('s, 'v, 'h) job list" where
  "held p = (case p of Idle \<Rightarrow> [] | Collecting b _ _ \<Rightarrow> b | Collected b \<Rightarrow> b | Refusing _ b \<Rightarrow> b | InBatch _ b _ _ \<Rightarrow> b)"

definition ran_answers :: "('s, 'v, 'h) phase \<Rightarrow> (nat \<times> (store_error + 'v)) list" where
  "ran_answers p = (case p of InBatch _ _ finished _ \<Rightarrow> map (\<lambda>r. (rn_id r, rn_result r)) finished | _ \<Rightarrow> [])"

definition ran_hooks :: "('s, 'v, 'h) phase \<Rightarrow> 'h list" where
  "ran_hooks p = (case p of InBatch _ _ finished _ \<Rightarrow> concat (map rn_hooks finished) | _ \<Rightarrow> [])"

definition current :: "('s, 'v, 'h) phase \<Rightarrow> 's \<Rightarrow> 's" where
  "current p s = (case p of InBatch tx _ _ _ \<Rightarrow> tx | _ \<Rightarrow> s)"

definition in_open_batch :: "('s, 'v, 'h) phase \<Rightarrow> bool" where
  "in_open_batch p = (case p of InBatch _ _ _ lost \<Rightarrow> \<not> lost | _ \<Rightarrow> False)"

text \<open>Every answer given or about to be given by the open batch.\<close>

definition all_answers :: "('s, 'v, 'h) writer \<Rightarrow> (nat \<times> (store_error + 'v)) list" where
  "all_answers w = wr_answers w @ ran_answers (wr_phase w)"

definition sent_ids :: "('s, 'v, 'h) writer \<Rightarrow> nat set" where
  "sent_ids w = jb_id ` set (wr_sent w)"

definition flow_ok :: "('s, 'v, 'h) job list \<Rightarrow> ('s, 'v, 'h) writer \<Rightarrow> bool" where
  "flow_ok past w \<longleftrightarrow>
     past @ held (wr_phase w) @ wr_queue w = wr_sent w \<and> distinct (map jb_id (wr_sent w))
     \<and> (\<forall>j\<in>set past. wr_slot w (jb_id j) \<noteq> Pending
          \<and> (wr_slot w (jb_id j) = Taken \<longrightarrow> jb_id j \<in> fst ` set (all_answers w)))
     \<and> (\<forall>j\<in>set (held (wr_phase w) @ wr_queue w). wr_slot w (jb_id j) \<noteq> Taken)
     \<and> (\<forall>i. i \<notin> sent_ids w \<longrightarrow> wr_slot w i = Pending)
     \<and> (\<forall>i. wr_slot w i = Abandoned \<longrightarrow> (i, Inl (Busy ack_bound_ms)) \<in> set (wr_answers w))
     \<and> distinct (map fst (all_answers w))
     \<and> (\<forall>i\<in>fst ` set (all_answers w). wr_slot w i \<noteq> Pending)
     \<and> subseq (map fst (granted (wr_answers w)) @ map fst (ran_answers (wr_phase w))) (map jb_id past)"

definition replay_ok :: "'s \<Rightarrow> ('s, 'v, 'h) writer \<Rightarrow> bool" where
  "replay_ok s0 w \<longleftrightarrow>
     replay (applied w) (s0, []) = Some (wr_db w, wr_hooks w)
     \<and> (in_open_batch (wr_phase w) \<longrightarrow>
          replay (map (\<lambda>(i, v). (job_of w i, v)) (granted (ran_answers (wr_phase w)))) (wr_db w, [])
            = Some (current (wr_phase w) (wr_db w), ran_hooks (wr_phase w)))"

definition writer_ok :: "'s \<Rightarrow> ('s, 'v, 'h) writer \<Rightarrow> bool" where
  "writer_ok s0 w \<longleftrightarrow> (\<exists>past. flow_ok past w) \<and> replay_ok s0 w"

subsection \<open>Facts about the reference\<close>

lemma replay_append: "replay (xs @ ys) st = Option.bind (replay xs st) (replay ys)"
  by (induction xs st rule: replay.induct) (auto split: outcome.split)

lemma replay_hooks: "replay xs (s, hooks @ hs) = map_option (\<lambda>(t, h). (t, hooks @ h)) (replay xs (s, hs))"
  by (induction xs "(s, hs)" arbitrary: s hs rule: replay.induct) (auto split: outcome.split)

lemma replay_hooks_Some: "replay xs (s, []) = Some (t, h) \<Longrightarrow> replay xs (s, hooks) = Some (t, hooks @ h)"
  using replay_hooks [of xs s hooks "[]"] by simp

lemma granted_simps [simp]:
  "granted [] = []" "granted ((i, Inl e) # as) = granted as" "granted ((i, Inr v) # as) = (i, v) # granted as"
  "granted (as @ bs) = granted as @ granted bs"
  by (simp_all add: granted_def)

lemma granted_refused [simp]: "granted (finish_with e rs) = []"
  by (induction rs) (simp_all add: finish_with_def)

lemma fst_finish_with [simp]: "map fst (finish_with e rs) = map rn_id rs"
  by (simp add: finish_with_def comp_def)

lemma granted_subseq: "subseq (map fst (granted as)) (map fst as)"
  by (induction as) (auto simp: granted_def split: sum.split)

lemma granted_ids: "fst ` set (granted as) \<subseteq> fst ` set as"
  by (auto simp: granted_def image_iff split: sum.splits) force

lemma claim_True [simp]: "claim to i slots = (True, slots') \<longleftrightarrow> slots i = Pending \<and> slots' = slots(i := to)"
  by (auto simp: claim_def)

lemma claim_False [simp]: "claim to i slots = (False, slots') \<longleftrightarrow> slots i \<noteq> Pending \<and> slots' = slots"
  by (auto simp: claim_def)

lemma flow_sent: "flow_ok past w \<Longrightarrow> i \<in> fst ` set (all_answers w) \<Longrightarrow> i \<in> sent_ids w"
  by (auto simp: flow_ok_def)

lemma job_of_sent: "flow_ok past w \<Longrightarrow> j \<in> set (wr_sent w) \<Longrightarrow> job_of w (jb_id j) = j"
  unfolding job_of_def flow_ok_def by (metis find_distinct_key option.sel)

lemma flow_sent_jobs: "flow_ok past w \<Longrightarrow> set (wr_sent w) = set past \<union> set (held (wr_phase w)) \<union> set (wr_queue w)"
  unfolding flow_ok_def by (metis set_append sup_assoc)

subsection \<open>What a move does to the flow\<close>

text \<open>A move that only hands jobs on.\<close>

lemma flow_same:
  assumes "flow_ok past w" and "held (wr_phase w') @ wr_queue w' = held (wr_phase w) @ wr_queue w"
    and "ran_answers (wr_phase w') = ran_answers (wr_phase w)" and "wr_sent w' = wr_sent w"
    and "wr_slot w' = wr_slot w" and "wr_answers w' = wr_answers w"
  shows "flow_ok past w'"
  using assms(1) unfolding flow_ok_def all_answers_def sent_ids_def assms(2-6) .

text \<open>A move past the next job \<open>j\<close>, whose slot is claimed unless it was abandoned; \<open>new\<close> is what it is
  answered, at once or at the end of the batch.\<close>

lemma flow_past:
  assumes ok: "flow_ok past w" and "held (wr_phase w) = j # held (wr_phase w')" and "wr_queue w' = wr_queue w"
    and "wr_sent w' = wr_sent w" and "wr_slot w' = (if wr_slot w (jb_id j) = Pending then (wr_slot w)(jb_id j := Taken) else wr_slot w)"
    and ans: "wr_answers w' = wr_answers w @ now" and ran: "ran_answers (wr_phase w') = ran_answers (wr_phase w) @ later"
    and new: "map fst (now @ later) = (if wr_slot w (jb_id j) = Pending then [jb_id j] else [])" and "granted now = []"
  shows "flow_ok (past @ [j]) w'"
proof -
  have f: "past @ j # held (wr_phase w') @ wr_queue w = wr_sent w" "distinct (map jb_id (wr_sent w))"
    "\<forall>x\<in>set past. wr_slot w (jb_id x) \<noteq> Pending \<and> (wr_slot w (jb_id x) = Taken \<longrightarrow> jb_id x \<in> fst ` set (all_answers w))"
    "\<forall>x\<in>set (j # held (wr_phase w') @ wr_queue w). wr_slot w (jb_id x) \<noteq> Taken"
    "\<forall>i. i \<notin> sent_ids w \<longrightarrow> wr_slot w i = Pending"
    "\<forall>i. wr_slot w i = Abandoned \<longrightarrow> (i, Inl (Busy ack_bound_ms)) \<in> set (wr_answers w)"
    "distinct (map fst (all_answers w))" "\<forall>i\<in>fst ` set (all_answers w). wr_slot w i \<noteq> Pending"
    "subseq (map fst (granted (wr_answers w)) @ map fst (ran_answers (wr_phase w))) (map jb_id past)"
    using ok [unfolded flow_ok_def assms(2) append_Cons] by blast+
  have ids: "jb_id x \<noteq> jb_id j" if "x \<in> set past \<union> set (held (wr_phase w')) \<union> set (wr_queue w)" for x
    using that f(2) by (auto simp: f(1) [symmetric] image_iff)
  have all: "set (all_answers w') = set (all_answers w) \<union> set (now @ later)"
    "mset (map fst (all_answers w')) = mset (map fst (all_answers w)) + mset (map fst (now @ later))"
    by (auto simp: all_answers_def ans ran)
  have new_ids: "fst ` set (now @ later) = (if wr_slot w (jb_id j) = Pending then {jb_id j} else {})"
    using arg_cong [OF new, of set] by (simp only: list.set_map) (simp split: if_splits)
  have sub: "subseq (map fst (granted (wr_answers w')) @ map fst (ran_answers (wr_phase w'))) (map jb_id (past @ [j]))"
  proof -
    have "subseq (map fst later) [jb_id j]"
      using new by (cases now) (auto split: if_splits)
    then have "subseq ((map fst (granted (wr_answers w)) @ map fst (ran_answers (wr_phase w))) @ map fst later) (map jb_id past @ [jb_id j])"
      by (rule list_emb_append_mono [OF f(9)])
    then show ?thesis by (simp add: ans ran assms(9))
  qed
  have dist: "distinct (map fst (all_answers w'))"
  proof -
    have "jb_id j \<notin> fst ` set (all_answers w)" if "wr_slot w (jb_id j) = Pending" using f(8) that by auto
    then have "distinct (map fst (all_answers w) @ map fst (now @ later))"
      using f(7) unfolding new by auto
    then show ?thesis using all(2) by (metis mset_append mset_eq_imp_distinct_iff)
  qed
  show ?thesis
    unfolding flow_ok_def
  proof (intro conjI)
    show "\<forall>x\<in>set (past @ [j]). wr_slot w' (jb_id x) \<noteq> Pending
        \<and> (wr_slot w' (jb_id x) = Taken \<longrightarrow> jb_id x \<in> fst ` set (all_answers w'))"
      using f(3,4) ids new_ids by (auto simp: assms(5) all image_Un split: if_splits)
    show "\<forall>i\<in>fst ` set (all_answers w'). wr_slot w' i \<noteq> Pending"
      using f(8) new_ids unfolding all image_Un by (auto simp: assms(5) split: if_splits)
    show "\<forall>x\<in>set (held (wr_phase w') @ wr_queue w'). wr_slot w' (jb_id x) \<noteq> Taken"
      using f(4) ids by (auto simp: assms(3,5))
    show "\<forall>i. i \<notin> sent_ids w' \<longrightarrow> wr_slot w' i = Pending"
      using f(5) by (auto simp: assms(4,5) sent_ids_def f(1) [symmetric])
    show "\<forall>i. wr_slot w' i = Abandoned \<longrightarrow> (i, Inl (Busy ack_bound_ms)) \<in> set (wr_answers w')"
      using f(6) by (auto simp: assms(5) ans split: if_splits)
  qed (use f(1,2) sub dist in \<open>simp_all add: assms(3,4)\<close>)
qed

text \<open>The end of a batch: its answers are given, as they are or refused.\<close>

lemma flow_end:
  assumes ok: "flow_ok past w" and "held (wr_phase w) = []" and "held (wr_phase w') = []" and "wr_queue w' = wr_queue w"
    and "wr_sent w' = wr_sent w" and "wr_slot w' = wr_slot w" and "ran_answers (wr_phase w') = []"
    and "wr_answers w' = wr_answers w @ given" and "map fst given = map fst (ran_answers (wr_phase w))"
  shows "flow_ok past w'"
proof -
  note raw = ok [unfolded flow_ok_def assms(2) append_Nil]
  have ids: "map fst (all_answers w') = map fst (all_answers w)"
    by (simp add: all_answers_def assms(7,8,9))
  then have set_ids: "fst ` set (all_answers w') = fst ` set (all_answers w)"
    by (metis list.set_map)
  have "subseq (map fst (granted given)) (map fst (ran_answers (wr_phase w)))"
    using granted_subseq [of given] by (simp add: assms(9))
  then have "subseq (map fst (granted (wr_answers w)) @ map fst (granted given)) (map fst (granted (wr_answers w)) @ map fst (ran_answers (wr_phase w)))"
    by (simp add: list_emb_append_mono)
  with raw have sub: "subseq (map fst (granted (wr_answers w)) @ map fst (granted given)) (map jb_id past)"
    by (metis subseq_order.order_trans)
  then show ?thesis
    using raw by (simp add: flow_ok_def assms(3-8) set_ids ids sent_ids_def)
qed

lemma flow_send:
  assumes ok: "flow_ok past w" and "send_job False True j w = Inr w'" and "jb_id j \<notin> sent_ids w"
  shows "flow_ok past w'"
proof -
  have w': "w' = w\<lparr>wr_sent := wr_sent w @ [j], wr_queue := wr_queue w @ [j]\<rparr>"
    using assms(2) by (simp add: send_job_def)
  note raw = ok [unfolded flow_ok_def all_answers_def]
  then have "past @ held (wr_phase w) @ wr_queue w @ [j] = wr_sent w @ [j]" by (metis append_assoc)
  moreover have "wr_slot w (jb_id j) = Pending" using raw assms(3) by blast
  ultimately show ?thesis
    using raw assms(3) by (simp add: flow_ok_def w' all_answers_def sent_ids_def)
qed

lemma flow_give_up:
  assumes ok: "flow_ok past w" and "j \<in> set (wr_sent w)"
  shows "flow_ok past (give_up (jb_id j) w)"
proof (cases "wr_slot w (jb_id j) = Pending")
  case True
  let ?i = "jb_id j" and ?w = "give_up (jb_id j) w" and ?ans = "(jb_id j, Inl (Busy ack_bound_ms))"
  have w': "?w = w\<lparr>wr_slot := (wr_slot w)(?i := Abandoned), wr_answers := wr_answers w @ [?ans]\<rparr>"
    using True by (simp add: give_up_def claim_def)
  note raw = ok [unfolded flow_ok_def]
  have fresh: "?i \<notin> fst ` set (all_answers w)" "\<forall>x\<in>set past. jb_id x \<noteq> ?i"
    using raw True by (blast, metis)
  have all: "mset (map fst (all_answers ?w)) = mset (?i # map fst (all_answers w))"
    "set (all_answers ?w) = insert ?ans (set (all_answers w))"
    by (auto simp: all_answers_def w')
  have "distinct (?i # map fst (all_answers w))" using raw fresh(1) by simp
  then have "distinct (map fst (all_answers ?w))" using all(1) by (metis mset_eq_imp_distinct_iff)
  moreover have "\<forall>i. i \<notin> sent_ids ?w \<longrightarrow> wr_slot ?w i = Pending"
    using raw assms(2) by (simp add: w' sent_ids_def)
  ultimately show ?thesis
    using raw fresh by (simp add: flow_ok_def all(2)) (simp add: w')
next
  case False
  then show ?thesis using ok by (simp add: give_up_def claim_def)
qed

subsection \<open>Every step keeps the flow and the replay\<close>

lemma job_of_cong: "wr_sent w' = wr_sent w \<Longrightarrow> job_of w' = job_of w"
  by (simp add: job_of_def fun_eq_iff)

lemma replay_same:
  assumes "replay_ok s0 w" and "wr_sent w' = wr_sent w" and "granted (wr_answers w') = granted (wr_answers w)"
    and "wr_db w' = wr_db w" and "wr_hooks w' = wr_hooks w"
    and "in_open_batch (wr_phase w') \<Longrightarrow> in_open_batch (wr_phase w) \<and> ran_answers (wr_phase w') = ran_answers (wr_phase w)
      \<and> current (wr_phase w') (wr_db w') = current (wr_phase w) (wr_db w) \<and> ran_hooks (wr_phase w') = ran_hooks (wr_phase w)"
  shows "replay_ok s0 w'"
  using assms by (simp add: replay_ok_def applied_def job_of_cong [OF assms(2)])

text \<open>Running one job in the open batch is one step of the reference.\<close>

lemma run_work_replay:
  assumes "in_savepoint opens releases (run_work j) tx = (result, tx')"
  shows "replay (map (\<lambda>(i, v). (j, v)) (granted [(jb_id j, map_sum id fst result)])) (tx, hooks)
    = Some (tx', hooks @ (case result of Inr (_, hs) \<Rightarrow> hs | Inl _ \<Rightarrow> []))"
  using assms by (auto simp: in_savepoint_def run_work_def split: option.splits sum.splits outcome.splits)

lemma run_next_ok:
  assumes flow: "flow_ok past w" and rep: "replay_ok s0 w" and go: "run_next env w = Some w'"
  shows "writer_ok s0 w'"
proof -
  obtain tx j rest finished lost where p: "wr_phase w = InBatch tx (j # rest) finished lost"
    using go by (auto simp: run_next_def split: phase.splits list.splits)
  have sent: "j \<in> set (wr_sent w)" using flow_sent_jobs [OF flow] by (simp add: p held_def)
  show ?thesis
  proof (cases "wr_slot w (jb_id j) = Pending \<and> \<not> lost")
    case False
    define now where "now = (if wr_slot w (jb_id j) = Pending then [(jb_id j, Inl batch_lost :: store_error + 'b)] else [])"
    have w': "wr_phase w' = InBatch tx rest finished lost" "wr_queue w' = wr_queue w" "wr_sent w' = wr_sent w"
        "wr_slot w' = (if wr_slot w (jb_id j) = Pending then (wr_slot w)(jb_id j := Taken) else wr_slot w)"
        "wr_answers w' = wr_answers w @ now" "wr_db w' = wr_db w" "wr_hooks w' = wr_hooks w"
      using go False by (auto simp: run_next_def p claim_def answer_def now_def split: if_splits)
    have "granted now = []" "map fst now = (if wr_slot w (jb_id j) = Pending then [jb_id j] else [])"
      by (simp_all add: now_def)
    then have "flow_ok (past @ [j]) w'" "replay_ok s0 w'"
      using flow_past [OF flow, of j w' now "[]"] replay_same [OF rep w'(3)] w'
      by (simp_all add: p held_def ran_answers_def in_open_batch_def current_def ran_hooks_def)
    then show ?thesis by (auto simp: writer_ok_def)
  next
    case True
    obtain result tx' where r: "in_savepoint (je_opens env) (je_releases env) (run_work j) tx = (result, tx')"
      by (cases "in_savepoint (je_opens env) (je_releases env) (run_work j) tx") 
    define entry where "entry = \<lparr>rn_id = jb_id j, rn_result = map_sum id fst result,
                               rn_hooks = (case result of Inr (_, hooks) \<Rightarrow> hooks | Inl _ \<Rightarrow> [])\<rparr>"
    have w': "wr_phase w' = InBatch tx' rest (finished @ [entry]) (je_rolled_back env)" "wr_queue w' = wr_queue w"
        "wr_sent w' = wr_sent w" "wr_slot w' = (wr_slot w)(jb_id j := Taken)"
        "wr_answers w' = wr_answers w" "wr_db w' = wr_db w" "wr_hooks w' = wr_hooks w"
      using go True by (auto simp: run_next_def p claim_def r entry_def)
    have later: "ran_answers (wr_phase w') = ran_answers (wr_phase w) @ [(jb_id j, map_sum id fst result)]"
      by (simp add: w'(1) p ran_answers_def entry_def)
    have "flow_ok (past @ [j]) w'"
      using flow_past [OF flow, of j w' "[]" "[(jb_id j, map_sum id fst result)]"] w' later True
      by (simp add: p held_def)
    moreover have "replay_ok s0 w'"
    proof -
      have old: "replay (map (\<lambda>(i, v). (job_of w i, v)) (granted (ran_answers (wr_phase w)))) (wr_db w, []) = Some (tx, ran_hooks (wr_phase w))"
        using rep True by (simp add: replay_ok_def p in_open_batch_def current_def)
      have one: "map (\<lambda>(i, v). (job_of w i, v)) (granted [(jb_id j, map_sum id fst result)])
          = map (\<lambda>(i, v). (j, v)) (granted [(jb_id j, map_sum id fst result)])"
        using job_of_sent [OF flow sent] by (cases result) simp_all
      have "replay (map (\<lambda>(i, v). (job_of w i, v)) (granted [(jb_id j, map_sum id fst result)])) (tx, ran_hooks (wr_phase w))
          = Some (tx', ran_hooks (wr_phase w'))"
        unfolding one run_work_replay [OF r] by (simp add: ran_hooks_def w'(1) p entry_def)
      with old have "replay (map (\<lambda>(i, v). (job_of w i, v)) (granted (ran_answers (wr_phase w')))) (wr_db w, [])
          = Some (tx', ran_hooks (wr_phase w'))"
        unfolding later by (simp only: granted_simps(4) map_append replay_append bind.bind_lunit)
      then show ?thesis
        using rep by (simp add: replay_ok_def applied_def job_of_cong [OF w'(3)] w' current_def)
    qed
    ultimately show ?thesis by (auto simp: writer_ok_def)
  qed
qed

lemma hand_on_ok:
  assumes flow: "flow_ok past w" and rep: "replay_ok s0 w"
    and go: "first_job w = Some w' \<or> next_job w = Some w' \<or> close_batch window_over w = Some w' \<or> begin_batch failure w = Some w'"
  shows "writer_ok s0 w'"
proof -
  have same: "held (wr_phase w') @ wr_queue w' = held (wr_phase w) @ wr_queue w" "ran_answers (wr_phase w') = ran_answers (wr_phase w)"
      "wr_sent w' = wr_sent w" "wr_slot w' = wr_slot w" "wr_answers w' = wr_answers w" "wr_db w' = wr_db w" "wr_hooks w' = wr_hooks w"
    using go by (auto simp: first_job_def next_job_def close_batch_def begin_batch_def held_def ran_answers_def
        split: phase.splits list.splits if_splits option.splits)
  have "flow_ok past w'" by (rule flow_same [OF flow same(1-5)])
  moreover have "replay_ok s0 w'"
  proof (cases "in_open_batch (wr_phase w')")
    case True
    then obtain batch where "wr_phase w' = InBatch (wr_db w) batch [] False"
      using go by (auto simp: first_job_def next_job_def close_batch_def begin_batch_def in_open_batch_def
          split: phase.splits list.splits if_splits option.splits)
    then show ?thesis
      using rep by (simp add: replay_ok_def applied_def job_of_cong [OF same(3)] same ran_answers_def ran_hooks_def current_def)
  next
    case False
    then show ?thesis using replay_same [OF rep same(3)] same by simp
  qed
  ultimately show ?thesis by (auto simp: writer_ok_def)
qed

lemma refuse_job_ok:
  assumes flow: "flow_ok past w" and rep: "replay_ok s0 w" and go: "refuse_job show_error w = Some w'"
  shows "writer_ok s0 w'"
proof -
  obtain err batch where p: "wr_phase w = Refusing err batch"
    using go by (auto simp: refuse_job_def split: phase.splits)
  show ?thesis
  proof (cases batch)
    case Nil
    then have w': "w' = w\<lparr>wr_phase := Idle\<rparr>" using go by (simp add: refuse_job_def p)
    have "flow_ok past w'" by (rule flow_same [OF flow]) (simp_all add: w' p Nil held_def ran_answers_def)
    moreover have "replay_ok s0 w'" by (rule replay_same [OF rep]) (simp_all add: w' in_open_batch_def)
    ultimately show ?thesis by (auto simp: writer_ok_def)
  next
    case (Cons j rest)
    define now where "now = (if wr_slot w (jb_id j) = Pending
      then [(jb_id j, Inl (batch_failure show_error err) :: store_error + 'b)] else [])"
    have w': "wr_phase w' = Refusing err rest" "wr_queue w' = wr_queue w" "wr_sent w' = wr_sent w"
        "wr_slot w' = (if wr_slot w (jb_id j) = Pending then (wr_slot w)(jb_id j := Taken) else wr_slot w)"
        "wr_answers w' = wr_answers w @ now" "wr_db w' = wr_db w" "wr_hooks w' = wr_hooks w"
      using go by (auto simp: refuse_job_def p Cons claim_def answer_def now_def split: if_splits)
    have "granted now = []" "map fst now = (if wr_slot w (jb_id j) = Pending then [jb_id j] else [])"
      by (simp_all add: now_def)
    then have "flow_ok (past @ [j]) w'" "replay_ok s0 w'"
      using flow_past [OF flow, of j w' now "[]"] replay_same [OF rep w'(3)] w'
      by (simp_all add: p Cons held_def ran_answers_def in_open_batch_def)
    then show ?thesis by (auto simp: writer_ok_def)
  qed
qed

lemma end_batch_ok:
  assumes flow: "flow_ok past w" and rep: "replay_ok s0 w" and go: "end_batch show_error failure w = Some w'"
  shows "writer_ok s0 w'"
proof -
  obtain tx finished lost where p: "wr_phase w = InBatch tx [] finished lost"
    using go by (auto simp: end_batch_def split: phase.splits list.splits)
  define given where "given = (if lost then finish_with batch_lost finished
    else case failure of None \<Rightarrow> map (\<lambda>r. (rn_id r, rn_result r)) finished
       | Some err \<Rightarrow> finish_with (batch_failure show_error err) finished)"
  have w': "wr_phase w' = Idle" "wr_queue w' = wr_queue w" "wr_sent w' = wr_sent w" "wr_slot w' = wr_slot w"
      "wr_answers w' = wr_answers w @ given"
    using go by (auto simp: end_batch_def p given_def split: option.splits if_splits)
  have ids: "map fst given = map fst (ran_answers (wr_phase w))"
    by (simp add: given_def p ran_answers_def comp_def split: option.split)
  have flow': "flow_ok past w'"
    by (rule flow_end [OF flow _ _ w'(2,3,4) _ w'(5) ids]) (simp_all add: p w'(1) held_def ran_answers_def)
  have "replay_ok s0 w'"
  proof (cases "lost \<or> failure \<noteq> None")
    case True
    then have "granted given = []" "wr_db w' = wr_db w" "wr_hooks w' = wr_hooks w"
      using go by (auto simp: end_batch_def p given_def split: option.splits if_splits)
    then show ?thesis using replay_same [OF rep w'(3)] by (simp add: w' in_open_batch_def)
  next
    case False
    then have given: "given = ran_answers (wr_phase w)" "wr_db w' = tx" "wr_hooks w' = wr_hooks w @ ran_hooks (wr_phase w)"
      using go by (auto simp: end_batch_def p given_def ran_answers_def ran_hooks_def)
    have "replay (map (\<lambda>(i, v). (job_of w i, v)) (granted given)) (wr_db w, []) = Some (tx, ran_hooks (wr_phase w))"
      using rep False by (simp add: replay_ok_def p in_open_batch_def current_def given(1))
    from replay_hooks_Some [OF this, of "wr_hooks w"]
    show ?thesis
      using rep by (simp add: replay_ok_def applied_def job_of_cong [OF w'(3)] w' replay_append given(2,3) in_open_batch_def)
  qed
  with flow' show ?thesis by (auto simp: writer_ok_def)
qed

lemma send_ok:
  assumes flow: "flow_ok past w" and rep: "replay_ok s0 w" and go: "send_job False True j w = Inr w'" and fresh: "jb_id j \<notin> sent_ids w"
  shows "writer_ok s0 w'"
proof -
  have w': "w' = w\<lparr>wr_sent := wr_sent w @ [j], wr_queue := wr_queue w @ [j]\<rparr>" using go by (simp add: send_job_def)
  have job: "job_of w' i = job_of w i" if "i \<in> sent_ids w" for i
  proof -
    have "find (\<lambda>j. jb_id j = i) (wr_sent w) \<noteq> None" using that by (auto simp: sent_ids_def find_None_all)
    then show ?thesis by (auto simp: job_of_def w' find_append split: option.split)
  qed
  have "map (\<lambda>(i, v). (job_of w' i, v)) (granted as) = map (\<lambda>(i, v). (job_of w i, v)) (granted as)"
    if "set as \<subseteq> set (all_answers w)" for as
    using that granted_ids [of as] flow_sent [OF flow] job by (intro map_cong refl) (force split: prod.split)
  note same = this
  have fields: "wr_answers w' = wr_answers w" "wr_phase w' = wr_phase w" "wr_db w' = wr_db w" "wr_hooks w' = wr_hooks w"
    by (simp_all add: w')
  have "set (wr_answers w) \<subseteq> set (all_answers w)" "set (ran_answers (wr_phase w)) \<subseteq> set (all_answers w)"
    by (auto simp: all_answers_def)
  then have "replay_ok s0 w'"
    using rep unfolding replay_ok_def applied_def fields by (simp only: same) simp
  with flow_send [OF flow go fresh] show ?thesis by (auto simp: writer_ok_def)
qed

lemma give_up_ok:
  assumes flow: "flow_ok past w" and rep: "replay_ok s0 w" and sent: "j \<in> set (wr_sent w)"
  shows "writer_ok s0 (give_up (jb_id j) w)"
proof -
  have "replay_ok s0 (give_up (jb_id j) w)"
    by (cases "wr_slot w (jb_id j) = Pending"; rule replay_same [OF rep]) (simp_all add: give_up_def claim_def)
  with flow_give_up [OF flow sent] show ?thesis by (auto simp: writer_ok_def)
qed

lemma writer_step_ok: "writer_step show_error w w' \<Longrightarrow> writer_ok s0 w \<Longrightarrow> writer_ok s0 w'"
proof (induction rule: writer_step.induct)
  case (send j w w')
  then show ?case using send_ok [of _ w s0 j w'] by (auto simp: writer_ok_def sent_ids_def)
next
  case (timeout j w w')
  then show ?case using give_up_ok [of _ w s0 j] by (auto simp: writer_ok_def)
next
  case (move w w')
  then obtain past where "flow_ok past w" "replay_ok s0 w" by (auto simp: writer_ok_def)
  note ok = hand_on_ok [OF this] refuse_job_ok [OF this] run_next_ok [OF this] end_batch_ok [OF this]
  from move.hyps show ?case by cases (use ok in blast)+
qed

lemma fresh_writer_ok: "writer_ok s0 (fresh_writer s0)"
  by (simp add: writer_ok_def replay_ok_def flow_ok_def fresh_writer_def held_def ran_answers_def all_answers_def
      applied_def in_open_batch_def)

lemma writer_reachable_ok: "writer_reachable show_error s0 w \<Longrightarrow> writer_ok s0 w"
  by (induction rule: writer_reachable.induct) (auto intro: fresh_writer_ok writer_step_ok)

section \<open>Serializability\<close>

lemma granted_iff: "(i, v) \<in> set (granted as) \<longleftrightarrow> (i, Inr v) \<in> set as"
  by (induction as) (auto simp: granted_def split: sum.splits)

text \<open>(C4) However callers, timeouts, failing savepoints, panics, lost transactions and failed commits
  interleave, the store and the hooks run are what one job after another would have made of them: exactly
  the jobs answered with a value, in the order they were sent, each on the store the previous one left and
  each giving the value it was answered. Every job is answered at most once, and a job answered with an
  error, the retryable Busy included, has changed nothing.\<close>

theorem writer_is_serializable:
  assumes "writer_reachable show_error s0 w"
  shows "replay (applied w) (s0, []) = Some (wr_db w, wr_hooks w)
     \<and> subseq (map fst (applied w)) (wr_sent w)
     \<and> (\<forall>j v. (j, v) \<in> set (applied w) \<longleftrightarrow> j \<in> set (wr_sent w) \<and> (jb_id j, Inr v) \<in> set (wr_answers w))
     \<and> distinct (map fst (wr_answers w)) \<and> fst ` set (wr_answers w) \<subseteq> sent_ids w"
proof -
  obtain past where flow: "flow_ok past w" and rep: "replay_ok s0 w"
    using writer_reachable_ok [OF assms] by (auto simp: writer_ok_def)
  note raw = flow [unfolded flow_ok_def]
  have ids: "fst ` set (wr_answers w) \<subseteq> sent_ids w"
    using flow_sent [OF flow] by (auto simp: all_answers_def)
  have "subseq (map fst (granted (wr_answers w))) (map fst (granted (wr_answers w)) @ map fst (ran_answers (wr_phase w)))"
    by (rule prefix_imp_subseq) simp
  then have "subseq (map fst (granted (wr_answers w))) (map jb_id past)"
    using raw by (metis subseq_order.order_trans)
  then have "subseq (map fst (granted (wr_answers w))) (map jb_id (wr_sent w))"
    using raw by (metis map_append subseq_rev_drop_many)
  then have "subseq (map (job_of w) (map fst (granted (wr_answers w)))) (map (job_of w) (map jb_id (wr_sent w)))"
    by (rule subseq_map)
  moreover have "map (job_of w) (map jb_id (wr_sent w)) = wr_sent w"
    using job_of_sent [OF flow] by (simp add: map_idI)
  moreover have "map fst (applied w) = map (job_of w) (map fst (granted (wr_answers w)))"
    by (simp add: applied_def split_beta)
  ultimately have "subseq (map fst (applied w)) (wr_sent w)" by simp
  moreover have "(j, v) \<in> set (applied w) \<longleftrightarrow> j \<in> set (wr_sent w) \<and> (jb_id j, Inr v) \<in> set (wr_answers w)" for j v
  proof
    assume "(j, v) \<in> set (applied w)"
    then obtain i where i: "(i, Inr v) \<in> set (wr_answers w)" "j = job_of w i" by (auto simp: applied_def granted_iff)
    then obtain x where "x \<in> set (wr_sent w)" "i = jb_id x" using ids by (force simp: sent_ids_def)
    then show "j \<in> set (wr_sent w) \<and> (jb_id j, Inr v) \<in> set (wr_answers w)" using i job_of_sent [OF flow] by simp
  next
    assume "j \<in> set (wr_sent w) \<and> (jb_id j, Inr v) \<in> set (wr_answers w)"
    then have "(jb_id j, v) \<in> set (granted (wr_answers w))" "job_of w (jb_id j) = j"
      using job_of_sent [OF flow, of j] by (simp_all add: granted_iff)
    then show "(j, v) \<in> set (applied w)" by (auto simp: applied_def image_iff intro!: bexI [of _ "(jb_id j, v)"])
  qed
  moreover have "distinct (map fst (wr_answers w))" using raw by (simp add: all_answers_def)
  ultimately show ?thesis using rep ids by (simp add: replay_ok_def)
qed

section \<open>Draining\<close>

text \<open>An upper bound on the moves the writer has left before it waits for a job.\<close>

definition writer_work :: "('s, 'v, 'h) writer \<Rightarrow> nat" where
  "writer_work w = 8 * length (wr_queue w)
     + (case wr_phase w of Idle \<Rightarrow> 0 | Collecting b _ _ \<Rightarrow> 4 * length b + 3 | Collected b \<Rightarrow> 4 * length b + 2
        | Refusing _ b \<Rightarrow> 2 * length b + 1 | InBatch _ b _ _ \<Rightarrow> 2 * length b + 1)"

lemmas move_defs = first_job_def next_job_def close_batch_def begin_batch_def refuse_job_def run_next_def
  end_batch_def answer_def claim_def

lemma writer_move_works: "writer_move show_error w w' \<Longrightarrow> writer_work w' < writer_work w \<and> wr_sent w' = wr_sent w"
  by (induction rule: writer_move.induct)
    (auto simp: writer_work_def move_defs Let_def split: phase.splits list.splits if_splits prod.splits option.splits)

lemma writer_moves_work:
  "(writer_move show_error ^^ n) w w' \<Longrightarrow> n + writer_work w' \<le> writer_work w \<and> wr_sent w' = wr_sent w"
proof (induction n arbitrary: w')
  case (Suc n)
  then obtain v where "(writer_move show_error ^^ n) w v" "writer_move show_error v w'" by auto
  with Suc.IH [of v] writer_move_works [of show_error v w'] show ?case by auto
qed simp

lemma writer_moves_reachable:
  "(writer_move show_error ^^ n) w w' \<Longrightarrow> writer_reachable show_error s0 w \<Longrightarrow> writer_reachable show_error s0 w'"
  by (induction n arbitrary: w') (auto intro: writer_reachable.step writer_step.move)

text \<open>Whatever SQLite answers, a writer with something to do has a move.\<close>

lemma writer_moves_on:
  assumes "wr_phase w \<noteq> Idle \<or> wr_queue w \<noteq> []"
  shows "\<exists>w'. writer_move show_error w w'"
proof (cases "wr_phase w")
  case Idle
  with assms have "first_job w \<noteq> None" by (auto simp: first_job_def split: list.splits)
  then show ?thesis by (auto intro: writer_move.first)
next
  case (Collecting b weight acked)
  show ?thesis
  proof (cases "weight < batch_max_events \<and> wr_queue w \<noteq> []")
    case True
    with Collecting have "next_job w \<noteq> None" by (auto simp: next_job_def split: list.splits)
    then show ?thesis by (auto intro: writer_move.collect)
  next
    case False
    with Collecting have "close_batch True w \<noteq> None" by (auto simp: close_batch_def)
    then show ?thesis by (auto intro: writer_move.stop)
  qed
next
  case (Collected b)
  then have "begin_batch None w \<noteq> None" by (simp add: begin_batch_def)
  then show ?thesis by (auto intro: writer_move.open_tx)
next
  case (Refusing e b)
  then have "refuse_job show_error w \<noteq> None"
    by (auto simp: refuse_job_def claim_def split: list.splits prod.splits if_splits)
  then show ?thesis by (auto intro: writer_move.refuse)
next
  case (InBatch tx b finished lost)
  show ?thesis
  proof (cases b)
    case Nil
    then have "end_batch show_error None w \<noteq> None" using InBatch by (simp add: end_batch_def)
    then show ?thesis by (auto intro: writer_move.finish)
  next
    case (Cons j rest)
    then have "run_next env w \<noteq> None" for env using InBatch
      by (auto simp: run_next_def claim_def Let_def split: prod.splits bool.splits if_splits)
    then obtain w' where "run_next undefined w = Some w'" by blast
    then show ?thesis by (blast intro: writer_move.run)
  qed
qed

lemma idle_writer_has_answered:
  assumes "writer_ok s0 w" "wr_phase w = Idle" "wr_queue w = []" "j \<in> set (wr_sent w)"
  shows "\<exists>r. (jb_id j, r) \<in> set (wr_answers w)"
proof -
  obtain past where "flow_ok past w" using assms by (auto simp: writer_ok_def)
  then have "wr_slot w (jb_id j) \<noteq> Pending"
    "wr_slot w (jb_id j) = Taken \<longrightarrow> jb_id j \<in> fst ` set (wr_answers w)"
    "wr_slot w (jb_id j) = Abandoned \<longrightarrow> (jb_id j, Inl (Busy ack_bound_ms)) \<in> set (wr_answers w)"
    using assms by (auto simp: flow_ok_def held_def all_answers_def ran_answers_def)
  then show ?thesis by (cases "wr_slot w (jb_id j)") (auto intro: exI)
qed

text \<open>(C5) The writer never hangs and never drops a job: whatever SQLite answers, a run of the writer's own
  moves is no longer than its work (eight moves for a queued job at most), it can only stop when it is idle
  with an empty queue, and then every job ever sent has been answered.\<close>

theorem writer_drains:
  assumes "writer_reachable show_error s0 w" "(writer_move show_error ^^ n) w w'"
  shows "n + writer_work w' \<le> writer_work w
     \<and> ((\<nexists>w''. writer_move show_error w' w'') \<longrightarrow>
          wr_phase w' = Idle \<and> wr_queue w' = []
          \<and> (\<forall>j\<in>set (wr_sent w). \<exists>r. (jb_id j, r) \<in> set (wr_answers w')))"
proof -
  have ok: "writer_ok s0 w'"
    by (rule writer_reachable_ok [OF writer_moves_reachable [OF assms(2,1)]])
  show ?thesis
    using writer_moves_work [OF assms(2)] writer_moves_on [of w' show_error] idle_writer_has_answered [OF ok]
    by metis
qed

section \<open>One run\<close>

text \<open>Two jobs on a counter in one batch, the second of them failing.\<close>

definition demo_jobs :: "(nat, nat, nat) job list" where
  "demo_jobs = [\<lparr>jb_id = 1, jb_acked = True, jb_weight = 1, jb_work = (\<lambda>s. Done (s, s + 5, [s]))\<rparr>,
                \<lparr>jb_id = 2, jb_acked = True, jb_weight = 1, jb_work = (\<lambda>_. Panics)\<rparr>]"

definition demo_run :: "(nat, nat, nat) writer \<Rightarrow> (nat, nat, nat) writer option" where
  "demo_run w =
     (let env = \<lparr>je_opens = None, je_releases = None, je_rolled_back = False\<rparr>; go = (\<lambda>f r. Option.bind r f)
      in go (end_batch (\<lambda>_. []) None) (go (run_next env) (go (run_next env) (go (begin_batch None)
           (go (close_batch False) (go next_job (first_job w)))))))"

definition demo_sent :: "(nat, nat, nat) writer" where
  "demo_sent = (fresh_writer 7)\<lparr>wr_sent := demo_jobs, wr_queue := demo_jobs\<rparr>"

lemma demo_sent_reachable: "writer_reachable (\<lambda>_. []) 7 demo_sent"
proof -
  have "writer_reachable (\<lambda>_. []) 7 ((fresh_writer 7)\<lparr>wr_sent := [hd demo_jobs], wr_queue := [hd demo_jobs]\<rparr>)"
    by (rule writer_reachable.step [OF writer_reachable.fresh], rule writer_step.send [where j = "hd demo_jobs"])
      (simp_all add: send_job_def fresh_writer_def)
  then show ?thesis
    by (rule writer_reachable.step, intro writer_step.send [where j = "demo_jobs ! 1"])
      (simp_all add: send_job_def fresh_writer_def demo_sent_def demo_jobs_def)
qed

lemma demo_run_moves:
  assumes "demo_run w = Some w'" shows "(writer_move (\<lambda>_. []) ^^ 7) w w'"
proof -
  note steps = assms [unfolded demo_run_def Let_def bind_eq_Some_conv]
  then obtain a b c d e f where "first_job w = Some a" "next_job a = Some b" "close_batch False b = Some c"
      "begin_batch None c = Some d"
      "run_next \<lparr>je_opens = None, je_releases = None, je_rolled_back = False\<rparr> d = Some e"
      "run_next \<lparr>je_opens = None, je_releases = None, je_rolled_back = False\<rparr> e = Some f"
      "end_batch (\<lambda>_. []) None f = Some w'"
    by (elim exE conjE) auto
  then have "writer_move (\<lambda>_. []) w a" "writer_move (\<lambda>_. []) a b" "writer_move (\<lambda>_. []) b c"
      "writer_move (\<lambda>_. []) c d" "writer_move (\<lambda>_. []) d e" "writer_move (\<lambda>_. []) e f" "writer_move (\<lambda>_. []) f w'"
    by (auto intro: writer_move.intros)
  then have "(writer_move (\<lambda>_. []) ^^ Suc (Suc (Suc (Suc (Suc (Suc (Suc 0))))))) w w'"
    by (meson relpowp_0_I relpowp_Suc_I)
  moreover have "Suc (Suc (Suc (Suc (Suc (Suc (Suc 0)))))) = 7" by simp
  ultimately show ?thesis by simp
qed

lemma demo_run_result:
  "demo_run demo_sent \<noteq> None" "wr_db (the (demo_run demo_sent)) = 12"
  "wr_answers (the (demo_run demo_sent)) = [(1, Inr 7), (2, Inl job_panicked)]"
  "wr_hooks (the (demo_run demo_sent)) = [7]" "wr_sent (the (demo_run demo_sent)) = demo_jobs"
  by (simp_all add: demo_run_def demo_sent_def demo_jobs_def fresh_writer_def move_defs Let_def in_savepoint_def
      run_work_def batch_max_events_def)

lemma demo_run_moved: "(writer_move (\<lambda>_. []) ^^ 7) demo_sent (the (demo_run demo_sent))"
  by (rule demo_run_moves) (use demo_run_result(1) in simp)

theorem writer_is_serializable_witness:
  "replay (applied (the (demo_run demo_sent))) (7, []) = Some (12, [7])"
  using writer_is_serializable [OF writer_moves_reachable [OF demo_run_moved demo_sent_reachable]]
  by (simp add: demo_run_result)

theorem writer_drains_witness: "7 + writer_work (the (demo_run demo_sent)) \<le> writer_work demo_sent"
  using writer_drains [OF demo_sent_reachable demo_run_moved] by simp

end
