(* ===== verification/Memory_Backing.thy ===== *)
theory Memory_Backing
  imports Registry
begin

text \<open>
  The Memory Backing of an instance: its vocabulary (\<open>ports/memory_backing.rs\<close>), the row and the
  guarded writes of \<open>store/sqlite.rs\<close>, and attaching, detaching and reading through the registry
  (\<open>domain/registry.rs\<close>). The managed directory is a parameter: whether its path is a symlink, and
  the error of creating it. The registry's checks read on their own connection, so they may see an older
  database than the writer's transaction does.
\<close>

section \<open>Vocabulary\<close>

datatype backing_kind = Filesystem | Native

fun backing_as_str :: "backing_kind \<Rightarrow> string" where
  "backing_as_str Filesystem = ''filesystem''"
| "backing_as_str Native = ''native''"

definition backing_from_wire :: "string \<Rightarrow> backing_kind option" where
  "backing_from_wire v =
     (if v = ''filesystem'' then Some Filesystem else if v = ''native'' then Some Native else None)"

lemma backing_from_wire_Some [simp]: "backing_from_wire v = Some k \<longleftrightarrow> v = backing_as_str k"
  by (cases k) (auto simp: backing_from_wire_def)

lemma backing_as_str_eq [simp]: "backing_as_str k = backing_as_str k' \<longleftrightarrow> k = k'"
  by (cases k; cases k') auto

lemma lifecycle_as_str_eq [simp]: "lifecycle_as_str a = lifecycle_as_str b \<longleftrightarrow> a = b"
  by (metis lifecycle_wire_roundtrip option.inject)

datatype guarantee_level = ManagedDirByteDurable | HomePersistenceOnly

fun guarantee_for_kind :: "backing_kind \<Rightarrow> guarantee_level" where
  "guarantee_for_kind Filesystem = ManagedDirByteDurable"
| "guarantee_for_kind Native = HomePersistenceOnly"

record memory_backing =
  mb_name :: string
  mb_kind :: backing_kind
  mb_attached :: string

record memory_status =
  ms_kind :: backing_kind
  ms_dir :: string
  ms_declared :: bool
  ms_guarantee :: guarantee_level

section \<open>Rows\<close>

definition row_to_memory_backing :: "string \<Rightarrow> backing_row \<Rightarrow> store_error + memory_backing" where
  "row_to_memory_backing name row =
     (case backing_from_wire (bk_kind row) of
        None \<Rightarrow> Inl (CorruptRow name ''unknown memory backing kind'')
      | Some kind \<Rightarrow> Inr \<lparr>mb_name = name, mb_kind = kind, mb_attached = bk_attached row\<rparr>)"

definition backing_row_at :: "db \<Rightarrow> int \<Rightarrow> backing_row option" where
  "backing_row_at s i = find (\<lambda>b. bk_instance b = i) (db_backings s)"

definition decode_backing :: "string \<Rightarrow> backing_row option \<Rightarrow> store_error + memory_backing option" where
  "decode_backing name row =
     (case row of None \<Rightarrow> Inr None | Some b \<Rightarrow> rbind (row_to_memory_backing name b) (\<lambda>m. Inr (Some m)))"

definition get_memory_backing :: "string \<Rightarrow> db \<Rightarrow> store_error + memory_backing option" where
  "get_memory_backing name s =
     (case instance_id s name of None \<Rightarrow> Inr None | Some i \<Rightarrow> decode_backing name (backing_row_at s i))"

definition upsert_memory_backing :: "memory_backing \<Rightarrow> db \<Rightarrow> store_error + db" where
  "upsert_memory_backing b s =
     (case instance_id s (mb_name b) of
        None \<Rightarrow> Inl (NotFound (mb_name b))
      | Some i \<Rightarrow>
          (let row = \<lparr>bk_instance = i, bk_kind = backing_as_str (mb_kind b), bk_attached = mb_attached b\<rparr>
           in case backing_row_at s i of
                None \<Rightarrow> Inr (s\<lparr>db_backings := db_backings s @ [row]\<rparr>)
              | Some old \<Rightarrow>
                  if bk_kind old \<noteq> backing_as_str (mb_kind b)
                  then Inl (MemoryBackingKindConflict (mb_name b) (bk_kind old) (backing_as_str (mb_kind b)))
                  else Inr (s\<lparr>db_backings := map (\<lambda>x. if bk_instance x = i then row else x) (db_backings s)\<rparr>)))"

definition clear_backing_row :: "int \<Rightarrow> db \<Rightarrow> db" where
  "clear_backing_row i s = s\<lparr>db_backings := filter (\<lambda>x. bk_instance x \<noteq> i) (db_backings s)\<rparr>"

definition clear_memory_backing :: "string \<Rightarrow> db \<Rightarrow> store_error + db" where
  "clear_memory_backing name s =
     (case instance_id s name of None \<Rightarrow> Inr s | Some i \<Rightarrow> Inr (clear_backing_row i s))"

section \<open>Guarded transactions\<close>

definition state_in_txn :: "string \<Rightarrow> db \<Rightarrow> store_error + string" where
  "state_in_txn name s =
     (case find (\<lambda>i. in_name i = name) (db_instances s) of
        None \<Rightarrow> Inl (NotFound name)
      | Some row \<Rightarrow> Inr (in_state row))"

definition backing_in_txn :: "string \<Rightarrow> db \<Rightarrow> store_error + memory_backing option" where
  "backing_in_txn name s =
     decode_backing name (case instance_id s name of None \<Rightarrow> None | Some i \<Rightarrow> backing_row_at s i)"

definition terminal_memory_backing_states :: "lifecycle_state list" where
  "terminal_memory_backing_states = [Registered, Stopped, Failed]"

definition check_terminal :: "string \<Rightarrow> lifecycle_state list \<Rightarrow> db \<Rightarrow> store_error + unit" where
  "check_terminal name terminal s =
     rbind (state_in_txn name s) (\<lambda>state.
       if state \<in> lifecycle_as_str ` set terminal then Inr () else Inl (MemoryBackingHotSwap name state))"

datatype memory_backing_txn = Attached | Idempotent

text \<open>The row exists where the guard has passed (\<open>expect\<close>).\<close>

definition attach_in_txn ::
  "string \<Rightarrow> backing_kind \<Rightarrow> lifecycle_state list \<Rightarrow> string \<Rightarrow> db \<Rightarrow> store_error + (memory_backing_txn \<times> db)" where
  "attach_in_txn name kind terminal now s =
     rbind (check_terminal name terminal s) (\<lambda>_.
       (let i = the (instance_id s name)
        in case backing_row_at s i of
             Some old \<Rightarrow>
               if bk_kind old \<noteq> backing_as_str kind
               then Inl (MemoryBackingKindConflict name (bk_kind old) (backing_as_str kind))
               else Inr (Idempotent, s)
           | None \<Rightarrow>
               Inr (Attached, s\<lparr>db_backings := db_backings s @
                      [\<lparr>bk_instance = i, bk_kind = backing_as_str kind, bk_attached = now\<rparr>]\<rparr>)))"

definition detach_in_txn :: "string \<Rightarrow> lifecycle_state list \<Rightarrow> db \<Rightarrow> store_error + db" where
  "detach_in_txn name terminal s =
     rbind (check_terminal name terminal s) (\<lambda>_. Inr (clear_backing_row (the (instance_id s name)) s))"

definition describe_backing :: "memory_backing option \<Rightarrow> string" where
  "describe_backing backing =
     (case backing of
        None \<Rightarrow> ''none''
      | Some b \<Rightarrow> ''kind '' @ [CHR 0x27] @ backing_as_str (mb_kind b) @ [CHR 0x27] @ '' attached at '' @ mb_attached b)"

text \<open>The conditional state writes: only from the expected prior state, and for a start only while the
  backing is the one the start has read.\<close>

definition check_prior :: "string \<Rightarrow> lifecycle_state \<Rightarrow> db \<Rightarrow> store_error + unit" where
  "check_prior name prior s =
     rbind (state_in_txn name s) (\<lambda>found.
       if found \<noteq> lifecycle_as_str prior then Inl (StateConflict name (lifecycle_as_str prior) found) else Inr ())"

definition transition_snapshot_in_txn ::
  "string \<Rightarrow> lifecycle_state \<Rightarrow> lifecycle_state \<Rightarrow> memory_backing option \<Rightarrow> string \<Rightarrow> db
     \<Rightarrow> store_error + (memory_backing option \<times> db)" where
  "transition_snapshot_in_txn name prior new expected now s =
     rbind (check_prior name prior s) (\<lambda>_.
     rbind (backing_in_txn name s) (\<lambda>snapshot.
       if snapshot \<noteq> expected
       then Inl (MemoryBackingChangedUnderStart name (describe_backing expected) (describe_backing snapshot))
       else rbind (set_state name new now s) (\<lambda>t. Inr (snapshot, t))))"

definition set_state_if_prior_in_txn ::
  "string \<Rightarrow> lifecycle_state \<Rightarrow> lifecycle_state \<Rightarrow> string \<Rightarrow> db \<Rightarrow> store_error + db" where
  "set_state_if_prior_in_txn name prior new now s =
     rbind (check_prior name prior s) (\<lambda>_. set_state name new now s)"

section \<open>The registry\<close>

fun memory_store_error :: "store_error \<Rightarrow> registry_error" where
  "memory_store_error (MemoryBackingHotSwap name state) = HotSwapRefused name state"
| "memory_store_error (MemoryBackingKindConflict name attached requested) = KindConflictRefused name attached requested"
| "memory_store_error other = Store other"

definition ensure_terminal_for_memory_backing :: "string \<Rightarrow> lifecycle_state \<Rightarrow> registry_error + unit" where
  "ensure_terminal_for_memory_backing name state =
     (if state \<in> set terminal_memory_backing_states then Inr ()
      else Inl (HotSwapRefused name (lifecycle_as_str state)))"

definition refuse_symlinked_memory_dir :: "(string \<Rightarrow> bool) \<Rightarrow> string \<Rightarrow> string \<Rightarrow> registry_error + unit" where
  "refuse_symlinked_memory_dir symlink dir name =
     (if symlink dir
      then Inl (HomeIo name dir (''the managed memory directory path is a symlink; refusing to follow it ''
                  @ ''(remove the symlink so the engine can own this path)''))
      else Inr ())"

definition ensure_managed_memory_dir ::
  "(string \<Rightarrow> bool) \<Rightarrow> (string \<Rightarrow> string option) \<Rightarrow> string \<Rightarrow> string \<Rightarrow> registry_error + unit" where
  "ensure_managed_memory_dir symlink create dir name =
     rbind (refuse_symlinked_memory_dir symlink dir name) (\<lambda>_.
       case create dir of None \<Rightarrow> Inr () | Some io \<Rightarrow> Inl (HomeIo name dir io))"

text \<open>What the file system answers: the symlink checks before and after the commit, and the creation;
  \<open>render\<close> is the text of the directory's error.\<close>

record memory_fs =
  fs_dir_of :: "string \<Rightarrow> string"
  fs_symlink_before :: "string \<Rightarrow> bool"
  fs_symlink_after :: "string \<Rightarrow> bool"
  fs_create :: "string \<Rightarrow> string option"
  fs_render :: "registry_error \<Rightarrow> string"

text \<open>\<open>seen\<close> is the database the checks read, \<open>s\<close> the one of the transaction.\<close>

definition memory_checks :: "string \<Rightarrow> db \<Rightarrow> registry_error + string" where
  "memory_checks candidate seen =
     rbind (valid_name candidate) (\<lambda>name.
     rbind (lookup_instance name seen) (\<lambda>inst.
     rbind (ensure_terminal_for_memory_backing name (ai_state inst)) (\<lambda>_. Inr name)))"

definition attach_memory ::
  "memory_fs \<Rightarrow> string \<Rightarrow> backing_kind \<Rightarrow> string \<Rightarrow> db \<Rightarrow> db \<Rightarrow> (registry_error + string) \<times> db" where
  "attach_memory fs candidate kind now seen s =
     (case rbind (memory_checks candidate seen) (\<lambda>name.
             rbind (if kind = Filesystem then refuse_symlinked_memory_dir (fs_symlink_before fs) (fs_dir_of fs name) name
                    else Inr ()) (\<lambda>_. Inr name)) of
        Inl e \<Rightarrow> (Inl e, s)
      | Inr name \<Rightarrow>
          (case attach_in_txn name kind terminal_memory_backing_states now s of
             Inl e \<Rightarrow> (Inl (memory_store_error e), s)
           | Inr (_, t) \<Rightarrow>
               (let dir = fs_dir_of fs name
                in case (if kind = Filesystem
                         then ensure_managed_memory_dir (fs_symlink_after fs) (fs_create fs) dir name else Inr ()) of
                     Inl e \<Rightarrow> (Inl (RowCommittedDirFailed name dir (fs_render fs e)), t)
                   | Inr _ \<Rightarrow> (Inr dir, t))))"

definition detach_memory :: "string \<Rightarrow> db \<Rightarrow> db \<Rightarrow> (registry_error + unit) \<times> db" where
  "detach_memory candidate seen s =
     (case memory_checks candidate seen of
        Inl e \<Rightarrow> (Inl e, s)
      | Inr name \<Rightarrow>
          (case detach_in_txn name terminal_memory_backing_states s of
             Inl e \<Rightarrow> (Inl (memory_store_error e), s)
           | Inr t \<Rightarrow> (Inr (), t)))"

text \<open>\<open>declared\<close>: whether the adapter's mapping has the reserved key, asked for a managed directory only.\<close>

definition registry_memory_status ::
  "(string \<Rightarrow> string) \<Rightarrow> (string \<Rightarrow> registry_error + bool) \<Rightarrow> string \<Rightarrow> db \<Rightarrow> registry_error + memory_status option" where
  "registry_memory_status dir_of declared candidate s =
     rbind (valid_name candidate) (\<lambda>name.
     rbind (lookup_instance name s) (\<lambda>_.
       case get_memory_backing name s of
         Inl e \<Rightarrow> Inl (Store e)
       | Inr None \<Rightarrow> Inr None
       | Inr (Some b) \<Rightarrow>
           rbind (if mb_kind b = Filesystem then declared name else Inr False) (\<lambda>d.
             Inr (Some \<lparr>ms_kind = mb_kind b, ms_dir = dir_of name, ms_declared = d,
                        ms_guarantee = guarantee_for_kind (mb_kind b)\<rparr>))))"

end
