(* ===== verification/Event_Log.thy ===== *)
theory Event_Log
  imports Pipeline
begin

text \<open>
  The durable event records of an instance (\<open>transition_events\<close> and \<open>breach_events\<close>): the transition
  event with its cause (\<open>domain/event.rs\<close>, \<open>cause_text\<close> of \<open>domain/supervisor/commit.rs\<close>), the insert
  and the keyset pages (\<open>store/run_store_sqlite.rs\<close>, \<open>ports/run_store.rs\<close>), and the paged read of a
  whole log (\<open>domain/registry.rs\<close>). The JSON encoding and its decoder are parameters; the rows do not
  change while a log is read.
\<close>

section \<open>Transition events\<close>

datatype transition_cause =
  CommandCause string
| AdapterReady
| LaunchError string
| StopGraceful
| StopForced string
| PauseBestEffort string
| ResumeBestEffort string
| DetachedResumed string
| Crashed string
| Restarted u32 u64
| ReadinessTimeout string u64
| Unresponsive string u64 "string option"
| RestartRequested u16 "string option"
| CleanExit u16
| PauseCooperative string
| ResumeCooperative string
| DrainStopped bool u64
| BudgetExceeded breach_scope breach_dimension u64 u64 "micros option" "micros option" "estimate_label option"

fun cause_kind :: "transition_cause \<Rightarrow> string" where
  "cause_kind (CommandCause _) = ''command''"
| "cause_kind AdapterReady = ''adapter-ready''"
| "cause_kind (LaunchError _) = ''launch-error''"
| "cause_kind StopGraceful = ''stop-graceful''"
| "cause_kind (StopForced _) = ''stop-forced''"
| "cause_kind (PauseBestEffort _) = ''pause-best-effort''"
| "cause_kind (ResumeBestEffort _) = ''resume-best-effort''"
| "cause_kind (DetachedResumed _) = ''detached-resumed''"
| "cause_kind (Crashed _) = ''crashed''"
| "cause_kind (Restarted _ _) = ''restarted''"
| "cause_kind (ReadinessTimeout _ _) = ''readiness-timeout''"
| "cause_kind (Unresponsive _ _ _) = ''unresponsive''"
| "cause_kind (RestartRequested _ _) = ''restart-requested''"
| "cause_kind (CleanExit _) = ''clean-exit''"
| "cause_kind (PauseCooperative _) = ''pause-cooperative''"
| "cause_kind (ResumeCooperative _) = ''resume-cooperative''"
| "cause_kind (DrainStopped _ _) = ''drain-stopped''"
| "cause_kind (BudgetExceeded _ _ _ _ _ _ _) = ''budget-exceeded''"

text \<open>The \<open>command\<close> or \<open>detail\<close> field of a cause's JSON, an absent \<open>Option\<close> being left out.\<close>

fun cause_extra :: "transition_cause \<Rightarrow> string option" where
  "cause_extra (CommandCause command) = Some command"
| "cause_extra (LaunchError detail) = Some detail"
| "cause_extra (StopForced detail) = Some detail"
| "cause_extra (PauseBestEffort detail) = Some detail"
| "cause_extra (ResumeBestEffort detail) = Some detail"
| "cause_extra (DetachedResumed detail) = Some detail"
| "cause_extra (Crashed detail) = Some detail"
| "cause_extra (Unresponsive _ _ detail) = detail"
| "cause_extra (RestartRequested _ detail) = detail"
| "cause_extra (PauseCooperative command) = Some command"
| "cause_extra (ResumeCooperative command) = Some command"
| "cause_extra _ = None"

definition cause_text :: "transition_cause \<Rightarrow> string" where
  "cause_text cause =
     (case cause_extra cause of
        Some extra \<Rightarrow> cause_kind cause @ '': '' @ extra
      | None \<Rightarrow> cause_kind cause)"

record transition_event =
  te_schema :: nat
  te_instance :: string
  te_prior :: lifecycle_state
  te_new :: lifecycle_state
  te_cause :: transition_cause
  te_at :: string

definition event_schema_version :: nat where "event_schema_version = 1"

definition transition_event_new ::
  "string \<Rightarrow> lifecycle_state \<Rightarrow> lifecycle_state \<Rightarrow> transition_cause \<Rightarrow> string \<Rightarrow> transition_event" where
  "transition_event_new inst prior new cause at =
     \<lparr>te_schema = event_schema_version, te_instance = inst, te_prior = prior, te_new = new, te_cause = cause,
      te_at = at\<rparr>"

lemma transition_event_new_simps [simp]:
  "te_instance (transition_event_new n prior new cause at) = n" "te_prior (transition_event_new n prior new cause at) = prior"
  "te_new (transition_event_new n prior new cause at) = new"
  by (simp_all add: transition_event_new_def)

section \<open>Writing\<close>

text \<open>\<open>append_transition\<close> with \<open>insert_transition_row\<close>; the row takes the next AUTOINCREMENT id.\<close>

definition append_transition :: "string option \<Rightarrow> transition_event \<Rightarrow> db \<Rightarrow> store_error + db" where
  "append_transition json ev s =
     rbind (require_instance_id (te_instance ev) s) (\<lambda>iid.
       case json of
         None \<Rightarrow> Inl (Backend (Text ''could not encode a transition event''))
       | Some text \<Rightarrow>
           if db_transition_seq s + 1 \<ge> 2 ^ 63 then Inl (Backend (Text ''database or disk is full''))
           else Inr (s\<lparr>db_transitions := db_transitions s @
               [\<lparr>tr_id = db_transition_seq s + 1, tr_instance = iid, tr_event = text\<rparr>],
               db_transition_seq := db_transition_seq s + 1\<rparr>))"

section \<open>Reading by key\<close>

definition page_max :: nat where "page_max = 1000"

definition clamp_page :: "nat \<Rightarrow> nat" where
  "clamp_page limit = (if limit = 0 then page_max else min limit page_max)"

definition decode_row :: "string \<Rightarrow> (string \<Rightarrow> 'e option) \<Rightarrow> int \<times> string \<Rightarrow> store_error + (int \<times> 'e)" where
  "decode_row what decode row =
     (case decode (snd row) of
        None \<Rightarrow> Inl (Backend (Text (''corrupt stored '' @ what)))
      | Some e \<Rightarrow> Inr (fst row, e))"

text \<open>The page of the rows \<open>(id, event)\<close> of one instance: \<open>id > after ORDER BY id LIMIT limit\<close>.\<close>

definition keyset_page ::
  "string \<Rightarrow> (string \<Rightarrow> 'e option) \<Rightarrow> (int \<times> string) list \<Rightarrow> int \<Rightarrow> nat \<Rightarrow> store_error + 'e page" where
  "keyset_page what decode rows after limit0 =
     (let limit = clamp_page limit0
      in rbind (rmap (decode_row what decode) (take limit (sort_key fst (filter (\<lambda>r. after < fst r) rows)))) (\<lambda>found.
         Inr (page_from_rows found limit)))"

definition transition_rows :: "int \<Rightarrow> db \<Rightarrow> (int \<times> string) list" where
  "transition_rows i s = map (\<lambda>r. (tr_id r, tr_event r)) (filter (\<lambda>r. tr_instance r = i) (db_transitions s))"

definition breach_rows :: "int \<Rightarrow> db \<Rightarrow> (int \<times> string) list" where
  "breach_rows i s = map (\<lambda>r. (br_id r, br_event r)) (filter (\<lambda>r. br_instance r = i) (db_breaches s))"

definition instance_page ::
  "(int \<Rightarrow> db \<Rightarrow> (int \<times> string) list) \<Rightarrow> string \<Rightarrow> (string \<Rightarrow> 'e option) \<Rightarrow> string \<Rightarrow> int \<Rightarrow> nat \<Rightarrow> db
     \<Rightarrow> store_error + 'e page" where
  "instance_page rows_of what decode name after limit s =
     (case instance_id s name of
        None \<Rightarrow> Inr \<lparr>pg_items = [], pg_next = None\<rparr>
      | Some i \<Rightarrow> keyset_page what decode (rows_of i s) after limit)"

definition transitions_page ::
  "(string \<Rightarrow> transition_event option) \<Rightarrow> string \<Rightarrow> int \<Rightarrow> nat \<Rightarrow> db \<Rightarrow> store_error + transition_event page" where
  "transitions_page = instance_page transition_rows ''transition event''"

definition breaches_page ::
  "(string \<Rightarrow> breach_event option) \<Rightarrow> string \<Rightarrow> int \<Rightarrow> nat \<Rightarrow> db \<Rightarrow> store_error + breach_event page" where
  "breaches_page = instance_page breach_rows ''breach event''"

section \<open>Reading a whole log\<close>

text \<open>The loop of the registry: the next page is read after the last key of a full one. \<open>partial_function\<close>
  leaves it open whether the loop ends.\<close>

partial_function (option) page_loop ::
  "(int \<Rightarrow> store_error + 'e page) \<Rightarrow> int \<Rightarrow> 'e list \<Rightarrow> (store_error + 'e list) option" where
  "page_loop page after events =
     (case page after of
        Inl e \<Rightarrow> Some (Inl e)
      | Inr p \<Rightarrow>
          (case pg_next p of
             None \<Rightarrow> Some (Inr (events @ pg_items p))
           | Some n \<Rightarrow> page_loop page n (events @ pg_items p)))"

definition transition_events ::
  "(string \<Rightarrow> transition_event option) \<Rightarrow> string \<Rightarrow> db \<Rightarrow> (store_error + transition_event list) option" where
  "transition_events decode name s = page_loop (\<lambda>after. transitions_page decode name after page_max s) 0 []"

definition breach_events ::
  "(string \<Rightarrow> breach_event option) \<Rightarrow> string \<Rightarrow> db \<Rightarrow> (store_error + breach_event list) option" where
  "breach_events decode name s = page_loop (\<lambda>after. breaches_page decode name after page_max s) 0 []"

section \<open>What the loop returns\<close>

lemma rmap_append:
  "rmap f (xs @ ys) = rbind (rmap f xs) (\<lambda>us. rbind (rmap f ys) (\<lambda>vs. Inr (us @ vs)))"
  by (induction xs) (auto simp: rbind_def split: sum.split)

lemma rmap_decode_keys: "rmap (decode_row what decode) rows = Inr found \<Longrightarrow> map fst found = map fst rows"
  by (induction rows arbitrary: found) (auto simp: decode_row_def split: option.splits)

lemma keys_after:
  assumes sorted: "sorted_wrt (<) (map fst rows)" and n: "0 < n" "n \<le> length rows"
  shows "filter (\<lambda>r. fst (rows ! (n - 1)) < fst r) rows = drop n (rows :: (int \<times> 'a) list)"
proof -
  have less: "fst (rows ! i) < fst (rows ! j)" if "i < j" "j < length rows" for i j
    using sorted that by (simp add: sorted_wrt_iff_nth_less)
  have "fst r \<le> fst (rows ! (n - 1))" if r: "r \<in> set (take n rows)" for r
  proof -
    obtain i where "i < n" "r = rows ! i" using r n by (auto simp: in_set_conv_nth)
    moreover have "i < n - 1 \<or> i = n - 1" using \<open>i < n\<close> by linarith
    moreover have "n - 1 < length rows" using n by linarith
    ultimately show ?thesis using less [of i "n - 1"] by (metis order_less_imp_le order_refl)
  qed
  moreover have "fst (rows ! (n - 1)) < fst r" if r: "r \<in> set (drop n rows)" for r
  proof -
    obtain i where "i < length rows - n" "r = rows ! (n + i)" using r by (auto simp: in_set_conv_nth)
    then show ?thesis using less [of "n - 1" "n + i"] n by auto
  qed
  ultimately have "filter (\<lambda>r. fst (rows ! (n - 1)) < fst r) (take n rows @ drop n rows) = drop n rows"
    by (simp only: filter_append) (auto simp: filter_empty_conv not_less)
  then show ?thesis by simp
qed

abbreviation above :: "int \<Rightarrow> (int \<times> 'a) list \<Rightarrow> (int \<times> 'a) list" where
  "above after rows \<equiv> filter (\<lambda>r. after < fst r) rows"

lemma above_above: "a \<le> b \<Longrightarrow> above b (above a rows) = above b rows"
  by (auto intro!: filter_cong)

lemma sorted_wrt_above: "sorted_wrt (<) (map fst rows) \<Longrightarrow> sorted_wrt (<) (map fst (above a rows))"
  by (simp add: sorted_wrt_map sorted_wrt_filter)

lemma keyset_page_sorted:
  assumes "sorted_wrt (<) (map fst rows)"
  shows "keyset_page what decode rows after page_max
     = rbind (rmap (decode_row what decode) (take page_max (above after rows))) (\<lambda>found. Inr (page_from_rows found page_max))"
proof -
  have "sorted_wrt (\<le>) (map fst (above after rows))"
    using sorted_wrt_above [OF assms] by (rule sorted_wrt_mono_rel [rotated]) simp
  then have "sort_key fst (above after rows) = above after rows" by (simp add: sorted_sort_id sort_key_id_if_sorted)
  then show ?thesis by (simp add: keyset_page_def clamp_page_def page_max_def)
qed

lemma page_loop_reads_rows:
  assumes sorted: "sorted_wrt (<) (map fst rows)"
  shows "page_loop (\<lambda>after. keyset_page what decode rows after page_max) after events
     = Some (rbind (rmap (decode_row what decode) (above after rows)) (\<lambda>found. Inr (events @ map snd found)))"
proof (induction "length (above after rows)" arbitrary: after events rule: less_induct)
  case less
  let ?rest = "above after rows"
  note step = page_loop.simps [of _ after events] keyset_page_sorted [OF sorted]
  show ?case
  proof (cases "rmap (decode_row what decode) (take page_max ?rest)")
    case (Inl e)
    have "rmap (decode_row what decode) (take page_max ?rest @ drop page_max ?rest) = Inl e"
      by (simp only: rmap_append Inl rbind_simps)
    then show ?thesis using Inl by (simp add: step)
  next
    case (Inr found)
    have keys: "map fst found = map fst (take page_max ?rest)" by (rule rmap_decode_keys [OF Inr])
    have len: "length found = min (length ?rest) page_max" using rmap_Inr_length [OF Inr] by simp
    have split: "rmap (decode_row what decode) ?rest
        = rbind (rmap (decode_row what decode) (drop page_max ?rest)) (\<lambda>vs. Inr (found @ vs))"
      using rmap_append [of "decode_row what decode" "take page_max ?rest" "drop page_max ?rest"]
      by (simp only: Inr rbind_simps append_take_drop_id)
    show ?thesis
    proof (cases "page_max \<le> length ?rest")
      case False
      then show ?thesis using Inr len split by (simp add: step page_from_rows_def)
    next
      case True
      then have found: "length found = page_max" "found \<noteq> []" using len by (auto simp: page_max_def)
      let ?n = "fst (?rest ! (page_max - 1))"
      have last: "fst (last found) = ?n"
      proof -
        have "map fst found ! (page_max - 1) = map fst (take page_max ?rest) ! (page_max - 1)" by (simp only: keys)
        then show ?thesis using found True by (simp add: last_conv_nth page_max_def)
      qed
      have n: "page_max - 1 < length ?rest" using True by (simp add: page_max_def)
      have above_n: "above ?n rows = drop page_max ?rest"
      proof -
        have "after \<le> ?n" using nth_mem [OF n] by simp
        then show ?thesis
          using keys_after [OF sorted_wrt_above [OF sorted], of page_max after] True above_above [of after ?n rows]
          by (simp only: page_max_def)
      qed
      have "page_loop (\<lambda>after. keyset_page what decode rows after page_max) after events
          = page_loop (\<lambda>after. keyset_page what decode rows after page_max) ?n (events @ map snd found)"
        using Inr found last by (simp add: step page_from_rows_def)
      also have "\<dots> = Some (rbind (rmap (decode_row what decode) (above ?n rows)) (\<lambda>vs. Inr (events @ map snd found @ map snd vs)))"
      proof -
        have "length (above ?n rows) < length ?rest" using True by (simp only: above_n) (simp add: page_max_def)
        from less.hyps [OF this] show ?thesis by simp
      qed
      also have "\<dots> = Some (rbind (rmap (decode_row what decode) ?rest) (\<lambda>vs. Inr (events @ map snd vs)))"
        unfolding above_n split by (auto simp: rbind_def split: sum.split)
      finally show ?thesis .
    qed
  qed
qed

section \<open>The log's invariant\<close>

definition log_ok :: "db \<Rightarrow> bool" where
  "log_ok s \<longleftrightarrow> sorted_wrt (<) (map tr_id (db_transitions s))
     \<and> (\<forall>r\<in>set (db_transitions s). 0 < tr_id r \<and> tr_id r \<le> db_transition_seq s)"

lemma append_transition_Inr:
  "append_transition json ev s = Inr t \<longleftrightarrow> (\<exists>i text. require_instance_id (te_instance ev) s = Inr i \<and> json = Some text
     \<and> db_transition_seq s + 1 < 2 ^ 63
     \<and> t = s\<lparr>db_transitions := db_transitions s @ [\<lparr>tr_id = db_transition_seq s + 1, tr_instance = i, tr_event = text\<rparr>],
             db_transition_seq := db_transition_seq s + 1\<rparr>)"
  by (auto simp: append_transition_def split: option.splits if_splits)

lemma append_transition_log_ok: "append_transition json ev s = Inr t \<Longrightarrow> log_ok s \<Longrightarrow> 0 \<le> db_transition_seq s \<Longrightarrow> log_ok t"
  unfolding append_transition_Inr log_ok_def by (fastforce simp: sorted_wrt_append)

lemma transition_rows_sorted:
  "log_ok s \<Longrightarrow> sorted_wrt (<) (map fst (transition_rows i s)) \<and> above 0 (transition_rows i s) = transition_rows i s"
  by (auto simp: log_ok_def transition_rows_def sorted_wrt_map sorted_wrt_filter filter_id_conv o_def)

lemma transition_events_eq:
  assumes "log_ok s"
  shows "transition_events decode name s = Some (case instance_id s name of None \<Rightarrow> Inr []
     | Some i \<Rightarrow> rbind (rmap (decode_row ''transition event'' decode) (transition_rows i s)) (\<lambda>found. Inr (map snd found)))"
proof (cases "instance_id s name")
  case None
  then show ?thesis
    by (simp add: transition_events_def transitions_page_def instance_page_def page_loop.simps [of _ 0])
next
  case (Some i)
  with transition_rows_sorted [OF assms, of i] show ?thesis
    by (simp add: transition_events_def transitions_page_def instance_page_def page_loop_reads_rows)
qed

end
