(* ===== verification/Transitions.thy ===== *)
theory Transitions
  imports Memory_Backing Event_Log
begin

text \<open>
  A lifecycle transition as one writer job (\<open>domain/supervisor/commit.rs\<close>, with its three callers in
  \<open>domain/supervisor/mod.rs\<close>): the state write, guarded or not, the event row, the outbox row, and the
  projection on the instance's Run in its own savepoint. With the registry's operations on instances and
  backings it moves the fleet; the transition log and the backing of a live instance are its invariants.
\<close>

section \<open>The job\<close>

datatype state_write = PlainWrite | IfPrior lifecycle_state | SnapshotBacking lifecycle_state "memory_backing option"

record transition_encoders =
  jt_row :: "transition_event \<Rightarrow> string option"
  jt_bus :: "transition_event \<Rightarrow> string option"
  jt_run :: encoder

record committed_transition =
  ct_snapshot :: "memory_backing option"
  ct_append :: outbox_append
  ct_run_events :: committed
  ct_projection_failed :: "store_error option"

definition write_state ::
  "string \<Rightarrow> state_write \<Rightarrow> lifecycle_state \<Rightarrow> string \<Rightarrow> db \<Rightarrow> store_error + (memory_backing option \<times> db)" where
  "write_state name sw new now s =
     (case sw of
        PlainWrite \<Rightarrow> rbind (set_state name new now s) (\<lambda>t. Inr (None, t))
      | IfPrior prior \<Rightarrow> rbind (set_state_if_prior_in_txn name prior new now s) (\<lambda>t. Inr (None, t))
      | SnapshotBacking prior expected \<Rightarrow> transition_snapshot_in_txn name prior new expected now s)"

text \<open>\<open>now\<close> is the clock of the state row.\<close>

definition commit_transition ::
  "transition_encoders \<Rightarrow> string \<Rightarrow> state_write \<Rightarrow> transition_event \<Rightarrow> run_fate \<Rightarrow> string \<Rightarrow> engine
     \<Rightarrow> store_error + (committed_transition \<times> engine)" where
  "commit_transition js name sw ev fate now en =
     rbind (write_state name sw (te_new ev) now (en_db en)) (\<lambda>(snapshot, s1).
     rbind (append_transition (jt_row js ev) ev s1) (\<lambda>s2.
     rbind (append_json (jt_bus js ev) s2) (\<lambda>(app, s3).
     (let (events, failed, en') =
            project_in_savepoint (jt_run js) name (te_new ev) fate (cause_text (te_cause ev)) (te_at ev) (en\<lparr>en_db := s3\<rparr>)
      in Inr (\<lparr>ct_snapshot = snapshot, ct_append = app, ct_run_events = events, ct_projection_failed = failed\<rparr>, en')))))"

text \<open>The supervisor's transitions.\<close>

definition transition_with_log_capture ::
  "transition_encoders \<Rightarrow> string \<Rightarrow> lifecycle_state \<Rightarrow> lifecycle_state \<Rightarrow> transition_cause \<Rightarrow> run_fate \<Rightarrow> string \<Rightarrow> string
     \<Rightarrow> engine \<Rightarrow> store_error + (committed_transition \<times> engine)" where
  "transition_with_log_capture js name prior new cause fate at now en =
     commit_transition js name PlainWrite (transition_event_new name prior new cause at) fate now en"

definition transition_with_backing_snapshot ::
  "transition_encoders \<Rightarrow> string \<Rightarrow> lifecycle_state \<Rightarrow> lifecycle_state \<Rightarrow> transition_cause \<Rightarrow> memory_backing option
     \<Rightarrow> string \<Rightarrow> string \<Rightarrow> engine \<Rightarrow> store_error + (committed_transition \<times> engine)" where
  "transition_with_backing_snapshot js name prior new cause expected at now en =
     commit_transition js name (SnapshotBacking prior expected) (transition_event_new name prior new cause at) Terminal now en"

definition transition_if_prior ::
  "transition_encoders \<Rightarrow> string \<Rightarrow> lifecycle_state \<Rightarrow> lifecycle_state \<Rightarrow> transition_cause \<Rightarrow> run_fate \<Rightarrow> string \<Rightarrow> string
     \<Rightarrow> engine \<Rightarrow> store_error + (committed_transition \<times> engine)" where
  "transition_if_prior js name prior new cause fate at now en =
     commit_transition js name (IfPrior prior) (transition_event_new name prior new cause at) fate now en"

lemmas transition_defs = transition_with_log_capture_def transition_with_backing_snapshot_def transition_if_prior_def

section \<open>What a projection leaves alone\<close>

text \<open>The client's interface: a part of the database that no write of a Run row and no append to the
  outbox touches.\<close>

locale run_frame =
  fixes part :: "db \<Rightarrow> 'p"
  assumes runs [simp]: "part (s\<lparr>db_runs := r\<rparr>) = part s"
    and outbox [simp]: "part (s\<lparr>db_outbox := o'\<rparr>) = part s"
    and outbox_seq [simp]: "part (s\<lparr>db_outbox_seq := n\<rparr>) = part s"
    and outbox_bytes [simp]: "part (s\<lparr>db_outbox_bytes := b\<rparr>) = part s"
begin

lemma save_run: "save_run r s = Inr t \<Longrightarrow> part t = part s"
  by (auto simp: save_run_Inr)

lemma move_to: "move_to r to as cause at st = Inr (x, st') \<Longrightarrow> part (snd st') = part (snd st)"
  by (auto simp: move_to_def Let_def dest!: save_run note_change_outbox split: if_splits)

lemma cascade: "cascade owner was to stopped at st = Inr st' \<Longrightarrow> part (snd st') = part (snd st)"
proof -
  have "part (snd u') = part (snd u)" if "cascade_child to' st' at' c u = Inr u'" for to' st' at' c u u'
    using that by (auto simp: cascade_child_def Let_def dest!: move_to split: if_splits)
  then show "cascade owner was to stopped at st = Inr st' \<Longrightarrow> part (snd st') = part (snd st)"
    by (auto simp: cascade_def split: if_splits elim!: rfold_invariant [where I = "\<lambda>u. part (snd u) = part (snd st)"])
qed

lemma project: "project_transition n new fate cause at s = Inr (ch, t) \<Longrightarrow> part t = part s"
  by (auto simp: project_transition_def split: option.splits dest!: move_to cascade)

lemma append_outbox: "append_outbox json cap s = Inr (app, t) \<Longrightarrow> part t = part s"
  by (auto simp: append_outbox_def make_room_def evict_outbox_through_def Let_def split: prod.splits if_splits option.splits)

lemma append_json: "append_json json s = Inr (app, t) \<Longrightarrow> part t = part s"
  by (auto simp: append_json_def dest: append_outbox split: option.splits)

lemma commit_event: "commit_event enc ev st = Inr st' \<Longrightarrow> part (snd st') = part (snd st)"
  by (auto simp: commit_event_def dest: append_outbox split: option.splits)

lemma commit_events: "rfold (commit_event enc) evs st = Inr st' \<Longrightarrow> part (snd st') = part (snd st)"
  by (erule rfold_invariant [where I = "\<lambda>u. part (snd u) = part (snd st)"]) (simp_all add: commit_event)

lemma commit_changes: "commit_changes enc ch en = Inr (c, en') \<Longrightarrow> part (en_db en') = part (en_db en)"
  by (auto simp: commit_changes_def dest!: commit_events)

lemma project_in_savepoint:
  "project_in_savepoint enc n new fate cause at en = (c, e, en') \<Longrightarrow> part (en_db en') = part (en_db en)"
  by (auto simp: project_in_savepoint_def dest!: project commit_changes split: sum.splits)

end

text \<open>The fleet: instances, backings and the transition log.\<close>

definition fleet_part :: "db \<Rightarrow> instance_row list \<times> backing_row list \<times> transition_row list \<times> int" where
  "fleet_part s = (db_instances s, db_backings s, db_transitions s, db_transition_seq s)"

interpretation fleet: run_frame fleet_part
  by unfold_locales (simp_all add: fleet_part_def)

section \<open>What a commit does to the fleet\<close>

lemma backing_in_txn_eq: "backing_in_txn name s = get_memory_backing name s"
  by (simp add: backing_in_txn_def get_memory_backing_def decode_backing_def split: option.split)

definition write_guard :: "string \<Rightarrow> state_write \<Rightarrow> memory_backing option \<Rightarrow> db \<Rightarrow> bool" where
  "write_guard name sw snapshot s \<longleftrightarrow>
     (case sw of
        PlainWrite \<Rightarrow> snapshot = None
      | IfPrior prior \<Rightarrow> state_in_txn name s = Inr (lifecycle_as_str prior) \<and> snapshot = None
      | SnapshotBacking prior expected \<Rightarrow>
          state_in_txn name s = Inr (lifecycle_as_str prior) \<and> get_memory_backing name s = Inr expected \<and> snapshot = expected)"

lemma check_prior_Inr: "check_prior name prior s = Inr u \<longleftrightarrow> state_in_txn name s = Inr (lifecycle_as_str prior)"
  by (cases "state_in_txn name s") (auto simp: check_prior_def)

lemma write_state_Inr:
  "write_state name sw new now s = Inr (snapshot, t) \<longleftrightarrow> write_guard name sw snapshot s \<and> set_state name new now s = Inr t"
  by (cases sw)
    (auto simp: write_state_def write_guard_def set_state_if_prior_in_txn_def transition_snapshot_in_txn_def rbind_eq_Inr
      check_prior_Inr backing_in_txn_eq split: if_splits)

definition moved_instances :: "string \<Rightarrow> lifecycle_state \<Rightarrow> string \<Rightarrow> instance_row list \<Rightarrow> instance_row list" where
  "moved_instances name new now rows =
     map (\<lambda>x. if in_name x = name then x\<lparr>in_state := lifecycle_as_str new, in_updated := now\<rparr> else x) rows"

lemma set_state_Inr:
  "set_state name new now s = Inr t \<longleftrightarrow> instance_id s name \<noteq> None
     \<and> t = s\<lparr>db_instances := moved_instances name new now (db_instances s)\<rparr>"
  by (auto simp: set_state_def instance_id_def moved_instances_def find_None_all)

lemma moved_instances_keys [simp]:
  "map in_id (moved_instances name new now rows) = map in_id rows"
  "map in_name (moved_instances name new now rows) = map in_name rows"
  by (simp_all add: moved_instances_def o_def if_distrib cong: if_cong)

lemma find_moved:
  "find (\<lambda>x. in_name x = n) (moved_instances name new now rows)
     = map_option (\<lambda>x. if n = name then x\<lparr>in_state := lifecycle_as_str new, in_updated := now\<rparr> else x)
         (find (\<lambda>x. in_name x = n) rows)"
  by (induction rows) (auto simp: moved_instances_def)

lemma required_id_Inr:
  "require_instance_id name s = Inr i \<longleftrightarrow> (\<exists>n. instance_name_new name = Inr n \<and> instance_id s n = Some i)"
  by (auto simp: require_instance_id_def split: sum.splits option.splits)

lemma instance_name_new_id: "instance_name_new name = Inr n \<Longrightarrow> n = name"
  by (auto simp: instance_name_new_def split: if_splits list.splits)

text \<open>The fields of \<open>fleet_part\<close> after a committed transition.\<close>

lemma commit_transition_fleet:
  assumes "commit_transition js name sw ev fate now en = Inr (ct, en')" and "te_instance ev = name"
  obtains i json where "instance_id (en_db en) name = Some i" and "jt_row js ev = Some json"
    and "instance_name_new name = Inr name" and "write_guard name sw (ct_snapshot ct) (en_db en)"
    and "fleet_part (en_db en') = (moved_instances name (te_new ev) now (db_instances (en_db en)), db_backings (en_db en),
           db_transitions (en_db en) @ [\<lparr>tr_id = db_transition_seq (en_db en) + 1, tr_instance = i, tr_event = json\<rparr>],
           db_transition_seq (en_db en) + 1)"
proof -
  obtain snapshot s1 s2 app s3 where job: "write_state name sw (te_new ev) now (en_db en) = Inr (snapshot, s1)"
      "append_transition (jt_row js ev) ev s1 = Inr s2" "append_json (jt_bus js ev) s2 = Inr (app, s3)"
      "ct_snapshot ct = snapshot"
      "project_in_savepoint (jt_run js) name (te_new ev) fate (cause_text (te_cause ev)) (te_at ev) (en\<lparr>en_db := s3\<rparr>)
         = (ct_run_events ct, ct_projection_failed ct, en')"
    using assms(1) by (auto simp: commit_transition_def split: prod.splits)
  from job(1) have s1: "write_guard name sw snapshot (en_db en)"
      "s1 = (en_db en)\<lparr>db_instances := moved_instances name (te_new ev) now (db_instances (en_db en))\<rparr>"
    by (simp_all add: write_state_Inr set_state_Inr)
  from job(2) assms(2) obtain i json where row: "require_instance_id name s1 = Inr i" "jt_row js ev = Some json"
      "s2 = s1\<lparr>db_transitions := db_transitions s1 @ [\<lparr>tr_id = db_transition_seq s1 + 1, tr_instance = i, tr_event = json\<rparr>],
               db_transition_seq := db_transition_seq s1 + 1\<rparr>"
    by (auto simp: append_transition_Inr)
  obtain n where n: "instance_name_new name = Inr n" "instance_id s1 n = Some i"
    using row(1) by (auto simp: required_id_Inr)
  have "n = name" by (rule instance_name_new_id [OF n(1)])
  then have "instance_id (en_db en) name = Some i"
    using n(2) by (auto simp: s1 instance_id_def find_moved split: if_splits)
  moreover have "fleet_part (en_db en') = fleet_part s2"
    using fleet.project_in_savepoint [OF job(5)] fleet.append_json [OF job(3)] by simp
  ultimately show thesis
    using that [of i json] n(1) \<open>n = name\<close> row(2,3) s1 job(4) by (simp add: fleet_part_def)
qed

section \<open>The fleet in motion\<close>

text \<open>Every step of the engines that share the database: registrations, removals, attachments with any
  earlier view, transitions, and whatever leaves the fleet alone. In a serial fleet a plain transition is
  issued by a supervisor that has seen the current state.\<close>

inductive fleet_step :: "transition_encoders \<Rightarrow> bool \<Rightarrow> engine \<Rightarrow> engine \<Rightarrow> bool" for js serial where
  register: "register_with_adapter candidate resolved home_of materialize now (en_db en) = (r, s) \<Longrightarrow>
    fleet_step js serial en (en\<lparr>en_db := s\<rparr>)"
| remove: "remove_job candidate disposition force leftover en = (r, en') \<Longrightarrow> fleet_step js serial en en'"
| attach: "attach_memory fs candidate kind now seen (en_db en) = (r, s) \<Longrightarrow> fleet_step js serial en (en\<lparr>en_db := s\<rparr>)"
| detach: "detach_memory candidate seen (en_db en) = (r, s) \<Longrightarrow> fleet_step js serial en (en\<lparr>en_db := s\<rparr>)"
| plain: "transition_with_log_capture js name prior new cause fate at now en = Inr (ct, en') \<Longrightarrow>
    (serial \<Longrightarrow> state_in_txn name (en_db en) = Inr (lifecycle_as_str prior)) \<Longrightarrow> fleet_step js serial en en'"
| start: "transition_with_backing_snapshot js name prior new cause expected at now en = Inr (ct, en') \<Longrightarrow>
    fleet_step js serial en en'"
| guarded: "transition_if_prior js name prior new cause fate at now en = Inr (ct, en') \<Longrightarrow> fleet_step js serial en en'"
| other: "fleet_part (en_db en') = fleet_part (en_db en) \<Longrightarrow> fleet_step js serial en en'"

text \<open>The step of a transition, whichever way its state is written.\<close>

lemma fleet_step_cases [consumes 1, case_names register remove attach detach transition other]:
  assumes step: "fleet_step js serial en en'"
    and register: "\<And>candidate resolved home_of materialize now r s.
      register_with_adapter candidate resolved home_of materialize now (en_db en) = (r, s) \<Longrightarrow> en' = en\<lparr>en_db := s\<rparr> \<Longrightarrow> P"
    and remove: "\<And>candidate disposition force leftover r s.
      registry_remove candidate disposition force leftover (en_db en) = (r, s) \<Longrightarrow> en' = en\<lparr>en_db := s\<rparr> \<Longrightarrow> P"
    and attach: "\<And>fs candidate kind now seen r s.
      attach_memory fs candidate kind now seen (en_db en) = (r, s) \<Longrightarrow> en' = en\<lparr>en_db := s\<rparr> \<Longrightarrow> P"
    and detach: "\<And>candidate seen r s. detach_memory candidate seen (en_db en) = (r, s) \<Longrightarrow> en' = en\<lparr>en_db := s\<rparr> \<Longrightarrow> P"
    and transition: "\<And>name sw prior new cause fate at now ct.
      commit_transition js name sw (transition_event_new name prior new cause at) fate now en = Inr (ct, en') \<Longrightarrow>
      (serial \<Longrightarrow> state_in_txn name (en_db en) = Inr (lifecycle_as_str prior)) \<Longrightarrow> P"
    and other: "fleet_part (en_db en') = fleet_part (en_db en) \<Longrightarrow> P"
  shows P
  using step
proof cases
  case (register candidate resolved home_of materialize now r s)
  then show P using assms(2) by blast
next
  case (remove candidate disposition force leftover r)
  then show P using assms(3) by (auto simp: remove_job_def split: prod.splits)
next
  case (attach fs candidate kind now seen r s)
  then show P using assms(4) by blast
next
  case (detach candidate seen r s)
  then show P using assms(5) by blast
next
  case (plain name prior new cause fate at now ct)
  then show P using assms(6) by (auto simp: transition_defs)
next
  case (start name prior new cause expected at now ct)
  then have go: "commit_transition js name (SnapshotBacking prior expected) (transition_event_new name prior new cause at)
      Terminal now en = Inr (ct, en')" by (simp add: transition_defs)
  from commit_transition_fleet [OF go] have "state_in_txn name (en_db en) = Inr (lifecycle_as_str prior)"
    by (auto simp: write_guard_def)
  with go show P using assms(6) by blast
next
  case (guarded name prior new cause fate at now ct)
  then have go: "commit_transition js name (IfPrior prior) (transition_event_new name prior new cause at) fate now en
      = Inr (ct, en')" by (simp add: transition_defs)
  from commit_transition_fleet [OF go] have "state_in_txn name (en_db en) = Inr (lifecycle_as_str prior)"
    by (auto simp: write_guard_def)
  with go show P using assms(6) by blast
next
  case other
  then show P using assms(7) by blast
qed

section \<open>The log explains every state\<close>

definition log_of :: "(string \<Rightarrow> transition_event option) \<Rightarrow> int \<Rightarrow> db \<Rightarrow> transition_event option list" where
  "log_of decode i s = map (\<lambda>r. decode (tr_event r)) (filter (\<lambda>r. tr_instance r = i) (db_transitions s))"

definition state_after :: "transition_event list \<Rightarrow> lifecycle_state" where
  "state_after evs = (if evs = [] then Registered else te_new (last evs))"

fun chained :: "lifecycle_state \<Rightarrow> transition_event list \<Rightarrow> bool" where
  "chained st [] \<longleftrightarrow> True"
| "chained st (e # es) \<longleftrightarrow> te_prior e = st \<and> chained (te_new e) es"

lemma chained_snoc: "chained st (es @ [e]) \<longleftrightarrow> chained st es \<and> te_prior e = (if es = [] then st else te_new (last es))"
  by (induction es arbitrary: st) auto

definition explained :: "(string \<Rightarrow> transition_event option) \<Rightarrow> bool \<Rightarrow> db \<Rightarrow> instance_row \<Rightarrow> bool" where
  "explained decode serial s x \<longleftrightarrow> instance_name_new (in_name x) = Inr (in_name x)
     \<and> (\<exists>evs. log_of decode (in_id x) s = map Some evs \<and> in_state x = lifecycle_as_str (state_after evs)
          \<and> (serial \<longrightarrow> chained Registered evs))"

definition fleet_ok :: "(string \<Rightarrow> transition_event option) \<Rightarrow> bool \<Rightarrow> db \<Rightarrow> bool" where
  "fleet_ok decode serial s \<longleftrightarrow> instances_ok s \<and> log_ok s \<and> 0 \<le> db_transition_seq s
     \<and> (\<forall>r\<in>set (db_transitions s). tr_instance r \<in> in_id ` set (db_instances s))
     \<and> (\<forall>x\<in>set (db_instances s). explained decode serial s x)"

lemma fleet_ok_cong:
  assumes "db_instances t = db_instances s" "db_transitions t = db_transitions s" "db_transition_seq t = db_transition_seq s"
  shows "fleet_ok decode serial t \<longleftrightarrow> fleet_ok decode serial s"
  using assms by (simp add: fleet_ok_def instances_ok_def log_ok_def explained_def log_of_def)

lemma fleet_part_eq:
  "fleet_part t = fleet_part s \<longleftrightarrow> db_instances t = db_instances s \<and> db_backings t = db_backings s
     \<and> db_transitions t = db_transitions s \<and> db_transition_seq t = db_transition_seq s"
  by (simp add: fleet_part_def)

lemma create_instance_Inr:
  assumes "create_instance n k st home cr up s = Inr t"
  obtains x where "t = s\<lparr>db_instances := db_instances s @ [x]\<rparr>" "in_name x = n" "in_state x = lifecycle_as_str st"
    "in_id x \<notin> in_id ` set (db_instances s)" "n \<notin> in_name ` set (db_instances s)"
proof -
  let ?id = "fold max (map in_id (db_instances s)) 0 + 1"
  have "in_id y < ?id" if "y \<in> set (db_instances s)" for y
    using fold_max_ge [of "in_id y" "map in_id (db_instances s)" 0] that by simp
  then have fresh: "?id \<notin> in_id ` set (db_instances s)" by fastforce
  from assms have made: "t = s\<lparr>db_instances := db_instances s @ [\<lparr>in_id = ?id, in_name = n, in_kind = k,
      in_state = lifecycle_as_str st, in_home = home, in_created = cr, in_updated = up, in_generation = 0\<rparr>]\<rparr>"
      "n \<notin> in_name ` set (db_instances s)"
    by (auto simp: create_instance_def split: if_splits)
  show thesis by (rule that [OF made(1)]) (use fresh made(2) in simp_all)
qed

lemma create_fleet_ok:
  assumes ok: "fleet_ok decode serial s" and valid: "instance_name_new n = Inr n"
    and go: "create_instance n k Registered home cr up s = Inr t"
  shows "fleet_ok decode serial t"
proof -
  obtain x where x: "t = s\<lparr>db_instances := db_instances s @ [x]\<rparr>" "in_name x = n" "in_state x = lifecycle_as_str Registered"
    "in_id x \<notin> in_id ` set (db_instances s)" "n \<notin> in_name ` set (db_instances s)"
    using create_instance_Inr [OF go] by metis
  have empty: "filter (\<lambda>r. tr_instance r = in_id x) (db_transitions s) = []"
    using ok x(4) unfolding fleet_ok_def filter_empty_conv by metis
  have "explained decode serial t x"
    using valid x(2,3) empty by (auto simp: explained_def log_of_def x(1) state_after_def intro!: exI [of _ "[]"])
  moreover have "explained decode serial t y \<longleftrightarrow> explained decode serial s y" for y
    by (simp add: explained_def log_of_def x(1))
  moreover have "log_ok t \<longleftrightarrow> log_ok s" by (simp add: log_ok_def x(1))
  ultimately show ?thesis using ok x(2,4,5) by (auto simp: fleet_ok_def instances_ok_def x(1))
qed

lemma delete_instance_Inr:
  assumes "delete_instance n s = Inr t"
  obtains i where "instance_id s n = Some i" "db_instances t = filter (\<lambda>x. in_id x \<noteq> i) (db_instances s)"
    "db_backings t = filter (\<lambda>x. bk_instance x \<noteq> i) (db_backings s)"
    "db_transitions t = filter (\<lambda>x. tr_instance x \<noteq> i) (db_transitions s)" "db_transition_seq t = db_transition_seq s"
  using assms by (auto simp: delete_instance_def Let_def split: option.splits)

lemma delete_fleet_ok:
  assumes ok: "fleet_ok decode serial s" and go: "delete_instance n s = Inr t"
  shows "fleet_ok decode serial t"
proof -
  obtain i where t: "db_instances t = filter (\<lambda>x. in_id x \<noteq> i) (db_instances s)"
    "db_transitions t = filter (\<lambda>x. tr_instance x \<noteq> i) (db_transitions s)" "db_transition_seq t = db_transition_seq s"
    using delete_instance_Inr [OF go] by metis
  have "explained decode serial t x \<longleftrightarrow> explained decode serial s x" if "in_id x \<noteq> i" for x
  proof -
    have "filter (\<lambda>r. tr_instance r = in_id x) (db_transitions t) = filter (\<lambda>r. tr_instance r = in_id x) (db_transitions s)"
      using that by (auto simp: t intro!: filter_cong)
    then show ?thesis by (simp add: explained_def log_of_def)
  qed
  moreover have "log_ok t" using ok by (auto simp: fleet_ok_def log_ok_def t sorted_wrt_map sorted_wrt_filter)
  ultimately show ?thesis using ok by (auto simp: fleet_ok_def instances_ok_def t distinct_map_filter)
qed

lemma commit_fleet_ok:
  assumes ok: "fleet_ok decode serial (en_db en)" and decode: "\<And>ev j. jt_row js ev = Some j \<Longrightarrow> decode j = Some ev"
    and go: "commit_transition js name sw (transition_event_new name prior new cause at) fate now en = Inr (ct, en')"
    and seen: "serial \<Longrightarrow> state_in_txn name (en_db en) = Inr (lifecycle_as_str prior)"
  shows "fleet_ok decode serial (en_db en')"
proof -
  let ?s = "en_db en" let ?t = "en_db en'" let ?ev = "transition_event_new name prior new cause at"
  obtain i json where i: "instance_id ?s name = Some i" "jt_row js ?ev = Some json" "instance_name_new name = Inr name"
      "fleet_part ?t = (moved_instances name new now (db_instances ?s), db_backings ?s,
         db_transitions ?s @ [\<lparr>tr_id = db_transition_seq ?s + 1, tr_instance = i, tr_event = json\<rparr>], db_transition_seq ?s + 1)"
    using commit_transition_fleet [OF go transition_event_new_simps(1), unfolded transition_event_new_simps] by metis
  then have t: "db_instances ?t = moved_instances name new now (db_instances ?s)"
      "db_transitions ?t = db_transitions ?s @ [\<lparr>tr_id = db_transition_seq ?s + 1, tr_instance = i, tr_event = json\<rparr>]"
      "db_transition_seq ?t = db_transition_seq ?s + 1"
    by (simp_all add: fleet_part_def)
  have s: "instances_ok ?s" "log_ok ?s" "0 \<le> db_transition_seq ?s"
      "\<And>r. r \<in> set (db_transitions ?s) \<Longrightarrow> tr_instance r \<in> in_id ` set (db_instances ?s)"
      "\<And>x. x \<in> set (db_instances ?s) \<Longrightarrow> explained decode serial ?s x"
    using ok by (auto simp: fleet_ok_def)
  obtain x0 where x0: "find (\<lambda>x. in_name x = name) (db_instances ?s) = Some x0" "in_id x0 = i"
    using i(1) by (auto simp: instance_id_def)
  have x0': "x0 \<in> set (db_instances ?s)" "in_name x0 = name" using find_Some_in [OF x0(1)] by auto
  have log: "log_of decode j ?t = log_of decode j ?s @ (if j = i then [Some ?ev] else [])" for j
    using decode [OF i(2)] by (simp add: log_of_def t)
  have "explained decode serial ?t y" if y: "y \<in> set (db_instances ?t)" for y
  proof -
    obtain x where x: "x \<in> set (db_instances ?s)"
      "y = (if in_name x = name then x\<lparr>in_state := lifecycle_as_str new, in_updated := now\<rparr> else x)"
      using y by (auto simp: t moved_instances_def)
    obtain evs where evs: "log_of decode (in_id x) ?s = map Some evs" "in_state x = lifecycle_as_str (state_after evs)"
        "serial \<longrightarrow> chained Registered evs" "instance_name_new (in_name x) = Inr (in_name x)"
      using s(5) [OF x(1)] by (auto simp: explained_def)
    show ?thesis
    proof (cases "x = x0")
      case False
      have "distinct (map in_name (db_instances ?s))" "distinct (map in_id (db_instances ?s))"
        using s(1) by (simp_all add: instances_ok_def)
      then have "in_name x \<noteq> name" "in_id x \<noteq> i" using False x(1) x0' x0(2)
        by (metis distinct_map inj_onD)+
      then show ?thesis using evs x(2) by (auto simp: explained_def log)
    next
      case True
      have "serial \<longrightarrow> state_after evs = prior" using seen evs(2) True x0 by (auto simp: state_in_txn_def)
      then have "serial \<longrightarrow> chained Registered (evs @ [?ev])" using evs(3) by (auto simp: chained_snoc state_after_def)
      then show ?thesis using evs True x0' x0(2) x(2)
        by (auto simp: explained_def log state_after_def intro!: exI [of _ "evs @ [?ev]"])
    qed
  qed
  moreover have "instances_ok ?t" using s(1) by (simp add: instances_ok_def t)
  moreover have "log_ok ?t" using s(2,3) unfolding log_ok_def t by (fastforce simp: sorted_wrt_append)
  moreover have "in_id ` set (db_instances ?t) = in_id ` set (db_instances ?s)"
    using moved_instances_keys(1) [of name new now "db_instances ?s"] by (metis list.set_map t)
  moreover have "i \<in> in_id ` set (db_instances ?s)" using x0' x0(2) by blast
  ultimately show ?thesis using s(3,4) by (auto simp: fleet_ok_def t)
qed

lemma valid_name_Inr: "valid_name c = Inr n \<Longrightarrow> n = c \<and> instance_name_new c = Inr c"
  by (auto simp: valid_name_def dest: instance_name_new_id split: sum.splits)

text \<open>What a registration, a removal and an attachment do to the tables, from their results.\<close>

lemma register_moves:
  assumes "register_with_adapter c resolved home_of materialize now s = (r, t)"
  shows "t = s \<or> (\<exists>k u. instance_name_new c = Inr c \<and> create_instance c k Registered (home_of c) now now s = Inr u
     \<and> (t = u \<or> delete_instance c u = Inr t))"
  using assms
  by (auto simp: register_with_adapter_def Let_def dest!: valid_name_Inr
      split: sum.splits store_error.splits option.splits)

lemma remove_moves:
  "registry_remove c disposition force leftover s = (r, t) \<Longrightarrow> t = s \<or> (\<exists>n. delete_instance n s = Inr t)"
  by (auto simp: registry_remove_def Let_def split: sum.splits option.splits if_splits)

lemma check_terminal_Inr:
  "check_terminal name terminal s = Inr u \<longleftrightarrow> (\<exists>st\<in>set terminal. state_in_txn name s = Inr (lifecycle_as_str st))"
  by (cases "state_in_txn name s") (auto simp: check_terminal_def)

lemma attach_in_txn_Inr:
  assumes "attach_in_txn name kind terminal now s = Inr (r, t)"
  shows "(\<exists>st\<in>set terminal. state_in_txn name s = Inr (lifecycle_as_str st)) \<and>
     (t = s \<or> (\<exists>row. bk_instance row = the (instance_id s name) \<and> t = s\<lparr>db_backings := db_backings s @ [row]\<rparr>))"
proof -
  obtain u where guard: "check_terminal name terminal s = Inr u"
    using assms by (auto simp: attach_in_txn_def)
  with assms have "t = s \<or> t = s\<lparr>db_backings := db_backings s
      @ [\<lparr>bk_instance = the (instance_id s name), bk_kind = backing_as_str kind, bk_attached = now\<rparr>]\<rparr>"
    by (auto simp: attach_in_txn_def Let_def split: option.splits if_splits)
  moreover have "bk_instance \<lparr>bk_instance = i, bk_kind = k, bk_attached = n\<rparr> = i" for i k n by simp
  ultimately show ?thesis using guard unfolding check_terminal_Inr by metis
qed

lemma attach_moves:
  assumes "attach_memory fs c kind now seen s = (r, t)"
  shows "t = s \<or> (\<exists>v. attach_in_txn c kind terminal_memory_backing_states now s = Inr (v, t))"
proof -
  have "n = c" if "memory_checks c seen = Inr n" for n
    using that by (auto simp: memory_checks_def dest!: valid_name_Inr)
  then show ?thesis using assms
    by (fastforce simp: attach_memory_def Let_def split: sum.splits prod.splits if_splits)
qed

lemma detach_moves:
  assumes "detach_memory c seen s = (r, t)"
  shows "t = s \<or> detach_in_txn c terminal_memory_backing_states s = Inr t"
proof -
  have "n = c" if "memory_checks c seen = Inr n" for n
    using that by (auto simp: memory_checks_def dest!: valid_name_Inr)
  then show ?thesis using assms by (auto simp: detach_memory_def split: sum.splits)
qed

lemma attach_fleet_ok: "attach_in_txn n kind terminal now s = Inr (v, t) \<Longrightarrow> fleet_ok decode serial t \<longleftrightarrow> fleet_ok decode serial s"
  by (rule fleet_ok_cong) (auto dest!: attach_in_txn_Inr)

lemma detach_fleet_ok: "detach_in_txn n terminal s = Inr t \<Longrightarrow> fleet_ok decode serial t \<longleftrightarrow> fleet_ok decode serial s"
  by (rule fleet_ok_cong) (auto simp: detach_in_txn_def clear_backing_row_def)

lemma fleet_step_ok:
  assumes step: "fleet_step js serial en en'" and ok: "fleet_ok decode serial (en_db en)"
    and decode: "\<And>ev j. jt_row js ev = Some j \<Longrightarrow> decode j = Some ev"
  shows "fleet_ok decode serial (en_db en')"
  using step
proof (cases rule: fleet_step_cases)
  case (register c resolved home_of materialize now r s)
  then show ?thesis using register_moves [OF register(1)] ok
    by (auto dest: create_fleet_ok [OF ok] delete_fleet_ok [rotated])
next
  case (remove c disposition force leftover r s)
  then show ?thesis using remove_moves [OF remove(1)] delete_fleet_ok [OF ok] ok by auto
next
  case (attach fs c kind now seen r s)
  then show ?thesis using attach_moves [OF attach(1)] ok by (auto simp: attach_fleet_ok)
next
  case (detach c seen r s)
  then show ?thesis using detach_moves [OF detach(1)] ok by (auto simp: detach_fleet_ok)
next
  case (transition name sw prior new cause fate at now ct)
  show ?thesis by (rule commit_fleet_ok [OF ok _ transition]) (fact decode)
next
  case other
  then show ?thesis using ok fleet_ok_cong [of "en_db en'" "en_db en" decode serial] by (simp add: fleet_part_eq)
qed

lemma fleet_run_ok:
  assumes "(fleet_step js serial)\<^sup>*\<^sup>* fresh_engine en" and "\<And>ev j. jt_row js ev = Some j \<Longrightarrow> decode j = Some ev"
  shows "fleet_ok decode serial (en_db en)"
  using assms(1)
proof (induction rule: rtranclp_induct)
  case base
  show ?case by (simp add: fleet_ok_def fresh_engine_def empty_db_def instances_ok_def log_ok_def)
next
  case (step en en')
  then show ?case using fleet_step_ok assms(2) by blast
qed

lemma transition_events_log:
  assumes "log_ok s" "instance_id s name = Some i" "log_of decode i s = map Some evs"
  shows "transition_events decode name s = Some (Inr evs)"
proof -
  have "rmap (decode_row what decode) (map (\<lambda>r. (tr_id r, tr_event r)) rows) = Inr (zip (map tr_id rows) es)"
    if "map (\<lambda>r. decode (tr_event r)) rows = map Some es" for rows es what
    using that
  proof (induction rows arbitrary: es)
    case (Cons r rows)
    then obtain e es' where "es = e # es'" "decode (tr_event r) = Some e" "map (\<lambda>r. decode (tr_event r)) rows = map Some es'"
      by (cases es) auto
    with Cons.IH show ?case by (simp add: decode_row_def)
  qed simp
  from this [OF assms(3) [unfolded log_of_def], of "''transition event''"]
  have "rmap (decode_row ''transition event'' decode) (transition_rows i s)
      = Inr (zip (map tr_id (filter (\<lambda>r. tr_instance r = i) (db_transitions s))) evs)"
    by (simp add: transition_rows_def)
  moreover have "length (filter (\<lambda>r. tr_instance r = i) (db_transitions s)) = length evs"
    using arg_cong [OF assms(3), of length] by (simp add: log_of_def)
  ultimately show ?thesis by (simp add: transition_events_eq [OF assms(1)] assms(2))
qed

text \<open>(C7) Through any sequence of registrations, removals, attachments, transitions and other jobs, of any
  number of engines on the database, every registered instance reads back, its paged transition log reads
  whole, and its state is the one its last recorded transition entered (registered without any). If every
  plain transition is issued on the state the supervisor has seen, the log is one unbroken chain of states
  from registered to the current one.\<close>

theorem log_explains_every_state:
  assumes "(fleet_step js serial)\<^sup>*\<^sup>* fresh_engine en" and "\<And>ev j. jt_row js ev = Some j \<Longrightarrow> decode j = Some ev"
    and "name \<in> in_name ` set (db_instances (en_db en))"
  shows "\<exists>inst evs. get_instance (en_db en) name = Inr (Some inst)
     \<and> transition_events decode name (en_db en) = Some (Inr evs)
     \<and> ai_state inst = state_after evs \<and> (serial \<longrightarrow> chained Registered evs)"
proof -
  let ?s = "en_db en"
  have ok: "fleet_ok decode serial ?s" by (rule fleet_run_ok [OF assms(1,2)])
  then have log: "log_ok ?s" by (simp add: fleet_ok_def)
  from assms(3) obtain x where x: "find (\<lambda>i. in_name i = name) (db_instances ?s) = Some x"
    by (cases "find (\<lambda>i. in_name i = name) (db_instances ?s)") (auto simp: find_None_all)
  then have x': "x \<in> set (db_instances ?s)" "in_name x = name" by (auto dest: find_Some_in)
  then obtain evs where evs: "instance_name_new name = Inr name" "log_of decode (in_id x) ?s = map Some evs"
      "in_state x = lifecycle_as_str (state_after evs)" "serial \<longrightarrow> chained Registered evs"
    using ok by (auto simp: fleet_ok_def explained_def)
  have "instance_id ?s name = Some (in_id x)" by (simp add: instance_id_def x)
  from transition_events_log [OF log this evs(2)] evs x x'(2) show ?thesis
    by (simp add: get_instance_def row_to_instance_def lifecycle_wire_roundtrip)
qed

section \<open>The backing of a live instance\<close>

definition live :: "string \<Rightarrow> db \<Rightarrow> bool" where
  "live name s \<longleftrightarrow> (\<exists>st. state_in_txn name s = Inr (lifecycle_as_str st) \<and> st \<notin> set terminal_memory_backing_states)"

lemma live_not_terminal: "live name s \<Longrightarrow> check_terminal name terminal_memory_backing_states s \<noteq> Inr u"
  unfolding check_terminal_Inr live_def by auto

lemma live_attach: "live name s \<Longrightarrow> attach_in_txn name kind terminal_memory_backing_states now s \<noteq> Inr x"
  by (auto simp: attach_in_txn_def rbind_eq_Inr live_not_terminal)

lemma live_detach: "live name s \<Longrightarrow> detach_in_txn name terminal_memory_backing_states s \<noteq> Inr t"
  by (auto simp: detach_in_txn_def rbind_eq_Inr live_not_terminal)

text \<open>The row of the backing and the instance it belongs to.\<close>

definition holds_backing :: "string \<Rightarrow> int \<Rightarrow> backing_row option \<Rightarrow> db \<Rightarrow> bool" where
  "holds_backing name i row s \<longleftrightarrow> instances_ok s \<and> instance_id s name = Some i \<and> backing_row_at s i = row"

lemma one_name_per_id:
  assumes "instances_ok s" "instance_id s n = Some i" "instance_id s m = Some i" shows "n = m"
proof -
  obtain x y where xy: "find (\<lambda>x. in_name x = n) (db_instances s) = Some x" "in_id x = i"
      "find (\<lambda>x. in_name x = m) (db_instances s) = Some y" "in_id y = i"
    using assms(2,3) by (auto simp: instance_id_def)
  have "distinct (map in_id (db_instances s))" using assms(1) by (simp add: instances_ok_def)
  then have "x = y" using xy find_Some_in [OF xy(1)] find_Some_in [OF xy(3)] by (simp add: distinct_map inj_on_def)
  then show ?thesis using find_Some_in [OF xy(1)] find_Some_in [OF xy(3)] by simp
qed

lemma instance_id_known: "instance_id s n \<noteq> None \<longleftrightarrow> n \<in> in_name ` set (db_instances s)"
  by (auto simp: instance_id_def find_None_all)

lemma state_in_txn_id: "state_in_txn name s = Inr st \<Longrightarrow> \<exists>i. instance_id s name = Some i"
  by (auto simp: state_in_txn_def instance_id_def split: option.splits)

lemma find_other_backing:
  "i \<noteq> j \<Longrightarrow> find (\<lambda>b. bk_instance b = i) (filter (\<lambda>b. bk_instance b \<noteq> j) rows) = find (\<lambda>b. bk_instance b = i) rows"
  by (induction rows) auto

lemma create_holds:
  assumes "create_instance n k st home cr up s = Inr t" "holds_backing name i row s"
  shows "holds_backing name i row t \<and> n \<noteq> name"
proof -
  obtain x where x: "t = s\<lparr>db_instances := db_instances s @ [x]\<rparr>" "in_name x = n"
      "in_id x \<notin> in_id ` set (db_instances s)" "n \<notin> in_name ` set (db_instances s)"
    using create_instance_Inr [OF assms(1)] by metis
  moreover have "name \<in> in_name ` set (db_instances s)"
    using assms(2) instance_id_known [of s name] by (simp add: holds_backing_def)
  ultimately show ?thesis using assms(2)
    by (auto simp: holds_backing_def instances_ok_def instance_id_def find_append backing_row_at_def split: option.splits)
qed

lemma delete_holds:
  assumes go: "delete_instance n s = Inr t" and holds: "holds_backing name i row s" and alive: "instance_id t name \<noteq> None"
  shows "holds_backing name i row t"
proof -
  obtain j where j: "instance_id s n = Some j" "db_instances t = filter (\<lambda>x. in_id x \<noteq> j) (db_instances s)"
      "db_backings t = filter (\<lambda>x. bk_instance x \<noteq> j) (db_backings s)"
    using delete_instance_Inr [OF go] by metis
  have s: "instances_ok s" "instance_id s name = Some i" "backing_row_at s i = row"
    using holds by (simp_all add: holds_backing_def)
  have "i \<noteq> j"
  proof
    assume "i = j"
    obtain x where x: "x \<in> set (db_instances t)" "in_name x = name"
      using alive unfolding instance_id_known by auto
    obtain y where y: "y \<in> set (db_instances s)" "in_name y = name" "in_id y = i"
      using s(2) by (auto simp: instance_id_def dest: find_Some_in)
    have "x = y" using s(1) x y j(2) by (auto simp: instances_ok_def distinct_map inj_on_def)
    then show False using x(1) y(3) \<open>i = j\<close> by (simp add: j(2))
  qed
  then have "backing_row_at t i = row" using s(3) by (simp add: backing_row_at_def j(3) find_other_backing)
  moreover have "instances_ok t" using s(1) by (simp add: instances_ok_def j(2) distinct_map_filter)
  moreover have "instance_id t name = Some i"
  proof -
    obtain x where x: "x \<in> set (db_instances s)" "in_name x = name" "in_id x = i"
      using s(2) by (auto simp: instance_id_def dest: find_Some_in)
    then have "x \<in> set (db_instances t)" using \<open>i \<noteq> j\<close> by (simp add: j(2))
    from find_distinct_key [OF _ this, of in_name] \<open>instances_ok t\<close> x
    show ?thesis by (simp add: instances_ok_def instance_id_def)
  qed
  ultimately show ?thesis by (simp add: holds_backing_def)
qed

lemma live_step_holds:
  assumes step: "fleet_step js serial en en'" and holds: "holds_backing name i row (en_db en)"
    and alive: "live name (en_db en)" "live name (en_db en')"
  shows "holds_backing name i row (en_db en')"
proof -
  let ?s = "en_db en" let ?t = "en_db en'"
  have s: "instances_ok ?s" "instance_id ?s name = Some i" "backing_row_at ?s i = row"
    using holds by (simp_all add: holds_backing_def)
  have here: "instance_id ?t name \<noteq> None" using alive(2) state_in_txn_id by (auto simp: live_def)
  show ?thesis
    using step
  proof (cases rule: fleet_step_cases)
    case (register c resolved home_of materialize now r t)
    with register_moves [OF register(1)] holds here show ?thesis
      by (auto dest: create_holds delete_holds)
  next
    case (remove c disposition force leftover r t)
    with remove_moves [OF remove(1)] holds here show ?thesis by (auto dest: delete_holds)
  next
    case (attach fs c kind now seen r t)
    from attach_moves [OF attach(1)] show ?thesis
    proof
      assume "t = ?s" then show ?thesis using holds attach(2) by simp
    next
      assume "\<exists>v. attach_in_txn c kind terminal_memory_backing_states now ?s = Inr (v, t)"
      then obtain v where go: "attach_in_txn c kind terminal_memory_backing_states now ?s = Inr (v, t)" by blast
      have "c \<noteq> name" using live_attach [OF alive(1)] go by auto
      moreover obtain j where "instance_id ?s c = Some j" using attach_in_txn_Inr [OF go] state_in_txn_id by blast
      ultimately have "instance_id ?s c \<noteq> Some i" "instance_id ?s c = Some j" using one_name_per_id [OF s(1) _ s(2)] by auto
      then show ?thesis using attach_in_txn_Inr [OF go] s attach(2)
        by (auto simp: holds_backing_def instances_ok_def instance_id_def backing_row_at_def find_append split: option.splits)
    qed
  next
    case (detach c seen r t)
    from detach_moves [OF detach(1)] show ?thesis
    proof
      assume "t = ?s" then show ?thesis using holds detach(2) by simp
    next
      assume go: "detach_in_txn c terminal_memory_backing_states ?s = Inr t"
      have "c \<noteq> name" using live_detach [OF alive(1)] go by auto
      moreover obtain u where "check_terminal c terminal_memory_backing_states ?s = Inr u"
        using go by (auto simp: detach_in_txn_def)
      then obtain j where j: "instance_id ?s c = Some j" unfolding check_terminal_Inr using state_in_txn_id by blast
      ultimately have "j \<noteq> i" using one_name_per_id [OF s(1) _ s(2)] by auto
      moreover have "t = clear_backing_row j ?s" using go j by (auto simp: detach_in_txn_def)
      ultimately have "backing_row_at t i = backing_row_at ?s i" "db_instances t = db_instances ?s"
        by (simp_all add: backing_row_at_def clear_backing_row_def find_other_backing)
      then show ?thesis using s detach(2) by (simp add: holds_backing_def instances_ok_def instance_id_def)
    qed
  next
    case (transition n sw prior new cause fate at now ct)
    from commit_transition_fleet [OF transition(1) transition_event_new_simps(1)]
    have "db_instances ?t = moved_instances n new now (db_instances ?s)" "db_backings ?t = db_backings ?s"
      by (auto simp: fleet_part_def)
    moreover from this have "instance_id ?t name = instance_id ?s name"
      by (cases "find (\<lambda>x. in_name x = name) (db_instances ?s)") (simp_all add: instance_id_def find_moved)
    ultimately show ?thesis using s by (simp add: holds_backing_def instances_ok_def backing_row_at_def)
  next
    case other
    then show ?thesis using s by (simp add: holds_backing_def instances_ok_def instance_id_def backing_row_at_def fleet_part_eq)
  qed
qed

inductive live_run :: "transition_encoders \<Rightarrow> string \<Rightarrow> engine \<Rightarrow> engine \<Rightarrow> bool" for js name where
  here: "live name (en_db en) \<Longrightarrow> live_run js name en en"
| onward: "live_run js name en en' \<Longrightarrow> fleet_step js False en' en'' \<Longrightarrow> live name (en_db en'') \<Longrightarrow> live_run js name en en''"

lemma live_run_holds:
  "live_run js name en en' \<Longrightarrow> holds_backing name i row (en_db en) \<Longrightarrow> holds_backing name i row (en_db en') \<and> live name (en_db en')"
proof (induction rule: live_run.induct)
  case (onward en en' en'')
  then show ?case using live_step_holds [OF onward.hyps(2)] by blast
qed simp

text \<open>(C8) A Memory Backing is never swapped under a live instance. When a start commits, it commits with
  exactly the backing it has read; from then on, through any steps of any engines, and for as long as the
  instance does not come to rest in a terminal state in between, that backing stays, and attaching or
  detaching is refused with the database unchanged, whatever older state the caller's checks have seen.\<close>

theorem backing_is_fixed_while_live:
  assumes "transition_with_backing_snapshot js name prior Starting cause expected at now en0 = Inr (ct, en1)"
    and "instances_ok (en_db en0)" and "live_run js name en1 en2"
  shows "ct_snapshot ct = expected \<and> get_memory_backing name (en_db en2) = Inr expected
     \<and> (\<forall>fs kind now' seen. \<exists>e. attach_memory fs name kind now' seen (en_db en2) = (Inl e, en_db en2))
     \<and> (\<forall>seen. \<exists>e. detach_memory name seen (en_db en2) = (Inl e, en_db en2))"
proof -
  let ?s = "en_db en0" let ?t = "en_db en1" let ?u = "en_db en2"
  have go: "commit_transition js name (SnapshotBacking prior expected) (transition_event_new name prior Starting cause at)
      Terminal now en0 = Inr (ct, en1)" using assms(1) by (simp add: transition_defs)
  obtain i where i: "instance_id ?s name = Some i" "write_guard name (SnapshotBacking prior expected) (ct_snapshot ct) ?s"
      "fleet_part ?t = (moved_instances name Starting now (db_instances ?s), db_backings ?s, db_transitions ?t, db_transition_seq ?t)"
    by (rule commit_transition_fleet [OF go transition_event_new_simps(1)]) (simp add: fleet_part_def)
  then have guard: "get_memory_backing name ?s = Inr expected" "ct_snapshot ct = expected" by (simp_all add: write_guard_def)
  let ?row = "backing_row_at ?s i"
  have decoded: "decode_backing name ?row = Inr expected" using guard(1) i(1) by (simp add: get_memory_backing_def)
  have "instance_id ?t name = instance_id ?s name"
    using i(3) by (cases "find (\<lambda>x. in_name x = name) (db_instances ?s)") (simp_all add: instance_id_def fleet_part_def find_moved)
  then have "holds_backing name i ?row ?t"
    using i(1,3) assms(2) by (simp add: holds_backing_def instances_ok_def fleet_part_def backing_row_at_def)
  from live_run_holds [OF assms(3) this] have u: "holds_backing name i ?row ?u" "live name ?u" by simp_all
  then have "get_memory_backing name ?u = Inr expected" using decoded by (simp add: holds_backing_def get_memory_backing_def)
  moreover have "\<exists>e. attach_memory fs name kind now' seen ?u = (Inl e, ?u)" for fs kind now' seen
  proof -
    obtain r t where rt: "attach_memory fs name kind now' seen ?u = (r, t)" by fastforce
    have "t = ?u" using attach_moves [OF rt] live_attach [OF u(2)] by blast
    moreover have "\<exists>e. r = Inl e"
    proof (cases r)
      case (Inr dir)
      have "n = name" if "memory_checks name seen = Inr n" for n
        using that by (auto simp: memory_checks_def dest!: valid_name_Inr)
      then show ?thesis using rt Inr live_attach [OF u(2)]
        by (fastforce simp: attach_memory_def Let_def split: sum.splits prod.splits if_splits)
    qed simp
    ultimately show ?thesis using rt by blast
  qed
  moreover have "\<exists>e. detach_memory name seen ?u = (Inl e, ?u)" for seen
  proof -
    have "n = name" if "memory_checks name seen = Inr n" for n
      using that by (auto simp: memory_checks_def dest!: valid_name_Inr)
    then show ?thesis using live_detach [OF u(2)] by (fastforce simp: detach_memory_def split: sum.splits)
  qed
  ultimately show ?thesis using guard(2) by blast
qed

end
