(* ===== verification/Transition_Job.thy ===== *)
theory Transition_Job
  imports Transitions Run_Properties
begin

text \<open>
  The transition job in the engine: it is a run of the engine's steps, so every invariant of the reachable
  states holds after it, and it commits as one, its Run projection apart. Concrete runs at the end.
\<close>

section \<open>A transition is a run of engine steps\<close>

lemma reachable_steps: "(engine_step enc)\<^sup>*\<^sup>* en en' \<Longrightarrow> reachable enc en \<Longrightarrow> reachable enc en'"
  by (induction rule: rtranclp_induct) (auto intro: reachable.step)

lemma append_transition_other:
  assumes "append_transition json ev s = Inr t" shows "run_tables t = run_tables s \<and> outbox_part t = outbox_part s"
  using assms by (auto simp: append_transition_Inr run_tables_def outbox_part_def)

lemma write_state_entries:
  assumes "db_ok s" "write_state name sw new now s = Inr (snapshot, t)"
  shows "entry_of t = entry_of s \<and> db_ok t"
  using assms set_state_tables [of s name new now t] by (simp add: write_state_Inr)

text \<open>The four stages of a committed transition and the engine steps they are.\<close>

lemma commit_transition_stages:
  assumes "reachable (jt_run js) en" and "commit_transition js name sw ev fate now en = Inr (ct, en')"
  obtains s where "reachable (jt_run js) (en\<lparr>en_db := s\<rparr>)" "entry_of s = entry_of (en_db en)"
    "record_at s = record_at (en_db en)" "db_ok s"
    "project_in_savepoint (jt_run js) name (te_new ev) fate (cause_text (te_cause ev)) (te_at ev) (en\<lparr>en_db := s\<rparr>)
       = (ct_run_events ct, ct_projection_failed ct, en')"
proof -
  obtain snapshot s1 s2 app s3 where job: "write_state name sw (te_new ev) now (en_db en) = Inr (snapshot, s1)"
      "append_transition (jt_row js ev) ev s1 = Inr s2" "append_json (jt_bus js ev) s2 = Inr (app, s3)"
      "project_in_savepoint (jt_run js) name (te_new ev) fate (cause_text (te_cause ev)) (te_at ev) (en\<lparr>en_db := s3\<rparr>)
         = (ct_run_events ct, ct_projection_failed ct, en')"
    using assms(2) by (auto simp: commit_transition_def split: prod.splits)
  have ok: "db_ok (en_db en)" "outbox_ok (en_db en)" using reachable_ok [OF assms(1)] by (simp_all add: engine_ok_def)
  have set: "set_state name (te_new ev) now (en_db en) = Inr s1" using job(1) by (simp add: write_state_Inr)
  obtain json where out: "append_outbox json outbox_max_bytes s2 = Inr (app, s3)"
    using job(3) by (auto simp: append_json_def split: option.splits)
  have r1: "reachable (jt_run js) (en\<lparr>en_db := s1\<rparr>)"
    by (rule reachable.step [OF assms(1) engine_step.change_state [OF set]])
  have r2: "reachable (jt_run js) (en\<lparr>en_db := s2\<rparr>)"
    using reachable.step [OF r1 engine_step.other_table [where s = s2]] append_transition_other [OF job(2)] by simp
  have r3: "reachable (jt_run js) (en\<lparr>en_db := s3\<rparr>)"
    using reachable.step [OF r2 engine_step.event [where json = json and app = app and s = s3]] out by simp
  have "outbox_ok s2" using reachable_ok [OF r2] by (simp add: engine_ok_def)
  note tables = append_outbox_tables [OF this out] append_transition_other [OF job(2)]
  have "entry_of s3 = entry_of s1" "record_at s3 = record_at s1"
    using tables run_tables_cong [of s3 s1] by simp_all
  moreover have "entry_of s1 = entry_of (en_db en)" "record_at s1 = record_at (en_db en)"
    using set_state_tables [OF ok(1) set] by simp_all
  moreover have "db_ok s3" using reachable_ok [OF r3] by (simp add: engine_ok_def)
  ultimately show thesis using that [OF r3] job(4) by simp
qed

text \<open>(C6) A committed transition is one change of the engine. Its state write has passed its guard: the stored
  state was the expected one, and for a start the backing the one it has read. Afterwards the instance is in
  the new state and its log ends with this event. Its Runs have moved by the projection, announced with
  exactly the projection's events; or the projection could not be recorded, and then no Run and nothing of
  the published snapshot has changed. In every case the engine is one that its own steps reach, with all
  their invariants.\<close>

theorem transition_commits_as_one:
  assumes "reachable (jt_run js) en"
    and "commit_transition js name sw (transition_event_new name prior new cause at) fate now en = Inr (ct, en')"
  shows "reachable (jt_run js) en' \<and> write_guard name sw (ct_snapshot ct) (en_db en)
     \<and> state_in_txn name (en_db en') = Inr (lifecycle_as_str new)
     \<and> (\<exists>i json. instance_id (en_db en) name = Some i
          \<and> jt_row js (transition_event_new name prior new cause at) = Some json
          \<and> transition_rows i (en_db en') = transition_rows i (en_db en) @ [(db_transition_seq (en_db en) + 1, json)])
     \<and> (case ct_projection_failed ct of
          Some _ \<Rightarrow> entry_of (en_db en') = entry_of (en_db en) \<and> en_snap en' = en_snap en \<and> ct_run_events ct = []
        | None \<Rightarrow> \<exists>s ch t. record_at s = record_at (en_db en) \<and> entry_of s = entry_of (en_db en)
            \<and> project_transition name new fate (cause_text cause) at s = Inr (ch, t)
            \<and> entry_of (en_db en') = entry_of t \<and> map fst (ct_run_events ct) = ch_events ch)"
proof -
  let ?ev = "transition_event_new name prior new cause at"
  have fields: "te_cause ?ev = cause" "te_at ?ev = at" by (simp_all add: transition_event_new_def)
  obtain s where s: "reachable (jt_run js) (en\<lparr>en_db := s\<rparr>)" "entry_of s = entry_of (en_db en)"
      "record_at s = record_at (en_db en)" "db_ok s"
      "project_in_savepoint (jt_run js) name new fate (cause_text cause) at (en\<lparr>en_db := s\<rparr>)
         = (ct_run_events ct, ct_projection_failed ct, en')"
    using commit_transition_stages [OF assms] by (auto simp: fields)
  obtain i json where i: "instance_id (en_db en) name = Some i" "jt_row js ?ev = Some json"
      "write_guard name sw (ct_snapshot ct) (en_db en)"
      "fleet_part (en_db en') = (moved_instances name new now (db_instances (en_db en)), db_backings (en_db en),
         db_transitions (en_db en) @ [\<lparr>tr_id = db_transition_seq (en_db en) + 1, tr_instance = i, tr_event = json\<rparr>],
         db_transition_seq (en_db en) + 1)"
    using commit_transition_fleet [OF assms(2) transition_event_new_simps(1), unfolded transition_event_new_simps] by metis
  have "reachable (jt_run js) en'" by (rule reachable.step [OF s(1) engine_step.transition [OF s(5)]])
  moreover have "state_in_txn name (en_db en') = Inr (lifecycle_as_str new)"
    using i(1,4) by (auto simp: fleet_part_def state_in_txn_def find_moved instance_id_def split: option.splits)
  moreover have "transition_rows i (en_db en') = transition_rows i (en_db en) @ [(db_transition_seq (en_db en) + 1, json)]"
    using i(4) by (simp add: fleet_part_def transition_rows_def)
  moreover have "case ct_projection_failed ct of
      Some _ \<Rightarrow> entry_of (en_db en') = entry_of (en_db en) \<and> en_snap en' = en_snap en \<and> ct_run_events ct = []
    | None \<Rightarrow> \<exists>s ch t. record_at s = record_at (en_db en) \<and> entry_of s = entry_of (en_db en)
        \<and> project_transition name new fate (cause_text cause) at s = Inr (ch, t)
        \<and> entry_of (en_db en') = entry_of t \<and> map fst (ct_run_events ct) = ch_events ch"
  proof (cases "ct_projection_failed ct")
    case (Some e)
    then have "ct_run_events ct = []" "en' = en\<lparr>en_db := s\<rparr>"
      using s(5) by (auto simp: project_in_savepoint_def split: sum.splits)
    then show ?thesis using Some s(2) by simp
  next
    case None
    then obtain ch t where run: "project_transition name new fate (cause_text cause) at s = Inr (ch, t)"
        "commit_changes (jt_run js) ch (en\<lparr>en_db := t\<rparr>) = Inr (ct_run_events ct, en')"
      using s(5) by (auto simp: project_in_savepoint_def split: sum.splits)
    have "outbox_ok s" using reachable_ok [OF s(1)] by (simp add: engine_ok_def)
    then have "outbox_ok t" using project_transition_outbox [OF run(1)] outbox_part_ok by blast
    then have "run_tables (en_db en') = run_tables t" "map fst (ct_run_events ct) = ch_events ch"
      using commit_changes_spec(2,4) [OF run(2)] by simp_all
    with run_tables_cong(1) [OF this(1)] run(1) s(2,3) show ?thesis unfolding None option.case by blast
  qed
  ultimately show ?thesis using i(1,2,3) by blast
qed

section \<open>Concrete runs\<close>

definition demo_start :: transition_event where
  "demo_start = transition_event_new ''a'' Registered Starting (CommandCause ''start'') ''t1''"

definition demo_js :: transition_encoders where
  "demo_js = \<lparr>jt_row = (\<lambda>ev. if ev = demo_start then Some ''s'' else None), jt_bus = (\<lambda>_. Some ''b''), jt_run = demo_encoder\<rparr>"

definition demo_registered :: engine where
  "demo_registered = fresh_engine\<lparr>en_db := empty_db
     [\<lparr>in_id = 1, in_name = ''a'', in_kind = ''k'', in_state = ''registered'', in_home = ''h'', in_created = ''t0'',
       in_updated = ''t0'', in_generation = 0\<rparr>]\<rparr>"

lemma demo_register:
  "register_with_adapter ''a'' (Inr ''k'') (\<lambda>_. ''h'') (\<lambda>_. None) ''t0'' (en_db fresh_engine)
     = (Inr \<lparr>ai_name = ''a'', ai_kind = ''k'', ai_state = Registered, ai_home = ''h'', ai_created = ''t0'', ai_updated = ''t0''\<rparr>,
        en_db demo_registered)"
  by (simp add: register_with_adapter_def valid_name_def demo_name create_instance_def fresh_engine_def empty_db_def
      demo_registered_def)

lemma demo_registered_reachable: "reachable demo_encoder demo_registered"
proof -
  have "create_instance ''a'' ''k'' Registered ''h'' ''t0'' ''t0'' (en_db fresh_engine) = Inr (en_db demo_registered)"
    by (simp add: create_instance_def fresh_engine_def empty_db_def demo_registered_def)
  from reachable.step [OF reachable.start engine_step.add_instance [OF this]] show ?thesis
    by (simp add: demo_registered_def)
qed

lemma demo_registered_fleet: "fleet_step demo_js serial fresh_engine demo_registered"
  using fleet_step.register [OF demo_register, of demo_js serial] by (simp add: demo_registered_def)

lemma demo_started:
  "\<exists>ct en. transition_with_backing_snapshot demo_js ''a'' Registered Starting (CommandCause ''start'') None ''t1'' ''t1'' demo_registered
     = Inr (ct, en)"
  by (simp add: transition_defs commit_transition_def write_state_Inr write_state_def transition_snapshot_in_txn_def
      check_prior_def state_in_txn_def demo_registered_def empty_db_def backing_in_txn_def decode_backing_def instance_id_def
      backing_row_at_def set_state_def append_transition_def require_instance_id_def demo_name demo_js_def demo_start_def
      append_json_def append_outbox_def make_room_def outbox_max_bytes_def log_rotate_max_bytes_def log_rotate_generations_def
      Let_def split_beta)

lemma transition_commits_as_one_witness:
  "\<exists>ct en. transition_with_backing_snapshot demo_js ''a'' Registered Starting (CommandCause ''start'') None ''t1'' ''t1'' demo_registered
       = Inr (ct, en)
     \<and> reachable demo_encoder en \<and> state_in_txn ''a'' (en_db en) = Inr ''starting''"
proof -
  obtain ct en where go: "transition_with_backing_snapshot demo_js ''a'' Registered Starting (CommandCause ''start'') None ''t1'' ''t1''
      demo_registered = Inr (ct, en)" using demo_started by blast
  have "reachable (jt_run demo_js) demo_registered" using demo_registered_reachable by (simp add: demo_js_def)
  from transition_commits_as_one [OF this go [unfolded transition_defs]] go show ?thesis by (auto simp: demo_js_def)
qed

lemma log_explains_every_state_witness:
  "\<exists>en inst evs. (fleet_step demo_js True)\<^sup>*\<^sup>* fresh_engine en \<and> get_instance (en_db en) ''a'' = Inr (Some inst)
     \<and> transition_events (\<lambda>_. Some demo_start) ''a'' (en_db en) = Some (Inr evs)
     \<and> ai_state inst = state_after evs \<and> chained Registered evs"
proof -
  obtain ct en where go: "transition_with_backing_snapshot demo_js ''a'' Registered Starting (CommandCause ''start'') None ''t1'' ''t1''
      demo_registered = Inr (ct, en)" using demo_started by blast
  have run: "(fleet_step demo_js True)\<^sup>*\<^sup>* fresh_engine en"
    using demo_registered_fleet fleet_step.start [OF go] by (meson converse_rtranclp_into_rtranclp rtranclp.rtrancl_refl)
  have decode: "jt_row demo_js ev = Some j \<Longrightarrow> Some demo_start = Some ev" for ev j by (auto simp: demo_js_def split: if_splits)
  have known: "''a'' \<in> in_name ` set (db_instances (en_db en))"
    by (rule commit_transition_fleet [OF go [unfolded transition_defs] transition_event_new_simps(1)])
      (simp add: fleet_part_def moved_instances_def demo_registered_def empty_db_def)
  from log_explains_every_state [where decode = "\<lambda>_. Some demo_start", OF run decode known] run show ?thesis by auto
qed

lemma backing_is_fixed_while_live_witness:
  "\<exists>en :: engine. get_memory_backing ''a'' (en_db en) = Inr None
     \<and> (\<exists>e. detach_memory ''a'' (en_db demo_registered) (en_db en) = (Inl e, en_db en))"
proof -
  obtain ct en where go: "transition_with_backing_snapshot demo_js ''a'' Registered Starting (CommandCause ''start'') None ''t1'' ''t1''
      demo_registered = Inr (ct, en)" using demo_started by blast
  have ok: "instances_ok (en_db demo_registered)" by (simp add: demo_registered_def empty_db_def instances_ok_def)
  have "live ''a'' (en_db en)"
    by (rule commit_transition_fleet [OF go [unfolded transition_defs] transition_event_new_simps(1)])
      (auto simp: fleet_part_def live_def state_in_txn_def moved_instances_def demo_registered_def empty_db_def
        terminal_memory_backing_states_def intro!: exI [of _ Starting])
  from backing_is_fixed_while_live [OF go ok live_run.here [OF this]]
  show ?thesis by blast
qed

end
