(* ===== verification/Resync.thy ===== *)
theory Resync
  imports Transition_Job Pipeline_Total
begin

text \<open>
  Reading the committed events of an instance back (\<open>domain/resync.rs\<close>, \<open>usage_events\<close> of
  \<open>store/sqlite.rs\<close>): three families of rows, the host's cursor as one count per family, and the batch of
  what lies past it. Followed through any history of the database, a host that polls with the cursor of
  its last batch receives every committed event of every family once and in commit order.

  The counts are lengths of vectors in memory, so they are natural numbers; the \<open>u64\<close> casts of the code
  lose nothing.
\<close>

section \<open>The ledger rows of an instance\<close>

definition usage_event_of_row :: "string \<Rightarrow> usage_row \<Rightarrow> usage_event" where
  "usage_event_of_row name u =
     \<lparr>ue_instance = name, ue_run = ur_run u, ue_input = clamp_u64 (ur_input u), ue_output = clamp_u64 (ur_output u),
      ue_cached = map_option clamp_u64 (ur_cached u), ue_source = ur_source u,
      ue_sequence = clamp_u64 (ur_sequence u), ue_occurred = ur_occurred u\<rparr>"

definition usage_rows :: "int \<Rightarrow> db \<Rightarrow> usage_row list" where
  "usage_rows i s = filter (\<lambda>u. ur_instance u = Some i) (db_usage s)"

definition usage_events :: "string \<Rightarrow> db \<Rightarrow> usage_event list" where
  "usage_events name s =
     (case instance_id s name of
        None \<Rightarrow> []
      | Some i \<Rightarrow> map (usage_event_of_row name) (sort_key ur_id (usage_rows i s)))"

section \<open>Batches\<close>

definition usage_schema_version :: u32 where
  "usage_schema_version = 1"

record usage_update_event =
  uu_schema :: u32
  uu_event :: usage_event

definition usage_update_event_new :: "usage_event \<Rightarrow> usage_update_event" where
  "usage_update_event_new ev = \<lparr>uu_schema = usage_schema_version, uu_event = ev\<rparr>"

lemma uu_event_new [simp]: "uu_event (usage_update_event_new ev) = ev"
  by (simp add: usage_update_event_new_def)

datatype bus_event = BusTransition transition_event | BusBreach breach_event | BusUsage usage_update_event | BusRun run_event

record resync_cursor =
  rc_transitions :: nat
  rc_breaches :: nat
  rc_usage :: nat

definition resync_start :: resync_cursor where
  "resync_start = \<lparr>rc_transitions = 0, rc_breaches = 0, rc_usage = 0\<rparr>"

record resync_batch =
  rb_events :: "bus_event list"
  rb_cursor :: resync_cursor
  rb_torn :: bool

datatype resync_error =
  ResyncName name_error | ResyncUnknown string | ResyncStore store_error | TruncatedFamily string nat nat

definition assemble ::
  "transition_event list \<Rightarrow> breach_event list \<Rightarrow> usage_event list \<Rightarrow> resync_cursor \<Rightarrow> resync_batch" where
  "assemble transitions breaches usage after =
     \<lparr>rb_events =
        map BusTransition (drop (min (rc_transitions after) (length transitions)) transitions)
        @ map BusBreach (drop (min (rc_breaches after) (length breaches)) breaches)
        @ map (BusUsage \<circ> usage_update_event_new) (drop (min (rc_usage after) (length usage)) usage),
      rb_cursor = \<lparr>rc_transitions = length transitions, rc_breaches = length breaches, rc_usage = length usage\<rparr>,
      rb_torn = False\<rparr>"

definition reject_truncated_family :: "string \<Rightarrow> nat \<Rightarrow> nat \<Rightarrow> resync_error + unit" where
  "reject_truncated_family family cursor committed =
     (if cursor > committed then Inl (TruncatedFamily family cursor committed) else Inr ())"

text \<open>The decoders of the two JSON columns, and the read: one view of the database, the loops of the two
  paged families, then the guards. \<open>None\<close> would be a paging loop that does not end.\<close>

record event_decoders =
  ed_transition :: "string \<Rightarrow> transition_event option"
  ed_breach :: "string \<Rightarrow> breach_event option"

definition read_committed ::
  "event_decoders \<Rightarrow> string \<Rightarrow> resync_cursor \<Rightarrow> db \<Rightarrow> (resync_error + resync_batch) option" where
  "read_committed rd name after s =
     Option.bind (transition_events (ed_transition rd) name s) (\<lambda>transitions.
       case transitions of
         Inl e \<Rightarrow> Some (Inl (ResyncStore e))
       | Inr transitions \<Rightarrow>
     Option.bind (breach_events (ed_breach rd) name s) (\<lambda>breaches.
       case breaches of
         Inl e \<Rightarrow> Some (Inl (ResyncStore e))
       | Inr breaches \<Rightarrow>
           (let usage = usage_events name s
            in Some (rbind (reject_truncated_family ''transition'' (rc_transitions after) (length transitions)) (\<lambda>_.
                     rbind (reject_truncated_family ''breach'' (rc_breaches after) (length breaches)) (\<lambda>_.
                     rbind (reject_truncated_family ''usage-ledger'' (rc_usage after) (length usage)) (\<lambda>_.
                       Inr (assemble transitions breaches usage after))))))))"

definition resync_events ::
  "event_decoders \<Rightarrow> string \<Rightarrow> resync_cursor \<Rightarrow> db \<Rightarrow> (resync_error + resync_batch) option" where
  "resync_events rd candidate after s =
     (case instance_name_new candidate of
        Inl reason \<Rightarrow> Some (Inl (ResyncName reason))
      | Inr name \<Rightarrow>
          (case lookup_instance name s of
             Inl (Store e) \<Rightarrow> Some (Inl (ResyncStore e))
           | Inl _ \<Rightarrow> Some (Inl (ResyncUnknown name))
           | Inr _ \<Rightarrow> read_committed rd name after s))"

section \<open>What the rows of a database decode to\<close>

definition breach_log_ok :: "db \<Rightarrow> bool" where
  "breach_log_ok s \<longleftrightarrow> sorted_wrt (<) (map br_id (db_breaches s)) \<and> (\<forall>r\<in>set (db_breaches s). 0 < br_id r \<and> br_id r \<le> db_breach_seq s)
     \<and> 0 \<le> db_breach_seq s"

definition records_ok :: "db \<Rightarrow> bool" where
  "records_ok s \<longleftrightarrow> log_ok s \<and> 0 \<le> db_transition_seq s \<and> breach_log_ok s
     \<and> sorted_wrt (<) (map ur_id (db_usage s)) \<and> (\<forall>u\<in>set (db_usage s). ur_id u \<le> db_usage_seq s)"

definition decoded_transitions :: "event_decoders \<Rightarrow> int \<Rightarrow> db \<Rightarrow> transition_event option list" where
  "decoded_transitions rd i s = map (\<lambda>r. ed_transition rd (snd r)) (transition_rows i s)"

definition decoded_breaches :: "event_decoders \<Rightarrow> int \<Rightarrow> db \<Rightarrow> breach_event option list" where
  "decoded_breaches rd i s = map (\<lambda>r. ed_breach rd (snd r)) (breach_rows i s)"

lemma breach_rows_sorted:
  "breach_log_ok s \<Longrightarrow> sorted_wrt (<) (map fst (breach_rows i s)) \<and> above 0 (breach_rows i s) = breach_rows i s"
  by (auto simp: breach_log_ok_def breach_rows_def sorted_wrt_map sorted_wrt_filter filter_id_conv o_def)

lemma breach_events_eq:
  assumes "breach_log_ok s" and "instance_id s name = Some i"
  shows "breach_events decode name s =
    Some (rbind (rmap (decode_row ''breach event'' decode) (breach_rows i s)) (\<lambda>found. Inr (map snd found)))"
  using breach_rows_sorted [OF assms(1), of i] assms(2)
  by (simp add: breach_events_def breaches_page_def instance_page_def page_loop_reads_rows)

lemma rmap_decode:
  "rmap (decode_row what decode) rows = Inr found \<Longrightarrow> map (\<lambda>r. decode (snd r)) rows = map (Some \<circ> snd) found"
proof (induction rows arbitrary: found)
  case (Cons r rows)
  then show ?case by (auto simp: decode_row_def rbind_def split: sum.splits option.splits)
qed simp

text \<open>One successful read.\<close>

lemma read_committed_Inr:
  assumes go: "read_committed rd name after s = Some (Inr b)" and ok: "records_ok s" and i: "instance_id s name = Some i"
  obtains ts bs us where "decoded_transitions rd i s = map Some ts" "decoded_breaches rd i s = map Some bs"
    "us = map (usage_event_of_row name) (usage_rows i s)"
    "rc_transitions after \<le> length ts" "rc_breaches after \<le> length bs" "rc_usage after \<le> length us"
    "b = \<lparr>rb_events = map BusTransition (drop (rc_transitions after) ts) @ map BusBreach (drop (rc_breaches after) bs)
            @ map (BusUsage \<circ> usage_update_event_new) (drop (rc_usage after) us),
          rb_cursor = \<lparr>rc_transitions = length ts, rc_breaches = length bs, rc_usage = length us\<rparr>, rb_torn = False\<rparr>"
proof -
  have logs: "log_ok s" "breach_log_ok s" "sorted_wrt (<) (map ur_id (db_usage s))" using ok by (simp_all add: records_ok_def)
  have "sorted (map ur_id (usage_rows i s))"
    using logs(3) by (auto simp: usage_rows_def sorted_wrt_map sorted_map intro!: sorted_wrt_filter elim: sorted_wrt_mono_rel [rotated])
  then have us: "usage_events name s = map (usage_event_of_row name) (usage_rows i s)"
    by (simp add: usage_events_def i sort_key_id_if_sorted)
  obtain tr where tr: "transition_events (ed_transition rd) name s = Some tr" using go by (auto simp: read_committed_def bind_eq_Some_conv)
  then obtain ts where ts: "tr = Inr ts" using go by (cases tr) (auto simp: read_committed_def)
  obtain br where br: "breach_events (ed_breach rd) name s = Some br"
    using go tr ts by (auto simp: read_committed_def bind_eq_Some_conv)
  then obtain bs where bs: "br = Inr bs" using go tr ts by (cases br) (auto simp: read_committed_def)
  note r = tr [unfolded ts] br [unfolded bs]
  have guards: "rc_transitions after \<le> length ts" "rc_breaches after \<le> length bs" "rc_usage after \<le> length (usage_events name s)"
    and b: "b = assemble ts bs (usage_events name s) after"
    using go r by (auto simp: read_committed_def Let_def reject_truncated_family_def rbind_def split: sum.splits if_splits)
  have "decoded_transitions rd i s = map Some ts"
    using r(1) rmap_decode [of "''transition event''" "ed_transition rd" "transition_rows i s"]
    by (auto simp: transition_events_eq [OF logs(1)] i decoded_transitions_def rbind_def split: sum.splits)
  moreover have "decoded_breaches rd i s = map Some bs"
    using r(2) rmap_decode [of "''breach event''" "ed_breach rd" "breach_rows i s"]
    by (auto simp: breach_events_eq [OF logs(2) i] decoded_breaches_def rbind_def split: sum.splits)
  ultimately show thesis using that guards by (simp add: b us assemble_def)
qed

section \<open>Histories\<close>

text \<open>What an operation on Runs, on the outbox or on any other table leaves alone.\<close>

definition record_part ::
  "db \<Rightarrow> (int \<times> string) list \<times> transition_row list \<times> int \<times> breach_row list \<times> int \<times> usage_row list \<times> int" where
  "record_part s = (map (\<lambda>x. (in_id x, in_name x)) (db_instances s), db_transitions s, db_transition_seq s,
     db_breaches s, db_breach_seq s, db_usage s, db_usage_seq s)"

interpretation records: run_frame record_part
  by unfold_locales (simp_all add: record_part_def)

inductive record_step :: "transition_encoders \<Rightarrow> encoders \<Rightarrow> engine \<Rightarrow> engine \<Rightarrow> bool" for tj js where
  register: "register_with_adapter candidate resolved home_of materialize now (en_db en) = (r, s) \<Longrightarrow>
    record_step tj js en (en\<lparr>en_db := s\<rparr>)"
| remove: "remove_job candidate disposition force leftover en = (r, en') \<Longrightarrow> record_step tj js en en'"
| attach: "attach_memory fs candidate kind now seen (en_db en) = (r, s) \<Longrightarrow> record_step tj js en (en\<lparr>en_db := s\<rparr>)"
| detach: "detach_memory candidate seen (en_db en) = (r, s) \<Longrightarrow> record_step tj js en (en\<lparr>en_db := s\<rparr>)"
| transition: "commit_transition tj name sw (transition_event_new name prior new cause at) fate now en = Inr (ct, en') \<Longrightarrow>
    record_step tj js en en'"
| usage: "commit_usage js fault ev generation input at en = Inr (update, evaluation, raises, en') \<Longrightarrow> record_step tj js en en'"
| other: "record_part (en_db en') = record_part (en_db en) \<Longrightarrow> record_step tj js en en'"

text \<open>What a step does to the records of an instance that is there before and after it.\<close>

definition extends :: "int \<Rightarrow> db \<Rightarrow> db \<Rightarrow> bool" where
  "extends i s t \<longleftrightarrow> (\<exists>a b c. transition_rows i t = transition_rows i s @ a \<and> breach_rows i t = breach_rows i s @ b
     \<and> usage_rows i t = usage_rows i s @ c)"

definition appends :: "db \<Rightarrow> db \<Rightarrow> bool" where
  "appends s t \<longleftrightarrow> (records_ok s \<longrightarrow> records_ok t) \<and> (\<forall>i. extends i s t)"

lemma appends_trans: "appends s t \<Longrightarrow> appends t u \<Longrightarrow> appends s u"
  unfolding appends_def extends_def by (metis append.assoc)

lemma appends_same: "record_part t = record_part s \<Longrightarrow> appends s t"
  by (simp add: appends_def extends_def record_part_def records_ok_def log_ok_def breach_log_ok_def transition_rows_def
      breach_rows_def usage_rows_def)

lemma appends_refl [simp]: "appends s s"
  by (rule appends_same) simp

lemma appends_keep: "appends s u \<Longrightarrow> record_part t = record_part u \<Longrightarrow> appends s t"
  using appends_trans appends_same by blast

lemma appends_rows:
  assumes "db_transitions t = db_transitions s @ ts" "db_breaches t = db_breaches s @ bs" "db_usage t = db_usage s @ us"
    and "records_ok s \<Longrightarrow> records_ok t"
  shows "appends s t"
  using assms by (auto simp: appends_def extends_def transition_rows_def breach_rows_def usage_rows_def)

lemma append_breach_appends: "append_breach json ev s = Inr t \<Longrightarrow> appends s t"
proof (drule append_breach_Inr, elim exE conjE)
  fix i tx
  assume t: "t = s\<lparr>db_breaches := db_breaches s @ [breach_row_of (db_breach_seq s + 1) i ev tx], db_breach_seq := db_breach_seq s + 1\<rparr>"
  have "br_id (breach_row_of (db_breach_seq s + 1) i ev tx) = db_breach_seq s + 1" by (simp add: breach_row_of_def)
  then have "records_ok s \<Longrightarrow> records_ok t"
    unfolding records_ok_def breach_log_ok_def log_ok_def t by (fastforce simp: sorted_wrt_append)
  then show "appends s t" by (intro appends_rows [of t s "[]" _ "[]"]) (simp_all add: t)
qed

lemma append_transition_appends: "append_transition json ev s = Inr t \<Longrightarrow> appends s t"
  unfolding append_transition_Inr
proof (elim exE conjE)
  fix i tx
  assume t: "t = s\<lparr>db_transitions := db_transitions s @ [\<lparr>tr_id = db_transition_seq s + 1, tr_instance = i, tr_event = tx\<rparr>],
      db_transition_seq := db_transition_seq s + 1\<rparr>"
  have "records_ok s \<Longrightarrow> records_ok t"
    unfolding records_ok_def breach_log_ok_def log_ok_def t by (fastforce simp: sorted_wrt_append)
  then show "appends s t" by (intro appends_rows [of t s _ "[]" "[]"]) (simp_all add: t)
qed

lemma fold_records: "(\<And>x t. record_part (f x t) = record_part t) \<Longrightarrow> record_part (fold f xs s) = record_part s"
  by (induction xs arbitrary: s) simp_all

lemma write_rollup_records:
  "record_part (write_run_rollup k r s) = record_part s" "record_part (write_instance_rollup i r s) = record_part s"
  "record_part (s\<lparr>db_folded_through := n\<rparr>) = record_part s"
  by (simp_all add: write_run_rollup_def write_instance_rollup_def record_part_def)

lemma fold_rows_records: "record_part (fold_rows b s) = record_part s"
  unfolding fold_rows_def Let_def
  by (simp add: write_rollup_records fold_records case_prod_beta)

lemma insert_usage_appends: "insert_usage ev rate g s = Inr (out, t) \<Longrightarrow> appends s t"
proof (cases out)
  case Inserted
  assume "insert_usage ev rate g s = Inr (out, t)"
  with Inserted obtain i where t: "t = fold_rows True (s\<lparr>db_usage := db_usage s @ [usage_row_of (db_usage_seq s + 1) i ev rate g],
      db_usage_seq := db_usage_seq s + 1\<rparr>)"
    using insert_usage_Inserted [of ev rate g s t] by auto
  let ?u = "s\<lparr>db_usage := db_usage s @ [usage_row_of (db_usage_seq s + 1) i ev rate g], db_usage_seq := db_usage_seq s + 1\<rparr>"
  have "ur_id (usage_row_of (db_usage_seq s + 1) i ev rate g) = db_usage_seq s + 1" by (simp add: usage_row_of_def)
  then have "records_ok s \<Longrightarrow> records_ok ?u"
    unfolding records_ok_def breach_log_ok_def log_ok_def by (fastforce simp: sorted_wrt_append)
  then have "appends s ?u" by (intro appends_rows [of ?u s "[]" "[]"]) simp_all
  then show "appends s t" unfolding t by (rule appends_trans) (rule appends_same, rule fold_rows_records)
next
  case DuplicateReplay
  assume "insert_usage ev rate g s = Inr (out, t)"
  with DuplicateReplay show "appends s t" by (auto simp: insert_usage_def Let_def split: if_splits)
qed

lemma latch_records: "latch rid key action at s = Inr t \<Longrightarrow> record_part t = record_part s"
  by (auto simp: latch_def Let_def record_part_def split: if_splits)

lemma commit_decision_appends: "commit_decision js input l at d st = Inr st' \<Longrightarrow> appends (es_db st) (es_db st')"
  by (auto simp: commit_decision_def Let_def rbind_def split: sum.splits
      dest!: append_breach_appends latch_records records.append_json elim: appends_keep)

lemma commit_level_appends: "commit_level js input at lo st = Inr st' \<Longrightarrow> appends (es_db st) (es_db st')"
proof -
  obtain l out where lo: "lo = (l, out)" by (cases lo)
  assume "commit_level js input at lo st = Inr st'"
  then obtain u where u: "rfold (commit_decision js input l at) (go_decisions out) st = Inr u"
    and rest: "st' = u \<or> (\<exists>ch s. mark_breach (lv_run l) at (es_db u) = Inr (ch, s) \<and> es_db st' = s)"
    by (auto simp: commit_level_def lo rbind_def split: sum.splits if_splits)
  have "appends (es_db st) (es_db u)"
    by (rule rfold_invariant [where I = "\<lambda>v. appends (es_db st) (es_db v)", OF u])
      (auto dest: commit_decision_appends intro: appends_trans)
  moreover have "record_part s = record_part (es_db u)" if "mark_breach (lv_run l) at (es_db u) = Inr (ch, s)" for ch s
    using that by (auto simp: mark_breach_def rbind_def dest!: records.move_to split: sum.splits option.splits if_splits)
  ultimately show ?thesis using rest by (auto elim: appends_keep)
qed

lemma levels_for_records: "levels_for input at s = Inr (ls, t) \<Longrightarrow> record_part t = record_part s"
  by (auto simp: levels_for_def rbind_def ensure_run_row_def record_part_def split: sum.splits if_splits)

lemma evaluate_appends: "evaluate js fault input at en = Inr (evn, raises, en') \<Longrightarrow> appends (en_db en) (en_db en')"
proof (cases "pi_supervised input")
  case True
  assume go: "evaluate js fault input at en = Inr (evn, raises, en')"
  show ?thesis
  proof (rule evaluate_Inr [OF go True])
    fix levels s
    assume "levels_for input at (en_db en) = Inr (levels, s)" "en' = en\<lparr>en_db := s\<rparr>"
    then show "appends (en_db en) (en_db en')" by (auto dest: levels_for_records intro: appends_same)
  next
    fix levels s gis dg st c
    assume l: "levels_for input at (en_db en) = Inr (levels, s)"
      and loop: "rfold (commit_level js input at) (zip (filter level_is_armed levels) (map decide gis)) (eval_start s) = Inr st"
      and commit: "commit_changes (jn_run js) (es_changes st) (en\<lparr>en_db := es_db st\<rparr>) = Inr (c, en')"
    have "appends (en_db en) (es_db st)"
    proof (rule rfold_invariant [where I = "\<lambda>v. appends (en_db en) (es_db v)", OF loop])
      show "appends (en_db en) (es_db (eval_start s))"
        using levels_for_records [OF l] by (auto simp: eval_start_def intro: appends_same)
    qed (auto dest: commit_level_appends intro: appends_trans)
    with records.commit_changes [OF commit] show "appends (en_db en) (en_db en')" by (auto elim: appends_keep)
  qed
qed (simp add: evaluate_def)

lemma commit_usage_appends:
  "commit_usage js fault ev g input at en = Inr (u, evn, raises, en') \<Longrightarrow> appends (en_db en) (en_db en')"
  by (auto simp: commit_usage_def rbind_def split: sum.splits if_splits
      dest!: insert_usage_appends evaluate_appends dest!: records.append_json)
    (meson appends_keep appends_trans)+

lemma commit_transition_appends:
  assumes "commit_transition js name sw ev fate now en = Inr (ct, en')"
  shows "appends (en_db en) (en_db en')"
proof -
  obtain snapshot s1 s2 app s3 where job: "write_state name sw (te_new ev) now (en_db en) = Inr (snapshot, s1)"
      "append_transition (jt_row js ev) ev s1 = Inr s2" "append_json (jt_bus js ev) s2 = Inr (app, s3)"
      "project_in_savepoint (jt_run js) name (te_new ev) fate (cause_text (te_cause ev)) (te_at ev) (en\<lparr>en_db := s3\<rparr>)
         = (ct_run_events ct, ct_projection_failed ct, en')"
    using assms by (auto simp: commit_transition_def split: prod.splits)
  have "record_part s1 = record_part (en_db en)"
    using job(1) by (auto simp: write_state_Inr set_state_Inr record_part_def moved_instances_def)
  then have "appends (en_db en) s2" using append_transition_appends [OF job(2)] appends_same appends_trans by blast
  then have "appends (en_db en) s3" using records.append_json [OF job(3)] by (rule appends_keep)
  with records.project_in_savepoint [OF job(4)] show ?thesis by (auto elim: appends_keep)
qed

lemma create_instance_appends: "create_instance n k st home cr up s = Inr t \<Longrightarrow> appends s t"
  by (rule create_instance_Inr, assumption) (rule appends_rows [of t s "[]" "[]" "[]"], simp_all add: records_ok_def log_ok_def breach_log_ok_def)

text \<open>A removal keeps the records of every instance that is there after it.\<close>

lemma delete_instance_records:
  assumes "delete_instance n s = Inr t"
  shows "records_ok s \<Longrightarrow> records_ok t" and "instance_id t name = Some i \<Longrightarrow> extends i s t"
proof -
  obtain j where t: "db_instances t = filter (\<lambda>x. in_id x \<noteq> j) (db_instances s)" "db_usage t = filter (\<lambda>u. ur_instance u \<noteq> Some j) (db_usage s)"
    "db_breaches t = filter (\<lambda>b. br_instance b \<noteq> j) (db_breaches s)" "db_transitions t = filter (\<lambda>x. tr_instance x \<noteq> j) (db_transitions s)"
    "db_transition_seq t = db_transition_seq s" "db_breach_seq t = db_breach_seq s" "db_usage_seq t = db_usage_seq s"
    using assms by (auto simp: delete_instance_def Let_def split: option.splits)
  show "records_ok s \<Longrightarrow> records_ok t"
    by (auto simp: records_ok_def log_ok_def breach_log_ok_def t sorted_wrt_map intro: sorted_wrt_filter)
  assume "instance_id t name = Some i"
  then have "i \<noteq> j" by (auto simp: instance_id_def t(1) dest!: find_Some_in)
  then show "extends i s t"
    by (auto simp: extends_def transition_rows_def breach_rows_def usage_rows_def t filter_filter
        intro!: exI [of _ "[]"] arg_cong [where f = "map _"] filter_cong)
qed

lemma record_step_keeps:
  assumes "record_step tj js en en'" and "records_ok (en_db en)"
  shows "records_ok (en_db en')" and "instance_id (en_db en') name = Some i \<Longrightarrow> extends i (en_db en) (en_db en')"
proof -
  have "records_ok (en_db en') \<and> (instance_id (en_db en') name = Some i \<longrightarrow> extends i (en_db en) (en_db en'))"
    using assms(1)
  proof cases
    case (register candidate resolved home_of materialize now r s)
    from register_moves [OF register(2)] show ?thesis
    proof (elim disjE exE conjE)
      fix k u
      assume c: "create_instance candidate k Registered (home_of candidate) now now (en_db en) = Inr u" "delete_instance candidate u = Inr s"
      have u: "appends (en_db en) u" by (rule create_instance_appends [OF c(1)])
      then have "records_ok u" using assms(2) by (simp add: appends_def)
      moreover have "extends i (en_db en) v" if "extends i u v" for v
        using u that unfolding appends_def extends_def by (metis append.assoc)
      ultimately show ?thesis using delete_instance_records [OF c(2)] by (auto simp: register(1))
    qed (use assms(2) create_instance_appends in \<open>auto simp: register(1) appends_def extends_def\<close>)
  next
    case (remove candidate disposition force leftover r)
    then have "registry_remove candidate disposition force leftover (en_db en) = (r, en_db en')"
      by (auto simp: remove_job_def split: prod.splits)
    from remove_moves [OF this] show ?thesis
      using delete_instance_records assms(2) by (auto simp: extends_def)
  next
    case (attach fs candidate kind now seen r s)
    have "record_part s = record_part (en_db en)"
      using attach_moves [OF attach(2)] by (auto simp: record_part_def dest!: attach_in_txn_Inr)
    from appends_same [OF this] show ?thesis using assms(2) by (simp add: attach(1) appends_def)
  next
    case (detach candidate seen r s)
    have "record_part s = record_part (en_db en)"
      using detach_moves [OF detach(2)] by (auto simp: record_part_def detach_in_txn_def clear_backing_row_def)
    from appends_same [OF this] show ?thesis using assms(2) by (simp add: detach(1) appends_def)
  next
    case transition
    from commit_transition_appends [OF this] show ?thesis using assms(2) by (simp add: appends_def)
  next
    case usage
    from commit_usage_appends [OF this] show ?thesis using assms(2) by (simp add: appends_def)
  next
    case other
    from appends_same [OF this] show ?thesis using assms(2) by (simp add: appends_def)
  qed
  then show "records_ok (en_db en')" "instance_id (en_db en') name = Some i \<Longrightarrow> extends i (en_db en) (en_db en')"
    by simp_all
qed

section \<open>A host that follows an instance\<close>

record received =
  rv_transitions :: "transition_event list"
  rv_breaches :: "breach_event list"
  rv_usage :: "usage_event list"

fun receive :: "bus_event \<Rightarrow> received \<Rightarrow> received" where
  "receive (BusTransition e) got = got\<lparr>rv_transitions := rv_transitions got @ [e]\<rparr>"
| "receive (BusBreach e) got = got\<lparr>rv_breaches := rv_breaches got @ [e]\<rparr>"
| "receive (BusUsage e) got = got\<lparr>rv_usage := rv_usage got @ [uu_event e]\<rparr>"
| "receive (BusRun e) got = got"

lemma receive_batch:
  "fold receive (map BusTransition ts @ map BusBreach bs @ map (BusUsage \<circ> usage_update_event_new) us) got =
     \<lparr>rv_transitions = rv_transitions got @ ts, rv_breaches = rv_breaches got @ bs, rv_usage = rv_usage got @ us\<rparr>"
proof -
  have t: "fold receive (map BusTransition ts) got = got\<lparr>rv_transitions := rv_transitions got @ ts\<rparr>" for got
    by (induction ts arbitrary: got) simp_all
  have b: "fold receive (map BusBreach bs) got = got\<lparr>rv_breaches := rv_breaches got @ bs\<rparr>" for got
    by (induction bs arbitrary: got) simp_all
  have u: "fold receive (map (BusUsage \<circ> usage_update_event_new) us) got = got\<lparr>rv_usage := rv_usage got @ us\<rparr>" for got
    by (induction us arbitrary: got) simp_all
  show ?thesis by (simp add: t b u)
qed

text \<open>The database moves on while the instance stays registered under its id; the host polls with the
  cursor of its last batch and keeps what it gets.\<close>

inductive follows ::
  "transition_encoders \<Rightarrow> encoders \<Rightarrow> event_decoders \<Rightarrow> string \<Rightarrow> int \<Rightarrow> engine \<Rightarrow> resync_cursor \<Rightarrow> received \<Rightarrow> bool"
  for tj js rd name i where
  begins: "(record_step tj js)\<^sup>*\<^sup>* fresh_engine en \<Longrightarrow> instance_id (en_db en) name = Some i \<Longrightarrow>
    follows tj js rd name i en resync_start \<lparr>rv_transitions = [], rv_breaches = [], rv_usage = []\<rparr>"
| moves: "follows tj js rd name i en c got \<Longrightarrow> record_step tj js en en' \<Longrightarrow> instance_id (en_db en') name = Some i \<Longrightarrow>
    follows tj js rd name i en' c got"
| polls: "follows tj js rd name i en c got \<Longrightarrow> resync_events rd name c (en_db en) = Some (Inr b) \<Longrightarrow>
    follows tj js rd name i en (rb_cursor b) (fold receive (rb_events b) got)"

text \<open>What the host holds is the first rows of each family, as many as its cursor says.\<close>

definition holds_prefix :: "event_decoders \<Rightarrow> string \<Rightarrow> int \<Rightarrow> db \<Rightarrow> resync_cursor \<Rightarrow> received \<Rightarrow> bool" where
  "holds_prefix rd name i s c got \<longleftrightarrow>
     map Some (rv_transitions got) = take (rc_transitions c) (decoded_transitions rd i s)
     \<and> map Some (rv_breaches got) = take (rc_breaches c) (decoded_breaches rd i s)
     \<and> rv_usage got = take (rc_usage c) (map (usage_event_of_row name) (usage_rows i s))
     \<and> length (rv_transitions got) = rc_transitions c \<and> length (rv_breaches got) = rc_breaches c \<and> length (rv_usage got) = rc_usage c"

lemma fresh_records_ok: "records_ok (en_db fresh_engine)"
  by (simp add: fresh_engine_def empty_db_def records_ok_def log_ok_def breach_log_ok_def)

lemma history_records_ok: "(record_step tj js)\<^sup>*\<^sup>* fresh_engine en \<Longrightarrow> records_ok (en_db en)"
  by (induction rule: rtranclp_induct) (auto intro: fresh_records_ok record_step_keeps(1))

lemma resync_events_read:
  "resync_events rd name c s = Some (Inr b) \<Longrightarrow> read_committed rd name c s = Some (Inr b)"
  by (auto simp: resync_events_def split: sum.splits registry_error.splits dest: instance_name_new_Inr)

lemma holds_prefix_extends: "holds_prefix rd name i s c got \<Longrightarrow> extends i s t \<Longrightarrow> holds_prefix rd name i t c got"
proof -
  assume h: "holds_prefix rd name i s c got" and "extends i s t"
  then obtain x y z where e: "transition_rows i t = transition_rows i s @ x" "breach_rows i t = breach_rows i s @ y"
    "usage_rows i t = usage_rows i s @ z" by (auto simp: extends_def)
  have "rc_transitions c \<le> length (transition_rows i s)" "rc_breaches c \<le> length (breach_rows i s)" "rc_usage c \<le> length (usage_rows i s)"
    using h by (auto simp: holds_prefix_def decoded_transitions_def decoded_breaches_def dest: arg_cong [where f = length])
  with h show ?thesis by (simp add: holds_prefix_def decoded_transitions_def decoded_breaches_def e)
qed

lemma poll_holds:
  assumes h: "holds_prefix rd name i s c got" and ok: "records_ok s" and i: "instance_id s name = Some i"
    and go: "read_committed rd name c s = Some (Inr b)"
  shows "holds_prefix rd name i s (rb_cursor b) (fold receive (rb_events b) got)"
    and "map Some (rv_transitions (fold receive (rb_events b) got)) = decoded_transitions rd i s"
    and "map Some (rv_breaches (fold receive (rb_events b) got)) = decoded_breaches rd i s"
    and "rv_usage (fold receive (rb_events b) got) = map (usage_event_of_row name) (usage_rows i s)"
proof -
  obtain ts bs us where r: "decoded_transitions rd i s = map Some ts" "decoded_breaches rd i s = map Some bs"
      "us = map (usage_event_of_row name) (usage_rows i s)"
    and b: "b = \<lparr>rb_events = map BusTransition (drop (rc_transitions c) ts) @ map BusBreach (drop (rc_breaches c) bs)
            @ map (BusUsage \<circ> usage_update_event_new) (drop (rc_usage c) us),
          rb_cursor = \<lparr>rc_transitions = length ts, rc_breaches = length bs, rc_usage = length us\<rparr>, rb_torn = False\<rparr>"
    by (rule read_committed_Inr [OF go ok i]) blast
  have "rv_transitions got = take (rc_transitions c) ts" "rv_breaches got = take (rc_breaches c) bs"
      "rv_usage got = take (rc_usage c) us"
    using h by (simp_all add: holds_prefix_def r take_map inj_map_eq_map [OF inj_Some])
  then have "fold receive (rb_events b) got = \<lparr>rv_transitions = ts, rv_breaches = bs, rv_usage = us\<rparr>"
    unfolding b resync_batch.simps receive_batch by simp
  then show "holds_prefix rd name i s (rb_cursor b) (fold receive (rb_events b) got)"
    "map Some (rv_transitions (fold receive (rb_events b) got)) = decoded_transitions rd i s"
    "map Some (rv_breaches (fold receive (rb_events b) got)) = decoded_breaches rd i s"
    "rv_usage (fold receive (rb_events b) got) = map (usage_event_of_row name) (usage_rows i s)"
    by (simp_all add: holds_prefix_def r b)
qed

lemma follows_invariant:
  assumes "follows tj js rd name i en c got"
  shows "records_ok (en_db en) \<and> instance_id (en_db en) name = Some i \<and> holds_prefix rd name i (en_db en) c got"
  using assms
proof induction
  case (begins en)
  then show ?case by (simp add: history_records_ok holds_prefix_def resync_start_def)
next
  case (moves en c got en')
  then show ?case using record_step_keeps [OF moves(2)] holds_prefix_extends by blast
next
  case (polls en c got b)
  then show ?case using poll_holds(1) resync_events_read by blast
qed

text \<open>The read comes to an end, and its guards never fire for such a host.\<close>

lemma resync_guards_hold:
  assumes ok: "records_ok s" and i: "instance_id s name = Some i" and h: "holds_prefix rd name i s c got"
  obtains r where "resync_events rd name c s = Some r" and "r \<noteq> Inl (TruncatedFamily family cursor committed)"
proof -
  have logs: "log_ok s" "breach_log_ok s" using ok by (simp_all add: records_ok_def)
  obtain tr br where tr: "transition_events (ed_transition rd) name s = Some tr" and br: "breach_events (ed_breach rd) name s = Some br"
    using transition_events_eq [OF logs(1)] breach_events_eq [OF logs(2) i] by simp
  have len: "length (usage_events name s) = length (usage_rows i s)"
      "tr = Inr ts \<Longrightarrow> length ts = length (transition_rows i s)" "br = Inr bs \<Longrightarrow> length bs = length (breach_rows i s)" for ts bs
    using tr br rmap_decode [of "''transition event''" "ed_transition rd" "transition_rows i s"]
      rmap_decode [of "''breach event''" "ed_breach rd" "breach_rows i s"]
    by (auto simp: usage_events_def i transition_events_eq [OF logs(1)] breach_events_eq [OF logs(2) i] rbind_def
        split: sum.splits dest: arg_cong [where f = length])
  have le: "rc_transitions c \<le> length (transition_rows i s)" "rc_breaches c \<le> length (breach_rows i s)" "rc_usage c \<le> length (usage_rows i s)"
    using h by (auto simp: holds_prefix_def decoded_transitions_def decoded_breaches_def dest: arg_cong [where f = length])
  show thesis
    by (rule that [of "the (resync_events rd name c s)"])
      (use tr br len le in \<open>auto simp: resync_events_def read_committed_def Let_def reject_truncated_family_def rbind_def
         split: sum.splits registry_error.splits dest: instance_name_new_Inr\<close>)
qed

text \<open>(C9) A host that resyncs with the cursor of its last batch misses nothing and gets nothing twice.
  Start with any history of the database and an instance in it, follow the instance through any
  registrations, removals, attachments, transitions and committed reports for as long as it stays
  registered, and poll at any moments: of each family (transitions, breaches, ledger rows) the host has
  at every moment exactly the first events that were committed, in the order of the commits and as many
  as its cursor says. The next poll always comes to an end, is never refused for a truncated family,
  and after it the host has every committed event.\<close>

theorem resync_delivers_every_event_once:
  assumes "follows tj js rd name i en c got"
  shows "holds_prefix rd name i (en_db en) c got
    \<and> (\<exists>r. resync_events rd name c (en_db en) = Some r)
    \<and> resync_events rd name c (en_db en) \<noteq> Some (Inl (TruncatedFamily family cursor committed))
    \<and> (resync_events rd name c (en_db en) = Some (Inr b) \<longrightarrow>
         map Some (rv_transitions (fold receive (rb_events b) got)) = decoded_transitions rd i (en_db en)
         \<and> map Some (rv_breaches (fold receive (rb_events b) got)) = decoded_breaches rd i (en_db en)
         \<and> rv_usage (fold receive (rb_events b) got) = map (usage_event_of_row name) (usage_rows i (en_db en)))"
proof -
  have inv: "records_ok (en_db en)" "instance_id (en_db en) name = Some i" "holds_prefix rd name i (en_db en) c got"
    using follows_invariant [OF assms] by simp_all
  obtain r where "resync_events rd name c (en_db en) = Some r" "r \<noteq> Inl (TruncatedFamily family cursor committed)"
    by (rule resync_guards_hold [OF inv])
  then show ?thesis using inv(3) poll_holds(2-4) [OF inv(3,1,2) resync_events_read, of b] by auto
qed

section \<open>Concrete runs\<close>

definition namesake_row :: "string \<Rightarrow> string \<Rightarrow> instance_row" where
  "namesake_row st up = \<lparr>in_id = 1, in_name = ''a'', in_kind = ''k'', in_state = st, in_home = ''h'', in_created = ''t0'',
     in_updated = up, in_generation = 0\<rparr>"

definition namesake_db :: "instance_row list \<Rightarrow> transition_row list \<Rightarrow> int \<Rightarrow> db" where
  "namesake_db instances rows n = (empty_db instances)\<lparr>db_transitions := rows, db_transition_seq := n,
     db_outbox := map (\<lambda>k. \<lparr>ob_seq = k, ob_event = ''b'', ob_bytes = 1\<rparr>) [1..n], db_outbox_seq := n, db_outbox_bytes := n\<rparr>"

definition registered_db :: "int \<Rightarrow> db" where
  "registered_db n = namesake_db [namesake_row ''registered'' ''t0''] [] n"

definition started_db :: "int \<Rightarrow> db" where
  "started_db n = namesake_db [namesake_row ''starting'' ''t1''] [\<lparr>tr_id = n, tr_instance = 1, tr_event = ''s''\<rparr>] n"

lemmas namesake_defs = namesake_db_def namesake_row_def empty_db_def registered_db_def started_db_def

definition namesake_decoders :: event_decoders where
  "namesake_decoders = \<lparr>ed_transition = (\<lambda>_. Some demo_start), ed_breach = (\<lambda>_. None)\<rparr>"

lemma no_projection: "db_runs s = [] \<Longrightarrow> project_in_savepoint enc name new fate cause at (en\<lparr>en_db := s\<rparr>) = ([], None, en\<lparr>en_db := s\<rparr>)"
  by (simp add: project_in_savepoint_def project_transition_def open_process_run_def records_where_def rbind_def
      commit_changes_def no_changes_def)

lemma namesake_register:
  "record_step tj js (en\<lparr>en_db := namesake_db [] [] n\<rparr>) (en\<lparr>en_db := registered_db n\<rparr>)"
proof -
  have "\<exists>r. register_with_adapter ''a'' (Inr ''k'') (\<lambda>_. ''h'') (\<lambda>_. None) ''t0'' (en_db (en\<lparr>en_db := namesake_db [] [] n\<rparr>))
      = (r, registered_db n)"
    by (simp add: register_with_adapter_def valid_name_def demo_name create_instance_def namesake_defs)
  then obtain r where "register_with_adapter ''a'' (Inr ''k'') (\<lambda>_. ''h'') (\<lambda>_. None) ''t0'' (en_db (en\<lparr>en_db := namesake_db [] [] n\<rparr>))
      = (r, registered_db n)" by blast
  from record_step.register [OF this] show ?thesis by simp
qed

lemma namesake_start:
  assumes "n = 0 \<or> n = 1"
  shows "record_step demo_js js (fresh_engine\<lparr>en_db := registered_db n\<rparr>) (fresh_engine\<lparr>en_db := started_db (n + 1)\<rparr>)"
proof -
  have upto: "[1..0::int] = []" "[1..1::int] = [1]" "[1..2::int] = [1, 2]" by (simp_all add: upto_rec1)
  have "\<exists>ct. transition_with_backing_snapshot demo_js ''a'' Registered Starting (CommandCause ''start'') None ''t1'' ''t1''
        (fresh_engine\<lparr>en_db := registered_db n\<rparr>) = Inr (ct, fresh_engine\<lparr>en_db := started_db (n + 1)\<rparr>)"
    using assms
    by (elim disjE; simp add: transition_defs commit_transition_def write_state_Inr write_state_def
        transition_snapshot_in_txn_def check_prior_def state_in_txn_def namesake_defs backing_in_txn_def
        decode_backing_def instance_id_def backing_row_at_def set_state_def append_transition_def require_instance_id_def
        demo_name demo_js_def demo_start_def append_json_def append_outbox_def make_room_def outbox_max_bytes_def
        log_rotate_max_bytes_def log_rotate_generations_def Let_def split_beta no_projection upto)
  then show ?thesis unfolding transition_defs by (blast intro: record_step.transition)
qed

lemma namesake_lookup:
  "lookup_instance ''a'' (started_db n) = Inr \<lparr>ai_name = ''a'', ai_kind = ''k'', ai_state = Starting, ai_home = ''h'',
     ai_created = ''t0'', ai_updated = ''t1''\<rparr>"
proof -
  have "row_to_instance (namesake_row ''starting'' ''t1'') = Inr \<lparr>ai_name = ''a'', ai_kind = ''k'', ai_state = Starting,
      ai_home = ''h'', ai_created = ''t0'', ai_updated = ''t1''\<rparr>"
    using lifecycle_wire_roundtrip [of Starting] by (simp add: row_to_instance_def namesake_row_def demo_name)
  then show ?thesis by (simp add: lookup_instance_def get_instance_def namesake_defs(1,3,5) rbind_def) (simp add: namesake_row_def)
qed

lemma namesake_remove:
  "record_step tj js (en\<lparr>en_db := started_db n\<rparr>) (en\<lparr>en_db := namesake_db [] [] n\<rparr>)"
proof -
  have "delete_instance ''a'' (started_db n) = Inr (namesake_db [] [] n)"
    by (auto simp: delete_instance_def namesake_defs instance_id_def Let_def fun_eq_iff)
  then have "registry_remove ''a'' Delete True (\<lambda>_. None) (started_db n) = (Inr (), namesake_db [] [] n)"
    by (simp add: registry_remove_def valid_name_def demo_name namesake_lookup)
  then have "remove_job ''a'' Delete True (\<lambda>_. None) (en\<lparr>en_db := started_db n\<rparr>) = (Inr (), en\<lparr>en_db := namesake_db [] [] n\<rparr>)"
    by (simp add: remove_job_def)
  from record_step.remove [OF this] show ?thesis .
qed

lemma namesake_poll:
  assumes "rc_transitions c \<le> 1" and "rc_breaches c = 0" and "rc_usage c = 0" and "0 < n"
  shows "resync_events namesake_decoders ''a'' c (started_db n) =
    Some (Inr \<lparr>rb_events = map BusTransition (drop (rc_transitions c) [demo_start]),
      rb_cursor = \<lparr>rc_transitions = 1, rc_breaches = 0, rc_usage = 0\<rparr>, rb_torn = False\<rparr>)"
proof -
  have i: "instance_id (started_db n) ''a'' = Some 1" by (simp add: namesake_defs instance_id_def)
  have logs: "log_ok (started_db n)" "breach_log_ok (started_db n)"
    using assms(4) by (simp_all add: namesake_defs log_ok_def breach_log_ok_def)
  have "transition_events (ed_transition namesake_decoders) ''a'' (started_db n) = Some (Inr [demo_start])"
    by (simp add: transition_events_eq [OF logs(1)] i) (simp add: namesake_defs transition_rows_def decode_row_def namesake_decoders_def)
  moreover have "breach_events (ed_breach namesake_decoders) ''a'' (started_db n) = Some (Inr [])"
    by (simp add: breach_events_eq [OF logs(2) i]) (simp add: namesake_defs breach_rows_def)
  moreover have "usage_events ''a'' (started_db n) = []"
    by (simp add: usage_events_def usage_rows_def i) (simp add: namesake_defs)
  ultimately show ?thesis
    using assms(1-3) by (simp add: resync_events_def demo_name namesake_lookup read_committed_def reject_truncated_family_def
        assemble_def)
qed

text \<open>The scope of the property: one registration. A host that keeps its cursor while the name is removed
  and registered again is told neither that its position is gone nor of the new records it covers.\<close>

lemma namesake_is_skipped:
  "\<exists>en en' b. follows demo_js js namesake_decoders ''a'' 1 en \<lparr>rc_transitions = 1, rc_breaches = 0, rc_usage = 0\<rparr>
        \<lparr>rv_transitions = [demo_start], rv_breaches = [], rv_usage = []\<rparr>
     \<and> (record_step demo_js js)\<^sup>*\<^sup>* en en' \<and> length (transition_rows 1 (en_db en')) = 1
     \<and> transition_rows 1 (en_db en') \<noteq> transition_rows 1 (en_db en)
     \<and> resync_events namesake_decoders ''a'' \<lparr>rc_transitions = 1, rc_breaches = 0, rc_usage = 0\<rparr> (en_db en') = Some (Inr b)
     \<and> rb_events b = []"
proof -
  let ?at = "\<lambda>s. fresh_engine\<lparr>en_db := s\<rparr>" and ?c = "\<lparr>rc_transitions = 1, rc_breaches = 0, rc_usage = 0\<rparr>"
  have fresh: "?at (namesake_db [] [] 0) = fresh_engine" by (simp add: fresh_engine_def namesake_defs)
  have run: "(record_step demo_js js)\<^sup>*\<^sup>* fresh_engine (?at (started_db 1))"
    using namesake_register [of demo_js js 0 fresh_engine, unfolded fresh] namesake_start [of 0 js]
    by (auto intro: converse_rtranclp_into_rtranclp)
  moreover have "instance_id (started_db 1) ''a'' = Some 1" by (simp add: namesake_defs instance_id_def)
  ultimately have "follows demo_js js namesake_decoders ''a'' 1 (?at (started_db 1)) resync_start
      \<lparr>rv_transitions = [], rv_breaches = [], rv_usage = []\<rparr>" by (intro follows.begins) simp_all
  from follows.polls [OF this] have "follows demo_js js namesake_decoders ''a'' 1 (?at (started_db 1)) ?c
      \<lparr>rv_transitions = [demo_start], rv_breaches = [], rv_usage = []\<rparr>"
    by (simp add: namesake_poll resync_start_def)
  moreover have "(record_step demo_js js)\<^sup>*\<^sup>* (?at (started_db 1)) (?at (started_db 2))"
    using namesake_remove [of demo_js js 1 fresh_engine] namesake_register [of demo_js js 1 fresh_engine] namesake_start [of 1 js]
    by (auto intro: converse_rtranclp_into_rtranclp)
  moreover have "transition_rows 1 (started_db n) = [(n, ''s'')]" for n by (simp add: transition_rows_def namesake_defs)
  moreover have "\<exists>b. resync_events namesake_decoders ''a'' ?c (started_db 2) = Some (Inr b) \<and> rb_events b = []"
    by (simp add: namesake_poll)
  ultimately show ?thesis by (intro exI [of _ "?at (started_db 1)"] exI [of _ "?at (started_db 2)"]) auto
qed

lemma resync_delivers_every_event_once_witness:
  "\<exists>en c got b. follows demo_js demo_encoders namesake_decoders ''a'' 1 en c got
     \<and> holds_prefix namesake_decoders ''a'' 1 (en_db en) c got \<and> rv_transitions got = [demo_start]"
  using namesake_is_skipped [of demo_encoders] resync_delivers_every_event_once by fastforce

end
