(* ===== verification/Config.thy ===== *)
theory Config
  imports Database
begin

text \<open>
  The layered configuration (\<open>domain/config.rs\<close>): TOML values, the resolver that folds four layers into
  one effective map from dotted keys to values with the layer that supplied them, the known keys, the
  validation of a write, and the live reads of budgets, rates and caps from the effective map.

  A \<open>BTreeMap\<close> is a list of pairs in key order, and so is a TOML table. A TOML value that is neither a
  string, an integer nor a table is kept as its inline text.
\<close>

section \<open>Ordered maps\<close>

fun bt_insert :: "'k::linorder \<Rightarrow> 'v \<Rightarrow> ('k \<times> 'v) list \<Rightarrow> ('k \<times> 'v) list" where
  "bt_insert k v [] = [(k, v)]"
| "bt_insert k v ((k', v') # rest) =
     (if k < k' then (k, v) # (k', v') # rest
      else if k = k' then (k, v) # rest
      else (k', v') # bt_insert k v rest)"

definition bt_ok :: "('k::linorder \<times> 'v) list \<Rightarrow> bool" where
  "bt_ok m \<longleftrightarrow> sorted_wrt (<) (map fst m)"

lemma map_of_bt_insert [simp]: "map_of (bt_insert k v m) = (map_of m)(k \<mapsto> v)"
  by (induction m) auto

lemma fst_set_bt_insert [simp]: "fst ` set (bt_insert k v m) = insert k (fst ` set m)"
  by (induction k v m rule: bt_insert.induct) (simp_all add: insert_commute)

lemma bt_ok_insert [simp]: "bt_ok m \<Longrightarrow> bt_ok (bt_insert k v m)"
proof (induction m)
  case (Cons x m)
  obtain k' v' where x: "x = (k', v')" by (cases x)
  have "fst ` set (bt_insert k v m) = insert k (fst ` set m)" by simp
  with Cons show ?case by (auto simp: bt_ok_def x image_iff)
qed (simp add: bt_ok_def)

lemma bt_ok_tl: "bt_ok (x # m) \<Longrightarrow> bt_ok m"
  by (simp add: bt_ok_def)

lemma bt_ok_Nil [simp]: "bt_ok []" "bt_ok [x]"
  by (simp_all add: bt_ok_def)

lemma set_bt_insert: "set (bt_insert k v m) \<subseteq> insert (k, v) (set m)"
  by (induction k v m rule: bt_insert.induct) auto

lemma bt_ok_distinct: "bt_ok m \<Longrightarrow> distinct (map fst m)"
  by (simp add: bt_ok_def strict_sorted_iff)

section \<open>Layers\<close>

datatype toml = TStr string | TInt int | TOther string | TTable "(string \<times> toml) list"

type_synonym toml_table = "(string \<times> toml) list"

datatype source_layer = EngineDefault | KindDefault | InstanceLayer | InvocationOverride

fun layer_as_str :: "source_layer \<Rightarrow> string" where
  "layer_as_str EngineDefault = ''engine-default''"
| "layer_as_str KindDefault = ''kind-default''"
| "layer_as_str InstanceLayer = ''instance''"
| "layer_as_str InvocationOverride = ''invocation-override''"

definition source_order :: "source_layer list" where
  "source_order = [EngineDefault, KindDefault, InstanceLayer, InvocationOverride]"

record resolved_value =
  rv_value :: toml
  rv_source :: source_layer

type_synonym effective_map = "(string \<times> resolved_value) list"

definition secret_name :: "string \<Rightarrow> string option" where
  "secret_name value =
     (case strip_prefix secret_prefix value of Some name \<Rightarrow> if name = [] then None else Some name | None \<Rightarrow> None)"

definition is_secret_ref :: "string \<Rightarrow> bool" where
  "is_secret_ref value = (case strip_prefix secret_prefix value of Some name \<Rightarrow> name \<noteq> [] | None \<Rightarrow> False)"

definition secret_mask :: string where "secret_mask = ''secret:****''"

definition pass_through_tail :: "string \<Rightarrow> string option" where
  "pass_through_tail key =
     (case strip_prefix ''agent.'' key of Some tail \<Rightarrow> if tail = [] then None else Some tail | None \<Rightarrow> None)"

definition is_pass_through :: "string \<Rightarrow> bool" where
  "is_pass_through key = (case strip_prefix ''agent.'' key of Some tail \<Rightarrow> tail \<noteq> [] | None \<Rightarrow> False)"

text \<open>\<open>inline\<close> is TOML's rendering of the values that are not strings.\<close>

definition display_value :: "(toml \<Rightarrow> string) \<Rightarrow> toml \<Rightarrow> string" where
  "display_value inline value =
     (case value of TStr s \<Rightarrow> if is_secret_ref s then secret_mask else s | other \<Rightarrow> inline other)"

section \<open>Resolving\<close>

datatype merged = MLeaf toml source_layer | MSub "(string \<times> merged) list"

text \<open>The children a table is merged into: a leaf or an empty slot gives way to a fresh subtree.\<close>

definition sub_of :: "merged option \<Rightarrow> (string \<times> merged) list" where
  "sub_of slot = (case slot of Some (MSub children) \<Rightarrow> children | _ \<Rightarrow> [])"

fun merge_table_into :: "source_layer \<Rightarrow> (string \<times> merged) list \<Rightarrow> toml_table \<Rightarrow> (string \<times> merged) list" where
  "merge_table_into src children [] = children"
| "merge_table_into src children ((key, value) # rest) =
     merge_table_into src
       (case value of
          TTable table \<Rightarrow> bt_insert key (MSub (merge_table_into src (sub_of (map_of children key)) table)) children
        | leaf \<Rightarrow> bt_insert key (MLeaf leaf src) children) rest"

definition dot :: "string \<Rightarrow> string \<Rightarrow> string" where
  "dot prefix key = (if prefix = [] then key else prefix @ ''.'' @ key)"

text \<open>\<open>flatten_into\<close> as the sequence of its insertions.\<close>

fun flatten_node :: "string \<Rightarrow> merged \<Rightarrow> (string \<times> resolved_value) list"
  and flatten_children :: "string \<Rightarrow> (string \<times> merged) list \<Rightarrow> (string \<times> resolved_value) list" where
  "flatten_node prefix (MLeaf value source) = [(prefix, \<lparr>rv_value = value, rv_source = source\<rparr>)]"
| "flatten_node prefix (MSub children) = flatten_children prefix children"
| "flatten_children prefix [] = []"
| "flatten_children prefix ((key, child) # rest) =
     flatten_node (dot prefix key) child @ flatten_children prefix rest"

definition collect_leaves :: "(string \<times> resolved_value) list \<Rightarrow> effective_map" where
  "collect_leaves insertions = fold (\<lambda>(key, value) out. bt_insert key value out) insertions []"

definition merged_root :: "(toml_table \<times> source_layer) list \<Rightarrow> (string \<times> merged) list" where
  "merged_root layers = fold (\<lambda>(table, source) root. merge_table_into source root table) layers []"

text \<open>The four layers, weakest first; the root's keys are flattened as they are.\<close>

definition resolve :: "toml_table list \<Rightarrow> effective_map" where
  "resolve layers =
     collect_leaves (concat (map (\<lambda>(key, node). flatten_node key node) (merged_root (zip layers source_order))))"

definition effective_get :: "effective_map \<Rightarrow> string \<Rightarrow> resolved_value option" where
  "effective_get effective key = map_of effective key"

definition effective_value :: "effective_map \<Rightarrow> string \<Rightarrow> toml option" where
  "effective_value effective key = map_option rv_value (effective_get effective key)"

definition effective_remove :: "effective_map \<Rightarrow> string \<Rightarrow> effective_map" where
  "effective_remove effective key = filter (\<lambda>(k, _). k \<noteq> key) effective"

section \<open>Known keys\<close>

definition budget_tokens_per_run_key :: string where "budget_tokens_per_run_key = ''budget.tokens.per_run''"
definition budget_tokens_cumulative_key :: string where "budget_tokens_cumulative_key = ''budget.tokens.cumulative''"
definition budget_breach_action_key :: string where "budget_breach_action_key = ''budget.breach_action''"
definition cost_rate_input_key :: string where "cost_rate_input_key = ''cost.rate.input''"
definition cost_rate_output_key :: string where "cost_rate_output_key = ''cost.rate.output''"
definition cost_rate_cached_key :: string where "cost_rate_cached_key = ''cost.rate.cached''"
definition budget_dollars_per_run_key :: string where "budget_dollars_per_run_key = ''budget.dollars.per_run''"
definition budget_dollars_cumulative_key :: string where "budget_dollars_cumulative_key = ''budget.dollars.cumulative''"
definition metering_upstream_base_url_key :: string where "metering_upstream_base_url_key = ''metering.upstream_base_url''"
definition metering_base_url_key :: string where "metering_base_url_key = ''metering.base_url''"
definition memory_dir_key :: string where "memory_dir_key = ''memory.dir''"

lemmas key_defs = budget_tokens_per_run_key_def budget_tokens_cumulative_key_def budget_breach_action_key_def
  cost_rate_input_key_def cost_rate_output_key_def cost_rate_cached_key_def budget_dollars_per_run_key_def
  budget_dollars_cumulative_key_def metering_upstream_base_url_key_def metering_base_url_key_def memory_dir_key_def

definition known_keys :: "string list" where
  "known_keys = [''model'', budget_tokens_per_run_key, budget_tokens_cumulative_key, budget_breach_action_key,
     cost_rate_input_key, cost_rate_output_key, cost_rate_cached_key, budget_dollars_per_run_key,
     budget_dollars_cumulative_key, metering_upstream_base_url_key, metering_base_url_key, memory_dir_key,
     ''acp.command'', ''acp.args'']"

definition has_empty_segment :: "string \<Rightarrow> bool" where
  "has_empty_segment key \<longleftrightarrow> [] \<in> set (split_on (CHR ''.'') key)"

section \<open>Values\<close>

text \<open>\<open>char::is_whitespace\<close> on a UTF-8 character, and \<open>str::trim\<close>.\<close>

definition is_whitespace :: "string \<Rightarrow> bool" where
  "is_whitespace c \<longleftrightarrow> map byte_of c \<in> set (map (\<lambda>b. [b]) [9, 10, 11, 12, 13, 32] @ [[194, 133], [194, 160], [225, 154, 128]]
     @ map (\<lambda>b. [226, 128, b]) ([128..<139] @ [168, 169, 175]) @ [[226, 129, 159], [227, 128, 128]])"

definition trim :: "string \<Rightarrow> string" where
  "trim s = concat (rev (dropWhile is_whitespace (rev (dropWhile is_whitespace (utf8_chars s)))))"

fun digits_value :: "nat \<Rightarrow> string \<Rightarrow> nat option" where
  "digits_value acc [] = Some acc"
| "digits_value acc (c # cs) = (if is_ascii_digit c then digits_value (10 * acc + (byte_of c - 48)) cs else None)"

text \<open>\<open>u64::from_str\<close>: an optional plus sign, then digits, within the range.\<close>

definition parse_u64 :: "string \<Rightarrow> u64 option" where
  "parse_u64 s =
     (let body = (case s of c # cs \<Rightarrow> if c = CHR ''+'' then cs else s | [] \<Rightarrow> [])
      in if body = [] then None
         else (case digits_value 0 body of
                 Some n \<Rightarrow> if n < 2 ^ 64 then Some (word_of_nat n) else None
               | None \<Rightarrow> None))"

text \<open>\<open>splitn(2, '.')\<close>: the text before the first dot, and the rest after it.\<close>

fun split_once :: "char \<Rightarrow> string \<Rightarrow> string \<times> string option" where
  "split_once c [] = ([], None)"
| "split_once c (x # xs) =
     (if x = c then ([], Some xs) else (case split_once c xs of (before, after) \<Rightarrow> (x # before, after)))"

datatype dollars_refusal = EmptyAmount | SignedAmount | TwoPoints | BadWhole | BadFraction | SubMicro | AmountTooLarge

definition fraction_micros :: "string option \<Rightarrow> dollars_refusal + nat" where
  "fraction_micros frac =
     (case frac of
        None \<Rightarrow> Inr 0
      | Some f \<Rightarrow>
          if f = [] then Inr 0
          else if \<not> list_all is_ascii_digit f then Inl BadFraction
          else if length f > 6 then Inl SubMicro
          else (case digits_value 0 (f @ replicate (6 - length f) CHR ''0'') of
                  Some n \<Rightarrow> Inr n
                | None \<Rightarrow> Inl BadFraction))"

definition parse_dollars_to_micros :: "string \<Rightarrow> dollars_refusal + micros" where
  "parse_dollars_to_micros value =
     (let trimmed = trim value
      in if trimmed = [] then Inl EmptyAmount
         else if hd trimmed \<in> {CHR ''-'', CHR ''+''} then Inl SignedAmount
         else (case split_once (CHR ''.'') trimmed of
           (whole, frac) \<Rightarrow>
             if (case frac of Some f \<Rightarrow> CHR ''.'' \<in> set f | None \<Rightarrow> False) then Inl TwoPoints
             else rbind (if whole = [] then Inr 0
                         else (case parse_u64 whole of Some d \<Rightarrow> Inr d | None \<Rightarrow> Inl BadWhole)) (\<lambda>dollars.
                  rbind (fraction_micros frac) (\<lambda>micros.
                    (let total = int (unat dollars) * micros_per_dollar + int micros
                     in if total \<le> i64_max then Inr total else Inl AmountTooLarge)))))"

section \<open>Errors and the validation of a write\<close>

datatype value_reason = NotTokens | NotAction string | NotDollars dollars_refusal | NotLabel string
  | NotFenced string | SourceUnread

datatype secret_error = Unresolved string string | FilePermissions string string | FileUnreadable string string

text \<open>Why the store, the write lock or the registration snapshot could not be used.\<close>

datatype store_failure = StoreFailed store_error | LockFailed string | SnapshotFailed string | EngineReadOnly

datatype config_error =
  UnknownKey string "string option"
| WriteShapeConflict string string
| InvalidValue string string value_reason
| MalformedLayer source_layer string string
| ConfigInvalidName string name_error
| ConfigNotFound string
| ConfigStore string store_failure
| SecretReveal secret_error

definition validate_budget_value :: "string \<Rightarrow> string \<Rightarrow> config_error + unit" where
  "validate_budget_value key value =
     (if key \<in> {budget_tokens_per_run_key, budget_tokens_cumulative_key} then
        (case parse_u64 (trim value) of Some _ \<Rightarrow> Inr () | None \<Rightarrow> Inl (InvalidValue key value NotTokens))
      else if key = budget_breach_action_key then
        (case parse_action (trim value) of Inr _ \<Rightarrow> Inr () | Inl e \<Rightarrow> Inl (InvalidValue key value (NotAction e)))
      else Inr ())"

definition validate_cost_value :: "string \<Rightarrow> string \<Rightarrow> config_error + unit" where
  "validate_cost_value key value =
     (if key \<in> {cost_rate_input_key, cost_rate_output_key, cost_rate_cached_key, budget_dollars_per_run_key,
                budget_dollars_cumulative_key} then
        (case parse_dollars_to_micros value of Inr _ \<Rightarrow> Inr () | Inl e \<Rightarrow> Inl (InvalidValue key value (NotDollars e)))
      else Inr ())"

text \<open>\<open>suggest\<close> is \<open>nearest_known_key\<close>, which theory \<open>Key_Suggestion\<close> defines.\<close>

definition validate_write_with :: "(string \<Rightarrow> string option) \<Rightarrow> string \<Rightarrow> string \<Rightarrow> config_error + unit" where
  "validate_write_with suggest key value =
     (if has_empty_segment key then Inl (UnknownKey key None)
      else case strip_prefix labels_prefix key of
        Some label_key \<Rightarrow>
          (case validate_label_write label_key value of
             Inl reason \<Rightarrow> Inl (InvalidValue key value (NotLabel reason))
           | Inr _ \<Rightarrow> Inr ())
      | None \<Rightarrow>
          if key \<in> set known_keys then
            rbind (validate_budget_value key value) (\<lambda>_. rbind (validate_cost_value key value) (\<lambda>_. Inr ()))
          else if is_pass_through key then Inr ()
          else Inl (UnknownKey key (suggest key)))"

section \<open>Live reads\<close>

definition leaf_action :: "effective_map \<Rightarrow> breach_action" where
  "leaf_action effective =
     (case effective_value effective budget_breach_action_key of
        Some (TStr s) \<Rightarrow> (case parse_action (trim s) of Inr a \<Rightarrow> a | Inl _ \<Rightarrow> ActPause)
      | _ \<Rightarrow> ActPause)"

definition budget_u64 :: "effective_map \<Rightarrow> string \<Rightarrow> u64 option" where
  "budget_u64 effective key =
     (case effective_value effective key of
        Some (TInt i) \<Rightarrow> if 0 \<le> i then Some (word_of_int i) else None
      | Some (TStr s) \<Rightarrow> parse_u64 (trim s)
      | _ \<Rightarrow> None)"

definition resolve_token_budget :: "effective_map \<Rightarrow> token_budget \<times> breach_action" where
  "resolve_token_budget effective =
     (\<lparr>tb_per_run = budget_u64 effective budget_tokens_per_run_key,
       tb_cumulative = budget_u64 effective budget_tokens_cumulative_key\<rparr>, leaf_action effective)"

definition cost_micros_leaf :: "effective_map \<Rightarrow> string \<Rightarrow> micros option" where
  "cost_micros_leaf effective key =
     (case effective_value effective key of
        Some (TStr s) \<Rightarrow>
          if is_secret_ref s then None
          else (case parse_dollars_to_micros s of Inr m \<Rightarrow> Some m | Inl _ \<Rightarrow> None)
      | Some (TInt i) \<Rightarrow>
          if 0 \<le> i \<and> i * micros_per_dollar \<le> i64_max then Some (i * micros_per_dollar) else None
      | _ \<Rightarrow> None)"

definition micros_to_u64 :: "micros \<Rightarrow> u64" where
  "micros_to_u64 m = (if 0 \<le> m then word_of_int m else 0)"

definition resolve_cost :: "effective_map \<Rightarrow> rate option \<times> cost_cap \<times> breach_action" where
  "resolve_cost effective =
     (let rate = (case (cost_micros_leaf effective cost_rate_input_key, cost_micros_leaf effective cost_rate_output_key) of
                    (Some i, Some o') \<Rightarrow>
                      (let base = rate_new (micros_to_u64 i) (micros_to_u64 o')
                       in Some (case cost_micros_leaf effective cost_rate_cached_key of
                                  Some c \<Rightarrow> rate_with_cached base (micros_to_u64 c)
                                | None \<Rightarrow> base))
                  | _ \<Rightarrow> None)
      in (rate, \<lparr>cc_per_run = cost_micros_leaf effective budget_dollars_per_run_key,
                 cc_cumulative = cost_micros_leaf effective budget_dollars_cumulative_key\<rparr>, leaf_action effective))"

definition resolve_upstream_base_url :: "effective_map \<Rightarrow> string option" where
  "resolve_upstream_base_url effective =
     (case effective_value effective metering_upstream_base_url_key of
        Some (TStr s) \<Rightarrow> if \<not> is_secret_ref s \<and> trim s \<noteq> [] then Some (trim s) else None
      | _ \<Rightarrow> None)"

text \<open>The layer of the values the engine computes at a start.\<close>

definition invocation_overrides :: "string option \<Rightarrow> string option \<Rightarrow> toml_table option" where
  "invocation_overrides base_url memory_dir =
     (if base_url = None \<and> memory_dir = None then None
      else Some
        (let table = (case base_url of Some url \<Rightarrow> bt_insert ''metering'' (TTable [(''base_url'', TStr url)]) [] | None \<Rightarrow> [])
         in case memory_dir of Some dir \<Rightarrow> bt_insert ''memory'' (TTable [(''dir'', TStr dir)]) table | None \<Rightarrow> table))"

text \<open>The bound labels of an effective configuration.\<close>

definition bound_labels :: "effective_map \<Rightarrow> label list \<times> string list" where
  "bound_labels effective =
     bound_labels_from (map (\<lambda>(key, v). (key, rv_source v = InvocationOverride,
        case rv_value v of TStr s \<Rightarrow> Some s | _ \<Rightarrow> None)) effective)"

end
