(* ===== verification/Config_Resolution.thy ===== *)
theory Config_Resolution
  imports Config
begin

text \<open>
  What the resolver of \<open>domain/config.rs\<close> promises: looked up by its segments, a key has the value of
  the strongest layer that says anything about it. A layer says something when it defines the key, or
  when the key runs into a shape of that layer: a scalar on the way, or a table at the end.
\<close>

section \<open>The reference lookup\<close>

datatype sighting = Found toml | Absent | Shadowed

fun walk :: "toml \<Rightarrow> string list \<Rightarrow> sighting" where
  "walk (TTable table) [] = Shadowed"
| "walk value [] = Found value"
| "walk (TTable table) (k # ks) = (case map_of table k of None \<Rightarrow> Absent | Some v \<Rightarrow> walk v ks)"
| "walk value (k # ks) = Shadowed"

text \<open>The layers strongest first.\<close>

fun strongest :: "(toml_table \<times> source_layer) list \<Rightarrow> string list \<Rightarrow> resolved_value option" where
  "strongest [] path = None"
| "strongest ((table, source) # weaker) path =
     (case walk (TTable table) path of
        Found v \<Rightarrow> Some \<lparr>rv_value = v, rv_source = source\<rparr>
      | Shadowed \<Rightarrow> None
      | Absent \<Rightarrow> strongest weaker path)"

text \<open>A bare key is one TOML writes without quotes, as far as dots go; a parsed table is in key order.\<close>

definition bare :: "string \<Rightarrow> bool" where
  "bare key \<longleftrightarrow> key \<noteq> [] \<and> CHR ''.'' \<notin> set key"

fun bare_value :: "toml \<Rightarrow> bool" where
  "bare_value (TTable table) \<longleftrightarrow>
     bt_ok table \<and> (\<forall>(k, v) \<in> set table. bare k \<and> bare_value v)"
| "bare_value _ \<longleftrightarrow> True"

lemma bare_value_lookup:
  assumes "bare_value (TTable table)" and "map_of table k = Some v"
  shows "bare k" "bare_value v"
proof -
  have "\<forall>(k, v) \<in> set table. bare k \<and> bare_value v" using assms(1) by simp
  from bspec [OF this map_of_SomeD [OF assms(2)]] show "bare k" "bare_value v" by simp_all
qed

section \<open>The merged tree\<close>

fun node_look :: "merged \<Rightarrow> string list \<Rightarrow> resolved_value option" where
  "node_look (MLeaf v s) [] = Some \<lparr>rv_value = v, rv_source = s\<rparr>"
| "node_look (MLeaf v s) (k # ks) = None"
| "node_look (MSub children) [] = None"
| "node_look (MSub children) (k # ks) = (case map_of children k of None \<Rightarrow> None | Some n \<Rightarrow> node_look n ks)"

fun bare_node :: "merged \<Rightarrow> bool" where
  "bare_node (MSub children) \<longleftrightarrow>
     bt_ok children \<and> (\<forall>(k, n) \<in> set children. bare k \<and> bare_node n)"
| "bare_node (MLeaf v s) \<longleftrightarrow> True"

lemma merge_other: "k \<notin> fst ` set t \<Longrightarrow> map_of (merge_table_into src ch t) k = map_of ch k"
  by (induction src ch t rule: merge_table_into.induct) (auto split: toml.splits)

definition merged_slot :: "source_layer \<Rightarrow> merged option \<Rightarrow> toml \<Rightarrow> merged" where
  "merged_slot src slot value =
     (case value of TTable t \<Rightarrow> MSub (merge_table_into src (sub_of slot) t) | leaf \<Rightarrow> MLeaf leaf src)"

lemma merge_Cons:
  "merge_table_into src ch ((k, v) # t) = merge_table_into src (bt_insert k (merged_slot src (map_of ch k) v) ch) t"
  by (cases v) (simp_all add: merged_slot_def)

lemma merge_at:
  "distinct (map fst t) \<Longrightarrow> map_of (merge_table_into src ch t) k =
     (case map_of t k of None \<Rightarrow> map_of ch k | Some v \<Rightarrow> Some (merged_slot src (map_of ch k) v))"
proof (induction t arbitrary: ch)
  case (Cons p t)
  obtain k' v where p: "p = (k', v)" by (cases p)
  show ?case
  proof (cases "k = k'")
    case True
    with Cons.prems show ?thesis unfolding p merge_Cons by (subst merge_other) auto
  next
    case False
    with Cons show ?thesis unfolding p merge_Cons by (simp split: option.split)
  qed
qed simp

lemma node_look_sub_of:
  "(case slot of None \<Rightarrow> None | Some n \<Rightarrow> node_look n (k # ks)) = node_look (MSub (sub_of slot)) (k # ks)"
  by (cases slot) (auto simp: sub_of_def split: merged.split)

lemma look_merged_slot:
  assumes "bare_value v"
  shows "node_look (merged_slot src slot v) path =
    (case walk v path of
       Found leaf \<Rightarrow> Some \<lparr>rv_value = leaf, rv_source = src\<rparr>
     | Shadowed \<Rightarrow> None
     | Absent \<Rightarrow> (case slot of None \<Rightarrow> None | Some n \<Rightarrow> node_look n path))"
  using assms
proof (induction path arbitrary: v slot)
  case Nil
  then show ?case by (cases v) (simp_all add: merged_slot_def)
next
  case (Cons k ks)
  show ?case
  proof (cases v)
    case (TTable t)
    with Cons.prems have t: "distinct (map fst t)" "\<And>w. map_of t k = Some w \<Longrightarrow> bare_value w"
      by (auto dest: map_of_SomeD bt_ok_distinct)
    have new: "node_look (merged_slot src slot v) (k # ks) =
      (case map_of (merge_table_into src (sub_of slot) t) k of None \<Rightarrow> None | Some n \<Rightarrow> node_look n ks)"
      by (simp add: TTable merged_slot_def)
    have old: "(case slot of None \<Rightarrow> None | Some n \<Rightarrow> node_look n (k # ks)) =
      (case map_of (sub_of slot) k of None \<Rightarrow> None | Some n \<Rightarrow> node_look n ks)"
      unfolding node_look_sub_of by simp
    show ?thesis
    proof (cases "map_of t k")
      case None
      with t(1) show ?thesis unfolding new old by (simp add: TTable merge_at)
    next
      case (Some w)
      with t(1) Cons.IH [OF t(2)] show ?thesis unfolding new old by (simp add: TTable merge_at)
    qed
  qed (simp_all add: merged_slot_def)
qed

lemma look_merge:
  assumes "bare_value (TTable t)"
  shows "node_look (MSub (merge_table_into src ch t)) path =
    (case walk (TTable t) path of
       Found v \<Rightarrow> Some \<lparr>rv_value = v, rv_source = src\<rparr>
     | Shadowed \<Rightarrow> None
     | Absent \<Rightarrow> node_look (MSub ch) path)"
  using look_merged_slot [OF assms, of src "Some (MSub ch)" path]
  by (simp add: merged_slot_def sub_of_def cong: sighting.case_cong)

lemma bare_node_insert:
  "bare_node (MSub ch) \<Longrightarrow> bare k \<Longrightarrow> bare_node n \<Longrightarrow> bare_node (MSub (bt_insert k n ch))"
  using set_bt_insert [of k n ch] by auto

lemma bare_sub_of: "bare_node (MSub ch) \<Longrightarrow> bare_node (MSub (sub_of (map_of ch k)))"
proof (cases "map_of ch k")
  case (Some n)
  assume "bare_node (MSub ch)"
  with Some have "bare_node n" by (auto dest: map_of_SomeD)
  with Some show ?thesis by (cases n) (auto simp: sub_of_def bt_ok_def)
qed (simp add: sub_of_def bt_ok_def)

lemma bare_node_merge:
  "bare_node (MSub ch) \<Longrightarrow> bare_value (TTable t) \<Longrightarrow> bare_node (MSub (merge_table_into src ch t))"
proof (induction src ch t rule: merge_table_into.induct)
  case (2 src ch k v t)
  have new: "bare_node (merged_slot src (map_of ch k) v)"
  proof (cases v)
    case (TTable table)
    with 2(4) have "bare_value (TTable table)" by simp
    with 2(1) [OF TTable bare_sub_of [OF 2(3)]] show ?thesis by (simp add: TTable merged_slot_def)
  qed (simp_all add: merged_slot_def)
  have t: "bare_value (TTable t)" using 2(4) by (auto dest: bt_ok_tl)
  have "bare_node (MSub (bt_insert k (merged_slot src (map_of ch k) v) ch))"
    using 2(3,4) new by (intro bare_node_insert) simp_all
  moreover have "(case v of TTable table \<Rightarrow> bt_insert k (MSub (merge_table_into src (sub_of (map_of ch k)) table)) ch
      | leaf \<Rightarrow> bt_insert k (MLeaf leaf src) ch) = bt_insert k (merged_slot src (map_of ch k) v) ch"
    by (cases v) (simp_all add: merged_slot_def)
  ultimately show ?case unfolding merge_Cons using 2(2) [OF _ t] by simp
qed simp

text \<open>Folding the layers, weakest first.\<close>

lemma merged_root_look:
  assumes "\<forall>(t, src) \<in> set layers. bare_value (TTable t)"
  shows "bare_node (MSub (merged_root layers))
    \<and> node_look (MSub (merged_root layers)) path = strongest (rev layers) path"
  using assms
proof (induction layers rule: rev_induct)
  case Nil
  then show ?case by (cases path) (simp_all add: merged_root_def bt_ok_def)
next
  case (snoc l layers)
  obtain t src where l: "l = (t, src)" by (cases l)
  have root: "merged_root (layers @ [l]) = merge_table_into src (merged_root layers) t"
    by (simp add: merged_root_def l)
  have t: "bare_value (TTable t)" using snoc.prems by (simp add: l)
  have IH: "bare_node (MSub (merged_root layers))"
      "node_look (MSub (merged_root layers)) path = strongest (rev layers) path"
    using snoc by (simp_all add: case_prod_beta)
  show ?case
    unfolding root look_merge [OF t] using bare_node_merge [OF IH(1) t] IH(2)
    by (simp add: l cong: sighting.case_cong)
qed

section \<open>The flat map\<close>

text \<open>The leaves of a node with their paths, in the order \<open>flatten_into\<close> visits them.\<close>

fun paths_node :: "merged \<Rightarrow> (string list \<times> resolved_value) list"
  and paths_children :: "(string \<times> merged) list \<Rightarrow> (string list \<times> resolved_value) list" where
  "paths_node (MLeaf v s) = [([], \<lparr>rv_value = v, rv_source = s\<rparr>)]"
| "paths_node (MSub ch) = paths_children ch"
| "paths_children [] = []"
| "paths_children ((k, n) # rest) = map (\<lambda>(p, v). (k # p, v)) (paths_node n) @ paths_children rest"

lemma map_of_cons_path:
  "map_of (map (\<lambda>(p, v). (k # p, v)) xs) (k' # ks) = (if k = k' then map_of xs ks else None)"
  by (induction xs) auto

lemma map_of_rev_cons_path:
  "map_of (rev (map (\<lambda>(p, v). (k # p, v)) xs)) (k' # ks) = (if k = k' then map_of (rev xs) ks else None)"
  unfolding rev_map by (rule map_of_cons_path)

lemma paths_look:
  "bare_node n \<Longrightarrow> map_of (rev (paths_node n)) path = node_look n path"
  "bare_node (MSub ch) \<Longrightarrow> map_of (rev (paths_children ch)) path = node_look (MSub ch) path"
proof (induction n and ch arbitrary: path and path rule: paths_node_paths_children.induct)
  case (1 v s)
  then show ?case by (cases path) simp_all
next
  case 3
  then show ?case by (cases path) simp_all
next
  case (4 k n rest)
  have ok: "bare_node n" "bare_node (MSub rest)" "k \<notin> fst ` set rest"
    using 4(3) by (auto simp: bt_ok_def)
  show ?case
  proof (cases path)
    case Nil
    have "map_of (rev (map (\<lambda>(p, v). (k # p, v)) (paths_node n))) [] = None"
      by (auto simp: map_of_eq_None_iff)
    then show ?thesis using 4(2) [OF ok(2), of "[]"] by (simp add: Nil map_add_def)
  next
    case (Cons k' ks)
    have "map_of rest k = None" using ok(3) by (simp add: map_of_eq_None_iff)
    then show ?thesis
      using 4(1) [OF ok(1), of ks] 4(2) [OF ok(2), of "k' # ks"]
      by (simp add: Cons map_add_def map_of_rev_cons_path split: option.split)
  qed
qed simp

text \<open>The segments of a key, and the key of a path of bare segments.\<close>

definition segments :: "string \<Rightarrow> string list" where
  "segments key = split_on (CHR ''.'') key"

definition dotted :: "string list \<Rightarrow> string" where
  "dotted path = foldl dot (hd path) (tl path)"

lemma flatten_paths:
  "flatten_node prefix n = map (\<lambda>(p, v). (foldl dot prefix p, v)) (paths_node n)"
  "flatten_children prefix ch = map (\<lambda>(p, v). (foldl dot prefix p, v)) (paths_children ch)"
  by (induction prefix n and prefix ch rule: flatten_node_flatten_children.induct) (auto simp: comp_def case_prod_beta)

lemma root_paths:
  "concat (map (\<lambda>(key, node). flatten_node key node) root) = map (\<lambda>(p, v). (dotted p, v)) (paths_children root)"
  by (induction root) (auto simp: flatten_paths dotted_def comp_def case_prod_beta)

lemma foldl_dot_join: "k \<noteq> [] \<Longrightarrow> foldl dot k ks = join (CHR ''.'') (k # ks)"
proof (induction ks arbitrary: k)
  case (Cons x ks)
  have "join (CHR ''.'') ((k @ ''.'' @ x) # ks) = join (CHR ''.'') (k # x # ks)" by (cases ks) simp_all
  with Cons show ?case by (simp add: dot_def)
qed simp

lemma join_push: "join c ((x # s) # ss) = x # join c (s # ss)"
  by (cases ss) simp_all

lemma join_split_on: "join c (split_on c s) = s"
  by (induction s) (auto split: list.split simp: neq_Nil_conv join_push)

lemma bare_paths:
  "bare_node n \<Longrightarrow> (p, v) \<in> set (paths_node n) \<Longrightarrow> \<forall>k\<in>set p. bare k"
  "bare_node (MSub ch) \<Longrightarrow> (p, v) \<in> set (paths_children ch) \<Longrightarrow> p \<noteq> [] \<and> (\<forall>k\<in>set p. bare k)"
proof (induction n and ch arbitrary: p and p rule: paths_node_paths_children.induct)
  case (4 k n rest)
  have ok: "bare_node n" "bare_node (MSub rest)" "bare k" using 4(3) by (auto simp: bt_ok_def)
  show ?case
  proof (cases "(p, v) \<in> set (paths_children rest)")
    case False
    with 4(4) obtain q where "p = k # q" "(q, v) \<in> set (paths_node n)" by auto
    with 4(1) [OF ok(1)] ok(3) show ?thesis by auto
  qed (use 4(2) [OF ok(2)] in auto)
qed auto

lemma dotted_segments: "p \<noteq> [] \<Longrightarrow> \<forall>k\<in>set p. bare k \<Longrightarrow> dotted p = key \<longleftrightarrow> p = segments key"
proof -
  assume p: "p \<noteq> []" "\<forall>k\<in>set p. bare k"
  then have "dotted p = join (CHR ''.'') p"
    by (cases p) (auto simp: dotted_def bare_def foldl_dot_join)
  with p split_on_join [of p "CHR ''.''"] join_split_on [of "CHR ''.''" key] show ?thesis
    by (auto simp: segments_def bare_def)
qed

lemma map_of_dotted:
  "\<forall>(p, v) \<in> set xs. p \<noteq> [] \<and> (\<forall>k\<in>set p. bare k) \<Longrightarrow>
    map_of (map (\<lambda>(p, v). (dotted p, v)) xs) key = map_of xs (segments key)"
proof (induction xs)
  case (Cons x xs)
  obtain p v where x: "x = (p, v)" by (cases x)
  with Cons dotted_segments [of p key] show ?case by auto
qed simp

lemma map_of_collect_leaves: "map_of (collect_leaves ins) = map_of (rev ins)"
proof -
  have "map_of (fold (\<lambda>(k, v) out. bt_insert k v out) ins out) = map_of out ++ map_of (rev ins)" for out
    by (induction ins arbitrary: out) (auto simp: map_add_assoc split: option.split)
  from this [of "[]"] show ?thesis by (simp add: collect_leaves_def)
qed

lemma resolution_is_the_strongest:
  assumes "length layers = 4" and "\<forall>t \<in> set layers. bare_value (TTable t)"
  shows "effective_get (resolve layers) key = strongest (rev (zip layers source_order)) (segments key)"
proof -
  let ?z = "zip layers source_order"
  have "\<forall>(t, src) \<in> set ?z. bare_value (TTable t)" using assms(2) by (auto dest: set_zip_leftD)
  note root = merged_root_look [OF this]
  have "effective_get (resolve layers) key = map_of (map (\<lambda>(p, v). (dotted p, v)) (rev (paths_children (merged_root ?z)))) key"
    by (simp add: effective_get_def resolve_def root_paths map_of_collect_leaves rev_map)
  also have "\<dots> = map_of (rev (paths_children (merged_root ?z))) (segments key)"
  proof (rule map_of_dotted)
    show "\<forall>(p, v) \<in> set (rev (paths_children (merged_root ?z))). p \<noteq> [] \<and> (\<forall>k\<in>set p. bare k)"
      unfolding set_rev using bare_paths(2) [OF conjunct1 [OF root]] by (intro ballI case_prodI2) simp
  qed
  also have "\<dots> = strongest (rev ?z) (segments key)" using paths_look(2) root by simp
  finally show ?thesis .
qed

text \<open>(C37) The merge and flattening of the resolver agree with a direct search: over any four layers
  whose tables have bare keys, the effective value of any dotted key and the layer recorded
  for it are those of the strongest layer that defines the key, unless a stronger layer put a scalar on
  the way to it or a table in its place; then the key has no effective value at all.\<close>

theorem resolution_is_the_strongest_layer:
  assumes "length layers = 4" and "\<forall>t \<in> set layers. bare_value (TTable t)"
  shows "effective_get (resolve layers) key = strongest (rev (zip layers source_order)) (segments key)"
  using assms by (rule resolution_is_the_strongest)

theorem resolution_is_the_strongest_layer_witness:
  "effective_get (resolve [[], [(''a'', TTable [(''b'', TInt 1), (''c'', TInt 2)])],
      [(''a'', TTable [(''b'', TStr ''x'')])], []]) ''a.b'' = Some \<lparr>rv_value = TStr ''x'', rv_source = InstanceLayer\<rparr>"
  by (subst resolution_is_the_strongest_layer) (simp_all add: source_order_def segments_def bare_def bt_ok_def)

text \<open>The address the engine injects at a start is not always the effective one: an instance layer
  that spells the key \<open>metering.base_url\<close> as one quoted segment keeps its own value, although the
  invocation layer is the strongest and sets the same key.\<close>

lemma quoted_key_beats_the_override:
  "effective_get (resolve [[], [], [(''metering.base_url'', TStr hand)], the (invocation_overrides (Some url) None)])
     metering_base_url_key = Some \<lparr>rv_value = TStr hand, rv_source = InstanceLayer\<rparr>"
  by (simp add: effective_get_def resolve_def merged_root_def source_order_def invocation_overrides_def
      collect_leaves_def sub_of_def dot_def metering_base_url_key_def)

end
