(* ===== verification/Config_Delivery.thy ===== *)
theory Config_Delivery
  imports Config_Resolution
begin

text \<open>
  From an effective configuration to a process: the adapter's mapping of known keys to environment
  variables, flags and files (\<open>hekma-adapter-api/src/config.rs\<close>), the resolution of secret references
  (\<open>ports/secret_resolver.rs\<close>), and the delivery of every leaf into the launch
  (\<open>apply_config_mapping\<close> of \<open>adapter/mod.rs\<close>). The snapshot an operator reads is built beside it.
\<close>

section \<open>The adapter's mapping\<close>

datatype config_target = EnvTarget string | FlagTarget string | FileTarget string string

fun env_var :: "config_target \<Rightarrow> string option" where
  "env_var (EnvTarget env) = Some env"
| "env_var _ = None"

fun render_flag_args :: "config_target \<Rightarrow> string \<Rightarrow> string list option" where
  "render_flag_args (FlagTarget flag) value = Some [flag, value]"
| "render_flag_args _ value = None"

fun file_placement :: "config_target \<Rightarrow> (string \<times> string) option" where
  "file_placement (FileTarget path key) = Some (path, key)"
| "file_placement _ = None"

type_synonym config_mapping = "(string \<times> config_target) list"

definition mapping_with :: "string \<Rightarrow> config_target \<Rightarrow> config_mapping \<Rightarrow> config_mapping" where
  "mapping_with key target rules = bt_insert key target rules"

definition mapping_target :: "config_mapping \<Rightarrow> string \<Rightarrow> config_target option" where
  "mapping_target rules key = map_of rules key"

text \<open>A path split at both separators.\<close>

fun split_where :: "(char \<Rightarrow> bool) \<Rightarrow> string \<Rightarrow> string list" where
  "split_where sep [] = [[]]"
| "split_where sep (x # xs) =
     (if sep x then [] # split_where sep xs
      else (case split_where sep xs of [] \<Rightarrow> [[x]] | s # ss \<Rightarrow> (x # s) # ss))"

definition path_sep :: "char \<Rightarrow> bool" where
  "path_sep c \<longleftrightarrow> c = CHR ''/'' \<or> c = CHR 0x5C"

definition is_ascii_alphabetic :: "char \<Rightarrow> bool" where
  "is_ascii_alphabetic c \<longleftrightarrow> byte_of c \<in> {65..90} \<union> {97..122}"

definition drive_segment :: "string \<Rightarrow> bool" where
  "drive_segment s = (case s of c # d # _ \<Rightarrow> is_ascii_alphabetic c \<and> d = CHR '':'' | _ \<Rightarrow> False)"

definition is_safe_relative_path :: "string \<Rightarrow> bool" where
  "is_safe_relative_path path =
     (if path = [] then False
      else if path_sep (hd path) then False
      else let segments = split_where path_sep path
           in if drive_segment (hd segments) then False
              else \<not> list_ex (\<lambda>s. s = [] \<or> s = ''.'' \<or> s = ''..'') segments)"

datatype mapping_refusal =
  EmptyUnifiedKey | EmptyEnv | EmptyFlag | EmptyFilePath | EmptyFileKey | UnsafeFilePath string

definition validate_target :: "config_target \<Rightarrow> mapping_refusal option" where
  "validate_target target =
     (case target of
        EnvTarget env \<Rightarrow> if trim env = [] then Some EmptyEnv else None
      | FlagTarget flag \<Rightarrow> if trim flag = [] then Some EmptyFlag else None
      | FileTarget path key \<Rightarrow>
          if trim path = [] then Some EmptyFilePath
          else if trim key = [] then Some EmptyFileKey
          else if \<not> is_safe_relative_path path then Some (UnsafeFilePath path)
          else None)"

fun mapping_validate :: "config_mapping \<Rightarrow> (string \<times> mapping_refusal) + unit" where
  "mapping_validate [] = Inr ()"
| "mapping_validate ((key, target) # rules) =
     (if trim key = [] then Inl (key, EmptyUnifiedKey)
      else case validate_target target of Some why \<Rightarrow> Inl (key, why) | None \<Rightarrow> mapping_validate rules)"

section \<open>Secrets\<close>

type_synonym secret_resolver = "string \<Rightarrow> secret_error + string option"

text \<open>The process environment: an unset or ill-encoded variable is not held there.\<close>

definition env_resolver :: "(string \<Rightarrow> string option) \<Rightarrow> secret_resolver" where
  "env_resolver env name = Inr (env name)"

text \<open>The secrets file: absent, refused or unreadable, or its table.\<close>

datatype secrets_file = NoSecretsFile | RefusedSecretsFile secret_error | SecretsTable toml_table

definition load_table :: "secrets_file \<Rightarrow> secret_error + toml_table option" where
  "load_table file =
     (case file of
        NoSecretsFile \<Rightarrow> Inr None
      | RefusedSecretsFile e \<Rightarrow> Inl e
      | SecretsTable table \<Rightarrow> Inr (Some table))"

definition file_resolver :: "secrets_file \<Rightarrow> secret_resolver" where
  "file_resolver file name =
     rbind (load_table file) (\<lambda>loaded.
       case loaded of
         None \<Rightarrow> Inr None
       | Some table \<Rightarrow> (case map_of table name of Some (TStr value) \<Rightarrow> Inr (Some value) | _ \<Rightarrow> Inr None))"

fun composite_resolve :: "(string \<times> secret_resolver) list \<Rightarrow> secret_resolver" where
  "composite_resolve [] name = Inr None"
| "composite_resolve ((label, resolver) # rest) name =
     rbind (resolver name) (\<lambda>found. case found of Some secret \<Rightarrow> Inr (Some secret) | None \<Rightarrow> composite_resolve rest name)"

fun join_with :: "string \<Rightarrow> string list \<Rightarrow> string" where
  "join_with sep [] = []"
| "join_with sep [s] = s"
| "join_with sep (s # t # ss) = s @ sep @ join_with sep (t # ss)"

definition require :: "(string \<times> secret_resolver) list \<Rightarrow> string \<Rightarrow> secret_error + string" where
  "require resolvers name =
     rbind (composite_resolve resolvers name) (\<lambda>found.
       case found of
         Some secret \<Rightarrow> Inr secret
       | None \<Rightarrow> Inl (Unresolved name (join_with '', '' (map fst resolvers))))"

definition env_then_file :: "(string \<Rightarrow> string option) \<Rightarrow> secrets_file \<Rightarrow> (string \<times> secret_resolver) list" where
  "env_then_file env file = [(''environment'', env_resolver env), (''secrets file'', file_resolver file)]"

definition leaf_secret_name :: "resolved_value \<Rightarrow> string option" where
  "leaf_secret_name v = (case rv_value v of TStr s \<Rightarrow> secret_name s | _ \<Rightarrow> None)"

fun resolve_secrets :: "(string \<Rightarrow> secret_error + string) \<Rightarrow> effective_map \<Rightarrow> secret_error + (string \<times> string) list" where
  "resolve_secrets lookup [] = Inr []"
| "resolve_secrets lookup ((key, value) # rest) =
     (case leaf_secret_name value of
        None \<Rightarrow> resolve_secrets lookup rest
      | Some name \<Rightarrow>
          rbind (lookup name) (\<lambda>secret.
            rbind (resolve_secrets lookup rest) (\<lambda>resolved. Inr (bt_insert key secret resolved))))"

section \<open>The delivery\<close>

record start_launch =
  sl_exec :: string
  sl_args :: "string list"
  sl_env :: "(string \<times> string) list"

record delivery =
  dl_launch :: start_launch
  dl_files :: "(string \<times> (string \<times> string) list) list"
  dl_secret_flag_keys :: "string list"

definition display :: "(toml \<Rightarrow> string) \<Rightarrow> resolved_value \<Rightarrow> string" where
  "display inline v = display_value inline (rv_value v)"

definition put_env :: "string \<Rightarrow> string \<Rightarrow> delivery \<Rightarrow> delivery" where
  "put_env var value d = d\<lparr>dl_launch := dl_launch d\<lparr>sl_env := bt_insert var value (sl_env (dl_launch d))\<rparr>\<rparr>"

definition put_file :: "string \<Rightarrow> string \<Rightarrow> string \<Rightarrow> delivery \<Rightarrow> delivery" where
  "put_file path key value d =
     d\<lparr>dl_files := bt_insert path (bt_insert key value (case map_of (dl_files d) path of Some doc \<Rightarrow> doc | None \<Rightarrow> []))
        (dl_files d)\<rparr>"

definition deliver_leaf ::
  "(toml \<Rightarrow> string) \<Rightarrow> config_mapping \<Rightarrow> (string \<times> string) list \<Rightarrow> string \<times> resolved_value \<Rightarrow> delivery \<Rightarrow> delivery" where
  "deliver_leaf inline mapping secrets leaf d =
     (case leaf of (key, resolved) \<Rightarrow>
        (let value = (case map_of secrets key of Some secret \<Rightarrow> secret | None \<Rightarrow> display inline resolved)
         in case pass_through_tail key of
              Some tail \<Rightarrow> put_env tail value d
            | None \<Rightarrow>
                (case mapping_target mapping key of
                   None \<Rightarrow> d
                 | Some (EnvTarget env) \<Rightarrow> put_env env value d
                 | Some (FlagTarget flag) \<Rightarrow>
                     d\<lparr>dl_launch := dl_launch d\<lparr>sl_args := sl_args (dl_launch d) @ [flag, value]\<rparr>,
                       dl_secret_flag_keys := dl_secret_flag_keys d @ (if map_of secrets key \<noteq> None then [key] else [])\<rparr>
                 | Some (FileTarget path native) \<Rightarrow> put_file path native value d)))"

definition deliver ::
  "(toml \<Rightarrow> string) \<Rightarrow> config_mapping \<Rightarrow> (string \<times> string) list \<Rightarrow> effective_map \<Rightarrow> start_launch \<Rightarrow> delivery" where
  "deliver inline mapping secrets effective launch =
     fold (deliver_leaf inline mapping secrets) effective
       \<lparr>dl_launch = launch, dl_files = [], dl_secret_flag_keys = []\<rparr>"

text \<open>\<open>set_dotted_string\<close> and the document of one file: a value in the way of a table gives way.\<close>

fun set_dotted_string :: "string list \<Rightarrow> string \<Rightarrow> toml_table \<Rightarrow> toml_table" where
  "set_dotted_string [] value table = table"
| "set_dotted_string [leaf] value table = bt_insert leaf (TStr value) table"
| "set_dotted_string (segment # s # ss) value table =
     bt_insert segment
       (TTable (set_dotted_string (s # ss) value
          (case map_of table segment of Some (TTable sub) \<Rightarrow> sub | _ \<Rightarrow> []))) table"

definition file_document :: "(string \<times> string) list \<Rightarrow> toml_table" where
  "file_document entries = fold (\<lambda>(key, value) table. set_dotted_string (segments key) value table) entries []"

text \<open>The files written in path order until one fails: \<open>place\<close> renders and writes one document below
  the Agent Home, answering the detail of its failure. What was written stays written.\<close>

fun write_config_files ::
  "(string \<Rightarrow> toml_table \<Rightarrow> string option) \<Rightarrow> (string \<times> (string \<times> string) list) list
     \<Rightarrow> (string \<times> toml_table) list \<times> (string \<times> string) option" where
  "write_config_files place [] = ([], None)"
| "write_config_files place ((path, entries) # rest) =
     (case place path (file_document entries) of
        Some detail \<Rightarrow> ([], Some (path, detail))
      | None \<Rightarrow>
          (case write_config_files place rest of
             (written, failed) \<Rightarrow> ((path, file_document entries) # written, failed)))"

definition apply_config_mapping ::
  "(toml \<Rightarrow> string) \<Rightarrow> (string \<Rightarrow> toml_table \<Rightarrow> string option) \<Rightarrow> config_mapping \<Rightarrow> (string \<times> string) list
     \<Rightarrow> effective_map \<Rightarrow> start_launch
     \<Rightarrow> ((string \<times> string) + start_launch \<times> string list) \<times> (string \<times> toml_table) list" where
  "apply_config_mapping inline place mapping secrets effective launch =
     (let d = deliver inline mapping secrets effective launch
      in case write_config_files place (dl_files d) of
           (written, Some failure) \<Rightarrow> (Inl failure, written)
         | (written, None) \<Rightarrow> (Inr (dl_launch d, dl_secret_flag_keys d), written))"

section \<open>The persisted snapshot\<close>

record effective_entry =
  ee_key :: string
  ee_value :: string
  ee_source :: source_layer

definition snapshot_entries :: "(toml \<Rightarrow> string) \<Rightarrow> effective_map \<Rightarrow> effective_entry list" where
  "snapshot_entries inline effective =
     map (\<lambda>(key, v). \<lparr>ee_key = key, ee_value = display inline v, ee_source = rv_source v\<rparr>) effective"

section \<open>Secrets stay on their targets\<close>

definition secret_leaf :: "resolved_value \<Rightarrow> bool" where
  "secret_leaf v \<longleftrightarrow> leaf_secret_name v \<noteq> None"

lemma resolve_secrets_dom:
  "resolve_secrets lookup eff = Inr s \<Longrightarrow> map_of s k = None \<longleftrightarrow> (\<forall>v. (k, v) \<in> set eff \<longrightarrow> \<not> secret_leaf v)"
proof (induction lookup eff arbitrary: s rule: resolve_secrets.induct)
  case (2 lookup key v rest)
  show ?case
  proof (cases "leaf_secret_name v")
    case None
    with 2 show ?thesis by (auto simp: secret_leaf_def)
  next
    case (Some name)
    with "2.prems" obtain secret t where st: "lookup name = Inr secret" "resolve_secrets lookup rest = Inr t"
        "s = bt_insert key secret t"
      by (auto simp: rbind_def split: sum.splits)
    show ?thesis using "2.IH"(2) [OF Some st(1,2)] Some by (auto simp: st secret_leaf_def)
  qed
qed (simp add: secret_leaf_def)

text \<open>Where a leaf may be seen: the variables, the arguments and the file entries it is delivered to.\<close>

definition to_env :: "config_mapping \<Rightarrow> string \<Rightarrow> string option" where
  "to_env mapping key =
     (case pass_through_tail key of
        Some tail \<Rightarrow> Some tail
      | None \<Rightarrow> (case mapping_target mapping key of Some target \<Rightarrow> env_var target | None \<Rightarrow> None))"

definition to_file :: "config_mapping \<Rightarrow> string \<Rightarrow> (string \<times> string) option" where
  "to_file mapping key =
     (case pass_through_tail key of
        Some tail \<Rightarrow> None
      | None \<Rightarrow> (case mapping_target mapping key of Some target \<Rightarrow> file_placement target | None \<Rightarrow> None))"

definition file_entry :: "delivery \<Rightarrow> string \<times> string \<Rightarrow> string option" where
  "file_entry d at = (case map_of (dl_files d) (fst at) of Some doc \<Rightarrow> map_of doc (snd at) | None \<Rightarrow> None)"

definition sees_no_secret :: "('a \<Rightarrow> string \<Rightarrow> bool) \<Rightarrow> effective_map \<Rightarrow> 'a \<Rightarrow> bool" where
  "sees_no_secret reaches eff place \<longleftrightarrow> (\<forall>(k, v) \<in> set eff. secret_leaf v \<longrightarrow> \<not> reaches place k)"

definition same_but_secrets :: "config_mapping \<Rightarrow> effective_map \<Rightarrow> delivery \<Rightarrow> delivery \<Rightarrow> bool" where
  "same_but_secrets mapping eff d d' \<longleftrightarrow>
     sl_exec (dl_launch d) = sl_exec (dl_launch d')
     \<and> dl_secret_flag_keys d = dl_secret_flag_keys d'
     \<and> (dl_secret_flag_keys d = [] \<longrightarrow> sl_args (dl_launch d) = sl_args (dl_launch d'))
     \<and> (\<forall>var. sees_no_secret (\<lambda>var k. to_env mapping k = Some var) eff var \<longrightarrow>
          map_of (sl_env (dl_launch d)) var = map_of (sl_env (dl_launch d')) var)
     \<and> (\<forall>at. sees_no_secret (\<lambda>at k. to_file mapping k = Some at) eff at \<longrightarrow> file_entry d at = file_entry d' at)"

lemma put_env_fields [simp]:
  "sl_exec (dl_launch (put_env var value d)) = sl_exec (dl_launch d)"
  "sl_args (dl_launch (put_env var value d)) = sl_args (dl_launch d)"
  "map_of (sl_env (dl_launch (put_env var value d))) = (map_of (sl_env (dl_launch d)))(var \<mapsto> value)"
  "dl_files (put_env var value d) = dl_files d"
  "dl_secret_flag_keys (put_env var value d) = dl_secret_flag_keys d"
  "file_entry (put_env var value d) = file_entry d"
  by (simp_all add: put_env_def file_entry_def fun_eq_iff)

lemma put_file_fields [simp]:
  "dl_launch (put_file path key value d) = dl_launch d"
  "dl_secret_flag_keys (put_file path key value d) = dl_secret_flag_keys d"
  "file_entry (put_file path key value d) at = (if at = (path, key) then Some value else file_entry d at)"
  by (cases at, auto simp: put_file_def file_entry_def split: option.split)

lemma deliver_leaf_same:
  assumes same: "same_but_secrets mapping eff d d'" and leaf: "(k, v) \<in> set eff"
    and dom: "map_of s k = None \<longleftrightarrow> \<not> secret_leaf v" "map_of s' k = None \<longleftrightarrow> \<not> secret_leaf v"
  shows "same_but_secrets mapping eff (deliver_leaf inline mapping s (k, v) d) (deliver_leaf inline mapping s' (k, v) d')"
proof -
  have same_val: "map_of s k = map_of s' k" if "\<not> secret_leaf v" using dom that by simp
  have seen: "\<not> secret_leaf v" if "sees_no_secret reaches eff place" "reaches place k" for reaches and place :: 'p
    using leaf that by (auto simp: sees_no_secret_def)
  have both: "map_of s k = None \<longleftrightarrow> map_of s' k = None" using dom by simp
  have same': "sl_exec (dl_launch d) = sl_exec (dl_launch d')" "dl_secret_flag_keys d = dl_secret_flag_keys d'"
      "dl_secret_flag_keys d' = [] \<Longrightarrow> sl_args (dl_launch d) = sl_args (dl_launch d')"
      "\<And>var. sees_no_secret (\<lambda>var k. to_env mapping k = Some var) eff var \<Longrightarrow>
          map_of (sl_env (dl_launch d)) var = map_of (sl_env (dl_launch d')) var"
      "\<And>at. sees_no_secret (\<lambda>at k. to_file mapping k = Some at) eff at \<Longrightarrow> file_entry d at = file_entry d' at"
    using same by (auto simp: same_but_secrets_def)
  show ?thesis
  proof (cases "pass_through_tail k")
    case (Some tail)
    have env: "to_env mapping k = Some tail" by (simp add: to_env_def Some)
    show ?thesis
      using same' same_val seen [where reaches = "\<lambda>var k. to_env mapping k = Some var" and place = tail] env
      by (auto simp: same_but_secrets_def deliver_leaf_def Some)
  next
    case None
    note pass = None
    show ?thesis
    proof (cases "mapping_target mapping k")
      case None
      then show ?thesis using same by (simp add: deliver_leaf_def pass)
    next
      case (Some target)
      show ?thesis
      proof (cases target)
        case (EnvTarget env)
        then have env: "to_env mapping k = Some env" by (simp add: to_env_def pass Some)
        show ?thesis
          using same' same_val seen [where reaches = "\<lambda>var k. to_env mapping k = Some var" and place = env] env
          by (auto simp: same_but_secrets_def deliver_leaf_def pass Some EnvTarget)
      next
        case (FlagTarget flag)
        show ?thesis
          using same' same_val both dom
          by (auto simp: same_but_secrets_def deliver_leaf_def pass Some FlagTarget Let_def file_entry_def)
      next
        case (FileTarget path native)
        then have at: "to_file mapping k = Some (path, native)" by (simp add: to_file_def pass Some)
        show ?thesis
          using same' same_val seen [where reaches = "\<lambda>at k. to_file mapping k = Some at" and place = "(path, native)"] at
          by (auto simp: same_but_secrets_def deliver_leaf_def pass Some FileTarget)
      qed
    qed
  qed
qed

lemma deliver_same:
  assumes s: "resolve_secrets look eff = Inr s" and s': "resolve_secrets look' eff = Inr s'" and keys: "distinct (map fst eff)"
  shows "same_but_secrets mapping eff (deliver inline mapping s eff launch) (deliver inline mapping s' eff launch)"
proof -
  have dom: "map_of t k = None \<longleftrightarrow> \<not> secret_leaf v" if "resolve_secrets l eff = Inr t" "(k, v) \<in> set eff" for l t k v
    using resolve_secrets_dom [OF that(1), of k] that(2) keys by (auto dest: eq_key_imp_eq_value)
  have "same_but_secrets mapping eff (fold (deliver_leaf inline mapping s) xs d) (fold (deliver_leaf inline mapping s') xs d')"
    if "same_but_secrets mapping eff d d'" "set xs \<subseteq> set eff" for xs d d'
    using that
  proof (induction xs arbitrary: d d')
    case (Cons x xs)
    obtain k v where x: "x = (k, v)" by (cases x)
    with Cons.prems have leaf: "(k, v) \<in> set eff" by simp
    show ?case
      using Cons.IH [OF deliver_leaf_same [OF Cons.prems(1) leaf dom [OF s leaf] dom [OF s' leaf]]] Cons.prems(2)
      by (simp add: x)
  qed simp
  then show ?thesis by (simp add: deliver_def same_but_secrets_def)
qed

text \<open>(C40) A secret reaches only where the mapping sends its own leaf. Two starts that resolve the same
  configuration from different secret stores agree on the executable, on every environment variable no
  secret leaf is delivered to, on every file entry no secret leaf is placed at and on the reported flag
  keys; and when no flag key is reported, the whole argument list is the same, so no cleartext is on the
  command line unannounced.\<close>

theorem secrets_reach_only_their_targets:
  assumes "resolve_secrets look eff = Inr s" and "resolve_secrets look' eff = Inr s'" and "distinct (map fst eff)"
  shows "let d = deliver inline mapping s eff launch; d' = deliver inline mapping s' eff launch in
     sl_exec (dl_launch d) = sl_exec (dl_launch d')
     \<and> dl_secret_flag_keys d = dl_secret_flag_keys d'
     \<and> (dl_secret_flag_keys d = [] \<longrightarrow> sl_args (dl_launch d) = sl_args (dl_launch d'))
     \<and> (\<forall>var. (\<forall>(k, v) \<in> set eff. secret_leaf v \<longrightarrow> to_env mapping k \<noteq> Some var) \<longrightarrow>
          map_of (sl_env (dl_launch d)) var = map_of (sl_env (dl_launch d')) var)
     \<and> (\<forall>place. (\<forall>(k, v) \<in> set eff. secret_leaf v \<longrightarrow> to_file mapping k \<noteq> Some place) \<longrightarrow>
          file_entry d place = file_entry d' place)"
  using deliver_same [OF assms, of mapping inline launch]
  unfolding same_but_secrets_def sees_no_secret_def Let_def by blast

definition secret_demo :: effective_map where
  "secret_demo =
     [(''agent.TOKEN'', \<lparr>rv_value = TStr ''secret:TOKEN'', rv_source = InstanceLayer\<rparr>),
      (''model'', \<lparr>rv_value = TStr ''m1'', rv_source = InstanceLayer\<rparr>)]"

theorem secrets_reach_only_their_targets_witness:
  "sl_args (dl_launch (deliver (\<lambda>_. []) [(''model'', FlagTarget ''--model'')] [(''agent.TOKEN'', ''one'')] secret_demo
       \<lparr>sl_exec = ''agent'', sl_args = [], sl_env = []\<rparr>)) =
   sl_args (dl_launch (deliver (\<lambda>_. []) [(''model'', FlagTarget ''--model'')] [(''agent.TOKEN'', ''two'')] secret_demo
       \<lparr>sl_exec = ''agent'', sl_args = [], sl_env = []\<rparr>))"
proof -
  have s: "resolve_secrets (require (env_then_file env NoSecretsFile)) secret_demo = Inr [(''agent.TOKEN'', t)]"
    if "env ''TOKEN'' = Some t" for env t
    using that by (simp add: secret_demo_def leaf_secret_name_def secret_name_def secret_prefix_def require_def env_then_file_def
        env_resolver_def rbind_def)
  have d: "distinct (map fst secret_demo)" by (simp add: secret_demo_def)
  note both = secrets_reach_only_their_targets [OF s [of "\<lambda>_. Some ''one''"] s [of "\<lambda>_. Some ''two''"] d, OF refl refl]
  have none: "dl_secret_flag_keys (deliver (\<lambda>_. []) [(''model'', FlagTarget ''--model'')] [(''agent.TOKEN'', ''one'')] secret_demo
       \<lparr>sl_exec = ''agent'', sl_args = [], sl_env = []\<rparr>) = []"
    by (simp add: deliver_def deliver_leaf_def secret_demo_def pass_through_tail_def mapping_target_def put_env_def)
  show ?thesis using both [of "\<lambda>_. []" "[(''model'', FlagTarget ''--model'')]" "\<lparr>sl_exec = ''agent'', sl_args = [], sl_env = []\<rparr>"] none
    unfolding Let_def by blast
qed

section \<open>Rendered files stay in the Agent Home\<close>

text \<open>Where a relative path lands below a directory, by the segments of a path grammar: a separator at the
  front or a drive leaves it, \<open>..\<close> climbs, \<open>.\<close> and empty segments stay.\<close>

fun land :: "string list \<Rightarrow> string list \<Rightarrow> string list" where
  "land dir [] = dir"
| "land dir (s # ss) =
     land (if s = [] \<or> s = ''.'' then dir else if s = ''..'' then butlast dir else dir @ [s]) ss"

definition joined :: "(char \<Rightarrow> bool) \<Rightarrow> string list \<Rightarrow> string \<Rightarrow> string list option" where
  "joined sep home path =
     (if path \<noteq> [] \<and> sep (hd path) \<or> drive_segment (hd (split_where sep path)) then None
      else Some (land home (split_where sep path)))"

abbreviation unix_sep :: "char \<Rightarrow> bool" where "unix_sep c \<equiv> c = CHR ''/''"

lemma split_where_not_Nil [simp]: "split_where sep s \<noteq> []"
  by (induction s) (auto split: list.split)

lemma land_plain: "list_all (\<lambda>s. \<not> (s = [] \<or> s = ''.'' \<or> s = ''..'')) ss \<Longrightarrow> land dir ss = dir @ ss"
  by (induction ss arbitrary: dir) auto

text \<open>A coarser split joins finer segments: where a finer segment is not plain, neither may a coarser be.\<close>

lemma split_coarser:
  assumes "\<And>c. sep c \<Longrightarrow> fine c"
  shows "t \<in> set (split_where sep s) \<Longrightarrow> (\<forall>c \<in> set t. \<not> fine c) \<Longrightarrow> t \<in> set (split_where fine s)"
proof -
  have "hd (split_where sep s) = t \<Longrightarrow> (\<forall>c \<in> set t. \<not> fine c) \<Longrightarrow> hd (split_where fine s) = t"
    "t \<in> set (tl (split_where sep s)) \<Longrightarrow> (\<forall>c \<in> set t. \<not> fine c) \<Longrightarrow> t \<in> set (tl (split_where fine s))" for t
  proof (induction s arbitrary: t)
    case (Cons x s)
    { case 1
      show ?case
      proof (cases t)
        case Nil
        then show ?thesis using 1 assms [of x] by (auto split: list.splits if_splits)
      next
        case (Cons y u)
        then show ?thesis using 1 assms [of x] Cons.IH(1) [of u]
          by (auto split: list.splits if_splits)
      qed
    next
      case 2
      then show ?case using assms [of x] Cons.IH [of t]
        by (auto split: list.splits if_splits)
    }
  qed simp_all
  then show "t \<in> set (split_where sep s) \<Longrightarrow> (\<forall>c \<in> set t. \<not> fine c) \<Longrightarrow> t \<in> set (split_where fine s)"
    by (metis list.collapse list.set_intros set_ConsD split_where_not_Nil)
qed

lemma safe_split:
  assumes safe: "is_safe_relative_path path" and sep: "\<And>c. sep c \<Longrightarrow> path_sep c"
  shows "joined sep home path = Some (home @ split_where sep path)"
proof -
  let ?plain = "\<lambda>s. \<not> (s = [] \<or> s = ''.'' \<or> s = ''..'')"
  have fine: "list_all ?plain (split_where path_sep path)" "\<not> drive_segment (hd (split_where path_sep path))"
      "path \<noteq> []" "\<not> path_sep (hd path)"
    using safe by (auto simp: is_safe_relative_path_def Let_def list_ex_iff list_all_iff split: if_splits)
  have "?plain t" if "t \<in> set (split_where sep path)" for t
  proof
    assume t: "t = [] \<or> t = ''.'' \<or> t = ''..''"
    then have "\<forall>c \<in> set t. \<not> path_sep c" by (auto simp: path_sep_def)
    with split_coarser [OF sep that] have "t \<in> set (split_where path_sep path)" by simp
    with fine(1) t show False by (auto simp: list_all_iff)
  qed
  then have plain: "list_all ?plain (split_where sep path)" by (simp add: list_all_iff)
  have drive: "\<not> drive_segment (hd (split_where sep path))"
  proof -
    have "drive_segment (hd (split_where sep s)) \<Longrightarrow> drive_segment (hd (split_where path_sep s))" for s
    proof (cases s)
      case (Cons c r)
      assume d: "drive_segment (hd (split_where sep s))"
      then have c: "\<not> sep c" by (auto simp: Cons drive_segment_def split: if_splits)
      with d obtain e r' where r: "r = e # r'" "is_ascii_alphabetic c" "e = CHR '':''"
        by (cases r) (auto simp: Cons drive_segment_def split: if_splits list.splits)
      then have "\<not> path_sep c" "\<not> path_sep e" by (auto simp: path_sep_def is_ascii_alphabetic_def byte_of_def)
      with r show ?thesis by (auto simp: Cons drive_segment_def split: list.splits)
    qed (simp add: drive_segment_def)
    with fine(2) show ?thesis by blast
  qed
  show ?thesis using fine(3,4) sep [of "hd path"] drive land_plain [OF plain, of home] by (auto simp: joined_def)
qed

lemma mapping_validate_safe:
  "mapping_validate rules = Inr () \<Longrightarrow> (k, FileTarget path key) \<in> set rules \<Longrightarrow> is_safe_relative_path path"
proof (induction rules rule: mapping_validate.induct)
  case (2 key target rules)
  have ok: "validate_target target = None" "mapping_validate rules = Inr ()"
    using 2(2) by (auto split: if_splits option.splits)
  with 2 show ?case by (auto simp: validate_target_def split: if_splits option.splits)
qed simp

lemma deliver_leaf_files:
  "path \<in> fst ` set (dl_files (deliver_leaf inline mapping s x d)) \<Longrightarrow>
     path \<in> fst ` set (dl_files d) \<or> (\<exists>k key. (k, FileTarget path key) \<in> set mapping)"
  by (cases x, cases "pass_through_tail (fst x)"; cases "mapping_target mapping (fst x)";
      cases "the (mapping_target mapping (fst x))")
    (auto simp: deliver_leaf_def Let_def put_file_def mapping_target_def dest: map_of_SomeD)

lemma deliver_files:
  "path \<in> fst ` set (dl_files (deliver inline mapping s eff launch)) \<Longrightarrow> \<exists>k key. (k, FileTarget path key) \<in> set mapping"
proof -
  have "path \<in> fst ` set (dl_files (fold (deliver_leaf inline mapping s) xs d))
      \<Longrightarrow> path \<in> fst ` set (dl_files d) \<or> (\<exists>k key. (k, FileTarget path key) \<in> set mapping)" for xs d
  proof (induction xs arbitrary: d)
    case (Cons x xs)
    then show ?case using deliver_leaf_files [of path inline mapping s x d] by auto
  qed simp
  from this [of eff "\<lparr>dl_launch = launch, dl_files = [], dl_secret_flag_keys = []\<rparr>"]
  show "path \<in> fst ` set (dl_files (deliver inline mapping s eff launch)) \<Longrightarrow> \<exists>k key. (k, FileTarget path key) \<in> set mapping"
    by (simp add: deliver_def)
qed

lemma written_files:
  "write_config_files place docs = (written, failed) \<Longrightarrow> fst ` set written \<subseteq> fst ` set docs"
proof (induction docs arbitrary: written failed rule: write_config_files.induct)
  case (2 place path entries rest)
  show ?case
  proof (cases "place path (file_document entries)")
    case None
    obtain w f where w: "write_config_files place rest = (w, f)" by fastforce
    then have "written = (path, file_document entries) # w" using 2(2) None by simp
    with 2(1) [OF None w] show ?thesis by auto
  qed (use 2(2) in simp)
qed simp

text \<open>A validated mapping never writes outside the Agent Home: whatever the configuration and the
  secrets, and also when a later file fails, every file written lies strictly below the home, whether the
  host separates paths by a slash alone or by a backslash as well.\<close>

lemma rendered_files_stay_in_home:
  assumes "mapping_validate mapping = Inr ()"
    and "apply_config_mapping inline place mapping secrets eff launch = (outcome, written)"
  shows "\<forall>(path, doc) \<in> set written. \<exists>below below'. below \<noteq> [] \<and> below' \<noteq> []
     \<and> joined unix_sep home path = Some (home @ below) \<and> joined path_sep home path = Some (home @ below')"
proof (intro ballI, clarify)
  fix path doc
  assume "(path, doc) \<in> set written"
  moreover obtain failed where "write_config_files place (dl_files (deliver inline mapping secrets eff launch)) = (written, failed)"
    using assms(2) by (auto simp: apply_config_mapping_def Let_def split: prod.splits option.splits)
  ultimately obtain k key where "(k, FileTarget path key) \<in> set mapping"
    using written_files deliver_files by (metis (no_types, lifting) fst_conv image_iff subsetD)
  note safe = mapping_validate_safe [OF assms(1) this]
  have "joined unix_sep home path = Some (home @ split_where unix_sep path)"
      "joined path_sep home path = Some (home @ split_where path_sep path)"
    by (rule safe_split [OF safe], simp add: path_sep_def)+
  then show "\<exists>below below'. below \<noteq> [] \<and> below' \<noteq> []
     \<and> joined unix_sep home path = Some (home @ below) \<and> joined path_sep home path = Some (home @ below')"
    by (intro exI conjI) (rule split_where_not_Nil)+
qed

lemma rendered_files_stay_in_home_witness:
  "joined unix_sep [''agents'', ''demo''] ''conf/llm.toml'' = Some [''agents'', ''demo'', ''conf'', ''llm.toml'']"
proof -
  let ?mapping = "[(''model'', FileTarget ''conf/llm.toml'' ''llm.model'')]"
  have v: "mapping_validate ?mapping = Inr ()" by code_simp
  have a: "apply_config_mapping (\<lambda>_. []) (\<lambda>_ _. None) ?mapping [] secret_demo \<lparr>sl_exec = ''agent'', sl_args = [], sl_env = []\<rparr>
      = (Inr (\<lparr>sl_exec = ''agent'', sl_args = [], sl_env = [(''TOKEN'', ''secret:****'')]\<rparr>, []),
         [(''conf/llm.toml'', [(''llm'', TTable [(''model'', TStr ''m1'')])])])"
    by code_simp
  have "\<exists>below. joined unix_sep [''agents'', ''demo''] ''conf/llm.toml'' = Some ([''agents'', ''demo''] @ below)"
    using rendered_files_stay_in_home [OF v a, of "[''agents'', ''demo'']"] by auto
  then show ?thesis by (auto simp: joined_def drive_segment_def)
qed

end
