(* ===== verification/Key_Suggestion.thy ===== *)
theory Key_Suggestion
  imports Config
begin

text \<open>
  The nearest known key of a rejected one (\<open>levenshtein\<close> and \<open>nearest_known_key\<close> of
  \<open>domain/config.rs\<close>): the two-row table computes the least number of insertions, deletions and
  substitutions of one character, and the suggestion is the closest known key within three of them.
\<close>

section \<open>The code\<close>

text \<open>One row: \<open>left\<close> is the cell to the left, the list the row up from the cell up it on.\<close>

fun lev_cells :: "'a \<Rightarrow> 'a list \<Rightarrow> nat list \<Rightarrow> nat \<Rightarrow> nat list" where
  "lev_cells ca (cb # b) (diagonal # up # prev) left =
     (let cell = min (min (up + 1) (left + 1)) (diagonal + (if ca \<noteq> cb then 1 else 0))
      in cell # lev_cells ca b (up # prev) cell)"
| "lev_cells ca _ _ left = []"

definition lev_row :: "'a list \<Rightarrow> nat \<Rightarrow> 'a \<Rightarrow> nat list \<Rightarrow> nat list" where
  "lev_row b i ca prev = (i + 1) # lev_cells ca b prev (i + 1)"

fun lev_rows :: "'a list \<Rightarrow> nat \<Rightarrow> 'a list \<Rightarrow> nat list \<Rightarrow> nat list" where
  "lev_rows b i [] prev = prev"
| "lev_rows b i (ca # a) prev = lev_rows b (i + 1) a (lev_row b i ca prev)"

definition levenshtein :: "'a list \<Rightarrow> 'a list \<Rightarrow> nat" where
  "levenshtein a b =
     (if a = [] then length b
      else if b = [] then length a
      else lev_rows b 0 a [0..<length b + 1] ! length b)"

definition suggestion_max_distance :: nat where "suggestion_max_distance = 3"

text \<open>\<open>min_by\<close> keeps the first of equal elements.\<close>

fun min_candidate :: "(nat \<times> string) list \<Rightarrow> (nat \<times> string) option" where
  "min_candidate [] = None"
| "min_candidate (c # cs) = (case min_candidate cs of None \<Rightarrow> Some c | Some d \<Rightarrow> Some (if d < c then d else c))"

definition nearest_known_key :: "string \<Rightarrow> string option" where
  "nearest_known_key key =
     map_option snd (min_candidate (filter (\<lambda>(distance, _). distance \<le> suggestion_max_distance)
       (map (\<lambda>candidate. (levenshtein (utf8_chars key) (utf8_chars candidate), candidate)) known_keys)))"

definition validate_write :: "string \<Rightarrow> string \<Rightarrow> config_error + unit" where
  "validate_write = validate_write_with nearest_known_key"

section \<open>The reference\<close>

text \<open>One edit of a list, and the distance by the textbook recursion.\<close>

inductive edit1 :: "'a list \<Rightarrow> 'a list \<Rightarrow> bool" where
  insertion: "edit1 (u @ v) (u @ x # v)"
| deletion: "edit1 (u @ x # v) (u @ v)"
| substitution: "edit1 (u @ x # v) (u @ y # v)"

fun distance :: "'a list \<Rightarrow> 'a list \<Rightarrow> nat" where
  "distance [] b = length b"
| "distance a [] = length a"
| "distance (x # a) (y # b) =
     min (min (distance a (y # b) + 1) (distance (x # a) b + 1)) (distance a b + (if x \<noteq> y then 1 else 0))"

lemma distance_Nil [simp]: "distance a [] = length a" by (cases a) auto

lemma distance_same [simp]: "distance a a = 0"
  by (induction a) auto

lemma distance_Cons_left: "distance (x # a) b \<le> distance a b + 1"
  by (cases b) auto

lemma distance_Cons_right: "distance a (y # b) \<le> distance a b + 1"
  by (cases a) auto

lemma distance_insert: "distance a (u @ x # v) \<le> distance a (u @ v) + 1"
proof (induction a arbitrary: u)
  case (Cons p a)
  note IH = Cons.IH
  show ?case
  proof (induction u)
    case Nil
    then show ?case using distance_Cons_right [of "p # a" x v] by simp
  next
    case (Cons w u)
    have "distance a (w # u @ x # v) \<le> distance a (w # u @ v) + 1" "distance a (u @ x # v) \<le> distance a (u @ v) + 1"
      using IH [of "w # u"] IH [of u] by simp_all
    with Cons show ?case by simp
  qed
qed simp

lemma distance_delete: "distance a (u @ v) \<le> distance a (u @ x # v) + 1"
proof (induction a arbitrary: u)
  case (Cons p a)
  note IH = Cons.IH
  show ?case
  proof (induction u)
    case Nil
    show ?case using IH [of "[]"] distance_Cons_left [of p a v] by auto
  next
    case (Cons w u)
    have "distance a (w # u @ v) \<le> distance a (w # u @ x # v) + 1" "distance a (u @ v) \<le> distance a (u @ x # v) + 1"
      using IH [of "w # u"] IH [of u] by simp_all
    with Cons show ?case by simp
  qed
qed simp

lemma distance_substitute: "distance a (u @ y # v) \<le> distance a (u @ x # v) + 1"
proof (induction a arbitrary: u)
  case (Cons p a)
  note IH = Cons.IH
  show ?case
  proof (induction u)
    case Nil
    show ?case using IH [of "[]"] by auto
  next
    case (Cons w u)
    have "distance a (w # u @ y # v) \<le> distance a (w # u @ x # v) + 1" "distance a (u @ y # v) \<le> distance a (u @ x # v) + 1"
      using IH [of "w # u"] IH [of u] by simp_all
    with Cons show ?case by simp
  qed
qed simp

lemma distance_edit1: "edit1 b c \<Longrightarrow> distance a c \<le> distance a b + 1"
  by (induction rule: edit1.induct) (rule distance_insert distance_delete distance_substitute)+

lemma distance_edits: "(edit1 ^^ n) b c \<Longrightarrow> distance a c \<le> distance a b + n"
proof (induction n arbitrary: c)
  case (Suc n)
  then obtain d where "(edit1 ^^ n) b d" "edit1 d c" by auto
  with Suc.IH [of d] distance_edit1 [of d c a] show ?case by simp
qed simp

lemma edit1_Cons: "edit1 a b \<Longrightarrow> edit1 (x # a) (x # b)"
  by (induction rule: edit1.induct) (metis append_Cons edit1.intros)+

lemma edits_Cons: "(edit1 ^^ n) a b \<Longrightarrow> (edit1 ^^ n) (x # a) (x # b)"
  by (induction n arbitrary: b) (auto intro: edit1_Cons)

lemma edit1_front: "edit1 a (x # a)" "edit1 (x # a) a" "edit1 (x # a) (y # a)"
  using edit1.insertion [of "[]" a x] edit1.deletion [of "[]" x a] edit1.substitution [of "[]" x a y] by simp_all

lemma min3: "P m \<Longrightarrow> P n \<Longrightarrow> P k \<Longrightarrow> P (min (min m n) (k :: nat))"
  by (simp add: min_def)

lemma distance_achieved: "(edit1 ^^ distance a b) a b"
proof (induction a b rule: distance.induct)
  case (1 b)
  show ?case
  proof (induction b)
    case (Cons y b)
    then show ?case using edit1_front(1) [of b y] by auto
  qed simp
next
  case (2 x a)
  have "(edit1 ^^ length c) c []" for c :: "'a list"
  proof (induction c)
    case (Cons z c)
    have "(edit1 ^^ Suc (length c)) (z # c) []" by (rule relpowp_Suc_I2 [OF edit1_front(2) Cons])
    then show ?case by simp
  qed simp
  from this [of "x # a"] show ?case by simp
next
  case (3 x a y b)
  have "(edit1 ^^ Suc (distance a (y # b))) (x # a) (y # b)"
    by (rule relpowp_Suc_I2 [OF edit1_front(2) 3(1)])
  then have d: "(edit1 ^^ (distance a (y # b) + 1)) (x # a) (y # b)" by simp
  have "(edit1 ^^ Suc (distance (x # a) b)) (x # a) (y # b)"
    by (rule relpowp_Suc_I [OF 3(2) edit1_front(1)])
  then have i: "(edit1 ^^ (distance (x # a) b + 1)) (x # a) (y # b)" by simp
  have c: "(edit1 ^^ (distance a b + (if x \<noteq> y then 1 else 0))) (x # a) (y # b)"
  proof (cases "x = y")
    case False
    have "(edit1 ^^ Suc (distance a b)) (x # a) (y # b)"
      by (rule relpowp_Suc_I2 [OF edit1_front(3) edits_Cons [OF 3(3)]])
    with False show ?thesis by simp
  qed (use edits_Cons [OF 3(3)] in simp)
  show ?case
    unfolding distance.simps by (rule min3 [of "\<lambda>n. (edit1 ^^ n) (x # a) (y # b)", OF d i c])
qed

lemma distance_least: "distance a b = (LEAST n. (edit1 ^^ n) a b)"
  by (rule Least_equality [symmetric]) (use distance_achieved distance_edits [of _ a b a] in auto)

lemma edit1_rev: "edit1 (rev a) (rev b) \<longleftrightarrow> edit1 a b"
proof -
  have "edit1 (rev c) (rev d)" if "edit1 c d" for c d :: "'a list"
    using that by (induction rule: edit1.induct) (simp, rule edit1.intros)+
  from this [of "rev a" "rev b"] this [of a b] show ?thesis by auto
qed

lemma edits_rev: "(edit1 ^^ n) (rev a) (rev b) \<longleftrightarrow> (edit1 ^^ n) a b"
proof -
  have "(edit1 ^^ n) (rev c) (rev d)" if "(edit1 ^^ n) c d" for c d :: "'a list"
    using that
  proof (induction n arbitrary: d)
    case (Suc n)
    then obtain e where "(edit1 ^^ n) c e" "edit1 e d" by auto
    then show ?case using Suc.IH [of e] edit1_rev [of e d] by auto
  qed simp
  from this [of "rev a" "rev b"] this [of a b] show ?thesis by auto
qed

lemma distance_rev: "distance (rev a) (rev b) = distance a b"
  by (simp add: distance_least edits_rev)

lemma distance_snoc:
  "distance (a @ [x]) (b @ [y]) =
     min (min (distance a (b @ [y]) + 1) (distance (a @ [x]) b + 1)) (distance a b + (if x \<noteq> y then 1 else 0))"
  using distance_rev [of "a @ [x]" "b @ [y]"] distance_rev [of a "b @ [y]"] distance_rev [of "a @ [x]" b] distance_rev [of a b]
  by simp

section \<open>The table\<close>

lemma lev_cells_distance:
  assumes "k \<le> length b"
  shows "lev_cells ca (drop k b) (map (\<lambda>j. distance a (take j b)) [k..<length b + 1]) (distance (a @ [ca]) (take k b))
    = map (\<lambda>j. distance (a @ [ca]) (take j b)) [k + 1..<length b + 1]"
  using assms
proof (induction "length b - k" arbitrary: k)
  case 0
  then show ?case by simp
next
  case (Suc n)
  then have k: "k < length b" by simp
  have step: "drop k b = b ! k # drop (Suc k) b" "take (Suc k) b = take k b @ [b ! k]"
    using k by (simp_all add: Cons_nth_drop_Suc take_Suc_conv_app_nth)
  have rows: "[k..<length b + 1] = k # Suc k # [Suc (Suc k)..<length b + 1]"
      "[k + 1..<length b + 1] = Suc k # [Suc k + 1..<length b + 1]" "[Suc k..<length b + 1] = Suc k # [Suc (Suc k)..<length b + 1]"
    using k by (simp_all add: upt_conv_Cons)
  let ?cell = "distance (a @ [ca]) (take (Suc k) b)"
  have cell: "min (min (distance a (take (Suc k) b) + 1) (distance (a @ [ca]) (take k b) + 1))
      (distance a (take k b) + (if ca \<noteq> b ! k then 1 else 0)) = ?cell"
    unfolding step(2) distance_snoc ..
  have "lev_cells ca (drop k b) (map (\<lambda>j. distance a (take j b)) [k..<length b + 1]) (distance (a @ [ca]) (take k b))
      = ?cell # lev_cells ca (drop (Suc k) b) (map (\<lambda>j. distance a (take j b)) [Suc k..<length b + 1]) ?cell"
    unfolding step(1) rows list.map lev_cells.simps Let_def cell ..
  also have "\<dots> = ?cell # map (\<lambda>j. distance (a @ [ca]) (take j b)) [Suc k + 1..<length b + 1]"
    using Suc by (subst Suc.hyps(1)) simp_all
  finally show ?case unfolding rows(2) list.map .
qed

lemma lev_rows_distance:
  "lev_rows b (length a) c (map (\<lambda>j. distance a (take j b)) [0..<length b + 1])
     = map (\<lambda>j. distance (a @ c) (take j b)) [0..<length b + 1]"
proof (induction c arbitrary: a)
  case (Cons ca c)
  have "lev_row b (length a) ca (map (\<lambda>j. distance a (take j b)) [0..<length b + 1])
      = map (\<lambda>j. distance (a @ [ca]) (take j b)) [0..<length b + 1]"
    using lev_cells_distance [of 0 b ca a] by (simp add: lev_row_def upt_conv_Cons del: upt_Suc)
  with Cons [of "a @ [ca]"] show ?case by simp
qed simp

lemma levenshtein_distance: "levenshtein a b = distance a b"
proof -
  have "map (\<lambda>j. distance [] (take j b)) [0..<length b + 1] = [0..<length b + 1]"
    by (auto intro: map_idI)
  then have "lev_rows b 0 a [0..<length b + 1] = map (\<lambda>j. distance a (take j b)) [0..<length b + 1]"
    using lev_rows_distance [of b "[]" a] by simp
  then show ?thesis by (simp add: levenshtein_def del: upt_Suc)
qed

section \<open>The suggestion\<close>

text \<open>The least number of one-character edits from one key to another.\<close>

definition edits :: "string \<Rightarrow> string \<Rightarrow> nat" where
  "edits a b = (LEAST n. (edit1 ^^ n) (utf8_chars a) (utf8_chars b))"

lemma levenshtein_edits: "levenshtein (utf8_chars a) (utf8_chars b) = edits a b"
  by (simp add: levenshtein_distance edits_def distance_least)

lemma min_candidate_None [simp]: "min_candidate cs = None \<longleftrightarrow> cs = []"
  by (cases cs) (auto split: option.split)

lemma min_candidate_least:
  "min_candidate cs = Some c \<Longrightarrow> c \<in> set cs \<and> (\<forall>d \<in> set cs. c \<le> d)"
proof (induction cs arbitrary: c)
  case (Cons x cs)
  show ?case
  proof (cases "min_candidate cs")
    case None
    with Cons.prems show ?thesis by auto
  next
    case (Some d)
    with Cons.IH [OF Some] Cons.prems show ?thesis by (auto split: if_splits)
  qed
qed simp

text \<open>The suggestion for a rejected key is the nearest known key: it is known, at most three edits
  away, no known key is fewer edits away and among the equally near ones it is the first in byte order;
  and no key is suggested exactly when every known key is farther than three edits. The edits are the
  least number of insertions, deletions and substitutions of one character.\<close>

theorem suggestion_is_nearest:
  "(case nearest_known_key key of
      Some k \<Rightarrow> k \<in> set known_keys \<and> edits key k \<le> 3
        \<and> (\<forall>other \<in> set known_keys. edits key k < edits key other \<or> edits key k = edits key other \<and> k \<le> other)
    | None \<Rightarrow> \<forall>k \<in> set known_keys. 3 < edits key k)"
proof -
  let ?c = "map (\<lambda>k. (edits key k, k)) known_keys"
  let ?near = "filter (\<lambda>(distance, _). distance \<le> suggestion_max_distance) ?c"
  have near: "nearest_known_key key = map_option snd (min_candidate ?near)"
    by (simp add: nearest_known_key_def levenshtein_edits)
  show ?thesis
  proof (cases "min_candidate ?near")
    case None
    then show ?thesis by (auto simp: near filter_empty_conv suggestion_max_distance_def)
  next
    case (Some c)
    have c: "c \<in> set ?near" "\<forall>d \<in> set ?near. c \<le> d" using min_candidate_least [OF Some] by blast+
    then obtain k where k: "c = (edits key k, k)" "k \<in> set known_keys" "edits key k \<le> 3"
      by (auto simp: suggestion_max_distance_def)
    have "edits key k < edits key other \<or> edits key k = edits key other \<and> k \<le> other" if "other \<in> set known_keys" for other
    proof (cases "edits key other \<le> 3")
      case True
      with that have "(edits key other, other) \<in> set ?near" by (auto simp: suggestion_max_distance_def)
      with c(2) have "(edits key k, k) \<le> (edits key other, other)" unfolding k(1) by blast
      then show ?thesis by (auto simp: less_eq_prod_def)
    qed (use k(3) in simp)
    with k show ?thesis by (simp add: near Some)
  qed
qed

theorem suggestion_is_nearest_witness:
  "\<exists>k \<in> set known_keys. nearest_known_key ''modle'' = Some k \<and> edits ''modle'' k \<le> 2"
proof -
  have "levenshtein (utf8_chars ''modle'') (utf8_chars ''model'') = 2" by code_simp
  then have two: "edits ''modle'' ''model'' = 2" unfolding levenshtein_edits .
  have known: "''model'' \<in> set known_keys" by (simp add: known_keys_def)
  show ?thesis
  proof (cases "nearest_known_key ''modle''")
    case None
    with suggestion_is_nearest [of "''modle''"] known two show ?thesis by auto
  next
    case (Some k)
    with suggestion_is_nearest [of "''modle''"] known two show ?thesis by (intro bexI [of _ k]) auto
  qed
qed

end
