(* ===== verification/Config_Store.thy ===== *)
theory Config_Store
  imports Config_Delivery Key_Suggestion Registry
begin

text \<open>
  The instance's configuration file under the registry (\<open>domain/registry.rs\<close>): reading the effective
  configuration, setting one key, the guard on the \<open>block\<close> action, the engine's entry point with its
  label refresh (\<open>engine.rs\<close>), and the configuration half of a start (\<open>domain/supervisor/spawn.rs\<close>).

  The TOML codec and the file paths are parameters; a file is missing, unreadable or a text.
\<close>

section \<open>The file\<close>

datatype 'text config_file = NoConfig | UnreadableConfig string | ConfigText 'text

record 'text config_host =
  ch_parse :: "'text \<Rightarrow> string + toml_table"
  ch_render :: "toml_table \<Rightarrow> string + 'text"
  ch_path :: "string \<Rightarrow> string"

type_synonym 'text config_files = "string \<Rightarrow> 'text config_file"

definition parse_layer :: "'text config_host \<Rightarrow> source_layer \<Rightarrow> string \<Rightarrow> 'text \<Rightarrow> config_error + toml_table" where
  "parse_layer host layer path body =
     (case ch_parse host body of Inl detail \<Rightarrow> Inl (MalformedLayer layer path detail) | Inr table \<Rightarrow> Inr table)"

definition instance_config_layer :: "'text config_host \<Rightarrow> 'text config_files \<Rightarrow> string \<Rightarrow> config_error + toml_table" where
  "instance_config_layer host files name =
     (case files name of
        ConfigText body \<Rightarrow> parse_layer host InstanceLayer (ch_path host name) body
      | NoConfig \<Rightarrow> Inr []
      | UnreadableConfig detail \<Rightarrow> Inl (MalformedLayer InstanceLayer (ch_path host name) detail))"

text \<open>The embedded engine defaults are comments only, and no kind has defaults.\<close>

definition engine_defaults_layer :: "config_error + toml_table" where
  "engine_defaults_layer = Inr []"

definition kind_defaults_layer :: "string \<Rightarrow> toml_table" where
  "kind_defaults_layer kind = []"

definition reserved_identity_key :: string where
  "reserved_identity_key = ''name''"

definition require_instance :: "db \<Rightarrow> string \<Rightarrow> config_error + agent_instance" where
  "require_instance s name =
     (case get_instance s name of
        Inr (Some i) \<Rightarrow> Inr i
      | Inr None \<Rightarrow> Inl (ConfigNotFound name)
      | Inl e \<Rightarrow> Inl (ConfigStore name (StoreFailed e)))"

definition effective_config ::
  "'text config_host \<Rightarrow> db \<Rightarrow> 'text config_files \<Rightarrow> string \<Rightarrow> toml_table \<Rightarrow> config_error + effective_map" where
  "effective_config host s files name overrides =
     rbind (require_instance s name) (\<lambda>i.
     rbind engine_defaults_layer (\<lambda>engine.
     rbind (instance_config_layer host files name) (\<lambda>layer.
       Inr (effective_remove (resolve [engine, kind_defaults_layer (ai_kind i), layer, overrides])
              reserved_identity_key))))"

section \<open>Setting a key\<close>

text \<open>The descent of \<open>set_dotted\<close>; \<open>walked\<close> is the path walked so far.\<close>

fun set_path :: "string \<Rightarrow> string \<Rightarrow> string list \<Rightarrow> toml \<Rightarrow> toml_table \<Rightarrow> config_error + toml_table" where
  "set_path key walked [] v table = Inr table"
| "set_path key walked [leaf] v table = Inr (bt_insert leaf v table)"
| "set_path key walked (segment # s # ss) v table =
     (let walked = dot walked segment
      in case map_of table segment of
           None \<Rightarrow> rbind (set_path key walked (s # ss) v []) (\<lambda>sub. Inr (bt_insert segment (TTable sub) table))
         | Some (TTable child) \<Rightarrow>
             rbind (set_path key walked (s # ss) v child) (\<lambda>sub. Inr (bt_insert segment (TTable sub) table))
         | Some _ \<Rightarrow> Inl (WriteShapeConflict key walked))"

definition set_dotted :: "toml_table \<Rightarrow> string \<Rightarrow> toml \<Rightarrow> config_error + toml_table" where
  "set_dotted table key v = set_path key [] (segments key) v table"

definition acp_kind :: string where "acp_kind = ''acp''"

definition is_acp_kind :: "string \<Rightarrow> bool" where "is_acp_kind kind \<longleftrightarrow> kind = acp_kind"

definition resolve_acp_metering_source :: "effective_map \<Rightarrow> string" where
  "resolve_acp_metering_source effective =
     (if resolve_upstream_base_url effective \<noteq> None then ''engine-observed'' else ''self-reported'')"

text \<open>What the adapter snapshot of a registered instance answers: the metering source, and the mapping of
  its kind.\<close>

record adapter_facts =
  af_metering :: "string \<Rightarrow> string + string"
  af_mapping :: "string \<Rightarrow> string + config_mapping"

definition resolved_metering_source ::
  "'text config_host \<Rightarrow> adapter_facts \<Rightarrow> db \<Rightarrow> 'text config_files \<Rightarrow> string \<Rightarrow> config_error + string" where
  "resolved_metering_source host facts s files name =
     rbind (require_instance s name) (\<lambda>i.
       if is_acp_kind (ai_kind i) then
         rbind (effective_config host s files name []) (\<lambda>effective. Inr (resolve_acp_metering_source effective))
       else (case af_metering facts name of
               Inl detail \<Rightarrow> Inl (ConfigStore name (SnapshotFailed detail))
             | Inr source \<Rightarrow> Inr source))"

definition refuse_block_without_listener ::
  "'text config_host \<Rightarrow> adapter_facts \<Rightarrow> db \<Rightarrow> 'text config_files \<Rightarrow> string \<Rightarrow> string \<Rightarrow> string
     \<Rightarrow> config_error + unit" where
  "refuse_block_without_listener host facts s files name key v =
     (if key \<noteq> budget_breach_action_key \<or> parse_action (trim v) \<noteq> Inr ActBlock then Inr ()
      else case resolved_metering_source host facts s files name of
             Inr source \<Rightarrow>
               if source = ''engine-observed'' then Inr () else Inl (InvalidValue key v (NotFenced source))
           | Inl e \<Rightarrow> Inl (InvalidValue key v SourceUnread))"

text \<open>The keys a warning is rendered for: a secret reference on a key the adapter maps to a flag.\<close>

definition secret_flag_steering :: "adapter_facts \<Rightarrow> string \<Rightarrow> string \<Rightarrow> string \<Rightarrow> string list" where
  "secret_flag_steering facts name key v =
     (if secret_name v = None \<or> pass_through_tail key \<noteq> None then []
      else case af_mapping facts name of
             Inl _ \<Rightarrow> []
           | Inr mapping \<Rightarrow> (case mapping_target mapping key of Some (FlagTarget _) \<Rightarrow> [key] | _ \<Rightarrow> []))"

text \<open>The outcomes of the write lock and of the atomic write: \<open>None\<close> where they succeed.\<close>

record write_outcomes =
  wo_lock :: "string option"
  wo_write :: "string option"

definition set_config ::
  "'text config_host \<Rightarrow> adapter_facts \<Rightarrow> write_outcomes \<Rightarrow> db \<Rightarrow> string \<Rightarrow> string \<Rightarrow> string
     \<Rightarrow> 'text config_files \<Rightarrow> config_error + string list \<times> 'text config_files" where
  "set_config host facts io s name key v files =
     rbind (require_instance s name) (\<lambda>_.
     rbind (validate_write key v) (\<lambda>_.
     rbind (refuse_block_without_listener host facts s files name key v) (\<lambda>_.
     (let warnings = secret_flag_steering facts name key v
      in case wo_lock io of
           Some detail \<Rightarrow> Inl (ConfigStore name (LockFailed detail))
         | None \<Rightarrow>
             rbind (instance_config_layer host files name) (\<lambda>table.
             rbind (set_dotted table key (TStr v)) (\<lambda>table.
             (case ch_render host table of
                Inl detail \<Rightarrow> Inl (MalformedLayer InstanceLayer (ch_path host name) detail)
              | Inr body \<Rightarrow>
                  (case wo_write io of
                     Some detail \<Rightarrow> Inl (MalformedLayer InstanceLayer (ch_path host name) detail)
                   | None \<Rightarrow> Inr (warnings, files(name := ConfigText body))))))))))"

text \<open>The engine's entry point: a write under \<open>labels.\<close> re-binds the open Run's labels, and a failure of
  that refresh is only a diagnostic.\<close>

definition current_labels :: "'text config_host \<Rightarrow> db \<Rightarrow> 'text config_files \<Rightarrow> string \<Rightarrow> label list" where
  "current_labels host s files name =
     (case effective_config host s files name [] of Inl _ \<Rightarrow> [] | Inr effective \<Rightarrow> fst (bound_labels effective))"

definition engine_set_config ::
  "encoder \<Rightarrow> 'text config_host \<Rightarrow> adapter_facts \<Rightarrow> write_outcomes \<Rightarrow> bool \<Rightarrow> string \<Rightarrow> string \<Rightarrow> string \<Rightarrow> string
     \<Rightarrow> engine \<times> 'text config_files \<Rightarrow> config_error + string list \<times> engine \<times> 'text config_files" where
  "engine_set_config enc host facts io read_only candidate key v now state =
     (case state of (en, files) \<Rightarrow>
        if read_only then Inl (ConfigStore candidate EngineReadOnly)
        else case instance_name_new candidate of
               Inl reason \<Rightarrow> Inl (ConfigInvalidName candidate reason)
             | Inr name \<Rightarrow>
                 rbind (set_config host facts io (en_db en) name key v files) (\<lambda>(warnings, files').
                   Inr (warnings,
                        (if strip_prefix labels_prefix key \<noteq> None then
                           (case sync_run_labels enc name (current_labels host (en_db en) files' name) now en of
                              Inl _ \<Rightarrow> en
                            | Inr (_, _, en') \<Rightarrow> en')
                         else en), files')))"

section \<open>The configuration of a start\<close>

definition shadowed_env_keys :: "(string \<times> string) list \<Rightarrow> (string \<times> string) list \<Rightarrow> string list" where
  "shadowed_env_keys base after =
     map fst (filter (\<lambda>(var, old). (case map_of after var of Some new \<Rightarrow> new \<noteq> old | None \<Rightarrow> False)) base)"

text \<open>The two maps of a start: the operator's, for the snapshot, and the one the mapping applies, folded
  again with the values the engine computed.\<close>

definition start_configs ::
  "(toml_table \<Rightarrow> config_error + effective_map) \<Rightarrow> string option \<Rightarrow> string option
     \<Rightarrow> config_error + effective_map \<times> effective_map" where
  "start_configs fold_with base_url memory_dir =
     rbind (fold_with []) (\<lambda>effective.
       (let effective = effective_remove effective memory_dir_key
        in case invocation_overrides base_url memory_dir of
             None \<Rightarrow> Inr (effective, effective_remove effective memory_dir_key)
           | Some layer \<Rightarrow>
               rbind (fold_with layer) (\<lambda>mapped.
                 Inr (effective, if memory_dir = None then effective_remove mapped memory_dir_key else mapped))))"

section \<open>What a write changes\<close>

fun leaf_at :: "toml \<Rightarrow> string list \<Rightarrow> toml option" where
  "leaf_at (TTable table) [] = None"
| "leaf_at leaf [] = Some leaf"
| "leaf_at (TTable table) (k # ks) = (case map_of table k of None \<Rightarrow> None | Some v \<Rightarrow> leaf_at v ks)"
| "leaf_at leaf (k # ks) = None"

lemma leaf_at_walk: "leaf_at v path = (case walk v path of Found leaf \<Rightarrow> Some leaf | _ \<Rightarrow> None)"
proof (induction path arbitrary: v)
  case Nil
  then show ?case by (cases v) simp_all
next
  case (Cons k ks)
  then show ?case by (cases v) (auto split: option.split)
qed

lemma leaf_at_empty [simp]: "leaf_at (TTable []) path = None"
  by (cases path) simp_all

lemma leaf_at_str: "leaf_at (TStr v) path = (if path = [] then Some (TStr v) else None)"
  by (cases path) simp_all

lemma leaf_at_insert:
  "leaf_at (TTable (bt_insert k v table)) (k' # ks) = (if k' = k then leaf_at v ks else leaf_at (TTable table) (k' # ks))"
  by simp

lemma set_path_leaf_at:
  assumes "set_path key walked p (TStr v) t = Inr t'" and "p \<noteq> []"
  shows "leaf_at (TTable t') q =
    (if q = p then Some (TStr v) else if take (length p) q = p then None else leaf_at (TTable t) q)"
  using assms
proof (induction key walked p "TStr v" t arbitrary: t' q rule: set_path.induct)
  case (2 key walked leaf t)
  then show ?case by (cases q) (auto simp: leaf_at_str)
next
  case (3 key walked segment s ss t)
  obtain child sub where sub: "set_path key (dot walked segment) (s # ss) (TStr v) child = Inr sub"
      "t' = bt_insert segment (TTable sub) t" "child = (case map_of t segment of Some (TTable c) \<Rightarrow> c | _ \<Rightarrow> [])"
      "\<And>q. leaf_at (TTable sub) q = (if q = s # ss then Some (TStr v)
          else if take (length (s # ss)) q = s # ss then None else leaf_at (TTable child) q)"
  proof (cases "map_of t segment")
    case None
    with "3.prems" obtain u where u: "set_path key (dot walked segment) (s # ss) (TStr v) [] = Inr u"
        "t' = bt_insert segment (TTable u) t"
      by (auto simp: Let_def rbind_def split: sum.splits)
    show ?thesis by (rule that [OF u]) (use 3(1) [OF refl None u(1)] None in simp_all)
  next
    case (Some w)
    with "3.prems" obtain c u where u: "w = TTable c" "set_path key (dot walked segment) (s # ss) (TStr v) c = Inr u"
        "t' = bt_insert segment (TTable u) t"
      by (auto simp: Let_def rbind_def split: sum.splits toml.splits)
    show ?thesis by (rule that [OF u(2,3)]) (use 3(2) [OF refl Some u(1,2)] Some u(1) in simp_all)
  qed
  have old: "leaf_at (TTable t) (segment # ks) = leaf_at (TTable child) ks" if "take (Suc (length ss)) ks \<noteq> s # ss" for ks
  proof (cases "map_of t segment")
    case (Some w)
    with "3.prems" obtain c where "w = TTable c" by (auto simp: Let_def split: toml.splits)
    with Some sub(3) show ?thesis by simp
  qed (simp add: sub(3))
  show ?case
  proof (cases q)
    case (Cons k ks)
    then show ?thesis using old [of ks] by (simp add: sub(2) leaf_at_insert sub(4) del: leaf_at.simps)
  qed (simp add: sub(2))
qed simp

lemma set_path_bare:
  assumes "set_path key walked p (TStr v) t = Inr t'" and "bare_value (TTable t)" and "\<forall>s\<in>set p. bare s"
  shows "bare_value (TTable t')"
  using assms
proof (induction key walked p "TStr v" t arbitrary: t' rule: set_path.induct)
  case (2 key walked leaf t)
  then show ?case using set_bt_insert [of leaf "TStr v" t] by auto
next
  case (3 key walked segment s ss t)
  obtain sub where sub: "t' = bt_insert segment (TTable sub) t" "bare_value (TTable sub)"
  proof (cases "map_of t segment")
    case None
    with "3.prems"(1) obtain u where u: "set_path key (dot walked segment) (s # ss) (TStr v) [] = Inr u"
        "t' = bt_insert segment (TTable u) t"
      by (auto simp: Let_def rbind_def split: sum.splits)
    show ?thesis by (rule that [OF u(2)], rule 3(1) [OF refl None u(1)]) (use "3.prems"(3) in simp_all)
  next
    case (Some w)
    with "3.prems"(1) obtain c u where u: "w = TTable c" "set_path key (dot walked segment) (s # ss) (TStr v) c = Inr u"
        "t' = bt_insert segment (TTable u) t"
      by (auto simp: Let_def rbind_def split: sum.splits toml.splits)
    have "bare_value (TTable c)" using bare_value_lookup(2) [OF "3.prems"(2) Some] u(1) by simp
    then show ?thesis by (intro that [OF u(3)] 3(2) [OF refl Some u(1,2)]) (use "3.prems"(3) in simp_all)
  qed
  then show ?case using set_bt_insert [of segment "TTable sub" t] "3.prems"(2,3) by auto
qed simp

lemma segments_append: "segments (a @ CHR ''.'' # b) = segments a @ segments b"
proof (induction a)
  case (Cons x a)
  then show ?case by (cases "split_on (CHR ''.'') a") (auto simp: segments_def)
qed (simp add: segments_def)

lemma segments_inj: "segments a = segments b \<longleftrightarrow> a = b"
  by (metis join_split_on segments_def)

lemma segments_not_Nil [simp]: "segments a \<noteq> []"
  by (simp add: segments_def)

lemma join_append: "p \<noteq> [] \<Longrightarrow> q \<noteq> [] \<Longrightarrow> join c (p @ q) = join c p @ c # join c q"
proof (induction c p rule: join.induct)
  case (2 c s)
  then show ?case by (cases q) simp_all
qed simp_all

text \<open>A key lies below another when its segments extend the other's.\<close>

lemma segments_below:
  "take (length (segments key)) (segments k) = segments key \<and> segments k \<noteq> segments key
     \<longleftrightarrow> (\<exists>r. k = key @ CHR ''.'' # r)"
proof
  assume l: "take (length (segments key)) (segments k) = segments key \<and> segments k \<noteq> segments key"
  then obtain q where q: "segments k = segments key @ q" "q \<noteq> []"
    by (metis append_Nil2 append_take_drop_id)
  have "k = join (CHR ''.'') (segments key @ q)" by (metis join_split_on segments_def q(1))
  also have "\<dots> = key @ CHR ''.'' # join (CHR ''.'') q"
    using join_append [OF segments_not_Nil q(2)] join_split_on [of "CHR ''.''" key] by (simp add: segments_def)
  finally show "\<exists>r. k = key @ CHR ''.'' # r" by blast
next
  assume "\<exists>r. k = key @ CHR ''.'' # r"
  then show "take (length (segments key)) (segments k) = segments key \<and> segments k \<noteq> segments key"
    by (auto simp: segments_append)
qed

lemma bare_segments: "\<not> has_empty_segment key \<Longrightarrow> \<forall>s\<in>set (segments key). bare s"
proof -
  have "s \<in> set (split_on c key) \<Longrightarrow> c \<notin> set s" for s and c :: char
    by (induction key arbitrary: s) (auto split: list.splits if_splits)
  then show "\<not> has_empty_segment key \<Longrightarrow> \<forall>s\<in>set (segments key). bare s"
    by (auto simp: has_empty_segment_def segments_def bare_def)
qed

text \<open>The effective configuration of one layer alone.\<close>

lemma effective_of_layer:
  assumes "bare_value (TTable t)"
  shows "effective_get (effective_remove (resolve [[], [], t, []]) reserved_identity_key) key =
    (if key = reserved_identity_key then None
     else map_option (\<lambda>v. \<lparr>rv_value = v, rv_source = InstanceLayer\<rparr>) (leaf_at (TTable t) (segments key)))"
proof -
  have "effective_get (resolve [[], [], t, []]) key
      = strongest (rev (zip [[], [], t, []] source_order)) (segments key)"
    using assms by (intro resolution_is_the_strongest) simp_all
  also have "\<dots> = map_option (\<lambda>v. \<lparr>rv_value = v, rv_source = InstanceLayer\<rparr>) (leaf_at (TTable t) (segments key))"
    by (cases "segments key") (auto simp: source_order_def leaf_at_walk split: sighting.split)
  finally have *: "effective_get (resolve [[], [], t, []]) key = \<dots>" .
  have "map_of (filter (\<lambda>(k, _). k \<noteq> c) m) key = (if key = c then None else map_of m key)"
    for c and m :: effective_map
    by (induction m) auto
  then show ?thesis using * by (simp add: effective_get_def effective_remove_def)
qed

lemma set_config_cases:
  assumes "set_config host facts io s name key v files = Inr (warnings, files')"
  obtains i table table' body where "require_instance s name = Inr i" "validate_write key v = Inr ()"
    "refuse_block_without_listener host facts s files name key v = Inr ()"
    "instance_config_layer host files name = Inr table" "set_dotted table key (TStr v) = Inr table'"
    "ch_render host table' = Inr body" "files' = files(name := ConfigText body)"
  using assms by (auto simp: set_config_def rbind_def Let_def split: sum.splits option.splits)

lemma validate_write_key: "validate_write key v = Inr () \<Longrightarrow> \<not> has_empty_segment key \<and> key \<noteq> reserved_identity_key"
proof -
  assume "validate_write key v = Inr ()"
  then have *: "validate_write_with nearest_known_key key v = Inr ()" by (simp add: validate_write_def)
  then have "\<not> has_empty_segment key" by (auto simp: validate_write_with_def split: if_splits)
  moreover have "validate_write_with nearest_known_key reserved_identity_key v \<noteq> Inr ()"
    by (simp add: validate_write_with_def reserved_identity_key_def has_empty_segment_def labels_prefix_def known_keys_def
        key_defs is_pass_through_def)
  ultimately show ?thesis using * by auto
qed

text \<open>What the code relies on of the TOML library: it reads back what it wrote.\<close>

definition reads_back :: "'text config_host \<Rightarrow> bool" where
  "reads_back host \<longleftrightarrow> (\<forall>t body. ch_render host t = Inr body \<longrightarrow> ch_parse host body = Inr t)"

text \<open>A write in terms of the two effective configurations.\<close>

lemma set_config_effect:
  assumes go: "set_config host facts io s name key v files = Inr (warnings, files')"
    and lay: "instance_config_layer host files name = Inr table" "bare_value (TTable table)"
    and codec: "reads_back host"
  obtains before after table' where
    "effective_config host s files name [] = Inr before" "effective_config host s files' name [] = Inr after"
    "instance_config_layer host files' name = Inr table'" "bare_value (TTable table')"
    "\<And>k. effective_get after k =
       (if k = key then Some \<lparr>rv_value = TStr v, rv_source = InstanceLayer\<rparr>
        else if \<exists>r. k = key @ CHR ''.'' # r then None
        else effective_get before k)"
    "\<And>other. other \<noteq> name \<Longrightarrow> files' other = files other"
proof (rule set_config_cases [OF go])
  fix i t table' body
  assume i: "require_instance s name = Inr i" and ok: "validate_write key v = Inr ()"
    and t: "instance_config_layer host files name = Inr t" and put: "set_dotted t key (TStr v) = Inr table'"
    and body: "ch_render host table' = Inr body" and files': "files' = files(name := ConfigText body)"
  have key: "\<not> has_empty_segment key" "key \<noteq> reserved_identity_key" using validate_write_key [OF ok] by simp_all
  have table: "t = table" using t lay(1) by simp
  have layer': "instance_config_layer host files' name = Inr table'"
    using codec body by (simp add: instance_config_layer_def files' parse_layer_def reads_back_def)
  note put = put [unfolded set_dotted_def table]
  have bare': "bare_value (TTable table')" by (rule set_path_bare [OF put lay(2) bare_segments [OF key(1)]])
  have eff: "effective_config host s f name [] = Inr (effective_remove (resolve [[], [], u, []]) reserved_identity_key)"
    if "instance_config_layer host f name = Inr u" for f u
    using that by (simp add: effective_config_def i engine_defaults_layer_def kind_defaults_layer_def rbind_def)
  have below: "reserved_identity_key \<noteq> key @ CHR ''.'' # r" for r
  proof
    assume "reserved_identity_key = key @ CHR ''.'' # r"
    then have "CHR ''.'' \<in> set reserved_identity_key" by (metis in_set_conv_decomp)
    then show False by (simp add: reserved_identity_key_def)
  qed
  have "effective_get (effective_remove (resolve [[], [], table', []]) reserved_identity_key) k =
       (if k = key then Some \<lparr>rv_value = TStr v, rv_source = InstanceLayer\<rparr>
        else if \<exists>r. k = key @ CHR ''.'' # r then None
        else effective_get (effective_remove (resolve [[], [], table, []]) reserved_identity_key) k)" for k
    unfolding effective_of_layer [OF bare'] effective_of_layer [OF lay(2)] set_path_leaf_at [OF put segments_not_Nil]
    using segments_below [of key k] key(2) below by (auto simp: segments_inj)
  then show thesis by (intro that [OF eff [OF lay(1)] eff [OF layer'] layer' bare']) (simp_all add: files')
qed

text \<open>(C38) An accepted write takes effect and nothing else changes: with a file whose keys are bare and a
  codec that reads back what it wrote, the effective value of the key is then the written string from the
  instance layer, every key below it has lost its value, every other key keeps its value and its layer,
  no other instance's file is touched, and the file's keys are bare again.\<close>

theorem accepted_write_takes_effect:
  assumes "set_config host facts io s name key v files = Inr (warnings, files')"
    and "instance_config_layer host files name = Inr table" and "bare_value (TTable table)"
    and "reads_back host"
  shows "\<exists>before after table'. effective_config host s files name [] = Inr before
     \<and> effective_config host s files' name [] = Inr after
     \<and> instance_config_layer host files' name = Inr table' \<and> bare_value (TTable table')
     \<and> (\<forall>k. effective_get after k =
          (if k = key then Some \<lparr>rv_value = TStr v, rv_source = InstanceLayer\<rparr>
           else if \<exists>r. k = key @ CHR ''.'' # r then None
           else effective_get before k))
     \<and> (\<forall>other. other \<noteq> name \<longrightarrow> files' other = files other)"
proof -
  obtain before after table' where
    "effective_config host s files name [] = Inr before" "effective_config host s files' name [] = Inr after"
    "instance_config_layer host files' name = Inr table'" "bare_value (TTable table')"
    "\<And>k. effective_get after k =
       (if k = key then Some \<lparr>rv_value = TStr v, rv_source = InstanceLayer\<rparr>
        else if \<exists>r. k = key @ CHR ''.'' # r then None
        else effective_get before k)"
    "\<And>other. other \<noteq> name \<Longrightarrow> files' other = files other"
    by (rule set_config_effect [OF assms]) blast
  then show ?thesis by (intro exI [of _ before] exI [of _ after] exI [of _ table'] conjI allI impI)
qed

definition config_demo_host :: "toml_table config_host" where
  "config_demo_host = \<lparr>ch_parse = Inr, ch_render = Inr, ch_path = (\<lambda>n. n)\<rparr>"

definition config_demo_facts :: adapter_facts where
  "config_demo_facts = \<lparr>af_metering = (\<lambda>_. Inr ''self-reported''), af_mapping = (\<lambda>_. Inr [])\<rparr>"

definition config_demo_db :: db where
  "config_demo_db = empty_db [\<lparr>in_id = 1, in_name = ''demo'', in_kind = ''mock'', in_state = ''registered'',
     in_home = ''h'', in_created = ''t'', in_updated = ''t'', in_generation = 0\<rparr>]"

definition config_demo_files :: "toml_table config_files" where
  "config_demo_files = (\<lambda>_. NoConfig)(''demo'' := ConfigText
     [(''agent'', TTable [(''a'', TTable [(''b'', TStr ''x'')]), (''c'', TStr ''y'')]), (''name'', TStr ''demo'')])"

lemma config_demo_write:
  "set_config config_demo_host config_demo_facts \<lparr>wo_lock = None, wo_write = None\<rparr> config_demo_db ''demo'' ''agent.a'' ''z''
     config_demo_files = Inr ([], config_demo_files(''demo'' := ConfigText
       [(''agent'', TTable [(''a'', TStr ''z''), (''c'', TStr ''y'')]), (''name'', TStr ''demo'')]))"
proof -
  have i: "require_instance config_demo_db ''demo'' = Inr \<lparr>ai_name = ''demo'', ai_kind = ''mock'', ai_state = Registered,
      ai_home = ''h'', ai_created = ''t'', ai_updated = ''t''\<rparr>" by code_simp
  have v: "validate_write ''agent.a'' ''z'' = Inr ()" by code_simp
  show ?thesis
    by (simp add: set_config_def i v rbind_def refuse_block_without_listener_def budget_breach_action_key_def
        secret_flag_steering_def secret_name_def secret_prefix_def config_demo_host_def config_demo_files_def
        instance_config_layer_def parse_layer_def set_dotted_def segments_def)
qed

theorem accepted_write_takes_effect_witness:
  "\<exists>before after. effective_config config_demo_host config_demo_db config_demo_files ''demo'' [] = Inr before
     \<and> effective_get before ''agent.a.b'' = Some \<lparr>rv_value = TStr ''x'', rv_source = InstanceLayer\<rparr>
     \<and> effective_get after ''agent.a'' = Some \<lparr>rv_value = TStr ''z'', rv_source = InstanceLayer\<rparr>
     \<and> effective_get after ''agent.a.b'' = None"
proof -
  have lay: "instance_config_layer config_demo_host config_demo_files ''demo'' = Inr
      [(''agent'', TTable [(''a'', TTable [(''b'', TStr ''x'')]), (''c'', TStr ''y'')]), (''name'', TStr ''demo'')]"
    by (simp add: instance_config_layer_def config_demo_files_def config_demo_host_def parse_layer_def)
  have ok: "bare_value (TTable [(''agent'', TTable [(''a'', TTable [(''b'', TStr ''x'')]), (''c'', TStr ''y'')]), (''name'', TStr ''demo'')])"
    by code_simp
  have codec: "reads_back config_demo_host"
    by (simp add: config_demo_host_def reads_back_def)
  obtain before after where b: "effective_config config_demo_host config_demo_db config_demo_files ''demo'' [] = Inr before"
    and a: "\<And>k. effective_get after k =
      (if k = ''agent.a'' then Some \<lparr>rv_value = TStr ''z'', rv_source = InstanceLayer\<rparr>
       else if \<exists>r. k = ''agent.a'' @ CHR ''.'' # r then None else effective_get before k)"
    using accepted_write_takes_effect [OF config_demo_write lay ok codec] by blast
  have "effective_config config_demo_host config_demo_db config_demo_files ''demo'' [] = Inr
      [(''agent.a.b'', \<lparr>rv_value = TStr ''x'', rv_source = InstanceLayer\<rparr>),
       (''agent.c'', \<lparr>rv_value = TStr ''y'', rv_source = InstanceLayer\<rparr>)]" by code_simp
  with b have "before = [(''agent.a.b'', \<lparr>rv_value = TStr ''x'', rv_source = InstanceLayer\<rparr>),
       (''agent.c'', \<lparr>rv_value = TStr ''y'', rv_source = InstanceLayer\<rparr>)]" by simp
  then have "effective_get before ''agent.a.b'' = Some \<lparr>rv_value = TStr ''x'', rv_source = InstanceLayer\<rparr>"
    by (simp add: effective_get_def)
  with b a [of "''agent.a''"] a [of "''agent.a.b''"] show ?thesis by auto
qed

section \<open>Typed keys\<close>

lemma trim_keeps_front: "\<not> is_whitespace c \<Longrightarrow> utf8_chars s = c # cs \<Longrightarrow> \<exists>r. trim s = c @ r"
proof -
  assume c: "\<not> is_whitespace c" "utf8_chars s = c # cs"
  have "dropWhile is_whitespace (rev cs @ [c]) = dropWhile is_whitespace (rev cs) @ [c]"
    using c(1) dropWhile_append3 [of is_whitespace c "rev cs" "[]"] by simp
  with c show ?thesis by (simp add: trim_def)
qed

lemma parse_dollars_secret: "is_secret_ref s \<Longrightarrow> \<exists>e. parse_dollars_to_micros s = Inl e"
proof -
  assume "is_secret_ref s"
  then obtain n where s: "s = CHR ''s'' # CHR ''e'' # ''cret:'' @ n"
    by (auto simp: is_secret_ref_def strip_prefix_iff secret_prefix_def split: option.splits)
  have "\<not> is_utf8_continuation CHR ''e''" "\<not> is_ascii_digit CHR ''s''" "\<not> is_whitespace ''s''" by code_simp+
  moreover from this obtain cs where "utf8_chars s = ''s'' # cs" by (simp add: s)
  ultimately obtain r where r: "trim s = CHR ''s'' # r" using trim_keeps_front by fastforce
  obtain w f where w: "split_once (CHR ''.'') (CHR ''s'' # r) = (CHR ''s'' # w, f)"
    by (cases "split_once (CHR ''.'') r") simp
  have "parse_u64 (CHR ''s'' # w) = None"
    using \<open>\<not> is_ascii_digit CHR ''s''\<close> by (simp add: parse_u64_def)
  then show ?thesis by (simp add: parse_dollars_to_micros_def r w Let_def rbind_def del: split_once.simps)
qed

lemma parse_dollars_range: "parse_dollars_to_micros s = Inr m \<Longrightarrow> 0 \<le> m \<and> m \<le> i64_max"
  by (auto simp: parse_dollars_to_micros_def Let_def rbind_def micros_per_dollar_def split: if_splits prod.splits sum.splits)

lemmas typed_keys = budget_tokens_per_run_key_def budget_tokens_cumulative_key_def budget_breach_action_key_def
  cost_rate_input_key_def cost_rate_output_key_def cost_rate_cached_key_def budget_dollars_per_run_key_def
  budget_dollars_cumulative_key_def

lemma validate_typed:
  assumes "validate_write key v = Inr ()"
    and "key \<in> {budget_tokens_per_run_key, budget_tokens_cumulative_key, budget_breach_action_key, cost_rate_input_key,
      cost_rate_output_key, cost_rate_cached_key, budget_dollars_per_run_key, budget_dollars_cumulative_key}"
  shows "validate_budget_value key v = Inr ()" and "validate_cost_value key v = Inr ()"
proof -
  have "\<not> has_empty_segment key" "strip_prefix labels_prefix key = None" "key \<in> set known_keys"
    using assms(2) by (auto simp: typed_keys has_empty_segment_def labels_prefix_def known_keys_def key_defs)
  with assms(1) show "validate_budget_value key v = Inr ()" "validate_cost_value key v = Inr ()"
    by (auto simp: validate_write_def validate_write_with_def rbind_def split: sum.splits)
qed



section \<open>The values the engine computes\<close>

lemma effective_config_with:
  assumes "require_instance s name = Inr i" "instance_config_layer host files name = Inr table" "bare_value (TTable table)"
    and "bare_value (TTable overrides)"
  obtains effective where "effective_config host s files name overrides = Inr effective"
    "\<And>k. effective_get effective k = (if k = reserved_identity_key then None
       else strongest [(overrides, InvocationOverride), (table, InstanceLayer)] (segments k))"
proof -
  have none: "strongest [([], KindDefault), ([], EngineDefault)] (segments k) = None" for k
    by (cases "segments k") simp_all
  have "effective_get (resolve [[], [], table, overrides]) k
      = strongest [(overrides, InvocationOverride), (table, InstanceLayer)] (segments k)" for k
  proof -
    have "effective_get (resolve [[], [], table, overrides]) k = strongest (rev (zip [[], [], table, overrides] source_order)) (segments k)"
      using assms(3,4) by (intro resolution_is_the_strongest) simp_all
    also have "\<dots> = strongest [(overrides, InvocationOverride), (table, InstanceLayer), ([], KindDefault), ([], EngineDefault)] (segments k)"
      by (simp add: source_order_def)
    also have "\<dots> = strongest [(overrides, InvocationOverride), (table, InstanceLayer)] (segments k)"
      using none [of k] by (auto simp del: walk.simps split: sighting.split)
    finally show ?thesis .
  qed
  moreover have "map_of (filter (\<lambda>(k, _). k \<noteq> c) m) key = (if key = c then None else map_of m key)"
    for c key and m :: effective_map
    by (induction m) auto
  ultimately show thesis
    by (intro that [of "effective_remove (resolve [[], [], table, overrides]) reserved_identity_key"])
      (simp_all add: effective_config_def assms(1,2) engine_defaults_layer_def kind_defaults_layer_def rbind_def
        effective_get_def effective_remove_def)
qed

lemma effective_get_remove: "effective_get (effective_remove m c) k = (if k = c then None else effective_get m k)"
  by (induction m) (auto simp: effective_get_def effective_remove_def)

text \<open>The layer of computed values, looked up.\<close>

lemma invocation_layer:
  assumes "invocation_overrides url dir = Some layer"
  shows "bare_value (TTable layer)"
    and "walk (TTable layer) (segments memory_dir_key) = (case dir of Some d \<Rightarrow> Found (TStr d) | None \<Rightarrow> Absent)"
    and "walk (TTable layer) (segments metering_base_url_key) = (case url of Some u \<Rightarrow> Found (TStr u) | None \<Rightarrow> Absent)"
    and "hd (segments k) \<notin> {''memory'', ''metering''} \<Longrightarrow> walk (TTable layer) (segments k) = Absent"
proof -
  have layer: "layer = (let table = (case url of Some u \<Rightarrow> [(''metering'', TTable [(''base_url'', TStr u)])] | None \<Rightarrow> [])
       in case dir of Some d \<Rightarrow> bt_insert ''memory'' (TTable [(''dir'', TStr d)]) table | None \<Rightarrow> table)"
    using assms by (cases url; cases dir) (auto simp: invocation_overrides_def)
  show "bare_value (TTable layer)"
    by (cases url; cases dir) (simp_all add: layer bare_def bt_ok_def)
  show "walk (TTable layer) (segments memory_dir_key) = (case dir of Some d \<Rightarrow> Found (TStr d) | None \<Rightarrow> Absent)"
    "walk (TTable layer) (segments metering_base_url_key) = (case url of Some u \<Rightarrow> Found (TStr u) | None \<Rightarrow> Absent)"
    by (cases url; cases dir; simp add: layer segments_def memory_dir_key_def metering_base_url_key_def)+
  show "walk (TTable layer) (segments k) = Absent" if "hd (segments k) \<notin> {''memory'', ''metering''}"
    using that by (cases "segments k"; cases url; cases dir) (simp_all add: layer)
qed

text \<open>The values the engine computes reach the process and nothing else does under their keys: with
  a file whose keys are bare, a start delivers the managed memory directory and the listener's address
  from the invocation layer, whatever the file says; without a managed directory the key \<open>memory.dir\<close> is
  not delivered at all; it is never in the snapshot of the start; and outside the two tables the
  delivered configuration is the one the snapshot shows.\<close>

theorem computed_values_reach_the_start:
  assumes go: "start_configs (effective_config host s files name) url dir = Inr (shown, mapped)"
    and lay: "instance_config_layer host files name = Inr table" "bare_value (TTable table)"
  shows "effective_get shown memory_dir_key = None
     \<and> effective_get mapped memory_dir_key = map_option (\<lambda>d. \<lparr>rv_value = TStr d, rv_source = InvocationOverride\<rparr>) dir
     \<and> (\<forall>u. url = Some u \<longrightarrow>
          effective_get mapped metering_base_url_key = Some \<lparr>rv_value = TStr u, rv_source = InvocationOverride\<rparr>)
     \<and> (\<forall>k. hd (segments k) \<notin> {''memory'', ''metering''} \<longrightarrow> effective_get mapped k = effective_get shown k)"
proof -
  obtain i where i: "require_instance s name = Inr i"
    using go by (auto simp: start_configs_def effective_config_def rbind_def split: sum.splits)
  have keys: "memory_dir_key \<noteq> reserved_identity_key" "metering_base_url_key \<noteq> reserved_identity_key"
      "metering_base_url_key \<noteq> memory_dir_key" "hd (segments memory_dir_key) = ''memory''"
    by (simp_all add: key_defs reserved_identity_key_def segments_def)
  obtain plain where plain: "effective_config host s files name [] = Inr plain"
    "\<And>k. effective_get plain k = (if k = reserved_identity_key then None
       else strongest [([], InvocationOverride), (table, InstanceLayer)] (segments k))"
    by (rule effective_config_with [OF i lay, of "[]"]) simp_all
  have shown: "shown = effective_remove plain memory_dir_key"
    using go plain(1) by (auto simp: start_configs_def rbind_def Let_def split: option.splits sum.splits)
  show ?thesis
  proof (cases "invocation_overrides url dir")
    case None
    then have "url = None" "dir = None" by (auto simp: invocation_overrides_def split: if_splits)
    with None go plain(1) show ?thesis by (auto simp: start_configs_def rbind_def Let_def shown effective_get_remove)
  next
    case (Some layer)
    note inv = invocation_layer [OF Some]
    obtain full where full: "effective_config host s files name layer = Inr full"
      "\<And>k. effective_get full k = (if k = reserved_identity_key then None
         else strongest [(layer, InvocationOverride), (table, InstanceLayer)] (segments k))"
      by (rule effective_config_with [OF i lay inv(1)]) simp
    have mapped: "mapped = (if dir = None then effective_remove full memory_dir_key else full)"
      using go plain(1) full(1) Some by (auto simp: start_configs_def rbind_def Let_def)
    have same: "effective_get mapped k = effective_get shown k" if k: "hd (segments k) \<notin> {''memory'', ''metering''}" for k
    proof -
      have "walk (TTable []) (segments k) = Absent" by (cases "segments k") (use segments_not_Nil [of k] in simp_all)
      then have "effective_get full k = effective_get plain k"
        unfolding full(2) plain(2) using inv(4) [OF k] by simp
      moreover have "k \<noteq> memory_dir_key" using k keys(4) by auto
      ultimately show ?thesis by (simp add: mapped shown effective_get_remove)
    qed
    have mem: "effective_get mapped memory_dir_key = map_option (\<lambda>d. \<lparr>rv_value = TStr d, rv_source = InvocationOverride\<rparr>) dir"
      using inv(2) keys(1) by (cases dir) (simp_all add: mapped effective_get_remove full(2) del: walk.simps)
    have "effective_get mapped metering_base_url_key = Some \<lparr>rv_value = TStr u, rv_source = InvocationOverride\<rparr>" if "url = Some u" for u
      using inv(3) keys(2,3) that by (simp add: mapped effective_get_remove full(2) del: walk.simps)
    with same mem show ?thesis by (auto simp: shown effective_get_remove)
  qed
qed

theorem computed_values_reach_the_start_witness:
  "\<exists>shown mapped. start_configs (effective_config config_demo_host config_demo_db config_demo_files ''demo'')
       (Some ''http://127.0.0.1:1'') None = Inr (shown, mapped)
     \<and> effective_get mapped metering_base_url_key = Some \<lparr>rv_value = TStr ''http://127.0.0.1:1'', rv_source = InvocationOverride\<rparr>"
proof -
  have lay: "instance_config_layer config_demo_host config_demo_files ''demo'' = Inr
      [(''agent'', TTable [(''a'', TTable [(''b'', TStr ''x'')]), (''c'', TStr ''y'')]), (''name'', TStr ''demo'')]"
    by (simp add: instance_config_layer_def config_demo_files_def config_demo_host_def parse_layer_def)
  have ok: "bare_value (TTable [(''agent'', TTable [(''a'', TTable [(''b'', TStr ''x'')]), (''c'', TStr ''y'')]), (''name'', TStr ''demo'')])"
    by code_simp
  have "(case start_configs (effective_config config_demo_host config_demo_db config_demo_files ''demo'')
       (Some ''http://127.0.0.1:1'') None of Inr _ \<Rightarrow> True | Inl _ \<Rightarrow> False)" by code_simp
  then obtain shown mapped where go: "start_configs (effective_config config_demo_host config_demo_db config_demo_files ''demo'')
       (Some ''http://127.0.0.1:1'') None = Inr (shown, mapped)"
    by (auto split: sum.splits)
  show ?thesis using computed_values_reach_the_start [OF go lay ok] go by blast
qed

end
