(* ===== verification/Usage_Report.thy ===== *)
theory Usage_Report
  imports Ledger Config
begin

text \<open>
  What a usage report is before it reaches the ledger (\<open>ports/usage_source.rs\<close>, \<open>metering/parse.rs\<close>): the
  sentinel lines of a self-reporting agent, read out of the bytes it wrote, and the \<open>usage\<close> objects the
  metering listener skims from a provider's response, whole or as a stream of frames.

  The JSON text itself is \<open>serde_json\<close>'s: \<open>from_str\<close> of the sentinel's body and \<open>from_slice\<close> of a response are
  parameters, a decoded value is a \<open>json\<close>.
\<close>

section \<open>Bytes, text and lines\<close>

text \<open>\<open>String::from_utf8_lossy\<close>: each maximal broken prefix of a sequence becomes U+FFFD.\<close>

definition byte_at :: "string \<Rightarrow> nat \<Rightarrow> nat" where
  "byte_at s k = (if k < length s then byte_of (s ! k) else 0)"

definition continues :: "string \<Rightarrow> nat \<Rightarrow> bool" where
  "continues s k \<longleftrightarrow> 128 \<le> byte_at s k \<and> byte_at s k < 192"

definition second_byte_ok :: "nat \<Rightarrow> nat \<Rightarrow> bool" where
  "second_byte_ok b c \<longleftrightarrow>
     (if b = 224 then 160 \<le> c \<and> c < 192
      else if b = 237 then 128 \<le> c \<and> c < 160
      else if b = 240 then 144 \<le> c \<and> c < 192
      else if b = 244 then 128 \<le> c \<and> c < 144
      else 128 \<le> c \<and> c < 192)"

text \<open>The length of the first sequence, and whether it is a character.\<close>

definition utf8_sequence :: "string \<Rightarrow> nat \<times> bool" where
  "utf8_sequence s =
     (let b = byte_at s 0 in
      if b < 128 then (1, True)
      else if b < 194 \<or> 245 \<le> b then (1, False)
      else if \<not> second_byte_ok b (byte_at s 1) then (1, False)
      else if b < 224 then (2, True)
      else if \<not> continues s 2 then (2, False)
      else if b < 240 then (3, True)
      else if \<not> continues s 3 then (3, False)
      else (4, True))"

definition replacement_character :: string where
  "replacement_character = [CHR 0xEF, CHR 0xBF, CHR 0xBD]"

lemma utf8_sequence_pos: "0 < fst (utf8_sequence s)"
  by (simp add: utf8_sequence_def Let_def)

function utf8_lossy :: "string \<Rightarrow> string" where
  "utf8_lossy [] = []"
| "utf8_lossy (c # cs) =
     (case utf8_sequence (c # cs) of
        (n, ok) \<Rightarrow> (if ok then take n (c # cs) else replacement_character) @ utf8_lossy (drop n (c # cs)))"
  by pat_completeness auto
termination
proof (relation "measure length")
  fix c cs n ok
  assume "(n, ok) = utf8_sequence (c # cs)"
  then have "0 < n" using utf8_sequence_pos [of "c # cs"] by (metis fst_conv)
  then show "(drop n (c # cs), c # cs) \<in> measure length" by simp
qed simp

text \<open>\<open>str::lines\<close>: a line ends with a newline, which may follow a carriage return; what is left after the
  last one is a line unless it is empty.\<close>

definition strip_cr :: "string \<Rightarrow> string" where
  "strip_cr line = (if line \<noteq> [] \<and> last line = CHR 0x0D then butlast line else line)"

definition str_lines :: "string \<Rightarrow> string list" where
  "str_lines s =
     (let pieces = split_on (CHR 0x0A) s
      in map strip_cr (butlast pieces) @ (if last pieces = [] then [] else [last pieces]))"

section \<open>The sentinel line\<close>

definition usage_sentinel_prefix :: string where
  "usage_sentinel_prefix = ''KTESIO_USAGE ''"

record parsed_usage =
  pu_sequence :: u64
  pu_input :: u64
  pu_output :: u64
  pu_cached :: u64

record usage_line =
  ul_sequence :: u64
  ul_input :: u64
  ul_output :: u64
  ul_cached :: "u64 option"

definition parse_usage_line :: "(string \<Rightarrow> usage_line option) \<Rightarrow> string \<Rightarrow> parsed_usage option" where
  "parse_usage_line from_json line =
     Option.bind (strip_prefix usage_sentinel_prefix (trim line)) (\<lambda>body.
     Option.bind (from_json (trim body)) (\<lambda>parsed.
       (let cached = (case ul_cached parsed of None \<Rightarrow> 0 | Some c \<Rightarrow> c)
        in if cached > ul_input parsed then None
           else Some \<lparr>pu_sequence = ul_sequence parsed, pu_input = ul_input parsed, pu_output = ul_output parsed,
                   pu_cached = cached\<rparr>)))"

definition parse_usage_block :: "(string \<Rightarrow> usage_line option) \<Rightarrow> string \<Rightarrow> parsed_usage list" where
  "parse_usage_block from_json block = List.map_filter (parse_usage_line from_json) (str_lines block)"

text \<open>The engine's own counter for observed calls, and the join of the two halves of an event.\<close>

definition mint_observed :: "u64 \<Rightarrow> u64 \<times> u64 \<times> u64 \<Rightarrow> parsed_usage \<times> u64" where
  "mint_observed counter counts =
     (case counts of (input, output, cached) \<Rightarrow>
        (\<lparr>pu_sequence = counter, pu_input = input, pu_output = output, pu_cached = cached\<rparr>, counter + 1))"

definition assemble_usage_event :: "parsed_usage \<Rightarrow> string \<Rightarrow> run_id \<Rightarrow> string \<Rightarrow> string \<Rightarrow> usage_event" where
  "assemble_usage_event parsed name run source at =
     \<lparr>ue_instance = name, ue_run = run, ue_input = pu_input parsed, ue_output = pu_output parsed,
      ue_cached = Some (pu_cached parsed), ue_source = source, ue_sequence = pu_sequence parsed, ue_occurred = at\<rparr>"

section \<open>The provider's \<open>usage\<close> object\<close>

datatype json = JNull | JBool bool | JUnsigned u64 | JNegative int | JFloat string | JText string
  | JArray "json list" | JObject "(string \<times> json) list"

fun json_get :: "string \<Rightarrow> json \<Rightarrow> json option" where
  "json_get key (JObject members) = map_of members key"
| "json_get key _ = None"

fun json_u64 :: "json \<Rightarrow> u64 option" where
  "json_u64 (JUnsigned n) = Some n"
| "json_u64 _ = None"

definition usage_field :: "json \<Rightarrow> string \<Rightarrow> u64 option" where
  "usage_field usage key = Option.bind (json_get key usage) json_u64"

definition optional_usage_field :: "json \<Rightarrow> string \<Rightarrow> u64 option" where
  "optional_usage_field usage key = (case json_get key usage of None \<Rightarrow> Some 0 | Some field \<Rightarrow> json_u64 field)"

definition openai_cached_tokens :: "json \<Rightarrow> u64 option" where
  "openai_cached_tokens usage =
     (case json_get ''prompt_tokens_details'' usage of
        None \<Rightarrow> Some 0
      | Some details \<Rightarrow>
          (case json_get ''cached_tokens'' details of None \<Rightarrow> Some 0 | Some v \<Rightarrow> json_u64 v))"

definition read_openai_shape :: "json \<Rightarrow> (u64 \<times> u64 \<times> u64) option" where
  "read_openai_shape usage =
     Option.bind (usage_field usage ''prompt_tokens'') (\<lambda>input.
     Option.bind (usage_field usage ''completion_tokens'') (\<lambda>output.
     Option.bind (openai_cached_tokens usage) (\<lambda>cached.
       if cached > input then None else Some (input, output, cached))))"

definition read_anthropic_shape :: "json \<Rightarrow> (u64 \<times> u64 \<times> u64) option" where
  "read_anthropic_shape usage =
     Option.bind (usage_field usage ''input_tokens'') (\<lambda>base.
     Option.bind (usage_field usage ''output_tokens'') (\<lambda>output.
     Option.bind (optional_usage_field usage ''cache_creation_input_tokens'') (\<lambda>creation.
     Option.bind (optional_usage_field usage ''cache_read_input_tokens'') (\<lambda>read.
       Some (sat_add (sat_add base creation) read, output, read)))))"

definition parse_openai_usage :: "(string \<Rightarrow> json option) \<Rightarrow> string \<Rightarrow> (u64 \<times> u64 \<times> u64) option" where
  "parse_openai_usage from_json body =
     Option.bind (from_json body) (\<lambda>v.
     Option.bind (json_get ''usage'' v) (\<lambda>usage.
       if json_get ''prompt_tokens'' usage \<noteq> None then read_openai_shape usage else read_anthropic_shape usage))"

definition ingest_data_payload ::
  "(string \<Rightarrow> json option) \<Rightarrow> string \<Rightarrow> (u64 \<times> u64 \<times> u64) option \<Rightarrow> (u64 \<times> u64 \<times> u64) option" where
  "ingest_data_payload from_json payload kept =
     (case from_json payload of
        None \<Rightarrow> kept
      | Some v \<Rightarrow>
          (case json_get ''usage'' v of
             None \<Rightarrow> kept
           | Some usage \<Rightarrow> (case read_openai_shape usage of None \<Rightarrow> kept | Some counts \<Rightarrow> Some counts)))"

definition sse_line :: "(string \<Rightarrow> json option) \<Rightarrow> string \<Rightarrow> (u64 \<times> u64 \<times> u64) option \<Rightarrow> (u64 \<times> u64 \<times> u64) option" where
  "sse_line from_json raw_line kept =
     (case strip_prefix ''data:'' (strip_cr raw_line) of
        None \<Rightarrow> kept
      | Some rest \<Rightarrow>
          ingest_data_payload from_json (case strip_prefix '' '' rest of None \<Rightarrow> rest | Some payload \<Rightarrow> payload) kept)"

definition parse_openai_sse_usage :: "(string \<Rightarrow> json option) \<Rightarrow> string \<Rightarrow> (u64 \<times> u64 \<times> u64) option" where
  "parse_openai_sse_usage from_json body = fold (sse_line from_json) (split_on (CHR 0x0A) body) None"

section \<open>What is read\<close>

text \<open>The cached tokens of whatever is read are a part of its input tokens.\<close>

lemma le_sat_add: "a \<le> sat_add b (a :: 'a::len word)"
proof -
  have "unat a \<le> 2 ^ LENGTH('a) - 1" using unsigned_less [of a, where 'a = nat] by linarith
  then show ?thesis by (simp add: word_le_nat_alt sat_simps)
qed

lemma parse_usage_line_inclusive: "parse_usage_line rd line = Some u \<Longrightarrow> pu_cached u \<le> pu_input u"
  by (auto simp: parse_usage_line_def Let_def bind_eq_Some_conv split: if_splits)

lemma read_shape_inclusive:
  "read_openai_shape usage = Some (input, output, cached) \<Longrightarrow> cached \<le> input"
  "read_anthropic_shape usage = Some (input, output, cached) \<Longrightarrow> cached \<le> input"
  by (auto simp: read_openai_shape_def read_anthropic_shape_def bind_eq_Some_conv le_sat_add split: if_splits)

text \<open>Text is decoded line by line: a newline never is a part of a longer sequence.\<close>

lemma byte_at_append:
  "k < length a \<Longrightarrow> byte_at (a @ b) k = byte_at a k" "byte_at (a @ CHR 0x0A # b) (length a) = 10"
  by (simp_all add: byte_at_def nth_append byte_of_def)

lemma utf8_sequence_append:
  assumes "a \<noteq> []"
  shows "utf8_sequence (a @ CHR 0x0A # b) = utf8_sequence a \<and> fst (utf8_sequence a) \<le> length a"
proof -
  let ?x = "a @ CHR 0x0A # b"
  have head: "byte_at ?x 0 = byte_at a 0" using assms byte_at_append(1) [of 0 a] by simp
  have at: "byte_at ?x k = (if k = length a then 10 else byte_at a k)" "k = length a \<Longrightarrow> byte_at a k = 0" if "k \<le> length a" for k
    using that byte_at_append(1) [of k a] byte_at_append(2) [of a b] by (auto simp: byte_at_def [of a])
  have second: "second_byte_ok n (byte_at ?x 1) = second_byte_ok n (byte_at a 1)" for n
    using assms at [of 1] by (cases "length a") (auto simp: second_byte_ok_def)
  have cont: "k \<le> length a \<Longrightarrow> continues ?x k = continues a k" for k using at [of k] by (auto simp: continues_def)
  have long: "second_byte_ok n (byte_at a 1) \<Longrightarrow> 2 \<le> length a" "continues a 2 \<Longrightarrow> 3 \<le> length a" "continues a 3 \<Longrightarrow> 4 \<le> length a" for n
    by (auto simp: byte_at_def second_byte_ok_def continues_def split: if_splits)
  have "1 \<le> length a" using assms by (cases a) simp_all
  then show ?thesis
    using long [simplified] cont [of 2] cont [of 3] by (auto simp: utf8_sequence_def Let_def head second [simplified] split: if_split)
qed

lemma utf8_lossy_newline: "utf8_lossy (CHR 0x0A # b) = CHR 0x0A # utf8_lossy b"
  by (simp add: utf8_sequence_def byte_at_def byte_of_def)

lemma utf8_lossy_append: "utf8_lossy (a @ CHR 0x0A # b) = utf8_lossy a @ CHR 0x0A # utf8_lossy b"
proof (induction a rule: utf8_lossy.induct)
  case 1
  show ?case by (simp add: utf8_lossy_newline del: utf8_lossy.simps(2)) 
next
  case (2 c cs)
  obtain n ok where n: "utf8_sequence (c # cs) = (n, ok)" by (cases "utf8_sequence (c # cs)")
  have "utf8_sequence ((c # cs) @ CHR 0x0A # b) = (n, ok)" "n \<le> length (c # cs)"
    using utf8_sequence_append [of "c # cs" b] n by simp_all
  moreover from this have "take n ((c # cs) @ CHR 0x0A # b) = take n (c # cs)"
      "drop n ((c # cs) @ CHR 0x0A # b) = drop n (c # cs) @ CHR 0x0A # b" by (simp_all only: take_append drop_append) simp_all
  ultimately show ?case using 2 [OF n [symmetric]] n by simp
qed

lemma split_on_append_sep: "split_on c (a @ c # b) = split_on c a @ split_on c b"
  by (induction a) (auto split: list.splits)

lemma str_lines_append: "str_lines (a @ CHR 0x0A # b) = map strip_cr (split_on (CHR 0x0A) a) @ str_lines b"
  by (simp add: str_lines_def split_on_append_sep butlast_append Let_def)

text \<open>So a report read in blocks that end with a newline is the report read at once.\<close>

definition reports_of :: "(string \<Rightarrow> usage_line option) \<Rightarrow> string \<Rightarrow> parsed_usage list" where
  "reports_of from_json bytes = parse_usage_block from_json (utf8_lossy bytes)"

definition ends_line :: "string \<Rightarrow> bool" where
  "ends_line s \<longleftrightarrow> s = [] \<or> last s = CHR 0x0A"

lemma map_filter_append: "List.map_filter f (xs @ ys) = List.map_filter f xs @ List.map_filter f ys"
  by (simp add: List.map_filter_def)

lemma reports_of_append:
  assumes "ends_line a"
  shows "reports_of rd (a @ b) = reports_of rd a @ reports_of rd b"
proof (cases "a = []")
  case True
  then show ?thesis by (simp add: reports_of_def parse_usage_block_def str_lines_def map_filter_append)
next
  case False
  then obtain l where a: "a = l @ [CHR 0x0A]" using assms unfolding ends_line_def by (metis append_butlast_last_id)
  have "str_lines (utf8_lossy a) = map strip_cr (split_on (CHR 0x0A) (utf8_lossy l))"
    unfolding a by (simp add: utf8_lossy_append str_lines_append del: utf8_lossy.simps(2)) (simp add: str_lines_def)
  then show ?thesis
    by (simp add: a reports_of_def parse_usage_block_def utf8_lossy_append str_lines_append map_filter_append del: utf8_lossy.simps(2))
qed

text \<open>Of the frames of a stream the last usable one counts.\<close>

lemma sse_line_frame: "sse_line rd raw kept = (case sse_line rd raw None of None \<Rightarrow> kept | Some counts \<Rightarrow> Some counts)"
  by (simp add: sse_line_def ingest_data_payload_def split: option.splits)

lemma last_frame_wins:
  "fold (sse_line rd) frames kept =
     (case List.map_filter (\<lambda>frame. sse_line rd frame None) frames of [] \<Rightarrow> kept | found \<Rightarrow> Some (last found))"
proof (induction frames arbitrary: kept)
  case (Cons frame frames)
  show ?case
    by (subst fold_simps, subst Cons.IH, subst sse_line_frame)
      (simp add: List.map_filter_def split: option.splits list.splits)
qed (simp add: List.map_filter_def)

text \<open>(C16) What is read of a report can be priced. In whatever way the counts come in - a sentinel line, a whole
  response of either provider's shape, a stream of frames - the cached tokens are a part of the input tokens;
  and a stream counts as its last usable frame, however many frames before it carry counts or are broken.\<close>

theorem cached_tokens_are_input_tokens:
  "(parse_usage_line rd line = Some u \<longrightarrow> pu_cached u \<le> pu_input u)
   \<and> (parse_openai_usage rj body = Some (inputs, outputs, cached) \<longrightarrow> cached \<le> inputs)
   \<and> (parse_openai_sse_usage rj body = Some (inputs, outputs, cached) \<longrightarrow> cached \<le> inputs)
   \<and> parse_openai_sse_usage rj body =
       (case List.map_filter (\<lambda>frame. sse_line rj frame None) (split_on (CHR 0x0A) body) of [] \<Rightarrow> None | found \<Rightarrow> Some (last found))"
proof -
  have frame: "c \<le> i" if "sse_line rj f None = Some (i, q, c)" for f i q c
    using that by (auto simp: sse_line_def ingest_data_payload_def dest: read_shape_inclusive split: option.splits)
  have found: "c \<le> i" if "(i, q, c) \<in> set (List.map_filter (\<lambda>frame. sse_line rj frame None) frames)" for frames i q c
    using that by (auto simp: List.map_filter_def intro: frame)
  have stream: "parse_openai_sse_usage rj body =
       (case List.map_filter (\<lambda>frame. sse_line rj frame None) (split_on (CHR 0x0A) body) of [] \<Rightarrow> None | found \<Rightarrow> Some (last found))"
    by (simp add: parse_openai_sse_usage_def last_frame_wins [of rj _ None])
  moreover have "cached \<le> inputs" if some: "parse_openai_sse_usage rj body = Some (inputs, outputs, cached)"
  proof -
    let ?fs = "List.map_filter (\<lambda>frame. sse_line rj frame None) (split_on (CHR 0x0A) body)"
    have "?fs \<noteq> [] \<and> last ?fs = (inputs, outputs, cached)" using some unfolding stream by (cases ?fs) simp_all
    then show ?thesis using found last_in_set by metis
  qed
  moreover have "parse_openai_usage rj body = Some (inputs, outputs, cached) \<Longrightarrow> cached \<le> inputs"
    by (auto simp: parse_openai_usage_def bind_eq_Some_conv dest: read_shape_inclusive split: if_splits)
  ultimately show ?thesis using parse_usage_line_inclusive by blast
qed

lemma cached_tokens_are_input_tokens_witness:
  "parse_openai_sse_usage (\<lambda>body. if body = ''u'' then Some (JObject [(''usage'', JObject [(''prompt_tokens'', JUnsigned 5),
       (''completion_tokens'', JUnsigned 2)])]) else None) ''data: u'' = Some (5, 2, 0) \<and> (0 :: u64) \<le> 5"
proof -
  let ?rj = "\<lambda>body. if body = ''u'' then Some (JObject [(''usage'', JObject [(''prompt_tokens'', JUnsigned 5),
       (''completion_tokens'', JUnsigned 2)])]) else None"
  have "parse_openai_sse_usage ?rj ''data: u'' = Some (5, 2, 0)" by code_simp
  with cached_tokens_are_input_tokens [of "\<lambda>_. None" "[]" undefined ?rj "''data: u''" 5 2 0] show ?thesis by blast
qed

end
