(* ===== verification/Usage_Drain.thy ===== *)
theory Usage_Drain
  imports Usage_Report Config_Store Resync
begin

text \<open>
  How reported usage reaches the ledger (\<open>domain/supervisor/usage.rs\<close>, the drain plans of
  \<open>domain/supervisor/mod.rs\<close>): the reaper's passes over the captured logs of a supervised process and over
  the queue of its metering listener, the park of a batch the store refused, the truncation of a log, and
  what the supervisor does with a committed breach.

  Files are their bytes. What the operating system decides in a pass - whether a file can be read or
  truncated, where the capture thread's own cursor stands - and what the writer refuses are arguments of
  the pass (\<open>surroundings\<close>). Lengths and cursors of a file are natural numbers.
\<close>

section \<open>A supervised process\<close>

datatype drain_mode = MidRun | TerminalDrain
datatype usage_channel = Stdout | Stderr
datatype capture_mode = CaptureFull | CaptureMetadata | CaptureOff

record observed_pending =
  op_front :: u64
  op_events :: "parsed_usage list"

record supervised =
  sp_run :: run_id
  sp_source :: string
  sp_cursor :: nat
  sp_park :: "(nat \<times> nat) option"
  sp_err_cursor :: nat
  sp_err_park :: "(nat \<times> nat) option"
  sp_seen :: bool
  sp_acp :: bool
  sp_mode :: "capture_mode option"
  sp_observed_park :: "(observed_pending \<times> nat) option"
  sp_generation :: u64
  sp_queue :: "(u64 \<times> u64 \<times> u64) list option"
  sp_minter :: "u64 option"
  sp_fence :: "latch_key list"
  sp_unconfirmed :: bool
  sp_adopted :: bool
  sp_cooperative :: bool

datatype notice =
  CommitFailed string parsed_usage store_error drain_mode
| BlockLost string nat
| BlockSkipped string nat nat nat
| ObservedLost string nat
| ObservedDropped string nat u64 u64
| ObservedSkipped string u64 nat
| LogTruncated string usage_channel
| TruncateDeferred string usage_channel
| Degraded string string
| FenceUp string latch_key
| NoFence string latch_key
| EnforceFailed string breach_action
| Said string

record supervisor =
  sv_engine :: engine
  sv_running :: "string \<Rightarrow> supervised option"
  sv_logs :: "string \<Rightarrow> usage_channel \<Rightarrow> string option"
  sv_deferred :: "usage_channel \<Rightarrow> bool"
  sv_poll_errors :: "string \<Rightarrow> nat"
  sv_requested :: "string \<Rightarrow> nat"
  sv_log_cap :: nat
  sv_mode :: capture_mode
  sv_notices :: "notice list"
  sv_bus :: "bus_event list"

record 'text surroundings =
  io_js :: encoders
  io_tj :: transition_encoders
  io_host :: "'text config_host"
  io_files :: "'text config_files"
  io_usage_json :: "string \<Rightarrow> usage_line option"
  io_totals_fault :: "store_error option"
  io_refuse :: "parsed_usage \<Rightarrow> store_error option"
  io_reads :: bool
  io_tailer :: "usage_channel \<Rightarrow> nat option"
  io_truncates :: bool
  io_now :: string

type_synonym enforcer = "string \<Rightarrow> breach_action \<Rightarrow> transition_cause \<Rightarrow> supervisor \<Rightarrow> supervisor"

definition notify :: "notice \<Rightarrow> supervisor \<Rightarrow> supervisor" where
  "notify n sv = sv\<lparr>sv_notices := sv_notices sv @ [n]\<rparr>"

definition publish_bus :: "bus_event \<Rightarrow> supervisor \<Rightarrow> supervisor" where
  "publish_bus ev sv = sv\<lparr>sv_bus := sv_bus sv @ [ev]\<rparr>"

text \<open>\<open>if let Some(s) = self.running.get_mut(name)\<close>\<close>

definition on_running :: "string \<Rightarrow> (supervised \<Rightarrow> supervised) \<Rightarrow> supervisor \<Rightarrow> supervisor" where
  "on_running name f sv =
     (case sv_running sv name of None \<Rightarrow> sv | Some s \<Rightarrow> sv\<lparr>sv_running := (sv_running sv)(name \<mapsto> f s)\<rparr>)"

section \<open>The channels\<close>

definition channel_cursor :: "usage_channel \<Rightarrow> supervised \<Rightarrow> nat" where
  "channel_cursor ch s = (case ch of Stdout \<Rightarrow> sp_cursor s | Stderr \<Rightarrow> sp_err_cursor s)"

definition channel_set_cursor :: "usage_channel \<Rightarrow> nat \<Rightarrow> supervised \<Rightarrow> supervised" where
  "channel_set_cursor ch c s = (case ch of Stdout \<Rightarrow> s\<lparr>sp_cursor := c\<rparr> | Stderr \<Rightarrow> s\<lparr>sp_err_cursor := c\<rparr>)"

definition channel_park :: "usage_channel \<Rightarrow> supervised \<Rightarrow> (nat \<times> nat) option" where
  "channel_park ch s = (case ch of Stdout \<Rightarrow> sp_park s | Stderr \<Rightarrow> sp_err_park s)"

definition channel_set_park :: "usage_channel \<Rightarrow> (nat \<times> nat) option \<Rightarrow> supervised \<Rightarrow> supervised" where
  "channel_set_park ch p s = (case ch of Stdout \<Rightarrow> s\<lparr>sp_park := p\<rparr> | Stderr \<Rightarrow> s\<lparr>sp_err_park := p\<rparr>)"

definition channel_source :: "usage_channel \<Rightarrow> supervised \<Rightarrow> string" where
  "channel_source ch s = (case ch of Stdout \<Rightarrow> sp_source s | Stderr \<Rightarrow> ''self-reported'')"

lemmas channel_defs = channel_cursor_def channel_set_cursor_def channel_park_def channel_set_park_def channel_source_def

section \<open>What a pass reads\<close>

datatype usage_tail = Unavailable | TailShrunk nat | Tail string

definition read_usage_tail :: "bool \<Rightarrow> string option \<Rightarrow> nat \<Rightarrow> usage_tail" where
  "read_usage_tail reads file cursor =
     (case file of
        None \<Rightarrow> Unavailable
      | Some bytes \<Rightarrow>
          if length bytes < cursor then TailShrunk (length bytes)
          else if length bytes = cursor then Tail []
          else if reads then Tail (drop cursor bytes) else Unavailable)"

datatype drain_plan = Shrunk nat | DrainNothing | Consume nat nat nat

text \<open>\<open>rposition\<close> of a newline, plus one; zero when there is none.\<close>

definition complete_len :: "string \<Rightarrow> nat" where
  "complete_len bytes = length (dropWhile (\<lambda>c. c \<noteq> CHR 0x0A) (rev bytes))"

definition plan_drain :: "string \<Rightarrow> nat \<Rightarrow> drain_mode \<Rightarrow> drain_plan" where
  "plan_drain bytes cursor mode =
     (if cursor > length bytes then Shrunk (length bytes)
      else let tail = drop cursor bytes;
               consumable = (case mode of TerminalDrain \<Rightarrow> length tail | MidRun \<Rightarrow> complete_len tail)
           in if consumable = 0 then DrainNothing
              else Consume cursor (cursor + consumable) (cursor + consumable))"

section \<open>What a breach does\<close>

definition budget_cause :: "governance_decision \<Rightarrow> transition_cause" where
  "budget_cause d =
     (case gd_dimension d of
        Tokens \<Rightarrow> BudgetExceeded (gd_scope d) Tokens (gd_limit d) (gd_observed d) None None None
      | Dollars \<Rightarrow> BudgetExceeded (gd_scope d) Dollars (as_decision_u64 (sint (gd_limit d))) (as_decision_u64 (sint (gd_observed d)))
                    (Some (sint (gd_limit d))) (Some (sint (gd_observed d))) (Some Estimated))"

definition note_block :: "string \<Rightarrow> latch_key \<Rightarrow> supervisor \<Rightarrow> supervisor" where
  "note_block name reason sv =
     (case sv_running sv name of
        None \<Rightarrow> sv
      | Some s \<Rightarrow>
          if sp_queue s \<noteq> None then
            notify (FenceUp name reason) (on_running name (\<lambda>s. s\<lparr>sp_fence := sp_fence s @ [reason]\<rparr>) sv)
          else notify (NoFence name reason) sv)"

definition apply_breach :: "enforcer \<Rightarrow> string \<Rightarrow> committed_breach \<Rightarrow> supervisor \<Rightarrow> supervisor" where
  "apply_breach enforce name b sv =
     (let d = cb_decision b in
      case gd_action d of
        ActBlock \<Rightarrow> note_block name (LatchKey (gd_dimension d) (gd_scope d)) sv
      | ActWarn \<Rightarrow> sv
      | action \<Rightarrow> enforce name action (budget_cause d) sv)"

definition apply_evaluation :: "enforcer \<Rightarrow> string \<Rightarrow> evaluation \<Rightarrow> supervisor \<Rightarrow> supervisor" where
  "apply_evaluation enforce name evn sv =
     (let sv = fold (\<lambda>detail. notify (Degraded name detail)) (ev_degraded evn) sv;
          sv = fold (\<lambda>b. publish_bus (BusBreach (cb_event b))) (ev_breaches evn) sv;
          sv = fold (\<lambda>(ev, _). publish_bus (BusRun ev)) (ev_run_events evn) sv
      in fold (apply_breach enforce name) (filter cb_process (ev_breaches evn)) sv)"

section \<open>One event\<close>

definition eval_input_of ::
  "'text surroundings \<Rightarrow> string \<Rightarrow> run_id \<Rightarrow> string \<Rightarrow> supervisor \<Rightarrow> eval_input" where
  "eval_input_of io name run source sv =
     (let effective = effective_config (io_host io) (en_db (sv_engine sv)) (io_files io) name [];
          (token_budget, token_action) =
            (case effective of Inr m \<Rightarrow> resolve_token_budget m | Inl _ \<Rightarrow> (\<lparr>tb_per_run = None, tb_cumulative = None\<rparr>, ActPause));
          (rate, cost_cap, cost_action) =
            (case effective of Inr m \<Rightarrow> resolve_cost m | Inl _ \<Rightarrow> (None, \<lparr>cc_per_run = None, cc_cumulative = None\<rparr>, ActPause))
      in \<lparr>pi_name = name, pi_run = run, pi_source = source, pi_budget = token_budget, pi_token_action = token_action,
          pi_rate = rate, pi_cap = cost_cap, pi_cost_action = cost_action,
          pi_supervised = sv_running sv name \<noteq> None,
          pi_fenced = (case sv_running sv name of None \<Rightarrow> False | Some s \<Rightarrow> sp_queue s \<noteq> None)\<rparr>)"

definition ingest_usage ::
  "'text surroundings \<Rightarrow> enforcer \<Rightarrow> string \<Rightarrow> run_id \<Rightarrow> string \<Rightarrow> drain_mode \<Rightarrow> parsed_usage \<Rightarrow> supervisor
     \<Rightarrow> (store_error + usage_update_event option) \<times> supervisor" where
  "ingest_usage io enforce name run source mode parsed sv =
     (let event = assemble_usage_event parsed name run source (io_now io);
          generation = (case sv_running sv name of None \<Rightarrow> 0 | Some s \<Rightarrow> sp_generation s);
          input = eval_input_of io name run source sv
      in case (case io_refuse io parsed of
                 Some e \<Rightarrow> Inl e
               | None \<Rightarrow> commit_usage (io_js io) (io_totals_fault io) event generation input (io_now io) (sv_engine sv)) of
           Inl e \<Rightarrow> (Inl e, notify (CommitFailed name parsed e mode) sv)
         | Inr (None, _, _, en) \<Rightarrow> (Inr None, sv\<lparr>sv_engine := en\<rparr>)
         | Inr (Some (ev, _), evn, raises, en) \<Rightarrow>
             (let update = usage_update_event_new ev;
                  sv = on_running name (\<lambda>s. s\<lparr>sp_fence := sp_fence s @ raises\<rparr>) (sv\<lparr>sv_engine := en\<rparr>)
              in (Inr (Some update), apply_evaluation enforce name evn (publish_bus (BusUsage update) sv))))"

text \<open>The drains' loop: how many were committed, and the error it stopped at.\<close>

fun ingest_all ::
  "(parsed_usage \<Rightarrow> supervisor \<Rightarrow> (store_error + 'o) \<times> supervisor) \<Rightarrow> parsed_usage list \<Rightarrow> supervisor
     \<Rightarrow> nat \<times> store_error option \<times> supervisor" where
  "ingest_all ingest [] sv = (0, None, sv)"
| "ingest_all ingest (u # us) sv =
     (case ingest u sv of
        (Inl e, sv) \<Rightarrow> (0, Some e, sv)
      | (Inr _, sv) \<Rightarrow> (case ingest_all ingest us sv of (n, e, sv) \<Rightarrow> (Suc n, e, sv)))"

section \<open>The log drains\<close>

definition usage_park_max_attempts :: nat where "usage_park_max_attempts = 3"
definition observed_park_max_events :: nat where "observed_park_max_events = 1024"

definition is_busy :: "store_error \<Rightarrow> bool" where
  "is_busy e = (case e of Busy _ \<Rightarrow> True | _ \<Rightarrow> False)"

text \<open>The attempts counted against one position: an earlier park elsewhere does not count, and a busy
  writer spends none.\<close>

definition next_attempts :: "bool \<Rightarrow> nat option \<Rightarrow> nat" where
  "next_attempts busy earlier =
     (case earlier of Some n \<Rightarrow> if busy then n else n + 1 | None \<Rightarrow> if busy then 0 else 1)"

definition parked_at :: "nat \<Rightarrow> (nat \<times> nat) option \<Rightarrow> nat option" where
  "parked_at cursor park = (case park of Some (c, n) \<Rightarrow> if c = cursor then Some n else None | None \<Rightarrow> None)"

definition settle_block ::
  "string \<Rightarrow> drain_mode \<Rightarrow> usage_channel \<Rightarrow> nat \<Rightarrow> nat \<Rightarrow> nat \<Rightarrow> nat \<times> store_error option \<times> supervisor \<Rightarrow> supervisor" where
  "settle_block name mode ch cursor consumed reported result =
     (case result of (committed, err, sv) \<Rightarrow>
        (let past = on_running name (channel_set_park ch None \<circ> channel_set_cursor ch (cursor + consumed));
             lost = reported - committed;
             busy = (case err of Some e \<Rightarrow> is_busy e | None \<Rightarrow> False)
         in if committed = reported then past sv
            else if mode = TerminalDrain then notify (BlockLost name lost) sv
            else let attempts = next_attempts busy
                       (Option.bind (sv_running sv name) (\<lambda>s. parked_at cursor (channel_park ch s)))
                 in if usage_park_max_attempts \<le> attempts then notify (BlockSkipped name lost cursor attempts) (past sv)
                    else on_running name (channel_set_park ch (Some (cursor, attempts))) sv))"

definition should_truncate :: "nat \<Rightarrow> nat \<Rightarrow> bool" where
  "should_truncate len cap \<longleftrightarrow> cap \<le> len"

definition maybe_truncate_raw_log :: "'text surroundings \<Rightarrow> string \<Rightarrow> usage_channel \<Rightarrow> supervisor \<Rightarrow> supervisor" where
  "maybe_truncate_raw_log io name ch sv =
     (case sv_logs sv name ch of
        None \<Rightarrow> sv
      | Some bytes \<Rightarrow>
          if \<not> should_truncate (length bytes) (sv_log_cap sv) then sv\<lparr>sv_deferred := (sv_deferred sv)(ch := False)\<rparr>
          else (case sv_running sv name of
                  None \<Rightarrow> sv
                | Some s \<Rightarrow>
                    if channel_cursor ch s < length bytes then sv
                    else if (case io_tailer io ch of Some t \<Rightarrow> t | None \<Rightarrow> length bytes) < length bytes then sv
                    else if io_truncates io then
                      notify (LogTruncated name ch)
                        (on_running name (channel_set_cursor ch 0)
                          (sv\<lparr>sv_deferred := (sv_deferred sv)(ch := False),
                              sv_logs := (sv_logs sv)(name := (sv_logs sv name)(ch := Some []))\<rparr>))
                    else (if sv_deferred sv ch then id else notify (TruncateDeferred name ch))
                           (sv\<lparr>sv_deferred := (sv_deferred sv)(ch := True)\<rparr>)))"

definition drain_channel ::
  "'text surroundings \<Rightarrow> enforcer \<Rightarrow> string \<Rightarrow> drain_mode \<Rightarrow> usage_channel \<Rightarrow> supervisor \<Rightarrow> supervisor" where
  "drain_channel io enforce name mode ch sv =
     (case sv_running sv name of
        None \<Rightarrow> sv
      | Some s \<Rightarrow>
          (let cursor = channel_cursor ch s in
           case read_usage_tail (io_reads io) (sv_logs sv name ch) cursor of
             Unavailable \<Rightarrow> sv
           | TailShrunk n \<Rightarrow> on_running name (channel_set_cursor ch n) sv
           | Tail bytes \<Rightarrow>
               maybe_truncate_raw_log io name ch
                 (case plan_drain bytes 0 mode of
                    Consume from_byte to_byte consumed \<Rightarrow>
                      (let parsed = parse_usage_block (io_usage_json io) (utf8_lossy (take (to_byte - from_byte) (drop from_byte bytes)));
                           sv = (if parsed \<noteq> [] then on_running name (\<lambda>s. s\<lparr>sp_seen := True\<rparr>) sv else sv)
                       in settle_block name mode ch cursor consumed (length parsed)
                            (ingest_all (ingest_usage io enforce name (sp_run s) (channel_source ch s) mode) parsed sv))
                  | DrainNothing \<Rightarrow> sv
                  | Shrunk _ \<Rightarrow> sv)))"

definition drain_self_reported_for ::
  "'text surroundings \<Rightarrow> enforcer \<Rightarrow> string \<Rightarrow> drain_mode \<Rightarrow> supervisor \<Rightarrow> supervisor" where
  "drain_self_reported_for io enforce name mode sv =
     (let sv = drain_channel io enforce name mode Stdout sv
      in if (case sv_running sv name of Some s \<Rightarrow> sp_acp s | None \<Rightarrow> False)
         then drain_channel io enforce name mode Stderr sv else sv)"

section \<open>The observed drain\<close>

fun mint_all :: "u64 \<Rightarrow> (u64 \<times> u64 \<times> u64) list \<Rightarrow> parsed_usage list \<times> u64" where
  "mint_all counter [] = ([], counter)"
| "mint_all counter (counts # others) =
     (case mint_observed counter counts of (u, counter) \<Rightarrow>
        (case mint_all counter others of (us, counter) \<Rightarrow> (u # us, counter)))"

definition cap_observed_park_buffer :: "string \<Rightarrow> parsed_usage list \<Rightarrow> supervisor \<Rightarrow> parsed_usage list \<times> supervisor" where
  "cap_observed_park_buffer name events sv =
     (let overflow = length events - observed_park_max_events
      in if 0 < overflow then
           (drop overflow events,
            notify (ObservedDropped name overflow (pu_sequence (hd events)) (pu_sequence (events ! (overflow - 1)))) sv)
         else (events, sv))"

definition set_observed_park :: "(observed_pending \<times> nat) option \<Rightarrow> supervised \<Rightarrow> supervised" where
  "set_observed_park p s = s\<lparr>sp_observed_park := p\<rparr>"

definition observed_front :: "u64 \<Rightarrow> (observed_pending \<times> nat) option \<Rightarrow> nat option" where
  "observed_front sequence park =
     (case park of Some (pending, n) \<Rightarrow> if op_front pending = sequence then Some n else None | None \<Rightarrow> None)"

definition park_observed ::
  "string \<Rightarrow> bool \<Rightarrow> parsed_usage list \<Rightarrow> supervisor \<Rightarrow> supervisor" where
  "park_observed name busy tail sv =
     (case cap_observed_park_buffer name tail sv of
        ([], sv) \<Rightarrow> on_running name (set_observed_park None) sv
      | (front # rest, sv) \<Rightarrow>
          (let attempts = next_attempts busy
                 (Option.bind (sv_running sv name) (\<lambda>s. observed_front (pu_sequence front) (sp_observed_park s)))
           in if usage_park_max_attempts \<le> attempts then
                on_running name (set_observed_park
                  (case rest of [] \<Rightarrow> None | u # _ \<Rightarrow> Some (\<lparr>op_front = pu_sequence u, op_events = rest\<rparr>, 1)))
                  (notify (ObservedSkipped name (pu_sequence front) attempts) sv)
              else on_running name (set_observed_park
                     (Some (\<lparr>op_front = pu_sequence front, op_events = front # rest\<rparr>, attempts))) sv))"

definition drain_observed_for ::
  "'text surroundings \<Rightarrow> enforcer \<Rightarrow> string \<Rightarrow> drain_mode \<Rightarrow> supervisor \<Rightarrow> supervisor" where
  "drain_observed_for io enforce name mode sv =
     (case sv_running sv name of
        None \<Rightarrow> sv
      | Some s \<Rightarrow>
          (case (sp_queue s, sp_minter s) of
             (Some queue, Some counter) \<Rightarrow>
               (let (minted, counter') = mint_all counter queue;
                    events = (case sp_observed_park s of Some (pending, _) \<Rightarrow> op_events pending | None \<Rightarrow> []) @ minted;
                    sv = on_running name (\<lambda>s. s\<lparr>sp_queue := Some [], sp_minter := Some counter'\<rparr>) sv
                in if events = [] then sv
                   else (case ingest_all (ingest_usage io enforce name (sp_run s) (sp_source s) mode) events sv of
                           (committed, err, sv) \<Rightarrow>
                             if committed = length events then on_running name (set_observed_park None) sv
                             else if mode = TerminalDrain then
                               on_running name (set_observed_park None)
                                 (notify (ObservedLost name (length events - committed)) sv)
                             else park_observed name (case err of Some e \<Rightarrow> is_busy e | None \<Rightarrow> False)
                                    (drop committed events) sv))
           | _ \<Rightarrow> sv))"

text \<open>The reaper's passes over every held process, in the map's order.\<close>

definition drain_usage_all :: "'text surroundings \<Rightarrow> enforcer \<Rightarrow> string list \<Rightarrow> supervisor \<Rightarrow> supervisor" where
  "drain_usage_all io enforce names sv = fold (\<lambda>name. drain_self_reported_for io enforce name MidRun) names sv"

definition drain_observed_all :: "'text surroundings \<Rightarrow> enforcer \<Rightarrow> string list \<Rightarrow> supervisor \<Rightarrow> supervisor" where
  "drain_observed_all io enforce names sv = fold (\<lambda>name. drain_observed_for io enforce name MidRun) names sv"

end
