(* ===== verification/Manifest.thy ===== *)
theory Manifest
  imports Config_Delivery
begin

text \<open>
  The manifest of an adapter (\<open>hekma-adapter-api/src/manifest.rs\<close>, \<open>capability.rs\<close>, \<open>metering.rs\<close> and the
  version negotiation of \<open>lib.rs\<close>) as the TOML decoder hands it over, and its validation: the mandatory
  sections in the order of the diagnostics, and the value rules of \<open>[readiness]\<close>, \<open>[liveness]\<close>,
  \<open>[exit_codes]\<close> and \<open>[drain]\<close>.

  A refusal names the field as the code does; the sentence after it is a constructor of \<open>refusal\<close> that
  carries the values the sentence quotes. Paths are read as on Unix. The semver parser is third-party code:
  an argument that gives the major version of a text it accepts. The literal parser of the standard
  library's \<open>IpAddr\<close> is written out.
\<close>

section \<open>Literal addresses\<close>

definition digit_of :: "nat \<Rightarrow> char \<Rightarrow> nat option" where
  "digit_of radix c =
     (let b = byte_of c;
          d = (if 48 \<le> b \<and> b \<le> 57 then b - 48 else if 97 \<le> b \<and> b \<le> 122 then b - 87
               else if 65 \<le> b \<and> b \<le> 90 then b - 55 else radix)
      in if d < radix then Some d else None)"

definition read_number :: "nat \<Rightarrow> nat \<Rightarrow> bool \<Rightarrow> nat \<Rightarrow> string \<Rightarrow> (nat \<times> string) option" where
  "read_number radix max_digits allow_zero_prefix bound s =
     (let digits = takeWhile (\<lambda>c. digit_of radix c \<noteq> None) s;
          v = foldl (\<lambda>acc c. acc * radix + the (digit_of radix c)) 0 digits
      in if digits = [] \<or> max_digits < length digits then None
         else if \<not> allow_zero_prefix \<and> hd digits = CHR ''0'' \<and> 1 < length digits then None
         else if v < bound then Some (v, drop (length digits) s) else None)"

definition read_separator :: "char \<Rightarrow> nat \<Rightarrow> (string \<Rightarrow> ('a \<times> string) option) \<Rightarrow> string \<Rightarrow> ('a \<times> string) option" where
  "read_separator sep index inner s =
     (if index = 0 then inner s
      else (case s of [] \<Rightarrow> None | c # cs \<Rightarrow> if c = sep then inner cs else None))"

fun read_octets :: "nat \<Rightarrow> nat \<Rightarrow> string \<Rightarrow> (nat list \<times> string) option" where
  "read_octets index 0 s = Some ([], s)"
| "read_octets index (Suc k) s =
     (case read_separator (CHR ''.'') index (read_number 10 3 False 256) s of
        None \<Rightarrow> None
      | Some (d, s) \<Rightarrow> map_option (\<lambda>(ds, s). (d # ds, s)) (read_octets (Suc index) k s))"

definition read_ipv4 :: "string \<Rightarrow> (nat list \<times> string) option" where
  "read_ipv4 s = read_octets 0 4 s"

fun read_groups :: "nat \<Rightarrow> nat \<Rightarrow> string \<Rightarrow> nat list \<times> bool \<times> string" where
  "read_groups index 0 s = ([], False, s)"
| "read_groups index (Suc k) s =
     (case (if k = 0 then None else read_separator (CHR '':'') index read_ipv4 s) of
        Some (os, s) \<Rightarrow> ([256 * os ! 0 + os ! 1, 256 * os ! 2 + os ! 3], True, s)
      | None \<Rightarrow>
          (case read_separator (CHR '':'') index (read_number 16 4 True 65536) s of
             None \<Rightarrow> ([], False, s)
           | Some (g, s) \<Rightarrow> (case read_groups (Suc index) k s of (gs, v4, s) \<Rightarrow> (g # gs, v4, s))))"

definition read_ipv6 :: "string \<Rightarrow> (nat list \<times> string) option" where
  "read_ipv6 s =
     (case read_groups 0 8 s of
        (head, v4, s) \<Rightarrow>
          if length head = 8 then Some (head, s)
          else if v4 then None
          else (case s of
                  a # b # s \<Rightarrow>
                    if a = CHR '':'' \<and> b = CHR '':'' then
                      (case read_groups 0 (8 - (length head + 1)) s of
                         (tail, _, s) \<Rightarrow> Some (head @ replicate (8 - length head - length tail) 0 @ tail, s))
                    else None
                | _ \<Rightarrow> None))"

datatype ip_addr = V4 "nat list" | V6 "nat list"

definition parse_ip :: "string \<Rightarrow> ip_addr option" where
  "parse_ip s =
     (case read_ipv4 s of
        Some (os, rest) \<Rightarrow> if rest = [] then Some (V4 os) else None
      | None \<Rightarrow> (case read_ipv6 s of Some (gs, []) \<Rightarrow> Some (V6 gs) | _ \<Rightarrow> None))"

fun is_loopback :: "ip_addr \<Rightarrow> bool" where
  "is_loopback (V4 os) \<longleftrightarrow> os ! 0 = 127"
| "is_loopback (V6 gs) \<longleftrightarrow> gs = [0, 0, 0, 0, 0, 0, 0, 1]"

definition parse_u16 :: "string \<Rightarrow> u16 option" where
  "parse_u16 s =
     (let body = (case s of c # cs \<Rightarrow> if c = CHR ''+'' then cs else s | [] \<Rightarrow> [])
      in if body = [] then None
         else (case digits_value 0 body of
                 Some n \<Rightarrow> if n < 2 ^ 16 then Some (word_of_nat n) else None
               | None \<Rightarrow> None))"

section \<open>Refusals\<close>

datatype authority_refusal =
  UserInfo | TrailingAfterBracket | UnclosedBracket | BareIpv6 | NotLiteral string | NotLoopback ip_addr | BadPort string

datatype readiness_kind = HttpGetKind | FileFreshKind | LogContainsKind

datatype refusal =
  EmptyValue
| HasControlChar
| TimeoutRange u64
| NotHttpUrl string
| HasFragment string
| NoHost string
| BadAuthority string authority_refusal
| NotAStatus u16
| ZeroAge
| AgeAboveTimeout u64 u64
| ForeignField readiness_kind
| BothChecks
| NoCheck
| BelowFloor u64
| AboveCap u64
| CodeRange u16
| CodeTwice u16
| CodesInBoth "u16 list"
| DrainRange u64
| AbsolutePath string
| ParentSegment string
| NotSemver string
| BadKind string
| Unpaired string string
| BadMapping mapping_refusal
| SharedFile string

datatype manifest_error = MissingSection string | InvalidField string refusal

definition required_str :: "string option \<Rightarrow> string \<Rightarrow> manifest_error + string" where
  "required_str v field =
     (case v of
        Some s \<Rightarrow> if trim s \<noteq> [] then Inr s else Inl (InvalidField field EmptyValue)
      | None \<Rightarrow> Inl (MissingSection field))"

text \<open>The C0 and C1 control characters, on the UTF-8 characters of the text.\<close>

definition is_control_char :: "string \<Rightarrow> bool" where
  "is_control_char ch =
     (case map byte_of ch of
        [b] \<Rightarrow> b \<le> 31 \<or> b = 127
      | [a, b] \<Rightarrow> a = 194 \<and> 128 \<le> b \<and> b \<le> 159
      | _ \<Rightarrow> False)"

definition contains_control_char :: "string \<Rightarrow> bool" where
  "contains_control_char s = list_ex is_control_char (utf8_chars s)"

section \<open>URLs\<close>

text \<open>\<open>rsplit_once\<close>: before and after the last occurrence.\<close>

definition rsplit_once :: "char \<Rightarrow> string \<Rightarrow> (string \<times> string) option" where
  "rsplit_once c s = (case split_once c (rev s) of (after, Some before) \<Rightarrow> Some (rev before, rev after) | _ \<Rightarrow> None)"

definition url_scheme :: string where "url_scheme = ''http://''"

text \<open>\<open>strip_prefix(\"http://\").unwrap_or(url).split(['/', '?']).next()\<close>\<close>

definition url_authority :: "string \<Rightarrow> string" where
  "url_authority url =
     takeWhile (\<lambda>c. c \<noteq> CHR ''/'' \<and> c \<noteq> CHR ''?'') (case strip_prefix url_scheme url of Some rest \<Rightarrow> rest | None \<Rightarrow> url)"

definition split_host_port :: "string \<Rightarrow> authority_refusal + (string \<times> string option)" where
  "split_host_port authority =
     (case strip_prefix ''['' authority of
        Some rest \<Rightarrow>
          (case split_once (CHR '']'') rest of
             (literal, Some tail) \<Rightarrow>
               (case strip_prefix '':'' tail of
                  Some p \<Rightarrow> Inr (literal, Some p)
                | None \<Rightarrow> if tail = [] then Inr (literal, None) else Inl TrailingAfterBracket)
           | (_, None) \<Rightarrow> Inl UnclosedBracket)
      | None \<Rightarrow>
          (case rsplit_once (CHR '':'') authority of
             Some (h, p) \<Rightarrow> if CHR '':'' \<notin> set h then Inr (h, Some p) else Inl BareIpv6
           | None \<Rightarrow> Inr (authority, None)))"

definition loopback_authority :: "string \<Rightarrow> authority_refusal + unit" where
  "loopback_authority authority =
     (if CHR ''@'' \<in> set authority then Inl UserInfo
      else rbind (split_host_port authority) (\<lambda>(host, port).
        (case parse_ip host of
           None \<Rightarrow> Inl (NotLiteral host)
         | Some addr \<Rightarrow>
             if \<not> is_loopback addr then Inl (NotLoopback addr)
             else (case port of
                     None \<Rightarrow> Inr ()
                   | Some p \<Rightarrow> (case parse_u16 p of
                        Some n \<Rightarrow> if 0 < n then Inr () else Inl (BadPort p)
                      | None \<Rightarrow> Inl (BadPort p))))))"

definition require_loopback_authority :: "string \<Rightarrow> string \<Rightarrow> string \<Rightarrow> manifest_error + unit" where
  "require_loopback_authority authority url field =
     (case loopback_authority authority of
        Inl why \<Rightarrow> Inl (InvalidField field (BadAuthority url why))
      | Inr _ \<Rightarrow> Inr ())"

section \<open>The \<open>[readiness]\<close> section\<close>

fun readiness_kind_as_str :: "readiness_kind \<Rightarrow> string" where
  "readiness_kind_as_str HttpGetKind = ''http-get''"
| "readiness_kind_as_str FileFreshKind = ''file-fresh''"
| "readiness_kind_as_str LogContainsKind = ''log-contains''"

record readiness =
  rq_kind :: readiness_kind
  rq_timeout_ms :: u64
  rq_url :: "string option"
  rq_expected_status :: "u16 option"
  rq_path :: "string option"
  rq_max_age_ms :: "u64 option"
  rq_line :: "string option"

datatype readiness_probe = HttpGetProbe string u16 | FileFreshProbe string u64 | LogContainsProbe string

record readiness_gate =
  rg_timeout_ms :: u64
  rg_probe :: readiness_probe

definition in_readiness :: "string \<Rightarrow> string" where
  "in_readiness field = field @ '' field in the `[readiness]` section''"

definition control_char_error :: "string \<Rightarrow> manifest_error" where
  "control_char_error field = InvalidField (in_readiness field) HasControlChar"

definition guarded :: "bool \<Rightarrow> manifest_error \<Rightarrow> manifest_error + unit" where
  "guarded ok e = (if ok then Inr () else Inl e)"

definition status_ok :: "u16 \<Rightarrow> bool" where
  "status_ok s \<longleftrightarrow> 100 \<le> s \<and> s \<le> 599"

definition http_probe :: "readiness \<Rightarrow> manifest_error + readiness_probe" where
  "http_probe r =
     (let field = in_readiness ''`url`'' in
      rbind (required_str (rq_url r) field) (\<lambda>url.
      rbind (guarded (\<not> contains_control_char url) (control_char_error ''`url`'')) (\<lambda>_.
      rbind (guarded (strip_prefix url_scheme url \<noteq> None) (InvalidField field (NotHttpUrl url))) (\<lambda>_.
      rbind (guarded (CHR ''#'' \<notin> set url) (InvalidField field (HasFragment url))) (\<lambda>_.
      rbind (guarded (url_authority url \<noteq> []) (InvalidField field (NoHost url))) (\<lambda>_.
      rbind (require_loopback_authority (url_authority url) url field) (\<lambda>_.
        (case rq_expected_status r of
           None \<Rightarrow> Inl (MissingSection (in_readiness ''`expected_status`'' @ '' (the http-get probe's ready status)''))
         | Some status \<Rightarrow>
             rbind (guarded (status_ok status) (InvalidField (in_readiness ''`expected_status`'') (NotAStatus status))) (\<lambda>_.
               Inr (HttpGetProbe url status))))))))))"

definition file_probe :: "readiness \<Rightarrow> manifest_error + readiness_probe" where
  "file_probe r =
     rbind (required_str (rq_path r) (in_readiness ''`path`'')) (\<lambda>path.
     rbind (guarded (\<not> contains_control_char path) (control_char_error ''`path`'')) (\<lambda>_.
       (case rq_max_age_ms r of
          None \<Rightarrow> Inl (MissingSection (in_readiness ''`max_age_ms`'' @ '' (the file-fresh probe's maximum age)''))
        | Some age \<Rightarrow>
            rbind (guarded (age \<noteq> 0) (InvalidField (in_readiness ''`max_age_ms`'') ZeroAge)) (\<lambda>_.
            rbind (guarded (age \<le> rq_timeout_ms r)
                     (InvalidField (in_readiness ''`max_age_ms`'') (AgeAboveTimeout age (rq_timeout_ms r)))) (\<lambda>_.
              Inr (FileFreshProbe path age))))))"

definition log_probe :: "readiness \<Rightarrow> manifest_error + readiness_probe" where
  "log_probe r =
     rbind (required_str (rq_line r) (in_readiness ''`line`'')) (\<lambda>line.
     rbind (guarded (\<not> contains_control_char line) (control_char_error ''`line`'')) (\<lambda>_.
       Inr (LogContainsProbe line)))"

definition foreign_fields :: "readiness \<Rightarrow> (string \<times> bool) list" where
  "foreign_fields r =
     (let url = (''`url`'', rq_url r \<noteq> None); status = (''`expected_status`'', rq_expected_status r \<noteq> None);
          path = (''`path`'', rq_path r \<noteq> None); age = (''`max_age_ms`'', rq_max_age_ms r \<noteq> None);
          line = (''`line`'', rq_line r \<noteq> None)
      in case rq_kind r of
           HttpGetKind \<Rightarrow> [path, age, line]
         | FileFreshKind \<Rightarrow> [url, status, line]
         | LogContainsKind \<Rightarrow> [url, status, path, age])"

definition gate :: "readiness \<Rightarrow> manifest_error + readiness_gate" where
  "gate r =
     rbind (guarded (rq_timeout_ms r \<noteq> 0 \<and> rq_timeout_ms r \<le> 600000)
              (InvalidField (in_readiness ''`timeout_ms`'') (TimeoutRange (rq_timeout_ms r)))) (\<lambda>_.
     rbind (case rq_kind r of
              HttpGetKind \<Rightarrow> http_probe r | FileFreshKind \<Rightarrow> file_probe r | LogContainsKind \<Rightarrow> log_probe r) (\<lambda>probe.
       (case find snd (foreign_fields r) of
          Some (field, _) \<Rightarrow> Inl (InvalidField (in_readiness field) (ForeignField (rq_kind r)))
        | None \<Rightarrow> Inr \<lparr>rg_timeout_ms = rq_timeout_ms r, rg_probe = probe\<rparr>)))"

section \<open>The \<open>[liveness]\<close> section\<close>

record heartbeat_file_check =
  hb_path :: string
  hb_max_age_ms :: u64

record http_get_check =
  hg_url :: string
  hg_expected_status :: u16
  hg_max_age_ms :: u64

datatype liveness_check = HeartbeatFile heartbeat_file_check | HttpGet http_get_check

fun check_max_age_ms :: "liveness_check \<Rightarrow> u64" where
  "check_max_age_ms (HeartbeatFile h) = hb_max_age_ms h"
| "check_max_age_ms (HttpGet h) = hg_max_age_ms h"

record liveness =
  lq_heartbeat_file :: "heartbeat_file_check option"
  lq_http_get :: "http_get_check option"

definition liveness_age_ok :: "u64 \<Rightarrow> manifest_error + unit" where
  "liveness_age_ok age =
     (let field = ''`max_age_ms` field in the `[liveness]` section'' in
      rbind (guarded (250 \<le> age) (InvalidField field (BelowFloor age))) (\<lambda>_.
        guarded (age \<le> 600000) (InvalidField field (AboveCap age))))"

definition heartbeat_ok :: "heartbeat_file_check \<Rightarrow> manifest_error + liveness_check" where
  "heartbeat_ok h =
     (let field = ''`path` field in the `[liveness.heartbeat_file]` sub-table'' in
      rbind (required_str (Some (hb_path h)) field) (\<lambda>path.
      rbind (guarded (\<not> contains_control_char path) (InvalidField field HasControlChar)) (\<lambda>_.
      rbind (liveness_age_ok (hb_max_age_ms h)) (\<lambda>_. Inr (HeartbeatFile h)))))"

definition http_get_ok :: "http_get_check \<Rightarrow> manifest_error + liveness_check" where
  "http_get_ok h =
     (let field = ''`url` field in the `[liveness.http_get]` sub-table'' in
      rbind (required_str (Some (hg_url h)) field) (\<lambda>url.
      rbind (guarded (\<not> contains_control_char url) (InvalidField field HasControlChar)) (\<lambda>_.
      rbind (guarded (strip_prefix url_scheme url \<noteq> None) (InvalidField field (NotHttpUrl url))) (\<lambda>_.
      rbind (guarded (CHR ''#'' \<notin> set url) (InvalidField field (HasFragment url))) (\<lambda>_.
      rbind (guarded (url_authority url \<noteq> []) (InvalidField field (NoHost url))) (\<lambda>_.
      rbind (require_loopback_authority (url_authority url) url field) (\<lambda>_.
      rbind (guarded (status_ok (hg_expected_status h))
               (InvalidField ''`expected_status` field in the `[liveness.http_get]` sub-table''
                 (NotAStatus (hg_expected_status h)))) (\<lambda>_.
      rbind (liveness_age_ok (hg_max_age_ms h)) (\<lambda>_. Inr (HttpGet h))))))))))"

definition liveness_check_of :: "liveness \<Rightarrow> manifest_error + liveness_check" where
  "liveness_check_of l =
     (case (lq_heartbeat_file l, lq_http_get l) of
        (Some _, Some _) \<Rightarrow> Inl (InvalidField ''`[liveness]` section'' BothChecks)
      | (None, None) \<Rightarrow> Inl (InvalidField ''`[liveness]` section'' NoCheck)
      | (Some h, None) \<Rightarrow> heartbeat_ok h
      | (None, Some h) \<Rightarrow> http_get_ok h)"

section \<open>The \<open>[exit_codes]\<close> section\<close>

datatype exit_class = RestartRequestedClass | CleanClass

record exit_codes =
  ec_restart_requested :: "u16 list"
  ec_clean :: "u16 list"

text \<open>\<open>ExitCodeClasses\<close> is the same pair of lists, resolved.\<close>

definition class_of :: "exit_codes \<Rightarrow> u16 \<Rightarrow> exit_class option" where
  "class_of classes code =
     (case (code \<in> set (ec_restart_requested classes), code \<in> set (ec_clean classes)) of
        (True, False) \<Rightarrow> Some RestartRequestedClass
      | (False, True) \<Rightarrow> Some CleanClass
      | _ \<Rightarrow> None)"

text \<open>The first element that is there already: \<open>BTreeSet::insert\<close> in order.\<close>

fun first_repeat :: "'a list \<Rightarrow> 'a list \<Rightarrow> 'a option" where
  "first_repeat seen [] = None"
| "first_repeat seen (x # xs) = (if x \<in> set seen then Some x else first_repeat (x # seen) xs)"

definition exit_list_ok :: "string \<Rightarrow> u16 list \<Rightarrow> manifest_error + unit" where
  "exit_list_ok field codes =
     (let field = field @ '' list in the `[exit_codes]` section'' in
      (case find (\<lambda>c. 255 < c) codes of
         Some c \<Rightarrow> Inl (InvalidField field (CodeRange c))
       | None \<Rightarrow>
           (case first_repeat [] codes of
              Some c \<Rightarrow> Inl (InvalidField field (CodeTwice c))
            | None \<Rightarrow> Inr ())))"

definition exit_classes :: "exit_codes \<Rightarrow> manifest_error + exit_codes" where
  "exit_classes e =
     rbind (exit_list_ok ''`restart_requested`'' (ec_restart_requested e)) (\<lambda>_.
     rbind (exit_list_ok ''`clean`'' (ec_clean e)) (\<lambda>_.
       (let overlap = filter (\<lambda>c. c \<in> set (ec_clean e)) (ec_restart_requested e)
        in if overlap \<noteq> [] then Inl (InvalidField ''`[exit_codes]` section'' (CodesInBoth overlap))
           else Inr e)))"

section \<open>The \<open>[drain]\<close> section\<close>

record drain_section =
  ds_idle_file :: "string option"
  ds_timeout_ms :: u64

definition is_absolute :: "string \<Rightarrow> bool" where
  "is_absolute path \<longleftrightarrow> (case path of c # _ \<Rightarrow> c = CHR ''/'' | [] \<Rightarrow> False)"

definition has_parent_component :: "string \<Rightarrow> bool" where
  "has_parent_component path \<longleftrightarrow> ''..'' \<in> set (split_on (CHR ''/'') path)"

definition drain_spec :: "drain_section \<Rightarrow> manifest_error + drain_section" where
  "drain_spec d =
     rbind (guarded (1 \<le> ds_timeout_ms d \<and> ds_timeout_ms d \<le> 600000)
              (InvalidField ''`timeout_ms` field in the `[drain]` section'' (DrainRange (ds_timeout_ms d)))) (\<lambda>_.
       (case ds_idle_file d of
          None \<Rightarrow> Inr d
        | Some path \<Rightarrow>
            (let field = ''`idle_file` field in the `[drain]` section'' in
             rbind (guarded (trim path \<noteq> []) (InvalidField field EmptyValue)) (\<lambda>_.
             rbind (guarded (\<not> contains_control_char path) (InvalidField field HasControlChar)) (\<lambda>_.
             rbind (guarded (\<not> is_absolute path) (InvalidField field (AbsolutePath path))) (\<lambda>_.
             rbind (guarded (\<not> has_parent_component path) (InvalidField field (ParentSegment path))) (\<lambda>_.
               Inr d)))))))"

section \<open>Capabilities and metering\<close>

datatype os_id = Linux | Macos | Windows | OtherOs

definition os_from_str :: "string \<Rightarrow> os_id" where
  "os_from_str os = (if os = ''linux'' then Linux else if os = ''macos'' then Macos else if os = ''windows'' then Windows else OtherOs)"

fun os_as_str :: "os_id \<Rightarrow> string" where
  "os_as_str Linux = ''linux''"
| "os_as_str Macos = ''macos''"
| "os_as_str Windows = ''windows''"
| "os_as_str OtherOs = ''other''"

datatype support_level = Guaranteed | BestEffort | Unsupported
datatype capability = PauseCapability | InteractionCapability

text \<open>A map of maps, each in the order of its keys.\<close>

type_synonym capability_declaration = "(capability \<times> (os_id \<times> support_level) list) list"

definition has_any_support :: "capability_declaration \<Rightarrow> bool" where
  "has_any_support decl = list_ex (\<lambda>(_, per_os). list_ex (\<lambda>(_, level). level \<noteq> Unsupported) per_os) decl"

definition support :: "capability_declaration \<Rightarrow> capability \<Rightarrow> os_id \<Rightarrow> support_level" where
  "support decl c os =
     (case Option.bind (map_of decl c) (\<lambda>per_os. map_of per_os os) of Some level \<Rightarrow> level | None \<Rightarrow> Unsupported)"

definition effective_capabilities :: "capability_declaration \<Rightarrow> os_id \<Rightarrow> (capability \<times> support_level) list" where
  "effective_capabilities decl os = map (\<lambda>(c, _). (c, support decl c os)) decl"

datatype metering_source = SelfReported | EngineObserved

fun metering_as_str :: "metering_source \<Rightarrow> string" where
  "metering_as_str SelfReported = ''self-reported''"
| "metering_as_str EngineObserved = ''engine-observed''"

section \<open>The contract version\<close>

definition contract_version :: string where "contract_version = ''1.1.0''"

datatype contract_version_error = Unparseable string | Incompatible string string

definition negotiate_contract_version :: "(string \<Rightarrow> nat option) \<Rightarrow> string \<Rightarrow> contract_version_error + unit" where
  "negotiate_contract_version semver v =
     (case semver (trim v) of
        None \<Rightarrow> Inl (Unparseable v)
      | Some major \<Rightarrow>
          if Some major = semver contract_version then Inr () else Inl (Incompatible v contract_version))"

section \<open>The manifest\<close>

record op_template =
  op_exec :: string
  op_args :: "string list"
  op_env :: "(string \<times> string) list"

record lifecycle_section =
  lo_start :: "op_template option"
  lo_stop :: "op_template option"
  lo_pause :: "op_template option"
  lo_resume :: "op_template option"

datatype interaction_channel = StdioChannel | HttpChannel

record manifest =
  mf_contract_version :: "string option"
  mf_adapter :: "(string \<times> string option) option"
  mf_lifecycle :: "lifecycle_section option"
  mf_capabilities :: "capability_declaration option"
  mf_metering :: "metering_source option"
  mf_interaction :: "interaction_channel option"
  mf_config :: "config_mapping option"
  mf_readiness :: "readiness option"
  mf_liveness :: "liveness option"
  mf_exit_codes :: "exit_codes option"
  mf_drain :: "drain_section option"

text \<open>\<open>^[a-z0-9][a-z0-9_-]*$\<close>\<close>

definition is_valid_adapter_kind :: "string \<Rightarrow> bool" where
  "is_valid_adapter_kind kind \<longleftrightarrow>
     (case kind of
        [] \<Rightarrow> False
      | c # cs \<Rightarrow> (is_ascii_lower c \<or> is_ascii_digit c)
          \<and> list_all (\<lambda>c. is_ascii_lower c \<or> is_ascii_digit c \<or> c = CHR ''_'' \<or> c = CHR ''-'') cs)"

definition version_ok :: "(string \<Rightarrow> nat option) \<Rightarrow> manifest \<Rightarrow> manifest_error + unit" where
  "version_ok semver m =
     (case mf_contract_version m of
        Some v \<Rightarrow>
          if trim v = [] then Inl (MissingSection ''`contract_version` field'')
          else guarded (semver (trim v) \<noteq> None) (InvalidField ''`contract_version`'' (NotSemver v))
      | None \<Rightarrow> Inl (MissingSection ''`contract_version` field''))"

definition adapter_ok :: "manifest \<Rightarrow> manifest_error + unit" where
  "adapter_ok m =
     (let field = ''`kind` field in the `[adapter]` section'' in
      (case mf_adapter m of
         Some (kind, _) \<Rightarrow>
           if trim kind = [] then Inl (MissingSection field)
           else guarded (is_valid_adapter_kind kind) (InvalidField field (BadKind kind))
       | None \<Rightarrow> Inl (MissingSection ''`[adapter]` section'')))"

fun op_args_ok :: "string \<Rightarrow> nat \<Rightarrow> string list \<Rightarrow> manifest_error + unit" where
  "op_args_ok op index [] = Inr ()"
| "op_args_ok op index (arg # args) =
     rbind (guarded (\<not> contains_control_char arg)
              (InvalidField (''`args['' @ dec index @ '']` element in the `[lifecycle.'' @ op @ '']` op template'') HasControlChar)) (\<lambda>_.
       op_args_ok op (index + 1) args)"

definition op_ok :: "string \<Rightarrow> op_template option \<Rightarrow> manifest_error + unit" where
  "op_ok op template =
     (case template of
        None \<Rightarrow> Inr ()
      | Some t \<Rightarrow>
          rbind (guarded (\<not> contains_control_char (op_exec t))
                   (InvalidField (''`exec` field in the `[lifecycle.'' @ op @ '']` op template'') HasControlChar)) (\<lambda>_.
            op_args_ok op 0 (op_args t)))"

definition lifecycle_ok :: "manifest \<Rightarrow> manifest_error + unit" where
  "lifecycle_ok m =
     (case mf_lifecycle m of
        None \<Rightarrow> Inl (MissingSection ''`[lifecycle]` section'')
      | Some l \<Rightarrow>
          rbind (guarded (lo_start l \<noteq> None) (MissingSection ''`start` op in the `[lifecycle]` section'')) (\<lambda>_.
          rbind (guarded ((lo_pause l \<noteq> None) = (lo_resume l \<noteq> None))
                   (InvalidField ''`[lifecycle]` section''
                     (if lo_pause l \<noteq> None then Unpaired ''`pause`'' ''`resume`'' else Unpaired ''`resume`'' ''`pause`''))) (\<lambda>_.
          rbind (op_ok ''pause'' (lo_pause l)) (\<lambda>_. op_ok ''resume'' (lo_resume l)))))"

definition config_ok :: "manifest \<Rightarrow> manifest_error + unit" where
  "config_ok m =
     (case mf_config m of
        None \<Rightarrow> Inr ()
      | Some mapping \<Rightarrow>
          (case mapping_validate mapping of
             Inl (key, why) \<Rightarrow> Inl (InvalidField (''`[config.'' @ key @ '']` mapping in the `[config]` section'') (BadMapping why))
           | Inr _ \<Rightarrow> Inr ()))"

definition optional_section :: "('a \<Rightarrow> manifest_error + 'b) \<Rightarrow> 'a option \<Rightarrow> manifest_error + 'b option" where
  "optional_section f section =
     (case section of None \<Rightarrow> Inr None | Some x \<Rightarrow> rbind (f x) (\<lambda>y. Inr (Some y)))"

definition validate_drain_liveness_disjoint :: "manifest \<Rightarrow> manifest_error + unit" where
  "validate_drain_liveness_disjoint m =
     (case (Option.bind (mf_drain m) ds_idle_file, Option.bind (mf_liveness m) lq_heartbeat_file) of
        (Some idle, Some heartbeat) \<Rightarrow>
          guarded (idle \<noteq> hb_path heartbeat)
            (InvalidField ''`idle_file` field in the `[drain]` section'' (SharedFile idle))
      | _ \<Rightarrow> Inr ())"

definition validate :: "(string \<Rightarrow> nat option) \<Rightarrow> manifest \<Rightarrow> manifest_error + unit" where
  "validate semver m =
     rbind (version_ok semver m) (\<lambda>_.
     rbind (adapter_ok m) (\<lambda>_.
     rbind (lifecycle_ok m) (\<lambda>_.
     rbind (guarded (case mf_capabilities m of Some c \<Rightarrow> has_any_support c | None \<Rightarrow> False)
              (MissingSection ''`[capabilities]` section (it declares no supported capabilities)'')) (\<lambda>_.
     rbind (guarded (mf_metering m \<noteq> None) (MissingSection ''`[metering]` section'')) (\<lambda>_.
     rbind (config_ok m) (\<lambda>_.
     rbind (optional_section gate (mf_readiness m)) (\<lambda>_.
     rbind (optional_section liveness_check_of (mf_liveness m)) (\<lambda>_.
     rbind (optional_section exit_classes (mf_exit_codes m)) (\<lambda>_.
     rbind (optional_section drain_spec (mf_drain m)) (\<lambda>_.
       validate_drain_liveness_disjoint m))))))))))"

text \<open>The accessors the engine reads a validated manifest through.\<close>

definition readiness_probe_of :: "manifest \<Rightarrow> manifest_error + readiness_gate option" where
  "readiness_probe_of m = optional_section gate (mf_readiness m)"

definition declared_liveness :: "manifest \<Rightarrow> manifest_error + liveness_check option" where
  "declared_liveness m = optional_section liveness_check_of (mf_liveness m)"

definition declared_exit_codes :: "manifest \<Rightarrow> manifest_error + exit_codes option" where
  "declared_exit_codes m = optional_section exit_classes (mf_exit_codes m)"

definition declared_drain :: "manifest \<Rightarrow> manifest_error + drain_section option" where
  "declared_drain m = optional_section drain_spec (mf_drain m)"

end
