(* ===== verification/Supervision.thy ===== *)
theory Supervision
  imports Usage_Drain Spawn_Records Manifest
begin

text \<open>
  Stopping, pausing and resuming a supervised process (\<open>domain/supervisor/lifecycle.rs\<close>), and what a budget
  breach does with them (\<open>enforce_pause\<close>, \<open>enforce_stop\<close> of \<open>usage.rs\<close>). A stop drains the reports the
  process has left, a drain commits them, a commit can fire a breach, and a breach can stop the process:
  the recursion is closed at a depth that is proved to be enough.

  What the process and the operating system answer during one command is an argument (\<open>answers\<close>), as is
  what the process still writes between the drain before the stop signal and its death.
\<close>

section \<open>Errors and answers\<close>

datatype backend_error = BackendStopUnconfirmed u64 | BackendFailed string
datatype process_status = Alive | Exited "int option"

datatype engine_error =
  EngineNotFound string
| EngineInvalidName string name_error
| EngineInvalidTransition lifecycle_error
| EngineStore store_error
| EngineUnresolved registry_error
| EngineAdapter string string
| EngineBackend string backend_error
| EngineStopUnconfirmed string u64
| CapabilityUnsupported string support_level
| ResumeUnsupported string support_level
| PauseCommandFailed string lifecycle_command string
| EngineLog string string

fun registry_to_engine :: "registry_error \<Rightarrow> engine_error" where
  "registry_to_engine (NoInstance name) = EngineNotFound name"
| "registry_to_engine (InvalidName name reason) = EngineInvalidName name reason"
| "registry_to_engine (Store e) = EngineStore e"
| "registry_to_engine e = EngineUnresolved e"

datatype command_outcome = Exited0 | CommandFailed string | Overran "notice option"

record answers =
  an_poll :: "backend_error + process_status"
  an_adopt :: "string + bool"
  an_pause :: "backend_error option"
  an_resume :: "backend_error option"
  an_stop :: "backend_error + bool"
  an_log_dir :: "string option"
  an_cancel :: "notice list"
  an_written :: "usage_channel \<Rightarrow> string"
  an_unlinks :: "usage_channel \<Rightarrow> bool"
  an_support :: "registry_error + support_level"
  an_commands :: "engine_error + string option \<times> string option"
  an_command :: command_outcome
  an_facts :: adapter_facts
  an_decode :: "string \<Rightarrow> transition_event option"
  an_run_id :: run_id

definition kill_confirm_timeout :: u64 where
  "kill_confirm_timeout = 5"

definition default_stop_window :: u64 where
  "default_stop_window = 30"

section \<open>Transitions and the held process\<close>

text \<open>\<open>transition_with_log_capture\<close> of the supervisor: the job, then the notice of a failed projection and
  the events on the bus.\<close>

definition supervised_transition ::
  "'text surroundings \<Rightarrow> string \<Rightarrow> lifecycle_state \<Rightarrow> lifecycle_state \<Rightarrow> transition_cause \<Rightarrow> supervisor
     \<Rightarrow> (engine_error + unit) \<times> supervisor" where
  "supervised_transition io name prior new cause sv =
     (case transition_with_log_capture (io_tj io) name prior new cause Terminal (io_now io) (io_now io) (sv_engine sv) of
        Inl e \<Rightarrow> (Inl (EngineStore e), sv)
      | Inr (ct, en) \<Rightarrow>
          (let sv = publish_bus (BusTransition (transition_event_new name prior new cause (io_now io))) (sv\<lparr>sv_engine := en\<rparr>);
               sv = (if ct_projection_failed ct \<noteq> None then notify (Said ''the Run catches up later'') sv else sv)
           in (Inr (), fold (\<lambda>(ev, _). publish_bus (BusRun ev)) (ct_run_events ct) sv)))"

definition forget :: "string \<Rightarrow> supervisor \<Rightarrow> supervisor" where
  "forget name sv =
     sv\<lparr>sv_poll_errors := (sv_poll_errors sv)(name := 0), sv_requested := (sv_requested sv)(name := 0),
        sv_running := (sv_running sv)(name := None)\<rparr>"

definition settle_record :: "string \<Rightarrow> supervisor \<Rightarrow> (engine_error + unit) \<times> supervisor" where
  "settle_record name sv =
     (case settle_spawn_record_db name (en_db (sv_engine sv)) of
        Inl e \<Rightarrow> (Inl (EngineStore e), sv)
      | Inr (_, s) \<Rightarrow> (Inr (), sv\<lparr>sv_engine := (sv_engine sv)\<lparr>en_db := s\<rparr>\<rparr>))"

definition looked_up :: "string \<Rightarrow> supervisor \<Rightarrow> engine_error + agent_instance" where
  "looked_up name sv = (case lookup_instance name (en_db (sv_engine sv)) of Inl e \<Rightarrow> Inl (registry_to_engine e) | Inr i \<Rightarrow> Inr i)"

datatype pause_kind = Operator | BreachPause | Cooperative

definition classify_pause_kind :: "(string \<Rightarrow> transition_event option) \<Rightarrow> string \<Rightarrow> db \<Rightarrow> pause_kind" where
  "classify_pause_kind decode name s =
     (let events = (case transition_events decode name s of Some (Inr evs) \<Rightarrow> evs | _ \<Rightarrow> [])
      in case find (\<lambda>ev. te_new ev = Paused) (rev events) of
           None \<Rightarrow> Operator
         | Some ev \<Rightarrow> (case te_cause ev of
               BudgetExceeded _ _ _ _ _ _ _ \<Rightarrow> BreachPause
             | PauseCooperative _ \<Rightarrow> Cooperative
             | _ \<Rightarrow> Operator))"

definition launch_generation :: "string \<Rightarrow> db \<Rightarrow> u64" where
  "launch_generation name s =
     (case find (\<lambda>i. in_name i = name) (db_instances s) of None \<Rightarrow> 0 | Some i \<Rightarrow> clamp_u64 (in_generation i))"

definition log_length :: "string \<Rightarrow> usage_channel \<Rightarrow> supervisor \<Rightarrow> nat" where
  "log_length name ch sv = (case sv_logs sv name ch of None \<Rightarrow> 0 | Some bytes \<Rightarrow> length bytes)"

text \<open>The record's process, re-held for a stop when this engine holds none.\<close>

definition reacquire :: "'text surroundings \<Rightarrow> answers \<Rightarrow> string \<Rightarrow> supervisor \<Rightarrow> supervisor" where
  "reacquire io an name sv =
     (if sv_running sv name \<noteq> None then sv
      else (let s = en_db (sv_engine sv) in
        case get_spawn_record_db name s of
          Inr (Some r) \<Rightarrow>
            if sr_pid r = 0 then sv
            else (case an_adopt an of
                    Inr True \<Rightarrow>
                      notify (Said ''re-acquired the supervised process for this stop'')
                        (sv\<lparr>sv_running := (sv_running sv)(name \<mapsto>
                          \<lparr>sp_run = (case sr_run_id r of Some rid \<Rightarrow> rid | None \<Rightarrow> an_run_id an),
                           sp_source = (case resolved_metering_source (io_host io) (an_facts an) s (io_files io) name of
                                          Inr source \<Rightarrow> source | Inl _ \<Rightarrow> ''self-reported''),
                           sp_cursor = log_length name Stdout sv, sp_park = None,
                           sp_err_cursor = log_length name Stderr sv, sp_err_park = None,
                           sp_seen = False,
                           sp_acp = (case lookup_instance name s of Inr i \<Rightarrow> is_acp_kind (ai_kind i) | Inl _ \<Rightarrow> False),
                           sp_mode = None, sp_observed_park = None, sp_generation = launch_generation name s,
                           sp_queue = None, sp_minter = None, sp_fence = [], sp_unconfirmed = False, sp_adopted = True,
                           sp_cooperative = (classify_pause_kind (an_decode an) name s = Cooperative)\<rparr>)\<rparr>)
                  | Inr False \<Rightarrow> sv
                  | Inl detail \<Rightarrow> notify (Said detail) sv)
        | _ \<Rightarrow> sv))"

text \<open>In metadata mode the raw captures leave the disk with the Run.\<close>

definition unlink_log :: "answers \<Rightarrow> string \<Rightarrow> usage_channel \<Rightarrow> supervisor \<Rightarrow> supervisor" where
  "unlink_log an name ch sv =
     (if sv_logs sv name ch = None then sv
      else if an_unlinks an ch then sv\<lparr>sv_logs := (sv_logs sv)(name := (sv_logs sv name)(ch := None))\<rparr>
      else notify (Said ''could not unlink the raw capture file'') sv)"

definition unlink_raw_logs_if_metadata :: "answers \<Rightarrow> string \<Rightarrow> supervisor \<Rightarrow> supervisor" where
  "unlink_raw_logs_if_metadata an name sv =
     (let mode = (case sv_running sv name of Some s \<Rightarrow> sp_mode s | None \<Rightarrow> Some (sv_mode sv))
      in if mode = Some CaptureMetadata then unlink_log an name Stderr (unlink_log an name Stdout sv) else sv)"

text \<open>What the process writes before it is dead.\<close>

definition append_log :: "string \<Rightarrow> usage_channel \<Rightarrow> string \<Rightarrow> supervisor \<Rightarrow> supervisor" where
  "append_log name ch bytes sv =
     (case sv_logs sv name ch of
        None \<Rightarrow> sv
      | Some old \<Rightarrow> sv\<lparr>sv_logs := (sv_logs sv)(name := (sv_logs sv name)(ch := Some (old @ bytes)))\<rparr>)"

definition last_words :: "answers \<Rightarrow> string \<Rightarrow> supervisor \<Rightarrow> supervisor" where
  "last_words an name sv = append_log name Stderr (an_written an Stderr) (append_log name Stdout (an_written an Stdout) sv)"

section \<open>Stopping\<close>

function decimal :: "nat \<Rightarrow> string" where
  "decimal n = (if n < 10 then [char_of (48 + n)] else decimal (n div 10) @ [char_of (48 + n mod 10)])"
  by pat_completeness auto
termination by (relation "measure id") auto

declare decimal.simps [simp del]

definition stop_cause :: "bool \<Rightarrow> u64 \<Rightarrow> (bool \<times> u64) option \<Rightarrow> transition_cause" where
  "stop_cause forced window terminal_drain =
     (if forced then
        StopForced (''graceful window ('' @ decimal (unat window) @ ''s) elapsed; escalated to a forced kill of the process group/job''
          @ (case terminal_drain of
               None \<Rightarrow> []
             | Some (completed, waited) \<Rightarrow> ''; the drain's bounded wait '' @ (if completed then ''COMPLETED'' else ''timed out'')
                 @ '' after '' @ decimal (unat waited) @ ''ms (recorded here because the stop escalated)''))
      else (case terminal_drain of Some (completed, waited) \<Rightarrow> DrainStopped completed waited | None \<Rightarrow> StopGraceful))"

text \<open>A stop of an instance whose earlier stop could not confirm the death: one poll, no signal.\<close>

definition retry_stop :: "'text surroundings \<Rightarrow> answers \<Rightarrow> string \<Rightarrow> supervisor \<Rightarrow> (engine_error + agent_instance) \<times> supervisor" where
  "retry_stop io an name sv =
     (case an_poll an of
        Inl e \<Rightarrow> (Inl (EngineBackend name e), sv)
      | Inr Alive \<Rightarrow> (Inl (EngineStopUnconfirmed name kill_confirm_timeout), sv)
      | Inr (Exited _) \<Rightarrow>
          (case settle_record name (forget name sv) of
             (Inl e, sv) \<Rightarrow> (Inl e, sv)
           | (Inr _, sv) \<Rightarrow>
               (case supervised_transition io name Stopping Stopped
                       (StopForced ''SIGKILL was sent by an earlier stop attempt; the process's death was confirmed on a later reconciliation (it may have been stuck in an OS-level I/O wait that has since cleared)'') sv of
                  (Inl e, sv) \<Rightarrow> (Inl e, sv)
                | (Inr _, sv) \<Rightarrow> (looked_up name sv, sv))))"

text \<open>The signal ladder on the held process; with no process there is nothing to signal.\<close>

definition stop_ladder :: "answers \<Rightarrow> string \<Rightarrow> supervisor \<Rightarrow> (engine_error + bool) \<times> supervisor" where
  "stop_ladder an name sv =
     (case sv_running sv name of
        None \<Rightarrow> (Inr False, sv)
      | Some _ \<Rightarrow>
          (let sv = last_words an name sv in
           case an_stop an of
             Inr forced \<Rightarrow> (Inr forced, sv)
           | Inl (BackendStopUnconfirmed secs) \<Rightarrow>
               (Inl (EngineStopUnconfirmed name secs), on_running name (\<lambda>s. s\<lparr>sp_unconfirmed := True\<rparr>) sv)
           | Inl e \<Rightarrow> (Inl (EngineBackend name e), sv)))"

definition resume_paused :: "answers \<Rightarrow> lifecycle_state \<Rightarrow> string \<Rightarrow> supervisor \<Rightarrow> supervisor" where
  "resume_paused an state name sv =
     (if state \<noteq> Paused then sv
      else (case sv_running sv name of
              None \<Rightarrow> sv
            | Some s \<Rightarrow>
                if sp_cooperative s then notify (Said ''paused cooperatively; no resume before the stop ladder'') sv
                else notify (Said (case an_resume an of None \<Rightarrow> ''resumed the paused process before the stop ladder''
                       | Some _ \<Rightarrow> ''could not resume the paused process before the stop ladder'')) sv))"

text \<open>From the accepted stop on: the drains, the ladder, the last drain, and the end of the Run.\<close>

definition run_stop ::
  "'text surroundings \<Rightarrow> answers \<Rightarrow> enforcer \<Rightarrow> string \<Rightarrow> u64 \<Rightarrow> lifecycle_state \<Rightarrow> lifecycle_state \<Rightarrow> (bool \<times> u64) option
     \<Rightarrow> supervisor \<Rightarrow> (engine_error + agent_instance) \<times> supervisor" where
  "run_stop io an enforce name window state stopping terminal_drain sv =
     (let sv = fold notify (an_cancel an) (resume_paused an state name sv);
          sv = drain_self_reported_for io enforce name TerminalDrain sv;
          sv = drain_observed_for io enforce name TerminalDrain sv
      in case stop_ladder an name sv of
           (Inl e, sv) \<Rightarrow> (Inl e, sv)
         | (Inr forced, sv) \<Rightarrow>
             (let sv = drain_self_reported_for io enforce name TerminalDrain sv;
                  sv = forget name (unlink_raw_logs_if_metadata an name sv)
              in case settle_record name sv of
                   (Inl e, sv) \<Rightarrow> (Inl e, sv)
                 | (Inr _, sv) \<Rightarrow>
                     (case supervised_transition io name stopping Stopped (stop_cause forced window terminal_drain) sv of
                        (Inl e, sv) \<Rightarrow> (Inl e, sv)
                      | (Inr _, sv) \<Rightarrow> (looked_up name sv, sv))))"

definition stop_inner ::
  "'text surroundings \<Rightarrow> answers \<Rightarrow> enforcer \<Rightarrow> string \<Rightarrow> u64 option \<Rightarrow> transition_cause option \<Rightarrow> (bool \<times> u64) option
     \<Rightarrow> supervisor \<Rightarrow> (engine_error + agent_instance) \<times> supervisor" where
  "stop_inner io an enforce candidate window cause_override terminal_drain sv =
     (case instance_name_new candidate of
        Inl reason \<Rightarrow> (Inl (EngineInvalidName candidate reason), sv)
      | Inr name \<Rightarrow>
          (case looked_up name sv of
             Inl e \<Rightarrow> (Inl e, sv)
           | Inr inst \<Rightarrow>
               if ai_state inst = Stopping \<and> (case sv_running sv name of Some s \<Rightarrow> sp_unconfirmed s | None \<Rightarrow> False)
               then retry_stop io an name sv
               else (case next_state (ai_state inst) Stop of
                       Inl e \<Rightarrow> (Inl (EngineInvalidTransition e), sv)
                     | Inr stopping \<Rightarrow>
                         (let sv = reacquire io an name sv in
                          case an_log_dir an of
                            Some detail \<Rightarrow> (Inl (EngineLog name detail), sv)
                          | None \<Rightarrow>
                              (case supervised_transition io name (ai_state inst) stopping
                                      (case cause_override of Some c \<Rightarrow> c | None \<Rightarrow> CommandCause ''stop'') sv of
                                 (Inl e, sv) \<Rightarrow> (Inl e, sv)
                               | (Inr _, sv) \<Rightarrow>
                                   run_stop io an enforce name (case window of Some w \<Rightarrow> w | None \<Rightarrow> default_stop_window)
                                     (ai_state inst) stopping terminal_drain sv)))))"

section \<open>Pausing and resuming\<close>

definition note_committed_resume_edge :: "string \<Rightarrow> supervisor \<Rightarrow> supervisor" where
  "note_committed_resume_edge name = on_running name (\<lambda>s. s\<lparr>sp_cooperative := False\<rparr>)"

definition signal_backend :: "answers \<Rightarrow> string \<Rightarrow> lifecycle_command \<Rightarrow> supervisor \<Rightarrow> engine_error option" where
  "signal_backend an name command sv =
     (case sv_running sv name of
        None \<Rightarrow> None
      | Some _ \<Rightarrow> map_option (EngineBackend name) (case command of Pause \<Rightarrow> an_pause an | _ \<Rightarrow> an_resume an))"

definition command_of :: "lifecycle_command \<Rightarrow> string option \<times> string option \<Rightarrow> string option" where
  "command_of command plan = (case command of Pause \<Rightarrow> fst plan | Resume \<Rightarrow> snd plan | _ \<Rightarrow> None)"

text \<open>The declared command of the adapter: \<open>Inr None\<close> when there is none.\<close>

definition run_cooperative_lifecycle_command ::
  "'text surroundings \<Rightarrow> answers \<Rightarrow> string \<Rightarrow> lifecycle_command \<Rightarrow> lifecycle_state \<Rightarrow> lifecycle_state \<Rightarrow> supervisor
     \<Rightarrow> (engine_error + agent_instance option) \<times> supervisor" where
  "run_cooperative_lifecycle_command io an name command prior new sv =
     (case an_commands an of
        Inl e \<Rightarrow> (Inl e, sv)
      | Inr plan \<Rightarrow>
          (case command_of command plan of
             None \<Rightarrow> (Inr None, sv)
           | Some rendered \<Rightarrow>
               (case an_command an of
                  CommandFailed detail \<Rightarrow> (Inl (PauseCommandFailed name command detail), sv)
                | Overran unreaped \<Rightarrow>
                    (Inl (PauseCommandFailed name command ''the command outlived its standalone bound and was killed; the lifecycle change was not applied''),
                     case unreaped of Some n \<Rightarrow> notify n sv | None \<Rightarrow> sv)
                | Exited0 \<Rightarrow>
                    (case an_log_dir an of
                       Some detail \<Rightarrow> (Inl (EngineLog name detail), sv)
                     | None \<Rightarrow>
                         (case supervised_transition io name prior new
                                 (case command of Pause \<Rightarrow> PauseCooperative rendered | _ \<Rightarrow> ResumeCooperative rendered) sv of
                            (Inl e, sv) \<Rightarrow> (Inl e, notify (Said ''the command already ran, but recording the transition failed'') sv)
                          | (Inr _, sv) \<Rightarrow>
                              (let sv = (case command of Pause \<Rightarrow> on_running name (\<lambda>s. s\<lparr>sp_cooperative := True\<rparr>) sv
                                         | _ \<Rightarrow> note_committed_resume_edge name sv)
                               in (case looked_up name sv of Inl e \<Rightarrow> Inl e | Inr i \<Rightarrow> Inr (Some i), sv)))))))"

definition best_effort_cause :: "lifecycle_command \<Rightarrow> string \<Rightarrow> transition_cause" where
  "best_effort_cause command detail = (case command of Pause \<Rightarrow> PauseBestEffort detail | _ \<Rightarrow> ResumeBestEffort detail)"

definition commit_pause ::
  "'text surroundings \<Rightarrow> answers \<Rightarrow> string \<Rightarrow> lifecycle_command \<Rightarrow> transition_cause \<Rightarrow> bool \<Rightarrow> lifecycle_state \<Rightarrow> lifecycle_state
     \<Rightarrow> supervisor \<Rightarrow> (engine_error + agent_instance) \<times> supervisor" where
  "commit_pause io an name command cause signals prior new sv =
     (case supervised_transition io name prior new cause sv of
        (Inl e, sv) \<Rightarrow> (Inl e, sv)
      | (Inr _, sv) \<Rightarrow>
          (let sv = (if command = Resume then note_committed_resume_edge name sv else sv) in
           case (if signals then signal_backend an name command sv else None) of
             Some e \<Rightarrow> (Inl e, notify (Said ''the committed transition's signal failed'') sv)
           | None \<Rightarrow> (looked_up name sv, sv)))"

definition suspend_or_resume ::
  "'text surroundings \<Rightarrow> answers \<Rightarrow> string \<Rightarrow> lifecycle_command \<Rightarrow> transition_cause option \<Rightarrow> supervisor
     \<Rightarrow> (engine_error + agent_instance) \<times> supervisor" where
  "suspend_or_resume io an candidate command cause_override sv =
     (case instance_name_new candidate of
        Inl reason \<Rightarrow> (Inl (EngineInvalidName candidate reason), sv)
      | Inr name \<Rightarrow>
     (case looked_up name sv of
        Inl e \<Rightarrow> (Inl e, sv)
      | Inr inst \<Rightarrow>
     (case next_state (ai_state inst) command of
        Inl e \<Rightarrow> (Inl (EngineInvalidTransition e), sv)
      | Inr new \<Rightarrow>
          (let cooperative = (case command of
                 Pause \<Rightarrow> True
               | Resume \<Rightarrow> classify_pause_kind (an_decode an) name (en_db (sv_engine sv)) = Cooperative
               | _ \<Rightarrow> False)
           in case (if cause_override = None \<and> cooperative
                    then run_cooperative_lifecycle_command io an name command (ai_state inst) new sv else (Inr None, sv)) of
                (Inl e, sv) \<Rightarrow> (Inl e, sv)
              | (Inr (Some i), sv) \<Rightarrow> (Inr i, sv)
              | (Inr None, sv) \<Rightarrow>
                  (case an_support an of
                     Inl e \<Rightarrow> (Inl (registry_to_engine e), sv)
                   | Inr Unsupported \<Rightarrow>
                       (Inl (if command = Resume then ResumeUnsupported name Unsupported
                             else CapabilityUnsupported name Unsupported), sv)
                   | Inr level \<Rightarrow>
                       (case an_log_dir an of
                          Some detail \<Rightarrow> (Inl (EngineLog name detail), sv)
                        | None \<Rightarrow>
                            (let held = sv_running sv name \<noteq> None;
                                 cause = (if level = Guaranteed \<and> \<not> held
                                          then best_effort_cause command ''no live process handle is held in this engine session''
                                          else case cause_override of
                                                 Some c \<Rightarrow> c
                                               | None \<Rightarrow> if level = Guaranteed then CommandCause (command_as_str command)
                                                         else best_effort_cause command ''pause is best-effort'')
                             in commit_pause io an name command cause (level = Guaranteed) (ai_state inst) new sv)))))))"

section \<open>Enforcing a breach\<close>

definition enforce_with ::
  "'text surroundings \<Rightarrow> answers \<Rightarrow> enforcer \<Rightarrow> enforcer" where
  "enforce_with io an enforce name action cause sv =
     (case (case action of
              ActPause \<Rightarrow> suspend_or_resume io an name Pause (Some cause) sv
            | _ \<Rightarrow> stop_inner io an enforce name None (Some cause) None sv) of
        (Inr _, sv) \<Rightarrow> sv
      | (Inl _, sv) \<Rightarrow> notify (EnforceFailed name action) sv)"

text \<open>The recursion of the code, unfolded a number of levels.\<close>

primrec enforce_levels :: "'text surroundings \<Rightarrow> answers \<Rightarrow> nat \<Rightarrow> enforcer" where
  "enforce_levels io an 0 = (\<lambda>name action cause sv. sv)"
| "enforce_levels io an (Suc n) = enforce_with io an (enforce_levels io an n)"

definition enforce :: "'text surroundings \<Rightarrow> answers \<Rightarrow> enforcer" where
  "enforce io an = enforce_levels io an 2"

definition stop_instance ::
  "'text surroundings \<Rightarrow> answers \<Rightarrow> string \<Rightarrow> u64 option \<Rightarrow> supervisor \<Rightarrow> (engine_error + agent_instance) \<times> supervisor" where
  "stop_instance io an name window = stop_inner io an (enforce io an) name window None None"

end
