(* ===== verification/Supervision_Facts.thy ===== *)
theory Supervision_Facts
  imports Supervision
begin

text \<open>
  What the drains and the commands leave alone, and the depth at which the recursion of stop, drain and
  breach closes.
\<close>

section \<open>The tables a metering job does not touch\<close>

definition host_part :: "db \<Rightarrow> instance_row list \<times> backing_row list \<times> transition_row list \<times> int \<times> runtime_row list" where
  "host_part s = (db_instances s, db_backings s, db_transitions s, db_transition_seq s, db_runtime s)"

interpretation host: run_frame host_part
  by unfold_locales (simp_all add: host_part_def)

lemma fold_rows_host: "host_part (fold_rows b s) = host_part s"
proof -
  have f: "(\<And>x t. host_part (f x t) = host_part t) \<Longrightarrow> host_part (fold f xs u) = host_part u" for f :: "'x \<Rightarrow> db \<Rightarrow> db" and xs u
    by (induction xs arbitrary: u) simp_all
  have w: "host_part (write_run_rollup k r s) = host_part s" "host_part (write_instance_rollup i r s) = host_part s"
      "host_part (s\<lparr>db_folded_through := n\<rparr>) = host_part s" for k r s i n
    by (simp_all add: write_run_rollup_def write_instance_rollup_def host_part_def)
  show ?thesis unfolding fold_rows_def Let_def by (simp add: w f case_prod_beta)
qed

lemma insert_usage_host: "insert_usage ev rate g s = Inr (out, t) \<Longrightarrow> host_part t = host_part s"
  by (auto simp: insert_usage_def Let_def fold_rows_host host_part_def [of "_\<lparr>db_usage := _, db_usage_seq := _\<rparr>"] split: if_splits)
    (simp_all add: host_part_def)

lemma append_breach_host: "append_breach json ev s = Inr t \<Longrightarrow> host_part t = host_part s"
  by (drule append_breach_Inr) (auto simp: host_part_def)

lemma latch_host: "latch rid key action at s = Inr t \<Longrightarrow> host_part t = host_part s"
  by (auto simp: latch_def Let_def host_part_def split: if_splits)

lemma mark_breach_host: "mark_breach rid at s = Inr (ch, t) \<Longrightarrow> host_part t = host_part s"
  by (auto simp: mark_breach_def rbind_def dest!: host.move_to split: sum.splits option.splits if_splits)

lemma levels_for_host: "levels_for input at s = Inr (ls, t) \<Longrightarrow> host_part t = host_part s"
  by (auto simp: levels_for_def rbind_def ensure_run_row_def host_part_def split: sum.splits if_splits)

lemma commit_decision_host: "commit_decision js input l at d st = Inr st' \<Longrightarrow> host_part (es_db st') = host_part (es_db st)"
  by (auto simp: commit_decision_def Let_def rbind_def split: sum.splits dest!: append_breach_host latch_host host.append_json)

lemma commit_level_host: "commit_level js input at lo st = Inr st' \<Longrightarrow> host_part (es_db st') = host_part (es_db st)"
proof -
  obtain l out where lo: "lo = (l, out)" by (cases lo)
  assume "commit_level js input at lo st = Inr st'"
  then obtain u where u: "rfold (commit_decision js input l at) (go_decisions out) st = Inr u"
    and rest: "st' = u \<or> (\<exists>ch s. mark_breach (lv_run l) at (es_db u) = Inr (ch, s) \<and> es_db st' = s)"
    by (auto simp: commit_level_def lo rbind_def split: sum.splits if_splits)
  have "host_part (es_db u) = host_part (es_db st)"
    by (rule rfold_invariant [where I = "\<lambda>v. host_part (es_db v) = host_part (es_db st)", OF u]) (auto dest: commit_decision_host)
  with rest show ?thesis by (auto dest: mark_breach_host)
qed

lemma evaluate_host: "evaluate js fault input at en = Inr (evn, raises, en') \<Longrightarrow> host_part (en_db en') = host_part (en_db en)"
proof (cases "pi_supervised input")
  case True
  assume go: "evaluate js fault input at en = Inr (evn, raises, en')"
  show ?thesis
  proof (rule evaluate_Inr [OF go True])
    fix levels s
    assume "levels_for input at (en_db en) = Inr (levels, s)" "en' = en\<lparr>en_db := s\<rparr>"
    then show ?thesis by (auto dest: levels_for_host)
  next
    fix levels s gis dg st c
    assume l: "levels_for input at (en_db en) = Inr (levels, s)"
      and loop: "rfold (commit_level js input at) (zip (filter level_is_armed levels) (map decide gis)) (eval_start s) = Inr st"
      and commit: "commit_changes (jn_run js) (es_changes st) (en\<lparr>en_db := es_db st\<rparr>) = Inr (c, en')"
    have "host_part (es_db st) = host_part (es_db (eval_start s))"
      by (rule rfold_invariant [where I = "\<lambda>v. host_part (es_db v) = host_part (es_db (eval_start s))", OF loop])
        (auto dest: commit_level_host)
    with host.commit_changes [OF commit] levels_for_host [OF l] show ?thesis by (simp add: eval_start_def)
  qed
qed (simp add: evaluate_def)

lemma commit_usage_host:
  "commit_usage js fault ev g input at en = Inr (u, evn, raises, en') \<Longrightarrow> host_part (en_db en') = host_part (en_db en)"
  by (auto simp: commit_usage_def rbind_def split: sum.splits if_splits
      dest!: insert_usage_host evaluate_host dest!: host.append_json)

section \<open>Commands in a state they do not apply to\<close>

text \<open>No stop and no pause applies to the instance as the database has it.\<close>

definition halted :: "string \<Rightarrow> supervisor \<Rightarrow> bool" where
  "halted name sv \<longleftrightarrow> (\<forall>i. lookup_instance name (en_db (sv_engine sv)) = Inr i \<longrightarrow> ai_state i \<notin> {Running, Paused})"

lemma lookup_host: "host_part s = host_part t \<Longrightarrow> lookup_instance name s = lookup_instance name t"
  by (simp add: host_part_def lookup_instance_def get_instance_def)

lemma halted_host: "host_part (en_db (sv_engine sv')) = host_part (en_db (sv_engine sv)) \<Longrightarrow> halted name sv' = halted name sv"
  by (drule lookup_host [where name = name]) (simp add: halted_def)

lemma next_state_halted: "st \<notin> {Running, Paused} \<Longrightarrow> (\<exists>e. next_state st Stop = Inl e) \<and> (\<exists>e. next_state st Pause = Inl e)"
  by (cases st) simp_all

lemma engine_frame [simp]:
  "sv_engine (notify n sv) = sv_engine sv" "sv_engine (publish_bus ev sv) = sv_engine sv"
  "sv_engine (on_running name f sv) = sv_engine sv" "sv_engine (forget name sv) = sv_engine sv"
  "sv_running (notify n sv) = sv_running sv" "sv_running (publish_bus ev sv) = sv_running sv"
  "sv_logs (notify n sv) = sv_logs sv" "sv_logs (publish_bus ev sv) = sv_logs sv" "sv_logs (on_running name f sv) = sv_logs sv"
  "sv_bus (notify n sv) = sv_bus sv" "sv_notices (publish_bus ev sv) = sv_notices sv"
  "sv_notices (on_running name f sv) = sv_notices sv"
  by (simp_all add: notify_def publish_bus_def on_running_def forget_def split: option.splits)

lemma fold_engine: "(\<And>x t. sv_engine (f x t) = sv_engine t) \<Longrightarrow> sv_engine (fold f xs sv) = sv_engine sv"
  by (induction xs arbitrary: sv) simp_all

lemma settle_record_engine:
  "settle_record name sv = (r, sv') \<Longrightarrow> db_instances (en_db (sv_engine sv')) = db_instances (en_db (sv_engine sv))"
  by (auto simp: settle_record_def settle_spawn_record_db_def rbind_def Let_def split: sum.splits option.splits prod.splits)

text \<open>A committed transition writes its state.\<close>

lemma supervised_transition_Inr:
  assumes "supervised_transition io name prior new cause sv = (Inr u, sv')"
  shows "state_in_txn name (en_db (sv_engine sv')) = Inr (lifecycle_as_str new)"
    and "lookup_instance name (en_db (sv_engine sv')) = Inr i \<Longrightarrow> ai_state i = new"
proof -
  obtain ct en where go: "transition_with_log_capture (io_tj io) name prior new cause Terminal (io_now io) (io_now io) (sv_engine sv) = Inr (ct, en)"
    and sv': "sv_engine sv' = en"
    using assms by (auto simp: supervised_transition_def Let_def fold_engine split_beta split: sum.splits if_splits)
  obtain j json where j: "instance_id (en_db (sv_engine sv)) name = Some j"
    and part: "fleet_part (en_db en) = (moved_instances name new (io_now io) (db_instances (en_db (sv_engine sv))), db_backings (en_db (sv_engine sv)),
           db_transitions (en_db (sv_engine sv)) @ [\<lparr>tr_id = db_transition_seq (en_db (sv_engine sv)) + 1, tr_instance = j, tr_event = json\<rparr>],
           db_transition_seq (en_db (sv_engine sv)) + 1)"
    by (rule commit_transition_fleet [OF go [unfolded transition_defs] transition_event_new_simps(1)]) simp
  obtain x where x: "find (\<lambda>i. in_name i = name) (db_instances (en_db (sv_engine sv))) = Some x"
    using j by (auto simp: instance_id_def split: option.splits)
  have found: "find (\<lambda>i. in_name i = name) (db_instances (en_db en)) = Some (x\<lparr>in_state := lifecycle_as_str new, in_updated := io_now io\<rparr>)"
    using part x by (simp add: fleet_part_def find_moved)
  show "state_in_txn name (en_db (sv_engine sv')) = Inr (lifecycle_as_str new)"
    using found by (simp add: sv' state_in_txn_def)
  show "lookup_instance name (en_db (sv_engine sv')) = Inr i \<Longrightarrow> ai_state i = new"
    using found by (auto simp: sv' lookup_instance_def get_instance_def row_to_instance_def lifecycle_wire_roundtrip rbind_def
        split: sum.splits option.splits)
qed

lemma supervised_transition_Inl: "supervised_transition io name prior new cause sv = (Inl e, sv') \<Longrightarrow> sv' = sv"
  by (auto simp: supervised_transition_def Let_def split: sum.splits prod.splits)

lemma halted_engine: "sv_engine sv' = sv_engine sv \<Longrightarrow> halted name sv' = halted name sv"
  by (simp add: halted_def)

lemma halted_frame [simp]:
  "halted name (notify n sv) = halted name sv" "halted name (publish_bus ev sv) = halted name sv"
  "halted name (on_running m f sv) = halted name sv" "halted name (sv\<lparr>sv_deferred := d\<rparr>) = halted name sv"
  "halted name (sv\<lparr>sv_deferred := d, sv_logs := l\<rparr>) = halted name sv" "halted name (sv\<lparr>sv_logs := l\<rparr>) = halted name sv"
  by (simp_all add: halted_def)

lemma halted_fold: "(\<And>x t. halted name (f x t) = halted name t) \<Longrightarrow> halted name (fold f xs sv) = halted name sv"
  by (induction xs arbitrary: sv) simp_all

lemma halted_instances:
  "db_instances (en_db (sv_engine sv')) = db_instances (en_db (sv_engine sv)) \<Longrightarrow> halted name sv' = halted name sv"
  by (simp add: halted_def lookup_instance_def get_instance_def)

lemma retry_stop_halted:
  assumes "halted name sv" and "retry_stop io an name sv = (r, sv')"
  shows "halted name sv'"
proof -
  have forget: "halted name (forget name sv)" using assms(1) by (simp add: halted_def)
  have settled: "halted name t" if "settle_record name (forget name sv) = (q, t)" for q t
    using forget halted_instances [OF settle_record_engine [OF that]] by simp
  have moved: "halted name u" if "settle_record name (forget name sv) = (q, t)"
      and "supervised_transition io name Stopping Stopped c t = (p, u)" for q t c p u
  proof (cases p)
    case (Inl e)
    then show ?thesis using supervised_transition_Inl that settled by blast
  next
    case (Inr x)
    then show ?thesis using supervised_transition_Inr(2) [of io name Stopping Stopped c t x u] that by (auto simp: halted_def)
  qed
  show ?thesis using assms settled moved by (auto simp: retry_stop_def split: sum.splits process_status.splits prod.splits)
qed

lemma halted_refuses:
  assumes "halted name sv" and "looked_up name sv = Inr i"
  shows "next_state (ai_state i) Stop = Inl (InvalidTransition (ai_state i) Stop)"
    and "next_state (ai_state i) Pause = Inl (InvalidTransition (ai_state i) Pause)"
proof -
  have "ai_state i \<notin> {Running, Paused}" using assms by (auto simp: halted_def looked_up_def split: sum.splits)
  then show "next_state (ai_state i) Stop = Inl (InvalidTransition (ai_state i) Stop)"
    "next_state (ai_state i) Pause = Inl (InvalidTransition (ai_state i) Pause)"
    by (cases "ai_state i"; simp)+
qed

lemma stop_inner_refused:
  assumes "halted name sv"
  shows "stop_inner io an e name w c d sv =
    (case instance_name_new name of
       Inl reason \<Rightarrow> (Inl (EngineInvalidName name reason), sv)
     | Inr _ \<Rightarrow>
         (case looked_up name sv of
            Inl er \<Rightarrow> (Inl er, sv)
          | Inr i \<Rightarrow>
              if ai_state i = Stopping \<and> (case sv_running sv name of Some s \<Rightarrow> sp_unconfirmed s | None \<Rightarrow> False)
              then retry_stop io an name sv else (Inl (EngineInvalidTransition (InvalidTransition (ai_state i) Stop)), sv)))"
proof (cases "instance_name_new name")
  case (Inr n)
  then have n: "instance_name_new name = Inr name" using instance_name_new_Inr by simp
  show ?thesis
  proof (cases "looked_up name sv")
    case (Inr i)
    then show ?thesis using n halted_refuses(1) [OF assms Inr] by (simp add: stop_inner_def)
  qed (use n in \<open>simp add: stop_inner_def\<close>)
qed (simp add: stop_inner_def)

lemma stop_inner_halted: "halted name sv \<Longrightarrow> halted name (snd (stop_inner io an e name w c d sv))"
proof -
  assume h: "halted name sv"
  have "halted name (snd (retry_stop io an name sv))"
    using retry_stop_halted [OF h, of io an "fst (retry_stop io an name sv)" "snd (retry_stop io an name sv)"] by simp
  with h show ?thesis by (simp add: stop_inner_refused [OF h] split: sum.splits)
qed

lemma suspend_halted:
  assumes "halted name sv"
  shows "\<exists>er. suspend_or_resume io an name Pause c sv = (Inl er, sv)"
proof (cases "instance_name_new name")
  case (Inr n)
  then have n: "instance_name_new name = Inr name" using instance_name_new_Inr by simp
  show ?thesis
  proof (cases "looked_up name sv")
    case (Inr i)
    then show ?thesis using n halted_refuses(2) [OF assms Inr] by (simp add: suspend_or_resume_def)
  qed (use n in \<open>simp add: suspend_or_resume_def\<close>)
qed (simp add: suspend_or_resume_def)

text \<open>Two enforcers that agree while the instance is halted, and leave it so.\<close>

definition agree_halted :: "string \<Rightarrow> enforcer \<Rightarrow> enforcer \<Rightarrow> bool" where
  "agree_halted name e1 e2 \<longleftrightarrow>
     (\<forall>a c sv. halted name sv \<longrightarrow> e1 name a c sv = e2 name a c sv \<and> halted name (e2 name a c sv))"

lemma enforce_with_cases:
  "enforce_with io an e name a c sv =
     (let (r, sv) = (if a = ActPause then suspend_or_resume io an name Pause (Some c) sv else stop_inner io an e name None (Some c) None sv)
      in case r of Inl _ \<Rightarrow> notify (EnforceFailed name a) sv | Inr _ \<Rightarrow> sv)"
  by (cases a) (simp_all add: enforce_with_def split: prod.splits sum.splits)

lemma enforce_with_halted:
  assumes "halted name sv"
  shows "enforce_with io an e1 name a c sv = enforce_with io an e2 name a c sv" and "halted name (enforce_with io an e2 name a c sv)"
proof -
  show "enforce_with io an e1 name a c sv = enforce_with io an e2 name a c sv"
    by (simp only: enforce_with_cases stop_inner_refused [OF assms])
  obtain er where "suspend_or_resume io an name Pause (Some c) sv = (Inl er, sv)" using suspend_halted [OF assms] by blast
  then show "halted name (enforce_with io an e2 name a c sv)"
    using assms stop_inner_halted [OF assms, of io an e2 None "Some c" None]
    by (simp add: enforce_with_cases split_beta split: sum.split)
qed

lemma enforce_with_agree: "agree_halted name (enforce_with io an e1) (enforce_with io an e2)"
  unfolding agree_halted_def using enforce_with_halted by blast

section \<open>Drains under enforcers that agree\<close>

lemma apply_breach_agree:
  assumes "agree_halted name e1 e2" and "halted name sv"
  shows "apply_breach e1 name b sv = apply_breach e2 name b sv" and "halted name (apply_breach e2 name b sv)"
proof -
  have "halted name (note_block name k sv)" for k
    using assms(2) by (simp add: note_block_def split: option.split)
  then show "apply_breach e1 name b sv = apply_breach e2 name b sv" "halted name (apply_breach e2 name b sv)"
    using assms by (auto simp: apply_breach_def agree_halted_def Let_def split: breach_action.splits)
qed

lemma apply_evaluation_agree:
  assumes "agree_halted name e1 e2" and "halted name sv"
  shows "apply_evaluation e1 name evn sv = apply_evaluation e2 name evn sv \<and> halted name (apply_evaluation e2 name evn sv)"
proof -
  have "fold (apply_breach e1 name) bs t = fold (apply_breach e2 name) bs t \<and> halted name (fold (apply_breach e2 name) bs t)"
    if "halted name t" for bs t
    using that
  proof (induction bs arbitrary: t)
    case (Cons b bs)
    then show ?case using apply_breach_agree [OF assms(1) Cons.prems, of b] by simp
  qed simp
  then show ?thesis using assms(2) by (simp add: apply_evaluation_def Let_def halted_fold split_beta)
qed

lemma ingest_usage_agree:
  assumes "agree_halted name e1 e2" and "halted name sv"
  shows "ingest_usage io e1 name run source mode u sv = ingest_usage io e2 name run source mode u sv"
    and "halted name (snd (ingest_usage io e2 name run source mode u sv))"
proof -
  have moved: "halted name (sv\<lparr>sv_engine := en\<rparr>)" if "commit_usage js f ev g i at (sv_engine sv) = Inr (x, y, z, en)" for js f ev g i at x y z en
    using commit_usage_host [OF that] assms(2) halted_host [of "sv\<lparr>sv_engine := en\<rparr>" sv name] by simp
  show "ingest_usage io e1 name run source mode u sv = ingest_usage io e2 name run source mode u sv"
    by (auto simp: ingest_usage_def Let_def split: sum.splits option.splits prod.splits
        intro!: conjunct1 [OF apply_evaluation_agree [OF assms(1)]] dest!: moved)
  show "halted name (snd (ingest_usage io e2 name run source mode u sv))"
    using assms(2) by (auto simp: ingest_usage_def Let_def split: sum.splits option.splits prod.splits
        intro!: conjunct2 [OF apply_evaluation_agree [OF assms(1)]] dest!: moved)
qed

lemma ingest_all_agree:
  assumes "agree_halted name e1 e2" and "halted name sv"
  shows "ingest_all (ingest_usage io e1 name run source mode) us sv = ingest_all (ingest_usage io e2 name run source mode) us sv
    \<and> halted name (snd (snd (ingest_all (ingest_usage io e2 name run source mode) us sv)))"
  using assms(2)
proof (induction us arbitrary: sv)
  case (Cons u us)
  obtain r t where t: "ingest_usage io e1 name run source mode u sv = (r, t)" by (cases "ingest_usage io e1 name run source mode u sv")
  with ingest_usage_agree [OF assms(1) Cons.prems, of io run source mode u] have "halted name t"
      "ingest_usage io e2 name run source mode u sv = (r, t)" by (metis snd_conv)+
  with Cons.IH [of t] t show ?case by (simp add: split_beta split: sum.split)
qed simp

lemma drain_channel_agree:
  assumes "agree_halted name e1 e2" and "halted name sv"
  shows "drain_channel io e1 name mode ch sv = drain_channel io e2 name mode ch sv \<and> halted name (drain_channel io e2 name mode ch sv)"
proof -
  have settle: "halted name (settle_block name mode ch c n r res) = halted name (snd (snd res))" for c n r res
    by (simp add: settle_block_def Let_def split_beta)
  have trunc: "halted name (maybe_truncate_raw_log io name ch t) = halted name t" for t
    by (simp add: maybe_truncate_raw_log_def split: option.split)
  have seen: "halted name (on_running name f sv)" for f using assms(2) by simp
  note go = ingest_all_agree [OF assms] ingest_all_agree [OF assms(1) seen]
  show ?thesis using assms(2)
    by (simp add: drain_channel_def Let_def trunc settle go split_beta split: option.split usage_tail.split drain_plan.split)
qed

lemma drain_self_reported_agree:
  assumes "agree_halted name e1 e2" and "halted name sv"
  shows "drain_self_reported_for io e1 name mode sv = drain_self_reported_for io e2 name mode sv
    \<and> halted name (drain_self_reported_for io e2 name mode sv)"
proof -
  note one = drain_channel_agree [OF assms, of io mode Stdout]
  note two = drain_channel_agree [OF assms(1) conjunct2 [OF one], of io mode Stderr]
  show ?thesis using one two by (simp add: drain_self_reported_for_def Let_def)
qed

lemma drain_observed_agree:
  assumes "agree_halted name e1 e2" and "halted name sv"
  shows "drain_observed_for io e1 name mode sv = drain_observed_for io e2 name mode sv
    \<and> halted name (drain_observed_for io e2 name mode sv)"
proof -
  have park: "halted name (park_observed name busy us t) = halted name t" for busy us t
    by (simp add: park_observed_def cap_observed_park_buffer_def Let_def split: list.split)
  have queue: "halted name (on_running name f sv)" for f using assms(2) by simp
  show ?thesis using assms(2) queue
    by (simp add: drain_observed_for_def Let_def park ingest_all_agree [OF assms(1) queue] split_beta split: option.split)
qed

section \<open>The depth of the recursion\<close>

lemma run_stop_agree:
  assumes "agree_halted name e1 e2" and "halted name sv"
  shows "run_stop io an e1 name w st st' d sv = run_stop io an e2 name w st st' d sv"
proof -
  have start: "halted name (fold notify (an_cancel an) (resume_paused an st name sv))"
    using assms(2) by (simp add: halted_fold resume_paused_def split: option.split)
  note one = drain_self_reported_agree [OF assms(1) start, of io TerminalDrain]
  note two = drain_observed_agree [OF assms(1) conjunct2 [OF one], of io TerminalDrain]
  have ladder: "halted name t" if "stop_ladder an name u = (r, t)" and "halted name u" for r t u
    using that by (auto simp: stop_ladder_def last_words_def append_log_def Let_def
        split: option.splits sum.splits backend_error.splits)
  show ?thesis
    using one two drain_self_reported_agree [OF assms(1) ladder, of _ _ _ io TerminalDrain]
    by (auto simp: run_stop_def Let_def split: prod.splits sum.splits)
qed

lemma halted_after_stopping:
  assumes "supervised_transition io name prior Stopping cause sv = (Inr u, t)"
  shows "halted name t"
  using supervised_transition_Inr(2) [OF assms] by (auto simp: halted_def)

lemma stop_inner_agree:
  assumes "agree_halted name e1 e2"
  shows "stop_inner io an e1 name w c d sv = stop_inner io an e2 name w c d sv"
proof -
  have stopping: "st' = Stopping" if "next_state st Stop = Inr st'" for st st'
    using that by (cases st) simp_all
  have "run_stop io an e1 name w' st st' d t = run_stop io an e2 name w' st st' d t"
    if "next_state st Stop = Inr st'" "supervised_transition io name st st' cause u = (Inr x, t)" for w' st st' t cause u x
    using run_stop_agree [OF assms] halted_after_stopping [of io name st cause u x t] stopping [OF that(1)] that(2) by simp
  then show ?thesis
    by (auto simp: stop_inner_def Let_def dest!: instance_name_new_Inr split: sum.splits option.splits prod.splits)
qed

lemma enforce_with_same:
  assumes "\<And>name. agree_halted name e1 e2"
  shows "enforce_with io an e1 = enforce_with io an e2"
  by (intro ext) (simp only: enforce_with_cases stop_inner_agree [OF assms])

text \<open>(C13) The recursion of stop, drain and breach closes. A stop drains reports, a report can breach a
  ceiling, and a breach can stop the instance again; but once a stop is under way no stop and no pause
  applies, so nothing is asked below the second level: however deep the recursion of the code is unfolded,
  a breach is enforced exactly as with two levels, and the enforcement is a solution of the code's own
  recursive equation.\<close>

theorem enforcement_recursion_closes:
  "enforce_levels io an (n + 2) = enforce io an \<and> enforce io an = enforce_with io an (enforce io an)"
proof -
  have deep: "agree_halted name (enforce_levels io an (Suc m)) (enforce_levels io an (Suc k))" for m k name
    using enforce_with_agree by simp
  have levels: "enforce_levels io an (Suc (Suc m)) = enforce_levels io an (Suc (Suc k))" for m k
    using enforce_with_same [OF deep, of io an m k] by simp
  have two: "enforce io an = enforce_levels io an (Suc (Suc 0))" by (simp only: enforce_def numeral_2_eq_2)
  have "enforce_levels io an (n + 2) = enforce io an" using levels [of n 0] by (simp only: two numeral_2_eq_2 add_Suc_right add_0_right)
  moreover have "enforce io an = enforce_with io an (enforce io an)"
    using levels [of 0 1] by (simp only: two One_nat_def enforce_levels.simps(2) [of io an "Suc (Suc 0)"])
  ultimately show ?thesis by blast
qed

end
