(* ===== verification/Supervision_Frames.thy ===== *)
theory Supervision_Frames
  imports Supervision_Facts
begin

text \<open>
  What drains, enforcements and stops leave alone. The locale \<open>supervision_relation\<close> states what has to be
  known of the primitive changes of the supervisor for a relation between the states before and after to hold
  across all of them; it is interpreted for the growth of the ledger and for the notices. The last section
  shows that an enforced breach leaves the handle and its logs where they are unless it stops the process.
\<close>

section \<open>Relations every operation keeps\<close>

locale supervision_relation =
  fixes related :: "supervisor \<Rightarrow> supervisor \<Rightarrow> bool"
  assumes related_refl: "related sv sv"
    and related_trans: "related sv su \<Longrightarrow> related su st \<Longrightarrow> related sv st"
    and related_frame: "sv_engine su = sv_engine sv \<Longrightarrow> sv_notices su = sv_notices sv \<Longrightarrow> related sv su"
    and related_notify: "related sv (notify n sv)"
    and related_usage: "commit_usage js f ev g input at (sv_engine sv) = Inr (x, y, z, en) \<Longrightarrow> related sv (sv\<lparr>sv_engine := en\<rparr>)"
    and related_transition: "transition_with_log_capture tj name prior new cause fate at now (sv_engine sv) = Inr (ct, en)
      \<Longrightarrow> related sv (sv\<lparr>sv_engine := en\<rparr>)"
    and related_settle: "settle_spawn_record_db name (en_db (sv_engine sv)) = Inr (settled, s)
      \<Longrightarrow> related sv (sv\<lparr>sv_engine := (sv_engine sv)\<lparr>en_db := s\<rparr>\<rparr>)"
begin

lemma step: "related sv su \<Longrightarrow> related su st \<Longrightarrow> related sv st"
  by (rule related_trans)

lemma frames:
  "related sv su \<Longrightarrow> related sv (publish_bus ev su)" "related sv su \<Longrightarrow> related sv (on_running name f su)"
  "related sv su \<Longrightarrow> related sv (forget name su)" "related sv su \<Longrightarrow> related sv (notify n su)"
  "related sv su \<Longrightarrow> related sv (su\<lparr>sv_deferred := d\<rparr>)" "related sv su \<Longrightarrow> related sv (su\<lparr>sv_logs := l\<rparr>)"
  "related sv su \<Longrightarrow> related sv (su\<lparr>sv_deferred := d, sv_logs := l\<rparr>)" "related sv su \<Longrightarrow> related sv (su\<lparr>sv_running := r\<rparr>)"
proof -
  show "related sv su \<Longrightarrow> related sv (publish_bus ev su)" "related sv su \<Longrightarrow> related sv (on_running name f su)"
    "related sv su \<Longrightarrow> related sv (forget name su)" "related sv su \<Longrightarrow> related sv (notify n su)"
    "related sv su \<Longrightarrow> related sv (su\<lparr>sv_deferred := d\<rparr>)" "related sv su \<Longrightarrow> related sv (su\<lparr>sv_logs := l\<rparr>)"
    "related sv su \<Longrightarrow> related sv (su\<lparr>sv_deferred := d, sv_logs := l\<rparr>)" "related sv su \<Longrightarrow> related sv (su\<lparr>sv_running := r\<rparr>)"
    by (erule step, (rule related_notify | rule related_frame; simp add: forget_def))+
qed

lemma folded: "(\<And>x t. related t (f x t)) \<Longrightarrow> related sv (fold f xs sv)"
  by (induction xs arbitrary: sv) (auto intro: related_refl step)

lemma transition:
  "supervised_transition io name prior new cause sv = (r, su) \<Longrightarrow> related sv su"
  by (auto simp: supervised_transition_def Let_def related_refl split: sum.splits prod.splits if_splits
      intro!: step [OF _ folded] frames dest!: related_transition split: prod.split)

lemma settle: "settle_record name sv = (r, su) \<Longrightarrow> related sv su"
  by (auto simp: settle_record_def related_refl split: sum.splits prod.splits dest: related_settle)

lemma evaluation:
  assumes "\<And>a c t. related t (e name a c t)"
  shows "related sv (apply_evaluation e name evn sv)"
proof -
  have "related t (apply_breach e name b t)" for b t
    using assms by (auto simp: apply_breach_def note_block_def Let_def related_refl split: breach_action.split option.split intro!: frames)
  then show ?thesis
    unfolding apply_evaluation_def Let_def
    by (intro step [OF _ folded] related_refl) (auto split: prod.split intro!: frames related_refl)
qed

lemma ingest:
  assumes "\<And>a c t. related t (e name a c t)"
  shows "related sv (snd (ingest_usage io e name run source mode u sv))"
  by (auto simp: ingest_usage_def Let_def split: sum.split option.split prod.split
      intro!: step [OF _ evaluation [of e, OF assms]] frames related_refl dest!: related_usage split: if_splits option.splits sum.splits)

lemma ingests:
  assumes "\<And>a c t. related t (e name a c t)"
  shows "related sv (snd (snd (ingest_all (ingest_usage io e name run source mode) us sv)))"
proof (induction us arbitrary: sv)
  case (Cons u us)
  obtain r t where t: "ingest_usage io e name run source mode u sv = (r, t)" by (cases "ingest_usage io e name run source mode u sv")
  have "related sv t" using ingest [of e name sv io run source mode u, OF assms] by (simp add: t)
  with Cons.IH [of t] t show ?case by (auto split: sum.split prod.split intro: step)
qed (simp add: related_refl)

lemma channel_drain:
  assumes "\<And>a c t. related t (e name a c t)"
  shows "related sv (drain_channel io e name mode ch sv)"
proof -
  have settled: "related sv t \<Longrightarrow> related sv (settle_block name mode ch c n r (k, err, t))" for c n r k err t
    by (simp add: settle_block_def Let_def frames)
  have cut: "related sv t \<Longrightarrow> related sv (maybe_truncate_raw_log io name ch t)" for t
    by (auto simp: maybe_truncate_raw_log_def split: option.split intro!: frames)
  have "related sv (settle_block name mode ch c n r (ingest_all (ingest_usage io e name run source mode) us t))"
    if "related sv t" for c n r run source us t
    by (cases "ingest_all (ingest_usage io e name run source mode) us t")
      (use settled step [OF that] ingests [of e name t io run source mode us, OF assms] in auto)
  then have block: "related sv (settle_block name mode ch c n r (ingest_all (ingest_usage io e name run source mode) us t))"
    if "related sv t" for c n r run source us t using that by blast
  show ?thesis
    by (auto simp: drain_channel_def Let_def related_refl simp del: ingest_all.simps
        split: option.split usage_tail.split drain_plan.split intro!: cut block frames)
qed

lemma log_drains:
  assumes "\<And>a c t. related t (e name a c t)"
  shows "related sv (drain_self_reported_for io e name mode sv)"
  using channel_drain [of e name sv io mode Stdout, OF assms]
    step [OF _ channel_drain [of e name "drain_channel io e name mode Stdout sv" io mode Stderr, OF assms]]
  by (auto simp: drain_self_reported_for_def Let_def)

lemma observed_drain:
  assumes "\<And>a c t. related t (e name a c t)"
  shows "related sv (drain_observed_for io e name mode sv)"
proof -
  have parked: "related sv t \<Longrightarrow> related sv (park_observed name busy us t)" for busy us t
    by (auto simp: park_observed_def cap_observed_park_buffer_def Let_def split: list.split intro!: frames split: if_splits)
  have "related sv (snd (snd (ingest_all (ingest_usage io e name run source mode) us (on_running name f sv))))" for run source us f
    using step [OF frames(2) [OF related_refl] ingests [of e name, OF assms]] .
  then show ?thesis
    by (auto simp: drain_observed_for_def Let_def related_refl split: option.split prod.split intro!: parked frames) (metis snd_conv)+
qed

lemma frame_snd:
  "related sv (resume_paused an st name sv)" "related sv (reacquire io an name sv)" "related sv (last_words an name sv)"
  "related sv (unlink_raw_logs_if_metadata an name sv)"
  by (auto simp: resume_paused_def reacquire_def last_words_def append_log_def unlink_raw_logs_if_metadata_def unlink_log_def Let_def
      related_refl split: option.split sum.split bool.split if_splits intro!: frames)

lemma ladder: "stop_ladder an name sv = (r, su) \<Longrightarrow> related sv su"
  using frame_snd(3) [of sv an name]
  by (auto simp: stop_ladder_def Let_def related_refl split: option.splits sum.splits backend_error.splits intro: frames)

lemma retry: "retry_stop io an name sv = (r, su) \<Longrightarrow> related sv su"
  by (auto simp: retry_stop_def related_refl split: sum.splits process_status.splits prod.splits
      dest!: settle transition intro: step frames(3) [OF related_refl])

lemma stop_run:
  assumes "\<And>a c t. related t (e name a c t)" and "run_stop io an e name w st st' d sv = (r, su)"
  shows "related sv su"
proof -
  let ?start = "fold notify (an_cancel an) (resume_paused an st name sv)"
  let ?drained = "drain_observed_for io e name TerminalDrain (drain_self_reported_for io e name TerminalDrain ?start)"
  have start: "related sv ?start" by (rule step [OF frame_snd(1) folded]) (rule related_notify)
  have drained: "related sv ?drained"
    using start log_drains [of e name, OF assms(1)] observed_drain [of e name, OF assms(1)] by (blast intro: step)
  have gone: "related t (forget name (unlink_raw_logs_if_metadata an name (drain_self_reported_for io e name TerminalDrain t)))" for t
    using log_drains [of e name t io TerminalDrain, OF assms(1)] frame_snd(4) by (blast intro: step frames)
  show ?thesis
  proof (cases "stop_ladder an name ?drained")
    case (Pair q t)
    have t: "related sv t" using step [OF drained ladder [OF Pair]] .
    with assms(2) Pair show ?thesis
      by (auto simp: run_stop_def Let_def split: sum.splits prod.splits dest!: settle transition intro: step [OF step [OF t gone]] step)
  qed
qed

lemma stop:
  assumes "\<And>name a c t. related t (e name a c t)" and "stop_inner io an e name w c d sv = (r, su)"
  shows "related sv su"
proof -
  have after: "related sv u" if "supervised_transition io n p q k (reacquire io an n sv) = (x, t)" "run_stop io an e n v p q d t = (r, u)"
    for n p q k x t v u
    using frame_snd(2) transition [OF that(1)] stop_run [OF assms(1) that(2)] by (blast intro: step)
  show ?thesis
    using assms(2) after by (auto simp: stop_inner_def Let_def related_refl frame_snd(2) split: sum.splits option.splits prod.splits if_splits
        intro: retry step [OF frame_snd(2) transition])
qed

lemma suspend: "suspend_or_resume io an name cmd (Some c) sv = (r, su) \<Longrightarrow> related sv su"
  by (auto simp: suspend_or_resume_def commit_pause_def note_committed_resume_edge_def Let_def related_refl
      split: sum.splits option.splits prod.splits support_level.splits if_splits intro!: frames dest!: transition)

lemma enforces:
  assumes "\<And>name a c t. related t (e name a c t)"
  shows "related sv (enforce_with io an e name a c sv)"
  using stop [of e io an name None "Some c" None sv, OF assms] suspend [of io an name Pause c sv]
  by (auto simp: enforce_with_cases Let_def split: prod.split sum.split intro: frames)

lemma enforce_related: "related sv (enforce io an name a c sv)"
proof -
  have "related t (enforce_levels io an n name a c t)" for n name a c t
    by (induction n arbitrary: name a c t) (simp_all add: related_refl enforces)
  then show ?thesis by (simp add: enforce_def)
qed

lemmas enforced_drains = channel_drain [of "enforce _ _", OF enforce_related] observed_drain [of "enforce _ _", OF enforce_related]
lemmas enforced_ingests = ingests [of "enforce _ _", OF enforce_related] ingest [of "enforce _ _", OF enforce_related]
lemmas enforced_stop = stop_run [of "enforce _ _", OF enforce_related]

end

text \<open>The ledger only grows, and an instance keeps its id.\<close>

definition ledger_grows :: "supervisor \<Rightarrow> supervisor \<Rightarrow> bool" where
  "ledger_grows sv su \<longleftrightarrow> appends (en_db (sv_engine sv)) (en_db (sv_engine su))
     \<and> instance_id (en_db (sv_engine su)) = instance_id (en_db (sv_engine sv))"

lemma id_by_keys:
  "map (\<lambda>x. (in_id x, in_name x)) (db_instances t) = map (\<lambda>x. (in_id x, in_name x)) (db_instances s) \<Longrightarrow> instance_id t = instance_id s"
proof -
  have find: "map_option in_id (find (\<lambda>x. in_name x = n) xs) = map_of (map (\<lambda>x. (in_name x, in_id x)) xs) n" for xs n
    by (induction xs) simp_all
  have swap: "map (\<lambda>x. (in_name x, in_id x)) xs = map prod.swap (map (\<lambda>x. (in_id x, in_name x)) xs)" for xs by simp
  assume "map (\<lambda>x. (in_id x, in_name x)) (db_instances t) = map (\<lambda>x. (in_id x, in_name x)) (db_instances s)"
  then show ?thesis by (simp only: fun_eq_iff instance_id_def find swap simp_thms)
qed

interpretation growth: supervision_relation ledger_grows
proof unfold_locales
  show "ledger_grows sv sv" for sv by (simp add: ledger_grows_def)
  show "ledger_grows sv su \<Longrightarrow> ledger_grows su st \<Longrightarrow> ledger_grows sv st" for sv su st
    by (auto simp: ledger_grows_def intro: appends_trans)
  show "sv_engine su = sv_engine sv \<Longrightarrow> sv_notices su = sv_notices sv \<Longrightarrow> ledger_grows sv su" for sv su
    by (simp add: ledger_grows_def)
  show "ledger_grows sv (notify n sv)" for sv n by (simp add: ledger_grows_def)
  show "commit_usage js f ev g input at (sv_engine sv) = Inr (x, y, z, en) \<Longrightarrow> ledger_grows sv (sv\<lparr>sv_engine := en\<rparr>)"
    for js f ev g input at sv x y z en
    using commit_usage_appends [of js f ev g input at "sv_engine sv"] commit_usage_host [of js f ev g input at "sv_engine sv"]
    by (auto simp: ledger_grows_def host_part_def fun_eq_iff instance_id_def)
  show "transition_with_log_capture tj name prior new cause fate at now (sv_engine sv) = Inr (ct, en)
      \<Longrightarrow> ledger_grows sv (sv\<lparr>sv_engine := en\<rparr>)" for tj name prior new cause fate at now sv ct en
  proof -
    assume go: "transition_with_log_capture tj name prior new cause fate at now (sv_engine sv) = Inr (ct, en)"
    obtain j json where "db_instances (en_db en) = moved_instances name new now (db_instances (en_db (sv_engine sv)))"
      using commit_transition_fleet [OF go [unfolded transition_defs] transition_event_new_simps(1)] by (auto simp: fleet_part_def)
    then have "instance_id (en_db en) = instance_id (en_db (sv_engine sv))"
      by (intro id_by_keys) (simp add: moved_instances_def o_def if_distrib cong: if_cong)
    with commit_transition_appends [OF go [unfolded transition_defs]] show ?thesis by (simp add: ledger_grows_def)
  qed
  show "settle_spawn_record_db name (en_db (sv_engine sv)) = Inr (settled, s)
      \<Longrightarrow> ledger_grows sv (sv\<lparr>sv_engine := (sv_engine sv)\<lparr>en_db := s\<rparr>\<rparr>)" for name sv settled s
    by (auto simp: ledger_grows_def settle_spawn_record_db_def rbind_def Let_def record_part_def fun_eq_iff instance_id_def
        split: sum.splits option.splits intro!: appends_same)
qed

text \<open>What was said stays said.\<close>

definition keeps_notices :: "supervisor \<Rightarrow> supervisor \<Rightarrow> bool" where
  "keeps_notices sv su \<longleftrightarrow> set (sv_notices sv) \<subseteq> set (sv_notices su)"

interpretation saying: supervision_relation keeps_notices
  by unfold_locales (auto simp: keeps_notices_def notify_def)

section \<open>What an enforcement leaves alone\<close>

text \<open>What the drains remember of the handle, and its logs.\<close>

definition drain_part ::
  "supervised \<Rightarrow> run_id \<times> string \<times> (nat \<times> (nat \<times> nat) option) \<times> (nat \<times> (nat \<times> nat) option) \<times> bool \<times> u64 \<times> bool" where
  "drain_part s = (sp_run s, sp_source s, (sp_cursor s, sp_park s), (sp_err_cursor s, sp_err_park s), sp_acp s,
     sp_generation s, sp_unconfirmed s)"

definition same_handle :: "string \<Rightarrow> supervisor \<Rightarrow> supervisor \<Rightarrow> bool" where
  "same_handle name sv su \<longleftrightarrow> sv_logs su name = sv_logs sv name
     \<and> map_option drain_part (sv_running su name) = map_option drain_part (sv_running sv name)"

definition held :: "string \<Rightarrow> supervisor \<Rightarrow> bool" where
  "held name sv \<longleftrightarrow> (\<exists>s. sv_running sv name = Some s \<and> \<not> sp_unconfirmed s)"

text \<open>No stop was accepted on the way: the handle is where it was.\<close>

definition steady :: "string \<Rightarrow> supervisor \<Rightarrow> supervisor \<Rightarrow> bool" where
  "steady name sv su \<longleftrightarrow> (halted name sv \<longrightarrow> halted name su)
     \<and> (held name sv \<and> (halted name su \<longrightarrow> halted name sv) \<longrightarrow> same_handle name sv su)"

lemma same_handle_refl [simp]: "same_handle name sv sv"
  by (simp add: same_handle_def)

lemma held_same: "same_handle name sv su \<Longrightarrow> held name su = held name sv"
  unfolding same_handle_def held_def drain_part_def
  by (cases "sv_running sv name"; cases "sv_running su name") auto

lemma steady_refl: "steady name sv sv"
  by (simp add: steady_def)

lemma steady_trans:
  assumes "steady name sv su" and "steady name su st"
  shows "steady name sv st"
proof -
  have "same_handle name sv st" if "held name sv" "halted name st \<longrightarrow> halted name sv"
  proof -
    from assms that have one: "same_handle name sv su" by (auto simp: steady_def)
    with held_same [OF this] assms that have "same_handle name su st" by (auto simp: steady_def)
    with one show ?thesis by (simp add: same_handle_def)
  qed
  with assms show ?thesis by (auto simp: steady_def)
qed

lemma steady_same: "halted name su = halted name sv \<Longrightarrow> same_handle name sv su \<Longrightarrow> steady name sv su"
  by (simp add: steady_def)

lemma same_handle_frame [simp]:
  "same_handle name sv (notify n su) = same_handle name sv su" "same_handle name sv (publish_bus ev su) = same_handle name sv su"
  "same_handle name sv (su\<lparr>sv_engine := en\<rparr>) = same_handle name sv su"
  by (simp_all add: same_handle_def)

lemma same_handle_on_running:
  "(\<And>s. drain_part (f s) = drain_part s) \<Longrightarrow> same_handle name sv (on_running name f su) = same_handle name sv su"
  by (simp add: same_handle_def on_running_def split: option.split)

lemma supervised_transition_frame:
  "supervised_transition io n p q c sv = (r, su) \<Longrightarrow> sv_running su = sv_running sv \<and> sv_logs su = sv_logs sv"
proof -
  have bus: "sv_running (fold (\<lambda>(ev, _). publish_bus (BusRun ev)) evs t) = sv_running t
      \<and> sv_logs (fold (\<lambda>(ev, _). publish_bus (BusRun ev)) evs t) = sv_logs t" for evs :: "(run_event \<times> outbox_append) list" and t
    by (induction evs arbitrary: t) (simp_all add: split_beta)
  show "supervised_transition io n p q c sv = (r, su) \<Longrightarrow> sv_running su = sv_running sv \<and> sv_logs su = sv_logs sv"
    by (auto simp: supervised_transition_def Let_def bus split: sum.splits prod.splits)
qed

lemma ladder_halted: "stop_ladder an name su = (r, st) \<Longrightarrow> halted name su \<Longrightarrow> halted name st"
  by (auto simp: stop_ladder_def last_words_def append_log_def Let_def split: option.splits sum.splits backend_error.splits)

lemma settle_record_halted: "settle_record name su = (r, st) \<Longrightarrow> halted name st = halted name su"
  using halted_instances [OF settle_record_engine] .

lemma unlink_halted [simp]: "halted name (unlink_raw_logs_if_metadata an n su) = halted name su"
  by (simp add: unlink_raw_logs_if_metadata_def unlink_log_def Let_def)

lemma forget_halted [simp]: "halted name (forget n su) = halted name su"
  by (rule halted_engine) simp

lemma run_stop_halted:
  assumes e: "agree_halted name e e" and h: "halted name sv" and go: "run_stop io an e name w st Stopping d sv = (r, su)"
  shows "halted name su"
proof -
  have start: "halted name (fold notify (an_cancel an) (resume_paused an st name sv))"
    using h by (simp add: halted_fold resume_paused_def split: option.split)
  note drained = conjunct2 [OF drain_observed_agree [OF e conjunct2 [OF drain_self_reported_agree [OF e start]]]]
  have moved: "halted name v" if "supervised_transition io name Stopping Stopped c u = (q, v)" "halted name u" for c q u v
  proof (cases q)
    case (Inr x)
    then show ?thesis using that supervised_transition_Inr(2) [of io name Stopping Stopped c u x v] by (auto simp: halted_def)
  qed (use that supervised_transition_Inl in blast)
  show ?thesis
    using go drained
    by (auto simp: run_stop_def Let_def settle_record_halted split: prod.splits sum.splits
        dest!: ladder_halted moved dest: conjunct2 [OF drain_self_reported_agree [OF e]])
qed

lemma next_stop: "next_state st Stop = Inr st' \<Longrightarrow> st' = Stopping" "\<not> (\<exists>e. next_state st Stop = Inl e) \<Longrightarrow> st \<noteq> Stopping"
  by (cases st; simp)+

lemma stop_steady:
  assumes e: "agree_halted name e e"
  shows "steady name sv (snd (stop_inner io an e name w c d sv))"
proof -
  let ?out = "stop_inner io an e name w c d sv"
  have "same_handle name sv (snd ?out)" if held: "held name sv" and h: "halted name sv" for w c d
  proof -
    have "\<not> (case sv_running sv name of Some s \<Rightarrow> sp_unconfirmed s | None \<Rightarrow> False)" using held by (auto simp: held_def)
    then show ?thesis by (simp add: stop_inner_refused [OF h] split: sum.split)
  qed
  moreover have "same_handle name sv (snd ?out) \<or> halted name (snd ?out)" if held: "held name sv" and h: "\<not> halted name sv"
  proof (cases "instance_name_new name")
    case (Inl reason)
    then show ?thesis by (simp add: stop_inner_def)
  next
    case (Inr n)
    then have n: "instance_name_new name = Inr name" using instance_name_new_Inr by simp
    have here: "reacquire io an name sv = sv" using held by (auto simp: reacquire_def held_def)
    have "\<not> (case sv_running sv name of Some s \<Rightarrow> sp_unconfirmed s | None \<Rightarrow> False)" using held by (auto simp: held_def)
    note unfold = stop_inner_def n here this
    show ?thesis
    proof (cases "looked_up name sv")
      case (Inl er)
      then show ?thesis by (simp add: unfold)
    next
      case i: (Inr i)
      show ?thesis
      proof (cases "next_state (ai_state i) Stop")
        case (Inl er)
        then show ?thesis by (simp add: unfold i)
      next
        case (Inr st')
        then have st: "next_state (ai_state i) Stop = Inr Stopping" using next_stop(1) by simp
        let ?cause = "case c of Some c \<Rightarrow> c | None \<Rightarrow> CommandCause ''stop''"
        obtain r t where t: "supervised_transition io name (ai_state i) Stopping ?cause sv = (r, t)"
          by (cases "supervised_transition io name (ai_state i) Stopping ?cause sv")
        show ?thesis
        proof (cases "an_log_dir an = None \<and> (\<exists>u. r = Inr u)")
          case True
          then obtain u where u: "r = Inr u" by blast
          have "snd ?out = snd (run_stop io an e name (case w of Some w \<Rightarrow> w | None \<Rightarrow> default_stop_window) (ai_state i) Stopping d t)"
            using True by (simp add: unfold i st t)
          then have "halted name (snd ?out)"
            using run_stop_halted [OF e halted_after_stopping [OF t [unfolded u]]] by (metis surjective_pairing)
          then show ?thesis ..
        next
          case False
          then show ?thesis using t supervised_transition_Inl [of io name "ai_state i" Stopping ?cause sv _ t]
            by (auto simp: unfold i st split: option.splits sum.splits)
        qed
      qed
    qed
  qed
  moreover have "halted name sv \<Longrightarrow> halted name (snd ?out)" by (rule stop_inner_halted)
  ultimately show ?thesis unfolding steady_def by blast
qed

lemma suspend_same: "same_handle name sv (snd (suspend_or_resume io an name Pause (Some c) sv))"
proof -
  have commit: "same_handle name sv (snd (commit_pause io an name Pause k sg p q sv))" for k sg p q
    by (auto simp: commit_pause_def Let_def same_handle_def split: sum.split prod.split option.split dest!: supervised_transition_frame)
  show ?thesis
    by (auto simp: suspend_or_resume_def Let_def commit dest!: instance_name_new_Inr split: sum.split option.split support_level.split)
qed

lemma enforce_with_steady:
  assumes "agree_halted name e e"
  shows "steady name sv (enforce_with io an e name a c sv)"
proof -
  have suspend: "steady name sv (snd (suspend_or_resume io an name Pause (Some c) sv))"
    using suspend_same suspend_halted [of name sv io an "Some c"] by (auto simp: steady_def)
  have said: "steady name sv t \<Longrightarrow> steady name sv (notify n t)" for t n by (simp add: steady_def)
  show ?thesis
    using suspend stop_steady [OF assms, of sv io an None "Some c" None] said
    by (auto simp: enforce_with_cases split_beta split: sum.split)
qed

lemma enforce_steady: "agree_halted name (enforce io an) (enforce io an)" "steady name sv (enforce io an name a c sv)"
proof -
  have two: "enforce io an = enforce_with io an (enforce_with io an (enforce_levels io an 0))"
    by (simp add: enforce_def numeral_2_eq_2)
  show "agree_halted name (enforce io an) (enforce io an)" unfolding two by (rule enforce_with_agree)
  show "steady name sv (enforce io an name a c sv)" unfolding two by (rule enforce_with_steady [OF enforce_with_agree])
qed

lemma steady_fold: "(\<And>x t. steady name t (f x t)) \<Longrightarrow> steady name sv (fold f xs sv)"
  by (induction xs arbitrary: sv) (auto intro: steady_refl steady_trans)

lemma steady_frame:
  "steady name sv (notify n sv)" "steady name sv (publish_bus ev sv)"
  "(\<And>s. drain_part (f s) = drain_part s) \<Longrightarrow> steady name sv (on_running name f sv)"
  by (rule steady_same; simp add: same_handle_on_running)+

lemma evaluation_steady: "steady name sv (apply_evaluation (enforce io an) name evn sv)"
proof -
  have fence: "steady name t (note_block name k t)" for k t
    by (auto simp: note_block_def split: option.split intro!: steady_refl steady_frame steady_trans [OF steady_frame(3) steady_frame(1)])
      (simp_all add: drain_part_def)
  have breach: "steady name t (apply_breach (enforce io an) name b t)" for b t
    by (auto simp: apply_breach_def Let_def fence enforce_steady steady_refl split: breach_action.split)
  show ?thesis unfolding apply_evaluation_def Let_def
    by (intro steady_trans [OF _ steady_fold [of _ "apply_breach _ _", OF breach]]
        steady_trans [OF _ steady_fold] steady_refl) (auto simp: steady_frame split: prod.split)
qed

lemma ingest_steady: "steady name sv (snd (ingest_usage io (enforce io an) name run source mode u sv))"
proof -
  have engine: "steady name sv (sv\<lparr>sv_engine := en\<rparr>)" if "commit_usage js f ev g i at (sv_engine sv) = Inr (x, y, z, en)" for js f ev g i at x y z en
    using commit_usage_host [OF that] halted_host [of "sv\<lparr>sv_engine := en\<rparr>" sv name] by (intro steady_same) simp_all
  have fenced: "steady name t (publish_bus ev (on_running name (\<lambda>s. s\<lparr>sp_fence := sp_fence s @ raises\<rparr>) t))" for ev raises t
    by (rule steady_trans [OF steady_frame(3) steady_frame(2)]) (simp add: drain_part_def)
  have counted: "steady name sv (apply_evaluation (enforce io an) name evn
        (publish_bus b (on_running name (\<lambda>s. s\<lparr>sp_fence := sp_fence s @ z\<rparr>) (sv\<lparr>sv_engine := en\<rparr>))))"
    if "commit_usage js f ev g i at (sv_engine sv) = Inr (x, evn', z', en)" for js f ev g i at x evn' z' en evn z b
    by (rule steady_trans [OF steady_trans [OF engine [OF that] fenced] evaluation_steady])
  show ?thesis
    by (auto simp: ingest_usage_def Let_def steady_frame counted engine split: sum.split option.split prod.split)
qed

lemma ingests_steady:
  "steady name sv (snd (snd (ingest_all (ingest_usage io (enforce io an) name run source mode) us sv)))"
proof (induction us arbitrary: sv)
  case (Cons u us)
  obtain r t where t: "ingest_usage io (enforce io an) name run source mode u sv = (r, t)"
    by (cases "ingest_usage io (enforce io an) name run source mode u sv")
  have "steady name sv t" using ingest_steady [of name sv io an run source mode u] by (simp add: t)
  with Cons.IH [of t] t show ?case by (auto split: sum.split prod.split intro: steady_trans)
qed (simp add: steady_refl)

end
