(* ===== verification/Usage_Accounting.thy ===== *)
theory Usage_Accounting
  imports Supervision_Frames
begin

text \<open>
  Reported usage is accounted for: what the passes of the reaper do with the bytes a process writes, whatever
  the breaches they fire do in between (\<open>domain/supervisor/usage.rs\<close>).
\<close>

section \<open>A counted report\<close>

text \<open>The ledger has a row under the report's key.\<close>

definition counted :: "string \<Rightarrow> run_id \<Rightarrow> u64 \<Rightarrow> supervisor \<Rightarrow> parsed_usage \<Rightarrow> bool" where
  "counted name run generation sv u \<longleftrightarrow>
     (case instance_id (en_db (sv_engine sv)) name of
        None \<Rightarrow> False
      | Some i \<Rightarrow> (\<exists>v\<in>set (usage_rows i (en_db (sv_engine sv))). ur_run v = run
          \<and> ur_generation v = clamp_tokens generation \<and> ur_sequence v = clamp_tokens (pu_sequence u)))"

lemma counted_grows: "counted name run g sv u \<Longrightarrow> ledger_grows sv su \<Longrightarrow> counted name run g su u"
proof (unfold counted_def ledger_grows_def, elim conjE)
  assume c: "case instance_id (en_db (sv_engine sv)) name of None \<Rightarrow> False
      | Some i \<Rightarrow> (\<exists>v\<in>set (usage_rows i (en_db (sv_engine sv))). ur_run v = run
          \<and> ur_generation v = clamp_tokens g \<and> ur_sequence v = clamp_tokens (pu_sequence u))"
    and a: "appends (en_db (sv_engine sv)) (en_db (sv_engine su))" and i: "instance_id (en_db (sv_engine su)) = instance_id (en_db (sv_engine sv))"
  have "set (usage_rows j (en_db (sv_engine sv))) \<subseteq> set (usage_rows j (en_db (sv_engine su)))" for j
    using a unfolding appends_def extends_def by (metis Un_upper1 set_append)
  with c show "case instance_id (en_db (sv_engine su)) name of None \<Rightarrow> False
      | Some i \<Rightarrow> (\<exists>v\<in>set (usage_rows i (en_db (sv_engine su))). ur_run v = run
          \<and> ur_generation v = clamp_tokens g \<and> ur_sequence v = clamp_tokens (pu_sequence u))"
    by (auto simp: i split: option.splits)
qed

lemma insert_usage_counts:
  assumes "insert_usage ev rate g s = Inr (out, t)"
  shows "\<exists>i. instance_id s (ue_instance ev) = Some i
     \<and> (\<exists>v\<in>set (usage_rows i t). ur_run v = ue_run ev \<and> ur_generation v = clamp_tokens g \<and> ur_sequence v = clamp_tokens (ue_sequence ev))"
proof (cases out)
  case Inserted
  with assms obtain i where i: "instance_id s (ue_instance ev) = Some i"
    and t: "t = fold_rows True (s\<lparr>db_usage := db_usage s @ [usage_row_of (db_usage_seq s + 1) i ev rate g], db_usage_seq := db_usage_seq s + 1\<rparr>)"
    using insert_usage_Inserted [of ev rate g s t] by auto
  have "db_usage t = db_usage s @ [usage_row_of (db_usage_seq s + 1) i ev rate g]"
    unfolding t using fold_rows_records [of True "s\<lparr>db_usage := db_usage s @ [usage_row_of (db_usage_seq s + 1) i ev rate g], db_usage_seq := db_usage_seq s + 1\<rparr>"]
    by (simp add: record_part_def)
  with i show ?thesis by (auto simp: usage_rows_def usage_row_of_def)
next
  case DuplicateReplay
  with assms have "\<exists>i. require_instance_id (ue_instance ev) s = Inr i \<and> t = s
      \<and> (\<exists>v\<in>set (db_usage s). same_dedup_key (usage_row_of (db_usage_seq s + 1) i ev rate g) v)"
    by (auto simp: insert_usage_def Let_def split: if_splits)
  then obtain i v where i: "require_instance_id (ue_instance ev) s = Inr i" and t: "t = s" and v: "v \<in> set (db_usage s)"
    and key: "same_dedup_key (usage_row_of (db_usage_seq s + 1) i ev rate g) v" by blast
  have "v \<in> set (usage_rows i t)" "ur_run v = ue_run ev" "ur_generation v = clamp_tokens g" "ur_sequence v = clamp_tokens (ue_sequence ev)"
    using key v t by (auto simp: same_dedup_key_def usage_row_of_def usage_rows_def)
  with require_instance_id_Inr [OF i] show ?thesis by blast
qed

lemma commit_usage_counts:
  assumes "commit_usage js f ev g input at en = Inr (x, y, z, en')" and that: "pu_sequence u = ue_sequence ev"
  shows "counted (ue_instance ev) (ue_run ev) g (sv\<lparr>sv_engine := en'\<rparr>) u"
proof -
  obtain out s where s: "insert_usage ev (pi_rate input) g (en_db en) = Inr (out, s)"
    using assms by (auto simp: commit_usage_def rbind_def split: sum.splits)
  have appended: "appends s t" if "append_json k s = Inr (app, b)" "appends b t" for k app b t
    using appends_trans [OF appends_same [OF records.append_json [OF that(1)]] that(2)] .
  have after: "appends s (en_db en')"
    using assms(1) appended by (auto simp: commit_usage_def rbind_def s split: sum.splits if_splits
        dest!: evaluate_appends)
  have ids: "instance_id (en_db en') = instance_id (en_db en)"
    using commit_usage_host [OF assms(1)] by (simp add: host_part_def fun_eq_iff instance_id_def)
  have "set (usage_rows i s) \<subseteq> set (usage_rows i (en_db en'))" for i
    using after unfolding appends_def extends_def by (metis Un_upper1 set_append)
  with insert_usage_counts [OF s] show ?thesis by (fastforce simp: counted_def ids that)
qed

lemma ingest_counts:
  assumes "ingest_usage io (enforce io an) name run source mode u sv = (Inr x, su)" and "sv_running sv name = Some s"
  shows "counted name run (sp_generation s) su u"
proof -
  let ?ev = "assemble_usage_event u name run source (io_now io)"
  have key: "ue_instance ?ev = name" "ue_run ?ev = run" "pu_sequence u = ue_sequence ?ev" by (simp_all add: assemble_usage_event_def)
  have after: "ledger_grows t (apply_evaluation (enforce io an) name evn (publish_bus ev (on_running name f t)))" for t evn ev f
    by (rule growth.step [OF growth.frames(1) [OF growth.frames(2) [OF growth.related_refl]]
          growth.evaluation [of "enforce io an", OF growth.enforce_related]])
  obtain w evn raises en where commit: "commit_usage (io_js io) (io_totals_fault io) ?ev (sp_generation s) (eval_input_of io name run source sv)
        (io_now io) (sv_engine sv) = Inr (w, evn, raises, en)"
      and su: "ledger_grows (sv\<lparr>sv_engine := en\<rparr>) su"
    using assms after by (auto simp: ingest_usage_def Let_def growth.related_refl split: sum.splits option.splits prod.splits)
  from commit_usage_counts [OF commit key(3)] show ?thesis by (auto simp: key intro: counted_grows [OF _ su])
qed

lemma ingests_count:
  assumes "ingest_all (ingest_usage io (enforce io an) name run source mode) us sv = (n, err, su)"
    and "held name sv" "\<not> halted name su \<or> halted name sv" and "sv_running sv name = Some s"
  shows "\<forall>u\<in>set (take n us). counted name run (sp_generation s) su u" and "n = length us \<longleftrightarrow> err = None" and "n \<le> length us"
proof -
  have "(\<forall>u\<in>set (take n us). counted name run (sp_generation s) su u) \<and> (n = length us \<longleftrightarrow> err = None) \<and> n \<le> length us"
    using assms
  proof (induction us arbitrary: sv n s)
    case (Cons u us)
    obtain r t where t: "ingest_usage io (enforce io an) name run source mode u sv = (r, t)"
      by (cases "ingest_usage io (enforce io an) name run source mode u sv")
    show ?case
    proof (cases r)
      case (Inl e)
      with Cons.prems(1) t show ?thesis by auto
    next
      case (Inr x)
      obtain m err' su' where rest: "ingest_all (ingest_usage io (enforce io an) name run source mode) us t = (m, err', su')"
        by (cases "ingest_all (ingest_usage io (enforce io an) name run source mode) us t")
      with Cons.prems(1) t Inr have n: "n = Suc m" "err = err'" "su = su'" by auto
      have one: "steady name sv t" using ingest_steady [of name sv io an run source mode u] t by simp
      have two: "steady name t su" using ingests_steady [of name t io an run source mode us] rest n by simp
      have side: "halted name t \<longrightarrow> halted name sv" using two Cons.prems(3) by (auto simp: steady_def)
      with one Cons.prems(2) have same: "same_handle name sv t" by (auto simp: steady_def)
      then obtain s' where s': "sv_running t name = Some s'" "sp_generation s' = sp_generation s"
        using Cons.prems(4) by (auto simp: same_handle_def drain_part_def)
      have "\<not> halted name su \<or> halted name t" using one two Cons.prems(3) by (auto simp: steady_def)
      from Cons.IH [OF rest [folded n(2,3)] _ this s'(1)] held_same [OF same] Cons.prems(2)
      have IH: "\<forall>u\<in>set (take m us). counted name run (sp_generation s) su u" "m = length us \<longleftrightarrow> err = None" "m \<le> length us"
        by (auto simp: s'(2))
      have "counted name run (sp_generation s) su u"
        using counted_grows [OF ingest_counts [OF t [unfolded Inr] Cons.prems(4)]]
          growth.ingests [of "enforce io an" name t io run source mode us, OF growth.enforce_related] rest n by auto
      with IH show ?thesis by (simp add: n(1))
    qed
  qed simp
  then show "\<forall>u\<in>set (take n us). counted name run (sp_generation s) su u" "n = length us \<longleftrightarrow> err = None" "n \<le> length us" by blast+
qed

section \<open>A pass over a log\<close>

text \<open>Of everything the process has written to the log since the metering of this Run began, the first
  \<open>k\<close> bytes are read, every report in them is counted, and the rest is in the file, past the cursor.\<close>

definition unread :: "usage_channel \<Rightarrow> run_id \<Rightarrow> u64 \<Rightarrow> string \<Rightarrow> supervised option \<Rightarrow> string option \<Rightarrow> bool" where
  "unread ch run g tail handle file \<longleftrightarrow>
     (\<exists>s bytes. handle = Some s \<and> sp_run s = run \<and> sp_generation s = g \<and> \<not> sp_unconfirmed s
        \<and> file = Some bytes \<and> channel_cursor ch s \<le> length bytes \<and> drop (channel_cursor ch s) bytes = tail)"

definition read_to ::
  "(string \<Rightarrow> usage_line option) \<Rightarrow> string \<Rightarrow> usage_channel \<Rightarrow> run_id \<Rightarrow> u64 \<Rightarrow> string \<Rightarrow> nat \<Rightarrow> supervisor \<Rightarrow> bool" where
  "read_to rd name ch run g written k sv \<longleftrightarrow>
     k \<le> length written \<and> unread ch run g (drop k written) (sv_running sv name) (sv_logs sv name ch)
     \<and> (\<forall>u\<in>set (reports_of rd (take k written)). counted name run g sv u)"

text \<open>A loss the operator is told of.\<close>

definition lost :: "string \<Rightarrow> supervisor \<Rightarrow> bool" where
  "lost name sv \<longleftrightarrow> (\<exists>n c a. BlockLost name n \<in> set (sv_notices sv) \<or> BlockSkipped name n c a \<in> set (sv_notices sv))"

lemma lost_mono: "keeps_notices sv su \<Longrightarrow> lost name sv \<Longrightarrow> lost name su"
  by (auto simp: keeps_notices_def lost_def)

lemma complete_len_bounds: "complete_len b \<le> length b" "ends_line (take (complete_len b) b)" "complete_len (drop (complete_len b) b) = 0"
proof -
  let ?rest = "takeWhile (\<lambda>c. c \<noteq> CHR 0x0A) (rev b)" and ?done = "dropWhile (\<lambda>c. c \<noteq> CHR 0x0A) (rev b)"
  have len: "complete_len b = length ?done" by (simp add: complete_len_def)
  have b: "b = rev ?done @ rev ?rest" by (metis rev_append rev_rev_ident takeWhile_dropWhile_id)
  show "complete_len b \<le> length b" using len b by (metis length_append length_rev le_add1)
  have "take (complete_len b) b = rev ?done" using b len by (metis append_eq_conv_conj length_rev)
  moreover have "?done = [] \<or> hd ?done = CHR 0x0A" using hd_dropWhile by blast
  ultimately show "ends_line (take (complete_len b) b)" by (auto simp: ends_line_def last_rev)
  have "drop (complete_len b) b = rev ?rest" using b len by (metis append_eq_conv_conj length_rev)
  then show "complete_len (drop (complete_len b) b) = 0" by (simp add: complete_len_def dropWhile_eq_Nil_conv) (auto dest: set_takeWhileD)
qed

lemma ends_line_append: "ends_line a \<Longrightarrow> ends_line b \<Longrightarrow> ends_line (a @ b)"
  by (auto simp: ends_line_def last_append)

lemma halted_settle [simp]: "halted name (settle_block n mode ch c k r (m, err, t)) = halted name t"
  by (simp add: settle_block_def Let_def)

lemma halted_cut [simp]: "halted name (maybe_truncate_raw_log io n ch t) = halted name t"
  by (simp add: maybe_truncate_raw_log_def split: option.split)

lemma counted_engine: "sv_engine su = sv_engine sv \<Longrightarrow> counted name run g su u = counted name run g sv u"
  by (simp add: counted_def cong: option.case_cong)

lemma cut_keeps:
  assumes "read_to rd name ch run g written k sv"
  shows "read_to rd name ch run g written k (maybe_truncate_raw_log io name ch sv)"
proof -
  let ?out = "maybe_truncate_raw_log io name ch sv"
  have engine: "sv_engine ?out = sv_engine sv" by (simp add: maybe_truncate_raw_log_def split: option.split)
  have "unread ch run g tail (sv_running ?out name) (sv_logs ?out name ch)"
    if before: "unread ch run g tail (sv_running sv name) (sv_logs sv name ch)" for tail
  proof -
    obtain s bytes where old: "sv_running sv name = Some s" "sv_logs sv name ch = Some bytes" using before by (auto simp: unread_def)
    have "sv_running ?out name = Some s \<and> sv_logs ?out name ch = Some bytes
        \<or> length bytes \<le> channel_cursor ch s \<and> sv_running ?out name = Some (channel_set_cursor ch 0 s) \<and> sv_logs ?out name ch = Some []"
      by (simp add: maybe_truncate_raw_log_def old on_running_def)
    moreover have here: "unread ch run g tail (Some s) (Some bytes)" using before by (simp add: old)
    moreover have "unread ch run g tail (Some (channel_set_cursor ch 0 s)) (Some [])" if "length bytes \<le> channel_cursor ch s"
      using here that by (cases ch) (simp_all add: unread_def channel_defs)
    ultimately show ?thesis by (elim disjE conjE) simp_all
  qed
  then show ?thesis using assms by (simp add: read_to_def counted_engine [OF engine])
qed

text \<open>The block read at \<open>k\<close>, settled after its reports.\<close>

lemma settle_keeps:
  assumes "read_to rd name ch run g written k sv" and "same_handle name sv t" and "ledger_grows sv t"
    and us: "reports_of rd (take (k + n) written) = reports_of rd (take k written) @ us" and "k + n \<le> length written"
    and count: "\<forall>u\<in>set (take m us). counted name run g t u" "m = length us \<longleftrightarrow> err = None" "m \<le> length us"
    and told: "\<not> lost name (settle_block name mode ch (channel_cursor ch s) n (length us) (m, err, t))" and s: "sv_running sv name = Some s"
  shows "err = None \<and> read_to rd name ch run g written (k + n) (settle_block name mode ch (channel_cursor ch s) n (length us) (m, err, t))
    \<or> mode = MidRun \<and> read_to rd name ch run g written k (settle_block name mode ch (channel_cursor ch s) n (length us) (m, err, t))
      \<and> (\<exists>s'. sv_running (settle_block name mode ch (channel_cursor ch s) n (length us) (m, err, t)) name = Some s' \<and> channel_park ch s' \<noteq> None)"
proof -
  let ?out = "settle_block name mode ch (channel_cursor ch s) n (length us) (m, err, t)"
  obtain bytes where old: "sp_run s = run" "sp_generation s = g" "\<not> sp_unconfirmed s" "sv_logs sv name ch = Some bytes"
      "channel_cursor ch s \<le> length bytes" "drop (channel_cursor ch s) bytes = drop k written" "k \<le> length written"
    using assms(1) s by (auto simp: read_to_def unread_def)
  obtain s' where s': "sv_running t name = Some s'" "drain_part s' = drain_part s" and logs: "sv_logs t name = sv_logs sv name"
    using assms(2) s by (auto simp: same_handle_def)
  have same: "sp_run s' = run" "sp_generation s' = g" "\<not> sp_unconfirmed s'" "channel_cursor ch s' = channel_cursor ch s"
    using s'(2) old by (auto simp: drain_part_def channel_defs split: usage_channel.splits)
  have kept: "\<forall>u\<in>set (reports_of rd (take k written)). counted name run g t u"
    using assms(1,3) counted_grows unfolding read_to_def by blast
  have tail: "length bytes - channel_cursor ch s = length written - k" using old(6) by (metis length_drop)
  have engine: "sv_engine ?out = sv_engine t" by (simp add: settle_block_def Let_def)
  show ?thesis
  proof (cases "err = None")
    case True
    then have "\<forall>u\<in>set (reports_of rd (take (k + n) written)). counted name run g ?out u"
      unfolding us counted_engine [OF engine] using count kept by auto
    moreover have "?out = on_running name (channel_set_park ch None \<circ> channel_set_cursor ch (channel_cursor ch s + n)) t"
      using True count by (simp add: settle_block_def Let_def)
    moreover have "drop (channel_cursor ch s + n) bytes = drop (k + n) written" using old(6) by (metis add.commute drop_drop)
    then have "unread ch run g (drop (k + n) written)
        (sv_running (on_running name (channel_set_park ch None \<circ> channel_set_cursor ch (channel_cursor ch s + n)) t) name) (sv_logs t name ch)"
      using s' same old(4,5) tail assms(5) by (cases ch) (simp_all add: unread_def on_running_def logs channel_defs)
    ultimately have "read_to rd name ch run g written (k + n) ?out" using assms(5) by (simp add: read_to_def)
    with True show ?thesis by blast
  next
    case False
    with count have m: "m \<noteq> length us" by simp
    have mode: "mode = MidRun" using told m by (cases mode) (auto simp: settle_block_def Let_def lost_def notify_def)
    let ?tries = "next_attempts (case err of Some e \<Rightarrow> is_busy e | None \<Rightarrow> False)
        (Option.bind (sv_running t name) (\<lambda>s'. parked_at (channel_cursor ch s) (channel_park ch s')))"
    have few: "\<not> usage_park_max_attempts \<le> ?tries"
      using told m mode by (auto simp: settle_block_def Let_def lost_def notify_def split: if_splits)
    have out: "?out = on_running name (channel_set_park ch (Some (channel_cursor ch s, ?tries))) t"
      using m mode few by (simp add: settle_block_def Let_def)
    have "unread ch run g (drop k written) (sv_running ?out name) (sv_logs ?out name ch)"
      unfolding out using s' same old by (cases ch) (simp_all add: unread_def on_running_def logs channel_defs)
    then have "read_to rd name ch run g written k ?out" using kept old(7) by (simp add: read_to_def counted_engine [OF engine])
    moreover have "\<exists>s'. sv_running ?out name = Some s' \<and> channel_park ch s' \<noteq> None"
      unfolding out using s' by (cases ch) (simp_all add: on_running_def channel_defs)
    ultimately show ?thesis using mode by blast
  qed
qed

lemma cut_says: "lost name t \<Longrightarrow> lost name (maybe_truncate_raw_log io n ch t)"
  by (auto simp: maybe_truncate_raw_log_def lost_def notify_def on_running_def split: option.split)

lemma cut_parks:
  "\<exists>s. sv_running t name = Some s \<and> channel_park ch s \<noteq> None
    \<Longrightarrow> \<exists>s. sv_running (maybe_truncate_raw_log io name ch t) name = Some s \<and> channel_park ch s \<noteq> None"
  by (cases ch) (auto simp: maybe_truncate_raw_log_def on_running_def notify_def channel_defs split: option.split)

lemma seen_block:
  assumes "read_to rd name ch run g written k sv" and "ends_line (take k written)" and n: "0 < n" "k + n \<le> length written"
    and rd: "io_usage_json io = rd" and us: "us = reports_of rd (take n (drop k written))" and s: "sv_running sv name = Some s"
    and seen: "sv1 = (if us \<noteq> [] then on_running name (\<lambda>s. s\<lparr>sp_seen := True\<rparr>) sv else sv)"
    and out: "out = settle_block name mode ch (channel_cursor ch s) n (length us)
      (ingest_all (ingest_usage io (enforce io an) name (sp_run s) source mode) us sv1)"
    and side: "\<not> halted name out \<or> halted name sv" and told: "\<not> lost name out"
  shows "read_to rd name ch run g written (k + n) out
    \<or> mode = MidRun \<and> read_to rd name ch run g written k out \<and> (\<exists>s'. sv_running out name = Some s' \<and> channel_park ch s' \<noteq> None)"
proof -
  obtain m err t where t: "ingest_all (ingest_usage io (enforce io an) name (sp_run s) source mode) us sv1 = (m, err, t)"
    by (cases "ingest_all (ingest_usage io (enforce io an) name (sp_run s) source mode) us sv1")
  have s': "sp_run s = run" "sp_generation s = g" "\<not> sp_unconfirmed s" using assms(1) s by (auto simp: read_to_def unread_def)
  have pre: "same_handle name sv sv1" "ledger_grows sv sv1" "halted name sv1 = halted name sv"
    by (auto simp: seen same_handle_on_running drain_part_def growth.related_refl intro: growth.frames)
  obtain s1 where s1: "sv_running sv1 name = Some s1" "sp_generation s1 = g"
    using pre(1) s s' by (auto simp: same_handle_def drain_part_def)
  have held: "held name sv1" using held_same [OF pre(1)] s s' by (auto simp: held_def)
  have side': "\<not> halted name t \<or> halted name sv1" using side by (simp add: out t pre(3))
  have steady: "steady name sv1 t" using ingests_steady [of name sv1 io an "sp_run s" source mode us] t by simp
  with held side' have "same_handle name sv1 t" by (auto simp: steady_def)
  with pre(1) have same: "same_handle name sv t" by (simp add: same_handle_def)
  have grows: "ledger_grows sv t"
    using growth.step [OF pre(2) growth.ingests [of "enforce io an" name sv1 io "sp_run s" source mode us, OF growth.enforce_related]] t by simp
  have split: "reports_of rd (take (k + n) written) = reports_of rd (take k written) @ us"
    unfolding take_add us by (rule reports_of_append [OF assms(2)])
  note count = ingests_count [OF t held side' s1(1)]
  show ?thesis
    using settle_keeps [OF assms(1) same grows split n(2) count(1) [unfolded s'(1) s1(2)] count(2,3) _ s, of mode] told
    by (auto simp: out t)
qed

lemma pass_reads:
  assumes "read_to rd name ch run g written k sv" and lines: "ends_line (take k written)" and rd: "io_usage_json io = rd"
    and su: "su = drain_channel io (enforce io an) name mode ch sv"
    and side: "\<not> halted name su \<or> halted name sv" and told: "\<not> lost name su"
  shows "\<exists>k'. read_to rd name ch run g written k' su \<and> (k' = length written \<or> ends_line (take k' written))
    \<and> (mode = MidRun \<longrightarrow> ends_line (take k' written))
    \<and> (mode = TerminalDrain \<and> (io_reads io \<or> k = length written) \<longrightarrow> k' = length written)
    \<and> (mode = MidRun \<and> io_reads io \<longrightarrow> complete_len (drop k' written) = 0
         \<or> (\<exists>s. sv_running su name = Some s \<and> channel_park ch s \<noteq> None))"
proof -
  let ?tail = "drop k written"
  obtain s bytes where s: "sv_running sv name = Some s" "sv_logs sv name ch = Some bytes" "channel_cursor ch s \<le> length bytes"
      "drop (channel_cursor ch s) bytes = ?tail" and k: "k \<le> length written"
    using assms(1) by (auto simp: read_to_def unread_def)
  have at_end: "length bytes = channel_cursor ch s \<longleftrightarrow> ?tail = []" using s(3,4) by (metis drop_eq_Nil dual_order.eq_iff)
  show ?thesis
  proof (cases "io_reads io \<or> ?tail = []")
    case False
    then have "su = sv" using s at_end by (simp add: su drain_channel_def read_usage_tail_def)
    with assms(1) lines False show ?thesis by auto
  next
    case True
    then have tail: "read_usage_tail (io_reads io) (sv_logs sv name ch) (channel_cursor ch s) = Tail ?tail"
      using s at_end by (auto simp: read_usage_tail_def)
    define n where "n = (case mode of TerminalDrain \<Rightarrow> length ?tail | MidRun \<Rightarrow> complete_len ?tail)"
    have n: "n \<le> length ?tail" using complete_len_bounds(1) [of ?tail] by (simp add: n_def split: drain_mode.split)
    show ?thesis
    proof (cases "n = 0")
      case none: True
      then have "su = maybe_truncate_raw_log io name ch sv"
        using s tail by (simp add: su drain_channel_def plan_drain_def n_def [symmetric])
      with cut_keeps [OF assms(1)] lines none k show ?thesis by (auto simp: n_def split: drain_mode.splits)
    next
      case False
      let ?us = "reports_of rd (take n ?tail)"
      let ?sv1 = "if ?us \<noteq> [] then on_running name (\<lambda>s. s\<lparr>sp_seen := True\<rparr>) sv else sv"
      let ?out = "settle_block name mode ch (channel_cursor ch s) n (length ?us)
          (ingest_all (ingest_usage io (enforce io an) name (sp_run s) (channel_source ch s) mode) ?us ?sv1)"
      have out: "su = maybe_truncate_raw_log io name ch ?out"
        using s tail False by (simp add: su drain_channel_def plan_drain_def n_def [symmetric] Let_def rd reports_of_def)
      have k': "k + n \<le> length written" using n k by simp
      have finished: "ends_line (take (k + n) written)" "complete_len (drop (k + n) written) = 0" if "mode = MidRun"
        using complete_len_bounds(2,3) [of ?tail] ends_line_append [OF lines] that
        by (auto simp: n_def take_add) (metis add.commute drop_drop)
      have "\<not> halted name ?out \<or> halted name sv" using side by (simp add: out)
      moreover have "\<not> lost name ?out" using told [unfolded out] cut_says by blast
      ultimately have "read_to rd name ch run g written (k + n) ?out \<or> mode = MidRun \<and> read_to rd name ch run g written k ?out
          \<and> (\<exists>s'. sv_running ?out name = Some s' \<and> channel_park ch s' \<noteq> None)"
        using seen_block [OF assms(1) lines _ k' rd refl s(1) refl refl, of mode an "channel_source ch s"] False by simp
      then show ?thesis
      proof (elim disjE conjE)
        assume "read_to rd name ch run g written (k + n) ?out"
        from cut_keeps [OF this] finished k' n show ?thesis unfolding out by (intro exI [of _ "k + n"]) (auto simp: n_def split: drain_mode.splits)
      next
        assume "mode = MidRun" "read_to rd name ch run g written k ?out" "\<exists>s'. sv_running ?out name = Some s' \<and> channel_park ch s' \<noteq> None"
        with cut_keeps [of rd name ch run g written k ?out io] cut_parks [of ?out name ch io, folded out] lines show ?thesis
          unfolding out [symmetric] by (intro exI [of _ k] conjI impI disjI2) (assumption | simp)+
      qed
    qed
  qed
qed

section \<open>Everything else leaves the log alone\<close>

definition same_channel :: "string \<Rightarrow> usage_channel \<Rightarrow> supervisor \<Rightarrow> supervisor \<Rightarrow> bool" where
  "same_channel name ch sv su \<longleftrightarrow> sv_logs su name ch = sv_logs sv name ch
     \<and> map_option (\<lambda>s. (sp_run s, sp_generation s, sp_unconfirmed s, sp_acp s, channel_cursor ch s)) (sv_running su name)
       = map_option (\<lambda>s. (sp_run s, sp_generation s, sp_unconfirmed s, sp_acp s, channel_cursor ch s)) (sv_running sv name)"

lemma same_channel_trans: "same_channel name ch sv su \<Longrightarrow> same_channel name ch su st \<Longrightarrow> same_channel name ch sv st"
  by (simp add: same_channel_def)

lemma same_channel_handle: "same_handle name sv su \<Longrightarrow> same_channel name ch sv su"
  by (cases "sv_running sv name"; cases "sv_running su name"; cases ch) (auto simp: same_channel_def same_handle_def drain_part_def channel_defs)

lemma read_to_keep:
  assumes "read_to rd name ch run g written k sv" and "same_channel name ch sv su" and "ledger_grows sv su"
  shows "read_to rd name ch run g written k su"
proof -
  have "unread ch run g tail (sv_running su name) (sv_logs su name ch)" if "unread ch run g tail (sv_running sv name) (sv_logs sv name ch)" for tail
    using that assms(2) by (cases "sv_running su name") (auto simp: unread_def same_channel_def)
  with assms(1,3) show ?thesis by (auto simp: read_to_def intro: counted_grows)
qed

definition is_acp :: "string \<Rightarrow> supervisor \<Rightarrow> bool" where
  "is_acp name sv \<longleftrightarrow> (case sv_running sv name of Some s \<Rightarrow> sp_acp s | None \<Rightarrow> False)"

lemma is_acp_same: "same_channel name ch sv su \<Longrightarrow> is_acp name su = is_acp name sv"
  by (cases "sv_running sv name"; cases "sv_running su name") (auto simp: same_channel_def is_acp_def)

lemma other_channel_pass:
  assumes "ch' \<noteq> ch" and "held name sv" and su: "su = drain_channel io (enforce io an) name mode ch' sv"
    and side: "\<not> halted name su \<or> halted name sv"
  shows "same_channel name ch sv su"
proof -
  have refl: "same_channel name ch t t" for t by (simp add: same_channel_def)
  have cut: "same_channel name ch t (maybe_truncate_raw_log io name ch' t)" for t
    using assms(1) by (cases ch; cases ch') (auto simp: same_channel_def maybe_truncate_raw_log_def on_running_def notify_def channel_defs split: option.split)
  have settled: "same_channel name ch t (settle_block name mode ch' c n r (m, err, t))" for t c n r m err
    using assms(1) by (cases ch; cases ch') (auto simp: same_channel_def settle_block_def Let_def on_running_def notify_def channel_defs split: option.split)
  have block: "same_channel name ch sv (settle_block name mode ch' c n r (ingest_all (ingest_usage io (enforce io an) name run source mode) us sv1))"
    if seen: "same_handle name sv sv1" "halted name sv1 = halted name sv"
      and "\<not> halted name (settle_block name mode ch' c n r (ingest_all (ingest_usage io (enforce io an) name run source mode) us sv1)) \<or> halted name sv"
    for sv1 c n r run source us
  proof -
    obtain m err t where t: "ingest_all (ingest_usage io (enforce io an) name run source mode) us sv1 = (m, err, t)"
      by (cases "ingest_all (ingest_usage io (enforce io an) name run source mode) us sv1")
    have "steady name sv1 t" using ingests_steady [of name sv1 io an run source mode us] t by simp
    then have "same_handle name sv1 t" using that assms(2) held_same [OF seen(1)] by (auto simp: steady_def t)
    with seen(1) have "same_channel name ch sv t" using same_channel_handle same_channel_trans by blast
    with settled show ?thesis unfolding t by (rule same_channel_trans [rotated])
  qed
  have shrunk: "same_channel name ch sv (on_running name (channel_set_cursor ch' n) sv)" for n
    using assms(1) by (cases ch; cases ch') (auto simp: same_channel_def on_running_def channel_defs split: option.split)
  have seen: "same_handle name sv (on_running name (\<lambda>s. s\<lparr>sp_seen := True\<rparr>) sv)" by (simp add: same_handle_on_running drain_part_def)
  show ?thesis
    using side unfolding su drain_channel_def
    by (auto simp: Let_def refl shrunk seen simp del: ingest_all.simps
        split: option.split usage_tail.split drain_plan.split intro!: same_channel_trans [OF _ cut] block)
qed

lemma observed_pass:
  assumes "held name sv" and su: "su = drain_observed_for io (enforce io an) name mode sv" and side: "\<not> halted name su \<or> halted name sv"
  shows "same_handle name sv su"
proof -
  have trans: "same_handle name sv t \<Longrightarrow> same_handle name t u \<Longrightarrow> same_handle name sv u" for t u by (simp add: same_handle_def)
  have queue: "same_handle name sv (on_running name f sv)" if "\<And>s. drain_part (f s) = drain_part s" for f
    by (simp add: same_handle_on_running that)
  have park: "drain_part (set_observed_park p s) = drain_part s" for p s by (simp add: set_observed_park_def drain_part_def)
  have parked: "same_handle name t (park_observed name busy us t) \<and> halted name (park_observed name busy us t) = halted name t" for busy us t
    by (auto simp: park_observed_def cap_observed_park_buffer_def Let_def same_handle_on_running park split: list.split)
  have block: "same_handle name sv t" if "ingest_all (ingest_usage io (enforce io an) name run source mode) us (on_running name f sv) = (m, err, t)"
      "\<And>s. drain_part (f s) = drain_part s" "\<not> halted name t \<or> halted name sv" for run source us f m err t
  proof -
    have "steady name (on_running name f sv) t" using ingests_steady [of name "on_running name f sv" io an run source mode us] that(1) by simp
    with queue [OF that(2)] held_same [OF queue [OF that(2)]] that(3) assms(1) show ?thesis by (auto simp: steady_def intro: trans)
  qed
  have drained: "drain_part (s\<lparr>sp_queue := q, sp_minter := c\<rparr>) = drain_part s" for s q c by (simp add: drain_part_def)
  show ?thesis
  proof (cases "\<exists>s queue counter. sv_running sv name = Some s \<and> sp_queue s = Some queue \<and> sp_minter s = Some counter")
    case False
    then have "su = sv" by (auto simp: su drain_observed_for_def split: option.splits)
    then show ?thesis by simp
  next
    case True
    then obtain s q c where s: "sv_running sv name = Some s" "sp_queue s = Some q" "sp_minter s = Some c" by blast
    obtain minted c' where minted: "mint_all c q = (minted, c')" by (cases "mint_all c q")
    let ?f = "\<lambda>s. s\<lparr>sp_queue := Some [], sp_minter := Some c'\<rparr>"
    let ?events = "(case sp_observed_park s of Some (pending, _) \<Rightarrow> op_events pending | None \<Rightarrow> []) @ minted"
    obtain m err t where t: "ingest_all (ingest_usage io (enforce io an) name (sp_run s) (sp_source s) mode) ?events (on_running name ?f sv) = (m, err, t)"
      by (metis prod_cases3)
    note unfold = su drain_observed_for_def s minted t Let_def
    show ?thesis
    proof (cases "?events = []")
      case True
      then show ?thesis using queue [of ?f] drained by (simp add: unfold)
    next
      case False
      have after: "same_handle name t su \<and> halted name su = halted name t"
        using False by (auto simp: unfold same_handle_on_running park parked)
      with side have "\<not> halted name t \<or> halted name sv" by simp
      from trans [OF block [OF t drained this]] after show ?thesis by blast
    qed
  qed
qed

lemma read_to_held: "read_to rd name ch run g written k sv \<Longrightarrow> held name sv"
  by (auto simp: read_to_def unread_def held_def)

lemma pass_halted: "halted name sv \<Longrightarrow> halted name (drain_channel io (enforce io an) name mode ch sv)"
  using drain_channel_agree [OF enforce_steady(1)] by blast

lemma pass_says: "lost name sv \<Longrightarrow> lost name (drain_channel io (enforce io an) name mode ch sv)"
  using lost_mono saying.channel_drain [of "enforce io an" name sv io mode ch, OF saying.enforce_related] by blast

lemma own_pass:
  assumes "read_to rd name ch run g written k sv" and "ends_line (take k written)" and "io_usage_json io = rd"
    and su: "su = drain_channel io (enforce io an) name mode ch sv" and "\<not> halted name su \<or> halted name sv" and "\<not> lost name su"
  shows "\<exists>k'. read_to rd name ch run g written k' su \<and> (k' = length written \<or> ends_line (take k' written))
    \<and> (mode = MidRun \<longrightarrow> ends_line (take k' written)) \<and> (mode = TerminalDrain \<and> io_reads io \<longrightarrow> k' = length written)
    \<and> is_acp name su = is_acp name sv"
proof -
  have "\<exists>other. ch \<noteq> (other :: usage_channel)" by (metis usage_channel.distinct(1))
  then obtain other where other: "ch \<noteq> other" by blast
  have "is_acp name su = is_acp name sv"
    using is_acp_same [OF other_channel_pass [OF other read_to_held [OF assms(1)] su assms(5)]] .
  with pass_reads [OF assms(1-3) su assms(5,6)] show ?thesis by (cases mode) auto
qed

lemma other_pass:
  assumes "read_to rd name ch run g written k sv" and "ch' \<noteq> ch"
    and su: "su = drain_channel io (enforce io an) name mode ch' sv" and side: "\<not> halted name su \<or> halted name sv"
  shows "read_to rd name ch run g written k su \<and> is_acp name su = is_acp name sv"
proof -
  note same = other_channel_pass [OF assms(2) read_to_held [OF assms(1)] su side]
  have "ledger_grows sv su" unfolding su by (rule growth.channel_drain [of "enforce io an", OF growth.enforce_related])
  with read_to_keep [OF assms(1) same] is_acp_same [OF same] show ?thesis by blast
qed

lemma log_drain_reads:
  assumes "read_to rd name ch run g written k sv" and "ends_line (take k written)" and "io_usage_json io = rd"
    and su: "su = drain_self_reported_for io (enforce io an) name mode sv" and side: "\<not> halted name su \<or> halted name sv" and told: "\<not> lost name su"
  shows "\<exists>k'. read_to rd name ch run g written k' su \<and> (k' = length written \<or> ends_line (take k' written))
    \<and> (mode = MidRun \<longrightarrow> ends_line (take k' written))
    \<and> (mode = TerminalDrain \<and> io_reads io \<and> (ch = Stdout \<or> is_acp name sv) \<longrightarrow> k' = length written)
    \<and> is_acp name su = is_acp name sv"
proof -
  let ?one = "drain_channel io (enforce io an) name mode Stdout sv"
  let ?two = "drain_channel io (enforce io an) name mode Stderr ?one"
  have su: "su = (if is_acp name ?one then ?two else ?one)" by (simp add: su drain_self_reported_for_def is_acp_def Let_def)
  have one: "\<not> halted name ?one \<or> halted name sv" "\<not> lost name ?one"
    using side told by (auto simp: su dest: pass_says pass_halted split: if_splits)
  have two: "\<not> halted name ?two \<or> halted name ?one" "\<not> lost name ?two" if "is_acp name ?one"
    using side told that by (auto simp: su dest: pass_halted)
  show ?thesis
  proof (cases ch)
    case Stdout
    obtain k1 where k1: "read_to rd name Stdout run g written k1 ?one" "k1 = length written \<or> ends_line (take k1 written)"
        "mode = MidRun \<longrightarrow> ends_line (take k1 written)" "mode = TerminalDrain \<and> io_reads io \<longrightarrow> k1 = length written"
        "is_acp name ?one = is_acp name sv"
      using own_pass [OF assms(1-3) _ _ _] one Stdout by blast
    show ?thesis
    proof (cases "is_acp name ?one")
      case True
      with k1 other_pass [OF k1(1) _ refl two(1) [OF True]] show ?thesis by (intro exI [of _ k1]) (simp add: su Stdout)
    qed (use k1 in \<open>auto simp: su Stdout\<close>)
  next
    case Stderr
    note k1 = other_pass [OF assms(1) _ refl one(1), unfolded Stderr, simplified]
    show ?thesis
    proof (cases "is_acp name ?one")
      case True
      with k1 own_pass [OF conjunct1 [OF k1] assms(2,3) refl two [OF True]] show ?thesis by (simp add: su Stderr)
    next
      case False
      with k1 assms(2) show ?thesis by (intro exI [of _ k]) (simp add: su Stderr)
    qed
  qed
qed

section \<open>The life of a metered process\<close>

text \<open>What happens to the logs of a held process: it writes, and the reaper passes.\<close>

datatype 'text metering_event =
  Wrote usage_channel string
| LogPass "'text surroundings" answers
| ObservedPass "'text surroundings" answers

fun metering_step :: "string \<Rightarrow> 'text metering_event \<Rightarrow> supervisor \<Rightarrow> supervisor" where
  "metering_step name (Wrote ch bytes) sv = append_log name ch bytes sv"
| "metering_step name (LogPass io an) sv = drain_self_reported_for io (enforce io an) name MidRun sv"
| "metering_step name (ObservedPass io an) sv = drain_observed_for io (enforce io an) name MidRun sv"

fun written_in :: "usage_channel \<Rightarrow> 'text metering_event \<Rightarrow> string" where
  "written_in ch (Wrote c bytes) = (if c = ch then bytes else [])"
| "written_in ch (LogPass io an) = []"
| "written_in ch (ObservedPass io an) = []"

definition written :: "usage_channel \<Rightarrow> 'text metering_event list \<Rightarrow> string" where
  "written ch evs = concat (map (written_in ch) evs)"

fun decodes_with :: "(string \<Rightarrow> usage_line option) \<Rightarrow> 'text metering_event \<Rightarrow> bool" where
  "decodes_with rd (Wrote c bytes) = True"
| "decodes_with rd (LogPass io an) = (io_usage_json io = rd)"
| "decodes_with rd (ObservedPass io an) = (io_usage_json io = rd)"

lemma append_log_reads:
  assumes "read_to rd name ch run g w k sv" and "ends_line (take k w)"
  shows "read_to rd name ch run g (w @ (if c = ch then bytes else [])) k (append_log name c bytes sv)"
proof -
  have engine: "sv_engine (append_log name c bytes sv) = sv_engine sv" by (simp add: append_log_def split: option.split)
  have "unread ch run g (tail @ (if c = ch then bytes else [])) (sv_running (append_log name c bytes sv) name) (sv_logs (append_log name c bytes sv) name ch)"
    if "unread ch run g tail (sv_running sv name) (sv_logs sv name ch)" for tail
    using that by (auto simp: unread_def append_log_def split: option.split)
  then show ?thesis using assms by (simp add: read_to_def counted_engine [OF engine])
qed

lemma metering_step_mono:
  "halted name sv \<Longrightarrow> halted name (metering_step name st sv)" "lost name sv \<Longrightarrow> lost name (metering_step name st sv)"
proof -
  have logs: "halted name (append_log name c b sv) = halted name sv" "sv_notices (append_log name c b sv) = sv_notices sv" for c b
    by (simp_all add: append_log_def split: option.split)
  show "halted name sv \<Longrightarrow> halted name (metering_step name st sv)"
    using drain_self_reported_agree [OF enforce_steady(1)] drain_observed_agree [OF enforce_steady(1)] logs by (cases st) auto
  have "keeps_notices sv (metering_step name st sv)"
    using saying.log_drains [of "enforce _ _", OF saying.enforce_related] saying.observed_drain [of "enforce _ _", OF saying.enforce_related]
    by (cases st) (simp_all add: keeps_notices_def logs(2))
  then show "lost name sv \<Longrightarrow> lost name (metering_step name st sv)" by (rule lost_mono)
qed

lemma metering_step_reads:
  assumes "read_to rd name ch run g w k sv" and "ends_line (take k w)" and "decodes_with rd st"
    and "\<not> halted name (metering_step name st sv)" and "\<not> lost name (metering_step name st sv)"
  shows "\<exists>k'. read_to rd name ch run g (w @ written_in ch st) k' (metering_step name st sv) \<and> ends_line (take k' (w @ written_in ch st))"
proof (cases st)
  case (Wrote c bytes)
  have "k \<le> length w" using assms(1) by (simp add: read_to_def)
  with append_log_reads [OF assms(1,2), of c bytes] assms(2) show ?thesis unfolding Wrote by (intro exI [of _ k]) simp
next
  case (LogPass io an)
  with log_drain_reads [OF assms(1,2) _ refl, of io an MidRun] assms(3-5) show ?thesis by auto
next
  case (ObservedPass io an)
  have "same_handle name sv (metering_step name st sv)"
    using observed_pass [OF read_to_held [OF assms(1)] refl, of io an MidRun] assms(4) by (simp add: ObservedPass)
  moreover have "ledger_grows sv (metering_step name st sv)"
    unfolding ObservedPass by (simp add: growth.observed_drain [of "enforce io an", OF growth.enforce_related])
  ultimately show ?thesis
    using read_to_keep [OF assms(1) same_channel_handle] assms(2) by (intro exI [of _ k]) (simp add: ObservedPass)
qed

lemma metering_steps_reads:
  assumes "read_to rd name ch run g w k sv" and "ends_line (take k w)" and "\<forall>st\<in>set evs. decodes_with rd st"
    and "\<not> halted name (fold (metering_step name) evs sv)" and "\<not> lost name (fold (metering_step name) evs sv)"
  shows "\<exists>k'. read_to rd name ch run g (w @ written ch evs) k' (fold (metering_step name) evs sv)
    \<and> ends_line (take k' (w @ written ch evs))"
  using assms
proof (induction evs arbitrary: w k sv)
  case (Cons st evs)
  have mono: "halted name t \<Longrightarrow> halted name (fold (metering_step name) ss t)" "lost name t \<Longrightarrow> lost name (fold (metering_step name) ss t)"
    for t and ss :: "'c metering_event list"
    by (induction ss arbitrary: t) (simp_all add: metering_step_mono)
  have now: "\<not> halted name (metering_step name st sv)" "\<not> lost name (metering_step name st sv)"
    using Cons.prems(4,5) mono by auto
  obtain k' where "read_to rd name ch run g (w @ written_in ch st) k' (metering_step name st sv)" "ends_line (take k' (w @ written_in ch st))"
    using metering_step_reads [OF Cons.prems(1,2) _ now] Cons.prems(3) by auto
  from Cons.IH [OF this] Cons.prems(3-5) show ?case by (simp add: written_def)
qed (auto simp: written_def)


end
