(* ===== verification/Stop_Facts.thy ===== *)
theory Stop_Facts
  imports Usage_Accounting
begin

text \<open>
  What a stop answers, and what it leaves in the ledger (\<open>stop_inner\<close> of \<open>domain/supervisor/lifecycle.rs\<close>).
\<close>

section \<open>A stop\<close>

text \<open>The three ways through \<open>stop_inner\<close>.\<close>

lemma supervised_transition_error: "supervised_transition io name p q c sv = (Inl er, su) \<Longrightarrow> \<exists>e. er = EngineStore e"
  by (auto simp: supervised_transition_def Let_def split: sum.splits prod.splits)

lemma looked_up_error: "looked_up name sv = Inl er \<Longrightarrow> er \<noteq> EngineStopUnconfirmed n t"
  by (cases "lookup_instance name (en_db (sv_engine sv))") (auto simp: looked_up_def elim: registry_to_engine.elims)

lemma next_stop_states: "next_state st Stop = Inr st' \<Longrightarrow> st' = Stopping \<and> st \<in> {Running, Paused}"
  by (cases st) simp_all

lemma stop_inner_elim:
  assumes go: "stop_inner io an e name w c d sv = (r, su)"
  obtains (refused) er where "r = Inl er" "\<And>n t. er \<noteq> EngineStopUnconfirmed n t"
  | (retry) i s where "looked_up name sv = Inr i" "ai_state i = Stopping" "sv_running sv name = Some s" "sp_unconfirmed s"
      "retry_stop io an name sv = (r, su)"
  | (run) i t cause v where "looked_up name sv = Inr i" "ai_state i \<in> {Running, Paused}"
      "supervised_transition io name (ai_state i) Stopping cause (reacquire io an name sv) = (Inr (), t)"
      "run_stop io an e name v (ai_state i) Stopping d t = (r, su)"
proof (cases "instance_name_new name")
  case (Inl reason)
  with go show ?thesis by (intro refused [of "EngineInvalidName name reason"]) (simp_all add: stop_inner_def)
next
  case (Inr n)
  then have n: "instance_name_new name = Inr name" using instance_name_new_Inr by simp
  show ?thesis
  proof (cases "looked_up name sv")
    case (Inl er)
    with go n looked_up_error [OF Inl] show ?thesis by (intro refused [of er]) (simp_all add: stop_inner_def)
  next
    case i: (Inr i)
    let ?stuck = "ai_state i = Stopping \<and> (case sv_running sv name of Some s \<Rightarrow> sp_unconfirmed s | None \<Rightarrow> False)"
    let ?cause = "case c of Some c \<Rightarrow> c | None \<Rightarrow> CommandCause ''stop''"
    show ?thesis
    proof (cases ?stuck)
      case True
      with go n i show ?thesis by (intro retry [of i "the (sv_running sv name)"]) (auto simp: stop_inner_def split: option.splits)
    next
      case fresh: False
      show ?thesis
      proof (cases "next_state (ai_state i) Stop")
        case (Inl er)
        with go n i fresh show ?thesis by (intro refused [of "EngineInvalidTransition er"]) (auto simp: stop_inner_def)
      next
        case (Inr st')
        note st = next_stop_states [OF Inr]
        obtain q t where t: "supervised_transition io name (ai_state i) Stopping ?cause (reacquire io an name sv) = (q, t)"
          by (cases "supervised_transition io name (ai_state i) Stopping ?cause (reacquire io an name sv)")
        show ?thesis
        proof (cases "an_log_dir an = None \<and> (\<exists>u. q = Inr u)")
          case True
          with go n i fresh Inr st t show ?thesis by (intro run [of i ?cause t]) (auto simp: stop_inner_def)
        next
          case False
          then show ?thesis using go n i fresh Inr st t
            by (intro refused [of "case an_log_dir an of Some detail \<Rightarrow> EngineLog name detail | None \<Rightarrow> projl q"])
              (auto simp: stop_inner_def split: option.splits sum.splits dest: supervised_transition_error)
        qed
      qed
    qed
  qed
qed

lemma forget_running [simp]: "sv_running (forget name sv) name = None"
  by (simp add: forget_def)

lemma settle_record_frame: "settle_record name sv = (r, su) \<Longrightarrow> sv_running su = sv_running sv \<and> sv_logs su = sv_logs sv"
  by (auto simp: settle_record_def split: sum.splits prod.splits)

lemma stopped_end:
  assumes "supervised_transition io name p Stopped c sv = (Inr u, su)" and "looked_up name su = Inr i"
  shows "ai_state i = Stopped"
  using supervised_transition_Inr(2) [OF assms(1)] assms(2) by (auto simp: looked_up_def split: sum.splits)

lemma settle_record_error: "settle_record name sv = (Inl er, su) \<Longrightarrow> \<exists>e. er = EngineStore e"
  by (auto simp: settle_record_def split: sum.splits prod.splits)

text \<open>The end both ways share: the record is settled, the transition committed, the instance read back.\<close>

lemma ending:
  assumes "(case settle_record name t of
        (Inl e, sv) \<Rightarrow> (Inl e, sv)
      | (Inr _, sv) \<Rightarrow> (case supervised_transition io name p Stopped c sv of
            (Inl e, sv) \<Rightarrow> (Inl e, sv)
          | (Inr _, sv) \<Rightarrow> (looked_up name sv, sv))) = (r, su)"
  shows "sv_running su = sv_running t" and "r = Inr i \<Longrightarrow> ai_state i = Stopped" and "r \<noteq> Inl (EngineStopUnconfirmed n k)"
    and "ledger_grows t su" and "keeps_notices t su"
proof -
  obtain q t1 where t1: "settle_record name t = (q, t1)" by (cases "settle_record name t")
  obtain x t2 where t2: "supervised_transition io name p Stopped c t1 = (x, t2)" by (cases "supervised_transition io name p Stopped c t1")
  note frame = settle_record_frame [OF t1] supervised_transition_frame [OF t2]
  note grow = growth.settle [OF t1] growth.transition [OF t2] and say = saying.settle [OF t1] saying.transition [OF t2]
  note err = settle_record_error [of name t] supervised_transition_error [of io name p Stopped c t1] looked_up_error [of name t2]
  have "sv_running su = sv_running t \<and> (r = Inr i \<longrightarrow> ai_state i = Stopped) \<and> r \<noteq> Inl (EngineStopUnconfirmed n k) \<and> ledger_grows t su
      \<and> keeps_notices t su"
  proof (cases q)
    case (Inl e)
    with assms t1 frame(1) grow(1) say(1) err(1) show ?thesis by auto
  next
    case q: (Inr u)
    have both: "ledger_grows t t2" "keeps_notices t t2" using grow say by (blast intro: growth.step saying.step)+
    show ?thesis
    proof (cases x)
      case (Inl e)
      with assms t1 t2 q frame both err(2) show ?thesis by auto
    next
      case (Inr u)
      with assms t1 t2 q have out: "r = looked_up name t2" "su = t2" by auto
      have "r = Inr i \<longrightarrow> ai_state i = Stopped" using stopped_end [OF t2 [unfolded Inr]] out by auto
      with out frame both err(3) show ?thesis by (cases r) auto
    qed
  qed
  then show "sv_running su = sv_running t" "r = Inr i \<Longrightarrow> ai_state i = Stopped" "r \<noteq> Inl (EngineStopUnconfirmed n k)" "ledger_grows t su"
    "keeps_notices t su" by blast+
qed

lemma retry_stop_outcome:
  assumes "retry_stop io an name sv = (r, su)"
  shows "r = Inr i \<Longrightarrow> ai_state i = Stopped \<and> sv_running su name = None \<and> (\<exists>code. an_poll an = Inr (Exited code))"
    and "r = Inl (EngineStopUnconfirmed n t) \<Longrightarrow> su = sv"
proof -
  have "(\<exists>code. an_poll an = Inr (Exited code)) \<or> (\<exists>er. r = Inl er) \<and> su = sv"
    using assms by (auto simp: retry_stop_def split: sum.splits process_status.splits)
  moreover have "sv_running su name = None \<and> (r = Inr i \<longrightarrow> ai_state i = Stopped) \<and> r \<noteq> Inl (EngineStopUnconfirmed n t)"
    if "an_poll an = Inr (Exited code)" for code
  proof -
    note finish = ending [OF assms [unfolded retry_stop_def that sum.case process_status.case]]
    show ?thesis using finish(1,2) finish(3) [of n t] by simp
  qed
  ultimately show "r = Inr i \<Longrightarrow> ai_state i = Stopped \<and> sv_running su name = None \<and> (\<exists>code. an_poll an = Inr (Exited code))"
    "r = Inl (EngineStopUnconfirmed n t) \<Longrightarrow> su = sv" by blast+
qed

text \<open>The last drains find the state they left.\<close>

lemma halted_held_steady: "steady name sv su \<Longrightarrow> halted name sv \<Longrightarrow> held name sv \<Longrightarrow> same_handle name sv su \<and> halted name su \<and> held name su"
  using held_same by (auto simp: steady_def)

lemma same_channel_held: "same_channel name ch sv su \<Longrightarrow> held name su = held name sv"
  by (cases "sv_running sv name"; cases "sv_running su name") (auto simp: same_channel_def held_def)

lemma pass_held:
  assumes "held name sv" and "halted name sv"
  shows "held name (drain_channel io (enforce io an) name mode ch sv)"
proof -
  have "\<exists>other. ch \<noteq> (other :: usage_channel)" by (metis usage_channel.distinct(1))
  then obtain other where other: "ch \<noteq> other" by blast
  show ?thesis using same_channel_held [OF other_channel_pass [OF other assms(1) refl]] assms by blast
qed

definition terminal_drains :: "'text surroundings \<Rightarrow> answers \<Rightarrow> string \<Rightarrow> supervisor \<Rightarrow> supervisor" where
  "terminal_drains io an name sv =
     drain_observed_for io (enforce io an) name TerminalDrain (drain_self_reported_for io (enforce io an) name TerminalDrain sv)"

lemma log_drain_held:
  assumes "held name sv" and "halted name sv"
  shows "held name (drain_self_reported_for io (enforce io an) name mode sv)"
  using assms by (simp add: drain_self_reported_for_def Let_def pass_held pass_halted)

lemma terminal_drains_held:
  assumes "held name sv" and "halted name sv"
  shows "held name (terminal_drains io an name sv)"
proof -
  let ?one = "drain_self_reported_for io (enforce io an) name TerminalDrain sv"
  have "halted name ?one" using drain_self_reported_agree [OF enforce_steady(1) assms(2)] by blast
  then have "same_handle name ?one (drain_observed_for io (enforce io an) name TerminalDrain ?one)"
    by (intro observed_pass [OF log_drain_held [OF assms] refl]) simp
  from held_same [OF this] log_drain_held [OF assms, of io an TerminalDrain] show ?thesis by (simp add: terminal_drains_def)
qed

lemma drains_unheld:
  "sv_running sv name = None \<Longrightarrow> drain_self_reported_for io e name mode sv = sv"
  "sv_running sv name = None \<Longrightarrow> drain_observed_for io e name mode sv = sv"
  by (simp_all add: drain_self_reported_for_def drain_channel_def drain_observed_for_def Let_def)

definition stop_start :: "answers \<Rightarrow> lifecycle_state \<Rightarrow> string \<Rightarrow> supervisor \<Rightarrow> supervisor" where
  "stop_start an st name sv = fold notify (an_cancel an) (resume_paused an st name sv)"

lemma stop_start_frame:
  "sv_engine (stop_start an st name sv) = sv_engine sv" "sv_running (stop_start an st name sv) = sv_running sv"
  "sv_logs (stop_start an st name sv) = sv_logs sv"
proof -
  have said: "sv_engine (fold notify ns t) = sv_engine t \<and> sv_running (fold notify ns t) = sv_running t \<and> sv_logs (fold notify ns t) = sv_logs t"
    for ns t by (induction ns arbitrary: t) simp_all
  show "sv_engine (stop_start an st name sv) = sv_engine sv" "sv_running (stop_start an st name sv) = sv_running sv"
    "sv_logs (stop_start an st name sv) = sv_logs sv"
    by (simp_all add: stop_start_def said resume_paused_def split: option.split)
qed

text \<open>What an accepted stop comes to.\<close>

lemma run_stop_parts:
  assumes go: "run_stop io an (enforce io an) name v st p d sv = (r, su)"
    and drained: "drained = terminal_drains io an name (stop_start an st name sv)"
  shows "(\<exists>er. stop_ladder an name drained = (Inl er, su) \<and> r = Inl er)
    \<or> (\<exists>forced died gone. stop_ladder an name drained = (Inr forced, died)
        \<and> gone = drain_self_reported_for io (enforce io an) name TerminalDrain died
        \<and> ledger_grows gone su \<and> keeps_notices gone su \<and> sv_running su name = None
        \<and> r \<noteq> Inl (EngineStopUnconfirmed n k) \<and> (r = Inr i \<longrightarrow> ai_state i = Stopped))"
proof -
  obtain x died where died: "stop_ladder an name drained = (x, died)" by (cases "stop_ladder an name drained")
  note go' = go [unfolded run_stop_def Let_def, folded stop_start_def, folded terminal_drains_def, folded drained, unfolded died]
  show ?thesis
  proof (cases x)
    case (Inl er)
    with go' died show ?thesis by simp
  next
    case (Inr forced)
    let ?gone = "drain_self_reported_for io (enforce io an) name TerminalDrain died"
    note finish = ending [OF go' [unfolded Inr prod.case sum.case]]
    have "ledger_grows ?gone (forget name (unlink_raw_logs_if_metadata an name ?gone))"
        "keeps_notices ?gone (forget name (unlink_raw_logs_if_metadata an name ?gone))"
      by (rule growth.frames(3) [OF growth.frame_snd(4)] saying.frames(3) [OF saying.frame_snd(4)])+
    with finish(4,5) have "ledger_grows ?gone su" "keeps_notices ?gone su" by (blast intro: growth.step saying.step)+
    with finish(1-3) died Inr show ?thesis by auto
  qed
qed

lemma ladder_outcome:
  assumes "stop_ladder an name sv = (x, su)" and "held name sv"
  shows "x = Inr forced \<Longrightarrow> an_stop an = Inr forced \<and> su = last_words an name sv"
    and "x = Inl (EngineStopUnconfirmed n t) \<Longrightarrow> \<exists>s. sv_running su name = Some s \<and> sp_unconfirmed s"
proof -
  obtain s where s: "sv_running sv name = Some s" using assms(2) by (auto simp: held_def)
  have kept: "sv_running (last_words an name sv) = sv_running sv"
    by (simp add: last_words_def append_log_def split: option.split)
  show "x = Inr forced \<Longrightarrow> an_stop an = Inr forced \<and> su = last_words an name sv"
    using assms(1) s by (auto simp: stop_ladder_def Let_def split: sum.splits backend_error.splits)
  show "x = Inl (EngineStopUnconfirmed n t) \<Longrightarrow> \<exists>s. sv_running su name = Some s \<and> sp_unconfirmed s"
    using assms(1) s kept by (auto simp: stop_ladder_def Let_def on_running_def split: sum.splits backend_error.splits)
qed

lemma ladder_unheld: "sv_running sv name = None \<Longrightarrow> stop_ladder an name sv = (Inr False, sv)"
  by (simp add: stop_ladder_def)

lemma reacquired_held:
  assumes "sv_running (reacquire io an name sv) name \<noteq> None" and "sv_running sv name = None \<or> held name sv"
  shows "held name (reacquire io an name sv)"
  using assms by (auto simp: reacquire_def held_def Let_def split: sum.splits option.splits bool.splits if_splits)

text \<open>(C12) A stop is honest. When it answers that the instance is stopped, the state is \<open>stopped\<close>, no handle is
  held, and if a process was held (or re-held from its spawn record) the backend confirmed its death. When the
  death is unconfirmed, the handle is kept and marked, so that the next stop polls it instead of
  signalling again.\<close>

theorem stop_is_honest:
  assumes stop: "stop_instance io an name w sv = (r, su)"
    and marked: "\<And>s i. sv_running sv name = Some s \<Longrightarrow> sp_unconfirmed s \<Longrightarrow> looked_up name sv = Inr i \<Longrightarrow> ai_state i = Stopping"
  shows "(\<forall>i. r = Inr i \<longrightarrow> ai_state i = Stopped \<and> sv_running su name = None
        \<and> (sv_running (reacquire io an name sv) name \<noteq> None
            \<longrightarrow> (\<exists>code. an_poll an = Inr (Exited code)) \<or> (\<exists>forced. an_stop an = Inr forced)))
    \<and> (\<forall>n t. r = Inl (EngineStopUnconfirmed n t) \<longrightarrow> (\<exists>s. sv_running su name = Some s \<and> sp_unconfirmed s))"
  using stop [unfolded stop_instance_def]
proof (cases rule: stop_inner_elim)
  case (refused er)
  then show ?thesis by simp
next
  case (retry i s)
  with retry_stop_outcome [OF retry(5)] show ?thesis by auto
next
  case (run i t cause v)
  have here: "sv_running t = sv_running (reacquire io an name sv)" using supervised_transition_frame [OF run(3)] by simp
  have halted: "halted name t" using halted_after_stopping [OF run(3)] .
  let ?start = "stop_start an (ai_state i) name t"
  let ?drained = "terminal_drains io an name ?start"
  note parts = run_stop_parts [OF run(4) refl]
  show ?thesis
  proof (cases "sv_running t name")
    case None
    then have "sv_running ?drained name = None" by (simp add: terminal_drains_def drains_unheld stop_start_frame)
    with parts ladder_unheld None here show ?thesis by fastforce
  next
    case (Some s)
    have "sv_running sv name = None \<or> held name sv" using marked run(1,2) by (cases "sv_running sv name") (auto simp: held_def)
    then have "held name (reacquire io an name sv)" using reacquired_held [of io an name sv] Some here by simp
    then have "held name t" by (simp add: held_def here)
    then have "held name ?drained" using halted halted_engine [of ?start t]
      by (intro terminal_drains_held) (simp_all add: stop_start_frame held_def)
    note out = ladder_outcome [OF _ this]
    from parts out show ?thesis by blast
  qed
qed

lemma last_words_reads:
  assumes "read_to rd name ch run g w k sv" and "ends_line (take k w)"
  shows "read_to rd name ch run g (w @ an_written an ch) k (last_words an name sv)"
proof -
  have "k \<le> length w" using assms(1) by (simp add: read_to_def)
  then have "ends_line (take k (w @ (if Stdout = ch then an_written an Stdout else [])))" using assms(2) by simp
  from append_log_reads [OF append_log_reads [OF assms, of Stdout "an_written an Stdout"] this, of Stderr "an_written an Stderr"]
  show ?thesis unfolding last_words_def by (cases ch) simp_all
qed


end
