(* ===== verification/Supervision_Demo.thy ===== *)
theory Supervision_Demo
  imports Stop_Facts Ledger_Facts Pipeline_Total
begin

text \<open>
  A supervised process on an empty database, with its log: a pass that commits a report, and a stop.
\<close>

definition watched_row :: instance_row where
  "watched_row = \<lparr>in_id = 1, in_name = ''a'', in_kind = ''k'', in_state = ''running'', in_home = ''h'', in_created = ''t0'',
     in_updated = ''t0'', in_generation = 1\<rparr>"

definition watched_engine :: engine where
  "watched_engine = \<lparr>en_db = empty_db [watched_row], en_snap = open_snapshot (empty_db [watched_row])\<rparr>"

definition watched_process :: supervised where
  "watched_process = \<lparr>sp_run = ''r1'', sp_source = ''self-reported'', sp_cursor = 0, sp_park = None, sp_err_cursor = 0,
     sp_err_park = None, sp_seen = False, sp_acp = False, sp_mode = None, sp_observed_park = None, sp_generation = 1,
     sp_queue = None, sp_minter = None, sp_fence = [], sp_unconfirmed = False, sp_adopted = False, sp_cooperative = False\<rparr>"

definition watched_supervisor :: supervisor where
  "watched_supervisor = \<lparr>sv_engine = watched_engine, sv_running = [''a'' \<mapsto> watched_process],
     sv_logs = (\<lambda>_ ch. if ch = Stdout then Some '''' else None), sv_deferred = (\<lambda>_. False), sv_poll_errors = (\<lambda>_. 0),
     sv_requested = (\<lambda>_. 0), sv_log_cap = 1000, sv_mode = CaptureFull, sv_notices = [], sv_bus = []\<rparr>"

definition watched_decode :: "string \<Rightarrow> usage_line option" where
  "watched_decode s = (if s = ''1'' then Some \<lparr>ul_sequence = 1, ul_input = 5, ul_output = 2, ul_cached = None\<rparr> else None)"

definition watched_js :: transition_encoders where
  "watched_js = \<lparr>jt_row = (\<lambda>_. Some ''s''), jt_bus = (\<lambda>_. Some ''b''), jt_run = demo_encoder\<rparr>"

definition watched_io :: "unit surroundings" where
  "watched_io = \<lparr>io_js = demo_encoders, io_tj = watched_js,
     io_host = \<lparr>ch_parse = (\<lambda>_. Inl ''''), ch_render = (\<lambda>_. Inl ''''), ch_path = (\<lambda>_. '''')\<rparr>,
     io_files = (\<lambda>_. ConfigText ()), io_usage_json = watched_decode, io_totals_fault = None, io_refuse = (\<lambda>_. None),
     io_reads = True, io_tailer = (\<lambda>_. None), io_truncates = True, io_now = ''t4''\<rparr>"

definition watched_answers :: "string \<Rightarrow> answers" where
  "watched_answers said = \<lparr>an_poll = Inr Alive, an_adopt = Inr False, an_pause = None, an_resume = None, an_stop = Inr False,
     an_log_dir = None, an_cancel = [], an_written = (\<lambda>_. said), an_unlinks = (\<lambda>_. True), an_support = Inr Guaranteed,
     an_commands = Inr (None, None), an_command = Exited0, an_facts = \<lparr>af_metering = (\<lambda>_. Inl ''''), af_mapping = (\<lambda>_. Inl '''')\<rparr>,
     an_decode = (\<lambda>_. None), an_run_id = ''r2''\<rparr>"

lemma watched_id: "instance_id (empty_db [watched_row]) ''a'' = Some 1"
  by (simp add: instance_id_def empty_db_def watched_row_def)

lemma watched_lookup: "db_instances s = [watched_row] \<Longrightarrow> lookup_instance ''a'' s = Inr \<lparr>ai_name = ''a'', ai_kind = ''k'', ai_state = Running, ai_home = ''h'',
     ai_created = ''t0'', ai_updated = ''t0''\<rparr>"
proof -
  assume i: "db_instances s = [watched_row]"
  have "row_to_instance watched_row = Inr \<lparr>ai_name = ''a'', ai_kind = ''k'', ai_state = Running,
      ai_home = ''h'', ai_created = ''t0'', ai_updated = ''t0''\<rparr>"
    using lifecycle_wire_roundtrip [of Running] by (simp add: row_to_instance_def watched_row_def demo_name)
  then show ?thesis by (simp add: lookup_instance_def get_instance_def i rbind_def) (simp add: watched_row_def)
qed

lemma watched_effective: "sv_engine sv = en \<Longrightarrow> db_instances (en_db en) = [watched_row] \<Longrightarrow> \<exists>er. effective_config (io_host watched_io) (en_db (sv_engine sv)) (io_files watched_io) ''a'' [] = Inl er"
  by (auto simp: effective_config_def require_instance_def watched_lookup watched_io_def instance_config_layer_def parse_layer_def rbind_def demo_name
     split: sum.split option.splits)

definition watched_input :: eval_input where
  "watched_input = \<lparr>pi_name = ''a'', pi_run = ''r1'', pi_source = ''self-reported'', pi_budget = \<lparr>tb_per_run = None, tb_cumulative = None\<rparr>,
    pi_token_action = ActPause, pi_rate = None, pi_cap = \<lparr>cc_per_run = None, cc_cumulative = None\<rparr>, pi_cost_action = ActPause,
    pi_supervised = True, pi_fenced = False\<rparr>"


lemma watched_evaluates:
  assumes "db_runs s = []" and "db_latches s = []"
  shows "\<exists>en'. evaluate js None watched_input at (en\<lparr>en_db := s\<rparr>) = Inr (\<lparr>ev_breaches = [], ev_degraded = [], ev_run_events = []\<rparr>, [], en')"
proof -
  have chain: "run_chain s ''r1'' = Inr []"
    by (simp add: run_chain_def max_run_nesting_def numeral_eq_Suc run_record_of_def find_run_def assms)
  obtain s' where s': "ensure_run_row ''r1'' ''a'' at s = Inr s'" "db_latches s' = []"
    by (simp add: ensure_run_row_def find_run_def assms)
  have levels: "levels_for watched_input at s = Inr ([process_level ''r1'' True], s')"
    by (simp add: levels_for_def chain s' rbind_def watched_input_def)
  have none: "level_inputs None watched_input s' [process_level ''r1'' True] [] = Inr ([\<lparr>gi_token = None, gi_dollar = None, gi_latched = []\<rparr>], [])"
    by (simp add: level_input_def level_arms_def process_level_def watched_input_def rbind_def read_or_zero_def latches_def s'(2)
        token_budget_is_set_def cost_cap_is_set_def Let_def)
  have decided: "decide_chain [\<lparr>gi_token = None, gi_dollar = None, gi_latched = []\<rparr>] = [\<lparr>go_decisions = [], go_latched_after = []\<rparr>]"
    by (simp add: decide_chain_def decide_def normalize_latched_def)
  have sup: "pi_supervised watched_input" by (simp add: watched_input_def)
  have armed: "level_is_armed (process_level ''r1'' True)" by (simp add: level_is_armed_def process_level_def)
  have loop: "commit_level js watched_input at (l, \<lparr>go_decisions = [], go_latched_after = []\<rparr>)
      \<lparr>es_breaches = [], es_raises = [], es_changes = no_changes, es_db = s'\<rparr>
      = Inr \<lparr>es_breaches = [], es_raises = [], es_changes = no_changes, es_db = s'\<rparr>" for l
    by (simp add: commit_level_def rbind_def)
  have quiet: "\<exists>en''. commit_changes enc no_changes en' = Inr ([], en'')" for enc en'
    by (simp add: commit_changes_def no_changes_def rbind_def)
  obtain en'' where "commit_changes (jn_run js) no_changes (en\<lparr>en_db := s, en_db := s'\<rparr>) = Inr ([], en'')" using quiet by blast
  then show ?thesis
    by (simp add: evaluate_def sup levels armed none decided loop rbind_def [abs_def] del: level_inputs.simps)
qed

lemma watched_commit:
  "\<exists>ev app en. commit_usage demo_encoders None (assemble_usage_event u ''a'' ''r1'' ''self-reported'' ''t4'') 1 watched_input ''t4'' watched_engine
     = Inr (Some (ev, app), \<lparr>ev_breaches = [], ev_degraded = [], ev_run_events = []\<rparr>, [], en)"
proof -
  let ?ev = "assemble_usage_event u ''a'' ''r1'' ''self-reported'' ''t4''"
  let ?s = "empty_db [watched_row]"
  have ok: "ledger_ok ?s" by (rule ledger_ok_empty)
  let ?t0 = "?s\<lparr>db_usage := db_usage ?s @ [usage_row_of (db_usage_seq ?s + 1) 1 ?ev None 1], db_usage_seq := db_usage_seq ?s + 1\<rparr>"
  obtain mi mr h where t: "fold_rows True ?t0 = ?t0\<lparr>db_rollup_instance := mi, db_rollup_run := mr, db_folded_through := h\<rparr>"
    using fold_rows_spec [OF ledger_ok_append [OF ok, of 1 ?ev None 1]] by blast
  have "insert_usage ?ev None 1 ?s = Inr (Inserted, fold_rows True ?t0)"
    by (simp add: insert_usage_def require_instance_id_def assemble_usage_event_def demo_name watched_id rbind_def Let_def)
      (simp add: empty_db_def)
  then have ins: "insert_usage ?ev (pi_rate watched_input) 1 (en_db watched_engine) = Inr (Inserted, fold_rows True ?t0)"
    by (simp add: watched_input_def watched_engine_def)
  have js: "jn_usage demo_encoders ?ev = Some ''{}''" by (simp add: demo_encoders_def)
  obtain app t' where out: "append_json (Some ''{}'') (fold_rows True ?t0) = Inr (app, t')" "db_runs t' = []" "db_latches t' = []"
    by (simp add: append_json_def append_outbox_def make_room_def outbox_max_bytes_def log_rotate_max_bytes_def log_rotate_generations_def
        Let_def t) (simp add: empty_db_def)
  obtain en where "evaluate demo_encoders None watched_input ''t4'' (watched_engine\<lparr>en_db := t'\<rparr>)
      = Inr (\<lparr>ev_breaches = [], ev_degraded = [], ev_run_events = []\<rparr>, [], en)"
    using watched_evaluates [OF out(2,3)] by blast
  then have "commit_usage demo_encoders None ?ev 1 watched_input ''t4'' watched_engine
     = Inr (Some (?ev, app), \<lparr>ev_breaches = [], ev_degraded = [], ev_run_events = []\<rparr>, [], en)"
    by (simp add: commit_usage_def ins rbind_def js out(1))
  then show ?thesis by blast
qed

text \<open>The line is parsed, committed and read past.\<close>

definition watched_line :: string where
  "watched_line = ''KTESIO_USAGE 1'' @ [CHR 0x0A]"

lemma watched_reports: "reports_of watched_decode watched_line = [\<lparr>pu_sequence = 1, pu_input = 5, pu_output = 2, pu_cached = 0\<rparr>]"
  "complete_len watched_line = length watched_line"
  by code_simp+

lemma watched_pass:
  "\<exists>en. sv_engine (drain_self_reported_for watched_io (enforce watched_io (watched_answers [])) ''a'' MidRun (append_log ''a'' Stdout watched_line watched_supervisor)) = en
    \<and> db_instances (en_db en) = [watched_row]
    \<and> sv_notices (drain_self_reported_for watched_io (enforce watched_io (watched_answers [])) ''a'' MidRun (append_log ''a'' Stdout watched_line watched_supervisor)) = []"
proof -
  let ?u = "\<lparr>pu_sequence = 1, pu_input = 5, pu_output = 2, pu_cached = 0\<rparr> :: parsed_usage"
  let ?sv = "append_log ''a'' Stdout watched_line watched_supervisor"
  have logs: "sv_logs ?sv ''a'' Stdout = Some watched_line" "sv_running ?sv = [''a'' \<mapsto> watched_process]" "sv_engine ?sv = watched_engine"
      "sv_notices ?sv = []" "sv_log_cap ?sv = 1000"
    by (simp_all add: append_log_def watched_supervisor_def)
  let ?sv1 = "on_running ''a'' (\<lambda>s. s\<lparr>sp_seen := True\<rparr>) ?sv"
  have input: "eval_input_of watched_io ''a'' ''r1'' ''self-reported'' ?sv1 = watched_input"
  proof -
    obtain er where "effective_config (io_host watched_io) (en_db (sv_engine ?sv1)) (io_files watched_io) ''a'' [] = Inl er"
      using watched_effective [of ?sv1 watched_engine] by (auto simp: logs(3)) (auto simp: watched_engine_def empty_db_def)
    moreover have "sv_running ?sv1 ''a'' = Some (watched_process\<lparr>sp_seen := True\<rparr>)" by (simp add: on_running_def logs(2))
    ultimately show ?thesis by (simp add: eval_input_of_def watched_input_def watched_process_def)
  qed
  obtain ev app en where commit: "commit_usage demo_encoders None (assemble_usage_event ?u ''a'' ''r1'' ''self-reported'' ''t4'') 1 watched_input ''t4'' watched_engine
     = Inr (Some (ev, app), \<lparr>ev_breaches = [], ev_degraded = [], ev_run_events = []\<rparr>, [], en)"
    using watched_commit by blast
  have io: "io_refuse watched_io ?u = None" "io_js watched_io = demo_encoders" "io_totals_fault watched_io = None" "io_now watched_io = ''t4''"
      "io_reads watched_io" "io_usage_json watched_io = watched_decode"
    by (simp_all add: watched_io_def)
  let ?p = "watched_process\<lparr>sp_seen := True\<rparr>"
  have run1: "sv_running ?sv1 ''a'' = Some ?p" "sv_engine ?sv1 = watched_engine" "sv_notices ?sv1 = []"
      "sv_logs ?sv1 ''a'' Stdout = Some watched_line" "sv_log_cap ?sv1 = 1000"
    by (simp_all add: on_running_def logs)
  have gen: "sp_generation ?p = 1" by (simp add: watched_process_def)
  let ?sv2 = "publish_bus (BusUsage (usage_update_event_new ev)) (on_running ''a'' (\<lambda>s. s\<lparr>sp_fence := sp_fence s @ []\<rparr>) (?sv1\<lparr>sv_engine := en\<rparr>))"
  have ing: "ingest_usage watched_io E ''a'' ''r1'' ''self-reported'' MidRun ?u ?sv1 = (Inr (Some (usage_update_event_new ev)), ?sv2)" for E
    by (simp add: ingest_usage_def input io run1 logs(3) gen commit Let_def apply_evaluation_def)
  have host: "db_instances (en_db en) = [watched_row]"
    using commit_usage_host [OF commit] by (simp add: host_part_def watched_engine_def empty_db_def)
  have len: "length watched_line = 15" "plan_drain watched_line 0 MidRun = Consume 0 15 15"
    by (simp_all add: plan_drain_def watched_reports(2)) (simp_all add: watched_line_def)
  have parsed: "parse_usage_block watched_decode (utf8_lossy watched_line) = [?u]" using watched_reports(1) by (simp add: reports_of_def)
  have start: "sv_running ?sv ''a'' = Some watched_process" "sp_run watched_process = ''r1''" "channel_cursor Stdout watched_process = 0"
      "channel_source Stdout watched_process = ''self-reported''"
    by (simp_all add: logs(2) watched_process_def channel_defs)
  define su where "su = settle_block ''a'' MidRun Stdout 0 15 1 (1, None, ?sv2)"
  have acp: "sv_running ?sv2 ''a'' = Some (watched_process\<lparr>sp_seen := True, sp_fence := sp_fence watched_process @ []\<rparr>)"
    by (simp add: on_running_def logs)
  have after: "sv_engine su = en" "sv_notices su = []" "sv_log_cap su = 1000" "sv_logs su ''a'' Stdout = Some watched_line"
      "\<exists>s. sv_running su ''a'' = Some s \<and> \<not> sp_acp s"
    using acp by (simp_all add: su_def settle_block_def Let_def run1 on_running_def publish_bus_def channel_defs watched_process_def logs)
  have "drain_channel watched_io E ''a'' MidRun Stdout ?sv = maybe_truncate_raw_log watched_io ''a'' Stdout su" for E
    by (simp add: drain_channel_def start logs(1) io read_usage_tail_def len parsed ing su_def Let_def)
  moreover have "maybe_truncate_raw_log watched_io ''a'' Stdout su = su\<lparr>sv_deferred := (sv_deferred su)(Stdout := False)\<rparr>"
    by (simp add: maybe_truncate_raw_log_def after should_truncate_def len)
  ultimately have "drain_self_reported_for watched_io E ''a'' MidRun ?sv = su\<lparr>sv_deferred := (sv_deferred su)(Stdout := False)\<rparr>" for E
    using after(5) by (auto simp: drain_self_reported_for_def Let_def)
  with after host show ?thesis by simp
qed


section \<open>A stop\<close>

definition moved_db :: "string \<Rightarrow> int \<Rightarrow> db" where
  "moved_db st n = (empty_db [watched_row\<lparr>in_state := st, in_updated := ''t4''\<rparr>])
     \<lparr>db_transitions := map (\<lambda>k. \<lparr>tr_id = k, tr_instance = 1, tr_event = ''s''\<rparr>) [1..n], db_transition_seq := n,
      db_outbox := map (\<lambda>k. \<lparr>ob_seq = k, ob_event = ''b'', ob_bytes = 1\<rparr>) [1..n], db_outbox_seq := n, db_outbox_bytes := n\<rparr>"

lemma moved_lookup: "lookup_instance ''a'' (moved_db (lifecycle_as_str st) n) = Inr \<lparr>ai_name = ''a'', ai_kind = ''k'', ai_state = st, ai_home = ''h'',
     ai_created = ''t0'', ai_updated = ''t4''\<rparr>"
  by (simp add: lookup_instance_def get_instance_def moved_db_def empty_db_def watched_row_def rbind_def row_to_instance_def demo_name lifecycle_wire_roundtrip)

lemma moved_transition:
  "\<exists>ct. transition_with_log_capture watched_js ''a'' p q c Terminal ''t4'' ''t4'' (en\<lparr>en_db := empty_db [watched_row]\<rparr>)
     = Inr (ct, en\<lparr>en_db := moved_db (lifecycle_as_str q) 1\<rparr>) \<and> ct_run_events ct = [] \<and> ct_projection_failed ct = None"
  "\<exists>ct. transition_with_log_capture watched_js ''a'' p q c Terminal ''t4'' ''t4'' (en\<lparr>en_db := moved_db st 1\<rparr>)
     = Inr (ct, en\<lparr>en_db := moved_db (lifecycle_as_str q) 2\<rparr>) \<and> ct_run_events ct = [] \<and> ct_projection_failed ct = None"
proof -
  have upto: "[1..0::int] = []" "[1..1::int] = [1]" "[1..2::int] = [1, 2]" by (simp_all add: upto_rec1)
  show "\<exists>ct. transition_with_log_capture watched_js ''a'' p q c Terminal ''t4'' ''t4'' (en\<lparr>en_db := empty_db [watched_row]\<rparr>)
     = Inr (ct, en\<lparr>en_db := moved_db (lifecycle_as_str q) 1\<rparr>) \<and> ct_run_events ct = [] \<and> ct_projection_failed ct = None"
    by (simp add: transition_defs commit_transition_def write_state_def moved_db_def empty_db_def watched_row_def
        instance_id_def set_state_def append_transition_def require_instance_id_def transition_event_new_simps
        demo_name watched_js_def append_json_def append_outbox_def make_room_def outbox_max_bytes_def
        log_rotate_max_bytes_def log_rotate_generations_def Let_def split_beta no_projection upto rbind_def)
  show "\<exists>ct. transition_with_log_capture watched_js ''a'' p q c Terminal ''t4'' ''t4'' (en\<lparr>en_db := moved_db st 1\<rparr>)
     = Inr (ct, en\<lparr>en_db := moved_db (lifecycle_as_str q) 2\<rparr>) \<and> ct_run_events ct = [] \<and> ct_projection_failed ct = None"
    by (simp add: transition_defs commit_transition_def write_state_def moved_db_def empty_db_def watched_row_def
        instance_id_def set_state_def append_transition_def require_instance_id_def transition_event_new_simps
        demo_name watched_js_def append_json_def append_outbox_def make_room_def outbox_max_bytes_def
        log_rotate_max_bytes_def log_rotate_generations_def Let_def split_beta no_projection upto rbind_def)
qed

lemma quiet_drain:
  assumes "sv_running sv ''a'' = Some s" and "\<not> sp_acp s" and "sv_logs sv ''a'' Stdout = Some bytes" and "sp_cursor s \<le> length bytes"
    and "reports_of watched_decode (drop (sp_cursor s) bytes) = []" and "length bytes < sv_log_cap sv"
  obtains su p where "drain_self_reported_for watched_io e ''a'' TerminalDrain sv = su" and "sv_engine su = sv_engine sv"
    and "sv_notices su = sv_notices sv" and "sv_logs su = sv_logs sv" and "sv_log_cap su = sv_log_cap sv" and "sv_mode su = sv_mode sv"
    and "sv_running su ''a'' = Some (s\<lparr>sp_cursor := length bytes, sp_park := p\<rparr>)"
proof -
  have reads: "io_reads watched_io" "io_usage_json watched_io = watched_decode" by (simp_all add: watched_io_def)
  have tail: "read_usage_tail True (Some bytes) (sp_cursor s) = Tail (drop (sp_cursor s) bytes)"
    using assms(4) by (auto simp: read_usage_tail_def)
  have none: "parse_usage_block watched_decode (utf8_lossy (drop (sp_cursor s) bytes)) = []" using assms(5) by (simp add: reports_of_def)
  have cut: "maybe_truncate_raw_log watched_io ''a'' Stdout t = t\<lparr>sv_deferred := (sv_deferred t)(Stdout := False)\<rparr>"
    if "sv_logs t = sv_logs sv" "sv_log_cap t = sv_log_cap sv" for t
    using assms(3,6) that by (simp add: maybe_truncate_raw_log_def should_truncate_def)
  show thesis
  proof (cases "drop (sp_cursor s) bytes = []")
    case True
    then have "drain_channel watched_io e ''a'' TerminalDrain Stdout sv = maybe_truncate_raw_log watched_io ''a'' Stdout sv"
      using tail by (simp add: drain_channel_def assms(1,3) channel_defs reads plan_drain_def)
    then have "drain_self_reported_for watched_io e ''a'' TerminalDrain sv = sv\<lparr>sv_deferred := (sv_deferred sv)(Stdout := False)\<rparr>"
      by (simp add: drain_self_reported_for_def cut assms(1,2))
    then show thesis using assms(1,4) True by (intro that [of "sv\<lparr>sv_deferred := (sv_deferred sv)(Stdout := False)\<rparr>" "sp_park s"]) simp_all
  next
    case False
    let ?t = "on_running ''a'' (channel_set_park Stdout None \<circ> channel_set_cursor Stdout (sp_cursor s + length (drop (sp_cursor s) bytes))) sv"
    have "drain_channel watched_io e ''a'' TerminalDrain Stdout sv = maybe_truncate_raw_log watched_io ''a'' Stdout ?t"
      using tail False by (simp add: drain_channel_def assms(1,3) channel_defs reads plan_drain_def none settle_block_def Let_def)
    then have "drain_self_reported_for watched_io e ''a'' TerminalDrain sv = ?t\<lparr>sv_deferred := (sv_deferred ?t)(Stdout := False)\<rparr>"
      by (simp add: drain_self_reported_for_def cut on_running_def assms(1,2) channel_defs)
    then show thesis using assms(1,4) by (intro that [of "?t\<lparr>sv_deferred := (sv_deferred ?t)(Stdout := False)\<rparr>" None]) (simp_all add: on_running_def channel_defs)
  qed
qed

lemma watched_moves:
  assumes "en_db (sv_engine sv) = empty_db [watched_row] \<and> n = 1 \<or> en_db (sv_engine sv) = moved_db st 1 \<and> n = 2"
  obtains su where "supervised_transition watched_io ''a'' p q c sv = (Inr (), su)" and "en_db (sv_engine su) = moved_db (lifecycle_as_str q) n"
    and "sv_notices su = sv_notices sv" and "sv_log_cap su = sv_log_cap sv" and "sv_mode su = sv_mode sv"
proof -
  obtain ct where "transition_with_log_capture watched_js ''a'' p q c Terminal ''t4'' ''t4'' (sv_engine sv)
     = Inr (ct, (sv_engine sv)\<lparr>en_db := moved_db (lifecycle_as_str q) n\<rparr>)" "ct_run_events ct = []" "ct_projection_failed ct = None"
    using moved_transition(1) [where en = "sv_engine sv" and p = p and q = q and c = c]
      moved_transition(2) [where en = "sv_engine sv" and p = p and q = q and c = c and st = st] assms by (cases "sv_engine sv") auto
  then show thesis
    by (intro that [of "publish_bus (BusTransition (transition_event_new ''a'' p q c ''t4''))
          (sv\<lparr>sv_engine := (sv_engine sv)\<lparr>en_db := moved_db (lifecycle_as_str q) n\<rparr>\<rparr>)"])
      (simp_all add: supervised_transition_def watched_io_def Let_def publish_bus_def)
qed

definition stopping_supervisor :: "string \<Rightarrow> supervisor" where
  "stopping_supervisor left = watched_supervisor\<lparr>sv_logs := (\<lambda>_ ch. if ch = Stdout then Some left else None)\<rparr>"

lemma watched_stop:
  assumes silent: "reports_of watched_decode left = []" "reports_of watched_decode said = []" and small: "length left + length said < 1000"
  obtains i su where "stop_instance watched_io (watched_answers said) ''a'' None (stopping_supervisor left) = (Inr i, su)"
    and "sv_notices su = []" and "db_usage (en_db (sv_engine su)) = []"
proof -
  let ?sv = "stopping_supervisor left"
  let ?an = "watched_answers said"
  have sv: "sv_running ?sv ''a'' = Some watched_process" "en_db (sv_engine ?sv) = empty_db [watched_row]" "sv_notices ?sv = []" "sv_log_cap ?sv = 1000"
      "sv_mode ?sv = CaptureFull" "sv_logs ?sv ''a'' Stdout = Some left" "sv_logs ?sv ''a'' Stderr = None"
    by (simp_all add: stopping_supervisor_def watched_supervisor_def watched_engine_def)
  have rest: "sp_cursor watched_process = 0" "\<not> sp_acp watched_process" "sp_queue watched_process = None" "\<not> sp_cooperative watched_process"
    by (simp_all add: watched_process_def)
  have an: "an_log_dir ?an = None" "an_cancel ?an = []" "an_stop ?an = Inr False" "an_written ?an ch = said" for ch
    by (simp_all add: watched_answers_def)
  let ?e = "enforce watched_io ?an"
  obtain t1 where t1: "supervised_transition watched_io ''a'' Running Stopping (CommandCause ''stop'') ?sv = (Inr (), t1)"
      "en_db (sv_engine t1) = moved_db (lifecycle_as_str Stopping) 1" "sv_notices t1 = []" "sv_log_cap t1 = 1000" "sv_mode t1 = CaptureFull"
    by (rule watched_moves [of ?sv 1 _ Running Stopping "CommandCause ''stop''"]) (auto simp: sv)
  have h1: "sv_running t1 = sv_running ?sv" "sv_logs t1 = sv_logs ?sv" using supervised_transition_frame [OF t1(1)] by simp_all
  obtain t2 p where t2: "drain_self_reported_for watched_io ?e ''a'' TerminalDrain t1 = t2" "sv_engine t2 = sv_engine t1" "sv_notices t2 = []"
      "sv_logs t2 = sv_logs ?sv" "sv_log_cap t2 = 1000" "sv_mode t2 = CaptureFull" "sv_running t2 ''a'' = Some (watched_process\<lparr>sp_cursor := length left, sp_park := p\<rparr>)"
    by (rule quiet_drain [of t1 watched_process left ?e]) (use small in \<open>auto simp: h1 sv t1 rest silent\<close>)
  have t2o: "drain_observed_for watched_io ?e ''a'' TerminalDrain t2 = t2" by (simp add: drain_observed_for_def t2(7) rest)
  have words: "last_words ?an ''a'' t2 = t2\<lparr>sv_logs := (sv_logs t2)(''a'' := (sv_logs t2 ''a'')(Stdout := Some (left @ said)))\<rparr>" (is "_ = ?t3")
    by (simp add: last_words_def append_log_def t2(4) sv an)
  have ladder: "stop_ladder ?an ''a'' t2 = (Inr False, ?t3)" by (simp add: stop_ladder_def t2(7) words an)
  obtain t4 q where t4: "drain_self_reported_for watched_io ?e ''a'' TerminalDrain ?t3 = t4" "sv_engine t4 = sv_engine t1" "sv_notices t4 = []"
      "sv_log_cap t4 = 1000" "sv_mode t4 = CaptureFull" "sv_running t4 ''a'' = Some (watched_process\<lparr>sp_cursor := length (left @ said), sp_park := q\<rparr>)"
    by (rule quiet_drain [of ?t3 "watched_process\<lparr>sp_cursor := length left, sp_park := p\<rparr>" "left @ said" ?e]) (use small in \<open>auto simp: t2 rest silent\<close>)
  let ?t5 = "forget ''a'' t4"
  have unlink: "unlink_raw_logs_if_metadata ?an ''a'' t4 = t4"
    by (simp add: unlink_raw_logs_if_metadata_def t4(6)) (simp add: watched_process_def)
  have t5: "sv_engine ?t5 = sv_engine t1" "sv_notices ?t5 = []" "sv_log_cap ?t5 = 1000" "sv_mode ?t5 = CaptureFull" by (simp_all add: forget_def t4)
  have none: "get_spawn_record_db ''a'' (en_db (sv_engine ?t5)) = Inr None"
    unfolding t5(1) t1(2) by (simp add: get_spawn_record_db_def moved_db_def empty_db_def instance_id_def watched_row_def runtime_at_def)
  have same: "t\<lparr>sv_engine := (sv_engine t)\<lparr>en_db := en_db (sv_engine t)\<rparr>\<rparr> = t" for t :: supervisor
    by (cases t; cases "sv_engine t") simp
  have settled: "settle_record ''a'' ?t5 = (Inr (), ?t5)"
    using same [of ?t5] by (simp only: settle_record_def settle_spawn_record_db_def none rbind_def sum.case option.case prod.case)
  obtain t6 where t6: "supervised_transition watched_io ''a'' Stopping Stopped StopGraceful ?t5 = (Inr (), t6)"
      "en_db (sv_engine t6) = moved_db (lifecycle_as_str Stopped) 2" "sv_notices t6 = []"
    by (rule watched_moves [of ?t5 2 "lifecycle_as_str Stopping" Stopping Stopped StopGraceful]) (auto simp: t4 t5 t1)
  have "looked_up ''a'' ?sv = Inr \<lparr>ai_name = ''a'', ai_kind = ''k'', ai_state = Running, ai_home = ''h'', ai_created = ''t0'', ai_updated = ''t0''\<rparr>"
    by (simp add: looked_up_def sv watched_lookup empty_db_def)
  moreover have "reacquire watched_io ?an ''a'' ?sv = ?sv" by (simp add: reacquire_def sv)
  moreover obtain i where "looked_up ''a'' t6 = Inr i" by (simp add: looked_up_def t6(2) moved_lookup [of Stopped, simplified])
  ultimately have "stop_instance watched_io ?an ''a'' None ?sv = (Inr i, t6)"
    by (simp add: stop_instance_def stop_inner_def demo_name an t1(1) run_stop_def resume_paused_def t2(1) t2o ladder t4(1) unlink settled
        stop_cause_def t6(1) Let_def)
  then show thesis using t6(3) by (rule that) (simp add: t6(2) moved_db_def empty_db_def)
qed


lemma watched_silent: "reports_of watched_decode (''hi'' @ [CHR 0x0A]) = []" "reports_of watched_decode (''bye'' @ [CHR 0x0A]) = []"
  by code_simp+

lemma stopping_handle:
  "sv_running (stopping_supervisor left) ''a'' = Some watched_process" "sv_logs (stopping_supervisor left) ''a'' Stdout = Some left"
  by (simp_all add: stopping_supervisor_def watched_supervisor_def)


lemma stop_is_honest_witness:
  "\<exists>i su. stop_instance watched_io (watched_answers []) ''a'' None (stopping_supervisor []) = (Inr i, su) \<and> ai_state i = Stopped
    \<and> sv_running su ''a'' = None"
proof -
  have none: "reports_of watched_decode [] = []" by code_simp
  obtain i su where su: "stop_instance watched_io (watched_answers []) ''a'' None (stopping_supervisor []) = (Inr i, su)"
    by (rule watched_stop [OF none none]) simp_all
  have "\<not> sp_unconfirmed s" if "sv_running (stopping_supervisor []) ''a'' = Some s" for s
    using that by (auto simp: stopping_handle watched_process_def)
  with stop_is_honest [OF su] su show ?thesis by blast
qed

section \<open>What the accounting does not cover\<close>



lemma fold_rows_outbox: "db_outbox_bytes (fold_rows b s) = db_outbox_bytes s" "db_outbox_seq (fold_rows b s) = db_outbox_seq s"
proof -
  have f: "(\<And>x t. part (f x t) = part t) \<Longrightarrow> part (fold f xs u) = part u" for part :: "db \<Rightarrow> 'p" and f :: "'x \<Rightarrow> db \<Rightarrow> db" and xs u
    by (induction xs arbitrary: u) simp_all
  have w: "db_outbox_bytes (write_run_rollup k r s) = db_outbox_bytes s" "db_outbox_bytes (write_instance_rollup i r s) = db_outbox_bytes s"
      "db_outbox_seq (write_run_rollup k r s) = db_outbox_seq s" "db_outbox_seq (write_instance_rollup i r s) = db_outbox_seq s" for k r s i
    by (simp_all add: write_run_rollup_def write_instance_rollup_def)
  show "db_outbox_bytes (fold_rows b s) = db_outbox_bytes s" "db_outbox_seq (fold_rows b s) = db_outbox_seq s"
    unfolding fold_rows_def Let_def by (simp_all add: w f case_prod_beta)
qed

definition counted_report :: parsed_usage where
  "counted_report = \<lparr>pu_sequence = 1, pu_input = 5, pu_output = 2, pu_cached = 0\<rparr>"

definition orphaned_supervisor :: supervisor where
  "orphaned_supervisor = watched_supervisor\<lparr>sv_running := Map.empty, sv_engine := watched_engine\<lparr>en_db := (empty_db [watched_row])
     \<lparr>db_usage := [usage_row_of 1 1 (assemble_usage_event counted_report ''a'' ''r1'' ''self-reported'' ''t4'') None 1], db_usage_seq := 1\<rparr>\<rparr>\<rparr>"

lemma orphan_ingests:
  "\<exists>x su. ingest_usage watched_io e ''a'' ''r1'' ''self-reported'' MidRun counted_report orphaned_supervisor = (Inr x, su)"
proof -
  let ?ev = "assemble_usage_event counted_report ''a'' ''r1'' ''self-reported'' ''t4''"
  let ?s = "en_db (sv_engine orphaned_supervisor)"
  let ?in = "eval_input_of watched_io ''a'' ''r1'' ''self-reported'' orphaned_supervisor"
  have idle: "\<not> pi_supervised ?in" by (simp add: eval_input_of_def orphaned_supervisor_def Let_def split: prod.split)
  have "instance_id ?s ''a'' = Some 1" by (simp add: orphaned_supervisor_def empty_db_def instance_id_def watched_row_def)
  then have required: "require_instance_id ''a'' ?s = Inr 1" by (simp add: require_instance_id_def demo_name)
  obtain t where t: "insert_usage ?ev (pi_rate ?in) 0 ?s = Inr (Inserted, t)" and outbox: "t = fold_rows True (?s\<lparr>db_usage := db_usage ?s @ [usage_row_of 2 1 ?ev (pi_rate ?in) 0], db_usage_seq := 2\<rparr>)"
    by (simp add: insert_usage_def rbind_def required assemble_usage_event_def Let_def)
      (simp add: orphaned_supervisor_def empty_db_def same_dedup_key_def usage_row_of_def assemble_usage_event_def clamp_tokens_def)
  have "db_outbox_bytes t = 0 \<and> db_outbox_seq t = 0"
    unfolding outbox fold_rows_outbox by (simp add: orphaned_supervisor_def empty_db_def)
  then obtain app t' where "append_json (Some ''{}'') t = Inr (app, t')"
    by (simp add: append_json_def append_outbox_def make_room_def outbox_max_bytes_def log_rotate_max_bytes_def log_rotate_generations_def Let_def)
  then have "\<exists>z. commit_usage demo_encoders None ?ev 0 ?in ''t4'' (sv_engine orphaned_supervisor) = Inr z"
    using idle by (simp add: commit_usage_def rbind_def t evaluate_def) (simp add: demo_encoders_def)
  then obtain w evn r en where "commit_usage demo_encoders None ?ev 0 ?in ''t4'' (sv_engine orphaned_supervisor) = Inr (w, evn, r, en)"
    by (metis prod_cases4)
  moreover have "io_refuse watched_io counted_report = None" "io_js watched_io = demo_encoders" "io_totals_fault watched_io = None"
      "io_now watched_io = ''t4''" by (simp_all add: watched_io_def)
  moreover have "sv_running orphaned_supervisor ''a'' = None" by (simp add: orphaned_supervisor_def)
  ultimately show ?thesis by (auto simp: ingest_usage_def Let_def split: option.split)
qed


end
