(* ===== verification/Probes.thy ===== *)
theory Probes
  imports Supervision "HOL-Library.Sublist"
begin

text \<open>
  What the declared polls do in one attempt (\<open>domain/probe_kinds.rs\<close>), the readiness wait of a start
  (\<open>domain/readiness.rs\<close>) and the liveness check of a running agent with its failure window
  (\<open>domain/liveness.rs\<close>).

  What a socket, a file and the clock answer are arguments: a peer with the steps of its read loop, the
  metadata of a path, the chunks a read hands over, the elapsed time. A \<open>Duration\<close> is its nanoseconds.
\<close>

section \<open>One HTTP attempt\<close>

definition split_http_url :: "string \<Rightarrow> (string \<times> string) option" where
  "split_http_url url =
     (case strip_prefix url_scheme url of
        None \<Rightarrow> None
      | Some rest \<Rightarrow>
          (let authority = takeWhile (\<lambda>c. c \<noteq> CHR ''/'') rest;
               path = dropWhile (\<lambda>c. c \<noteq> CHR ''/'') rest
           in if authority = [] then None else Some (authority, if path = [] then ''/'' else path)))"

text \<open>Host and port text; an absent port is the empty text.\<close>

definition authority_parts :: "string \<Rightarrow> (string \<times> string) option" where
  "authority_parts authority =
     (case strip_prefix ''['' authority of
        Some rest \<Rightarrow>
          (case split_once (CHR '']'') rest of
             (host, Some rest) \<Rightarrow>
               (case strip_prefix '':'' rest of
                  Some port \<Rightarrow> Some (host, port)
                | None \<Rightarrow> if rest = [] then Some (host, []) else None)
           | (_, None) \<Rightarrow> None)
      | None \<Rightarrow>
          Some (case rsplit_once (CHR '':'') authority of
                  Some (host, port) \<Rightarrow>
                    if port \<noteq> [] \<and> list_all is_ascii_digit port then (host, port) else (authority, [])
                | None \<Rightarrow> (authority, [])))"

definition parse_authority :: "string \<Rightarrow> (ip_addr \<times> u16) option" where
  "parse_authority authority =
     (case authority_parts authority of
        None \<Rightarrow> None
      | Some (host, port_str) \<Rightarrow>
          (case parse_ip host of
             None \<Rightarrow> None
           | Some ip \<Rightarrow>
               (case parse_u16 port_str of
                  Some port \<Rightarrow> Some (ip, port)
                | None \<Rightarrow> if port_str = [] then Some (ip, 80) else None)))"

function valid_utf8 :: "string \<Rightarrow> bool" where
  "valid_utf8 [] \<longleftrightarrow> True"
| "valid_utf8 (c # cs) \<longleftrightarrow>
     (case utf8_sequence (c # cs) of (n, ok) \<Rightarrow> ok \<and> valid_utf8 (drop n (c # cs)))"
  by pat_completeness auto
termination
proof (relation "measure length")
  fix c cs n ok
  assume "(n, ok) = utf8_sequence (c # cs)"
  then have "0 < n" using utf8_sequence_pos [of "c # cs"] by (metis fst_conv)
  then show "(drop n (c # cs), c # cs) \<in> measure length" by simp
qed simp

text \<open>\<open>split_whitespace\<close>: the maximal pieces without white space.\<close>

fun words_of :: "string \<Rightarrow> string list \<Rightarrow> string list" where
  "words_of word [] = (if word = [] then [] else [word])"
| "words_of word (ch # chs) =
     (if is_whitespace ch then (if word = [] then [] else [word]) @ words_of [] chs
      else words_of (word @ ch) chs)"

definition split_whitespace :: "string \<Rightarrow> string list" where
  "split_whitespace s = words_of [] (utf8_chars s)"

definition parse_status_line :: "string \<Rightarrow> u16 option" where
  "parse_status_line head =
     (let line = takeWhile (\<lambda>c. c \<noteq> CHR 0x0A) head
      in if \<not> valid_utf8 line then None
         else (case split_whitespace line of _ # status # _ \<Rightarrow> parse_u16 status | _ \<Rightarrow> None))"

definition crlf :: string where "crlf = [CHR 0x0D, CHR 0x0A]"
definition http_read_cap_bytes :: nat where "http_read_cap_bytes = 8192"
definition http_attempt_cap :: duration where "http_attempt_cap = from_secs 1"

text \<open>One pass of the read loop: the timeout was refused, the deadline is past, or the read answered. A
  peer whose steps run out kept the loop until its deadline.\<close>

datatype socket_step = TimeoutRefused | DeadlinePassed | ReadEnd | ReadChunk string | ReadFailed

fun read_head :: "string \<Rightarrow> socket_step list \<Rightarrow> string option" where
  "read_head head [] = None"
| "read_head head (step # others) =
     (case step of
        TimeoutRefused \<Rightarrow> None
      | DeadlinePassed \<Rightarrow> None
      | ReadFailed \<Rightarrow> None
      | ReadEnd \<Rightarrow> Some head
      | ReadChunk chunk \<Rightarrow>
          (if chunk = [] then Some head
           else let head = head @ chunk in
                if sublist crlf head then Some head
                else if http_read_cap_bytes \<le> length head then Some head
                else read_head head others))"

record http_peer =
  hp_connects :: bool
  hp_write_timeout :: bool
  hp_writes :: bool
  hp_steps :: "socket_step list"

definition http_request :: "string \<Rightarrow> string \<Rightarrow> string" where
  "http_request authority path =
     ''GET '' @ path @ '' HTTP/1.1'' @ crlf @ ''Host: '' @ authority @ crlf @ ''Connection: close'' @ crlf @ crlf"

definition http_get_attempt :: "(ip_addr \<times> u16 \<Rightarrow> string \<Rightarrow> http_peer) \<Rightarrow> string \<Rightarrow> u16 \<Rightarrow> bool" where
  "http_get_attempt net url expected =
     (case split_http_url url of
        None \<Rightarrow> False
      | Some (authority, path) \<Rightarrow>
          (case parse_authority authority of
             None \<Rightarrow> False
           | Some addr \<Rightarrow>
               (let peer = net addr (http_request authority path) in
                hp_connects peer \<and> hp_write_timeout peer \<and> hp_writes peer
                \<and> (case read_head [] (hp_steps peer) of
                     Some head \<Rightarrow> parse_status_line head = Some expected
                   | None \<Rightarrow> False))))"

section \<open>One file attempt\<close>

text \<open>\<open>as_millis() as u64\<close>\<close>

definition millis :: "duration \<Rightarrow> u64" where
  "millis d = word_of_nat (d div 1000000)"

definition from_millis :: "u64 \<Rightarrow> duration" where
  "from_millis ms = unat ms * 1000000"

text \<open>What \<open>std::fs::metadata\<close> says of a path: whether it is a regular file, and its modification time.\<close>

type_synonym file_stat = "string \<Rightarrow> (bool \<times> duration option) option"

definition age_of :: "file_stat \<Rightarrow> duration \<Rightarrow> string \<Rightarrow> u64 option" where
  "age_of stat now path =
     (case stat path of
        Some (True, Some modified) \<Rightarrow> Some (millis (now - modified))
      | _ \<Rightarrow> None)"

definition file_fresh :: "file_stat \<Rightarrow> duration \<Rightarrow> string \<Rightarrow> u64 \<Rightarrow> bool" where
  "file_fresh stat now path max_age_ms = (case age_of stat now path of Some age \<Rightarrow> age \<le> max_age_ms | None \<Rightarrow> False)"

definition home_path :: "string \<Rightarrow> string \<Rightarrow> string" where
  "home_path home path =
     (if is_absolute path then path
      else if home = [] \<or> last home = CHR ''/'' then home @ path else home @ ''/'' @ path)"

section \<open>One log attempt\<close>

text \<open>The reads of the log from its seek position: a chunk, or a failure.\<close>

record log_reader =
  lr_opens :: bool
  lr_stats :: bool
  lr_seeks :: bool
  lr_reads :: "string \<Rightarrow> string option list"

fun scan_log :: "string \<Rightarrow> string \<Rightarrow> string option list \<Rightarrow> bool" where
  "scan_log needle carry [] = False"
| "scan_log needle carry (None # others) = False"
| "scan_log needle carry (Some chunk # others) =
     (if chunk = [] then False
      else let window = carry @ chunk in
           if sublist needle window then True
           else scan_log needle (drop (length window - min (length needle - 1) (length window)) window) others)"

definition log_contains :: "log_reader \<Rightarrow> string option \<Rightarrow> nat \<Rightarrow> string \<Rightarrow> bool" where
  "log_contains rd file start_offset needle =
     (if needle = [] then False
      else (case file of
              None \<Rightarrow> False
            | Some bytes \<Rightarrow>
                if \<not> lr_opens rd then False
                else (let start = (if lr_stats rd \<and> length bytes < start_offset then 0 else start_offset)
                      in if \<not> lr_seeks rd then False else scan_log needle [] (lr_reads rd (drop start bytes)))))"

section \<open>The readiness wait\<close>

record world =
  wd_net :: "ip_addr \<times> u16 \<Rightarrow> string \<Rightarrow> http_peer"
  wd_stat :: file_stat
  wd_now :: duration
  wd_log :: "string option"
  wd_reader :: log_reader

definition readiness_probe_poll :: duration where "readiness_probe_poll = 100000000"

datatype probe_outcome = ProbeReady u64 | ProbeTimedOut string u64 nat | ProcessExited "int option"

fun readiness_describe :: "readiness_probe \<Rightarrow> string" where
  "readiness_describe (HttpGetProbe url status) =
     ''readiness probe http-get '' @ url @ '' (expected '' @ dec (unat status) @ '')''"
| "readiness_describe (FileFreshProbe path age) =
     ''readiness probe file-fresh '' @ path @ '' (fresh within '' @ dec (unat age) @ ''ms)''"
| "readiness_describe (LogContainsProbe line) =
     ''readiness probe log-contains '' @ [CHR 0x22] @ line @ [CHR 0x22]"

fun probe_passes :: "readiness_probe \<Rightarrow> string \<Rightarrow> nat \<Rightarrow> world \<Rightarrow> bool" where
  "probe_passes (HttpGetProbe url status) home start wd = http_get_attempt (wd_net wd) url status"
| "probe_passes (FileFreshProbe path age) home start wd = file_fresh (wd_stat wd) (wd_now wd) (home_path home path) age"
| "probe_passes (LogContainsProbe line) home start wd = log_contains (wd_reader wd) (wd_log wd) start line"

text \<open>One round of the wait: what the backend's poll said, the world the probe saw, and the time since the
  wait began. \<open>None\<close> is a wait that outlives its rounds.\<close>

record wait_round =
  wr_poll :: "backend_error + process_status"
  wr_world :: world
  wr_elapsed :: duration

fun run_probe :: "readiness_gate \<Rightarrow> string \<Rightarrow> nat \<Rightarrow> nat \<Rightarrow> wait_round list \<Rightarrow> probe_outcome option" where
  "run_probe g home start poll_errors [] = None"
| "run_probe g home start poll_errors (r # rs) =
     (case wr_poll r of
        Inr (Exited code) \<Rightarrow> Some (ProcessExited code)
      | poll \<Rightarrow>
          (let poll_errors = (case poll of Inl _ \<Rightarrow> poll_errors + 1 | Inr _ \<Rightarrow> poll_errors) in
           if probe_passes (rg_probe g) home start (wr_world r) then Some (ProbeReady (millis (wr_elapsed r)))
           else if from_millis (rg_timeout_ms g) \<le> wr_elapsed r then
             Some (ProbeTimedOut (readiness_describe (rg_probe g)) (millis (wr_elapsed r)) poll_errors)
           else run_probe g home start poll_errors rs))"

section \<open>The liveness check\<close>

datatype liveness_signal = Fresh | Failing

definition attempt_cap :: "u64 \<Rightarrow> duration" where
  "attempt_cap max_age_ms = min http_attempt_cap (from_millis max_age_ms)"

fun liveness_evaluate :: "liveness_check \<Rightarrow> string \<Rightarrow> world \<Rightarrow> liveness_signal" where
  "liveness_evaluate (HeartbeatFile h) home wd =
     (if file_fresh (wd_stat wd) (wd_now wd) (home_path home (hb_path h)) (hb_max_age_ms h) then Fresh else Failing)"
| "liveness_evaluate (HttpGet h) home wd =
     (if http_get_attempt (wd_net wd) (hg_url h) (hg_expected_status h) then Fresh else Failing)"

fun liveness_describe :: "liveness_check \<Rightarrow> string" where
  "liveness_describe (HeartbeatFile h) =
     ''liveness check heartbeat-file (heartbeat_file) '' @ hb_path h @ '' (stale after '' @ dec (unat (hb_max_age_ms h)) @ ''ms)''"
| "liveness_describe (HttpGet h) =
     ''liveness check http-get (http_get) '' @ hg_url h @ '' (expected '' @ dec (unat (hg_expected_status h)) @ '')''"

datatype window_decision = Healthy | StartWindow | WithinWindow u64 | Recovered | Expired u64

definition window_decision_of :: "duration option \<Rightarrow> bool \<Rightarrow> u64 \<Rightarrow> window_decision" where
  "window_decision_of failing_since failing_now max_age_ms =
     (case (failing_since, failing_now) of
        (None, False) \<Rightarrow> Healthy
      | (None, True) \<Rightarrow> StartWindow
      | (Some _, False) \<Rightarrow> Recovered
      | (Some elapsed, True) \<Rightarrow>
          (let failing_for_ms = millis elapsed in
           if max_age_ms \<le> failing_for_ms then Expired failing_for_ms else WithinWindow failing_for_ms))"

text \<open>How much staler than the observed streak a heartbeat file already is, when it is.\<close>

definition liveness_expiry_onset_note :: "liveness_check \<Rightarrow> string \<Rightarrow> u64 \<Rightarrow> world \<Rightarrow> string option" where
  "liveness_expiry_onset_note check home failing_for_ms wd =
     (case check of
        HttpGet _ \<Rightarrow> None
      | HeartbeatFile h \<Rightarrow>
          (case age_of (wd_stat wd) (wd_now wd) (home_path home (hb_path h)) of
             None \<Rightarrow> None
           | Some age_now_ms \<Rightarrow>
               if failing_for_ms < age_now_ms then
                 Some (''the heartbeat file was already ~'' @ dec (unat (age_now_ms - failing_for_ms)) @ ''ms stale at first observation'')
               else None))"

end
