(* ===== verification/Probe_Urls.thy ===== *)
theory Probe_Urls
  imports Probes
begin

text \<open>
  The URLs the manifest admits and the URLs the attempt can dial. Both sides read the same text with their
  own splitters; the lemmas say which characters a literal address is made of, so that a stray one in the
  host or the port is seen to fail.
\<close>

section \<open>The characters of a literal address\<close>

definition ip_char :: "char \<Rightarrow> bool" where
  "ip_char c \<longleftrightarrow> digit_of 16 c \<noteq> None \<or> c = CHR ''.'' \<or> c = CHR '':''"

lemma not_ip_char [simp]: "\<not> ip_char (CHR ''?'')" "\<not> ip_char (CHR ''+'')"
  by code_simp+

lemma digit_of_16: "digit_of 10 c \<noteq> None \<Longrightarrow> digit_of 16 c \<noteq> None"
  by (auto simp: digit_of_def Let_def split: if_splits)

lemma read_number_text:
  assumes "read_number radix m z b s = Some (v, r)"
  shows "\<exists>d. s = d @ r \<and> (\<forall>c\<in>set d. digit_of radix c \<noteq> None)"
proof -
  let ?d = "takeWhile (\<lambda>c. digit_of radix c \<noteq> None) s"
  have "r = drop (length ?d) s" using assms by (simp add: read_number_def Let_def split: if_splits)
  then have "s = ?d @ r" by (simp add: dropWhile_eq_drop [symmetric])
  then show ?thesis using set_takeWhileD by fastforce
qed

lemma read_separator_text:
  assumes "read_separator sep i inner s = Some (v, r)"
    and "\<And>s v r. inner s = Some (v, r) \<Longrightarrow> \<exists>d. s = d @ r \<and> (\<forall>c\<in>set d. ip_char c)" and "ip_char sep"
  shows "\<exists>d. s = d @ r \<and> (\<forall>c\<in>set d. ip_char c)"
proof (cases "i = 0")
  case True
  then show ?thesis using assms(1,2) by (simp add: read_separator_def)
next
  case False
  then obtain cs where "s = sep # cs" "inner cs = Some (v, r)"
    using assms(1) by (auto simp: read_separator_def split: list.splits if_splits)
  with assms(2) [of cs v r] assms(3) show ?thesis by (metis append_Cons set_ConsD)
qed

lemma ip_separators [simp]: "ip_char (CHR ''.'')" "ip_char (CHR '':'')"
  by (simp_all add: ip_char_def)

lemma read_number_ip:
  "read_number 10 m z b s = Some (v, r) \<Longrightarrow> \<exists>d. s = d @ r \<and> (\<forall>c\<in>set d. ip_char c)"
  "read_number 16 m z b s = Some (v, r) \<Longrightarrow> \<exists>d. s = d @ r \<and> (\<forall>c\<in>set d. ip_char c)"
  using digit_of_16 by (auto dest!: read_number_text simp: ip_char_def)

lemma read_octets_text: "read_octets i k s = Some (v, r) \<Longrightarrow> \<exists>d. s = d @ r \<and> (\<forall>c\<in>set d. ip_char c)"
proof (induction i k s arbitrary: v r rule: read_octets.induct)
  case (2 i k s)
  from "2.prems" obtain o1 t v' where one: "read_separator (CHR ''.'') i (read_number 10 3 False 256) s = Some (o1, t)"
    and more: "read_octets (Suc i) k t = Some (v', r)" by (auto split: option.splits prod.splits)
  obtain d1 where "s = d1 @ t" "\<forall>c\<in>set d1. ip_char c"
    using read_separator_text [OF one] read_number_ip(1) by auto
  moreover obtain d2 where "t = d2 @ r" "\<forall>c\<in>set d2. ip_char c" using "2.IH" [OF one refl more] by blast
  ultimately show ?case by (intro exI [of _ "d1 @ d2"]) auto
qed simp

lemma read_ipv4_text: "read_ipv4 s = Some (v, r) \<Longrightarrow> \<exists>d. s = d @ r \<and> (\<forall>c\<in>set d. ip_char c)"
  unfolding read_ipv4_def by (rule read_octets_text)

lemma read_groups_text: "read_groups i k s = (gs, v4, r) \<Longrightarrow> \<exists>d. s = d @ r \<and> (\<forall>c\<in>set d. ip_char c)"
proof (induction i k s arbitrary: gs v4 r rule: read_groups.induct)
  case (2 i k s)
  let ?v4 = "if k = 0 then None else read_separator (CHR '':'') i read_ipv4 s"
  let ?group = "read_separator (CHR '':'') i (read_number 16 4 True 65536) s"
  show ?case
  proof (cases ?v4)
    case (Some p)
    then obtain os t where "read_separator (CHR '':'') i read_ipv4 s = Some (os, t)" "t = r"
      using "2.prems" by (cases p) (auto split: if_splits)
    then show ?thesis using read_separator_text [of "CHR '':''" i read_ipv4 s os r] read_ipv4_text by auto
  next
    case v4: None
    show ?thesis
    proof (cases ?group)
      case None
      then show ?thesis using "2.prems" v4 by auto
    next
      case (Some p)
      obtain g t where p: "p = (g, t)" by (cases p)
      obtain gs' where more: "read_groups (Suc i) k t = (gs', v4, r)"
        using "2.prems" v4 Some p by (auto split: prod.splits)
      obtain d1 where "s = d1 @ t" "\<forall>c\<in>set d1. ip_char c"
        using read_separator_text [OF Some [unfolded p]] read_number_ip(2) by auto
      moreover obtain d2 where "t = d2 @ r" "\<forall>c\<in>set d2. ip_char c" using "2.IH" [OF v4 Some p [symmetric] more] by blast
      ultimately show ?thesis by (intro exI [of _ "d1 @ d2"]) auto
    qed
  qed
qed simp

lemma read_ipv6_text:
  assumes "read_ipv6 s = Some (v, r)"
  shows "\<exists>d. s = d @ r \<and> (\<forall>c\<in>set d. ip_char c)"
proof -
  obtain gs v4 t where head: "read_groups 0 8 s = (gs, v4, t)" by (cases "read_groups 0 8 s") auto
  obtain d where d: "s = d @ t" "\<forall>c\<in>set d. ip_char c" using read_groups_text [OF head] by blast
  show ?thesis
  proof (cases "length gs = 8")
    case True
    then show ?thesis using assms head d by (auto simp: read_ipv6_def)
  next
    case False
    then obtain u where t: "t = CHR '':'' # CHR '':'' # u"
      and u: "snd (snd (read_groups 0 (8 - (length gs + 1)) u)) = r"
      using assms head by (auto simp: read_ipv6_def split: list.splits if_splits prod.splits)
    obtain ts w where "read_groups 0 (8 - (length gs + 1)) u = (ts, w, r)"
      using u by (cases "read_groups 0 (8 - (length gs + 1)) u") auto
    from read_groups_text [OF this] obtain e where "u = e @ r" "\<forall>c\<in>set e. ip_char c" by blast
    with d t show ?thesis by (intro exI [of _ "d @ CHR '':'' # CHR '':'' # e"]) auto
  qed
qed

lemma parse_ip_text: "parse_ip s = Some ip \<Longrightarrow> c \<in> set s \<Longrightarrow> ip_char c"
  by (auto simp: parse_ip_def dest!: read_ipv4_text read_ipv6_text split: option.splits if_splits list.splits)

section \<open>Splitting\<close>

lemma split_once_at: "c \<notin> set a \<Longrightarrow> split_once c (a @ c # b) = (a, Some b)"
  by (induction a) auto

lemma split_once_without: "c \<notin> set s \<Longrightarrow> split_once c s = (s, None)"
  by (induction s) auto

lemma split_once_None: "split_once c s = (a, None) \<longleftrightarrow> a = s \<and> c \<notin> set s"
  using split_list_first [of c s] by (cases "c \<in> set s") (auto simp: split_once_without split_once_at)

lemma split_once_Some: "split_once c s = (a, Some b) \<longleftrightarrow> s = a @ c # b \<and> c \<notin> set a"
proof
  show "split_once c s = (a, Some b) \<Longrightarrow> s = a @ c # b \<and> c \<notin> set a"
  proof (induction s arbitrary: a)
    case (Cons x s)
    obtain p q where "split_once c s = (p, q)" by fastforce
    with Cons show ?case by (cases "x = c") auto
  qed simp
qed (simp add: split_once_at)

lemma rsplit_once_None: "rsplit_once c s = None \<longleftrightarrow> c \<notin> set s"
  using split_once_None [of c "rev s"] by (cases "split_once c (rev s)") (auto simp: rsplit_once_def split: option.splits)

lemma rsplit_once_Some: "rsplit_once c s = Some (a, b) \<longleftrightarrow> s = a @ c # b \<and> c \<notin> set b"
proof -
  have "rsplit_once c s = Some (a, b) \<longleftrightarrow> split_once c (rev s) = (rev b, Some (rev a))"
    by (cases "split_once c (rev s)") (auto simp: rsplit_once_def split: option.splits)
  also have "\<dots> \<longleftrightarrow> rev s = rev (a @ c # b) \<and> c \<notin> set b" unfolding split_once_Some by simp
  also have "\<dots> \<longleftrightarrow> s = a @ c # b \<and> c \<notin> set b" by (simp only: rev_is_rev_conv)
  finally show ?thesis .
qed

lemma digits_value_all: "digits_value n s = Some v \<Longrightarrow> list_all is_ascii_digit s"
  by (induction n s rule: digits_value.induct) (auto split: if_splits)

lemma parse_u16_text:
  assumes "parse_u16 p = Some n"
  shows "p \<noteq> []" and "list_all is_ascii_digit p \<or> hd p = CHR ''+''" and "CHR ''?'' \<notin> set p"
proof -
  have q: "\<not> is_ascii_digit (CHR ''?'')" by code_simp
  obtain c cs where p: "p = c # cs" using assms by (cases p) (auto simp: parse_u16_def)
  have "list_all is_ascii_digit (if c = CHR ''+'' then cs else p)"
    using assms by (auto simp: parse_u16_def p Let_def split: if_splits option.splits dest: digits_value_all)
  with p q show "p \<noteq> []" "list_all is_ascii_digit p \<or> hd p = CHR ''+''" "CHR ''?'' \<notin> set p"
    by (auto simp: list_all_iff split: if_splits)
qed


section \<open>What the manifest admits\<close>

text \<open>The text after the scheme up to the first slash: what the attempt takes for the authority.\<close>

definition dialled_authority :: "string \<Rightarrow> string" where
  "dialled_authority url = takeWhile (\<lambda>c. c \<noteq> CHR ''/'') (drop (length url_scheme) url)"

lemma split_http_url_scheme:
  "split_http_url (url_scheme @ rest) = (let a = dialled_authority (url_scheme @ rest); p = dropWhile (\<lambda>c. c \<noteq> CHR ''/'') rest
     in if a = [] then None else Some (a, if p = [] then ''/'' else p))"
  by (simp add: split_http_url_def dialled_authority_def Let_def)

lemma takeWhile_both: "takeWhile (\<lambda>c. c \<noteq> x \<and> c \<noteq> y) s = takeWhile (\<lambda>c. c \<noteq> y) (takeWhile (\<lambda>c. c \<noteq> x) s)"
  by (induction s) auto

lemma url_authority_scheme: "url_authority (url_scheme @ rest) = takeWhile (\<lambda>c. c \<noteq> CHR ''?'') (dialled_authority (url_scheme @ rest))"
  by (simp add: url_authority_def dialled_authority_def takeWhile_both)

lemma authority_parts_text:
  "authority_parts a = Some (h, p) \<Longrightarrow> c \<in> set a \<Longrightarrow> c \<in> set h \<union> set p \<union> {CHR ''['', CHR '']'', CHR '':''}"
  by (auto simp: authority_parts_def split_once_Some rsplit_once_Some strip_prefix_iff split: option.splits prod.splits if_splits)

text \<open>A question mark in the dialled text is in its host or in its port, and neither reads with one.\<close>

lemma question_fails: "CHR ''?'' \<in> set a \<Longrightarrow> parse_authority a = None"
proof -
  assume q: "CHR ''?'' \<in> set a"
  have "parse_ip h = None \<or> (parse_u16 p = None \<and> p \<noteq> [])" if "authority_parts a = Some (h, p)" for h p
    using authority_parts_text [OF that q] parse_ip_text [of h _ "CHR ''?''"] parse_u16_text(3) [of p]
    by (cases "parse_ip h"; cases "parse_u16 p") auto
  then show ?thesis by (fastforce simp: parse_authority_def split: option.splits prod.splits)
qed

lemma loopback_authority_Inr:
  assumes "loopback_authority a = Inr ()"
  obtains h p ip where "split_host_port a = Inr (h, p)" "parse_ip h = Some ip" "is_loopback ip"
    "\<forall>t. p = Some t \<longrightarrow> (\<exists>n. parse_u16 t = Some n \<and> 0 < n)"
proof -
  obtain h p where split: "split_host_port a = Inr (h, p)" using assms by (auto simp: loopback_authority_def split: if_splits)
  obtain ip where ip: "parse_ip h = Some ip" "is_loopback ip"
    using assms split by (auto simp: loopback_authority_def split: if_splits option.splits)
  have "\<forall>t. p = Some t \<longrightarrow> (\<exists>n. parse_u16 t = Some n \<and> 0 < n)"
    using assms split ip by (auto simp: loopback_authority_def split: if_splits option.splits)
  with split ip show thesis by (rule that)
qed

definition dialable :: "string \<Rightarrow> bool" where
  "dialable url \<longleftrightarrow> (\<exists>authority path ip port. split_http_url url = Some (authority, path)
     \<and> parse_authority authority = Some (ip, port) \<and> is_loopback ip \<and> 0 < port)"

lemma admitted_authority:
  assumes "loopback_authority a = Inr ()"
  shows "if hd a \<noteq> CHR ''['' \<and> CHR ''+'' \<in> set a then parse_authority a = None
    else \<exists>ip port. parse_authority a = Some (ip, port) \<and> is_loopback ip \<and> 0 < port"
proof -
  from assms obtain h p ip where split: "split_host_port a = Inr (h, p)" and ip: "parse_ip h = Some ip" "is_loopback ip"
    and port: "\<forall>t. p = Some t \<longrightarrow> (\<exists>n. parse_u16 t = Some n \<and> 0 < n)" by (rule loopback_authority_Inr)
  have empty: "parse_u16 [] = None" "(0 :: u16) < 80" by (simp_all add: parse_u16_def)
  have plus: "CHR ''+'' \<notin> set h" using parse_ip_text [OF ip(1), of "CHR ''+''"] by auto
  show ?thesis
  proof (cases "strip_prefix ''['' a")
    case (Some rest)
    then have a: "hd a = CHR ''[''" by (auto simp: strip_prefix_iff)
    have parts: "authority_parts a = Some (h, case p of Some t \<Rightarrow> t | None \<Rightarrow> [])"
      using split Some by (auto simp: split_host_port_def authority_parts_def split: prod.splits option.splits if_splits)
    show ?thesis using port empty ip a by (cases p) (auto simp: parse_authority_def parts)
  next
    case open_text: None
    then have bare: "a = [] \<or> hd a \<noteq> CHR ''[''" by (cases a) auto
    show ?thesis
    proof (cases p)
      case None
      then have "h = a" "rsplit_once (CHR '':'') a = None"
        using split open_text by (auto simp: split_host_port_def split: option.splits if_splits)
      then show ?thesis using ip empty plus open_text by (simp add: parse_authority_def authority_parts_def)
    next
      case (Some t)
      then have r: "rsplit_once (CHR '':'') a = Some (h, t)"
        using split open_text by (auto simp: split_host_port_def split: option.splits if_splits)
      then have a: "a = h @ CHR '':'' # t" by (simp add: rsplit_once_Some)
      obtain n where n: "parse_u16 t = Some n" "0 < n" using port Some by blast
      have digit: "\<not> is_ascii_digit (CHR ''+'')" by code_simp
      show ?thesis
      proof (cases "list_all is_ascii_digit t")
        case True
        then have "CHR ''+'' \<notin> set a" using plus digit by (auto simp: a list_all_iff)
        then show ?thesis using ip n parse_u16_text(1) [OF n(1)] True open_text r
          by (simp add: parse_authority_def authority_parts_def)
      next
        case False
        then have "CHR ''+'' \<in> set t" using parse_u16_text(1,2) [OF n(1)] by (metis hd_in_set)
        then have here: "CHR ''+'' \<in> set a" by (simp add: a)
        then have "parse_ip a = None" using parse_ip_text [of a _ "CHR ''+''"] by (cases "parse_ip a") auto
        then have "parse_authority a = None"
          using False open_text r by (simp add: parse_authority_def authority_parts_def)
        with here bare show ?thesis by (auto simp: a)
      qed
    qed
  qed
qed

lemma admitted_url:
  assumes "strip_prefix url_scheme url \<noteq> None" and "loopback_authority (url_authority url) = Inr ()"
    and "url_authority url \<noteq> []"
  shows "dialable url \<longleftrightarrow> CHR ''?'' \<notin> set (dialled_authority url)
    \<and> (hd (dialled_authority url) = CHR ''['' \<or> CHR ''+'' \<notin> set (dialled_authority url))"
    and "\<not> dialable url \<Longrightarrow> \<not> http_get_attempt net url status"
proof -
  obtain rest where url: "url = url_scheme @ rest" using assms(1) by (auto simp: strip_prefix_iff)
  let ?a = "dialled_authority url"
  have start: "loopback_authority (takeWhile (\<lambda>c. c \<noteq> CHR ''?'') ?a) = Inr ()"
    using assms(2) unfolding url url_authority_scheme by simp
  have nonempty: "?a \<noteq> []" using assms(3) unfolding url url_authority_scheme by auto
  have parse: "(CHR ''?'' \<notin> set ?a \<and> (hd ?a = CHR ''['' \<or> CHR ''+'' \<notin> set ?a)) \<and>
      (\<exists>ip port. parse_authority ?a = Some (ip, port) \<and> is_loopback ip \<and> 0 < port)
    \<or> \<not> (CHR ''?'' \<notin> set ?a \<and> (hd ?a = CHR ''['' \<or> CHR ''+'' \<notin> set ?a)) \<and> parse_authority ?a = None"
  proof (cases "CHR ''?'' \<in> set ?a")
    case True
    then show ?thesis using question_fails by blast
  next
    case False
    then have "takeWhile (\<lambda>c. c \<noteq> CHR ''?'') ?a = ?a" by (simp add: takeWhile_eq_all_conv) metis
    with start have "loopback_authority ?a = Inr ()" by simp
    from admitted_authority [OF this] False show ?thesis by (auto split: if_splits)
  qed
  have split: "\<exists>path. split_http_url url = Some (?a, path)"
    using nonempty unfolding url split_http_url_scheme Let_def by auto
  show "dialable url \<longleftrightarrow> CHR ''?'' \<notin> set ?a \<and> (hd ?a = CHR ''['' \<or> CHR ''+'' \<notin> set ?a)"
    using parse split by (auto simp: dialable_def)
  show "\<not> http_get_attempt net url status" if "\<not> dialable url"
    using parse split that by (auto simp: dialable_def http_get_attempt_def)
qed

end
