(* ===== verification/Probe_Facts.thy ===== *)
theory Probe_Facts
  imports Probe_Urls
begin

text \<open>
  What a validated manifest promises the engine, and what the polls make of it: the URL rule against the
  dialler, the log search and the status line against their one-piece readings, and the end of the
  readiness wait.
\<close>

section \<open>The URL rule and the dialler\<close>

lemma guarded_Inr [simp]: "guarded b e = Inr u \<longleftrightarrow> b"
  by (auto simp: guarded_def)

lemma require_loopback_Inr: "require_loopback_authority a url field = Inr u \<longleftrightarrow> loopback_authority a = Inr ()"
  by (auto simp: require_loopback_authority_def split: sum.splits)

definition admits_url :: "readiness \<Rightarrow> liveness \<Rightarrow> string \<Rightarrow> bool" where
  "admits_url r l url \<longleftrightarrow> (\<exists>g status. gate r = Inr g \<and> rg_probe g = HttpGetProbe url status)
     \<or> (\<exists>h. liveness_check_of l = Inr (HttpGet h) \<and> hg_url h = url)"

lemma required_str_Inr: "required_str v field = Inr s \<Longrightarrow> v = Some s"
  by (auto simp: required_str_def split: option.splits if_splits)

lemma admits_url_rules:
  assumes "admits_url r l url"
  shows "strip_prefix url_scheme url \<noteq> None" and "url_authority url \<noteq> []" and "loopback_authority (url_authority url) = Inr ()"
proof -
  have g: "strip_prefix url_scheme url \<noteq> None \<and> url_authority url \<noteq> [] \<and> loopback_authority (url_authority url) = Inr ()"
    if "gate r = Inr g" "rg_probe g = HttpGetProbe url status" for g status
  proof -
    from that(1) obtain p where "(case rq_kind r of HttpGetKind \<Rightarrow> http_probe r | FileFreshKind \<Rightarrow> file_probe r | LogContainsKind \<Rightarrow> log_probe r) = Inr p"
      and "g = \<lparr>rg_timeout_ms = rq_timeout_ms r, rg_probe = p\<rparr>"
      by (auto simp: gate_def split: option.splits prod.splits)
    with that(2) have "http_probe r = Inr (HttpGetProbe url status)"
      by (auto simp: file_probe_def log_probe_def split: readiness_kind.splits option.splits)
    then show ?thesis by (auto simp: http_probe_def Let_def require_loopback_Inr split: option.splits)
  qed
  have h: "strip_prefix url_scheme url \<noteq> None \<and> url_authority url \<noteq> [] \<and> loopback_authority (url_authority url) = Inr ()"
    if "liveness_check_of l = Inr (HttpGet h)" "hg_url h = url" for h
  proof -
    from that(1) have "\<exists>h'. http_get_ok h' = Inr (HttpGet h)"
      by (auto simp: liveness_check_of_def heartbeat_ok_def Let_def split: option.splits)
    with that(2) show ?thesis
      by (auto simp: http_get_ok_def Let_def require_loopback_Inr dest!: required_str_Inr)
  qed
  from assms g h show "strip_prefix url_scheme url \<noteq> None" "url_authority url \<noteq> []" "loopback_authority (url_authority url) = Inr ()"
    unfolding admits_url_def by blast+
qed

text \<open>(C17) Which admitted URL can be dialled. A URL the \<open>[readiness]\<close> or the \<open>[liveness]\<close> section admits
  reaches a literal loopback address and a port when, and only when, no question mark stands before its
  first slash and an unbracketed host's port has no plus sign: the validation ends the authority at a slash
  or a question mark and reads the port with \<open>u16::from_str\<close>, the dialler ends it at a slash alone and wants
  digits. An admitted URL outside that set fails at every attempt, whatever the agent answers.\<close>

theorem admitted_url_dials:
  assumes "admits_url r l url"
  shows "(dialable url \<longleftrightarrow> CHR ''?'' \<notin> set (dialled_authority url)
      \<and> (hd (dialled_authority url) = CHR ''['' \<or> CHR ''+'' \<notin> set (dialled_authority url)))
    \<and> (\<not> dialable url \<longrightarrow> (\<forall>net status. \<not> http_get_attempt net url status))"
  using admitted_url [OF admits_url_rules(1,3,2) [OF assms]] by blast

section \<open>The sections of a validated manifest\<close>

lemma optional_section_Inr: "optional_section f x = Inr y \<longleftrightarrow> (case x of None \<Rightarrow> y = None | Some a \<Rightarrow> \<exists>b. f a = Inr b \<and> y = Some b)"
  by (auto simp: optional_section_def split: option.splits)

lemma gate_range:
  assumes "gate r = Inr g"
  shows "1 \<le> rg_timeout_ms g \<and> rg_timeout_ms g \<le> 600000"
    and "rg_probe g = FileFreshProbe path age \<Longrightarrow> 1 \<le> age \<and> age \<le> rg_timeout_ms g"
proof -
  have one: "1 \<le> (w :: u64)" if "w \<noteq> 0" for w
    using that by (simp add: word_le_nat_alt Suc_le_eq unat_gt_0)
  show "1 \<le> rg_timeout_ms g \<and> rg_timeout_ms g \<le> 600000"
    using assms one by (auto simp: gate_def split: option.splits)
  show "1 \<le> age \<and> age \<le> rg_timeout_ms g" if "rg_probe g = FileFreshProbe path age"
    using assms that one
    by (auto simp: gate_def http_probe_def file_probe_def log_probe_def Let_def split: option.splits readiness_kind.splits)
qed

lemma liveness_range: "liveness_check_of l = Inr c \<Longrightarrow> 250 \<le> check_max_age_ms c \<and> check_max_age_ms c \<le> 600000"
  by (auto simp: liveness_check_of_def heartbeat_ok_def http_get_ok_def liveness_age_ok_def Let_def split: option.splits)

lemma first_repeat_None: "first_repeat seen xs = None \<longleftrightarrow> distinct xs \<and> set xs \<inter> set seen = {}"
  by (induction seen xs rule: first_repeat.induct) auto

lemma exit_list_ok_Inr: "exit_list_ok field codes = Inr u \<longleftrightarrow> distinct codes \<and> (\<forall>c\<in>set codes. c \<le> 255)"
  using first_repeat_None [of "[]" codes] find_None_iff [of "(<) 255" codes]
  by (cases "find ((<) 255) codes"; cases "first_repeat [] codes") (auto simp: exit_list_ok_def Let_def not_less)

lemma exit_classes_Inr:
  "exit_classes e = Inr c \<longleftrightarrow> c = e \<and> distinct (ec_restart_requested e @ ec_clean e)
     \<and> (\<forall>x\<in>set (ec_restart_requested e @ ec_clean e). x \<le> 255)"
  by (auto simp: exit_classes_def Let_def exit_list_ok_Inr rbind_eq_Inr filter_empty_conv)

lemma class_of_resolved:
  assumes "exit_classes e = Inr c"
  shows "class_of c x = (if x \<in> set (ec_restart_requested e) then Some RestartRequestedClass
    else if x \<in> set (ec_clean e) then Some CleanClass else None)"
  using assms by (auto simp: exit_classes_Inr class_of_def split: bool.splits)

text \<open>Where an idle file of a resolved \<open>[drain]\<close> section leads: below the home.\<close>

lemma drain_spec_Inr:
  assumes "drain_spec d = Inr e"
  shows "e = d \<and> 1 \<le> ds_timeout_ms d \<and> ds_timeout_ms d \<le> 600000
    \<and> (\<forall>p. ds_idle_file d = Some p \<longrightarrow> \<not> is_absolute p \<and> ''..'' \<notin> set (split_on (CHR ''/'') p))"
  using assms by (auto simp: drain_spec_def Let_def has_parent_component_def split: option.splits)

text \<open>(C20) What a validated manifest promises. Every section resolves again when the engine reads it, so the
  error arms of the accessors are never taken: a readiness wait of 1 to 600000 ms with a freshness window
  inside it, a liveness window of 250 to 600000 ms, exit-code classes in which a listed code has the class of
  its one list, a drain bound in range with an idle file below the agent's home, and an idle file that is not
  the heartbeat file.\<close>

theorem validated_manifest_resolves:
  assumes "validate semver m = Inr ()"
  shows "\<exists>g c e d. readiness_probe_of m = Inr g \<and> declared_liveness m = Inr c \<and> declared_exit_codes m = Inr e \<and> declared_drain m = Inr d
    \<and> (\<forall>w\<in>set_option g. 1 \<le> rg_timeout_ms w \<and> rg_timeout_ms w \<le> 600000
         \<and> (\<forall>path age. rg_probe w = FileFreshProbe path age \<longrightarrow> 1 \<le> age \<and> age \<le> rg_timeout_ms w))
    \<and> (\<forall>w\<in>set_option c. 250 \<le> check_max_age_ms w \<and> check_max_age_ms w \<le> 600000)
    \<and> (\<forall>w\<in>set_option e. \<forall>x. class_of w x = (if x \<in> set (ec_restart_requested w) then Some RestartRequestedClass
         else if x \<in> set (ec_clean w) then Some CleanClass else None))
    \<and> (\<forall>w\<in>set_option d. 1 \<le> ds_timeout_ms w \<and> ds_timeout_ms w \<le> 600000
         \<and> (\<forall>p. ds_idle_file w = Some p \<longrightarrow> \<not> is_absolute p \<and> ''..'' \<notin> set (split_on (CHR ''/'') p)
              \<and> (\<forall>h. c = Some (HeartbeatFile h) \<longrightarrow> hb_path h \<noteq> p)))"
proof -
  obtain g c e d where r: "readiness_probe_of m = Inr g" and l: "declared_liveness m = Inr c"
    and x: "declared_exit_codes m = Inr e" and t: "declared_drain m = Inr d"
    and apart: "validate_drain_liveness_disjoint m = Inr ()"
    using assms unfolding validate_def readiness_probe_of_def declared_liveness_def declared_exit_codes_def declared_drain_def
    by (elim rbind_InrE) (blast intro: that)
  have g: "\<forall>w\<in>set_option g. \<exists>s. gate s = Inr w"
    using r by (auto simp: readiness_probe_of_def optional_section_Inr split: option.splits)
  have c: "\<forall>w\<in>set_option c. \<exists>s. mf_liveness m = Some s \<and> liveness_check_of s = Inr w"
    using l by (auto simp: declared_liveness_def optional_section_Inr split: option.splits)
  have e: "\<forall>w\<in>set_option e. exit_classes w = Inr w"
    using x by (auto simp: declared_exit_codes_def optional_section_Inr exit_classes_Inr split: option.splits)
  have d: "\<forall>w\<in>set_option d. mf_drain m = Some w \<and> drain_spec w = Inr w"
    using t drain_spec_Inr by (fastforce simp: declared_drain_def optional_section_Inr split: option.splits)
  have other: "hb_path h \<noteq> p" if "w \<in> set_option d" "ds_idle_file w = Some p" "c = Some (HeartbeatFile h)" for w p h
  proof -
    note here = that
    obtain s where s: "mf_liveness m = Some s" "liveness_check_of s = Inr (HeartbeatFile h)" using c here(3) by auto
    then have "lq_heartbeat_file s = Some h"
      by (auto simp: liveness_check_of_def heartbeat_ok_def http_get_ok_def Let_def split: option.splits)
    with apart d here s show ?thesis by (auto simp: validate_drain_liveness_disjoint_def)
  qed
  have "\<forall>w\<in>set_option g. 1 \<le> rg_timeout_ms w \<and> rg_timeout_ms w \<le> 600000
         \<and> (\<forall>path age. rg_probe w = FileFreshProbe path age \<longrightarrow> 1 \<le> age \<and> age \<le> rg_timeout_ms w)"
    using g gate_range by meson
  moreover have "\<forall>w\<in>set_option c. 250 \<le> check_max_age_ms w \<and> check_max_age_ms w \<le> 600000"
    using c liveness_range by meson
  moreover have "\<forall>w\<in>set_option e. \<forall>x. class_of w x = (if x \<in> set (ec_restart_requested w) then Some RestartRequestedClass
         else if x \<in> set (ec_clean w) then Some CleanClass else None)"
    using e class_of_resolved by blast
  moreover have "\<forall>w\<in>set_option d. 1 \<le> ds_timeout_ms w \<and> ds_timeout_ms w \<le> 600000
         \<and> (\<forall>p. ds_idle_file w = Some p \<longrightarrow> \<not> is_absolute p \<and> ''..'' \<notin> set (split_on (CHR ''/'') p)
              \<and> (\<forall>h. c = Some (HeartbeatFile h) \<longrightarrow> hb_path h \<noteq> p))"
    using d drain_spec_Inr other by meson
  ultimately show ?thesis using r l x t by blast
qed

section \<open>One-piece readings\<close>

lemma status_line_prefix: "CHR 0x0A \<in> set h \<Longrightarrow> parse_status_line (h @ t) = parse_status_line h"
  by (simp add: parse_status_line_def Let_def takeWhile_append1 [where x = "CHR 0x0A"])

lemma crlf_newline: "sublist crlf h \<Longrightarrow> CHR 0x0A \<in> set h"
  by (auto simp: sublist_def crlf_def)

lemma read_head_pieces:
  assumes "[] \<notin> set chunks" and "length (head @ concat chunks) < http_read_cap_bytes"
  shows "\<exists>h t. read_head head (map ReadChunk chunks @ [ReadEnd]) = Some h \<and> head @ concat chunks = h @ t
    \<and> (t = [] \<or> CHR 0x0A \<in> set h)"
  using assms
proof (induction chunks arbitrary: head)
  case (Cons c cs)
  show ?case
  proof (cases "sublist crlf (head @ c)")
    case True
    with Cons.prems crlf_newline [OF True] show ?thesis by auto
  next
    case False
    with Cons.IH [of "head @ c"] Cons.prems show ?thesis by auto
  qed
qed simp

lemma scan_carry:
  assumes "\<not> sublist needle w" and "k = length w - min (length needle - 1) (length w)"
  shows "sublist needle (w @ t) \<longleftrightarrow> sublist needle (drop k w @ t)"
proof
  assume "sublist needle (w @ t)"
  then obtain a b where occ: "w @ t = a @ needle @ b" by (auto simp: sublist_def)
  have "length w < length (a @ needle)"
  proof (rule ccontr)
    assume "\<not> length w < length (a @ needle)"
    then have "take (length (a @ needle)) w = a @ needle"
      using arg_cong [OF occ, of "take (length (a @ needle))"] by simp
    then have "w = a @ needle @ drop (length (a @ needle)) w" by (metis append.assoc append_take_drop_id)
    with assms(1) show False unfolding sublist_def by blast
  qed
  then have "k \<le> length a" "k \<le> length w" using assms(2) by auto
  then have "drop k w @ t = drop k a @ needle @ b" using arg_cong [OF occ, of "drop k"] by simp
  then show "sublist needle (drop k w @ t)" unfolding sublist_def by blast
next
  assume "sublist needle (drop k w @ t)"
  then obtain a b where "drop k w @ t = a @ needle @ b" by (auto simp: sublist_def)
  then have "w @ t = (take k w @ a) @ needle @ b" by (metis append.assoc append_take_drop_id)
  then show "sublist needle (w @ t)" unfolding sublist_def by blast
qed

lemma scan_log_pieces:
  "needle \<noteq> [] \<Longrightarrow> [] \<notin> set chunks \<Longrightarrow> \<not> sublist needle carry
     \<Longrightarrow> scan_log needle carry (map Some chunks) \<longleftrightarrow> sublist needle (carry @ concat chunks)"
proof (induction chunks arbitrary: carry)
  case (Cons c cs)
  let ?w = "carry @ c"
  show ?case
  proof (cases "sublist needle ?w")
    case True
    then obtain a b where "?w = a @ needle @ b" by (auto simp: sublist_def)
    then have "?w @ concat cs = a @ needle @ (b @ concat cs)" by (metis append.assoc)
    then have "sublist needle (?w @ concat cs)" unfolding sublist_def by blast
    with True Cons.prems show ?thesis by auto
  next
    case False
    let ?k = "length ?w - min (length needle - 1) (length ?w)"
    have "sublist (drop ?k ?w) ?w" unfolding sublist_def by (metis append_take_drop_id append_Nil2)
    with False have "\<not> sublist needle (drop ?k ?w)" by (meson sublist_order.order_trans)
    with Cons.IH [of "drop ?k ?w"] Cons.prems False scan_carry [OF False refl, of "concat cs"]
    show ?thesis by (auto simp: Let_def)
  qed
qed simp

text \<open>(C18) The polls read a text, not the pieces it came in. An HTTP attempt on a dialable URL passes exactly
  when the first line of the whole answer carries the expected status, although the loop stops at the first
  complete line and however the peer cuts its bytes (below the 8 KiB cap); a log probe passes exactly when
  the line occurs in the log from the spawn cursor on - from the start when the log shrank below it - although
  a chunk boundary may run through the occurrence.\<close>

theorem polls_read_whole_texts:
  assumes "[] \<notin> set chunks" and "length (concat chunks) < http_read_cap_bytes" and "needle \<noteq> []"
    and "\<forall>s. lr_reads rd s = map Some (pieces s) \<and> concat (pieces s) = s \<and> [] \<notin> set (pieces s)"
    and "lr_opens rd" and "lr_stats rd" and "lr_seeks rd"
  shows "(http_get_attempt (\<lambda>_ _. \<lparr>hp_connects = True, hp_write_timeout = True, hp_writes = True,
        hp_steps = map ReadChunk chunks @ [ReadEnd]\<rparr>) url expected
      \<longleftrightarrow> (\<exists>authority path addr. split_http_url url = Some (authority, path) \<and> parse_authority authority = Some addr)
        \<and> parse_status_line (concat chunks) = Some expected)
    \<and> (log_contains rd (Some bytes) start needle
      \<longleftrightarrow> sublist needle (drop (if length bytes < start then 0 else start) bytes))"
proof
  obtain h t where head: "read_head [] (map ReadChunk chunks @ [ReadEnd]) = Some h" "concat chunks = h @ t"
      "t = [] \<or> CHR 0x0A \<in> set h"
    using read_head_pieces [of chunks "[]"] assms(1,2) by auto
  then have "parse_status_line (concat chunks) = parse_status_line h" using status_line_prefix by auto
  then show "http_get_attempt (\<lambda>_ _. \<lparr>hp_connects = True, hp_write_timeout = True, hp_writes = True,
        hp_steps = map ReadChunk chunks @ [ReadEnd]\<rparr>) url expected
      \<longleftrightarrow> (\<exists>authority path addr. split_http_url url = Some (authority, path) \<and> parse_authority authority = Some addr)
        \<and> parse_status_line (concat chunks) = Some expected"
    by (auto simp: http_get_attempt_def head(1) split: option.splits)
  have "scan_log needle [] (lr_reads rd s) \<longleftrightarrow> sublist needle s" for s
    using scan_log_pieces [OF assms(3), of "pieces s" "[]"] assms(3,4) by simp
  then show "log_contains rd (Some bytes) start needle
      \<longleftrightarrow> sublist needle (drop (if length bytes < start then 0 else start) bytes)"
    using assms(3,5-7) by (simp add: log_contains_def Let_def)
qed

section \<open>The readiness wait ends\<close>

text \<open>Each round sleeps for the poll interval, or for what is left of the budget.\<close>

definition paced :: "duration \<Rightarrow> wait_round list \<Rightarrow> bool" where
  "paced budget rs \<longleftrightarrow> (\<forall>i. Suc i < length rs \<longrightarrow>
     wr_elapsed (rs ! i) + min readiness_probe_poll (budget - wr_elapsed (rs ! i)) \<le> wr_elapsed (rs ! Suc i))"

text \<open>What a round decides, and that it decides nothing.\<close>

definition goes_on :: "readiness_gate \<Rightarrow> string \<Rightarrow> nat \<Rightarrow> wait_round \<Rightarrow> bool" where
  "goes_on g home start r \<longleftrightarrow> (\<forall>code. wr_poll r \<noteq> Inr (Exited code)) \<and> \<not> probe_passes (rg_probe g) home start (wr_world r)
     \<and> wr_elapsed r < from_millis (rg_timeout_ms g)"

definition decides :: "readiness_gate \<Rightarrow> string \<Rightarrow> nat \<Rightarrow> wait_round \<Rightarrow> nat \<Rightarrow> probe_outcome" where
  "decides g home start r errors =
     (case wr_poll r of
        Inr (Exited code) \<Rightarrow> ProcessExited code
      | _ \<Rightarrow> if probe_passes (rg_probe g) home start (wr_world r) then ProbeReady (millis (wr_elapsed r))
              else ProbeTimedOut (readiness_describe (rg_probe g)) (millis (wr_elapsed r)) errors)"

definition failed_polls :: "wait_round list \<Rightarrow> nat" where
  "failed_polls rs = length (filter (\<lambda>r. \<exists>e. wr_poll r = Inl e) rs)"

lemma run_probe_step:
  "run_probe g home start n (r # rs) =
     (if goes_on g home start r then run_probe g home start (n + failed_polls [r]) rs
      else Some (decides g home start r (n + failed_polls [r])))"
  by (auto simp: goes_on_def decides_def failed_polls_def Let_def split: sum.split process_status.split)

declare run_probe.simps(2) [simp del]

lemma run_probe_decides:
  "run_probe g home start n (rs @ r # others) =
     Some (decides g home start r (n + failed_polls (rs @ [r])))"
  if "list_all (goes_on g home start) rs" and "\<not> goes_on g home start r"
  using that by (induction rs arbitrary: n) (auto simp: run_probe_step failed_polls_def)

lemma paced_progress:
  assumes "paced budget rs" and "i < length rs"
  shows "min budget (i * readiness_probe_poll) \<le> wr_elapsed (rs ! i)"
  using assms(2)
proof (induction i)
  case (Suc i)
  then have "min budget (i * readiness_probe_poll) \<le> wr_elapsed (rs ! i)" by simp
  moreover have "wr_elapsed (rs ! i) + min readiness_probe_poll (budget - wr_elapsed (rs ! i)) \<le> wr_elapsed (rs ! Suc i)"
    using assms(1) Suc.prems by (simp add: paced_def)
  ultimately show ?case by (auto simp: min_def split: if_splits)
qed simp

text \<open>(C19) The readiness wait ends, and says what happened. A wait that sleeps as the code does is over within
  \<open>timeout_ms / 100 ms + 2\<close> rounds; its outcome is what the first decisive round shows - an exit before a
  passing probe, a passing probe before the deadline - and a timeout carries the number of polls that
  failed up to then and a time no shorter than the budget.\<close>

theorem readiness_wait_ends:
  assumes "paced (from_millis (rg_timeout_ms g)) rs"
    and "from_millis (rg_timeout_ms g) div readiness_probe_poll + 2 \<le> length rs"
  shows "\<exists>before r after. rs = before @ r # after \<and> list_all (goes_on g home start) before \<and> \<not> goes_on g home start r
    \<and> length before \<le> from_millis (rg_timeout_ms g) div readiness_probe_poll + 1
    \<and> run_probe g home start 0 rs = Some (decides g home start r (failed_polls (before @ [r])))
    \<and> (\<forall>d w k. run_probe g home start 0 rs = Some (ProbeTimedOut d w k) \<longrightarrow> from_millis (rg_timeout_ms g) \<le> wr_elapsed r)"
proof -
  let ?b = "from_millis (rg_timeout_ms g)"
  let ?n = "?b div readiness_probe_poll + 1"
  have poll: "0 < readiness_probe_poll" by (simp add: readiness_probe_poll_def)
  have "?b \<le> ?n * readiness_probe_poll"
    using dividend_less_div_times [OF poll, of ?b] by (simp add: algebra_simps)
  then have "?b \<le> wr_elapsed (rs ! ?n)"
    using paced_progress [OF assms(1), of ?n] assms(2) by (simp add: min_absorb1)
  then have late: "\<not> goes_on g home start (rs ! ?n)" by (simp add: goes_on_def)
  define k where "k = (LEAST i. \<not> goes_on g home start (rs ! i))"
  have k: "\<not> goes_on g home start (rs ! k)" "k \<le> ?n" and less: "\<And>i. i < k \<Longrightarrow> goes_on g home start (rs ! i)"
    unfolding k_def using late by (rule LeastI, rule Least_le) (use not_less_Least in blast)
  have len: "k < length rs" using k(2) assms(2) by simp
  have split: "rs = take k rs @ rs ! k # drop (Suc k) rs" using id_take_nth_drop [OF len] .
  have quiet: "list_all (goes_on g home start) (take k rs)" using less len by (auto simp: list_all_length)
  have out: "run_probe g home start 0 rs = Some (decides g home start (rs ! k) (failed_polls (take k rs @ [rs ! k])))"
    using run_probe_decides [OF quiet k(1), of 0 "drop (Suc k) rs"] split by simp
  have "?b \<le> wr_elapsed (rs ! k)" if "decides g home start (rs ! k) x = ProbeTimedOut d w j" for x d w j
    using that k(1) by (auto simp: decides_def goes_on_def not_less split: sum.splits process_status.splits if_splits)
  with out split quiet k len show ?thesis
    by (intro exI [of _ "take k rs"] exI [of _ "rs ! k"] exI [of _ "drop (Suc k) rs"]) auto
qed

end
