(* ===== verification/Probe_Demo.thy ===== *)
theory Probe_Demo
  imports Probe_Facts
begin

text \<open>
  Concrete polls: a URL the manifest admits and no attempt can dial, a log read byte by byte, a wait that
  runs out of its budget, and a manifest with every optional section.
\<close>

lemma read_octets_pos:
  "0 < k \<Longrightarrow> read_octets index k s =
     (case read_separator (CHR ''.'') index (read_number 10 3 False 256) s of
        None \<Rightarrow> None
      | Some (d, s) \<Rightarrow> map_option (\<lambda>(ds, s). (d # ds, s)) (read_octets (Suc index) (k - 1) s))"
proof -
  assume "0 < k"
  then obtain j where "k = Suc j" by (cases k) auto
  then show ?thesis by (simp split: option.split)
qed

lemma home_literal: "parse_ip ''127.0.0.1'' = Some (V4 [127, 0, 0, 1])"
  by (simp add: parse_ip_def read_ipv4_def read_octets_pos read_separator_def read_number_def digit_of_def byte_of_def Let_def)

lemma home_authority: "loopback_authority ''127.0.0.1:8080'' = Inr ()"
proof -
  have "split_host_port ''127.0.0.1:8080'' = Inr (''127.0.0.1'', Some ''8080'')" by (simp add: split_host_port_def rsplit_once_def)
  moreover have "parse_u16 ''8080'' = Some 8080" by (simp add: parse_u16_def is_ascii_digit_def byte_of_def)
  ultimately show ?thesis by (simp add: loopback_authority_def home_literal)
qed

definition query_check :: http_get_check where
  "query_check = \<lparr>hg_url = ''http://127.0.0.1:8080?ready=1'', hg_expected_status = 200, hg_max_age_ms = 5000\<rparr>"

definition no_readiness :: readiness where
  "no_readiness = \<lparr>rq_kind = LogContainsKind, rq_timeout_ms = 0, rq_url = None, rq_expected_status = None, rq_path = None,
     rq_max_age_ms = None, rq_line = None\<rparr>"

lemma query_admitted: "http_get_ok query_check = Inr (HttpGet query_check)"
proof -
  have a: "url_authority ''http://127.0.0.1:8080?ready=1'' = ''127.0.0.1:8080''" by (simp add: url_authority_def url_scheme_def)
  have t: "trim ''http://127.0.0.1:8080?ready=1'' \<noteq> []" by code_simp
  have c: "\<not> contains_control_char ''http://127.0.0.1:8080?ready=1''" by code_simp
  show ?thesis
    by (simp add: http_get_ok_def query_check_def required_str_def t guarded_def c a require_loopback_authority_def home_authority
        status_ok_def liveness_age_ok_def Let_def url_scheme_def word_le_nat_alt)
qed

lemma admitted_url_dials_witness:
  "liveness_check_of \<lparr>lq_heartbeat_file = None, lq_http_get = Some query_check\<rparr> = Inr (HttpGet query_check)
   \<and> (\<forall>home wd. liveness_evaluate (HttpGet query_check) home wd = Failing)"
proof -
  let ?l = "\<lparr>lq_heartbeat_file = None, lq_http_get = Some query_check\<rparr>"
  have l: "liveness_check_of ?l = Inr (HttpGet query_check)" by (simp add: liveness_check_of_def query_admitted)
  have url: "hg_url query_check = ''http://127.0.0.1:8080?ready=1''" by (simp add: query_check_def)
  have "admits_url no_readiness ?l ''http://127.0.0.1:8080?ready=1''" using l url by (auto simp: admits_url_def)
  from admitted_url_dials [OF this] have "\<not> http_get_attempt net (hg_url query_check) status" for net status
    unfolding url by (simp add: dialled_authority_def url_scheme_def)
  with l show ?thesis by simp
qed

definition byte_reader :: log_reader where
  "byte_reader = \<lparr>lr_opens = True, lr_stats = True, lr_seeks = True, lr_reads = (\<lambda>s. map (\<lambda>c. Some [c]) s)\<rparr>"

lemma polls_read_whole_texts_witness:
  "log_contains byte_reader (Some ''old line; READY'') 10 ''READY'' \<and> \<not> log_contains byte_reader (Some ''READY, then more'') 3 ''READY''
   \<and> (http_get_attempt (\<lambda>_ _. \<lparr>hp_connects = True, hp_write_timeout = True, hp_writes = True,
        hp_steps = map ReadChunk [''HTTP/1.1 2'', ''00 OK'' @ crlf] @ [ReadEnd]\<rparr>) ''http://127.0.0.1/'' 200
      \<longleftrightarrow> (\<exists>authority path addr. split_http_url ''http://127.0.0.1/'' = Some (authority, path) \<and> parse_authority authority = Some addr)
        \<and> parse_status_line (''HTTP/1.1 200 OK'' @ crlf) = Some 200)"
proof -
  have one: "concat (map (\<lambda>c. [c]) s) = s" for s :: string by (induction s) auto
  have pieces: "\<forall>s. lr_reads byte_reader s = map Some (map (\<lambda>c. [c]) s) \<and> concat (map (\<lambda>c. [c]) s) = s \<and> [] \<notin> set (map (\<lambda>c. [c]) s)"
    by (auto simp: byte_reader_def one)
  have flags: "lr_opens byte_reader" "lr_stats byte_reader" "lr_seeks byte_reader" by (simp_all add: byte_reader_def)
  have chunks: "[] \<notin> set [''HTTP/1.1 2'', ''00 OK'' @ crlf]" "length (concat [''HTTP/1.1 2'', ''00 OK'' @ crlf]) < http_read_cap_bytes"
    by (simp_all add: http_read_cap_bytes_def crlf_def)
  note both = polls_read_whole_texts [OF chunks _ pieces flags, of "''READY''" "''http://127.0.0.1/''" 200]
  have "sublist ''READY'' (drop 10 ''old line; READY'')" "\<not> sublist ''READY'' (drop 3 ''READY, then more'')" by code_simp+
  with both [of "''old line; READY''" 10] both [of "''READY, then more''" 3] show ?thesis by simp
qed

definition absent_world :: world where
  "absent_world = \<lparr>wd_net = (\<lambda>_ _. \<lparr>hp_connects = False, hp_write_timeout = False, hp_writes = False, hp_steps = []\<rparr>),
     wd_stat = (\<lambda>_. None), wd_now = 0, wd_log = None, wd_reader = byte_reader\<rparr>"

lemma readiness_wait_ends_witness:
  "run_probe \<lparr>rg_timeout_ms = 100, rg_probe = FileFreshProbe ''ready'' 50\<rparr> ''/home'' 0 0
     [\<lparr>wr_poll = Inr Alive, wr_world = absent_world, wr_elapsed = 0\<rparr>,
      \<lparr>wr_poll = Inl (BackendFailed ''busy''), wr_world = absent_world, wr_elapsed = 100000000\<rparr>,
      \<lparr>wr_poll = Inr Alive, wr_world = absent_world, wr_elapsed = 200000000\<rparr>]
   = Some (ProbeTimedOut ''readiness probe file-fresh ready (fresh within 50ms)'' 100 1)"
proof -
  let ?g = "\<lparr>rg_timeout_ms = 100, rg_probe = FileFreshProbe ''ready'' 50\<rparr>"
  let ?r0 = "\<lparr>wr_poll = Inr Alive, wr_world = absent_world, wr_elapsed = 0\<rparr>"
  let ?r1 = "\<lparr>wr_poll = Inl (BackendFailed ''busy''), wr_world = absent_world, wr_elapsed = 100000000\<rparr>"
  let ?r2 = "\<lparr>wr_poll = Inr Alive, wr_world = absent_world, wr_elapsed = 200000000\<rparr>"
  have budget: "from_millis (rg_timeout_ms ?g) = 100000000" by (simp add: from_millis_def)
  have idle: "\<not> probe_passes (rg_probe ?g) ''/home'' 0 absent_world" by (simp add: file_fresh_def age_of_def absent_world_def)
  have on: "goes_on ?g ''/home'' 0 ?r0" "\<not> goes_on ?g ''/home'' 0 ?r1"
    using idle budget by (simp_all add: goes_on_def)
  have "paced (from_millis (rg_timeout_ms ?g)) [?r0, ?r1, ?r2]"
    unfolding budget by (simp add: paced_def readiness_probe_poll_def less_Suc_eq all_conj_distrib)
  moreover have "from_millis (rg_timeout_ms ?g) div readiness_probe_poll + 2 \<le> length [?r0, ?r1, ?r2]"
    unfolding budget by (simp add: readiness_probe_poll_def)
  ultimately obtain before r after where b: "[?r0, ?r1, ?r2] = before @ r # after" "list_all (goes_on ?g ''/home'' 0) before"
      "\<not> goes_on ?g ''/home'' 0 r"
      "run_probe ?g ''/home'' 0 0 [?r0, ?r1, ?r2] = Some (decides ?g ''/home'' 0 r (failed_polls (before @ [r])))"
    using readiness_wait_ends [of ?g "[?r0, ?r1, ?r2]" "''/home''" 0] by blast
  have "before = [?r0]" "r = ?r1"
    using b(1-3) on by (cases before; auto simp: Cons_eq_append_conv)+
  moreover have "dec 50 = ''50''" by code_simp
  ultimately show ?thesis using b(4) idle by (simp add: decides_def failed_polls_def millis_def)
qed

definition full_manifest :: manifest where
  "full_manifest = \<lparr>mf_contract_version = Some ''1.1.0'', mf_adapter = Some (''mock'', None),
     mf_lifecycle = Some \<lparr>lo_start = Some \<lparr>op_exec = ''run'', op_args = [], op_env = []\<rparr>, lo_stop = None, lo_pause = None, lo_resume = None\<rparr>,
     mf_capabilities = Some [(PauseCapability, [(Linux, Guaranteed)])], mf_metering = Some SelfReported, mf_interaction = None, mf_config = None,
     mf_readiness = Some \<lparr>rq_kind = FileFreshKind, rq_timeout_ms = 100, rq_url = None, rq_expected_status = None, rq_path = Some ''up'',
       rq_max_age_ms = Some 50, rq_line = None\<rparr>,
     mf_liveness = Some \<lparr>lq_heartbeat_file = Some \<lparr>hb_path = ''beat'', hb_max_age_ms = 250\<rparr>, lq_http_get = None\<rparr>,
     mf_exit_codes = Some \<lparr>ec_restart_requested = [75], ec_clean = [0]\<rparr>,
     mf_drain = Some \<lparr>ds_idle_file = Some ''idle'', ds_timeout_ms = 1000\<rparr>\<rparr>"

lemma validated_manifest_resolves_witness:
  "\<exists>e. declared_exit_codes full_manifest = Inr (Some e) \<and> class_of e 75 = Some RestartRequestedClass \<and> class_of e 0 = Some CleanClass
     \<and> class_of e 1 = None"
proof -
  have texts: "trim ''1.1.0'' \<noteq> []" "trim ''mock'' \<noteq> []" "trim ''up'' \<noteq> []" "trim ''beat'' \<noteq> []" "trim ''idle'' \<noteq> []"
      "\<not> contains_control_char ''up''" "\<not> contains_control_char ''beat''" "\<not> contains_control_char ''idle''"
      "is_valid_adapter_kind ''mock''" "\<not> has_parent_component ''idle''" "\<not> is_absolute ''idle''"
    by code_simp+
  have "validate (\<lambda>_. Some 1) full_manifest = Inr ()"
    by (simp add: validate_def full_manifest_def version_ok_def adapter_ok_def lifecycle_ok_def op_ok_def has_any_support_def config_ok_def
        optional_section_def gate_def file_probe_def required_str_def foreign_fields_def liveness_check_of_def heartbeat_ok_def
        liveness_age_ok_def exit_classes_def exit_list_ok_def drain_spec_def validate_drain_liveness_disjoint_def guarded_def texts Let_def
        word_le_nat_alt word_less_nat_alt)
  from validated_manifest_resolves [OF this] obtain e where e: "declared_exit_codes full_manifest = Inr e"
    "\<forall>w\<in>set_option e. \<forall>x. class_of w x = (if x \<in> set (ec_restart_requested w) then Some RestartRequestedClass
       else if x \<in> set (ec_clean w) then Some CleanClass else None)" by blast
  from e(1) have "e = mf_exit_codes full_manifest"
    by (auto simp: declared_exit_codes_def optional_section_Inr exit_classes_Inr split: option.splits)
  with e show ?thesis by (simp add: full_manifest_def)
qed

end
