(* ===== verification/Spec2Isabelle.thy ===== *)
theory Spec2Isabelle
  imports Restart Governance Run_Ids Run_Properties Registry Pipeline_Total Spawn_Records Store_Writer Resync Config_Store Supervision_Demo Probe_Demo
begin

text \<open>
  Hekma: the engine's core logic.

  Hekma supervises agent processes (Agent Instances), records what they do as Runs, meters what they
  spend, and enforces ceilings on tokens and dollars. All of its state is one SQLite database; all of its
  writes are jobs of one writer thread. This development models the engine crate,
  \<open>src/crates/hekma-engine/src\<close>; paths below are relative to it.

  How the program works. A command or a probe moves an Agent Instance through the lifecycle
  (\<open>domain/lifecycle.rs\<close>). The transition is committed by a job of the store writer
  (\<open>store/writer.rs\<close>), which in the same savepoint projects it on the instance's Runs
  (\<open>domain/runs/ops.rs\<close>); after the batch commits, a hook publishes the changed Runs to the in-memory
  snapshot (\<open>domain/runs/snapshot.rs\<close>). A usage report becomes a usage row and a rollup
  (\<open>store/run_store_sqlite.rs\<close>) and is evaluated against the ceilings of its Run, of the Runs above it and
  of the instance (\<open>domain/pipeline.rs\<close>, \<open>domain/governance.rs\<close>); a fired ceiling writes a breach, a
  latch and an outbox event, and may raise the wire fence (\<open>metering/fence.rs\<close>). Events wait in the
  outbox for consumers that page through it and acknowledge (\<open>domain/outbox.rs\<close>). A crashed process is
  restarted as its policy says (\<open>domain/restart.rs\<close>), and a restarted engine adopts running processes by
  their spawn records (\<open>store/sqlite.rs\<close>).

  Theories and what they model.

  \<^item> Prelude: words and saturating arithmetic, the result type (a sum, errors on the left), byte strings,
    list lemmas.
  \<^item> Lifecycle (\<open>domain/lifecycle.rs\<close>, \<open>domain/transition.rs\<close>): states, commands, \<open>next_state\<close>, wire forms.
  \<^item> Budget, Cost (\<open>domain/budget.rs\<close>, \<open>domain/cost.rs\<close>): the two dimensions of a ceiling; micro-dollars
    derived from tokens with 128-bit products and one rounding per direction.
  \<^item> Governance (\<open>domain/governance.rs\<close>, \<open>metering/fence.rs\<close>): \<open>decide\<close> over both dimensions and scopes, the
    latches, and the fence word with its bits.
  \<^item> Restart (\<open>domain/restart.rs\<close>, the planner of \<open>domain/supervisor/reaper.rs\<close>): backoff, crash loop,
    the planning of a crash and of a requested restart over the four operations it needs of the store.
  \<^item> Run_Types, Run_Ids, Verbs (\<open>domain/name.rs\<close>, \<open>domain/usage.rs\<close>, \<open>domain/runs/mod.rs\<close>, \<open>labels.rs\<close>,
    \<open>verbs.rs\<close>): the vocabulary of Runs, their ids, labels and verbs.
  \<^item> Database (the schema of \<open>store/*.rs\<close>, the instance rows, \<open>ports/mod.rs\<close>): one record per table row, the
    database a record of lists in row-id order, the error type of the store.
  \<^item> Run_Store, Run_Store_Facts (\<open>store/runs_sqlite.rs\<close>): every operation of the Run records, with the
    decoding of a row; the abstract content of the store (\<open>entry_of\<close>) and what each write does to it.
  \<^item> Snapshot, Run_Ops, Run_Ops_Facts, Run_Ops_Growth, Run_System, Run_Tree, Run_Demo, Run_Properties
    (\<open>domain/runs/snapshot.rs\<close>, \<open>domain/runs/ops.rs\<close>, the jobs of \<open>domain/registry.rs\<close> and
    \<open>domain/supervisor\<close> that change Runs): the operations on Runs as logged writes, the engine as a
    transition system over a database and its published snapshot, its invariants and its properties.
  \<^item> Ledger, Ledger_Facts (\<open>store/run_store_sqlite.rs\<close>, \<open>domain/usage.rs\<close>): usage rows, the dedup key, the
    instance and Run rollups.
  \<^item> Pipeline, Pipeline_Facts, Pipeline_Properties, Pipeline_Total (\<open>domain/pipeline.rs\<close>, the breach and
    latch tables): a usage commit with its evaluation of every level.
  \<^item> Outbox (\<open>domain/outbox.rs\<close>, \<open>store/run_store_sqlite.rs\<close>): append with eviction, pages, export and
    acknowledgement.
  \<^item> Registry (\<open>domain/registry.rs\<close>, \<open>domain/instance.rs\<close>): registration, lookup, listing, removal.
  \<^item> Spawn_Records (\<open>store/sqlite.rs\<close>): the write-ahead spawn records and the adoption lease.
  \<^item> Memory_Backing (\<open>ports/memory_backing.rs\<close>, \<open>store/sqlite.rs\<close>, \<open>domain/registry.rs\<close>): the attached
    backing, its guarded transactions, attach, detach and status.
  \<^item> Event_Log (\<open>domain/event.rs\<close>, \<open>store/run_store_sqlite.rs\<close>, \<open>domain/registry.rs\<close>): transition events, their
    rows, the keyset pages and the paged read of a log.
  \<^item> Transitions, Transition_Job (\<open>domain/supervisor/commit.rs\<close>, \<open>domain/supervisor/mod.rs\<close>): the transition job
    and the fleet: all the engines that move instances, backings and the log of one database.
  \<^item> Resync (\<open>domain/resync.rs\<close>, \<open>domain/bus.rs\<close>, \<open>usage_events\<close> of \<open>store/sqlite.rs\<close>): the committed events past a
    cursor, and the host that follows an instance with it.
  \<^item> Store_Writer (\<open>store/writer.rs\<close>): callers, batches, savepoints, commits, answers and hooks.
  \<^item> Usage_Report (\<open>ports/usage_source.rs\<close>, \<open>metering/parse.rs\<close>): the sentinel lines of a self-reporting agent and
    the usage objects of a provider's response.
  \<^item> Usage_Drain (\<open>domain/supervisor/usage.rs\<close>, the drain plans of \<open>domain/supervisor/mod.rs\<close>): the passes over the
    captured logs and over the metering queue, with their parks and the truncation, the ingest of one report,
    and what a committed breach does.
  \<^item> Supervision (\<open>domain/supervisor/lifecycle.rs\<close>): stop, pause and resume of a held process, and the enforcement
    of a breach by them.
  \<^item> Supervision_Facts, Supervision_Frames, Usage_Accounting, Stop_Facts, Supervision_Demo: the depth at which the
    recursion of stop, drain and breach closes; what no operation changes; the accounting of every report a
    process writes; what a stop answers; a concrete process, and two runs in which a report is lost or counted
    twice.
  \<^item> Manifest (\<open>manifest.rs\<close>, \<open>capability.rs\<close>, \<open>metering.rs\<close>, \<open>os.rs\<close> and \<open>lib.rs\<close> of \<open>hekma-adapter-api/src\<close>): the
    sections of an adapter's manifest, their validation, and the negotiation of the contract version.
  \<^item> Probes (\<open>domain/probe_kinds.rs\<close>, \<open>domain/readiness.rs\<close>, \<open>domain/liveness.rs\<close>): one attempt of a declared
    poll, the readiness wait of a start, the liveness check and its failure window.
  \<^item> Probe_Urls, Probe_Facts, Probe_Demo: which admitted URLs the attempt can dial, that the polls read whole
    texts whatever their pieces, the end of the readiness wait, what a validated manifest promises, and concrete
    polls.
  \<^item> Config, Key_Suggestion, Config_Resolution (\<open>domain/config.rs\<close>): the layered configuration, its
    resolver and the layer-by-layer lookup it agrees with, the known keys, the validation of a write with
    its suggestion, the live reads of limits and rates.
  \<^item> Config_Delivery (\<open>hekma-adapter-api/src/config.rs\<close>, \<open>ports/secret_resolver.rs\<close>, \<open>adapter/mod.rs\<close>): the
    adapter's mapping, secret references, and the delivery of every value into the launch of a process.
  \<^item> Config_Store (\<open>domain/registry.rs\<close>, \<open>engine.rs\<close>, \<open>domain/supervisor/spawn.rs\<close>): the configuration file
    under the registry, setting a key, and the two configurations of a start.

  Conventions. A Rust \<open>String\<close> is its UTF-8 bytes. \<open>u32\<close> and \<open>u64\<close> are words, \<open>i64\<close> counts and micros are
  integers with the saturation and the range checks of the code written out; a duration is a number of
  nanoseconds. SQL tables are lists of row records in the order of their keys, columns hold what the code
  stores (text for enums), and every read decodes and can fail as the code's does. A store operation runs
  in the savepoint of its writer job, so an error yields no state: the model returns the error alone.
  Time, minted randomness and what SQLite or the operating system decides are arguments.
  \<open>serde_json\<close>'s rendering of an event is a parameter, assumed only not to fail where a property says so.

  What the lemma groups show. Each component's lemmas give its functional behaviour branch by branch;
  \<open>Run_Store_Facts\<close> reduces SQL rows to the abstract content; \<open>Run_Ops_Facts\<close> and \<open>Run_Ops_Growth\<close> show
  that an operation is a sequence of logged writes, from which \<open>Run_System\<close> and \<open>Run_Tree\<close> prove the
  invariants of every reachable engine by rule induction: the snapshot mirrors the store, an instance has
  one open process-owning Run at most, Runs form trees of bounded depth, no open Run hangs under an ended
  owner. \<open>Ledger_Facts\<close> reduces the incrementally folded rollups to a scan of the rows. \<open>Pipeline_Facts\<close>
  carries the invariant through an evaluation, so that no latched ceiling fires again and every reached one
  does. \<open>Store_Writer\<close> proves the writer serializable and draining. The interfaces between components are
  locales (a keyed store for the Run records, the publisher of the snapshot, the outbox's journal, the
  planner's counters, the relations every operation of the supervisor keeps), each interpreted on the definitions of the component that provides it.

  Bounds and fuel. The walk from a Run to its root takes fuel: the code bounds it by the nesting bound of
  eight levels where it has one, and by the number of rows where SQL's recursive query stops by itself; the
  tree invariant shows that is enough. The writer's loop is a step relation with a measure.

  The enforcement of a breach is recursive in the code: a stop drains reports, a report can fire a breach, a
  breach can stop. It is unfolded two levels deep; \<open>Supervision_Facts\<close> proves that more levels change nothing.

  The readiness wait is a recursion over its rounds; with the sleep of the code between them it is over within
  \<open>timeout_ms / 100 ms + 2\<close> rounds (\<open>Probe_Facts\<close>). A manifest is taken as the TOML decoder hands it over, the
  semver parser is an argument, and paths are read as on Unix.

  Not modelled: process start, sockets, HTTP, signals and the polling loops around them - what the process and
  the operating system answer during a command is an argument of the command; the engine
  facade, the host daemon and the command line, which are wrappers around the operations above; the
  conformance kit; schema migrations; rendering of errors for display.
\<close>

end
